(* ===== verification/JsPrelude.thy ===== *)
theory JsPrelude
  imports Main "HOL-Library.Multiset" "HOL-Library.AList"
begin

text \<open>
  The vocabulary of the development: the parts of the JavaScript runtime library the
  modelled code calls, and the generic lemmas the component theories share.

  \<^item> \<open>result\<close>: a value or a thrown error; \<open>res_bind\<close>, \<open>res_guard\<close> and \<open>res_map\<close> are
    statement sequencing, a guarded \<^verbatim>\<open>throw\<close> and \<^verbatim>\<open>Array.map\<close> with a throwing callback.
  \<^item> \<open>coalesce\<close> and \<open>truthy\<close>: the \<^verbatim>\<open>??\<close> operator and the truth value of a nullable number.
  \<^item> \<open>js_sort\<close>: \<^verbatim>\<open>Array.prototype.sort\<close> with a comparator. ECMAScript leaves the algorithm
    open and requires a stable sorted permutation; the locale \<open>comparator\<close> shows that for a
    consistent comparator there is exactly one such list and that \<open>js_sort\<close> computes it.
  \<^item> \<open>js_map\<close>: the insertion-ordered \<^verbatim>\<open>Map\<close>, an association list with the library's
    \<open>AList.update\<close> as \<^verbatim>\<open>set\<close> and \<open>map_of\<close> as \<^verbatim>\<open>get\<close>.
  \<^item> \<open>js_uniq\<close>: the elements of a \<^verbatim>\<open>Set\<close> built from an array, in insertion order.
  \<^item> \<open>show_nat\<close>, \<open>show_int\<close>: decimal rendering of integers in template literals.
  \<^item> \<open>js_group_by\<close>: bucketing into a \<^verbatim>\<open>Map\<close>; ranks from positions of a sorted list.
  \<^item> \<open>js_at\<close>, \<open>js_trim\<close>, \<open>js_lower\<close>, \<open>js_number\<close>: array reads and string functions.

  Numbers that the code treats as integers are \<open>int\<close> (or \<open>nat\<close> for indices and lengths);
  \<^verbatim>\<open>null\<close> and \<^verbatim>\<open>undefined\<close> are \<open>None\<close>.
\<close>

section \<open>Collections of rewrite rules\<close>

named_theorems res_simps
named_theorems js_map_simps

section \<open>Thrown errors\<close>

type_synonym ('e, 'a) result = "'e + 'a"

definition res_bind :: "('e, 'a) result \<Rightarrow> ('a \<Rightarrow> ('e, 'b) result) \<Rightarrow> ('e, 'b) result" where
  "res_bind m f = (case m of Inl e \<Rightarrow> Inl e | Inr x \<Rightarrow> f x)"

definition res_guard :: "bool \<Rightarrow> 'e \<Rightarrow> ('e, unit) result" where
  "res_guard ok e = (if ok then Inr () else Inl e)"

fun res_map :: "('a \<Rightarrow> ('e, 'b) result) \<Rightarrow> 'a list \<Rightarrow> ('e, 'b list) result" where
  "res_map f [] = Inr []"
| "res_map f (x # xs) = res_bind (f x) (\<lambda>y. res_bind (res_map f xs) (\<lambda>ys. Inr (y # ys)))"

fun res_iter :: "('a \<Rightarrow> 's \<Rightarrow> ('e, 's) result) \<Rightarrow> 'a list \<Rightarrow> 's \<Rightarrow> ('e, 's) result" where
  "res_iter f [] s = Inr s"
| "res_iter f (x # xs) s = res_bind (f x s) (res_iter f xs)"

lemma res_bind_simps [simp, res_simps]:
  "res_bind (Inl e) f = Inl e"
  "res_bind (Inr x) f = f x"
  by (simp_all add: res_bind_def)

lemma res_bind_Inr_iff [res_simps]:
  "res_bind m f = Inr y \<longleftrightarrow> (\<exists>x. m = Inr x \<and> f x = Inr y)"
  by (cases m) simp_all

lemma res_bind_Inl_iff [res_simps]:
  "res_bind m f = Inl e \<longleftrightarrow> m = Inl e \<or> (\<exists>x. m = Inr x \<and> f x = Inl e)"
  by (cases m) simp_all

lemma res_guard_Inr_iff [simp, res_simps]: "res_guard ok e = Inr u \<longleftrightarrow> ok"
  by (simp add: res_guard_def)

lemma res_guard_Inl_iff [simp, res_simps]: "res_guard ok e = Inl e' \<longleftrightarrow> \<not> ok \<and> e' = e"
  by (auto simp: res_guard_def)

lemma if_Inl_Inr [res_simps]: "(if c then Inl e else m) = Inr y \<longleftrightarrow> \<not> c \<and> m = Inr y"
  by simp

lemma res_map_Inr_iff:
  "res_map f xs = Inr ys \<longleftrightarrow> list_all2 (\<lambda>x y. f x = Inr y) xs ys"
  by (induction xs arbitrary: ys) (auto simp: res_bind_Inr_iff list_all2_Cons1)

lemma res_iter_invariant:
  assumes "res_iter f xs s = Inr s'" and "P s"
    and "\<And>x s t. x \<in> set xs \<Longrightarrow> P s \<Longrightarrow> f x s = Inr t \<Longrightarrow> P t"
  shows "P s'"
  using assms by (induction xs arbitrary: s) (auto simp: res_bind_Inr_iff)

section \<open>Nullable numbers\<close>

definition coalesce :: "'a option \<Rightarrow> 'a \<Rightarrow> 'a" where
  "coalesce x d = (case x of None \<Rightarrow> d | Some v \<Rightarrow> v)"

lemma coalesce_simps [simp]: "coalesce None d = d" "coalesce (Some v) d = v"
  by (simp_all add: coalesce_def)

definition truthy :: "int option \<Rightarrow> bool" where
  "truthy x = (case x of None \<Rightarrow> False | Some v \<Rightarrow> v \<noteq> 0)"

lemma truthy_simps [simp]: "\<not> truthy None" "truthy (Some v) \<longleftrightarrow> v \<noteq> 0"
  by (simp_all add: truthy_def)

lemma truthyE [elim]:
  assumes "truthy x"
  obtains v where "x = Some v" and "v \<noteq> 0"
  using assms by (cases x) auto

section \<open>Sorting with a comparator\<close>

fun js_insert :: "('a \<Rightarrow> 'a \<Rightarrow> int) \<Rightarrow> 'a \<Rightarrow> 'a list \<Rightarrow> 'a list" where
  "js_insert cmp x [] = [x]"
| "js_insert cmp x (y # ys) = (if cmp x y \<le> 0 then x # y # ys else y # js_insert cmp x ys)"

definition js_sort :: "('a \<Rightarrow> 'a \<Rightarrow> int) \<Rightarrow> 'a list \<Rightarrow> 'a list" where
  "js_sort cmp xs = foldr (js_insert cmp) xs []"

lemma js_sort_simps [simp]:
  "js_sort cmp [] = []"
  "js_sort cmp (x # xs) = js_insert cmp x (js_sort cmp xs)"
  by (simp_all add: js_sort_def)

lemma mset_js_insert [simp]: "mset (js_insert cmp x xs) = add_mset x (mset xs)"
  by (induction xs) auto

lemma mset_js_sort [simp]: "mset (js_sort cmp xs) = mset xs"
  by (induction xs) auto

lemma set_js_sort [simp]: "set (js_sort cmp xs) = set xs"
  by (metis mset_js_sort set_mset_mset)

lemma length_js_sort [simp]: "length (js_sort cmp xs) = length xs"
  by (metis mset_js_sort size_mset)

lemma distinct_js_sort [simp]: "distinct (js_sort cmp xs) = distinct xs"
  by (metis mset_js_sort mset_eq_imp_distinct_iff)

lemma set_js_insert [simp]: "set (js_insert cmp x xs) = insert x (set xs)"
  by (metis mset_js_insert set_mset_add_mset_insert set_mset_mset)

lemma length_filter_js_sort [simp]:
  "length (filter P (js_sort cmp xs)) = length (filter P xs)"
  by (metis mset_filter mset_js_sort size_mset)

text \<open>
  The contract a comparator owes to \<^verbatim>\<open>Array.prototype.sort\<close>: swapping the arguments swaps
  the sign, and \<open>\<le> 0\<close> is transitive.
\<close>

locale comparator =
  fixes cmp :: "'a \<Rightarrow> 'a \<Rightarrow> int"
  assumes cmp_swap: "cmp x y < 0 \<longleftrightarrow> 0 < cmp y x"
    and cmp_trans: "cmp x y \<le> 0 \<Longrightarrow> cmp y z \<le> 0 \<Longrightarrow> cmp x z \<le> 0"
begin

lemma cmp_refl [simp]: "cmp x x = 0"
  using cmp_swap [of x x] by arith

lemma cmp_total: "cmp x y \<le> 0 \<or> cmp y x \<le> 0"
  using cmp_swap [of x y] cmp_swap [of y x] by linarith

lemma cmp_le_antisym: "cmp x y \<le> 0 \<Longrightarrow> cmp y x \<le> 0 \<Longrightarrow> cmp x y = 0"
  using cmp_swap [of x y] by linarith

lemma cmp_zero_swap: "cmp x y = 0 \<longleftrightarrow> cmp y x = 0"
  using cmp_swap [of x y] cmp_swap [of y x] by linarith

lemma sorted_js_insert:
  assumes "sorted_wrt (\<lambda>x y. cmp x y \<le> 0) xs"
  shows "sorted_wrt (\<lambda>x y. cmp x y \<le> 0) (js_insert cmp x xs)"
  using assms
proof (induction xs)
  case Nil
  then show ?case by simp
next
  case (Cons y ys)
  show ?case
  proof (cases "cmp x y \<le> 0")
    case True
    with Cons.prems show ?thesis by (auto intro: cmp_trans)
  next
    case False
    then have "cmp y x \<le> 0" using cmp_total by blast
    with False Cons show ?thesis by auto
  qed
qed

lemma sorted_js_sort: "sorted_wrt (\<lambda>x y. cmp x y \<le> 0) (js_sort cmp xs)"
  by (induction xs) (auto intro: sorted_js_insert)

lemma js_insert_front:
  "(\<And>y. y \<in> set ys \<Longrightarrow> cmp x y \<le> 0) \<Longrightarrow> js_insert cmp x ys = x # ys"
  by (cases ys) auto

lemma filter_js_insert_neg: "\<not> P x \<Longrightarrow> filter P (js_insert cmp x ys) = filter P ys"
  by (induction ys) auto

lemma filter_js_insert_equiv:
  assumes "cmp z x = 0"
  shows "filter (\<lambda>y. cmp z y = 0) (js_insert cmp x ys) = x # filter (\<lambda>y. cmp z y = 0) ys"
proof (induction ys)
  case Nil
  with assms show ?case by simp
next
  case (Cons y ys)
  have "cmp x y \<le> 0" if "cmp z y = 0"
    using cmp_trans [of x z y] cmp_zero_swap [of z x] assms that by simp
  with assms Cons show ?case by auto
qed

text \<open>Stability: equivalent elements keep their order.\<close>

lemma js_sort_stable:
  "filter (\<lambda>y. cmp z y = 0) (js_sort cmp xs) = filter (\<lambda>y. cmp z y = 0) xs"
  by (induction xs) (auto simp: filter_js_insert_equiv filter_js_insert_neg)

lemma sorted_stable_eq:
  assumes "sorted_wrt (\<lambda>x y. cmp x y \<le> 0) xs" and "sorted_wrt (\<lambda>x y. cmp x y \<le> 0) ys"
    and "\<And>z. filter (\<lambda>y. cmp z y = 0) xs = filter (\<lambda>y. cmp z y = 0) ys"
  shows "xs = ys"
  using assms
proof (induction xs arbitrary: ys)
  case Nil
  have "y \<notin> set ys" for y
  proof -
    from Nil.prems(3) [of y] have "filter (\<lambda>u. cmp y u = 0) ys = []" by simp
    then show ?thesis by (auto simp: filter_empty_conv)
  qed
  then show ?case by (cases ys) auto
next
  case (Cons x xs)
  have mem: "y \<in> set ys \<longleftrightarrow> y \<in> set (x # xs)" for y
  proof -
    have "y \<in> set zs \<longleftrightarrow> y \<in> set (filter (\<lambda>u. cmp y u = 0) zs)" for zs
      by simp
    then show ?thesis using Cons.prems(3) [of y] by metis
  qed
  then obtain y ys' where ys: "ys = y # ys'"
    by (cases ys) auto
  have "cmp y x \<le> 0" using mem [of x] Cons.prems(2) by (auto simp: ys)
  moreover have "cmp x y \<le> 0" using mem [of y] Cons.prems(1) by (auto simp: ys)
  ultimately have xy: "cmp x y = 0" by (intro cmp_le_antisym)
  with Cons.prems(3) [of x] have eq: "x = y" by (simp add: ys)
  have tails: "filter (\<lambda>u. cmp z u = 0) xs = filter (\<lambda>u. cmp z u = 0) ys'" for z
    using Cons.prems(3) [of z] by (auto simp: ys eq split: if_splits)
  have "xs = ys'"
    by (rule Cons.IH) (use Cons.prems(1,2) tails in \<open>auto simp: ys\<close>)
  with eq ys show ?case by simp
qed

text \<open>
  Any list an engine may return - sorted, and stable on every class of equivalent
  elements - is the one \<open>js_sort\<close> computes.
\<close>

lemma js_sort_unique:
  assumes "sorted_wrt (\<lambda>x y. cmp x y \<le> 0) ys"
    and "\<And>z. filter (\<lambda>y. cmp z y = 0) ys = filter (\<lambda>y. cmp z y = 0) xs"
  shows "ys = js_sort cmp xs"
  by (rule sorted_stable_eq) (simp_all add: assms sorted_js_sort js_sort_stable)

lemma js_sort_sorted: "sorted_wrt (\<lambda>x y. cmp x y \<le> 0) xs \<Longrightarrow> js_sort cmp xs = xs"
  by (rule js_sort_unique [symmetric]) auto

text \<open>Without ties the order of the input does not matter.\<close>

lemma js_sort_perm:
  assumes "mset xs = mset ys" and "\<And>x y. x \<in> set xs \<Longrightarrow> y \<in> set xs \<Longrightarrow> cmp x y = 0 \<Longrightarrow> x = y"
  shows "js_sort cmp xs = js_sort cmp ys"
proof (rule sorted_stable_eq)
  fix z
  have "\<exists>x. set (filter (\<lambda>y. cmp z y = 0) xs) \<subseteq> {x}"
  proof (cases "filter (\<lambda>y. cmp z y = 0) xs")
    case (Cons x us)
    have "y = x" if "y \<in> set xs" "cmp z y = 0" for y
    proof (rule assms(2) [OF that(1)])
      have x: "x \<in> set (filter (\<lambda>y. cmp z y = 0) xs)" using Cons by simp
      then show "x \<in> set xs" by simp
      from x have "cmp z x = 0" "cmp x z = 0" using cmp_zero_swap by auto
      moreover have "cmp y z = 0" using that(2) cmp_zero_swap by simp
      ultimately show "cmp y x = 0"
        using that(2) cmp_trans [of y z x] cmp_trans [of x z y] by (intro cmp_le_antisym) simp_all
    qed
    then show ?thesis by auto
  qed simp
  then obtain x where x: "set (filter (\<lambda>y. cmp z y = 0) xs) \<subseteq> {x}" ..
  have m: "mset (filter (\<lambda>y. cmp z y = 0) xs) = mset (filter (\<lambda>y. cmp z y = 0) ys)"
    using assms(1) by (metis mset_filter)
  have "us = vs" if "mset us = mset vs" "set us \<subseteq> {x}" for us vs
    using that by (metis mset_eq_setD mset_eq_length replicate_length_same singletonD subsetD)
  with m x show "filter (\<lambda>y. cmp z y = 0) (js_sort cmp xs) = filter (\<lambda>y. cmp z y = 0) (js_sort cmp ys)"
    by (simp add: js_sort_stable)
qed (simp_all add: sorted_js_sort)

end

text \<open>The two ways the code builds comparators: a key difference, and a chain of tie-breaks.\<close>

lemma comparator_key: "comparator (\<lambda>x y. f x - f y)"
  by unfold_locales auto

lemma comparator_on: "comparator cmp \<Longrightarrow> comparator (\<lambda>x y. cmp (f x) (f y))"
  by (simp add: comparator_def)

lemma comparator_key_desc: "comparator (\<lambda>x y. f y - f x)"
  by unfold_locales auto

lemma comparator_then:
  assumes "comparator c" and "comparator d"
  shows "comparator (\<lambda>x y. if c x y \<noteq> 0 then c x y else d x y)"
proof -
  note cs = comparator.cmp_swap [OF assms(1)] comparator.cmp_zero_swap [OF assms(1)]
    and ct = comparator.cmp_trans [OF assms(1)]
    and ds = comparator.cmp_swap [OF assms(2)] and dt = comparator.cmp_trans [OF assms(2)]
  show ?thesis
  proof unfold_locales
    fix x y
    show "((if c x y \<noteq> 0 then c x y else d x y) < 0) =
        (0 < (if c y x \<noteq> 0 then c y x else d y x))"
      using cs [of x y] ds [of x y] by auto
  next
    fix x y z
    assume xy: "(if c x y \<noteq> 0 then c x y else d x y) \<le> 0"
      and yz: "(if c y z \<noteq> 0 then c y z else d y z) \<le> 0"
    have le: "c x y \<le> 0" "c y z \<le> 0" using xy yz by (auto split: if_splits)
    show "(if c x z \<noteq> 0 then c x z else d x z) \<le> 0"
    proof (cases "c x z = 0")
      case False
      with le ct [of x y z] show ?thesis by simp
    next
      case True
      then have "c z x \<le> 0" using cs(2) [of x z] by simp
      then have "c y x \<le> 0" "c z y \<le> 0" using le ct [of y z x] ct [of z x y] by auto
      then have "c x y = 0" "c y z = 0"
        using le comparator.cmp_le_antisym [OF assms(1)] by auto
      with xy yz True dt [of x y z] show ?thesis by simp
    qed
  qed
qed

section \<open>Insertion-ordered maps and sets\<close>

type_synonym ('k, 'v) js_map = "('k \<times> 'v) list"

abbreviation js_set :: "'k \<Rightarrow> 'v \<Rightarrow> ('k, 'v) js_map \<Rightarrow> ('k, 'v) js_map" where
  "js_set \<equiv> AList.update"

abbreviation js_get :: "('k, 'v) js_map \<Rightarrow> 'k \<Rightarrow> 'v option" where
  "js_get \<equiv> map_of"

definition js_map_new :: "('k \<times> 'v) list \<Rightarrow> ('k, 'v) js_map" where
  "js_map_new entries = foldl (\<lambda>m (k, v). js_set k v m) [] entries"

lemma js_get_set [simp, js_map_simps]:
  "js_get (js_set k v m) k' = (if k' = k then Some v else js_get m k')"
  by (simp add: AList.update_conv)

lemma js_get_foldl_set:
  "js_get (foldl (\<lambda>m (k, v). js_set k v m) m entries) =
     (\<lambda>k. case map_of (rev entries) k of None \<Rightarrow> js_get m k | Some v \<Rightarrow> Some v)"
proof (induction entries arbitrary: m)
  case Nil
  then show ?case by simp
next
  case (Cons e es)
  then show ?case
    by (cases e) (auto simp: fun_eq_iff map_add_def split: option.splits)
qed

lemma js_get_map_new [js_map_simps]: "js_get (js_map_new entries) = map_of (rev entries)"
  by (auto simp: js_map_new_def js_get_foldl_set fun_eq_iff split: option.splits)

lemma map_of_rev_distinct:
  assumes "distinct (map fst entries)"
  shows "map_of (rev entries) = map_of entries"
proof (rule ext)
  fix k
  have rev: "distinct (map fst (rev entries))" using assms by (simp add: rev_map [symmetric])
  show "map_of (rev entries) k = map_of entries k"
  proof (cases "map_of entries k")
    case None
    then have "map_of (rev entries) k = None" by (simp add: map_of_eq_None_iff)
    with None show ?thesis by simp
  next
    case (Some v)
    with rev assms show ?thesis by simp
  qed
qed

lemma js_get_map_new_distinct:
  "distinct (map fst entries) \<Longrightarrow> js_get (js_map_new entries) = map_of entries"
  by (simp add: js_get_map_new map_of_rev_distinct)

lemma map_of_rev_map_key:
  assumes "map_of (rev (map (\<lambda>x. (f x, g x)) xs)) k = Some v"
  shows "\<exists>x \<in> set xs. f x = k \<and> g x = v"
  using map_of_SomeD [OF assms] by auto

definition js_uniq :: "'a list \<Rightarrow> 'a list" where
  "js_uniq xs = rev (remdups (rev xs))"

lemma set_js_uniq [simp]: "set (js_uniq xs) = set xs"
  and distinct_js_uniq [simp]: "distinct (js_uniq xs)"
  by (simp_all add: js_uniq_def)

lemma js_uniq_Nil [simp]: "js_uniq [] = []"
  by (simp add: js_uniq_def)

lemma length_js_uniq_card: "length (js_uniq xs) = card (set xs)"
  by (metis distinct_card distinct_js_uniq set_js_uniq)

lemma js_uniq_distinct_id [simp]: "distinct xs \<Longrightarrow> js_uniq xs = xs"
  by (simp add: js_uniq_def distinct_remdups_id)

lemma length_js_uniq_eq_iff: "length (js_uniq xs) = length xs \<longleftrightarrow> distinct xs"
  by (metis length_js_uniq_card card_distinct distinct_card)

section \<open>Decimal rendering\<close>

definition digit_char :: "nat \<Rightarrow> char" where
  "digit_char d = char_of (48 + d)"

fun show_nat :: "nat \<Rightarrow> string" where
  "show_nat n = (if n < 10 then [digit_char n] else show_nat (n div 10) @ [digit_char (n mod 10)])"

declare show_nat.simps [simp del]

definition show_int :: "int \<Rightarrow> string" where
  "show_int i = (if i < 0 then ''-'' @ show_nat (nat (- i)) else show_nat (nat i))"

definition read_nat :: "string \<Rightarrow> nat" where
  "read_nat s = foldl (\<lambda>a c. 10 * a + (of_char c - 48)) 0 s"

lemma of_char_digit: "d < 10 \<Longrightarrow> (of_char (digit_char d) :: nat) = 48 + d"
  by (simp add: digit_char_def)

lemma read_show_nat [simp]: "read_nat (show_nat n) = n"
proof (induction n rule: show_nat.induct)
  case (1 n)
  show ?case
  proof (cases "n < 10")
    case True
    then show ?thesis by (simp add: show_nat.simps [of n] read_nat_def of_char_digit)
  next
    case False
    with "1.IH" show ?thesis
      by (simp add: show_nat.simps [of n] read_nat_def of_char_digit)
  qed
qed

lemma show_nat_inject [simp]: "show_nat m = show_nat n \<longleftrightarrow> m = n"
  by (metis read_show_nat)

lemma show_nat_digits: "c \<in> set (show_nat n) \<Longrightarrow> \<exists>d<10. c = digit_char d"
proof (induction n rule: show_nat.induct)
  case (1 n)
  show ?case
  proof (cases "n < 10")
    case True
    with "1.prems" show ?thesis by (auto simp: show_nat.simps [of n])
  next
    case False
    with "1.prems" consider "c \<in> set (show_nat (n div 10))" | "c = digit_char (n mod 10)"
      by (auto simp: show_nat.simps [of n])
    then show ?thesis
    proof cases
      case 1
      with "1.IH" False show ?thesis by blast
    next
      case 2
      then show ?thesis by (intro exI [of _ "n mod 10"]) simp
    qed
  qed
qed

lemma digit_char_neq: "d < 10 \<Longrightarrow> of_char c < (48::nat) \<or> 57 < (of_char c :: nat) \<Longrightarrow> c \<noteq> digit_char d"
  by (auto simp: of_char_digit)

lemma show_nat_no_sep:
  "of_char c < (48::nat) \<or> 57 < (of_char c :: nat) \<Longrightarrow> c \<notin> set (show_nat n)"
  using show_nat_digits digit_char_neq by blast

lemma show_nat_nonempty [simp]: "show_nat n \<noteq> []"
  by (subst show_nat.simps) simp

lemma show_int_inject [simp]: "show_int i = show_int j \<longleftrightarrow> i = j"
proof -
  have dash: "CHR ''-'' \<notin> set (show_nat n)" for n
    by (rule show_nat_no_sep) simp
  have "CHR ''-'' # s \<noteq> show_nat n" for s n
    using dash [of n] by (metis list.set_intros(1))
  note neq = this this [symmetric]
  show ?thesis by (auto simp: show_int_def neq)
qed

section \<open>Array access and strings\<close>

text \<open>Reading an array outside its bounds gives \<^verbatim>\<open>undefined\<close>.\<close>

definition js_at :: "'a list \<Rightarrow> int \<Rightarrow> 'a option" where
  "js_at xs i = (if 0 \<le> i \<and> nat i < length xs then Some (xs ! nat i) else None)"

lemma js_at_of_nat [simp]: "js_at xs (int i) = (if i < length xs then Some (xs ! i) else None)"
  by (simp add: js_at_def)

lemma js_at_Some_in_set: "js_at xs i = Some x \<Longrightarrow> x \<in> set xs"
  by (auto simp: js_at_def split: if_splits)

definition is_space_char :: "char \<Rightarrow> bool" where
  "is_space_char c = (let k = (of_char c :: nat) in k = 32 \<or> 9 \<le> k \<and> k \<le> 13 \<or> k = 160)"

definition js_trim :: "string \<Rightarrow> string" where
  "js_trim s = rev (dropWhile is_space_char (rev (dropWhile is_space_char s)))"

definition is_digit_char :: "char \<Rightarrow> bool" where
  "is_digit_char c = (let k = (of_char c :: nat) in 48 \<le> k \<and> k \<le> 57)"

definition lower_char :: "char \<Rightarrow> char" where
  "lower_char c = (let k = (of_char c :: nat) in if 65 \<le> k \<and> k \<le> 90 then char_of (k + 32) else c)"

definition js_lower :: "string \<Rightarrow> string" where
  "js_lower = map lower_char"

text \<open>
  \<^verbatim>\<open>Number(s)\<close> on strings: surrounding white space is dropped and the empty literal is 0; then a
  hexadecimal, octal or binary literal, or an optionally signed decimal literal with optional
  fraction and exponent. The result is the number when the literal denotes an integer; \<open>None\<close>
  stands for \<^verbatim>\<open>NaN\<close> and for a fractional value. Integers are exact, as the code's are up to
  \<^verbatim>\<open>Number.MAX_SAFE_INTEGER\<close>.
\<close>

definition digit_value :: "char \<Rightarrow> nat" where
  "digit_value c =
     (let k = of_char (lower_char c) in
      if 48 \<le> k \<and> k \<le> 57 then k - 48 else if 97 \<le> k \<and> k \<le> 122 then k - 87 else 36)"

definition read_radix :: "nat \<Rightarrow> string \<Rightarrow> int option" where
  "read_radix b ds =
     (if ds \<noteq> [] \<and> (\<forall>c \<in> set ds. digit_value c < b)
      then Some (int (foldl (\<lambda>a c. b * a + digit_value c) 0 ds)) else None)"

definition read_exponent :: "string \<Rightarrow> int option" where
  "read_exponent r =
     (case r of
        [] \<Rightarrow> Some 0
      | e # ds \<Rightarrow>
          if lower_char e \<noteq> CHR ''e'' then None
          else if ds \<noteq> [] \<and> list_all is_digit_char ds then Some (int (read_nat ds))
          else if length ds \<ge> 2 \<and> list_all is_digit_char (tl ds) \<and> hd ds = CHR ''+''
            then Some (int (read_nat (tl ds)))
          else if length ds \<ge> 2 \<and> list_all is_digit_char (tl ds) \<and> hd ds = CHR ''-''
            then Some (- int (read_nat (tl ds)))
          else None)"

definition read_decimal :: "string \<Rightarrow> int option" where
  "read_decimal t =
     (let whole = takeWhile is_digit_char t;
          rest = dropWhile is_digit_char t;
          dot = (rest \<noteq> [] \<and> hd rest = CHR ''.'');
          frac = (if dot then takeWhile is_digit_char (tl rest) else []);
          tail = (if dot then dropWhile is_digit_char (tl rest) else rest)
      in if whole = [] \<and> frac = [] then None
         else (case read_exponent tail of
                 None \<Rightarrow> None
               | Some e \<Rightarrow>
                   (let m = int (read_nat (whole @ frac)); scale = e - int (length frac) in
                    if scale \<ge> 0 then Some (m * 10 ^ nat scale)
                    else if 10 ^ nat (- scale) dvd m then Some (m div 10 ^ nat (- scale))
                    else None)))"

definition js_number :: "string \<Rightarrow> int option" where
  "js_number s =
     (let t = js_trim s; prefix = map lower_char (take 2 t) in
      if t = [] then Some 0
      else if prefix = ''0x'' then read_radix 16 (drop 2 t)
      else if prefix = ''0o'' then read_radix 8 (drop 2 t)
      else if prefix = ''0b'' then read_radix 2 (drop 2 t)
      else if hd t = CHR ''-'' then map_option uminus (read_decimal (tl t))
      else if hd t = CHR ''+'' then read_decimal (tl t)
      else read_decimal t)"

lemma digit_not_space: "is_digit_char c \<Longrightarrow> \<not> is_space_char c"
  by (auto simp: is_digit_char_def is_space_char_def Let_def)

lemma js_trim_digits:
  assumes "list_all is_digit_char s"
  shows "js_trim s = s"
proof -
  have id: "dropWhile is_space_char t = t" if "list_all is_digit_char t" for t
    using that digit_not_space by (cases t) auto
  show ?thesis using assms id [of s] id [of "rev s"] by (simp add: js_trim_def list_all_iff)
qed

lemma read_decimal_digits:
  assumes "list_all is_digit_char s" and "s \<noteq> []"
  shows "read_decimal s = Some (int (read_nat s))"
proof -
  have "takeWhile is_digit_char s = s" "dropWhile is_digit_char s = []"
    using assms by (auto simp: list_all_iff takeWhile_eq_all_conv)
  note whole = this
  show ?thesis unfolding read_decimal_def whole by (simp add: assms(2) read_exponent_def)
qed

lemma lower_digit: "is_digit_char c \<Longrightarrow> is_digit_char (lower_char c)"
  by (auto simp: is_digit_char_def lower_char_def Let_def)

lemma js_number_digits:
  assumes "list_all is_digit_char s" and "s \<noteq> []"
  shows "js_number s = Some (int (read_nat s))"
proof -
  have prefix: "p \<noteq> ''0x'' \<and> p \<noteq> ''0o'' \<and> p \<noteq> ''0b''" if "list_all is_digit_char p" for p
    using that by (auto simp: is_digit_char_def)
  have sign: "c \<noteq> CHR ''-'' \<and> c \<noteq> CHR ''+''" if "is_digit_char c" for c
    using that by (auto simp: is_digit_char_def)
  have "list_all is_digit_char (map lower_char (take 2 s))"
    using assms(1) lower_digit by (auto simp: list_all_iff dest: in_set_takeD)
  note prefix = prefix [OF this]
  have "is_digit_char (hd s)" using assms by (cases s) auto
  note sign = sign [OF this]
  show ?thesis
    unfolding js_number_def js_trim_digits [OF assms(1)] Let_def
    by (simp only: assms(2) prefix sign if_False read_decimal_digits [OF assms])
qed

lemma show_nat_all_digits: "list_all is_digit_char (show_nat n)"
  by (auto simp: list_all_iff is_digit_char_def of_char_digit dest!: show_nat_digits)

lemma js_number_show_nat [simp]: "js_number (show_nat n) = Some (int n)"
  by (simp add: js_number_digits show_nat_all_digits)

section \<open>Grouping and ranking\<close>

lemma mset_distinct_map:
  assumes "mset xs = mset ys"
  shows "distinct (map f xs) \<longleftrightarrow> distinct (map f ys)"
proof -
  have "mset (map f xs) = mset (map f ys)" using assms by simp
  then show ?thesis by (rule mset_eq_imp_distinct_iff)
qed

text \<open>Pushing each element onto the list its key has in a map.\<close>

definition js_group_by :: "('a \<Rightarrow> 'k) \<Rightarrow> 'a list \<Rightarrow> ('k, 'a list) js_map" where
  "js_group_by f xs = foldl (\<lambda>m x. js_set (f x) (coalesce (js_get m (f x)) [] @ [x]) m) [] xs"

lemma js_group_by_get:
  "js_get (js_group_by f xs) k =
     (if k \<in> f ` set xs then Some (filter (\<lambda>x. f x = k) xs) else None)"
proof (induction xs rule: rev_induct)
  case (snoc x xs)
  have step: "js_group_by f (xs @ [x]) =
      js_set (f x) (coalesce (js_get (js_group_by f xs) (f x)) [] @ [x]) (js_group_by f xs)"
    by (simp add: js_group_by_def)
  have "filter (\<lambda>y. f y = f x) xs = []" if "f x \<notin> f ` set xs"
    using that by (auto simp: filter_empty_conv image_iff)
  with snoc show ?case unfolding step by auto
qed (simp add: js_group_by_def)

lemma js_group_by_coalesce: "coalesce (js_get (js_group_by f xs) k) [] = filter (\<lambda>x. f x = k) xs"
  unfolding js_group_by_get by (auto simp: image_iff intro!: filter_False [symmetric])

context comparator
begin

text \<open>
  Writing the position of each element of the sorted list under its key, later positions
  overwriting earlier ones, leaves the number of elements that are not worse.
\<close>

lemma rank_by_position:
  assumes "sorted_wrt (\<lambda>x y. cmp x y \<le> 0) xs" "g \<in> set xs"
    and key: "\<And>x y. key x = key y \<longleftrightarrow> cmp x y = 0"
  shows "map_of (rev (map (\<lambda>(i, x). (key x, int i + 1)) (enumerate 0 xs))) (key g) =
    Some (int (length (filter (\<lambda>x. cmp x g \<le> 0) xs)))"
  using assms(1,2)
proof (induction xs rule: rev_induct)
  case (snoc x xs)
  have le: "cmp y x \<le> 0" if "y \<in> set xs" for y using snoc.prems(1) that by (auto simp: sorted_wrt_append)
  show ?case
  proof (cases "cmp x g = 0")
    case True
    then have "cmp y g \<le> 0" if "y \<in> set (xs @ [x])" for y
      using that le cmp_trans [of y x g] by auto
    then have "filter (\<lambda>y. cmp y g \<le> 0) (xs @ [x]) = xs @ [x]" by (simp add: filter_id_conv)
    moreover have "key x = key g" using True key by blast
    ultimately show ?thesis by (simp add: enumerate_append_eq)
  next
    case False
    with snoc.prems(2) cmp_refl have g: "g \<in> set xs" by auto
    have "\<not> cmp x g \<le> 0" using le [OF g] False cmp_le_antisym cmp_zero_swap by blast
    moreover have "key x \<noteq> key g" using False key by blast
    ultimately show ?thesis
      using snoc.IH snoc.prems(1) g by (simp add: enumerate_append_eq sorted_wrt_append)
  qed
qed simp

text \<open>At most \<open>n\<close> elements can have a rank of at most \<open>n\<close>.\<close>

lemma rank_at_most:
  "length (filter (\<lambda>g. length (filter (\<lambda>x. cmp x g \<le> 0) xs) \<le> n) xs) \<le> n"
proof -
  let ?Q = "\<lambda>g. length (filter (\<lambda>x. cmp x g \<le> 0) xs) \<le> n"
  define ys where "ys = filter ?Q (js_sort cmp xs)"
  have len: "length (filter ?Q xs) = length ys" by (simp add: ys_def)
  show ?thesis
  proof (cases "ys = []")
    case True
    with len show ?thesis by simp
  next
    case False
    have sorted: "sorted_wrt (\<lambda>x y. cmp x y \<le> 0) ys" unfolding ys_def by (intro sorted_wrt_filter sorted_js_sort)
    have "cmp y (last ys) \<le> 0" if "y \<in> set ys" for y
    proof -
      have "ys = butlast ys @ [last ys]" using False by simp
      with sorted that show ?thesis by (metis Un_iff cmp_refl empty_iff insert_iff le_numeral_extra(3) list.set(1) list.simps(15) set_append sorted_wrt_append)
    qed
    then have "ys = filter (\<lambda>y. cmp y (last ys) \<le> 0) ys" by (simp add: filter_id_conv)
    also have "length \<dots> \<le> length (filter (\<lambda>y. cmp y (last ys) \<le> 0) (js_sort cmp xs))"
      unfolding ys_def filter_filter length_filter_conv_card by (intro card_mono) auto
    finally have "length ys \<le> length (filter (\<lambda>x. cmp x (last ys) \<le> 0) xs)" by simp
    moreover have "?Q (last ys)" using last_in_set [OF False] by (simp add: ys_def)
    ultimately show ?thesis using len by simp
  qed
qed

end

section \<open>State machines\<close>

text \<open>
  The contract of a step relation and its invariant; every component that is a state machine
  interprets it.
\<close>

locale step_invariant =
  fixes step :: "'s \<Rightarrow> 's \<Rightarrow> bool" and inv :: "'s \<Rightarrow> bool"
  assumes step_inv: "step s t \<Longrightarrow> inv s \<Longrightarrow> inv t"
begin

lemma reach_inv: "step\<^sup>*\<^sup>* s t \<Longrightarrow> inv s \<Longrightarrow> inv t"
  by (induction rule: rtranclp_induct) (auto intro: step_inv)

text \<open>A property of pairs of states that composes along invariant states holds along runs.\<close>

lemma reach_relation:
  assumes "\<And>s. inv s \<Longrightarrow> rel s s" and "\<And>s t u. rel s t \<Longrightarrow> inv t \<Longrightarrow> step t u \<Longrightarrow> rel s u"
  shows "step\<^sup>*\<^sup>* s t \<Longrightarrow> inv s \<Longrightarrow> rel s t"
  by (induction rule: rtranclp_induct) (auto intro: assms dest: reach_inv)

end

end
