(* ===== verification/FplTypes.thy ===== *)
theory FplTypes
  imports JsPrelude
begin

text \<open>
  The domain records of \<^verbatim>\<open>src/types/index.ts\<close>: \<open>Event\<close>, \<open>Player\<close>, \<open>Team\<close>, \<open>Phase\<close>,
  \<open>FixtureStat\<close> and \<open>Fixture\<close>, with the source's field names behind a short prefix per
  record. A nullable field is an option. A \<^verbatim>\<open>Date\<close> is its time value in milliseconds, with
  \<open>None\<close> for an invalid date (\<^verbatim>\<open>getTime\<close> gives \<^verbatim>\<open>NaN\<close>), so that the code's finiteness tests
  remain visible; timestamps kept as ISO text stay strings.
\<close>

type_synonym js_date = "int option"

record chip_data =
  chipName :: string
  numberPlayed :: int

record top_element_data =
  te_element :: int
  te_points :: int

record event =
  ev_id :: int
  ev_name :: string
  ev_deadlineTime :: "string option"
  ev_averageEntryScore :: "int option"
  ev_finished :: bool
  ev_dataChecked :: bool
  ev_dataCheckedAt :: "js_date option"
  ev_highestScoringEntry :: "int option"
  ev_deadlineTimeEpoch :: "int option"
  ev_deadlineTimeGameOffset :: "int option"
  ev_highestScore :: "int option"
  ev_isPrevious :: bool
  ev_isCurrent :: bool
  ev_isNext :: bool
  ev_cupLeagueCreate :: bool
  ev_h2hKoMatchesCreated :: bool
  ev_chipPlays :: "chip_data list option"
  ev_mostSelected :: "int option"
  ev_mostTransferredIn :: "int option"
  ev_topElement :: "int option"
  ev_topElementInfo :: "top_element_data option"
  ev_transfersMade :: "int option"
  ev_mostCaptained :: "int option"
  ev_mostViceCaptained :: "int option"
  ev_createdAt :: "js_date option"
  ev_updatedAt :: "js_date option"

record player =
  pl_id :: int
  pl_code :: int
  pl_type :: int
  pl_teamId :: int
  pl_price :: int
  pl_startPrice :: int
  pl_firstName :: string
  pl_secondName :: string
  pl_webName :: string

record team =
  tm_id :: int
  tm_name :: string
  tm_shortName :: string
  tm_code :: int
  tm_draw :: int
  tm_form :: "string option"
  tm_loss :: int
  tm_played :: int
  tm_points :: int
  tm_position :: int
  tm_strength :: "int option"
  tm_teamDivision :: "int option"
  tm_unavailable :: bool
  tm_win :: int
  tm_strengthOverallHome :: int
  tm_strengthOverallAway :: int
  tm_strengthAttackHome :: int
  tm_strengthAttackAway :: int
  tm_strengthDefenceHome :: int
  tm_strengthDefenceAway :: int
  tm_pulseId :: int
  tm_createdAt :: "js_date option"
  tm_updatedAt :: "js_date option"

record phase =
  ph_id :: int
  ph_name :: string
  ph_startEvent :: int
  ph_stopEvent :: int
  ph_highestScore :: "int option"

record stat_item =
  st_value :: int
  st_element :: int

record fixture_stat =
  fs_identifier :: string
  fs_a :: "stat_item list"
  fs_h :: "stat_item list"

record fixture =
  fx_id :: int
  fx_code :: int
  fx_event :: "int option"
  fx_finished :: bool
  fx_finishedProvisional :: bool
  fx_kickoffTime :: "js_date option"
  fx_minutes :: int
  fx_provisionalStartTime :: bool
  fx_started :: "bool option"
  fx_teamA :: int
  fx_teamAScore :: "int option"
  fx_teamH :: int
  fx_teamHScore :: "int option"
  fx_stats :: "fixture_stat list"
  fx_teamHDifficulty :: "int option"
  fx_teamADifficulty :: "int option"
  fx_pulseId :: int
  fx_createdAt :: "js_date option"
  fx_updatedAt :: "js_date option"

text \<open>A nullable boolean in a condition.\<close>

definition is_true :: "bool option \<Rightarrow> bool" where
  "is_true b = (b = Some True)"

lemma is_true_simps [simp]: "\<not> is_true None" "is_true (Some b) = b"
  by (simp_all add: is_true_def)

end
