(* ===== verification/LiveBonus.thy ===== *)
theory LiveBonus
  imports FplTypes
begin

text \<open>
  Live bonus points (\<^verbatim>\<open>src/domain/live-bonus.ts\<close>): ranking one fixture's bonus-point-system
  rows into FPL's tied 3/2/1 tiers, and summing the awards of all fixtures of an event per
  team and player. \<open>fpl_bonus\<close> and \<open>fixture_award\<close> are the reference definitions: the tier of
  a player is decided by how many players of the fixture have strictly more points.
\<close>

section \<open>Model\<close>

record bonus_candidate =
  bc_elementId :: int
  bc_teamId :: int
  bc_value :: int

type_synonym live_bonus_by_team = "(string, (string, int) js_map) js_map"

record live_bonus_payload =
  lb_eventId :: int
  lb_byTeam :: live_bonus_by_team

definition getBonusForElement :: "live_bonus_payload \<Rightarrow> string \<Rightarrow> string \<Rightarrow> int" where
  "getBonusForElement payload team element =
     (case js_get (lb_byTeam payload) team of
        None \<Rightarrow> 0
      | Some row \<Rightarrow> coalesce (js_get row element) 0)"

definition hasAnyBonus :: "live_bonus_payload \<Rightarrow> bool" where
  "hasAnyBonus payload = (\<exists>row \<in> set (map snd (lb_byTeam payload)). length row > 0)"

definition statCandidates :: "fixture_stat option \<Rightarrow> fixture \<Rightarrow> bonus_candidate list" where
  "statCandidates stat f =
     (case stat of
        None \<Rightarrow> []
      | Some s \<Rightarrow>
          map (\<lambda>i. \<lparr>bc_elementId = st_element i, bc_teamId = fx_teamH f, bc_value = st_value i\<rparr>) (fs_h s)
          @ map (\<lambda>i. \<lparr>bc_elementId = st_element i, bc_teamId = fx_teamA f, bc_value = st_value i\<rparr>) (fs_a s))"

text \<open>The inner loop of \<open>awardTier\<close>: walk while the value equals the tier's.\<close>

function awardTier_loop ::
  "bonus_candidate list \<Rightarrow> int \<Rightarrow> int \<Rightarrow> nat \<Rightarrow> (int, int) js_map \<Rightarrow> nat \<times> (int, int) js_map" where
  "awardTier_loop ranked tierValue bonus index m =
     (if index < length ranked \<and> bc_value (ranked ! index) = tierValue
      then awardTier_loop ranked tierValue bonus (index + 1)
             (js_set (bc_elementId (ranked ! index)) bonus m)
      else (index, m))"
  by pat_completeness auto
termination
  by (relation "measure (\<lambda>(ranked, _, _, index, _). length ranked - index)") auto

declare awardTier_loop.simps [simp del]

definition awardTier ::
  "bonus_candidate list \<Rightarrow> int \<Rightarrow> nat \<Rightarrow> (int, int) js_map \<Rightarrow> nat \<times> (int, int) js_map" where
  "awardTier ranked bonus fromIndex m =
     awardTier_loop ranked (bc_value (ranked ! fromIndex)) bonus fromIndex m"

definition bps_cmp :: "bonus_candidate \<Rightarrow> bonus_candidate \<Rightarrow> int" where
  "bps_cmp left right = bc_value right - bc_value left"

definition calculateFixtureBonus :: "bonus_candidate list \<Rightarrow> (int, int) js_map" where
  "calculateFixtureBonus candidates =
     (let ranked = js_sort bps_cmp (filter (\<lambda>c. bc_value c > 0) candidates) in
      if length ranked = 0 then []
      else
        (let (index, m) = awardTier ranked 3 0 [] in
         if index \<ge> 3 \<or> index \<ge> length ranked then m
         else if index = 1 then
           (let (index2, m2) = awardTier ranked 2 index m in
            if index2 \<ge> 3 \<or> index2 \<ge> length ranked then m2
            else snd (awardTier ranked 1 index2 m2))
         else snd (awardTier ranked 1 index m)))"

type_synonym bonus_by_team = "(int, (int, int) js_map) js_map"

definition addBonus :: "bonus_by_team \<Rightarrow> bonus_candidate \<Rightarrow> bonus_by_team" where
  "addBonus byTeam c =
     (if bc_elementId c \<le> 0 \<or> bc_value c \<le> 0 then byTeam
      else
        (let team = coalesce (js_get byTeam (bc_teamId c)) [];
             team' = js_set (bc_elementId c) (coalesce (js_get team (bc_elementId c)) 0 + bc_value c) team
         in js_set (bc_teamId c) team' byTeam))"

definition addFixtureBonus :: "bonus_by_team \<Rightarrow> fixture \<Rightarrow> bonus_by_team" where
  "addFixtureBonus byTeam f =
     (if \<not> is_true (fx_started f) \<and> \<not> fx_finished f \<and> \<not> fx_finishedProvisional f then byTeam
      else
        (let official = filter (\<lambda>c. bc_value c > 0)
               (statCandidates (find (\<lambda>s. fs_identifier s = ''bonus'') (fx_stats f)) f) in
         if length official > 0 then foldl addBonus byTeam official
         else if fx_finished f \<or> fx_finishedProvisional f then byTeam
         else
           (let bps = statCandidates (find (\<lambda>s. fs_identifier s = ''bps'') (fx_stats f)) f;
                teamByElement = js_map_new (map (\<lambda>c. (bc_elementId c, bc_teamId c)) bps)
            in foldl (\<lambda>acc (elementId, value).
                  case js_get teamByElement elementId of
                    None \<Rightarrow> acc
                  | Some teamId \<Rightarrow>
                      addBonus acc \<lparr>bc_elementId = elementId, bc_teamId = teamId, bc_value = value\<rparr>)
                byTeam (calculateFixtureBonus bps))))"

definition computeFixtureSummedBonusByTeam :: "fixture list \<Rightarrow> bonus_by_team" where
  "computeFixtureSummedBonusByTeam fixtures = foldl addFixtureBonus [] fixtures"

section \<open>Reference definitions\<close>

text \<open>The tied 3/2/1 rule: three minus the number of players with strictly more points.\<close>

definition fpl_bonus :: "bonus_candidate list \<Rightarrow> int \<Rightarrow> int option" where
  "fpl_bonus cs e =
     (case find (\<lambda>c. bc_elementId c = e \<and> bc_value c > 0) cs of
        None \<Rightarrow> None
      | Some c \<Rightarrow>
          (let above = length (filter (\<lambda>d. bc_value d > bc_value c) cs)
           in if above < 3 then Some (3 - int above) else None))"

definition bonus_of :: "bonus_by_team \<Rightarrow> int \<Rightarrow> int \<Rightarrow> int" where
  "bonus_of byTeam t e =
     (case js_get byTeam t of None \<Rightarrow> 0 | Some team \<Rightarrow> coalesce (js_get team e) 0)"

definition official_rows :: "fixture \<Rightarrow> bonus_candidate list" where
  "official_rows f = filter (\<lambda>c. bc_value c > 0)
     (statCandidates (find (\<lambda>s. fs_identifier s = ''bonus'') (fx_stats f)) f)"

definition bps_rows :: "fixture \<Rightarrow> bonus_candidate list" where
  "bps_rows f = statCandidates (find (\<lambda>s. fs_identifier s = ''bps'') (fx_stats f)) f"

definition fixture_award :: "fixture \<Rightarrow> int \<Rightarrow> int \<Rightarrow> int" where
  "fixture_award f t e =
     (if e \<le> 0 \<or> (\<not> is_true (fx_started f) \<and> \<not> fx_finished f \<and> \<not> fx_finishedProvisional f) then 0
      else if official_rows f \<noteq> [] then
        (\<Sum>c \<leftarrow> official_rows f. if bc_teamId c = t \<and> bc_elementId c = e then bc_value c else 0)
      else if fx_finished f \<or> fx_finishedProvisional f then 0
      else if (\<exists>c \<in> set (bps_rows f). bc_elementId c = e \<and> bc_teamId c = t)
        then coalesce (fpl_bonus (bps_rows f) e) 0
      else 0)"

section \<open>Ranking one fixture\<close>

interpretation bps: comparator bps_cmp
  unfolding bps_cmp_def by (rule comparator_key_desc)

lemma awardTier_loop_eq:
  "awardTier_loop ranked v bonus index m =
     (let tier = takeWhile (\<lambda>c. bc_value c = v) (drop index ranked)
      in (index + length tier, foldl (\<lambda>m c. js_set (bc_elementId c) bonus m) m tier))"
proof (induction ranked v bonus index m rule: awardTier_loop.induct)
  case (1 ranked v bonus index m)
  show ?case
  proof (cases "index < length ranked \<and> bc_value (ranked ! index) = v")
    case True
    then have "drop index ranked = ranked ! index # drop (Suc index) ranked"
      by (simp add: Cons_nth_drop_Suc)
    with True "1.IH" show ?thesis
      by (simp add: awardTier_loop.simps [of ranked v bonus index m] Let_def)
  next
    case False
    then have "takeWhile (\<lambda>c. bc_value c = v) (drop index ranked) = []"
      by (cases "index < length ranked") (auto simp: Cons_nth_drop_Suc [symmetric])
    with False show ?thesis
      by (subst awardTier_loop.simps) (simp only: if_False Let_def list.size foldl.simps add_0_right)
  qed
qed

lemma js_get_foldl_award:
  "js_get (foldl (\<lambda>m c. js_set (bc_elementId c) bonus m) m tier) e =
     (if e \<in> bc_elementId ` set tier then Some bonus else js_get m e)"
  by (induction tier arbitrary: m) auto

text \<open>A ranked list starts with its top tier; everything after it is strictly below.\<close>

lemma top_tier_split:
  assumes "sorted_wrt (\<lambda>x y. bps_cmp x y \<le> 0) (c # cs)"
  obtains tier rest where "c # cs = tier @ rest"
    and "tier = takeWhile (\<lambda>d. bc_value d = bc_value c) (c # cs)"
    and "c \<in> set tier"
    and "\<And>d. d \<in> set tier \<Longrightarrow> bc_value d = bc_value c"
    and "\<And>d. d \<in> set rest \<Longrightarrow> bc_value d < bc_value c"
    and "sorted_wrt (\<lambda>x y. bps_cmp x y \<le> 0) rest"
proof
  let ?P = "\<lambda>d. bc_value d = bc_value c"
  show "c # cs = takeWhile ?P (c # cs) @ dropWhile ?P (c # cs)" by simp
  show sorted: "sorted_wrt (\<lambda>x y. bps_cmp x y \<le> 0) (dropWhile ?P (c # cs))"
    using assms by (metis sorted_wrt_append takeWhile_dropWhile_id)
  show "bc_value d < bc_value c" if d: "d \<in> set (dropWhile ?P (c # cs))" for d
  proof -
    obtain y ys where y: "dropWhile ?P (c # cs) = y # ys"
      using list.set_cases [OF d] by metis
    then have "bc_value y \<noteq> bc_value c" using hd_dropWhile [of ?P "c # cs"] by simp
    moreover have "y \<in> set cs"
      using y set_dropWhileD [of y ?P cs] by simp
    ultimately have "bc_value y < bc_value c" using assms by (auto simp: bps_cmp_def)
    moreover have "bc_value d \<le> bc_value y" using d sorted y by (auto simp: bps_cmp_def)
    ultimately show ?thesis by simp
  qed
  show "c \<in> set (takeWhile ?P (c # cs))" by simp
  show "bc_value d = bc_value c" if "d \<in> set (takeWhile ?P (c # cs))" for d
    using set_takeWhileD [OF that] by simp
qed (rule refl)

lemma awardTier_drop:
  assumes "drop i ranked = c # cs"
    and "tier = takeWhile (\<lambda>d. bc_value d = bc_value c) (c # cs)"
  shows "awardTier ranked bonus i m =
    (i + length tier, foldl (\<lambda>m c. js_set (bc_elementId c) bonus m) m tier)"
proof -
  have "ranked ! i = c" using assms(1) by (metis nth_via_drop)
  with assms show ?thesis by (simp only: awardTier_def awardTier_loop_eq Let_def)
qed

text \<open>
  One call of \<open>awardTier\<close> on a ranked list \<open>A @ R\<close> whose first part is strictly above the rest:
  it awards the top tier of \<open>R\<close> and leaves the list split in the same way.
\<close>

definition is_tier :: "bonus_candidate list \<Rightarrow> bonus_candidate list \<Rightarrow> bonus_candidate list \<Rightarrow> bool" where
  "is_tier A T R \<longleftrightarrow> T \<noteq> [] \<and> sorted_wrt (\<lambda>x y. bps_cmp x y \<le> 0) R
     \<and> (\<forall>a \<in> set (A @ T). \<forall>r \<in> set R. bc_value r < bc_value a)
     \<and> (\<forall>bonus m. awardTier (A @ T @ R) bonus (length A) m =
          (length A + length T, foldl (\<lambda>m c. js_set (bc_elementId c) bonus m) m T))
     \<and> (\<forall>c \<in> set T. length (filter (\<lambda>d. bc_value c < bc_value d) (A @ T @ R)) = length A)
     \<and> (\<forall>c \<in> set R. length A + length T \<le> length (filter (\<lambda>d. bc_value c < bc_value d) (A @ T @ R)))"

lemma tier_step:
  assumes "sorted_wrt (\<lambda>x y. bps_cmp x y \<le> 0) R" and "R \<noteq> []"
    and above: "\<forall>a \<in> set A. \<forall>r \<in> set R. bc_value r < bc_value a"
  shows "\<exists>T R'. R = T @ R' \<and> is_tier A T R'"
proof -
  obtain r rs where R: "R = r # rs" using assms(2) by (cases R) auto
  obtain T R' where split: "R = T @ R'"
    "T = takeWhile (\<lambda>d. bc_value d = bc_value r) (r # rs)" "r \<in> set T"
    and T: "\<And>d. d \<in> set T \<Longrightarrow> bc_value d = bc_value r"
    and R': "\<And>d. d \<in> set R' \<Longrightarrow> bc_value d < bc_value r"
    and sorted: "sorted_wrt (\<lambda>x y. bps_cmp x y \<le> 0) R'"
    using top_tier_split [of r rs] assms(1) unfolding R by metis
  have award: "awardTier (A @ R) bonus (length A) m =
      (length A + length T, foldl (\<lambda>m c. js_set (bc_elementId c) bonus m) m T)" for bonus m
    by (rule awardTier_drop [OF _ split(2)]) (simp add: R)
  have all: "filter (\<lambda>d. bc_value c < bc_value d) A = A" if "c \<in> set R" for c
    using above that by (auto simp: filter_id_conv)
  have count: "length (filter (\<lambda>d. bc_value c < bc_value d) (A @ R)) = length A" if "c \<in> set T" for c
  proof -
    have "filter (\<lambda>d. bc_value c < bc_value d) R = []"
      using T R' that unfolding split(1) by (fastforce simp: filter_empty_conv)
    with all [of c] that split(1) show ?thesis by simp
  qed
  have below: "length A + length T \<le> length (filter (\<lambda>d. bc_value c < bc_value d) (A @ R))"
    if "c \<in> set R'" for c
  proof -
    have "filter (\<lambda>d. bc_value c < bc_value d) T = T"
      using T R' [OF that] by (auto simp: filter_id_conv)
    with all [of c] that split(1) show ?thesis by simp
  qed
  have strict: "bc_value y < bc_value a" if "a \<in> set (A @ T)" and "y \<in> set R'" for a y
    using that above T [of a] R' [of y] split(1) by auto
  have "is_tier A T R'"
    unfolding is_tier_def split(1) [symmetric]
    using sorted award count below strict split(3) by auto
  with split(1) show ?thesis by blast
qed

definition tier_awards :: "bonus_candidate list \<Rightarrow> (int, int) js_map" where
  "tier_awards ranked =
     (if length ranked = 0 then []
      else
        (let (index, m) = awardTier ranked 3 0 [] in
         if index \<ge> 3 \<or> index \<ge> length ranked then m
         else if index = 1 then
           (let (index2, m2) = awardTier ranked 2 index m in
            if index2 \<ge> 3 \<or> index2 \<ge> length ranked then m2
            else snd (awardTier ranked 1 index2 m2))
         else snd (awardTier ranked 1 index m)))"

definition tier_rule :: "bonus_candidate list \<Rightarrow> bonus_candidate \<Rightarrow> int option" where
  "tier_rule ranked c =
     (let above = length (filter (\<lambda>d. bc_value c < bc_value d) ranked)
      in if above < 3 then Some (3 - int above) else None)"

lemma tier_rule_simps:
  "length (filter (\<lambda>d. bc_value c < bc_value d) ranked) = n \<Longrightarrow> n < 3 \<Longrightarrow>
     tier_rule ranked c = Some (3 - int n)"
  "3 \<le> length (filter (\<lambda>d. bc_value c < bc_value d) ranked) \<Longrightarrow> tier_rule ranked c = None"
  by (auto simp: tier_rule_def Let_def)

lemma tier_awards_two:
  assumes r: "ranked = T1 @ T2 @ R2" and dist: "distinct (map bc_elementId ranked)"
    and t1: "is_tier [] T1 (T2 @ R2)" and t2: "is_tier T1 T2 R2" and len: "length T1 < 3"
    and stop: "\<not> (length T1 = 1 \<and> length T2 = 1 \<and> R2 \<noteq> [])" and c: "c \<in> set ranked"
  shows "js_get (tier_awards ranked) (bc_elementId c) = tier_rule ranked c"
proof -
  let ?set = "\<lambda>b. \<lambda>m c. js_set (bc_elementId c) b m"
  from t1 t2 have ne: "T1 \<noteq> []" "T2 \<noteq> []" by (auto simp: is_tier_def)
  from t1 t2 len stop have "tier_awards ranked =
      foldl (?set (if length T1 = 1 then 2 else 1)) (foldl (?set 3) [] T1) T2"
    by (auto simp: tier_awards_def is_tier_def r Suc_le_eq neq_Nil_conv)
  then have get: "js_get (tier_awards ranked) e =
      (if e \<in> bc_elementId ` set T2 then Some (if length T1 = 1 then 2 else 1)
       else if e \<in> bc_elementId ` set T1 then Some 3 else None)" for e
    by (simp only: js_get_foldl_award map_of.simps)
  consider "c \<in> set T1" | "c \<in> set T2" | "c \<in> set R2" using c unfolding r by auto
  then show ?thesis
  proof cases
    case 1
    have "tier_rule ranked c = Some (3 - int 0)"
      by (rule tier_rule_simps) (use 1 t1 in \<open>simp_all add: is_tier_def r\<close>)
    moreover have "bc_elementId c \<notin> bc_elementId ` set T2" using 1 dist unfolding r by force
    ultimately show ?thesis using 1 by (simp add: get)
  next
    case 2
    have "tier_rule ranked c = Some (3 - int (length T1))"
      by (rule tier_rule_simps) (use 2 t2 len in \<open>simp_all add: is_tier_def r\<close>)
    moreover have "0 < length T1" using ne by simp
    then have "length T1 = 1 \<or> length T1 = 2" using len by linarith
    ultimately show ?thesis using 2 by (auto simp: get)
  next
    case 3
    have "0 < length T1" "0 < length T2" "R2 \<noteq> []" using 3 ne by auto
    then have "3 \<le> length T1 + length T2" using len stop by linarith
    with 3 t2 have "tier_rule ranked c = None"
      by (intro tier_rule_simps) (auto simp: is_tier_def r intro: order_trans)
    moreover have "bc_elementId c \<notin> bc_elementId ` set (T1 @ T2)" using 3 dist unfolding r by force
    ultimately show ?thesis by (auto simp: get)
  qed
qed

lemma tier_awards_three:
  assumes r: "ranked = T1 @ T2 @ T3 @ R3" and dist: "distinct (map bc_elementId ranked)"
    and t1: "is_tier [] T1 (T2 @ T3 @ R3)" and t2: "is_tier T1 T2 (T3 @ R3)"
    and t3: "is_tier (T1 @ T2) T3 R3" and len: "length T1 = 1" "length T2 = 1"
    and c: "c \<in> set ranked"
  shows "js_get (tier_awards ranked) (bc_elementId c) = tier_rule ranked c"
proof -
  let ?set = "\<lambda>b. \<lambda>m c. js_set (bc_elementId c) b m"
  from t1 t2 t3 len have "tier_awards ranked =
      foldl (?set 1) (foldl (?set 2) (foldl (?set 3) [] T1) T2) T3"
    by (auto simp: tier_awards_def is_tier_def r)
  then have get: "js_get (tier_awards ranked) e =
      (if e \<in> bc_elementId ` set T3 then Some 1 else if e \<in> bc_elementId ` set T2 then Some 2
       else if e \<in> bc_elementId ` set T1 then Some 3 else None)" for e
    by (simp only: js_get_foldl_award map_of.simps)
  consider "c \<in> set T1" | "c \<in> set T2" | "c \<in> set T3" | "c \<in> set R3"
    using c unfolding r by auto
  then show ?thesis
  proof cases
    case 1
    have "tier_rule ranked c = Some (3 - int 0)"
      by (rule tier_rule_simps) (use 1 t1 in \<open>simp_all add: is_tier_def r\<close>)
    moreover have "bc_elementId c \<notin> bc_elementId ` set (T2 @ T3)" using 1 dist unfolding r by force
    ultimately show ?thesis using 1 by (auto simp: get)
  next
    case 2
    have "tier_rule ranked c = Some (3 - int 1)"
      by (rule tier_rule_simps) (use 2 t2 len in \<open>simp_all add: is_tier_def r\<close>)
    moreover have "bc_elementId c \<notin> bc_elementId ` set T3" using 2 dist unfolding r by force
    ultimately show ?thesis using 2 by (auto simp: get)
  next
    case 3
    have "tier_rule ranked c = Some (3 - int 2)"
      by (rule tier_rule_simps) (use 3 t3 len in \<open>simp_all add: is_tier_def r\<close>)
    with 3 show ?thesis by (auto simp: get)
  next
    case 4
    have "3 \<le> length (T1 @ T2) + length T3" using t3 len by (cases T3) (auto simp: is_tier_def)
    with 4 t3 have "tier_rule ranked c = None"
      by (intro tier_rule_simps) (auto simp: is_tier_def r intro: order_trans)
    moreover have "bc_elementId c \<notin> bc_elementId ` set (T1 @ T2 @ T3)"
      using 4 dist unfolding r by force
    ultimately show ?thesis by (auto simp: get)
  qed
qed

lemma tier_awards_get:
  assumes sorted: "sorted_wrt (\<lambda>x y. bps_cmp x y \<le> 0) ranked"
    and dist: "distinct (map bc_elementId ranked)" and c: "c \<in> set ranked"
  shows "js_get (tier_awards ranked) (bc_elementId c) = tier_rule ranked c"
proof -
  obtain T1 R1 where r1: "ranked = T1 @ R1" and t1: "is_tier [] T1 R1"
    using tier_step [OF sorted, of "[]"] c by (cases ranked) auto
  show ?thesis
  proof (cases "length T1 \<ge> 3 \<or> R1 = []")
    case True
    with t1 have "tier_awards ranked = foldl (\<lambda>m c. js_set (bc_elementId c) 3 m) [] T1"
      by (auto simp: tier_awards_def is_tier_def r1)
    moreover have "bc_elementId c \<notin> bc_elementId ` set T1" if "c \<in> set R1"
      using dist that unfolding r1 by force
    ultimately show ?thesis
      using c t1 True by (auto simp: js_get_foldl_award tier_rule_def Let_def is_tier_def r1)
  next
    case False
    have "\<exists>T R'. R1 = T @ R' \<and> is_tier T1 T R'"
      by (rule tier_step) (use t1 False in \<open>auto simp: is_tier_def\<close>)
    then obtain T2 R2 where r2: "R1 = T2 @ R2" and t2: "is_tier T1 T2 R2" by blast
    show ?thesis
    proof (cases "length T1 = 1 \<and> length T2 = 1 \<and> R2 \<noteq> []")
      case True
      have "\<exists>T R'. R2 = T @ R' \<and> is_tier (T1 @ T2) T R'"
        by (rule tier_step) (use t2 True in \<open>auto simp: is_tier_def\<close>)
      then obtain T3 R3 where "R2 = T3 @ R3" and "is_tier (T1 @ T2) T3 R3" by blast
      with True r1 r2 t1 t2 dist c show ?thesis by (intro tier_awards_three) auto
    next
      case stop: False
      show ?thesis
        by (rule tier_awards_two [OF _ dist _ t2 _ stop c]) (use False r1 r2 t1 in auto)
    qed
  qed
qed

lemma awardTier_other:
  assumes "e \<notin> bc_elementId ` set ranked" and "awardTier ranked b i m = (j, m')"
  shows "js_get m' e = js_get m e"
proof -
  let ?tier = "takeWhile (\<lambda>c. bc_value c = bc_value (ranked ! i)) (drop i ranked)"
  have "e \<notin> bc_elementId ` set ?tier"
    using assms(1) by (auto dest!: set_takeWhileD in_set_dropD)
  with assms(2) show ?thesis
    by (auto simp: awardTier_def awardTier_loop_eq Let_def js_get_foldl_award)
qed

lemma tier_awards_keys:
  assumes "e \<notin> bc_elementId ` set ranked"
  shows "js_get (tier_awards ranked) e = None"
proof -
  note other = awardTier_other [OF assms]
  show ?thesis
    by (auto simp: tier_awards_def other [OF prod.collapse [symmetric]] split: prod.splits dest!: other)
qed

lemma calculateFixtureBonus_tier_awards:
  "calculateFixtureBonus cs = tier_awards (js_sort bps_cmp (filter (\<lambda>c. bc_value c > 0) cs))"
  unfolding calculateFixtureBonus_def tier_awards_def Let_def by (rule refl)

lemma calculateFixtureBonus_get:
  assumes "distinct (map bc_elementId cs)"
  shows "js_get (calculateFixtureBonus cs) e = fpl_bonus cs e"
proof -
  let ?pos = "filter (\<lambda>c. bc_value c > 0) cs"
  let ?ranked = "js_sort bps_cmp ?pos"
  have "distinct (map bc_elementId ?pos)"
    using assms by (simp add: distinct_map_filter)
  then have dist: "distinct (map bc_elementId ?ranked)"
    by (metis mset_js_sort mset_eq_imp_distinct_iff mset_map)
  show ?thesis
  proof (cases "find (\<lambda>c. bc_elementId c = e \<and> bc_value c > 0) cs")
    case None
    then have "e \<notin> bc_elementId ` set ?ranked" by (auto simp: find_None_iff)
    with None show ?thesis
      by (simp add: fpl_bonus_def calculateFixtureBonus_tier_awards
          tier_awards_keys)
  next
    case (Some c)
    then have c: "c \<in> set ?ranked" "bc_elementId c = e" "bc_value c > 0"
      by (auto simp: find_Some_iff)
    have "filter (\<lambda>d. bc_value c < bc_value d) ?pos = filter (\<lambda>d. bc_value c < bc_value d) cs"
      using c(3) by (auto intro: filter_cong)
    then have "length (filter (\<lambda>d. bc_value c < bc_value d) ?ranked) =
        length (filter (\<lambda>d. bc_value c < bc_value d) cs)"
      by simp
    with tier_awards_get [OF bps.sorted_js_sort dist c(1)] Some c(2) show ?thesis
      by (simp add: fpl_bonus_def calculateFixtureBonus_tier_awards tier_rule_def)
  qed
qed

section \<open>Summing the fixtures of an event\<close>

lemma bonus_of_addBonus:
  "bonus_of (addBonus b c) t e = bonus_of b t e +
     (if 0 < bc_elementId c \<and> 0 < bc_value c \<and> bc_teamId c = t \<and> bc_elementId c = e
      then bc_value c else 0)"
  by (auto simp: addBonus_def bonus_of_def Let_def split: option.splits)

lemma bonus_of_foldl_addBonus:
  "bonus_of (foldl addBonus b cs) t e = bonus_of b t e +
     (\<Sum>c \<leftarrow> cs. if 0 < bc_elementId c \<and> 0 < bc_value c \<and> bc_teamId c = t \<and> bc_elementId c = e
        then bc_value c else 0)"
  by (induction cs arbitrary: b) (auto simp: bonus_of_addBonus)

lemma sum_list_alist:
  assumes "distinct (map fst m)"
  shows "(\<Sum>(k, v) \<leftarrow> m. if k = e then g v else 0) =
    (case map_of m e of None \<Rightarrow> 0 | Some v \<Rightarrow> (g v :: int))"
proof -
  have zero: "(\<Sum>(k, v) \<leftarrow> xs. if k = e then g v else 0) = 0" if "e \<notin> fst ` set xs" for xs
    using that by (induction xs) auto
  show ?thesis using assms by (induction m) (auto simp: zero)
qed

lemma awardTier_distinct:
  assumes "distinct (map fst m)"
  shows "distinct (map fst (snd (awardTier ranked b i m)))"
proof -
  have "distinct (map fst (foldl (\<lambda>m c. js_set (bc_elementId c) b m) m tier))" for tier
    using assms by (induction tier arbitrary: m) (auto simp: AList.distinct_update)
  then show ?thesis by (simp add: awardTier_def awardTier_loop_eq Let_def)
qed

lemma calculateFixtureBonus_distinct: "distinct (map fst (calculateFixtureBonus cs))"
  by (simp add: calculateFixtureBonus_tier_awards tier_awards_def case_prod_beta' Let_def
      awardTier_distinct)

lemma fpl_bonus_positive: "fpl_bonus cs e = Some v \<Longrightarrow> 0 < v"
  by (auto simp: fpl_bonus_def Let_def split: option.splits if_splits)

definition addProvisional ::
  "(int, int) js_map \<Rightarrow> bonus_by_team \<Rightarrow> int \<times> int \<Rightarrow> bonus_by_team" where
  "addProvisional teams acc row =
     (case js_get teams (fst row) of
        None \<Rightarrow> acc
      | Some teamId \<Rightarrow>
          addBonus acc \<lparr>bc_elementId = fst row, bc_teamId = teamId, bc_value = snd row\<rparr>)"

lemma bonus_of_foldl_addProvisional:
  assumes "\<And>k v. (k, v) \<in> set rows \<Longrightarrow> 0 < v"
  shows "bonus_of (foldl (addProvisional teams) b rows) t e = bonus_of b t e +
    (\<Sum>(k, v) \<leftarrow> rows. if k = e then (if 0 < e \<and> js_get teams e = Some t then v else 0) else 0)"
  using assms
proof (induction rows arbitrary: b)
  case Nil
  then show ?case by simp
next
  case (Cons row rows)
  obtain k v where row: "row = (k, v)" by fastforce
  have "bonus_of (addProvisional teams b row) t e = bonus_of b t e +
      (if k = e then (if 0 < e \<and> js_get teams e = Some t then v else 0) else 0)"
    using Cons.prems [of k v]
    by (auto simp: row addProvisional_def bonus_of_addBonus split: option.splits)
  moreover have "bonus_of (foldl (addProvisional teams) (addProvisional teams b row) rows) t e =
      bonus_of (addProvisional teams b row) t e +
      (\<Sum>(k, v) \<leftarrow> rows. if k = e then (if 0 < e \<and> js_get teams e = Some t then v else 0) else 0)"
    by (rule Cons.IH) (use Cons.prems in auto)
  ultimately show ?case
    by (simp only: foldl.simps row list.map sum_list.Cons case_prod_conv add.assoc)
qed

lemma addFixtureBonus_fold:
  "addFixtureBonus b f =
     (if \<not> is_true (fx_started f) \<and> \<not> fx_finished f \<and> \<not> fx_finishedProvisional f then b
      else if official_rows f \<noteq> [] then foldl addBonus b (official_rows f)
      else if fx_finished f \<or> fx_finishedProvisional f then b
      else foldl (addProvisional (js_map_new (map (\<lambda>c. (bc_elementId c, bc_teamId c)) (bps_rows f))))
             b (calculateFixtureBonus (bps_rows f)))"
  unfolding addFixtureBonus_def official_rows_def bps_rows_def addProvisional_def Let_def
  by (simp add: case_prod_beta')

lemma provisional_award:
  assumes "distinct (map bc_elementId cs)"
  shows "bonus_of (foldl (addProvisional (js_map_new (map (\<lambda>c. (bc_elementId c, bc_teamId c)) cs)))
      b (calculateFixtureBonus cs)) t e = bonus_of b t e +
    (if 0 < e \<and> (\<exists>c \<in> set cs. bc_elementId c = e \<and> bc_teamId c = t)
     then coalesce (fpl_bonus cs e) 0 else 0)"
proof -
  let ?teams = "js_map_new (map (\<lambda>c. (bc_elementId c, bc_teamId c)) cs)"
  have teams: "js_get ?teams e = Some t \<longleftrightarrow> (\<exists>c \<in> set cs. bc_elementId c = e \<and> bc_teamId c = t)" for t
    using assms by (subst js_get_map_new_distinct)
      (auto simp: comp_def map_of_eq_Some_iff)
  have pos: "0 < v" if "(k, v) \<in> set (calculateFixtureBonus cs)" for k v
    using fpl_bonus_positive calculateFixtureBonus_get [OF assms, of k]
      map_of_is_SomeI [OF calculateFixtureBonus_distinct that] by auto
  show ?thesis
    by (subst bonus_of_foldl_addProvisional [OF pos], assumption,
        subst sum_list_alist [OF calculateFixtureBonus_distinct])
      (auto simp: calculateFixtureBonus_get [OF assms] teams split: option.splits)
qed

lemma bonus_of_addFixtureBonus:
  assumes "distinct (map bc_elementId (bps_rows f))"
  shows "bonus_of (addFixtureBonus b f) t e = bonus_of b t e + fixture_award f t e"
proof -
  have pos: "0 < bc_value c" if "c \<in> set (official_rows f)" for c
    using that by (simp add: official_rows_def)
  have sum: "(\<Sum>c \<leftarrow> cs. if 0 < bc_elementId c \<and> 0 < bc_value c \<and> bc_teamId c = t \<and> bc_elementId c = e
        then bc_value c else 0) =
      (if 0 < e then (\<Sum>c \<leftarrow> cs. if bc_teamId c = t \<and> bc_elementId c = e then bc_value c else 0) else 0)"
    if "\<And>c. c \<in> set cs \<Longrightarrow> 0 < bc_value c" for cs
    using that by (induction cs) auto
  show ?thesis
    unfolding addFixtureBonus_fold fixture_award_def
    using provisional_award [OF assms, of b t e] sum [OF pos]
    by (auto simp: bonus_of_foldl_addBonus)
qed

text \<open>
  C1. Summing an event: when each fixture's bonus-point rows name every player once, the total
  published for a team's player is the sum over the event's fixtures of that fixture's award -
  the official bonus rows when there are any; while the match is being played FPL's tied 3/2/1
  bonus, which is three minus the number of players with strictly more points; and
  nothing before kick-off or for a finished match without official rows. Double
  gameweeks therefore add up, in whatever order the fixtures come.
\<close>

theorem computeFixtureSummedBonusByTeam_sum:
  assumes "\<forall>f \<in> set fixtures. distinct (map bc_elementId (bps_rows f))"
  shows "bonus_of (computeFixtureSummedBonusByTeam fixtures) t e =
    (\<Sum>f \<leftarrow> fixtures. fixture_award f t e)"
proof -
  have "bonus_of (foldl addFixtureBonus b fixtures) t e =
      bonus_of b t e + (\<Sum>f \<leftarrow> fixtures. fixture_award f t e)" for b
    using assms by (induction fixtures arbitrary: b) (auto simp: bonus_of_addFixtureBonus)
  then show ?thesis by (simp add: computeFixtureSummedBonusByTeam_def bonus_of_def)
qed

definition live_fixture_example :: fixture where
  "live_fixture_example =
     \<lparr>fx_id = 1, fx_code = 1, fx_event = Some 3, fx_finished = False, fx_finishedProvisional = False,
      fx_kickoffTime = Some (Some 0), fx_minutes = 60, fx_provisionalStartTime = False,
      fx_started = Some True, fx_teamA = 2, fx_teamAScore = Some 0, fx_teamH = 1, fx_teamHScore = Some 1,
      fx_stats = [\<lparr>fs_identifier = ''bps'', fs_a = [\<lparr>st_value = 20, st_element = 31\<rparr>],
        fs_h = [\<lparr>st_value = 35, st_element = 11\<rparr>, \<lparr>st_value = 20, st_element = 12\<rparr>]\<rparr>],
      fx_teamHDifficulty = None, fx_teamADifficulty = None, fx_pulseId = 0,
      fx_createdAt = None, fx_updatedAt = None\<rparr>"

theorem computeFixtureSummedBonusByTeam_sum_witness:
  "bonus_of (computeFixtureSummedBonusByTeam [live_fixture_example, live_fixture_example]) 2 31 = 4"
proof -
  have rows: "distinct (map bc_elementId (bps_rows live_fixture_example))"
    by (simp add: bps_rows_def live_fixture_example_def statCandidates_def)
  have "fixture_award live_fixture_example 2 31 = 2"
    by (simp add: fixture_award_def official_rows_def bps_rows_def live_fixture_example_def
        statCandidates_def fpl_bonus_def)
  with computeFixtureSummedBonusByTeam_sum [of "[live_fixture_example, live_fixture_example]" 2 31] rows
  show ?thesis by simp
qed

end
