(* ===== verification/Tournament.thy ===== *)
theory Tournament
  imports JsPrelude "HOL-Library.Log_Nat"
begin

text \<open>
  Tournament creation (\<^verbatim>\<open>src/domain/tournament.ts\<close>): the configuration types, validation of the
  create command, the parsers of league addresses, gameweeks and standings rows, roster
  comparison, and \<open>planTournamentStructure\<close>, which turns an accepted command into the schedule
  that the later phases follow. The bracket itself is in \<open>Bracket\<close>.

  The result of the platform's \<^verbatim>\<open>new URL\<close> is an argument (\<open>None\<close> when the constructor throws).
  Optional object fields and \<^verbatim>\<open>null\<close> are both \<open>None\<close>, as the code never tells them apart.
\<close>

section \<open>Types\<close>

datatype league_type = Classic | H2h
datatype roster_mode = Snapshot | Official_sync
datatype group_mode = No_group | Points_races | Battle_races
datatype knockout_mode = No_knockout | Single_elimination | Double_elimination | Head_to_head
datatype participant_source = Official | Custom
datatype group_format = Group_none | Group_points
datatype knockout_format = Knockout_none | Knockout_single | Knockout_double

definition MAX_RANK :: int where
  "MAX_RANK = 2147483647"

record parsed_url =
  url_protocol :: string
  url_hostname :: string
  url_port :: string
  url_username :: string
  url_password :: string
  url_pathname :: string

record tournament_create_input =
  tournamentName :: string
  adminId :: string
  creator :: string
  platformAdmin :: "bool option"
  participantSource :: participant_source
  leagueUrl :: string
  groupFormat :: group_format
  startGameweek :: string
  endGameweek :: string
  in_groupNum :: "string option"
  qualifiersPerGroup :: "string option"
  knockoutFormat :: knockout_format
  selectedParticipantIds :: "string list option"
  previewToken :: "string option"

record tournament_participant =
  tp_id :: string
  tp_team :: string
  tp_manager :: string
  tp_overallRank :: int
  tp_totalPoints :: int

datatype raw_number = Raw_null | Raw_number int | Raw_string string

record raw_standings_result =
  rs_entry :: "int option"
  rs_entry_name :: "string option"
  rs_player_name :: "string option"
  rs_player_first_name :: "string option"
  rs_player_last_name :: "string option"
  rs_rank :: raw_number
  rs_rank_sort :: raw_number
  rs_total :: raw_number

record tournament_config =
  tc_id :: int
  tc_leagueId :: "int option"
  tc_leagueType :: "league_type option"
  tc_rosterMode :: "roster_mode option"
  tc_totalTeamNum :: int
  tc_groupMode :: group_mode
  tc_groupNum :: "int option"
  tc_groupStartedEventId :: "int option"
  tc_groupEndedEventId :: "int option"
  tc_groupQualifyNum :: "int option"
  tc_knockoutMode :: knockout_mode
  tc_knockoutTeamNum :: "int option"
  tc_knockoutEventNum :: "int option"
  tc_knockoutStartedEventId :: "int option"
  tc_knockoutEndedEventId :: "int option"
  tc_knockoutPlayAgainstNum :: "int option"

record setup_request_estimate =
  unoptimizedColdStart :: int
  optimizedColdStartUpperBound :: int
  optimizedTransferHistoryRequests :: int
  coreStandingsBaseline :: int

record tournament_structure_plan =
  sp_leagueId :: int
  sp_leagueType :: league_type
  sp_sourceLeagueName :: "string option"
  sp_rosterMode :: "roster_mode option"
  sp_tournamentName :: string
  sp_creator :: string
  sp_adminEntryId :: int
  sp_selectedParticipants :: "tournament_participant list"
  sp_groupMode :: group_mode
  sp_groupTeamNum :: int
  sp_groupNum :: int
  sp_groupAutoAverages :: bool
  sp_groupStartedEventId :: int
  sp_groupEndedEventId :: int
  sp_groupRounds :: int
  sp_groupQualifyNum :: "int option"
  sp_knockoutMode :: knockout_mode
  sp_knockoutTeamNum :: "int option"
  sp_knockoutEventNum :: "int option"
  sp_knockoutRounds :: "int option"
  sp_knockoutStartedEventId :: "int option"
  sp_knockoutEndedEventId :: "int option"
  sp_knockoutPlayAgainstNum :: "int option"

datatype tournament_error =
    TOURNAMENT_LEAGUE_URL_INVALID
  | TOURNAMENT_LEAGUE_URL_HOST_INVALID
  | TOURNAMENT_LEAGUE_URL_FORMAT_INVALID
  | TOURNAMENT_LEAGUE_ID_INVALID
  | TOURNAMENT_PARTICIPANTS_TOO_FEW
  | TOURNAMENT_ADMIN_NOT_PARTICIPANT
  | TOURNAMENT_GROUP_GAMEWEEKS_INVALID
  | TOURNAMENT_H2H_WINDOW_INVALID
  | TOURNAMENT_QUALIFIERS_REQUIRED
  | TOURNAMENT_QUALIFY_TOTAL_EXCEEDS
  | TOURNAMENT_KNOCKOUT_INVALID
  | TOURNAMENT_KNOCKOUT_EXCEEDS_GW38

section \<open>Parsers\<close>

definition FPL_HOSTNAME :: string where
  "FPL_HOSTNAME = ''fantasy.premierleague.com''"

definition normalizeTournamentName :: "string \<Rightarrow> string" where
  "normalizeTournamentName v = js_trim v"

definition uniqueParticipantIds :: "string list option \<Rightarrow> string list" where
  "uniqueParticipantIds ids = js_uniq (filter (\<lambda>v. length (js_trim v) > 0) (coalesce ids []))"

definition toNonNegativeNumber :: "raw_number \<Rightarrow> int option" where
  "toNonNegativeNumber v =
     (case v of
        Raw_number n \<Rightarrow> if n \<ge> 0 then Some n else None
      | Raw_string s \<Rightarrow>
          if length (js_trim s) > 0 then
            (case js_number s of
               Some parsed \<Rightarrow> if parsed \<ge> 0 then Some parsed else None
             | None \<Rightarrow> None)
          else None
      | Raw_null \<Rightarrow> None)"

definition toOptionalPositiveInteger :: "string option \<Rightarrow> int option" where
  "toOptionalPositiveInteger v =
     (case v of
        None \<Rightarrow> None
      | Some s \<Rightarrow>
          if s = [] \<or> length (js_trim s) = 0 then None
          else (case js_number s of
                  None \<Rightarrow> None
                | Some parsed \<Rightarrow> if parsed \<le> 0 then None else Some parsed))"

definition inferLeagueType :: "string list \<Rightarrow> league_type" where
  "inferLeagueType segments =
     (let suffix = (case dropWhile (\<lambda>s. \<not> (s = ''standings'' \<or> s = ''new-entries'')) segments of
                      [] \<Rightarrow> None
                    | _ # rest \<Rightarrow> js_at rest 0)
      in if suffix = Some ''h'' \<or> suffix = Some ''h2h'' then H2h else Classic)"

text \<open>\<^verbatim>\<open>pathname.split('/').filter(Boolean)\<close>: the non-empty segments.\<close>

fun split_slash :: "string \<Rightarrow> string \<Rightarrow> string list" where
  "split_slash acc [] = [rev acc]"
| "split_slash acc (c # cs) = (if c = CHR ''/'' then rev acc # split_slash [] cs else split_slash (c # acc) cs)"

definition path_segments :: "string \<Rightarrow> string list" where
  "path_segments p = filter (\<lambda>s. s \<noteq> []) (split_slash [] p)"

definition is_letter_char :: "char \<Rightarrow> bool" where
  "is_letter_char c = (let k = (of_char (lower_char c) :: nat) in 97 \<le> k \<and> k \<le> 122)"

text \<open>\<^verbatim>\<open>/^[a-z]{2}(?:-[a-z]{2})?$/i\<close>\<close>

definition is_locale_prefix :: "string \<Rightarrow> bool" where
  "is_locale_prefix s =
     (case s of
        [a, b] \<Rightarrow> is_letter_char a \<and> is_letter_char b
      | [a, b, d, x, y] \<Rightarrow> is_letter_char a \<and> is_letter_char b \<and> d = CHR ''-''
          \<and> is_letter_char x \<and> is_letter_char y
      | _ \<Rightarrow> False)"

definition MAX_SAFE_INTEGER :: int where
  "MAX_SAFE_INTEGER = 9007199254740991"

definition parseLeagueUrl :: "parsed_url option \<Rightarrow> (tournament_error, int \<times> league_type) result" where
  "parseLeagueUrl url =
     (case url of
        None \<Rightarrow> Inl TOURNAMENT_LEAGUE_URL_INVALID
      | Some u \<Rightarrow>
          if url_protocol u \<noteq> ''https:'' \<or> url_hostname u \<noteq> FPL_HOSTNAME \<or> url_port u \<noteq> []
             \<or> url_username u \<noteq> [] \<or> url_password u \<noteq> []
          then Inl TOURNAMENT_LEAGUE_URL_HOST_INVALID
          else
            (let segs = path_segments (url_pathname u);
                 hasLocalePrefix = is_locale_prefix (coalesce (js_at segs 0) []);
                 leaguesIndex = (if js_at segs 0 = Some ''leagues'' then 0
                                 else if hasLocalePrefix \<and> js_at segs 1 = Some ''leagues'' then 1
                                 else - 1)
             in if leaguesIndex < 0 \<or> int (length segs) < leaguesIndex + 3
                then Inl TOURNAMENT_LEAGUE_URL_FORMAT_INVALID
                else
                  (let surface = segs ! nat (leaguesIndex + 2) in
                   if surface \<notin> set [''standings'', ''new-entries'', ''admin'', ''join'']
                   then Inl TOURNAMENT_LEAGUE_URL_FORMAT_INVALID
                   else
                     (let standingsSuffix = (if surface = ''standings'' \<or> surface = ''new-entries''
                                             then js_at segs (leaguesIndex + 3) else None);
                          bad_suffix = (case standingsSuffix of
                                          None \<Rightarrow> False
                                        | Some sfx \<Rightarrow> sfx \<noteq> [] \<and>
                                            js_lower sfx \<notin> set [''c'', ''classic'', ''h'', ''h2h''])
                      in if bad_suffix then Inl TOURNAMENT_LEAGUE_URL_FORMAT_INVALID
                         else (case js_number (segs ! nat (leaguesIndex + 1)) of
                                 None \<Rightarrow> Inl TOURNAMENT_LEAGUE_ID_INVALID
                               | Some leagueId \<Rightarrow>
                                   if \<bar>leagueId\<bar> > MAX_SAFE_INTEGER \<or> leagueId \<le> 0
                                   then Inl TOURNAMENT_LEAGUE_ID_INVALID
                                   else Inr (leagueId,
                                          inferLeagueType (drop (nat leaguesIndex) segs)))))))"

text \<open>\<^verbatim>\<open>/^GW(\d{1,2})$/i\<close> and the range test.\<close>

definition gameweek_digits :: "string \<Rightarrow> string option" where
  "gameweek_digits v =
     (case v of
        g # w # ds \<Rightarrow>
          if lower_char g = CHR ''g'' \<and> lower_char w = CHR ''w'' \<and> (length ds = 1 \<or> length ds = 2)
             \<and> list_all is_digit_char ds
          then Some ds else None
      | _ \<Rightarrow> None)"

definition parseGameweek :: "string option \<Rightarrow> int option" where
  "parseGameweek value =
     (case value of
        None \<Rightarrow> None
      | Some v \<Rightarrow>
          if v = [] \<or> length (js_trim v) = 0 then None
          else (case gameweek_digits v of
                  None \<Rightarrow> None
                | Some ds \<Rightarrow>
                    (case js_number ds of
                       None \<Rightarrow> None
                     | Some parsed \<Rightarrow> if parsed \<ge> 1 \<and> parsed \<le> 38 then Some parsed else None)))"

definition mapStandingsResultToParticipant :: "raw_standings_result \<Rightarrow> tournament_participant option" where
  "mapStandingsResultToParticipant r =
     (let entryId = toNonNegativeNumber (case rs_entry r of None \<Rightarrow> Raw_null | Some n \<Rightarrow> Raw_number n) in
      case entryId of
        None \<Rightarrow> None
      | Some e \<Rightarrow>
          if e = 0 then None
          else
            (let team = map_option js_trim (rs_entry_name r);
                 player = map_option js_trim (rs_player_name r);
                 manager = (case player of
                              Some (c # cs) \<Rightarrow> c # cs
                            | _ \<Rightarrow> js_trim (coalesce (rs_player_first_name r) [] @ '' ''
                                           @ coalesce (rs_player_last_name r) []))
             in Some \<lparr>tp_id = show_int e,
                      tp_team = (case team of Some (c # cs) \<Rightarrow> c # cs | _ \<Rightarrow> ''Entry '' @ show_int e),
                      tp_manager = (if length manager > 0 then manager else ''Manager '' @ show_int e),
                      tp_overallRank = coalesce (toNonNegativeNumber (rs_rank r))
                        (coalesce (toNonNegativeNumber (rs_rank_sort r)) 0),
                      tp_totalPoints = coalesce (toNonNegativeNumber (rs_total r)) 0\<rparr>))"

definition selectParticipants ::
  "participant_source \<Rightarrow> tournament_participant list \<Rightarrow> string list \<Rightarrow> tournament_participant list" where
  "selectParticipants src participants selectedIds =
     (if src = Official then participants
      else filter (\<lambda>p. tp_id p \<in> set selectedIds) participants)"

section \<open>Validation of the create command\<close>

text \<open>\<^verbatim>\<open>/^GW(?:[1-9]|[12]\d|3[0-8])$/i\<close>\<close>

definition gameweekSchema :: "string \<Rightarrow> bool" where
  "gameweekSchema v =
     (case v of
        [g, w, d] \<Rightarrow> lower_char g = CHR ''g'' \<and> lower_char w = CHR ''w'' \<and> is_digit_char d \<and> d \<noteq> CHR ''0''
      | [g, w, t, d] \<Rightarrow> lower_char g = CHR ''g'' \<and> lower_char w = CHR ''w'' \<and> is_digit_char d
          \<and> (t = CHR ''1'' \<or> t = CHR ''2'' \<or> t = CHR ''3'' \<and> d \<noteq> CHR ''9'')
      | _ \<Rightarrow> False)"

definition positive_integer_string :: "string \<Rightarrow> bool" where
  "positive_integer_string s = (s \<noteq> [] \<and> hd s \<noteq> CHR ''0'' \<and> list_all is_digit_char s)"

definition optionalPositiveIntegerStringSchema :: "string \<Rightarrow> bool" where
  "optionalPositiveIntegerStringSchema s = (s = [] \<or> positive_integer_string s)"

definition option_all :: "('a \<Rightarrow> bool) \<Rightarrow> 'a option \<Rightarrow> bool" where
  "option_all P x = (case x of None \<Rightarrow> True | Some v \<Rightarrow> P v)"

definition non_empty_string :: "string option \<Rightarrow> bool" where
  "non_empty_string s = (case s of None \<Rightarrow> False | Some v \<Rightarrow> v \<noteq> [])"

definition create_input_refine :: "tournament_create_input \<Rightarrow> bool" where
  "create_input_refine v =
     ((case (parseGameweek (Some (startGameweek v)), parseGameweek (Some (endGameweek v))) of
         (Some s, Some e) \<Rightarrow> s \<noteq> 0 \<and> e \<noteq> 0 \<and> \<not> e < s
       | _ \<Rightarrow> False)
      \<and> \<not> (groupFormat v = Group_points \<and> \<not> non_empty_string (in_groupNum v))
      \<and> \<not> (groupFormat v = Group_points \<and> knockoutFormat v \<noteq> Knockout_none
           \<and> \<not> non_empty_string (qualifiersPerGroup v)))"

definition tournamentCreateInputSchema ::
  "(string \<Rightarrow> parsed_url option) \<Rightarrow> tournament_create_input \<Rightarrow> tournament_create_input option" where
  "tournamentCreateInputSchema new_URL v =
     (let name = js_trim (tournamentName v);
          author = js_trim (creator v);
          ok = 3 \<le> length name \<and> length name \<le> 80
            \<and> adminId v \<noteq> [] \<and> list_all is_digit_char (adminId v)
            \<and> 1 \<le> length author \<and> length author \<le> 80
            \<and> length (leagueUrl v) \<le> 512
            \<and> (case new_URL (leagueUrl v) of
                 None \<Rightarrow> False
               | Some u \<Rightarrow> url_protocol u = ''https:'' \<and> url_hostname u = FPL_HOSTNAME)
            \<and> gameweekSchema (startGameweek v) \<and> gameweekSchema (endGameweek v)
            \<and> option_all optionalPositiveIntegerStringSchema (in_groupNum v)
            \<and> option_all optionalPositiveIntegerStringSchema (qualifiersPerGroup v)
            \<and> option_all (\<lambda>ids. list_all positive_integer_string ids \<and> length ids \<le> 5000)
                (selectedParticipantIds v)
            \<and> option_all (\<lambda>t. 32 \<le> length t \<and> length t \<le> 128) (previewToken v)
      in if ok \<and> create_input_refine v
         then Some (v\<lparr>tournamentName := name, creator := author\<rparr>) else None)"

section \<open>Rosters and windows\<close>

definition estimateTournamentSetupRequests :: "int \<Rightarrow> int \<Rightarrow> setup_request_estimate" where
  "estimateTournamentSetupRequests entryCount eventCount =
     (let entries = max 0 entryCount; events = max 0 eventCount in
      \<lparr>unoptimizedColdStart = 2 * entries + events + 2 * entries * events,
       optimizedColdStartUpperBound = 3 * entries + events + entries * events,
       optimizedTransferHistoryRequests = entries,
       coreStandingsBaseline = 2 * entries\<rparr>)"

definition positive_sorted_ids :: "int list \<Rightarrow> int list" where
  "positive_sorted_ids ids = js_sort (\<lambda>left right. left - right) (js_uniq (filter (\<lambda>i. i > 0) ids))"

definition diffTournamentRoster :: "int list \<Rightarrow> int list \<Rightarrow> int list \<times> int list" where
  "diffTournamentRoster existingEntryIds authoritativeEntryIds =
     (let existing = positive_sorted_ids existingEntryIds;
          authoritative = positive_sorted_ids authoritativeEntryIds
      in (filter (\<lambda>i. i \<notin> set existing) authoritative,
          filter (\<lambda>i. i \<notin> set authoritative) existing))"

definition isOfficialH2HTournament ::
  "league_type option \<Rightarrow> roster_mode option \<Rightarrow> group_mode \<Rightarrow> bool" where
  "isOfficialH2HTournament leagueType rosterMode groupMode =
     (leagueType = Some H2h \<and> rosterMode = Some Official_sync \<and> groupMode = Battle_races)"

datatype tournament_state = Active | Inactive | Finished
datatype setup_status = Pending | Processing | Ready | Failed

record h2h_recovery_record =
  rr_leagueType :: "league_type option"
  rr_rosterMode :: "roster_mode option"
  rr_groupMode :: group_mode
  rr_state :: tournament_state
  rr_rosterSyncStatus :: "setup_status option"
  rr_officialScheduleLockedAt :: "string option"

definition isUnlockedOfficialH2HRosterRecoveryState ::
  "h2h_recovery_record \<Rightarrow> setup_status \<Rightarrow> bool \<Rightarrow> bool" where
  "isUnlockedOfficialH2HRosterRecoveryState t expectedStatus hasResultRows =
     (isOfficialH2HTournament (rr_leagueType t) (rr_rosterMode t) (rr_groupMode t)
      \<and> rr_state t = Active
      \<and> rr_rosterSyncStatus t = Some expectedStatus
      \<and> rr_officialScheduleLockedAt t = None
      \<and> \<not> hasResultRows)"

definition isAdditiveTournamentRosterRecovery :: "int list \<Rightarrow> int list \<Rightarrow> bool" where
  "isAdditiveTournamentRosterRecovery existingEntryIds authoritativeEntryIds =
     (length (snd (diffTournamentRoster existingEntryIds authoritativeEntryIds)) = 0)"

definition getTournamentBackfillWindow :: "tournament_config \<Rightarrow> int option \<Rightarrow> (int \<times> int) option" where
  "getTournamentBackfillWindow t currentEventId =
     (let startEventId = (if tc_groupMode t \<noteq> No_group then tc_groupStartedEventId t
                          else (case tc_knockoutStartedEventId t of
                                  None \<Rightarrow> tc_groupStartedEventId t | Some s \<Rightarrow> Some s));
          configuredEndEventId = (if tc_knockoutMode t \<noteq> No_knockout then tc_knockoutEndedEventId t
                                  else tc_groupEndedEventId t)
      in case (startEventId, configuredEndEventId, currentEventId) of
           (Some s, Some e, Some c) \<Rightarrow>
             if s = 0 \<or> e = 0 then None
             else (let endEventId = min e c in
                   if endEventId < s then None else Some (s, endEventId))
         | _ \<Rightarrow> None)"

section \<open>Planning\<close>

text \<open>\<^verbatim>\<open>Math.ceil(Math.log2(n))\<close> on a positive integer.\<close>

definition ceil_log2 :: "int \<Rightarrow> int" where
  "ceil_log2 n = int (ceillog2 (nat n))"

definition nextPowerOfTwo :: "int \<Rightarrow> int" where
  "nextPowerOfTwo v = (if v \<le> 0 then 0 else 2 ^ nat (ceil_log2 v))"

definition groupModeMap :: "group_format \<Rightarrow> group_mode" where
  "groupModeMap f = (case f of Group_none \<Rightarrow> No_group | Group_points \<Rightarrow> Points_races)"

definition knockoutModeMap :: "knockout_format \<Rightarrow> knockout_mode" where
  "knockoutModeMap f = (case f of Knockout_none \<Rightarrow> No_knockout
     | Knockout_single \<Rightarrow> Single_elimination | Knockout_double \<Rightarrow> Double_elimination)"

record source_config =
  sc_startEventId :: "int option"
  sc_knockoutRounds :: "int option"

definition plan_official_h2h ::
  "tournament_create_input \<Rightarrow> tournament_participant list \<Rightarrow> int \<Rightarrow> league_type \<Rightarrow> string option
   \<Rightarrow> source_config option \<Rightarrow> int \<Rightarrow> int \<Rightarrow> (tournament_error, tournament_structure_plan) result" where
  "plan_official_h2h payload selected leagueId leagueType sourceLeagueName sourceConfig adminEntryId
     groupStartedEventId =
     (let officialStartEventId = coalesce (Option.bind sourceConfig sc_startEventId) groupStartedEventId;
          officialKnockoutRounds = max 0 (coalesce (Option.bind sourceConfig sc_knockoutRounds) 0);
          officialGroupEndedEventId = 38 - officialKnockoutRounds;
          hasKnockout = officialKnockoutRounds > 0
      in if officialStartEventId > officialGroupEndedEventId then Inl TOURNAMENT_H2H_WINDOW_INVALID
         else Inr
           \<lparr>sp_leagueId = leagueId, sp_leagueType = leagueType, sp_sourceLeagueName = sourceLeagueName,
            sp_rosterMode = Some Official_sync,
            sp_tournamentName = normalizeTournamentName (tournamentName payload),
            sp_creator = js_trim (creator payload),
            sp_adminEntryId = adminEntryId, sp_selectedParticipants = selected,
            sp_groupMode = Battle_races,
            sp_groupTeamNum = int (length selected), sp_groupNum = 1,
            sp_groupAutoAverages = (int (length selected) mod 2 = 1),
            sp_groupStartedEventId = officialStartEventId,
            sp_groupEndedEventId = officialGroupEndedEventId,
            sp_groupRounds = officialGroupEndedEventId - officialStartEventId + 1,
            sp_groupQualifyNum = None,
            sp_knockoutMode = (if hasKnockout then Head_to_head else No_knockout),
            sp_knockoutTeamNum = (if hasKnockout then Some (2 ^ nat officialKnockoutRounds) else None),
            sp_knockoutEventNum = (if hasKnockout then Some officialKnockoutRounds else None),
            sp_knockoutRounds = (if hasKnockout then Some officialKnockoutRounds else None),
            sp_knockoutStartedEventId = (if hasKnockout then Some (officialGroupEndedEventId + 1) else None),
            sp_knockoutEndedEventId = (if hasKnockout then Some 38 else None),
            sp_knockoutPlayAgainstNum = (if hasKnockout then Some 1 else None)\<rparr>)"

definition plan_standard ::
  "tournament_create_input \<Rightarrow> tournament_participant list \<Rightarrow> int \<Rightarrow> league_type \<Rightarrow> string option
   \<Rightarrow> int \<Rightarrow> int \<Rightarrow> int \<Rightarrow> (tournament_error, tournament_structure_plan) result" where
  "plan_standard payload selected leagueId leagueType sourceLeagueName adminEntryId
     groupStartedEventId groupEndedEventId =
     (let n = int (length selected);
          gf = groupFormat payload;
          kf = knockoutFormat payload;
          groupNum = coalesce (toOptionalPositiveInteger (in_groupNum payload)) 1;
          qualifiers = toOptionalPositiveInteger (qualifiersPerGroup payload);
          groupRounds = max (groupEndedEventId - groupStartedEventId + 1) 0;
          groupTeamNum = (if gf = Group_points then (n + groupNum - 1) div groupNum else n);
          knockoutPlayAgainstNum = (case kf of Knockout_single \<Rightarrow> Some 1
             | Knockout_double \<Rightarrow> Some 2 | Knockout_none \<Rightarrow> None);
          knockoutTeamNum = (if kf = Knockout_none then None
             else if gf = Group_points then Some (groupNum * coalesce qualifiers 0) else Some n);
          knockoutEventNum = (case knockoutTeamNum of None \<Rightarrow> None
             | Some t \<Rightarrow> if t \<noteq> 0 \<and> t \<ge> 2 then Some (ceil_log2 t) else None);
          knockoutRounds = (case kf of Knockout_none \<Rightarrow> None
             | Knockout_double \<Rightarrow> Some (coalesce knockoutEventNum 0 * 2)
             | Knockout_single \<Rightarrow> knockoutEventNum);
          knockoutStartedEventId = (if kf = Knockout_none then None
             else if gf = Group_none then Some groupStartedEventId else Some (groupEndedEventId + 1));
          knockoutEndedEventId =
             (if kf = Knockout_none \<or> \<not> truthy knockoutStartedEventId \<or> \<not> truthy knockoutRounds then None
              else Some (the knockoutStartedEventId + max (the knockoutRounds - 1) 0))
      in if gf \<noteq> Group_none \<and> kf \<noteq> Knockout_none \<and> \<not> truthy qualifiers
         then Inl TOURNAMENT_QUALIFIERS_REQUIRED
         else if gf = Group_points \<and> kf \<noteq> Knockout_none \<and> groupNum * coalesce qualifiers 0 > n
         then Inl TOURNAMENT_QUALIFY_TOTAL_EXCEEDS
         else if kf \<noteq> Knockout_none \<and>
             (\<not> truthy knockoutTeamNum \<or> the knockoutTeamNum < 2 \<or> \<not> truthy knockoutEventNum)
         then Inl TOURNAMENT_KNOCKOUT_INVALID
         else if kf \<noteq> Knockout_none \<and>
             (\<not> truthy knockoutEndedEventId \<or> the knockoutEndedEventId > 38)
         then Inl TOURNAMENT_KNOCKOUT_EXCEEDS_GW38
         else Inr
           \<lparr>sp_leagueId = leagueId, sp_leagueType = leagueType, sp_sourceLeagueName = sourceLeagueName,
            sp_rosterMode = Some (if participantSource payload = Official \<and> leagueType = Classic
                \<and> gf = Group_points \<and> groupNum = 1 \<and> kf = Knockout_none then Official_sync else Snapshot),
            sp_tournamentName = normalizeTournamentName (tournamentName payload),
            sp_creator = js_trim (creator payload),
            sp_adminEntryId = adminEntryId, sp_selectedParticipants = selected,
            sp_groupMode = groupModeMap gf,
            sp_groupTeamNum = groupTeamNum,
            sp_groupNum = (if gf = Group_none then 1 else groupNum),
            sp_groupAutoAverages = False,
            sp_groupStartedEventId = groupStartedEventId, sp_groupEndedEventId = groupEndedEventId,
            sp_groupRounds = groupRounds,
            sp_groupQualifyNum = (if gf = Group_none then None else qualifiers),
            sp_knockoutMode = knockoutModeMap kf,
            sp_knockoutTeamNum = knockoutTeamNum, sp_knockoutEventNum = knockoutEventNum,
            sp_knockoutRounds = knockoutRounds,
            sp_knockoutStartedEventId = knockoutStartedEventId,
            sp_knockoutEndedEventId = knockoutEndedEventId,
            sp_knockoutPlayAgainstNum = knockoutPlayAgainstNum\<rparr>)"

text \<open>
  \<open>adminId\<close> is a digit string after validation, so \<^verbatim>\<open>Number(payload.adminId)\<close> is a number; an id
  that does not parse (\<^verbatim>\<open>NaN\<close>) equals no participant's.
\<close>

definition planTournamentStructure ::
  "tournament_create_input \<Rightarrow> tournament_participant list \<Rightarrow> int \<Rightarrow> league_type \<Rightarrow> string option
   \<Rightarrow> source_config option \<Rightarrow> (tournament_error, tournament_structure_plan) result" where
  "planTournamentStructure payload selected leagueId leagueType sourceLeagueName sourceConfig =
     (if length selected < 2 then Inl TOURNAMENT_PARTICIPANTS_TOO_FEW
      else
        (let adminEntryId = js_number (adminId payload) in
         if platformAdmin payload \<noteq> Some True \<and>
            \<not> (\<exists>p \<in> set selected. adminEntryId \<noteq> None \<and> js_number (tp_id p) = adminEntryId)
         then Inl TOURNAMENT_ADMIN_NOT_PARTICIPANT
         else
           (case (parseGameweek (Some (startGameweek payload)), parseGameweek (Some (endGameweek payload))) of
              (Some s, Some e) \<Rightarrow>
                if s = 0 \<or> e = 0 \<or> s > e then Inl TOURNAMENT_GROUP_GAMEWEEKS_INVALID
                else if participantSource payload = Official \<and> leagueType = H2h
                then plan_official_h2h payload selected leagueId leagueType sourceLeagueName sourceConfig
                       (the adminEntryId) s
                else plan_standard payload selected leagueId leagueType sourceLeagueName
                       (the adminEntryId) s e
            | _ \<Rightarrow> Inl TOURNAMENT_GROUP_GAMEWEEKS_INVALID)))"

section \<open>Gameweeks and identifiers\<close>

lemma parseGameweek_bounds: "parseGameweek v = Some g \<Longrightarrow> 1 \<le> g \<and> g \<le> 38"
  by (auto simp: parseGameweek_def split: option.splits if_splits)

lemma toOptionalPositiveInteger_pos: "toOptionalPositiveInteger v = Some n \<Longrightarrow> 0 < n"
  by (auto simp: toOptionalPositiveInteger_def split: option.splits if_splits)

lemma toOptionalPositiveInteger_truthy:
  "truthy (toOptionalPositiveInteger v) \<longleftrightarrow> toOptionalPositiveInteger v \<noteq> None"
  using toOptionalPositiveInteger_pos [of v] by (cases "toOptionalPositiveInteger v") auto

section \<open>Accepted plans\<close>

lemma ceil_log2_pos: "2 \<le> n \<Longrightarrow> 1 \<le> ceil_log2 n"
  using ceillog2_rec [of "nat n"] by (simp add: ceil_log2_def)

lemma ceil_log2_power [simp]: "ceil_log2 (2 ^ r) = int r"
  by (simp add: ceil_log2_def nat_power_eq)

text \<open>
  The schedule contract of a plan. Without a knockout phase all its fields are empty. With
  one, \<open>R\<close> rounds of \<open>P\<close> legs just cover the window from \<open>S\<close> to \<open>E\<close>, which follows the group phase
  (or replaces it) and ends by gameweek 38, and \<open>R\<close> rounds are what a bracket of \<open>T\<close> teams takes.
\<close>

definition plan_schedule_ok :: "tournament_structure_plan \<Rightarrow> bool" where
  "plan_schedule_ok p \<longleftrightarrow>
     sp_groupStartedEventId p \<le> sp_groupEndedEventId p \<and> sp_groupEndedEventId p \<le> 38 \<and>
     sp_groupRounds p = sp_groupEndedEventId p - sp_groupStartedEventId p + 1 \<and>
     (if sp_knockoutMode p = No_knockout
      then sp_knockoutTeamNum p = None \<and> sp_knockoutEventNum p = None \<and> sp_knockoutRounds p = None \<and>
        sp_knockoutStartedEventId p = None \<and> sp_knockoutEndedEventId p = None \<and>
        sp_knockoutPlayAgainstNum p = None
      else (\<exists>T R S E P. sp_knockoutTeamNum p = Some T \<and> sp_knockoutEventNum p = Some R \<and>
        sp_knockoutRounds p = Some (R * P) \<and>
        sp_knockoutStartedEventId p = Some S \<and> sp_knockoutEndedEventId p = Some E \<and>
        sp_knockoutPlayAgainstNum p = Some P \<and>
        2 \<le> T \<and> 1 \<le> R \<and> R = ceil_log2 T \<and> (P = 1 \<or> P = 2) \<and>
        S = (if sp_groupMode p = No_group then sp_groupStartedEventId p
             else sp_groupEndedEventId p + 1) \<and>
        E = S + R * P - 1 \<and> E \<le> 38))"

lemma plan_official_h2h_ok:
  assumes "plan_official_h2h payload sel lid lt name cfg adm s = Inr p"
  shows "plan_schedule_ok p"
proof -
  define r where "r = max 0 (coalesce (Option.bind cfg sc_knockoutRounds) 0)"
  have two: "(2::int) \<le> 2 ^ nat r" if "0 < r"
    using that self_le_power [of "2::int" "nat r"] by simp
  show ?thesis
    using assms two
    unfolding plan_official_h2h_def Let_def r_def [symmetric]
    by (auto simp: plan_schedule_ok_def r_def split: if_splits)
qed

lemma plan_standard_knockout:
  assumes plan: "plan_standard payload sel lid lt name adm s e = Inr p"
    and kf: "knockoutFormat payload \<noteq> Knockout_none" and se: "1 \<le> s" "s \<le> e"
  shows "\<exists>T P. sp_knockoutTeamNum p = Some T \<and> 2 \<le> T \<and> T \<le> int (length sel) \<and>
      sp_knockoutEventNum p = Some (ceil_log2 T) \<and> sp_knockoutRounds p = Some (ceil_log2 T * P) \<and>
      sp_knockoutPlayAgainstNum p = Some P \<and> (P = 1 \<or> P = 2) \<and>
      sp_knockoutStartedEventId p = Some (if groupFormat payload = Group_none then s else e + 1) \<and>
      sp_knockoutEndedEventId p =
        Some ((if groupFormat payload = Group_none then s else e + 1) + ceil_log2 T * P - 1) \<and>
      (if groupFormat payload = Group_none then s else e + 1) + ceil_log2 T * P - 1 \<le> 38"
proof -
  define g where "g = coalesce (toOptionalPositiveInteger (in_groupNum payload)) 1"
  define q where "q = toOptionalPositiveInteger (qualifiersPerGroup payload)"
  define S where "S = (if groupFormat payload = Group_none then s else e + 1)"
  define T where "T = (if groupFormat payload = Group_points then g * coalesce q 0 else int (length sel))"
  define P :: int where "P = (if knockoutFormat payload = Knockout_single then 1 else 2)"
  have S: "0 < S" using se by (simp add: S_def)
  have T: "2 \<le> T" "T \<le> int (length sel)"
    using plan kf unfolding plan_standard_def Let_def g_def [symmetric] q_def [symmetric]
    by (auto simp: T_def split: if_splits)
  have R: "1 \<le> ceil_log2 T" by (rule ceil_log2_pos [OF T(1)])
  have sched: "(case knockoutFormat payload of Knockout_none \<Rightarrow> None
       | Knockout_double \<Rightarrow> Some (coalesce (Some (ceil_log2 T)) 0 * 2)
       | Knockout_single \<Rightarrow> Some (ceil_log2 T)) = Some (ceil_log2 T * P)"
    using kf by (cases "knockoutFormat payload") (simp_all add: P_def)
  have team: "(if knockoutFormat payload = Knockout_none then None
       else if groupFormat payload = Group_points then Some (g * coalesce q 0)
       else Some (int (length sel))) = Some T"
    using kf by (simp add: T_def)
  have event: "(case Some T of None \<Rightarrow> None
       | Some t \<Rightarrow> if t \<noteq> 0 \<and> t \<ge> 2 then Some (ceil_log2 t) else None) = Some (ceil_log2 T)"
    using T(1) by simp
  have start: "(if knockoutFormat payload = Knockout_none then None
       else if groupFormat payload = Group_none then Some s else Some (e + 1)) = Some S"
    using kf by (simp add: S_def)
  have RP: "1 \<le> ceil_log2 T * P" using R by (simp add: P_def)
  then have "ceil_log2 T * P \<noteq> 0" by (metis not_one_le_zero)
  with RP have ended: "(if knockoutFormat payload = Knockout_none \<or> \<not> truthy (Some S)
       \<or> \<not> truthy (Some (ceil_log2 T * P)) then None
      else Some (the (Some S) + max (the (Some (ceil_log2 T * P)) - 1) 0)) = Some (S + ceil_log2 T * P - 1)"
    using kf S by (simp del: mult_eq_0_iff)
  have legs: "(case knockoutFormat payload of Knockout_single \<Rightarrow> Some 1
       | Knockout_double \<Rightarrow> Some 2 | Knockout_none \<Rightarrow> None) = Some P"
    using kf by (cases "knockoutFormat payload") (simp_all add: P_def)
  note plan' = plan [unfolded plan_standard_def Let_def g_def [symmetric] q_def [symmetric] team event
      start sched ended legs if_Inl_Inr sum.inject]
  have "P = 1 \<or> P = 2" by (simp add: P_def)
  moreover have "sp_knockoutTeamNum p = Some T" "sp_knockoutEventNum p = Some (ceil_log2 T)"
      "sp_knockoutRounds p = Some (ceil_log2 T * P)" "sp_knockoutPlayAgainstNum p = Some P"
      "sp_knockoutStartedEventId p = Some S" "sp_knockoutEndedEventId p = Some (S + ceil_log2 T * P - 1)"
      "S + ceil_log2 T * P - 1 \<le> 38"
    using plan' kf by (elim conjE; hypsubst; simp)+
  ultimately show ?thesis
    unfolding S_def [symmetric] using T by blast
qed

lemma plan_standard_fields:
  assumes plan: "plan_standard payload sel lid lt name adm s e = Inr p" and "s \<le> e"
  shows "sp_groupStartedEventId p = s" "sp_groupEndedEventId p = e"
    "sp_groupRounds p = e - s + 1" "sp_knockoutMode p = knockoutModeMap (knockoutFormat payload)"
    "sp_groupMode p = groupModeMap (groupFormat payload)" "sp_selectedParticipants p = sel"
  using plan [unfolded plan_standard_def Let_def if_Inl_Inr sum.inject] assms(2)
  by (elim conjE; hypsubst; simp)+

lemma plan_standard_ok:
  assumes plan: "plan_standard payload sel lid lt name adm s e = Inr p"
    and se: "1 \<le> s" "s \<le> e" "e \<le> 38"
  shows "plan_schedule_ok p"
proof -
  note base = plan_standard_fields [OF plan se(2)]
  have group: "sp_groupMode p = No_group \<longleftrightarrow> groupFormat payload = Group_none"
    by (simp add: base groupModeMap_def split: group_format.splits)
  show ?thesis
  proof (cases "knockoutFormat payload = Knockout_none")
    case True
    then have "sp_knockoutTeamNum p = None" "sp_knockoutEventNum p = None" "sp_knockoutRounds p = None"
        "sp_knockoutStartedEventId p = None" "sp_knockoutEndedEventId p = None"
        "sp_knockoutPlayAgainstNum p = None"
      using plan [unfolded plan_standard_def Let_def if_Inl_Inr sum.inject]
      by (elim conjE; hypsubst; simp)+
    with True se base show ?thesis by (simp add: plan_schedule_ok_def knockoutModeMap_def)
  next
    case False
    then have "sp_knockoutMode p \<noteq> No_knockout"
      by (simp add: base knockoutModeMap_def split: knockout_format.splits)
    with plan_standard_knockout [OF plan False se(1,2)] se base(1-3) show ?thesis
      unfolding plan_schedule_ok_def group using ceil_log2_pos by auto
  qed
qed

lemma plan_cases:
  assumes "planTournamentStructure payload sel lid lt name cfg = Inr p"
  obtains s e adm where "1 \<le> s" "s \<le> e" "e \<le> 38" "2 \<le> length sel"
    and "participantSource payload = Official \<and> lt = H2h \<and>
        plan_official_h2h payload sel lid lt name cfg adm s = Inr p
      \<or> plan_standard payload sel lid lt name adm s e = Inr p"
    and "platformAdmin payload = Some True \<or>
      (\<exists>q \<in> set sel. js_number (tp_id q) = js_number (adminId payload))"
proof -
  obtain s e where se: "parseGameweek (Some (startGameweek payload)) = Some s"
      "parseGameweek (Some (endGameweek payload)) = Some e"
    using assms by (auto simp: planTournamentStructure_def Let_def split: if_splits option.splits)
  note plan = assms [unfolded planTournamentStructure_def Let_def se prod.case option.case if_Inl_Inr]
  show thesis
  proof (rule that [of s e "the (js_number (adminId payload))"])
    show "1 \<le> s" "e \<le> 38" using se parseGameweek_bounds by blast+
    show "s \<le> e" "2 \<le> length sel" using plan by auto
    show "platformAdmin payload = Some True \<or>
        (\<exists>q \<in> set sel. js_number (tp_id q) = js_number (adminId payload))"
      using plan by blast
  qed (use plan in \<open>auto split: if_splits\<close>)
qed


definition example_participant :: "nat \<Rightarrow> tournament_participant" where
  "example_participant n = \<lparr>tp_id = show_nat n, tp_team = ''Team'', tp_manager = ''Manager'',
     tp_overallRank = int n, tp_totalPoints = 0\<rparr>"

definition example_create_input :: tournament_create_input where
  "example_create_input = \<lparr>tournamentName = ''Cup'', adminId = ''3'', creator = ''Ann'', platformAdmin = None,
     participantSource = Custom, leagueUrl = [], groupFormat = Group_points, startGameweek = ''GW5'',
     endGameweek = ''gw30'', in_groupNum = Some ''2'', qualifiersPerGroup = Some ''3'',
     knockoutFormat = Knockout_double, selectedParticipantIds = None, previewToken = None\<rparr>"


section \<open>Roster comparison\<close>

interpretation ids: comparator "\<lambda>left right :: int. left - right"
  by (rule comparator_key)

lemma set_positive_sorted_ids [simp]: "set (positive_sorted_ids ids) = {i \<in> set ids. 0 < i}"
  by (auto simp: positive_sorted_ids_def)

lemma positive_sorted_ids_sorted: "sorted_wrt (<) (positive_sorted_ids ids)"
proof -
  let ?l = "positive_sorted_ids ids"
  have "sorted ?l" unfolding positive_sorted_ids_def
    by (rule sorted_wrt_mono_rel [OF _ ids.sorted_js_sort]) simp
  moreover have "distinct ?l" by (simp add: positive_sorted_ids_def)
  ultimately show ?thesis by (simp add: strict_sorted_iff)
qed

text \<open>
  C3. The roster difference is exact: it lists, ascending and without repetition, the valid
  entries that only the authoritative roster has and those that only the stored one has, so
  that adding the former and dropping the latter turns the stored roster into the authoritative
  one; and a recovery counts as additive exactly when no stored entry disappears.
\<close>

theorem diffTournamentRoster_correct:
  "diffTournamentRoster E A = (added, removed) \<Longrightarrow>
     sorted_wrt (<) added \<and> sorted_wrt (<) removed \<and>
     set added = {i \<in> set A. 0 < i} - set E \<and> set removed = {i \<in> set E. 0 < i} - set A \<and>
     ({i \<in> set E. 0 < i} \<union> set added) - set removed = {i \<in> set A. 0 < i} \<and>
     (isAdditiveTournamentRosterRecovery E A \<longleftrightarrow> {i \<in> set E. 0 < i} \<subseteq> set A)"
  by (auto simp: diffTournamentRoster_def isAdditiveTournamentRosterRecovery_def Let_def
      sorted_wrt_filter positive_sorted_ids_sorted filter_empty_conv)

theorem diffTournamentRoster_correct_witness:
  "\<not> isAdditiveTournamentRosterRecovery [5, 3, 0] [7, 3, 3, 1]"
proof -
  have "diffTournamentRoster [5, 3, 0] [7, 3, 3, 1] = ([1, 7], [5])" by code_simp
  from diffTournamentRoster_correct [OF this] have "isAdditiveTournamentRosterRecovery [5, 3, 0] [7, 3, 3, 1]
      \<longleftrightarrow> {i \<in> set [5, 3, 0]. (0 :: int) < i} \<subseteq> set [7, 3, 3, 1]" by blast
  then show ?thesis by auto
qed

section \<open>League addresses\<close>

text \<open>
  The type suffix of a standings address is checked in lower case but compared exactly when the
  league type is inferred: an upper-case head-to-head address is accepted as a classic league.
\<close>

definition example_league_url :: "string \<Rightarrow> parsed_url" where
  "example_league_url path = \<lparr>url_protocol = ''https:'', url_hostname = FPL_HOSTNAME, url_port = [],
     url_username = [], url_password = [], url_pathname = path\<rparr>"

lemma parseLeagueUrl_upper_case_h2h:
  "parseLeagueUrl (Some (example_league_url ''/leagues/42/standings/H'')) = Inr (42, Classic)"
  "parseLeagueUrl (Some (example_league_url ''/leagues/42/standings/h'')) = Inr (42, H2h)"
proof -
  have segs: "path_segments ''/leagues/42/standings/H'' = [''leagues'', ''42'', ''standings'', ''H'']"
    "path_segments ''/leagues/42/standings/h'' = [''leagues'', ''42'', ''standings'', ''h'']"
    by (simp_all add: path_segments_def)
  have id: "js_number ''42'' = Some 42" by code_simp
  have low: "js_lower ''H'' = ''h''" "js_lower ''h'' = ''h''" by code_simp+
  note defs = example_league_url_def parseLeagueUrl_def segs id low js_at_def inferLeagueType_def
    MAX_SAFE_INTEGER_def
  show "parseLeagueUrl (Some (example_league_url ''/leagues/42/standings/H'')) = Inr (42, Classic)"
    by (simp add: defs)
  show "parseLeagueUrl (Some (example_league_url ''/leagues/42/standings/h'')) = Inr (42, H2h)"
    by (simp add: defs)
qed

end
