(* ===== verification/Bracket.thy ===== *)
theory Bracket
  imports Tournament
begin

text \<open>
  Group draw and knockout bracket (\<^verbatim>\<open>src/domain/tournament.ts\<close>): the order in which seeds are
  placed, the pairing of a seeded entry list into round one, the serpentine distribution of
  entries over groups, and the match and leg rows of a whole knockout phase. The theorems say
  that every entry is placed exactly once, that the best seeds are spread over the sections of
  the bracket, and that the rows form one binary tree whose matches feed the home and away slot
  of their successor.
\<close>

section \<open>Model\<close>

record entry_seed =
  es_entryId :: int
  es_overallRank :: "int option"

record qualified_entry =
  qe_entryId :: int
  qe_groupId :: int
  qe_groupRank :: "int option"
  qe_overallRank :: "int option"

record seed_pair =
  homeEntryId :: "int option"
  awayEntryId :: "int option"

record knockout_match_row =
  km_tournament_id :: int
  km_round :: int
  km_started_event_id :: int
  km_ended_event_id :: int
  km_match_id :: int
  km_next_match_id :: "int option"
  km_home_entry_id :: "int option"
  km_away_entry_id :: "int option"

record knockout_result_row =
  kr_tournament_id :: int
  kr_event_id :: int
  kr_match_id :: int
  kr_play_against_id :: int
  kr_home_entry_id :: "int option"
  kr_away_entry_id :: "int option"

record group_row =
  gr_tournament_id :: int
  gr_group_id :: int
  gr_group_name :: string
  gr_group_index :: int
  gr_entry_id :: int
  gr_started_event_id :: "int option"
  gr_ended_event_id :: "int option"
  gr_group_points :: int
  gr_group_rank :: "int option"
  gr_played :: int
  gr_won :: int
  gr_drawn :: int
  gr_lost :: int
  gr_total_points :: int
  gr_total_transfers_cost :: int
  gr_total_net_points :: int
  gr_qualified :: int
  gr_overall_rank :: "int option"

text \<open>The doubling loop of \<open>buildBracketSeedOrder\<close>; \<open>sz\<close> (\<^verbatim>\<open>size\<close>) starts at 2, so it is positive.\<close>

function seed_order_loop :: "int \<Rightarrow> int \<Rightarrow> int list \<Rightarrow> int list" where
  "seed_order_loop bracketSize sz seedOrder =
     (if 0 < sz \<and> sz < bracketSize
      then (let nextSize = sz * 2 in
            seed_order_loop bracketSize nextSize
              (concat (map (\<lambda>seed. [seed, nextSize + 1 - seed]) seedOrder)))
      else seedOrder)"
  by pat_completeness auto
termination
  by (relation "measure (\<lambda>(bracketSize, sz, _). nat (bracketSize - sz))") auto

declare seed_order_loop.simps [simp del]

definition buildBracketSeedOrder :: "int \<Rightarrow> int list" where
  "buildBracketSeedOrder bracketSize = seed_order_loop bracketSize 2 [1, 2]"

definition groupNameForIndex :: "int \<Rightarrow> string" where
  "groupNameForIndex index =
     (if index < 26 then [char_of (nat (65 + index))] else ''Group '' @ show_int (index + 1))"

definition entry_seed_cmp :: "entry_seed \<Rightarrow> entry_seed \<Rightarrow> int" where
  "entry_seed_cmp left right =
     (let rankDiff = coalesce (es_overallRank left) MAX_RANK - coalesce (es_overallRank right) MAX_RANK in
      if rankDiff \<noteq> 0 then rankDiff else es_entryId left - es_entryId right)"

definition sortEntrySeeds :: "entry_seed list \<Rightarrow> entry_seed list" where
  "sortEntrySeeds entries = js_sort entry_seed_cmp entries"

definition qualified_cmp :: "qualified_entry \<Rightarrow> qualified_entry \<Rightarrow> int" where
  "qualified_cmp left right =
     (let rankDiff = coalesce (qe_groupRank left) MAX_RANK - coalesce (qe_groupRank right) MAX_RANK in
      if rankDiff \<noteq> 0 then rankDiff
      else if qe_groupId left \<noteq> qe_groupId right then qe_groupId left - qe_groupId right
      else
        (let overallDiff = coalesce (qe_overallRank left) MAX_RANK - coalesce (qe_overallRank right) MAX_RANK in
         if overallDiff \<noteq> 0 then overallDiff else qe_entryId left - qe_entryId right))"

definition sortQualifiedEntries :: "qualified_entry list \<Rightarrow> qualified_entry list" where
  "sortQualifiedEntries entries = js_sort qualified_cmp entries"

definition seedBracketEntries :: "int list \<Rightarrow> int \<Rightarrow> seed_pair list" where
  "seedBracketEntries entries teamCount =
     (if teamCount < 2 then []
      else
        (let bracketSize = nextPowerOfTwo teamCount;
             normalized = take (nat teamCount) entries;
             seedOrder = buildBracketSeedOrder bracketSize
         in map (\<lambda>index.
              (let homeSeed = seedOrder ! (index * 2); awaySeed = seedOrder ! (index * 2 + 1) in
               \<lparr>homeEntryId = (if homeSeed \<le> teamCount then js_at normalized (homeSeed - 1) else None),
                awayEntryId = (if awaySeed \<le> teamCount then js_at normalized (awaySeed - 1) else None)\<rparr>))
            [0..<nat (bracketSize div 2)]))"

text \<open>The serpentine target of the entry at \<open>index\<close> of the sorted list.\<close>

definition snake_index :: "nat \<Rightarrow> nat \<Rightarrow> nat" where
  "snake_index groupCount index =
     (let cycle = index div groupCount; offset = index mod groupCount in
      if cycle mod 2 = 0 then offset else groupCount - offset - 1)"

fun distribute_entries :: "nat \<Rightarrow> nat \<Rightarrow> entry_seed list \<Rightarrow> entry_seed list list \<Rightarrow> entry_seed list list" where
  "distribute_entries groupCount index [] grouped = grouped"
| "distribute_entries groupCount index (entry # rest) grouped =
     (let groupIndex = snake_index groupCount index in
      distribute_entries groupCount (index + 1) rest
        (grouped[groupIndex := grouped ! groupIndex @ [entry]]))"

definition group_row_of :: "tournament_config \<Rightarrow> nat \<Rightarrow> nat \<Rightarrow> entry_seed \<Rightarrow> group_row" where
  "group_row_of t groupIndex slotIndex entry =
     \<lparr>gr_tournament_id = tc_id t, gr_group_id = int groupIndex + 1,
      gr_group_name = groupNameForIndex (int groupIndex), gr_group_index = int slotIndex + 1,
      gr_entry_id = es_entryId entry, gr_started_event_id = tc_groupStartedEventId t,
      gr_ended_event_id = tc_groupEndedEventId t, gr_group_points = 0, gr_group_rank = None,
      gr_played = 0, gr_won = 0, gr_drawn = 0, gr_lost = 0, gr_total_points = 0,
      gr_total_transfers_cost = 0, gr_total_net_points = 0, gr_qualified = 0,
      gr_overall_rank = es_overallRank entry\<rparr>"

definition grouped_entries :: "tournament_config \<Rightarrow> entry_seed list \<Rightarrow> entry_seed list list" where
  "grouped_entries t entries =
     (let groupCount = nat (max (coalesce (tc_groupNum t) 1) 1) in
      distribute_entries groupCount 0 (sortEntrySeeds entries) (replicate groupCount []))"

definition buildGroupRows :: "tournament_config \<Rightarrow> entry_seed list \<Rightarrow> group_row list" where
  "buildGroupRows t entries =
     concat (map (\<lambda>(groupIndex, members).
       map (\<lambda>(slotIndex, entry). group_row_of t groupIndex slotIndex entry) (enumerate 0 members))
       (enumerate 0 (grouped_entries t entries)))"

text \<open>
  \<^verbatim>\<open>bracketSize / 2 ** round\<close> is a whole number for every round the code asks for exactly when
  \<open>2 ^ eventNum\<close> divides the bracket size. Otherwise match ids would be fractional, which the
  integer columns do not admit; that case is \<open>None\<close>, and no accepted plan reaches it.
\<close>

function roundStartIds :: "int \<Rightarrow> int \<Rightarrow> int \<Rightarrow> int \<Rightarrow> int list" where
  "roundStartIds bracketSize eventNum rnd nextMatchId =
     (if rnd \<le> eventNum
      then nextMatchId # roundStartIds bracketSize eventNum (rnd + 1)
             (nextMatchId + bracketSize div 2 ^ nat rnd)
      else [])"
  by pat_completeness auto
termination
  by (relation "measure (\<lambda>(_, eventNum, rnd, _). nat (eventNum + 1 - rnd))") auto

declare roundStartIds.simps [simp del]

definition match_row ::
  "tournament_config \<Rightarrow> seed_pair list option \<Rightarrow> int list \<Rightarrow> int \<Rightarrow> int \<Rightarrow> int \<Rightarrow> int \<Rightarrow> nat \<Rightarrow> knockout_match_row" where
  "match_row t seededRoundOne starts eventNum playAgainstNum knockoutStart rnd index =
     (let roundStart = starts ! nat (rnd - 1);
          nextRoundStart = (if rnd < eventNum then Some (starts ! nat rnd) else None);
          startedEventId = knockoutStart + (rnd - 1) * playAgainstNum;
          seeded = (if rnd = 1 then Option.bind seededRoundOne (\<lambda>s. js_at s (int index)) else None)
      in \<lparr>km_tournament_id = tc_id t, km_round = rnd, km_started_event_id = startedEventId,
          km_ended_event_id = startedEventId + playAgainstNum - 1,
          km_match_id = roundStart + int index,
          km_next_match_id = map_option (\<lambda>s. s + int index div 2) nextRoundStart,
          km_home_entry_id = Option.bind seeded homeEntryId,
          km_away_entry_id = Option.bind seeded awayEntryId\<rparr>)"

definition result_row :: "tournament_config \<Rightarrow> knockout_match_row \<Rightarrow> nat \<Rightarrow> knockout_result_row" where
  "result_row t m leg =
     (let swap = (leg mod 2 = 1) in
      \<lparr>kr_tournament_id = tc_id t, kr_event_id = km_started_event_id m + int leg,
       kr_match_id = km_match_id m, kr_play_against_id = int leg + 1,
       kr_home_entry_id = (if swap then km_away_entry_id m else km_home_entry_id m),
       kr_away_entry_id = (if swap then km_home_entry_id m else km_away_entry_id m)\<rparr>)"

definition buildKnockoutRows ::
  "tournament_config \<Rightarrow> seed_pair list option \<Rightarrow> (knockout_match_row list \<times> knockout_result_row list) option" where
  "buildKnockoutRows t seededRoundOne =
     (let teamCount = coalesce (tc_knockoutTeamNum t) 0;
          eventNum = coalesce (tc_knockoutEventNum t) 0;
          playAgainstNum = coalesce (tc_knockoutPlayAgainstNum t) 1;
          knockoutStart = coalesce (tc_knockoutStartedEventId t) 0
      in if teamCount < 2 \<or> eventNum < 1 \<or> knockoutStart < 1 then Some ([], [])
         else
           (let bracketSize = nextPowerOfTwo teamCount;
                starts = roundStartIds bracketSize eventNum 1 1;
                matches = concat (map (\<lambda>rnd.
                  map (match_row t seededRoundOne starts eventNum playAgainstNum knockoutStart rnd)
                    [0..<nat (bracketSize div 2 ^ nat rnd)]) [1..eventNum]);
                results = concat (map (\<lambda>m. map (result_row t m) [0..<nat playAgainstNum]) matches)
            in if 2 ^ nat eventNum dvd bracketSize then Some (matches, results) else None))"

section \<open>Placement of seeds\<close>

text \<open>The reference order: each round pairs seed \<open>s\<close> with the seed that complements it.\<close>

fun seed_order :: "nat \<Rightarrow> int list" where
  "seed_order 0 = [1]"
| "seed_order (Suc k) = concat (map (\<lambda>s. [s, 2 ^ Suc k + 1 - s]) (seed_order k))"

lemma seed_order_loop_eq: "j \<le> k \<Longrightarrow> seed_order_loop (2 ^ k) (2 ^ j) (seed_order j) = seed_order k"
proof (induction "k - j" arbitrary: j)
  case 0
  then show ?case by (subst seed_order_loop.simps) simp
next
  case (Suc d)
  then have less: "j < k" by simp
  have "seed_order_loop (2 ^ k) (2 ^ j) (seed_order j) = seed_order_loop (2 ^ k) (2 ^ Suc j) (seed_order (Suc j))"
    using less by (subst seed_order_loop.simps) (simp add: Let_def mult.commute)
  also have "\<dots> = seed_order k" by (rule Suc.hyps) (use Suc in auto)
  finally show ?case .
qed

lemma buildBracketSeedOrder_eq: "1 \<le> k \<Longrightarrow> buildBracketSeedOrder (2 ^ k) = seed_order k"
  using seed_order_loop_eq [of 1 k] by (simp add: buildBracketSeedOrder_def)

lemma length_seed_order [simp]: "length (seed_order k) = 2 ^ k"
  by (induction k) (simp_all add: length_concat comp_def sum_list_triv)

lemma seed_order_range: "s \<in> set (seed_order k) \<Longrightarrow> 1 \<le> s \<and> s \<le> 2 ^ k"
  by (induction k arbitrary: s) fastforce+

lemma concat_pairs_nth:
  "i < length xs \<Longrightarrow> concat (map (\<lambda>x. [f x, g x]) xs) ! (i * 2) = f (xs ! i)"
  "i < length xs \<Longrightarrow> concat (map (\<lambda>x. [f x, g x]) xs) ! (i * 2 + 1) = g (xs ! i)"
  by (induction xs arbitrary: i) (auto simp: nth_Cons less_Suc_eq_0_disj split: nat.splits)

lemma seed_order_pair:
  assumes "i < 2 ^ k"
  shows "seed_order (Suc k) ! (i * 2) = seed_order k ! i"
    and "seed_order (Suc k) ! (i * 2 + 1) = 2 ^ Suc k + 1 - seed_order k ! i"
  using concat_pairs_nth [of i "seed_order k" "\<lambda>s. s"] assms by simp_all

lemma distinct_concat_pairs:
  assumes "distinct (map f xs)" "distinct (map g xs)"
    and "\<And>x y. x \<in> set xs \<Longrightarrow> y \<in> set xs \<Longrightarrow> f x \<noteq> g y"
  shows "distinct (concat (map (\<lambda>x. [f x, g x]) xs))"
  using assms
proof (induction xs)
  case (Cons x xs)
  then show ?case by (fastforce simp: image_iff)
qed simp

lemma distinct_seed_order: "distinct (seed_order k)"
proof (induction k)
  case (Suc k)
  show ?case
    unfolding seed_order.simps
  proof (rule distinct_concat_pairs)
    show "distinct (map (\<lambda>s. s) (seed_order k))" "distinct (map (\<lambda>s. 2 ^ Suc k + 1 - s) (seed_order k))"
      using Suc by (simp_all add: distinct_map inj_on_def)
    show "x \<noteq> 2 ^ Suc k + 1 - y" if "x \<in> set (seed_order k)" "y \<in> set (seed_order k)" for x y
      using seed_order_range [OF that(1)] seed_order_range [OF that(2)] by auto
  qed
qed simp

lemma set_seed_order: "set (seed_order k) = {1..2 ^ k}"
proof (rule card_subset_eq)
  show "set (seed_order k) \<subseteq> {1..2 ^ k}" using seed_order_range by auto
  show "card (set (seed_order k)) = card {1..(2::int) ^ k}"
    by (simp add: distinct_card [OF distinct_seed_order] nat_power_eq)
qed simp

text \<open>Blocks of \<open>2 ^ r\<close> neighbouring positions: the sections that meet in round \<open>r\<close>.\<close>

definition section_of :: "nat \<Rightarrow> nat \<Rightarrow> 'a list \<Rightarrow> 'a list" where
  "section_of r b xs = take (2 ^ r) (drop (b * 2 ^ r) xs)"

lemma take_concat_pairs:
  "take (2 * n) (concat (map (\<lambda>x. [f x, g x]) xs)) = concat (map (\<lambda>x. [f x, g x]) (take n xs))"
  by (induction xs arbitrary: n) (auto simp: take_Cons split: nat.splits)

lemma drop_concat_pairs:
  "drop (2 * n) (concat (map (\<lambda>x. [f x, g x]) xs)) = concat (map (\<lambda>x. [f x, g x]) (drop n xs))"
  by (induction xs arbitrary: n) (auto simp: drop_Cons split: nat.splits)

lemma section_concat_pairs:
  "section_of (Suc r) b (concat (map (\<lambda>x. [f x, g x]) xs)) =
     concat (map (\<lambda>x. [f x, g x]) (section_of r b xs))"
  by (simp add: section_of_def take_concat_pairs drop_concat_pairs mult.left_commute [of b])

lemma filter_concat_pairs:
  "(\<And>x. x \<in> set xs \<Longrightarrow> \<not> P (g x)) \<Longrightarrow>
    filter P (concat (map (\<lambda>x. [x, g x]) xs)) = filter P xs"
  by (induction xs) auto

lemma section_of_map: "section_of r b (map f xs) = map f (section_of r b xs)"
  by (simp add: section_of_def take_map drop_map)

lemma set_section_of: "x \<in> set (section_of r b xs) \<Longrightarrow> x \<in> set xs"
  by (auto simp: section_of_def dest: in_set_takeD in_set_dropD)

lemma seed_order_section:
  "b < 2 ^ j \<Longrightarrow> length (filter (\<lambda>s. s \<le> 2 ^ j) (section_of r b (seed_order (r + j)))) = 1"
proof (induction r)
  case 0
  then have "section_of 0 b (seed_order j) = [seed_order j ! b]"
    by (simp add: section_of_def take_Suc hd_drop_conv_nth)
  with 0 seed_order_range [of "seed_order j ! b" j] show ?case by (simp add: nth_mem)
next
  case (Suc r)
  have big: "\<not> 2 ^ Suc (r + j) + 1 - s \<le> (2 ^ j :: int)" if "s \<in> set (section_of r b (seed_order (r + j)))" for s
  proof -
    have "s \<le> 2 ^ (r + j)" using seed_order_range set_section_of [OF that] by blast
    moreover have "(2::int) ^ j \<le> 2 ^ (r + j)" by simp
    ultimately show ?thesis by (simp del: power_increasing_iff)
  qed
  have "filter (\<lambda>s. s \<le> 2 ^ j) (section_of (Suc r) b (seed_order (Suc (r + j)))) =
      filter (\<lambda>s. s \<le> 2 ^ j) (section_of r b (seed_order (r + j)))"
    unfolding seed_order.simps section_concat_pairs
    by (rule filter_concat_pairs) (use big in simp)
  with Suc show ?case by simp
qed

section \<open>Round-one pairs\<close>

definition bracket_leaves :: "seed_pair list \<Rightarrow> int option list" where
  "bracket_leaves pairs = concat (map (\<lambda>p. [homeEntryId p, awayEntryId p]) pairs)"

definition seed_entry :: "int list \<Rightarrow> int \<Rightarrow> int \<Rightarrow> int option" where
  "seed_entry entries teamCount s =
     (if s \<le> teamCount then js_at (take (nat teamCount) entries) (s - 1) else None)"

lemma nextPowerOfTwo_pow: "2 \<le> n \<Longrightarrow> \<exists>k. nextPowerOfTwo n = 2 ^ Suc k \<and> ceil_log2 n = int (Suc k)"
  using ceil_log2_pos [of n]
  by (intro exI [of _ "nat (ceil_log2 n) - 1"]) (auto simp: nextPowerOfTwo_def)

lemma nextPowerOfTwo_bounds:
  assumes "2 \<le> n"
  shows "n \<le> nextPowerOfTwo n" and "nextPowerOfTwo n < 2 * n"
proof -
  have "nat n \<le> 2 ^ ceillog2 (nat n)" by (rule le_two_power_ceillog2)
  then have "int (nat n) \<le> int (2 ^ ceillog2 (nat n))" by (simp only: of_nat_le_iff)
  with assms show "n \<le> nextPowerOfTwo n" by (simp add: nextPowerOfTwo_def ceil_log2_def)
  have "2 ^ ceillog2 (nat n) < 2 * nat n" using assms by (intro two_power_ceillog2_gt) simp
  then have "int (2 ^ ceillog2 (nat n)) < int (2 * nat n)" by (simp only: of_nat_less_iff)
  with assms show "nextPowerOfTwo n < 2 * n" by (simp add: nextPowerOfTwo_def ceil_log2_def)
qed

lemma concat_pair_upt: "concat (map (\<lambda>i. [f (i * 2), f (i * 2 + 1)]) [0..<n]) = map f [0..<2 * n]"
  by (induction n) (simp_all add: mult.commute)

lemma bracket_leaves_seed:
  assumes "2 \<le> teamCount" and "nextPowerOfTwo teamCount = 2 ^ Suc k"
  shows "bracket_leaves (seedBracketEntries entries teamCount) =
    map (seed_entry entries teamCount) (seed_order (Suc k))"
proof -
  let ?f = "\<lambda>i. seed_entry entries teamCount (seed_order (Suc k) ! i)"
  have half: "nat (2 ^ Suc k div 2) = (2 ^ k :: nat)" by (simp add: nat_power_eq)
  have order: "buildBracketSeedOrder (2 ^ Suc k) = seed_order (Suc k)"
    by (rule buildBracketSeedOrder_eq) simp
  have "bracket_leaves (seedBracketEntries entries teamCount) =
      concat (map (\<lambda>i. [?f (i * 2), ?f (i * 2 + 1)]) [0..<2 ^ k])"
    using assms(1)
    unfolding bracket_leaves_def seedBracketEntries_def seed_entry_def Let_def assms(2) half order
    by (simp add: comp_def del: seed_order.simps power_Suc)
  also have "\<dots> = map ?f [0..<2 ^ Suc k]"
    using concat_pair_upt [of ?f "2 ^ k"] by (simp only: power_Suc)
  also have "\<dots> = map (seed_entry entries teamCount) (seed_order (Suc k))"
    by (rule nth_equalityI) (simp_all del: seed_order.simps)
  finally show ?thesis .
qed

lemma map_filter_upto:
  assumes "0 \<le> t" "t \<le> B" and "\<And>s. 1 \<le> s \<Longrightarrow> s \<le> t \<Longrightarrow> f s = Some (g s)" and "\<And>s. t < s \<Longrightarrow> f s = None"
  shows "List.map_filter f [1..B] = map g [1..t]"
proof -
  have split: "[1..B] = [1..t] @ [t + 1..B]"
    using assms(1,2) upto_split2 [of 1 t B] by (cases "t = 0") auto
  have "List.map_filter f xs = map g xs" if "\<forall>s \<in> set xs. 1 \<le> s \<and> s \<le> t" for xs
    using that assms(3) by (induction xs) (auto simp: map_filter_simps)
  moreover have "List.map_filter f xs = []" if "\<forall>s \<in> set xs. t < s" for xs
    using that assms(4) by (induction xs) (auto simp: map_filter_simps)
  ultimately show ?thesis unfolding split by (simp add: map_filter_def)
qed

lemma mset_map_filter_cong: "mset xs = mset ys \<Longrightarrow> mset (List.map_filter f xs) = mset (List.map_filter f ys)"
  by (simp only: map_filter_def mset_map mset_filter)

lemma mset_seed_order: "mset (seed_order k) = mset [1..2 ^ k]"
  using distinct_seed_order set_seed_order by (subst set_eq_iff_mset_eq_distinct [symmetric]) auto

lemma seed_entry_Some:
  "1 \<le> s \<Longrightarrow> s \<le> t \<Longrightarrow> t \<le> int (length entries) \<Longrightarrow> seed_entry entries t s = Some (entries ! nat (s - 1))"
  by (simp add: seed_entry_def js_at_def nat_less_iff)

lemma map_nth_upto: "t \<le> int (length xs) \<Longrightarrow> map (\<lambda>s. xs ! nat (s - 1)) [1..t] = take (nat t) xs"
  by (rule nth_equalityI) (auto simp: nth_upto)

lemma leaves_entries:
  assumes "2 \<le> t" "t \<le> int (length entries)"
  shows "mset (List.map_filter id (bracket_leaves (seedBracketEntries entries t))) =
    mset (take (nat t) entries)"
proof -
  obtain k where k: "nextPowerOfTwo t = 2 ^ Suc k" using nextPowerOfTwo_pow [OF assms(1)] by blast
  have comp: "List.map_filter id (map f xs) = List.map_filter f xs" for f :: "int \<Rightarrow> int option" and xs
    by (simp add: map_filter_def filter_map comp_def)
  have "mset (List.map_filter id (bracket_leaves (seedBracketEntries entries t))) =
      mset (List.map_filter (seed_entry entries t) [1..2 ^ Suc k])"
    unfolding bracket_leaves_seed [OF assms(1) k] comp by (rule mset_map_filter_cong [OF mset_seed_order])
  also have "List.map_filter (seed_entry entries t) [1..2 ^ Suc k] = map (\<lambda>s. entries ! nat (s - 1)) [1..t]"
    by (rule map_filter_upto)
      (use assms nextPowerOfTwo_bounds(1) [OF assms(1)] k seed_entry_Some [OF _ _ assms(2)]
        in \<open>auto simp: seed_entry_def\<close>)
  also have "\<dots> = take (nat t) entries" using assms(2) by (rule map_nth_upto)
  finally show ?thesis .
qed

lemma seedBracketEntries_nth:
  assumes "2 \<le> t" and "nextPowerOfTwo t = 2 ^ Suc k" and "i < 2 ^ k"
  shows "seedBracketEntries entries t ! i = \<lparr>homeEntryId = seed_entry entries t (seed_order k ! i),
      awayEntryId = seed_entry entries t (2 ^ Suc k + 1 - seed_order k ! i)\<rparr>"
proof -
  have order: "buildBracketSeedOrder (2 ^ Suc k) = seed_order (Suc k)"
    by (rule buildBracketSeedOrder_eq) simp
  have pair: "seed_order (Suc k) ! (i * 2) = seed_order k ! i"
      "seed_order (Suc k) ! Suc (i * 2) = 2 ^ Suc k + 1 - seed_order k ! i"
    using seed_order_pair [OF assms(3)] by (simp_all del: seed_order.simps)
  show ?thesis
    using assms(1,3)
    unfolding seedBracketEntries_def seed_entry_def Let_def assms(2) order
    by (simp add: nat_power_eq pair del: seed_order.simps)
qed

lemma length_seedBracketEntries:
  "2 \<le> t \<Longrightarrow> length (seedBracketEntries entries t) = nat (nextPowerOfTwo t div 2)"
  by (simp add: seedBracketEntries_def Let_def)

text \<open>
  Seeding places each of the first \<open>t\<close> entries of a list exactly once in a bracket of the
  next power of two: half as many pairs as places, a home entry in every pair, and the places
  left over are byes that go to the best seeds.
\<close>

lemma seeding_places_everyone:
  assumes "2 \<le> t" and "t \<le> int (length entries)"
  shows "int (length (seedBracketEntries entries t)) * 2 = nextPowerOfTwo t \<and>
    mset (List.map_filter id (bracket_leaves (seedBracketEntries entries t))) = mset (take (nat t) entries) \<and>
    (\<forall>p \<in> set (seedBracketEntries entries t). homeEntryId p \<noteq> None \<and>
      (awayEntryId p = None \<longrightarrow> (\<exists>i < nat (nextPowerOfTwo t - t). homeEntryId p = Some (entries ! i))))"
proof -
  obtain k where k: "nextPowerOfTwo t = 2 ^ Suc k" using nextPowerOfTwo_pow [OF assms(1)] by blast
  have bounds: "t \<le> 2 ^ Suc k" "2 ^ k < t" using nextPowerOfTwo_bounds [OF assms(1)] k by simp_all
  have len: "int (length (seedBracketEntries entries t)) * 2 = nextPowerOfTwo t"
    by (simp add: length_seedBracketEntries assms k nat_power_eq)
  have pair: "homeEntryId p \<noteq> None \<and>
      (awayEntryId p = None \<longrightarrow> (\<exists>i < nat (nextPowerOfTwo t - t). homeEntryId p = Some (entries ! i)))"
    if p: "p \<in> set (seedBracketEntries entries t)" for p
  proof -
    obtain i where i: "i < 2 ^ k" "p = seedBracketEntries entries t ! i"
      using p length_seedBracketEntries [OF assms(1), of entries] k
      by (auto simp: in_set_conv_nth nat_power_eq)
    define h where "h = seed_order k ! i"
    have h: "1 \<le> h" "h \<le> 2 ^ k"
      using seed_order_range [of h k] nth_mem [of i "seed_order k"] i(1) by (auto simp: h_def)
    have home: "homeEntryId p = Some (entries ! nat (h - 1))"
      using h bounds assms by (simp add: i seedBracketEntries_nth [OF assms(1) k] seed_entry_Some flip: h_def)
    moreover have "nat (h - 1) < nat (2 ^ Suc k - t)" if away: "awayEntryId p = None"
    proof (rule ccontr)
      assume "\<not> ?thesis"
      with bounds h have "2 ^ Suc k + 1 - h \<le> t" by linarith
      with h assms(2) have "awayEntryId p \<noteq> None"
        by (simp add: i seedBracketEntries_nth [OF assms(1) k] seed_entry_Some flip: h_def)
      with away show False by simp
    qed
    ultimately show ?thesis unfolding k by blast
  qed
  show ?thesis using len leaves_entries [OF assms] pair by blast
qed

lemma seed_entry_top:
  assumes "distinct entries" "t \<le> int (length entries)" "2 ^ j \<le> t" "1 \<le> s"
  shows "seed_entry entries t s \<in> Some ` set (take (2 ^ j) entries) \<longleftrightarrow> s \<le> 2 ^ j"
proof
  assume "s \<le> 2 ^ j"
  then have "nat (s - 1) < 2 ^ j" using assms(4) by (simp add: nat_less_iff)
  with assms have "entries ! nat (s - 1) \<in> set (take (2 ^ j) entries)"
    by (auto simp: set_conv_nth intro!: exI [of _ "nat (s - 1)"])
  with \<open>s \<le> 2 ^ j\<close> assms show "seed_entry entries t s \<in> Some ` set (take (2 ^ j) entries)"
    by (simp add: seed_entry_Some)
next
  assume top: "seed_entry entries t s \<in> Some ` set (take (2 ^ j) entries)"
  then have "s \<le> t" by (auto simp: seed_entry_def split: if_splits)
  with top assms obtain i where i: "i < 2 ^ j" "i < length entries" "entries ! nat (s - 1) = entries ! i"
    by (auto simp: seed_entry_Some in_set_conv_nth)
  moreover have "nat (s - 1) < length entries" using \<open>s \<le> t\<close> assms by linarith
  ultimately have "nat (s - 1) = i" using assms(1) nth_eq_iff_index_eq by blast
  then have "int (nat (s - 1)) < int (2 ^ j)" using i(1) by (simp only: of_nat_less_iff)
  then show "s \<le> 2 ^ j" using assms(4) by simp
qed

lemma leaves_sections:
  assumes "2 \<le> t" "t \<le> int (length entries)" "distinct entries"
    and "nextPowerOfTwo t = 2 ^ (r + j)" "2 ^ j \<le> t" "b < 2 ^ j"
  shows "length (filter (\<lambda>x. x \<in> Some ` set (take (2 ^ j) entries))
      (section_of r b (bracket_leaves (seedBracketEntries entries t)))) = 1"
proof -
  obtain k where k: "nextPowerOfTwo t = 2 ^ Suc k" using nextPowerOfTwo_pow [OF assms(1)] by blast
  then have rj: "r + j = Suc k" using assms(4) power_inject_exp [of "2::int" "r + j" "Suc k"] by simp
  have top: "seed_entry entries t s \<in> Some ` set (take (2 ^ j) entries) \<longleftrightarrow> s \<le> 2 ^ j"
    if "s \<in> set (section_of r b (seed_order (r + j)))" for s
    using seed_entry_top [OF assms(3,2,5)] seed_order_range [OF set_section_of [OF that]] by blast
  have "length (filter (\<lambda>x. x \<in> Some ` set (take (2 ^ j) entries))
      (section_of r b (bracket_leaves (seedBracketEntries entries t)))) =
    length (filter (\<lambda>s. seed_entry entries t s \<in> Some ` set (take (2 ^ j) entries))
      (section_of r b (seed_order (r + j))))"
    unfolding bracket_leaves_seed [OF assms(1) k] rj section_of_map by (simp add: filter_map comp_def)
  also have "\<dots> = length (filter (\<lambda>s. s \<le> 2 ^ j) (section_of r b (seed_order (r + j))))"
    using top by (intro arg_cong [where f = length] filter_cong) simp_all
  also have "\<dots> = 1" by (rule seed_order_section [OF assms(6)])
  finally show ?thesis .
qed

text \<open>
  C4. Seeding places each of the first \<open>t\<close> entries of a list exactly once in a bracket of the
  next power of two: half as many pairs as places, a home entry in every pair, and the places
  left over are byes that go to the best seeds. And the seeds are separated: cut the bracket into
  the \<open>2 ^ j\<close> sections whose winners meet in the last \<open>j\<close> rounds, and each section holds exactly one
  of the best \<open>2 ^ j\<close> entries, so the two best can only meet in the final, the four best only in
  the semi-finals, and so on.
\<close>

theorem seedBracketEntries_correct:
  assumes "2 \<le> t" "t \<le> int (length entries)"
  shows "int (length (seedBracketEntries entries t)) * 2 = nextPowerOfTwo t \<and>
    mset (List.map_filter id (bracket_leaves (seedBracketEntries entries t))) = mset (take (nat t) entries) \<and>
    (\<forall>p \<in> set (seedBracketEntries entries t). homeEntryId p \<noteq> None \<and>
      (awayEntryId p = None \<longrightarrow> (\<exists>i < nat (nextPowerOfTwo t - t). homeEntryId p = Some (entries ! i)))) \<and>
    (\<forall>r j b. distinct entries \<and> nextPowerOfTwo t = 2 ^ (r + j) \<and> 2 ^ j \<le> t \<and> b < 2 ^ j \<longrightarrow>
      length (filter (\<lambda>x. x \<in> Some ` set (take (2 ^ j) entries))
        (section_of r b (bracket_leaves (seedBracketEntries entries t)))) = 1)"
  using seeding_places_everyone [OF assms] leaves_sections [OF assms] by blast

theorem seedBracketEntries_correct_witness:
  "length (seedBracketEntries [11, 12, 13, 14, 15, 16, 17] 7) = 4 \<and>
    length (filter (\<lambda>x. x \<in> Some ` set [11, 12])
      (section_of 2 1 (bracket_leaves (seedBracketEntries [11, 12, 13, 14, 15, 16, 17] 7)))) = 1"
proof -
  have top: "nextPowerOfTwo 7 = 2 ^ (2 + 1)" by (simp add: nextPowerOfTwo_def ceil_log2_def ceillog2_rec)
  note t = seedBracketEntries_correct [of 7 "[11, 12, 13, 14, 15, 16, 17]"]
  have size: "int (length (seedBracketEntries [11, 12, 13, 14, 15, 16, 17] 7)) * 2 = nextPowerOfTwo 7"
    and sections: "\<And>r j b. distinct [11, 12, 13, 14, 15, 16, 17 :: int] \<Longrightarrow> nextPowerOfTwo 7 = 2 ^ (r + j) \<Longrightarrow>
      2 ^ j \<le> (7 :: int) \<Longrightarrow> b < 2 ^ j \<Longrightarrow>
      length (filter (\<lambda>x. x \<in> Some ` set (take (2 ^ j) [11, 12, 13, 14, 15, 16, 17]))
        (section_of r b (bracket_leaves (seedBracketEntries [11, 12, 13, 14, 15, 16, 17] 7)))) = 1"
    using t by simp_all
  note sections [OF _ top, of 1]
  moreover have "int (length (seedBracketEntries [11, 12, 13, 14, 15, 16, 17] 7)) * 2 = 8" using size top by simp
  ultimately show ?thesis by simp
qed

section \<open>Group draw\<close>

lemma snake_index_less: "0 < g \<Longrightarrow> snake_index g i < g"
  by (simp add: snake_index_def Let_def)

lemma distribute_entries_nth:
  assumes "length grouped = g" and "gi < g"
  shows "distribute_entries g i xs grouped ! gi =
    grouped ! gi @ map snd (filter (\<lambda>(j, _). snake_index g j = gi) (enumerate i xs))"
  using assms snake_index_less [of g]
  by (induction xs arbitrary: i grouped) (auto simp: Let_def nth_list_update)

lemma length_distribute_entries [simp]: "length (distribute_entries g i xs grouped) = length grouped"
  by (induction xs arbitrary: i grouped) (simp_all add: Let_def)

lemma length_filter_enumerate:
  "length (filter (\<lambda>(j, _). P j) (enumerate i xs)) = length (filter P [i..<i + length xs])"
proof (induction xs arbitrary: i)
  case (Cons x xs)
  have "[i..<i + length (x # xs)] = i # [Suc i..<Suc i + length xs]" 
    using upt_conv_Cons [of i "i + length (x # xs)"] by simp
  with Cons show ?case by (simp only: enumerate_simps filter.simps list.size case_prod_conv) simp
qed simp

lemma snake_cycle:
  assumes "gi < g"
  shows "length (filter (\<lambda>i. snake_index g i = gi) [c * g..<c * g + g]) = 1"
proof -
  define p where "p = (if c mod 2 = 0 then gi else g - 1 - gi)"
  have p: "p < g" using assms by (auto simp: p_def)
  have at: "snake_index g (c * g + q) = gi \<longleftrightarrow> q = p" if "q < g" for q
    using that assms by (auto simp: snake_index_def p_def Let_def)
  have upt: "[c * g..<c * g + g] = map (\<lambda>q. c * g + q) [0..<g]"
    using map_add_upt [of "c * g" g] by (simp add: add.commute)
  have "length (filter (\<lambda>i. snake_index g i = gi) [c * g..<c * g + g]) =
      length (filter (\<lambda>q. snake_index g (c * g + q) = gi) [0..<g])"
    unfolding upt by (simp add: filter_map comp_def)
  also have "filter (\<lambda>q. snake_index g (c * g + q) = gi) [0..<g] = filter (\<lambda>q. q = p) [0..<g]"
    using at by (intro filter_cong) simp_all
  also have "length \<dots> = card {q. q < g \<and> q = p}"
    unfolding length_filter_conv_card by (intro arg_cong [where f = card]) auto
  also have "{q. q < g \<and> q = p} = {p}" using p by auto
  also have "card {p} = 1" by simp
  finally show ?thesis .
qed

lemma snake_cycles:
  "gi < g \<Longrightarrow> length (filter (\<lambda>i. snake_index g i = gi) [0..<c * g]) = c"
proof (induction c)
  case (Suc c)
  have "[0..<Suc c * g] = [0..<c * g] @ [c * g..<c * g + g]"
    using upt_add_eq_append [of 0 "c * g" g] by (simp add: add.commute)
  with Suc snake_cycle [OF Suc.prems, of c] show ?case by simp
qed simp

lemma snake_count:
  assumes "gi < g"
  shows "length (filter (\<lambda>i. snake_index g i = gi) [0..<n]) \<in> {n div g, n div g + 1}"
proof -
  define c where "c = n div g"
  have n: "c * g \<le> n" "n < c * g + g"
    using assms dividend_less_times_div [of g n] by (simp_all add: c_def mult.commute)
  have split: "[0..<n] = [0..<c * g] @ [c * g..<n]" "[c * g..<c * g + g] = [c * g..<n] @ [n..<c * g + g]"
    using n upt_add_eq_append [of 0 "c * g" "n - c * g"] upt_add_eq_append [of "c * g" n "c * g + g - n"]
    by simp_all
  have "length (filter (\<lambda>i. snake_index g i = gi) [c * g..<n]) \<le> 1"
    using snake_cycle [OF assms, of c] unfolding split(2) by simp
  with snake_cycles [OF assms, of c] show ?thesis
    unfolding split(1) c_def [symmetric] by (auto simp: le_Suc_eq)
qed

lemma mset_concat_update:
  "i < length gs \<Longrightarrow> mset (concat (gs[i := gs ! i @ [x]])) = add_mset x (mset (concat gs))"
  by (induction gs arbitrary: i) (auto split: nat.splits)

lemma mset_distribute_entries:
  "length grouped = g \<Longrightarrow> 0 < g \<Longrightarrow>
    mset (concat (distribute_entries g i xs grouped)) = mset (concat grouped) + mset xs"
  by (induction xs arbitrary: i grouped) (simp_all add: Let_def mset_concat_update snake_index_less del: mset_concat)

lemma entries_of_rows:
  "map gr_entry_id (concat (map (\<lambda>(gi, members). map (\<lambda>(si, e). group_row_of t gi si e) (enumerate 0 members))
     (enumerate k gs))) = map es_entryId (concat gs)"
proof (induction gs arbitrary: k)
  case (Cons m gs)
  have "map gr_entry_id (map (\<lambda>(si, e). group_row_of t k si e) (enumerate i m)) = map es_entryId m" for i
    by (induction m arbitrary: i) (simp_all add: group_row_of_def)
  with Cons show ?case by simp
qed simp

lemma gr_group_id_row [simp]: "gr_group_id (group_row_of t gi si e) = int gi + 1"
  by (simp add: group_row_of_def)

lemma count_group_rows:
  "k \<le> gi \<Longrightarrow> gi < k + length gs \<Longrightarrow>
   length (filter (\<lambda>r. gr_group_id r = int gi + 1)
     (concat (map (\<lambda>(gi, members). map (\<lambda>(si, e). group_row_of t gi si e) (enumerate 0 members))
       (enumerate k gs)))) = length (gs ! (gi - k))"
proof (induction gs arbitrary: k)
  case (Cons m gs)
  have here: "filter (\<lambda>r. gr_group_id r = int gi + 1) (map (\<lambda>(si, e). group_row_of t k' si e) (enumerate i m)) =
      (if k' = gi then map (\<lambda>(si, e). group_row_of t k' si e) (enumerate i m) else [])" for k' i m
  proof (cases "k' = gi")
    case True
    then show ?thesis by (simp add: filter_id_conv split_beta)
  next
    case False
    then show ?thesis by (simp add: filter_empty_conv split_beta)
  qed
  have none: "filter (\<lambda>r. gr_group_id r = int gi + 1)
     (concat (map (\<lambda>(gi, members). map (\<lambda>(si, e). group_row_of t gi si e) (enumerate 0 members))
       (enumerate k' gs))) = []" if "gi < k'" for k' gs
    using that by (induction gs arbitrary: k') (simp_all add: here)
  show ?case
  proof (cases "k = gi")
    case True
    then show ?thesis by (simp add: here none)
  next
    case False
    with Cons.prems have "gi - k = Suc (gi - Suc k)" by simp
    with False Cons.prems Cons.IH [of "Suc k"] show ?thesis by (simp add: here)
  qed
qed simp

interpretation entry_seeds: comparator entry_seed_cmp
proof -
  have "comparator (\<lambda>x y. if coalesce (es_overallRank x) MAX_RANK - coalesce (es_overallRank y) MAX_RANK \<noteq> 0
      then coalesce (es_overallRank x) MAX_RANK - coalesce (es_overallRank y) MAX_RANK
      else es_entryId x - es_entryId y)"
    by (rule comparator_then [OF comparator_key comparator_key])
  then show "comparator entry_seed_cmp" by (simp add: entry_seed_cmp_def [abs_def] Let_def)
qed

interpretation qualified_entries: comparator qualified_cmp
proof -
  let ?rank = "\<lambda>x y :: qualified_entry. coalesce (qe_groupRank x) MAX_RANK - coalesce (qe_groupRank y) MAX_RANK"
  let ?overall = "\<lambda>x y :: qualified_entry. coalesce (qe_overallRank x) MAX_RANK - coalesce (qe_overallRank y) MAX_RANK"
  let ?group = "\<lambda>x y :: qualified_entry. qe_groupId x - qe_groupId y" and ?id = "\<lambda>x y :: qualified_entry. qe_entryId x - qe_entryId y"
  let ?tail = "\<lambda>x y. if ?overall x y \<noteq> 0 then ?overall x y else ?id x y"
  let ?mid = "\<lambda>x y. if ?group x y \<noteq> 0 then ?group x y else ?tail x y"
  have "comparator (\<lambda>x y. if ?rank x y \<noteq> 0 then ?rank x y else ?mid x y)"
    by (intro comparator_then comparator_key)
  moreover have "qualified_cmp = (\<lambda>x y. if ?rank x y \<noteq> 0 then ?rank x y else ?mid x y)"
    by (simp add: qualified_cmp_def Let_def fun_eq_iff)
  ultimately show "comparator qualified_cmp" by (simp only:)
qed


definition example_config :: tournament_config where
  "example_config = \<lparr>tc_id = 1, tc_leagueId = None, tc_leagueType = None, tc_rosterMode = None,
     tc_totalTeamNum = 5, tc_groupMode = Points_races, tc_groupNum = Some 2,
     tc_groupStartedEventId = Some 1, tc_groupEndedEventId = Some 10, tc_groupQualifyNum = Some 2,
     tc_knockoutMode = Double_elimination, tc_knockoutTeamNum = Some 5, tc_knockoutEventNum = Some 3,
     tc_knockoutStartedEventId = Some 11, tc_knockoutEndedEventId = Some 16,
     tc_knockoutPlayAgainstNum = Some 2\<rparr>"

definition example_seeds :: "entry_seed list" where
  "example_seeds = map (\<lambda>i. \<lparr>es_entryId = i, es_overallRank = Some (100 - i)\<rparr>) [1..5]"


section \<open>Knockout rows\<close>

lemma two_power_div: "j < k \<Longrightarrow> (2::int) ^ k div 2 ^ Suc j = 2 ^ (k - Suc j)"
  by (subst power_diff) simp_all

lemma two_power_split: "j < k \<Longrightarrow> (2::int) ^ (k - j) = 2 * 2 ^ (k - Suc j)"
  by (metis Suc_diff_Suc power_Suc)

lemma roundStartIds_nth:
  "j + i < k \<Longrightarrow> roundStartIds (2 ^ k) (int k) (int (Suc j)) (1 + 2 ^ k - 2 ^ (k - j)) ! i =
     1 + 2 ^ k - 2 ^ (k - j - i)"
proof (induction i arbitrary: j)
  case 0
  then show ?case by (subst roundStartIds.simps) simp
next
  case (Suc i)
  then have j: "j < k" "Suc j + i < k" by simp_all
  have step: "1 + 2 ^ k - 2 ^ (k - j) + 2 ^ k div 2 ^ nat (int (Suc j)) = 1 + 2 ^ k - (2::int) ^ (k - Suc j)"
    using two_power_div [OF j(1)] two_power_split [OF j(1)] by (simp only: nat_int)
  have next_round: "int (Suc j) + 1 = int (Suc (Suc j))" by simp
  have "roundStartIds (2 ^ k) (int k) (int (Suc j)) (1 + 2 ^ k - 2 ^ (k - j)) ! Suc i =
      roundStartIds (2 ^ k) (int k) (int (Suc (Suc j))) (1 + 2 ^ k - 2 ^ (k - Suc j)) ! i"
    using j(1) by (subst roundStartIds.simps) (simp only: step next_round, simp)
  also have "\<dots> = 1 + 2 ^ k - 2 ^ (k - Suc j - i)" by (rule Suc.IH [OF j(2)])
  finally show ?case by simp
qed

lemma round_start: "j < k \<Longrightarrow> roundStartIds (2 ^ k) (int k) 1 1 ! j = 1 + 2 ^ k - 2 ^ (k - j)"
  using roundStartIds_nth [of 0 j k] by simp

text \<open>The rows of a bracket of \<open>2 ^ k\<close> places, round by round.\<close>

definition bracket_matches ::
  "tournament_config \<Rightarrow> seed_pair list option \<Rightarrow> nat \<Rightarrow> int \<Rightarrow> int \<Rightarrow> knockout_match_row list" where
  "bracket_matches t seeded k P S =
     concat (map (\<lambda>j. map (match_row t seeded (roundStartIds (2 ^ k) (int k) 1 1) (int k) P S (int (Suc j)))
       [0..<2 ^ (k - Suc j)]) [0..<k])"

lemma upto_int_Suc: "[1..int k] = map (\<lambda>j. int (Suc j)) [0..<k]"
proof (induction k)
  case (Suc k)
  have "[1..int (Suc k)] = [1..int k] @ [int (Suc k)]" using upto_rec2 [of 1 "int (Suc k)"] by simp
  with Suc show ?case by simp
qed simp

lemma buildKnockoutRows_eq:
  assumes "tc_knockoutTeamNum t = Some T" "2 \<le> T" "nextPowerOfTwo T = 2 ^ k"
    and "tc_knockoutEventNum t = Some (int k)" "1 \<le> k" "tc_knockoutStartedEventId t = Some S" "1 \<le> S"
    and "tc_knockoutPlayAgainstNum t = Some P"
  shows "buildKnockoutRows t seeded = Some (bracket_matches t seeded k P S,
    concat (map (\<lambda>m. map (result_row t m) [0..<nat P]) (bracket_matches t seeded k P S)))"
proof -
  have size: "nat (2 ^ k div 2 ^ nat (int (Suc j))) = (2 ^ (k - Suc j) :: nat)" if "j < k" for j
    unfolding nat_int two_power_div [OF that] by (simp add: nat_power_eq)
  have "concat (map (\<lambda>rnd. map (match_row t seeded (roundStartIds (2 ^ k) (int k) 1 1) (int k) P S rnd)
      [0..<nat (2 ^ k div 2 ^ nat rnd)]) [1..int k]) = bracket_matches t seeded k P S"
    unfolding upto_int_Suc bracket_matches_def map_map comp_def
    by (intro arg_cong [where f = concat] map_cong refl) (simp only: size set_upt atLeastLessThan_iff)
  then show ?thesis using assms by (simp add: buildKnockoutRows_def Let_def)
qed

lemma bracket_match_ids: "map km_match_id (bracket_matches t seeded k P S) = [1..2 ^ k - 1]"
proof -
  let ?rows = "\<lambda>j. map (match_row t seeded (roundStartIds (2 ^ k) (int k) 1 1) (int k) P S (int (Suc j)))
      [0..<2 ^ (k - Suc j)]"
  have upto_shift: "map (\<lambda>i. a + int i) [0..<n] = [a..a + int n - 1]" for a n
    by (rule nth_equalityI) (simp_all add: nth_upto)
  have ids: "map km_match_id (?rows j) = [1 + 2 ^ k - 2 ^ (k - j)..2 ^ k - 2 ^ (k - Suc j)]" if "j < k" for j
  proof -
    have "map km_match_id (?rows j) = map (\<lambda>i. (1 + 2 ^ k - 2 ^ (k - j)) + int i) [0..<2 ^ (k - Suc j)]"
      using round_start [OF that] by (simp add: match_row_def Let_def comp_def)
    then show ?thesis unfolding upto_shift using two_power_split [OF that] by simp
  qed
  have "n \<le> k \<Longrightarrow> map km_match_id (concat (map ?rows [0..<n])) = [1..2 ^ k - 2 ^ (k - n)]" for n
  proof (induction n)
    case (Suc n)
    have "[1..2 ^ k - 2 ^ (k - Suc n)] = [1..2 ^ k - 2 ^ (k - n)] @ [1 + 2 ^ k - 2 ^ (k - n)..2 ^ k - (2::int) ^ (k - Suc n)]"
    proof (cases n)
      case 0
      then show ?thesis by simp
    next
      case (Suc m)
      with Suc.prems have "(2::int) ^ (k - n) < 2 ^ k"
        by (intro power_strict_increasing) simp_all
      then show ?thesis using two_power_split [of n k] Suc.prems
          upto_split2 [of 1 "2 ^ k - 2 ^ (k - n)" "2 ^ k - 2 ^ (k - Suc n)"] by (simp add: algebra_simps)
    qed
    with Suc ids [of n] show ?case by simp
  qed simp
  from this [of k] show ?thesis by (simp add: bracket_matches_def)
qed

lemma bracket_matches_cases:
  assumes "m \<in> set (bracket_matches t seeded k P S)"
  obtains j i where "j < k" "i < 2 ^ (k - Suc j)"
    "m = match_row t seeded (roundStartIds (2 ^ k) (int k) 1 1) (int k) P S (int (Suc j)) i"
  using assms by (auto simp: bracket_matches_def)

lemma bracket_matches_in:
  "j < k \<Longrightarrow> i < 2 ^ (k - Suc j) \<Longrightarrow>
   match_row t seeded (roundStartIds (2 ^ k) (int k) 1 1) (int k) P S (int (Suc j)) i \<in> set (bracket_matches t seeded k P S)"
  by (force simp: bracket_matches_def simp del: of_nat_Suc)

lemma bracket_row_fields:
  assumes "j < k" "i < 2 ^ (k - Suc j)"
    and "m = match_row t seeded (roundStartIds (2 ^ k) (int k) 1 1) (int k) P S (int (Suc j)) i"
  shows "km_round m = int (Suc j)" "km_started_event_id m = S + int j * P"
    "km_ended_event_id m = S + int j * P + P - 1"
    "km_match_id m = 1 + 2 ^ k - 2 ^ (k - j) + int i"
    "km_next_match_id m = (if Suc j < k then Some (1 + 2 ^ k - 2 ^ (k - Suc j) + int i div 2) else None)"
  using assms round_start [OF assms(1)] round_start [of "Suc j" k]
  by (simp_all add: match_row_def Let_def nat_add_distrib)

lemma bracket_next_id:
  assumes "j < k" "i < 2 ^ (k - Suc j)" and id: "n = 1 + 2 ^ k - 2 ^ (k - j) + int i"
  shows "n = 2 ^ k - 1 \<longleftrightarrow> Suc j = k"
    and "Suc j < k \<Longrightarrow> 1 + 2 ^ k - 2 ^ (k - Suc j) + int i div 2 = 2 ^ k div 2 + (n + 1) div 2"
proof -
  define b :: int where "b = 2 ^ (k - Suc j)"
  have i: "int i < b" using assms(2) unfolding b_def by (metis of_nat_less_iff of_nat_numeral of_nat_power)
  have n: "n = 1 + 2 ^ k - 2 * b + int i" using id two_power_split [OF assms(1)] by (simp add: b_def)
  have "b = 1 \<longleftrightarrow> Suc j = k"
    using assms(1) power_inject_exp [of "2::int" "k - Suc j" 0] by (auto simp: b_def)
  moreover have "1 \<le> b" by (simp add: b_def)
  ultimately show "n = 2 ^ k - 1 \<longleftrightarrow> Suc j = k" using n i by linarith
  obtain a :: int where a: "2 ^ k = 2 * a" using assms(1) by (metis gr_implies_not0 power_eq_if)
  show "1 + 2 ^ k - 2 ^ (k - Suc j) + int i div 2 = 2 ^ k div 2 + (n + 1) div 2" if "Suc j < k"
    unfolding n a b_def [symmetric] by simp
qed

text \<open>What the rows of a bracket of \<open>B\<close> places promise.\<close>

definition knockout_tree :: "int \<Rightarrow> int \<Rightarrow> int \<Rightarrow> int \<Rightarrow> knockout_match_row list \<Rightarrow> bool" where
  "knockout_tree B R P S matches \<longleftrightarrow>
     map km_match_id matches = [1..B - 1] \<and>
     (\<forall>m \<in> set matches.
        1 \<le> km_round m \<and> km_round m \<le> R \<and>
        km_started_event_id m = S + (km_round m - 1) * P \<and>
        km_ended_event_id m = km_started_event_id m + P - 1 \<and>
        km_next_match_id m = (if km_match_id m = B - 1 then None else Some (B div 2 + (km_match_id m + 1) div 2)) \<and>
        (km_match_id m = B - 1 \<longrightarrow> km_ended_event_id m = S + R * P - 1) \<and>
        (\<forall>n. km_next_match_id m = Some n \<longrightarrow>
          (\<exists>m' \<in> set matches. km_match_id m' = n \<and> km_round m' = km_round m + 1 \<and>
            km_started_event_id m' = km_ended_event_id m + 1)))"

lemma bracket_matches_tree: "knockout_tree (2 ^ k) (int k) P S (bracket_matches t seeded k P S)"
  unfolding knockout_tree_def
proof (intro conjI ballI bracket_match_ids)
  fix m assume m: "m \<in> set (bracket_matches t seeded k P S)"
  obtain j i where ji: "j < k" "i < 2 ^ (k - Suc j)"
    and row: "m = match_row t seeded (roundStartIds (2 ^ k) (int k) 1 1) (int k) P S (int (Suc j)) i"
    by (rule bracket_matches_cases [OF m])
  note f = bracket_row_fields [OF ji row] and n = bracket_next_id [OF ji f(4)]
  show "1 \<le> km_round m" "km_round m \<le> int k" "km_started_event_id m = S + (km_round m - 1) * P"
      "km_ended_event_id m = km_started_event_id m + P - 1"
    using f ji(1) by simp_all
  show "km_match_id m = 2 ^ k - 1 \<longrightarrow> km_ended_event_id m = S + int k * P - 1"
    using n(1) f(3) by (auto simp: algebra_simps)
  show next_id: "km_next_match_id m =
      (if km_match_id m = 2 ^ k - 1 then None else Some (2 ^ k div 2 + (km_match_id m + 1) div 2))"
    using n f(5) ji(1) by auto
  show "\<forall>n. km_next_match_id m = Some n \<longrightarrow> (\<exists>m' \<in> set (bracket_matches t seeded k P S).
      km_match_id m' = n \<and> km_round m' = km_round m + 1 \<and> km_started_event_id m' = km_ended_event_id m + 1)"
  proof (intro allI impI)
    fix n' assume nx: "km_next_match_id m = Some n'"
    then have j: "Suc j < k" using f(5) by (auto split: if_splits)
    have half: "i div 2 < 2 ^ (k - Suc (Suc j))"
      using ji(2) Suc_diff_Suc [OF j] by (metis less_mult_imp_div_less mult.commute power_Suc)
    define m' where "m' = match_row t seeded (roundStartIds (2 ^ k) (int k) 1 1) (int k) P S (int (Suc (Suc j))) (i div 2)"
    note f' = bracket_row_fields [OF j half m'_def]
    have "m' \<in> set (bracket_matches t seeded k P S)"
      unfolding m'_def by (rule bracket_matches_in [OF j half])
    then show "\<exists>m' \<in> set (bracket_matches t seeded k P S). km_match_id m' = n' \<and>
        km_round m' = km_round m + 1 \<and> km_started_event_id m' = km_ended_event_id m + 1"
      using f' f nx j by (intro bexI [of _ m']) (auto simp: zdiv_int algebra_simps)
  qed
qed

text \<open>
  For a knockout phase sized by its team count, \<open>buildKnockoutRows\<close> yields one binary tree:
  match ids run from 1 to \<open>B - 1\<close>, the winners of matches \<open>2 n - B - 1\<close> and \<open>2 n - B\<close> meet in match
  \<open>n\<close> of the following round, only the final has no successor, each round occupies the \<open>P\<close>
  gameweeks after the previous one, and the final ends with the phase.
\<close>

lemma knockout_rows_tree:
  assumes "tc_knockoutTeamNum t = Some T" "2 \<le> T" "tc_knockoutEventNum t = Some (ceil_log2 T)"
    and "tc_knockoutStartedEventId t = Some S" "1 \<le> S" "tc_knockoutPlayAgainstNum t = Some P"
  shows "\<exists>matches results. buildKnockoutRows t seeded = Some (matches, results) \<and>
    knockout_tree (nextPowerOfTwo T) (ceil_log2 T) P S matches"
proof -
  obtain k where k: "nextPowerOfTwo T = 2 ^ Suc k" "ceil_log2 T = int (Suc k)"
    using nextPowerOfTwo_pow [OF assms(2)] by blast
  show ?thesis
    using buildKnockoutRows_eq [OF assms(1,2) k(1) assms(3) [unfolded k(2)] _ assms(4,5,6), of seeded]
      bracket_matches_tree [of "Suc k" P S t seeded] by (simp only: k) simp
qed

section \<open>Leg rows\<close>

text \<open>
  The legs of a list of matches: one row per match and leg, all within the match's window, with
  the two sides of the match exchanged on every second leg.
\<close>

definition legs_of_matches :: "int \<Rightarrow> knockout_match_row list \<Rightarrow> knockout_result_row list \<Rightarrow> bool" where
  "legs_of_matches P matches results \<longleftrightarrow>
     map (\<lambda>r. (kr_match_id r, kr_play_against_id r)) results = List.product (map km_match_id matches) [1..P] \<and>
     (\<forall>r \<in> set results. \<exists>m \<in> set matches. kr_match_id r = km_match_id m \<and>
        kr_event_id r = km_started_event_id m + kr_play_against_id r - 1 \<and>
        (kr_home_entry_id r, kr_away_entry_id r) =
          (if kr_play_against_id r mod 2 = 1 then (km_home_entry_id m, km_away_entry_id m)
           else (km_away_entry_id m, km_home_entry_id m)))"

lemma upto_nat_shift: "map (\<lambda>l. int l + 1) [0..<nat P] = [1..P]"
  by (rule nth_equalityI) (simp_all add: nth_upto)

lemma result_rows_legs:
  "legs_of_matches P matches (concat (map (\<lambda>m. map (result_row t m) [0..<nat P]) matches))"
proof -
  have "map (\<lambda>r. (kr_match_id r, kr_play_against_id r)) (concat (map (\<lambda>m. map (result_row t m) [0..<nat P]) ms)) =
      List.product (map km_match_id ms) [1..P]" for ms
    unfolding upto_nat_shift [symmetric]
    by (induction ms) (simp_all add: result_row_def Let_def comp_def)
  moreover have "(int l + 1) mod 2 = 1 \<longleftrightarrow> l mod 2 = 0" for l by presburger
  ultimately show ?thesis
    unfolding legs_of_matches_def by (auto simp: result_row_def Let_def)
qed

lemma knockout_rows_legs:
  assumes "tc_knockoutTeamNum t = Some T" "2 \<le> T" "tc_knockoutEventNum t = Some (ceil_log2 T)"
    and "tc_knockoutStartedEventId t = Some S" "1 \<le> S" "tc_knockoutPlayAgainstNum t = Some P"
    and "buildKnockoutRows t seeded = Some (matches, results)"
  shows "legs_of_matches P matches results"
proof -
  obtain k where k: "nextPowerOfTwo T = 2 ^ Suc k" "ceil_log2 T = int (Suc k)"
    using nextPowerOfTwo_pow [OF assms(2)] by blast
  show ?thesis
    using buildKnockoutRows_eq [OF assms(1,2) k(1) assms(3) [unfolded k(2)] _ assms(4,5,6), of seeded]
      assms(7) result_rows_legs by auto
qed

text \<open>
  C6. For a knockout phase sized by its team count, \<open>buildKnockoutRows\<close> yields one binary tree:
  match ids run from 1 to \<open>B - 1\<close>, the winners of matches \<open>2 n - B - 1\<close> and \<open>2 n - B\<close> meet in match
  \<open>n\<close> of the following round, only the final has no successor, each round occupies the \<open>P\<close>
  gameweeks after the previous one, and the final ends with the phase. There is exactly one leg row
  per match and leg; leg \<open>l\<close> is played in the \<open>l\<close>-th gameweek of the match's window and swaps home
  and away on even legs.
\<close>

theorem buildKnockoutRows_correct:
  assumes "tc_knockoutTeamNum t = Some T" "2 \<le> T" "tc_knockoutEventNum t = Some (ceil_log2 T)"
    and "tc_knockoutStartedEventId t = Some S" "1 \<le> S" "tc_knockoutPlayAgainstNum t = Some P"
  shows "\<exists>matches results. buildKnockoutRows t seeded = Some (matches, results) \<and>
    knockout_tree (nextPowerOfTwo T) (ceil_log2 T) P S matches \<and> legs_of_matches P matches results"
  using knockout_rows_tree [OF assms, of seeded] knockout_rows_legs [OF assms, of seeded] by blast

theorem buildKnockoutRows_correct_witness:
  "\<exists>matches results. buildKnockoutRows example_config (Some (seedBracketEntries [11, 12, 13, 14, 15] 5)) = Some (matches, results) \<and>
    knockout_tree 8 3 2 11 matches \<and> legs_of_matches 2 matches results"
  using buildKnockoutRows_correct [of example_config 5 11 2 "Some (seedBracketEntries [11, 12, 13, 14, 15] 5)"]
  by (simp add: example_config_def nextPowerOfTwo_def ceil_log2_def ceillog2_rec)

text \<open>The gameweeks of a tree's matches and legs stay inside the phase.\<close>

lemma tree_events:
  assumes "knockout_tree B R P S matches" "legs_of_matches P matches results" "1 \<le> P" "r \<in> set results"
  shows "S \<le> kr_event_id r \<and> kr_event_id r \<le> S + R * P - 1"
proof -
  obtain m where m: "m \<in> set matches" "kr_event_id r = km_started_event_id m + kr_play_against_id r - 1"
    using assms(2,4) unfolding legs_of_matches_def by blast
  have "(kr_match_id r, kr_play_against_id r) \<in> set (List.product (map km_match_id matches) [1..P])"
    using assms(2,4) unfolding legs_of_matches_def by (metis (mono_tags, lifting) image_eqI image_set)
  then have leg: "1 \<le> kr_play_against_id r" "kr_play_against_id r \<le> P" by auto
  have rd: "0 \<le> km_round m - 1" "km_round m \<le> R" "km_started_event_id m = S + (km_round m - 1) * P"
    using assms(1) m(1) unfolding knockout_tree_def by fastforce+
  have "1 * P \<le> km_round m * P" "km_round m * P \<le> R * P"
    using rd(1,2) assms(3) by (intro mult_right_mono; simp)+
  moreover have "km_started_event_id m = S + km_round m * P - P" using rd(3) by (simp add: left_diff_distrib)
  ultimately show ?thesis using m(2) leg by linarith
qed

end
