(* ===== verification/TournamentTables.thy ===== *)
theory TournamentTables
  imports Bracket
begin

text \<open>
  The tournament tables and the repository functions the result services use
  (\<^verbatim>\<open>tournament-knockouts.ts\<close>, \<^verbatim>\<open>tournament-knockout-results.ts\<close>, \<^verbatim>\<open>tournament-groups.ts\<close>,
  \<^verbatim>\<open>tournament-points-group-results.ts\<close>, \<^verbatim>\<open>tournament-battle-group-results.ts\<close> and
  \<^verbatim>\<open>entry-event-results.ts\<close> under \<^verbatim>\<open>src/repositories\<close>). A table is the list of its rows for one season; all queries of the code
  select by season, so other seasons' rows are not represented. \<open>upsert_batch\<close> is
  \<^verbatim>\<open>INSERT ... ON CONFLICT DO UPDATE\<close>: a row with a known key has the listed columns replaced by
  \<open>merge\<close>, any other row is inserted. The locale \<open>upsert_table\<close> states what a table promises its
  clients, and the five tables are interpretations of it. Bookkeeping columns (surrogate ids,
  creation and update times) are left out.

  Queries without \<^verbatim>\<open>ORDER BY\<close> return rows in table order; as tables are arbitrary lists, theorems
  about them hold for every order the database may choose.
\<close>

section \<open>Upserting rows\<close>

definition upsert_row :: "('r \<Rightarrow> 'k) \<Rightarrow> ('r \<Rightarrow> 'r \<Rightarrow> 'r) \<Rightarrow> 'r list \<Rightarrow> 'r \<Rightarrow> 'r list" where
  "upsert_row key merge rows r =
     (if \<exists>t \<in> set rows. key t = key r then map (\<lambda>t. if key t = key r then merge r t else t) rows
      else rows @ [r])"

definition upsert_batch :: "('r \<Rightarrow> 'k) \<Rightarrow> ('r \<Rightarrow> 'r \<Rightarrow> 'r) \<Rightarrow> 'r list \<Rightarrow> 'r list \<Rightarrow> 'r list" where
  "upsert_batch key merge records rows = foldl (upsert_row key merge) rows records"

definition lookup :: "('r \<Rightarrow> 'k) \<Rightarrow> 'r list \<Rightarrow> 'k \<Rightarrow> 'r option" where
  "lookup key rows k = find (\<lambda>t. key t = k) rows"

lemma lookup_simps [simp]:
  "lookup key [] k = None"
  "lookup key (t # rows) k = (if key t = k then Some t else lookup key rows k)"
  by (simp_all add: lookup_def)

lemma lookup_append: "lookup key (xs @ ys) k = (case lookup key xs k of None \<Rightarrow> lookup key ys k | Some t \<Rightarrow> Some t)"
  by (induction xs) auto

lemma lookup_None_iff: "lookup key rows k = None \<longleftrightarrow> k \<notin> key ` set rows"
  by (induction rows) auto

lemma lookup_SomeD: "lookup key rows k = Some t \<Longrightarrow> t \<in> set rows \<and> key t = k"
  by (induction rows) (auto split: if_splits)

lemma lookup_in_set:
  "distinct (map key rows) \<Longrightarrow> t \<in> set rows \<Longrightarrow> lookup key rows (key t) = Some t"
  by (induction rows) auto

lemma lookup_map_same_key:
  "(\<And>t. key (f t) = key t) \<Longrightarrow> lookup key (map f rows) k = map_option f (lookup key rows k)"
  by (induction rows) auto

locale upsert_table =
  fixes key :: "'r \<Rightarrow> 'k" and merge :: "'r \<Rightarrow> 'r \<Rightarrow> 'r"
  assumes merge_key: "key (merge new old) = key old"
begin

lemma lookup_upsert_row:
  "lookup key (upsert_row key merge rows r) k =
     (if k = key r then Some (case lookup key rows k of None \<Rightarrow> r | Some t \<Rightarrow> merge r t)
      else lookup key rows k)"
proof (cases "\<exists>t \<in> set rows. key t = key r")
  case True
  then obtain t where "lookup key rows (key r) = Some t"
    using lookup_None_iff [of key rows "key r"] by (metis image_eqI not_None_eq)
  moreover have "lookup key (map (\<lambda>t. if key t = key r then merge r t else t) rows) k =
      map_option (\<lambda>t. if key t = key r then merge r t else t) (lookup key rows k)"
    by (rule lookup_map_same_key) (simp add: merge_key)
  ultimately show ?thesis
    using True lookup_SomeD [of key rows k] by (cases "lookup key rows k") (auto simp: upsert_row_def)
next
  case False
  then have "lookup key rows (key r) = None" by (auto simp: lookup_None_iff)
  with False show ?thesis by (auto simp: upsert_row_def lookup_append split: option.splits)
qed

lemma upsert_row_keys:
  "map key (upsert_row key merge rows r) = (if key r \<in> key ` set rows then map key rows else map key rows @ [key r])"
proof (cases "key r \<in> key ` set rows")
  case True
  then have "\<exists>t \<in> set rows. key t = key r" by (metis imageE)
  with True show ?thesis by (auto simp: upsert_row_def merge_key)
next
  case False
  then have "\<not> (\<exists>t \<in> set rows. key t = key r)" by (metis image_eqI)
  with False show ?thesis by (simp add: upsert_row_def)
qed

lemma distinct_upsert_row: "distinct (map key rows) \<Longrightarrow> distinct (map key (upsert_row key merge rows r))"
  by (simp add: upsert_row_keys)

lemma distinct_upsert_batch: "distinct (map key rows) \<Longrightarrow> distinct (map key (upsert_batch key merge records rows))"
  by (induction records arbitrary: rows) (simp_all add: upsert_batch_def distinct_upsert_row)

text \<open>What a batch with distinct keys leaves behind each key.\<close>

lemma lookup_upsert_batch:
  assumes "distinct (map key records)"
  shows "lookup key (upsert_batch key merge records rows) k =
    (case lookup key records k of
       None \<Rightarrow> lookup key rows k
     | Some r \<Rightarrow> Some (case lookup key rows k of None \<Rightarrow> r | Some t \<Rightarrow> merge r t))"
  using assms
proof (induction records arbitrary: rows)
  case Nil
  then show ?case by (simp add: upsert_batch_def)
next
  case (Cons r records)
  have none: "lookup key records (key r) = None" using Cons.prems by (simp add: lookup_None_iff)
  have "upsert_batch key merge (r # records) rows = upsert_batch key merge records (upsert_row key merge rows r)"
    by (simp add: upsert_batch_def)
  with Cons none show ?case by (auto simp: lookup_upsert_row split: option.splits)
qed

text \<open>Columns that \<open>merge\<close> does not touch survive when every record is already in the table.\<close>

lemma upsert_row_known:
  assumes "key r \<in> key ` set rows"
  shows "upsert_row key merge rows r = map (\<lambda>t. if key t = key r then merge r t else t) rows"
proof -
  have "\<exists>t \<in> set rows. key t = key r" using assms by (metis imageE)
  then show ?thesis by (simp add: upsert_row_def)
qed

lemma upsert_batch_known:
  assumes "\<forall>r \<in> set records. key r \<in> key ` set rows" and "\<And>new old. col (merge new old) = col old"
  shows "map col (upsert_batch key merge records rows) = map col rows"
  using assms(1)
proof (induction records arbitrary: rows)
  case Nil
  then show ?case by (simp add: upsert_batch_def)
next
  case (Cons r records)
  have known: "upsert_row key merge rows r = map (\<lambda>t. if key t = key r then merge r t else t) rows"
    using Cons.prems by (intro upsert_row_known) simp
  have keys: "key ` set (upsert_row key merge rows r) = key ` set rows"
    using upsert_row_keys [of rows r] Cons.prems by (metis list.set_intros(1) list.set_map)
  have "map col (upsert_row key merge rows r) = map col rows"
    unfolding known using assms(2) by simp
  moreover have "map col (upsert_batch key merge records (upsert_row key merge rows r)) =
      map col (upsert_row key merge rows r)"
    by (rule Cons.IH) (use Cons.prems keys in auto)
  ultimately show ?case by (simp add: upsert_batch_def)
qed

text \<open>Writing again what the rows already hold changes nothing.\<close>

lemma upsert_batch_same:
  assumes "\<forall>r \<in> set records. key r \<in> key ` set rows \<and> (\<forall>t \<in> set rows. key t = key r \<longrightarrow> merge r t = t)"
  shows "upsert_batch key merge records rows = rows"
  using assms
proof (induction records)
  case (Cons r records)
  have "upsert_row key merge rows r = rows"
    unfolding upsert_row_known [OF conjunct1 [OF bspec [OF Cons.prems list.set_intros(1)]]]
    using Cons.prems by (intro map_idI) simp
  with Cons show ?case by (simp add: upsert_batch_def)
qed (simp add: upsert_batch_def)

text \<open>Where the rows of the result come from, when all keys are distinct and known.\<close>

lemma upsert_batch_row:
  assumes "distinct (map key rows)" "distinct (map key records)"
    and "\<forall>r \<in> set records. key r \<in> key ` set rows" and "t' \<in> set (upsert_batch key merge records rows)"
  shows "\<exists>t \<in> set rows. key t = key t' \<and>
    t' = (case lookup key records (key t) of None \<Rightarrow> t | Some r \<Rightarrow> merge r t)"
proof -
  have "lookup key (upsert_batch key merge records rows) (key t') = Some t'"
    by (rule lookup_in_set [OF distinct_upsert_batch [OF assms(1)] assms(4)])
  moreover have "key t' \<in> key ` set rows"
  proof -
    have "map key (upsert_batch key merge records rows) = map key rows"
      by (rule upsert_batch_known [OF assms(3) merge_key])
    then show ?thesis using assms(4) by (metis image_eqI image_set)
  qed
  then obtain t where t: "t \<in> set rows" "key t = key t'" by (metis imageE)
  ultimately show ?thesis
    using lookup_upsert_batch [OF assms(2), of rows "key t'"] lookup_in_set [OF assms(1) t(1)] t
    by (intro bexI [of _ t]) (auto split: option.splits)
qed

end

section \<open>Knockout matches\<close>

record knockout =
  ko_tournamentId :: int
  ko_round :: int
  ko_startedEventId :: "int option"
  ko_endedEventId :: "int option"
  ko_matchId :: int
  ko_nextMatchId :: "int option"
  ko_homeEntryId :: "int option"
  ko_homeNetPoints :: "int option"
  ko_homeGoalsScored :: "int option"
  ko_homeGoalsConceded :: "int option"
  ko_homeWins :: "rat option"
  ko_awayEntryId :: "int option"
  ko_awayNetPoints :: "int option"
  ko_awayGoalsScored :: "int option"
  ko_awayGoalsConceded :: "int option"
  ko_awayWins :: "rat option"
  ko_roundWinner :: "int option"

datatype table_error = TOURNAMENT_KNOCKOUT_UPSERT_ERROR

definition knockout_key :: "knockout \<Rightarrow> int \<times> int" where
  "knockout_key k = (ko_tournamentId k, ko_matchId k)"

definition knockout_merge :: "knockout \<Rightarrow> knockout \<Rightarrow> knockout" where
  "knockout_merge new old = old\<lparr>ko_homeEntryId := ko_homeEntryId new,
     ko_homeNetPoints := ko_homeNetPoints new, ko_homeGoalsScored := ko_homeGoalsScored new,
     ko_homeGoalsConceded := ko_homeGoalsConceded new, ko_homeWins := ko_homeWins new,
     ko_awayEntryId := ko_awayEntryId new, ko_awayNetPoints := ko_awayNetPoints new,
     ko_awayGoalsScored := ko_awayGoalsScored new, ko_awayGoalsConceded := ko_awayGoalsConceded new,
     ko_awayWins := ko_awayWins new, ko_roundWinner := ko_roundWinner new\<rparr>"

text \<open>
  \<^verbatim>\<open>home_wins\<close> and \<^verbatim>\<open>away_wins\<close> are integer columns (\<^verbatim>\<open>migrations/0000_platform_baseline.sql\<close>); the
  database refuses a statement that stores a fraction in them, and the repository turns the
  refusal into a \<^verbatim>\<open>DatabaseError\<close>.
\<close>

definition integer_column :: "rat option \<Rightarrow> bool" where
  "integer_column v = (case v of None \<Rightarrow> True | Some q \<Rightarrow> snd (quotient_of q) = 1)"

definition knockouts_findByTournamentAndEndedEvent :: "knockout list \<Rightarrow> int \<Rightarrow> int \<Rightarrow> knockout list" where
  "knockouts_findByTournamentAndEndedEvent rows tournamentId eventId =
     js_sort (\<lambda>a b. ko_matchId a - ko_matchId b)
       (filter (\<lambda>k. ko_tournamentId k = tournamentId \<and> ko_endedEventId k = Some eventId) rows)"

definition knockouts_findByTournamentAndRound :: "knockout list \<Rightarrow> int \<Rightarrow> int \<Rightarrow> knockout list" where
  "knockouts_findByTournamentAndRound rows tournamentId rnd =
     js_sort (\<lambda>a b. ko_matchId a - ko_matchId b)
       (filter (\<lambda>k. ko_tournamentId k = tournamentId \<and> ko_round k = rnd) rows)"

definition knockouts_findByTournamentAndMatchIds :: "knockout list \<Rightarrow> int \<Rightarrow> int list \<Rightarrow> knockout list" where
  "knockouts_findByTournamentAndMatchIds rows tournamentId matchIds =
     filter (\<lambda>k. ko_tournamentId k = tournamentId \<and> ko_matchId k \<in> set matchIds) rows"

definition knockouts_findRoundOne :: "knockout list \<Rightarrow> int \<Rightarrow> knockout list" where
  "knockouts_findRoundOne rows tournamentId = knockouts_findByTournamentAndRound rows tournamentId 1"

definition seedRoundOneBulk :: "knockout list \<Rightarrow> int \<Rightarrow> (int \<times> seed_pair) list \<Rightarrow> knockout list" where
  "seedRoundOneBulk rows tournamentId pairs =
     map (\<lambda>k. case (if ko_tournamentId k = tournamentId then map_of pairs (ko_matchId k) else None) of
                None \<Rightarrow> k
              | Some pair \<Rightarrow> k\<lparr>ko_homeEntryId := homeEntryId pair, ko_awayEntryId := awayEntryId pair\<rparr>) rows"

definition knockouts_deleteByTournament :: "knockout list \<Rightarrow> int \<Rightarrow> knockout list" where
  "knockouts_deleteByTournament rows tournamentId = filter (\<lambda>k. ko_tournamentId k \<noteq> tournamentId) rows"

definition knockouts_upsertBatch :: "knockout list \<Rightarrow> knockout list \<Rightarrow> (table_error, knockout list) result" where
  "knockouts_upsertBatch records rows =
     (if \<exists>r \<in> set records. \<not> integer_column (ko_homeWins r) \<or> \<not> integer_column (ko_awayWins r)
      then Inl TOURNAMENT_KNOCKOUT_UPSERT_ERROR
      else Inr (upsert_batch knockout_key knockout_merge records rows))"

interpretation knockouts: upsert_table knockout_key knockout_merge
  by unfold_locales (simp add: knockout_key_def knockout_merge_def)

section \<open>Knockout results\<close>

record knockout_result =
  res_tournamentId :: int
  res_eventId :: int
  res_matchId :: int
  res_playAgainstId :: int
  res_homeEntryId :: "int option"
  res_homeNetPoints :: "int option"
  res_homeGoalsScored :: "int option"
  res_homeGoalsConceded :: "int option"
  res_awayEntryId :: "int option"
  res_awayNetPoints :: "int option"
  res_awayGoalsScored :: "int option"
  res_awayGoalsConceded :: "int option"
  res_matchWinner :: "int option"

definition result_key :: "knockout_result \<Rightarrow> int \<times> int \<times> int \<times> int" where
  "result_key r = (res_tournamentId r, res_eventId r, res_matchId r, res_playAgainstId r)"

definition result_merge :: "knockout_result \<Rightarrow> knockout_result \<Rightarrow> knockout_result" where
  "result_merge new old = old\<lparr>res_homeEntryId := res_homeEntryId new,
     res_homeNetPoints := res_homeNetPoints new, res_homeGoalsScored := res_homeGoalsScored new,
     res_homeGoalsConceded := res_homeGoalsConceded new,
     res_awayEntryId := res_awayEntryId new, res_awayNetPoints := res_awayNetPoints new,
     res_awayGoalsScored := res_awayGoalsScored new, res_awayGoalsConceded := res_awayGoalsConceded new,
     res_matchWinner := res_matchWinner new\<rparr>"

definition results_findByTournamentAndEvent :: "knockout_result list \<Rightarrow> int \<Rightarrow> int \<Rightarrow> knockout_result list" where
  "results_findByTournamentAndEvent rows tournamentId eventId =
     js_sort (\<lambda>a b. res_matchId a - res_matchId b)
       (filter (\<lambda>r. res_tournamentId r = tournamentId \<and> res_eventId r = eventId) rows)"

definition results_findByTournamentAndMatchIds ::
  "knockout_result list \<Rightarrow> int \<Rightarrow> int list \<Rightarrow> knockout_result list" where
  "results_findByTournamentAndMatchIds rows tournamentId matchIds =
     filter (\<lambda>r. res_tournamentId r = tournamentId \<and> res_matchId r \<in> set matchIds) rows"

definition seedRoundOneResultsBulk ::
  "knockout_result list \<Rightarrow> int \<Rightarrow> ((int \<times> int) \<times> seed_pair) list \<Rightarrow> knockout_result list" where
  "seedRoundOneResultsBulk rows tournamentId assignments =
     map (\<lambda>r. case (if res_tournamentId r = tournamentId
                     then map_of assignments (res_matchId r, res_playAgainstId r) else None) of
                None \<Rightarrow> r
              | Some pair \<Rightarrow> r\<lparr>res_homeEntryId := homeEntryId pair, res_awayEntryId := awayEntryId pair\<rparr>) rows"

definition results_deleteByTournament :: "knockout_result list \<Rightarrow> int \<Rightarrow> knockout_result list" where
  "results_deleteByTournament rows tournamentId = filter (\<lambda>r. res_tournamentId r \<noteq> tournamentId) rows"

definition results_upsertBatch :: "knockout_result list \<Rightarrow> knockout_result list \<Rightarrow> knockout_result list" where
  "results_upsertBatch records rows = upsert_batch result_key result_merge records rows"

interpretation results: upsert_table result_key result_merge
  by unfold_locales (simp add: result_key_def result_merge_def)

section \<open>Group standings\<close>

record tournament_group =
  tg_tournamentId :: int
  tg_groupId :: int
  tg_groupName :: string
  tg_groupIndex :: int
  tg_entryId :: int
  tg_startedEventId :: "int option"
  tg_endedEventId :: "int option"
  tg_groupPoints :: int
  tg_groupRank :: "int option"
  tg_played :: int
  tg_won :: int
  tg_drawn :: int
  tg_lost :: int
  tg_totalPoints :: int
  tg_totalTransfersCost :: int
  tg_totalNetPoints :: int
  tg_qualified :: int
  tg_overallRank :: "int option"

definition group_key :: "tournament_group \<Rightarrow> int \<times> int \<times> int" where
  "group_key g = (tg_tournamentId g, tg_groupId g, tg_entryId g)"

definition group_merge :: "tournament_group \<Rightarrow> tournament_group \<Rightarrow> tournament_group" where
  "group_merge new old = new\<lparr>tg_tournamentId := tg_tournamentId old, tg_groupId := tg_groupId old,
     tg_entryId := tg_entryId old\<rparr>"

text \<open>
  The query reads the entries in chunks of 1000 ids, so rows come back chunk by chunk, in table
  order within each.
\<close>

function id_chunks :: "nat \<Rightarrow> int list \<Rightarrow> int list list" where
  "id_chunks n ids = (if ids = [] \<or> n = 0 then [] else take n ids # id_chunks n (drop n ids))"
  by pat_completeness auto
termination
  by (relation "measure (\<lambda>(_, ids). length ids)") auto

declare id_chunks.simps [simp del]

definition groups_findByTournamentAndEntries :: "tournament_group list \<Rightarrow> int \<Rightarrow> int list \<Rightarrow> tournament_group list" where
  "groups_findByTournamentAndEntries rows tournamentId entryIds =
     concat (map (\<lambda>chunk. filter (\<lambda>g. tg_tournamentId g = tournamentId \<and> tg_entryId g \<in> set chunk) rows)
       (id_chunks 1000 (js_uniq entryIds)))"

definition groups_findByTournamentAndGroup :: "tournament_group list \<Rightarrow> int \<Rightarrow> int \<Rightarrow> tournament_group list" where
  "groups_findByTournamentAndGroup rows tournamentId groupId =
     filter (\<lambda>g. tg_tournamentId g = tournamentId \<and> tg_groupId g = groupId) rows"

definition groups_deleteByTournament :: "tournament_group list \<Rightarrow> int \<Rightarrow> tournament_group list" where
  "groups_deleteByTournament rows tournamentId = filter (\<lambda>g. tg_tournamentId g \<noteq> tournamentId) rows"

definition group_slot_cmp :: "int \<times> int \<Rightarrow> int \<times> int \<Rightarrow> int" where
  "group_slot_cmp a b = (if fst a - fst b \<noteq> 0 then fst a - fst b else snd a - snd b)"

definition findGroupSlots :: "tournament_group list \<Rightarrow> int \<Rightarrow> (int \<times> int) list" where
  "findGroupSlots rows tournamentId =
     js_sort group_slot_cmp
       (map (\<lambda>g. (tg_groupId g, tg_groupIndex g)) (filter (\<lambda>g. tg_tournamentId g = tournamentId) rows))"

definition groups_upsertBatch :: "tournament_group list \<Rightarrow> tournament_group list \<Rightarrow> tournament_group list" where
  "groups_upsertBatch records rows = upsert_batch group_key group_merge records rows"

interpretation groups: upsert_table group_key group_merge
  by unfold_locales (simp add: group_key_def group_merge_def)

section \<open>Entry event results\<close>

text \<open>
  One row per entry and gameweek (\<^verbatim>\<open>src/repositories/entry-event-results.ts\<close>), with the picks of
  the entry as the query joins them. The aggregate is \<^verbatim>\<open>SUM ... GROUP BY entry_id\<close>: an entry without
  rows in the range has no total. Ids are queried in chunks of 1000.
\<close>

record pick =
  pk_element :: int
  pk_position :: int

record entry_event_result =
  er_entryId :: int
  er_eventId :: int
  er_eventPoints :: int
  er_eventTransfersCost :: int
  er_eventNetPoints :: int
  er_eventRank :: "int option"
  er_overallRank :: int
  er_eventChip :: "string option"
  er_eventPicks :: "pick list option"

record entry_totals =
  et_entryId :: int
  et_totalPoints :: int
  et_totalTransfersCost :: int
  et_totalNetPoints :: int

definition findByEventAndEntryIds :: "entry_event_result list \<Rightarrow> int \<Rightarrow> int list \<Rightarrow> entry_event_result list" where
  "findByEventAndEntryIds rows eventId entryIds =
     concat (map (\<lambda>chunk. filter (\<lambda>r. er_eventId r = eventId \<and> er_entryId r \<in> set chunk) rows)
       (id_chunks 1000 (js_uniq entryIds)))"

definition entry_window :: "entry_event_result list \<Rightarrow> int \<Rightarrow> int \<Rightarrow> int \<Rightarrow> entry_event_result list" where
  "entry_window rows entryId startEventId endEventId =
     filter (\<lambda>r. er_entryId r = entryId \<and> startEventId \<le> er_eventId r \<and> er_eventId r \<le> endEventId) rows"

definition entry_totals_of :: "entry_event_result list \<Rightarrow> int \<Rightarrow> entry_totals" where
  "entry_totals_of window entryId =
     \<lparr>et_entryId = entryId, et_totalPoints = sum_list (map er_eventPoints window),
      et_totalTransfersCost = sum_list (map er_eventTransfersCost window),
      et_totalNetPoints = sum_list (map er_eventNetPoints window)\<rparr>"

definition aggregateTotalsByEntry ::
  "entry_event_result list \<Rightarrow> int list \<Rightarrow> int \<Rightarrow> int \<Rightarrow> entry_totals list" where
  "aggregateTotalsByEntry rows entryIds startEventId endEventId =
     map (\<lambda>e. entry_totals_of (entry_window rows e startEventId endEventId) e)
       (filter (\<lambda>e. entry_window rows e startEventId endEventId \<noteq> []) (js_uniq entryIds))"

section \<open>Points-race results\<close>

text \<open>The four cumulative columns of the table are never written and keep their default.\<close>

record points_result =
  pr_tournamentId :: int
  pr_groupId :: int
  pr_eventId :: int
  pr_entryId :: int
  pr_eventGroupRank :: "int option"
  pr_eventPoints :: "int option"
  pr_eventCost :: "int option"
  pr_eventNetPoints :: "int option"
  pr_eventRank :: "int option"

definition points_key :: "points_result \<Rightarrow> int \<times> int \<times> int" where
  "points_key r = (pr_tournamentId r, pr_eventId r, pr_entryId r)"

definition points_merge :: "points_result \<Rightarrow> points_result \<Rightarrow> points_result" where
  "points_merge new old = old\<lparr>pr_eventGroupRank := pr_eventGroupRank new, pr_eventPoints := pr_eventPoints new,
     pr_eventCost := pr_eventCost new, pr_eventNetPoints := pr_eventNetPoints new,
     pr_eventRank := pr_eventRank new\<rparr>"

definition points_findByTournamentAndEvent ::
  "points_result list \<Rightarrow> int \<Rightarrow> int \<Rightarrow> int list \<Rightarrow> points_result list" where
  "points_findByTournamentAndEvent rows tournamentId eventId entryIds =
     concat (map (\<lambda>chunk. filter (\<lambda>r. pr_tournamentId r = tournamentId \<and> pr_eventId r = eventId
         \<and> pr_entryId r \<in> set chunk) rows)
       (id_chunks 1000 (js_uniq entryIds)))"

definition points_deleteByTournament :: "points_result list \<Rightarrow> int \<Rightarrow> points_result list" where
  "points_deleteByTournament rows tournamentId = filter (\<lambda>r. pr_tournamentId r \<noteq> tournamentId) rows"

definition points_upsertBatch :: "points_result list \<Rightarrow> points_result list \<Rightarrow> points_result list" where
  "points_upsertBatch records rows = upsert_batch points_key points_merge records rows"

interpretation points: upsert_table points_key points_merge
  by unfold_locales (simp add: points_key_def points_merge_def)

section \<open>Battle-race results\<close>

record battle_result =
  br_tournamentId :: int
  br_groupId :: int
  br_eventId :: int
  br_homeIndex :: int
  br_homeEntryId :: "int option"
  br_homeNetPoints :: "int option"
  br_homeRank :: "int option"
  br_homeMatchPoints :: "int option"
  br_awayIndex :: int
  br_awayEntryId :: "int option"
  br_awayNetPoints :: "int option"
  br_awayRank :: "int option"
  br_awayMatchPoints :: "int option"
  br_officialMatchId :: "int option"

definition battle_key :: "battle_result \<Rightarrow> int \<times> int \<times> int \<times> int \<times> int" where
  "battle_key r = (br_tournamentId r, br_groupId r, br_eventId r, br_homeIndex r, br_awayIndex r)"

definition battle_merge :: "battle_result \<Rightarrow> battle_result \<Rightarrow> battle_result" where
  "battle_merge new old = old\<lparr>br_homeNetPoints := br_homeNetPoints new, br_homeRank := br_homeRank new,
     br_homeMatchPoints := br_homeMatchPoints new, br_awayNetPoints := br_awayNetPoints new,
     br_awayRank := br_awayRank new, br_awayMatchPoints := br_awayMatchPoints new\<rparr>"

definition battles_findByTournamentAndEvent :: "battle_result list \<Rightarrow> int \<Rightarrow> int \<Rightarrow> battle_result list" where
  "battles_findByTournamentAndEvent rows tournamentId eventId =
     filter (\<lambda>r. br_tournamentId r = tournamentId \<and> br_eventId r = eventId) rows"

definition battles_findByTournamentAndEventRange ::
  "battle_result list \<Rightarrow> int \<Rightarrow> int \<Rightarrow> int \<Rightarrow> battle_result list" where
  "battles_findByTournamentAndEventRange rows tournamentId startEventId endEventId =
     filter (\<lambda>r. br_tournamentId r = tournamentId \<and> startEventId \<le> br_eventId r \<and> br_eventId r \<le> endEventId) rows"

definition findMaxEventIdInRange :: "battle_result list \<Rightarrow> int \<Rightarrow> int \<Rightarrow> int \<Rightarrow> int option" where
  "findMaxEventIdInRange rows tournamentId startEventId endEventId =
     (case map br_eventId (filter (\<lambda>r. br_homeMatchPoints r \<noteq> None \<and> br_awayMatchPoints r \<noteq> None)
             (battles_findByTournamentAndEventRange rows tournamentId startEventId endEventId)) of
        [] \<Rightarrow> None
      | e # es \<Rightarrow> Some (foldl max e es))"

definition battles_deleteByTournament :: "battle_result list \<Rightarrow> int \<Rightarrow> battle_result list" where
  "battles_deleteByTournament rows tournamentId = filter (\<lambda>r. br_tournamentId r \<noteq> tournamentId) rows"

definition battles_upsertBatch :: "battle_result list \<Rightarrow> battle_result list \<Rightarrow> battle_result list" where
  "battles_upsertBatch records rows = upsert_batch battle_key battle_merge records rows"

interpretation battles: upsert_table battle_key battle_merge
  by unfold_locales (simp add: battle_key_def battle_merge_def)

section \<open>Chunked reads\<close>

text \<open>Every group row of the listed entries is found, exactly once.\<close>

lemma set_concat_id_chunks: "0 < n \<Longrightarrow> concat (id_chunks n ids) = ids"
  by (induction n ids rule: id_chunks.induct) (subst id_chunks.simps, auto)

lemma mset_filter_chunks:
  "distinct (concat chunks) \<Longrightarrow>
   mset (concat (map (\<lambda>c. filter (\<lambda>g. P g \<and> f g \<in> set c) rows) chunks)) =
     mset (filter (\<lambda>g. P g \<and> f g \<in> set (concat chunks)) rows)"
proof (induction chunks)
  case (Cons c chunks)
  have disj: "set c \<inter> set (concat chunks) = {}" using Cons.prems by auto
  have "mset (filter (\<lambda>g. P g \<and> f g \<in> set c \<union> set (concat chunks)) xs) =
      mset (filter (\<lambda>g. P g \<and> f g \<in> set c) xs) + mset (filter (\<lambda>g. P g \<and> f g \<in> set (concat chunks)) xs)" for xs
    using disj by (induction xs) auto
  moreover have "mset (concat (map (\<lambda>c. filter (\<lambda>g. P g \<and> f g \<in> set c) rows) chunks)) =
      mset (filter (\<lambda>g. P g \<and> f g \<in> set (concat chunks)) rows)"
    by (rule Cons.IH) (use Cons.prems in auto)
  ultimately show ?case by (simp del: set_concat)
qed simp

lemma mset_groups_find:
  "mset (groups_findByTournamentAndEntries rows tid ids) =
     mset (filter (\<lambda>g. tg_tournamentId g = tid \<and> tg_entryId g \<in> set ids) rows)"
  unfolding groups_findByTournamentAndEntries_def
  by (subst mset_filter_chunks) (simp_all add: set_concat_id_chunks del: set_concat)

lemma mset_results_find:
  "mset (findByEventAndEntryIds rows e ids) =
     mset (filter (\<lambda>r. er_eventId r = e \<and> er_entryId r \<in> set ids) rows)"
  unfolding findByEventAndEntryIds_def
  by (subst mset_filter_chunks) (simp_all add: set_concat_id_chunks del: set_concat)

lemma set_results_find:
  "set (findByEventAndEntryIds rows e ids) = {r \<in> set rows. er_eventId r = e \<and> er_entryId r \<in> set ids}"
  using mset_results_find [of rows e ids] by (metis mset_eq_setD set_filter)

lemma totals_get:
  "js_get (js_map_new (map (\<lambda>r. (et_entryId r, r)) (aggregateTotalsByEntry rows ids a b))) e =
     (if e \<in> set ids \<and> entry_window rows e a b \<noteq> []
      then Some (entry_totals_of (entry_window rows e a b) e) else None)"
proof -
  let ?es = "filter (\<lambda>e. entry_window rows e a b \<noteq> []) (js_uniq ids)"
  have entries: "map (\<lambda>r. (et_entryId r, r)) (aggregateTotalsByEntry rows ids a b) =
      map (\<lambda>e. (e, entry_totals_of (entry_window rows e a b) e)) ?es"
    by (simp add: aggregateTotalsByEntry_def entry_totals_of_def)
  have "distinct (map fst (map (\<lambda>e. (e, entry_totals_of (entry_window rows e a b) e)) ?es))"
    by (simp add: comp_def)
  then show ?thesis unfolding entries
    by (subst js_get_map_new_distinct) (auto simp: map_of_map_restrict restrict_map_def)
qed

end
