(* ===== verification/KnockoutResults.thy ===== *)
theory KnockoutResults
  imports TournamentTables
begin

text \<open>
  Knockout rounds (\<^verbatim>\<open>src/services/tournament-seed.service.ts\<close> and
  \<^verbatim>\<open>src/services/tournament-knockout-results.service.ts\<close>): seeding round one, scoring the legs of an
  event, deciding matches and rounds, and writing the winners into the slots of the next round.

  The state is the pair of knockout tables. What the service reads from other tables is the
  record \<open>knockout_env\<close>, one field per repository query. An operation returns its outcome and the
  state it leaves: seeding is committed before scoring starts, while scoring and advancing are
  one transaction that a thrown error rolls back.
\<close>

section \<open>State\<close>

record live_goals =
  lg_elementId :: int
  lg_goalsScored :: "int option"
  lg_goalsConceded :: "int option"

record knockout_env =
  env_setupConfig :: "tournament_config option"
  env_entrySeeds :: "entry_seed list"
  env_qualifiedEntries :: "qualified_entry list"
  env_entryIds :: "int list"
  env_eventResults :: "entry_event_result list"
  env_finalizedLives :: "live_goals list"

record knockout_db =
  db_knockouts :: "knockout list"
  db_results :: "knockout_result list"

datatype knockout_error =
    Fixtures_not_seeded int int
  | Canonical_picks_missing int int
  | Live_data_incomplete int "int list"
  | Knockout_table_error table_error

record knockout_sync_result =
  updatedResults :: int
  updatedKnockouts :: int
  skipped :: int

record knockout_round_summary =
  rs_matchId :: int
  rs_round :: int
  rs_nextMatchId :: "int option"
  rs_roundWinner :: "int option"
  rs_nextRound :: "int option"
  rs_nextHomeEntryId :: "int option"
  rs_nextAwayEntryId :: "int option"

section \<open>Seeding round one\<close>

definition seed_leg_pair :: "seed_pair \<Rightarrow> nat \<Rightarrow> seed_pair" where
  "seed_leg_pair pair leg =
     (let swap = (leg mod 2 = 1) in
      \<lparr>homeEntryId = (if swap then awayEntryId pair else homeEntryId pair),
       awayEntryId = (if swap then homeEntryId pair else awayEntryId pair)\<rparr>)"

definition seedRoundOne :: "int \<Rightarrow> seed_pair list \<Rightarrow> int \<Rightarrow> knockout_db \<Rightarrow> knockout_db" where
  "seedRoundOne tournamentId seededPairs playAgainstNum db =
     (if seededPairs = [] then db
      else
        (let roundOneMatches = knockouts_findRoundOne (db_knockouts db) tournamentId in
         if roundOneMatches = [] then db
         else
           (let matchUpdates = zip (map ko_matchId roundOneMatches) seededPairs;
                resultUpdates = concat (map (\<lambda>(matchId, pair).
                  map (\<lambda>leg. ((matchId, int leg + 1), seed_leg_pair pair leg)) [0..<nat playAgainstNum])
                  matchUpdates)
            in \<lparr>db_knockouts = seedRoundOneBulk (db_knockouts db) tournamentId matchUpdates,
                db_results = seedRoundOneResultsBulk (db_results db) tournamentId resultUpdates\<rparr>)))"

definition seeded_entry_ids :: "knockout_env \<Rightarrow> tournament_config \<Rightarrow> int \<Rightarrow> int list option" where
  "seeded_entry_ids env t teamNum =
     (if tc_groupMode t = No_group
      then Some (map es_entryId (take (nat teamNum) (sortEntrySeeds (env_entrySeeds env))))
      else if int (length (env_qualifiedEntries env)) < teamNum then None
      else Some (map qe_entryId (take (nat teamNum) (sortQualifiedEntries (env_qualifiedEntries env)))))"

definition ensureKnockoutRoundOneSeeded :: "knockout_env \<Rightarrow> int \<Rightarrow> knockout_db \<Rightarrow> knockout_db" where
  "ensureKnockoutRoundOneSeeded env tournamentId db =
     (case env_setupConfig env of
        None \<Rightarrow> db
      | Some t \<Rightarrow>
          if tc_knockoutMode t = No_knockout \<or> \<not> truthy (tc_knockoutTeamNum t)
             \<or> \<not> truthy (tc_knockoutPlayAgainstNum t) then db
          else
            (let teamNum = the (tc_knockoutTeamNum t);
                 roundOne = knockouts_findRoundOne (db_knockouts db) tournamentId in
             if roundOne = [] then db
             else if \<forall>row \<in> set roundOne. ko_homeEntryId row \<noteq> None \<or> ko_awayEntryId row \<noteq> None then db
             else (case seeded_entry_ids env t teamNum of
                     None \<Rightarrow> db
                   | Some ids \<Rightarrow>
                       if int (length ids) < teamNum then db
                       else seedRoundOne tournamentId (seedBracketEntries ids teamNum)
                              (the (tc_knockoutPlayAgainstNum t)) db)))"

section \<open>Scoring a leg\<close>

definition normalizePicks :: "pick list option \<Rightarrow> pick list" where
  "normalizePicks raw = coalesce raw []"

definition pickElements :: "pick list \<Rightarrow> string option \<Rightarrow> int list" where
  "pickElements picks chip =
     (if chip = Some ''bboost'' then map pk_element picks
      else map pk_element (filter (\<lambda>p. pk_position p \<le> 11) picks))"

type_synonym goals_map = "(int, int option \<times> int option) js_map"

definition loadFinalizedKnockoutLiveMap ::
  "int \<Rightarrow> int list \<Rightarrow> live_goals list \<Rightarrow> (knockout_error, goals_map) result" where
  "loadFinalizedKnockoutLiveMap eventId requiredElementIds eventLives =
     (let liveMap = js_map_new (map (\<lambda>l. (lg_elementId l, (lg_goalsScored l, lg_goalsConceded l))) eventLives);
          missing = filter (\<lambda>e. js_get liveMap e = None) (js_uniq requiredElementIds)
      in if length missing > 0 then Inl (Live_data_incomplete eventId (take 10 missing)) else Inr liveMap)"

definition sumGoals :: "int list \<Rightarrow> goals_map \<Rightarrow> int \<times> int" where
  "sumGoals elementIds liveMap =
     foldl (\<lambda>(scored, conceded) elementId.
        (case js_get liveMap elementId of
           None \<Rightarrow> (scored + 0, conceded + 0)
         | Some (s, c) \<Rightarrow> (scored + coalesce s 0, conceded + coalesce c 0))) (0, 0) elementIds"

definition resolveMatchWinner ::
  "int option \<Rightarrow> int option \<Rightarrow> int \<Rightarrow> int \<Rightarrow> int \<Rightarrow> int \<Rightarrow> int \<Rightarrow> int \<Rightarrow> int option" where
  "resolveMatchWinner home away homeNet awayNet homeScored awayScored homeConceded awayConceded =
     (if \<not> truthy home then away
      else if \<not> truthy away then home
      else if homeNet > awayNet then home
      else if homeNet < awayNet then away
      else if homeScored > awayScored then home
      else if homeScored < awayScored then away
      else if homeConceded < awayConceded then home
      else if homeConceded > awayConceded then away
      else if the home \<le> the away then home else away)"

definition entry_side :: "(int, entry_event_result) js_map \<Rightarrow> int option \<Rightarrow> entry_event_result option" where
  "entry_side m entryId = (if truthy entryId then js_get m (the entryId) else None)"

definition side_goals :: "goals_map \<Rightarrow> entry_event_result option \<Rightarrow> int \<times> int" where
  "side_goals liveMap r =
     sumGoals (pickElements (normalizePicks (Option.bind r er_eventPicks)) (Option.bind r er_eventChip)) liveMap"

definition score_result ::
  "(int, entry_event_result) js_map \<Rightarrow> goals_map \<Rightarrow> knockout_result \<Rightarrow> knockout_result" where
  "score_result eventResultMap liveMap r =
     (let home = res_homeEntryId r; away = res_awayEntryId r;
          homeResult = entry_side eventResultMap home; awayResult = entry_side eventResultMap away;
          homeGoals = side_goals liveMap homeResult; awayGoals = side_goals liveMap awayResult;
          homeNet = coalesce (map_option er_eventNetPoints homeResult) 0;
          awayNet = coalesce (map_option er_eventNetPoints awayResult) 0
      in r\<lparr>res_homeNetPoints := Some homeNet, res_homeGoalsScored := Some (fst homeGoals),
           res_homeGoalsConceded := Some (snd homeGoals),
           res_awayNetPoints := Some awayNet, res_awayGoalsScored := Some (fst awayGoals),
           res_awayGoalsConceded := Some (snd awayGoals),
           res_matchWinner := resolveMatchWinner home away homeNet awayNet (fst homeGoals) (fst awayGoals)
             (snd homeGoals) (snd awayGoals)\<rparr>)"

section \<open>Deciding a round\<close>

definition leg_wins :: "int \<Rightarrow> knockout_result \<Rightarrow> rat" where
  "leg_wins e r =
     (let homeNet = coalesce (res_homeNetPoints r) 0; awayNet = coalesce (res_awayNetPoints r) 0 in
      if res_homeEntryId r = Some e \<and> res_awayEntryId r = None then 1
      else if res_awayEntryId r = Some e \<and> res_homeEntryId r = None then 1
      else if res_homeEntryId r = Some e \<and> homeNet > awayNet then 1
      else if res_awayEntryId r = Some e \<and> awayNet > homeNet then 1
      else if homeNet = awayNet \<and> (res_homeEntryId r = Some e \<or> res_awayEntryId r = Some e) then 1 / 2
      else 0)"

definition calcEntryWinningNum :: "knockout_result list \<Rightarrow> int option \<Rightarrow> rat" where
  "calcEntryWinningNum results entryId =
     (if \<not> truthy entryId then 0
      else foldl (\<lambda>winningNum r. winningNum + leg_wins (the entryId) r) 0 results)"

record side_totals =
  tot_net :: int
  tot_scored :: int
  tot_conceded :: int

text \<open>The accumulation loop for one side, given by the entry that plays it.\<close>

definition add_leg :: "int option \<Rightarrow> side_totals \<Rightarrow> knockout_result \<Rightarrow> side_totals" where
  "add_leg entry acc r =
     (let acc1 = (if res_homeEntryId r = entry
                  then \<lparr>tot_net = tot_net acc + coalesce (res_homeNetPoints r) 0,
                        tot_scored = tot_scored acc + coalesce (res_homeGoalsScored r) 0,
                        tot_conceded = tot_conceded acc + coalesce (res_homeGoalsConceded r) 0\<rparr>
                  else acc)
      in if res_awayEntryId r = entry
         then \<lparr>tot_net = tot_net acc1 + coalesce (res_awayNetPoints r) 0,
               tot_scored = tot_scored acc1 + coalesce (res_awayGoalsScored r) 0,
               tot_conceded = tot_conceded acc1 + coalesce (res_awayGoalsConceded r) 0\<rparr>
         else acc1)"

definition side_total :: "knockout_result list \<Rightarrow> int option \<Rightarrow> side_totals" where
  "side_total results entry = foldl (add_leg entry) \<lparr>tot_net = 0, tot_scored = 0, tot_conceded = 0\<rparr> results"

definition resolveRoundWinner :: "knockout_result list \<Rightarrow> int option \<Rightarrow> int option \<Rightarrow> int option" where
  "resolveRoundWinner matchResults home away =
     (if matchResults = [] then None
      else if length matchResults = 1 then res_matchWinner (hd matchResults)
      else
        (let winners = js_uniq (filter truthy (map res_matchWinner matchResults)) in
         if length winners = 1 then hd winners
         else
           (let h = side_total matchResults home; a = side_total matchResults away in
            resolveMatchWinner home away (tot_net h) (tot_net a) (tot_scored h) (tot_scored a)
              (tot_conceded h) (tot_conceded a))))"

definition close_knockout :: "(int, knockout_result list) js_map \<Rightarrow> knockout \<Rightarrow> knockout" where
  "close_knockout matchResultsByMatch k =
     (let results = coalesce (js_get matchResultsByMatch (ko_matchId k)) [];
          home = ko_homeEntryId k; away = ko_awayEntryId k;
          h = side_total results home; a = side_total results away
      in k\<lparr>ko_homeNetPoints := Some (tot_net h), ko_homeGoalsScored := Some (tot_scored h),
           ko_homeGoalsConceded := Some (tot_conceded h),
           ko_homeWins := Some (calcEntryWinningNum results home),
           ko_awayNetPoints := Some (tot_net a), ko_awayGoalsScored := Some (tot_scored a),
           ko_awayGoalsConceded := Some (tot_conceded a),
           ko_awayWins := Some (calcEntryWinningNum results away),
           ko_roundWinner := resolveRoundWinner results home away\<rparr>)"

section \<open>Advancing the winners\<close>

type_synonym next_round_map = "(int, knockout_round_summary) js_map"

definition add_next_round :: "next_round_map \<Rightarrow> knockout \<Rightarrow> next_round_map" where
  "add_next_round m k =
     (if truthy (ko_nextMatchId k) \<and> truthy (ko_roundWinner k) then
        (let nextId = the (ko_nextMatchId k);
             existing = coalesce (js_get m nextId)
               \<lparr>rs_matchId = ko_matchId k, rs_round = ko_round k, rs_nextMatchId = ko_nextMatchId k,
                rs_roundWinner = None, rs_nextRound = Some (ko_round k + 1),
                rs_nextHomeEntryId = None, rs_nextAwayEntryId = None\<rparr>
         in js_set nextId
              (if ko_matchId k mod 2 = 1 then existing\<lparr>rs_nextHomeEntryId := ko_roundWinner k\<rparr>
               else existing\<lparr>rs_nextAwayEntryId := ko_roundWinner k\<rparr>) m)
      else m)"

definition seed_next_knockout :: "next_round_map \<Rightarrow> knockout \<Rightarrow> knockout" where
  "seed_next_knockout m k =
     (case js_get m (ko_matchId k) of
        None \<Rightarrow> k
      | Some d \<Rightarrow>
          k\<lparr>ko_homeEntryId := (case rs_nextHomeEntryId d of None \<Rightarrow> ko_homeEntryId k | Some e \<Rightarrow> Some e),
            ko_awayEntryId := (case rs_nextAwayEntryId d of None \<Rightarrow> ko_awayEntryId k | Some e \<Rightarrow> Some e)\<rparr>)"

definition seed_next_result :: "next_round_map \<Rightarrow> knockout_result \<Rightarrow> knockout_result" where
  "seed_next_result m r =
     (case js_get m (res_matchId r) of
        None \<Rightarrow> r
      | Some d \<Rightarrow>
          if \<not> truthy (rs_nextHomeEntryId d) \<or> \<not> truthy (rs_nextAwayEntryId d) then r
          else
            (let swap = (res_playAgainstId r mod 2 = 0) in
             r\<lparr>res_homeEntryId := (if swap then rs_nextAwayEntryId d else rs_nextHomeEntryId d),
               res_awayEntryId := (if swap then rs_nextHomeEntryId d else rs_nextAwayEntryId d)\<rparr>))"

definition group_by_match :: "knockout_result list \<Rightarrow> (int, knockout_result list) js_map" where
  "group_by_match results = js_group_by res_matchId results"

text \<open>The transaction: store the scored legs, close the matches that end, seed the next round.\<close>

definition knockout_transaction ::
  "int \<Rightarrow> int \<Rightarrow> knockout_result list \<Rightarrow> knockout_db \<Rightarrow> (knockout_error, knockout_sync_result \<times> knockout_db) result" where
  "knockout_transaction tournamentId eventId scored db =
     (let results1 = results_upsertBatch scored (db_results db);
          matchIds = js_uniq (map res_matchId scored);
          byMatch = group_by_match (results_findByTournamentAndMatchIds results1 tournamentId matchIds);
          ended = knockouts_findByTournamentAndEndedEvent (db_knockouts db) tournamentId eventId;
          closed = map (close_knockout byMatch) ended;
          nextRoundMap = foldl add_next_round [] closed
      in case knockouts_upsertBatch closed (db_knockouts db) of
           Inl e \<Rightarrow> Inl (Knockout_table_error e)
         | Inr knockouts1 \<Rightarrow>
             (let done = \<lparr>updatedResults = int (length scored), updatedKnockouts = int (length closed), skipped = 0\<rparr>;
                  nextRound = (case nextRoundMap of [] \<Rightarrow> None | (_, d) # _ \<Rightarrow> rs_nextRound d)
              in if length nextRoundMap > 0 \<and> truthy nextRound then
                   (let nextKnockouts = knockouts_findByTournamentAndRound knockouts1 tournamentId (the nextRound) in
                    case knockouts_upsertBatch (map (seed_next_knockout nextRoundMap) nextKnockouts) knockouts1 of
                      Inl e \<Rightarrow> Inl (Knockout_table_error e)
                    | Inr knockouts2 \<Rightarrow>
                        (let nextResults = results_findByTournamentAndMatchIds results1 tournamentId (map fst nextRoundMap);
                             results2 = results_upsertBatch (map (seed_next_result nextRoundMap) nextResults) results1
                         in Inr (done, \<lparr>db_knockouts = knockouts2, db_results = results2\<rparr>)))
                 else Inr (done, \<lparr>db_knockouts = knockouts1, db_results = results1\<rparr>)))"

definition required_elements ::
  "(int, entry_event_result) js_map \<Rightarrow> int \<Rightarrow> int \<Rightarrow> (knockout_error, int list) result" where
  "required_elements eventResultMap eventId entryId =
     (let entryResult = js_get eventResultMap entryId;
          picks = normalizePicks (Option.bind entryResult er_eventPicks)
      in if entryResult = None \<or> length picks = 0 then Inl (Canonical_picks_missing entryId eventId)
         else Inr (pickElements picks (Option.bind entryResult er_eventChip)))"

definition score_event ::
  "knockout_env \<Rightarrow> int \<Rightarrow> int \<Rightarrow> knockout_result list \<Rightarrow> (knockout_error, knockout_result list) result" where
  "score_event env tournamentId eventId knockoutResults =
     (let eventResultMap = js_map_new (map (\<lambda>r. (er_entryId r, r)) (env_eventResults env)) in
      if \<exists>r \<in> set knockoutResults. res_homeEntryId r = None \<and> res_awayEntryId r = None
      then Inl (Fixtures_not_seeded tournamentId eventId)
      else
        (let participating = js_uniq (map the (filter (\<lambda>e. e \<noteq> None \<and> the e > 0)
               (concat (map (\<lambda>r. [res_homeEntryId r, res_awayEntryId r]) knockoutResults)))) in
         res_bind (res_map (required_elements eventResultMap eventId) participating) (\<lambda>required.
         res_bind (loadFinalizedKnockoutLiveMap eventId (concat required) (env_finalizedLives env)) (\<lambda>liveMap.
         Inr (map (score_result eventResultMap liveMap) knockoutResults)))))"

definition no_updates :: "int \<Rightarrow> knockout_sync_result" where
  "no_updates n = \<lparr>updatedResults = 0, updatedKnockouts = 0, skipped = n\<rparr>"

definition syncKnockoutForTournament ::
  "knockout_env \<Rightarrow> tournament_config \<Rightarrow> int \<Rightarrow> knockout_db
   \<Rightarrow> (knockout_error, knockout_sync_result) result \<times> knockout_db" where
  "syncKnockoutForTournament env t eventId db =
     (if \<not> truthy (tc_knockoutStartedEventId t) \<or> \<not> truthy (tc_knockoutEndedEventId t)
      then (Inr (no_updates 0), db)
      else
        (let db1 = ensureKnockoutRoundOneSeeded env (tc_id t) db;
             n = int (length (env_entryIds env)) in
         if env_eventResults env = [] then (Inr (no_updates n), db1)
         else
           (let knockoutResults = results_findByTournamentAndEvent (db_results db1) (tc_id t) eventId in
            if knockoutResults = [] then (Inr (no_updates n), db1)
            else
              (case res_bind (score_event env (tc_id t) eventId knockoutResults)
                      (\<lambda>scored. knockout_transaction (tc_id t) eventId scored db1) of
                 Inl e \<Rightarrow> (Inl e, db1)
               | Inr (r, db2) \<Rightarrow> (Inr r, db2)))))"

definition syncTournamentKnockoutResultsForTournamentId ::
  "knockout_env \<Rightarrow> tournament_config option \<Rightarrow> int \<Rightarrow> knockout_db
   \<Rightarrow> (knockout_error, knockout_sync_result) result \<times> knockout_db" where
  "syncTournamentKnockoutResultsForTournamentId env tournament eventId db =
     (case tournament of
        None \<Rightarrow> (Inr (no_updates 0), db)
      | Some t \<Rightarrow>
          if isOfficialH2HTournament (tc_leagueType t) (tc_rosterMode t) (tc_groupMode t)
             \<or> tc_knockoutMode t = No_knockout
             \<or> \<not> truthy (tc_knockoutStartedEventId t) \<or> \<not> truthy (tc_knockoutEndedEventId t)
             \<or> eventId < the (tc_knockoutStartedEventId t) \<or> eventId > the (tc_knockoutEndedEventId t)
          then (Inr (no_updates 0), db)
          else syncKnockoutForTournament env t eventId db)"

section \<open>Match winners\<close>

text \<open>The order of merit: net points, goals scored, fewer goals conceded, lower entry id.\<close>

fun lex_less :: "int list \<Rightarrow> int list \<Rightarrow> bool" where
  "lex_less (x # xs) (y # ys) = (x < y \<or> x = y \<and> lex_less xs ys)"
| "lex_less _ _ = False"

definition valid_slot :: "int option \<Rightarrow> bool" where
  "valid_slot e = (e \<noteq> Some 0)"

lemma valid_slot_truthy: "valid_slot e \<Longrightarrow> truthy e \<longleftrightarrow> e \<noteq> None"
  by (cases e) (auto simp: valid_slot_def)

lemma resolveMatchWinner_member: "resolveMatchWinner h a hn an hs as hc ac \<in> {h, a}"
  by (auto simp: resolveMatchWinner_def)

lemma resolveMatchWinner_swap:
  "valid_slot h \<Longrightarrow> valid_slot a \<Longrightarrow>
     resolveMatchWinner h a hn an hs as hc ac = resolveMatchWinner a h an hn as hs ac hc"
  by (cases h; cases a) (auto simp: resolveMatchWinner_def valid_slot_def)

lemma resolveMatchWinner_lex:
  "h \<noteq> 0 \<Longrightarrow> a \<noteq> 0 \<Longrightarrow>
     resolveMatchWinner (Some h) (Some a) hn an hs as hc ac =
       Some (if lex_less [hn, hs, - hc, - h] [an, as, - ac, - a] then a else h)"
  by (auto simp: resolveMatchWinner_def)

text \<open>
  A match is decided on merit alone. Exchanging home and away does not change the winner; a
  bye goes to the entry that is present; between two entries the winner is the one that is
  greater by net points, then goals scored, then fewer goals conceded, then the lower entry id.
\<close>

lemma match_winner_by_merit:
  assumes "valid_slot h" and "valid_slot a"
  shows "resolveMatchWinner h a hn an hs as hc ac = resolveMatchWinner a h an hn as hs ac hc \<and>
    resolveMatchWinner h a hn an hs as hc ac \<in> {h, a} \<and>
    (resolveMatchWinner h a hn an hs as hc ac = None \<longleftrightarrow> h = None \<and> a = None) \<and>
    (\<forall>x y. h = Some x \<and> a = Some y \<longrightarrow> resolveMatchWinner h a hn an hs as hc ac =
       Some (if lex_less [hn, hs, - hc, - x] [an, as, - ac, - y] then y else x))"
  using assms resolveMatchWinner_swap [OF assms] resolveMatchWinner_member [of h a] resolveMatchWinner_lex
  by (cases h; cases a) (auto simp: resolveMatchWinner_def valid_slot_def)

section \<open>Round winners\<close>

lemma side_total_sum:
  "side_total rs e =
     \<lparr>tot_net = (\<Sum>r \<leftarrow> rs. (if res_homeEntryId r = e then coalesce (res_homeNetPoints r) 0 else 0)
         + (if res_awayEntryId r = e then coalesce (res_awayNetPoints r) 0 else 0)),
      tot_scored = (\<Sum>r \<leftarrow> rs. (if res_homeEntryId r = e then coalesce (res_homeGoalsScored r) 0 else 0)
         + (if res_awayEntryId r = e then coalesce (res_awayGoalsScored r) 0 else 0)),
      tot_conceded = (\<Sum>r \<leftarrow> rs. (if res_homeEntryId r = e then coalesce (res_homeGoalsConceded r) 0 else 0)
         + (if res_awayEntryId r = e then coalesce (res_awayGoalsConceded r) 0 else 0))\<rparr>"
proof -
  have "foldl (add_leg e) acc rs =
     \<lparr>tot_net = tot_net acc + (\<Sum>r \<leftarrow> rs. (if res_homeEntryId r = e then coalesce (res_homeNetPoints r) 0 else 0)
         + (if res_awayEntryId r = e then coalesce (res_awayNetPoints r) 0 else 0)),
      tot_scored = tot_scored acc + (\<Sum>r \<leftarrow> rs. (if res_homeEntryId r = e then coalesce (res_homeGoalsScored r) 0 else 0)
         + (if res_awayEntryId r = e then coalesce (res_awayGoalsScored r) 0 else 0)),
      tot_conceded = tot_conceded acc + (\<Sum>r \<leftarrow> rs. (if res_homeEntryId r = e then coalesce (res_homeGoalsConceded r) 0 else 0)
         + (if res_awayEntryId r = e then coalesce (res_awayGoalsConceded r) 0 else 0))\<rparr>" for acc
    by (induction rs arbitrary: acc) (auto simp: add_leg_def Let_def)
  from this [of "\<lparr>tot_net = 0, tot_scored = 0, tot_conceded = 0\<rparr>"] show ?thesis
    by (simp add: side_total_def)
qed

lemma sum_list_mset_cong: "mset xs = mset ys \<Longrightarrow> sum_list (map f xs) = sum_list (map f ys)"
  for f :: "'a \<Rightarrow> 'b :: comm_monoid_add"
  by (metis mset_map sum_mset_sum_list)

lemma side_total_perm: "mset rs = mset rs' \<Longrightarrow> side_total rs e = side_total rs' e"
  by (simp only: side_total_sum sum_list_mset_cong [of rs rs'])

lemma js_uniq_singleton: "length (js_uniq xs) = 1 \<longleftrightarrow> (\<exists>x. set xs = {x})"
  by (simp add: length_js_uniq_card card_1_singleton_iff)

lemma hd_js_uniq_singleton: "set xs = {x} \<Longrightarrow> hd (js_uniq xs) = x"
  by (metis insert_not_empty list.set_sel(1) set_empty set_js_uniq singletonD)

lemma resolveRoundWinner_perm:
  assumes "mset rs = mset rs'"
  shows "resolveRoundWinner rs h a = resolveRoundWinner rs' h a"
proof -
  have len: "length rs = length rs'" and sets: "set rs = set rs'"
    using assms by (metis size_mset, metis set_mset_mset)
  have "hd rs = hd rs'" if "length rs = 1"
    using that len sets by (cases rs; cases rs') auto
  moreover have w: "set (filter truthy (map res_matchWinner rs)) = set (filter truthy (map res_matchWinner rs'))"
    using sets by simp
  then have "length (js_uniq (filter truthy (map res_matchWinner rs))) =
      length (js_uniq (filter truthy (map res_matchWinner rs')))"
    by (simp only: length_js_uniq_card)
  moreover have "hd (js_uniq (filter truthy (map res_matchWinner rs))) =
      hd (js_uniq (filter truthy (map res_matchWinner rs')))"
    if "length (js_uniq (filter truthy (map res_matchWinner rs))) = 1"
    using that w hd_js_uniq_singleton unfolding js_uniq_singleton by metis
  ultimately show ?thesis
    using len side_total_perm [OF assms] by (auto simp: resolveRoundWinner_def Let_def)
qed

lemma resolveRoundWinner_member:
  assumes "rs \<noteq> []" and "\<forall>r \<in> set rs. res_matchWinner r \<in> {h, a}"
  shows "resolveRoundWinner rs h a \<in> {h, a}"
proof (cases "length (js_uniq (filter truthy (map res_matchWinner rs))) = 1")
  case True
  then obtain x where x: "set (filter truthy (map res_matchWinner rs)) = {x}"
    unfolding js_uniq_singleton by blast
  then have "x \<in> {h, a}" using assms(2) by auto
  moreover have "res_matchWinner (hd rs) \<in> {h, a}" using assms by (cases rs) auto
  ultimately show ?thesis
    using assms(1) True hd_js_uniq_singleton [OF x] by (simp add: resolveRoundWinner_def Let_def)
next
  case False
  moreover have "res_matchWinner (hd rs) \<in> {h, a}" using assms by (cases rs) auto
  ultimately show ?thesis
    using assms(1) resolveMatchWinner_member by (simp add: resolveRoundWinner_def Let_def)
qed

text \<open>
  C7. A match is decided on merit alone. Exchanging home and away does not change the winner; a
  bye goes to the entry that is present; between two entries the winner is the one that is
  greater by net points, then goals scored, then fewer goals conceded, then the lower entry id.
  The winner of a round is one of its two sides and does not depend on the order in which the
  database returns the legs.
\<close>

theorem knockout_winners_by_merit:
  assumes "valid_slot h" and "valid_slot a"
  shows "resolveMatchWinner h a hn an hs as hc ac = resolveMatchWinner a h an hn as hs ac hc \<and>
    resolveMatchWinner h a hn an hs as hc ac \<in> {h, a} \<and>
    (resolveMatchWinner h a hn an hs as hc ac = None \<longleftrightarrow> h = None \<and> a = None) \<and>
    (\<forall>x y. h = Some x \<and> a = Some y \<longrightarrow> resolveMatchWinner h a hn an hs as hc ac =
       Some (if lex_less [hn, hs, - hc, - x] [an, as, - ac, - y] then y else x)) \<and>
    (\<forall>legs legs'. mset legs = mset legs' \<and> legs \<noteq> [] \<and> (\<forall>r \<in> set legs. res_matchWinner r \<in> {h, a}) \<longrightarrow>
       resolveRoundWinner legs h a = resolveRoundWinner legs' h a \<and> resolveRoundWinner legs h a \<in> {h, a})"
proof -
  have "resolveRoundWinner legs h a = resolveRoundWinner legs' h a \<and> resolveRoundWinner legs h a \<in> {h, a}"
    if "mset legs = mset legs'" "legs \<noteq> []" "\<forall>r \<in> set legs. res_matchWinner r \<in> {h, a}" for legs legs'
    using resolveRoundWinner_perm [OF that(1)] resolveRoundWinner_member [OF that(2,3)] by blast
  then have rounds: "\<forall>legs legs'. mset legs = mset legs' \<and> legs \<noteq> [] \<and> (\<forall>r \<in> set legs. res_matchWinner r \<in> {h, a}) \<longrightarrow>
      resolveRoundWinner legs h a = resolveRoundWinner legs' h a \<and> resolveRoundWinner legs h a \<in> {h, a}"
    by blast
  note m = match_winner_by_merit [OF assms, of hn an hs as hc ac]
  note m4 = m [THEN conjunct2, THEN conjunct2, THEN conjunct2]
  show ?thesis
    by (intro conjI m [THEN conjunct1] m [THEN conjunct2, THEN conjunct1]
        m [THEN conjunct2, THEN conjunct2, THEN conjunct1] m4 rounds)
qed

definition example_leg :: "int \<Rightarrow> int option \<Rightarrow> int option \<Rightarrow> int \<Rightarrow> int \<Rightarrow> int option \<Rightarrow> knockout_result" where
  "example_leg leg h a hn an w = \<lparr>res_tournamentId = 1, res_eventId = 10 + leg, res_matchId = 1,
     res_playAgainstId = leg, res_homeEntryId = h, res_homeNetPoints = Some hn,
     res_homeGoalsScored = Some 0, res_homeGoalsConceded = Some 0, res_awayEntryId = a,
     res_awayNetPoints = Some an, res_awayGoalsScored = Some 0, res_awayGoalsConceded = Some 0,
     res_matchWinner = w\<rparr>"

theorem knockout_winners_by_merit_witness:
  "resolveMatchWinner (Some 9) (Some 4) 50 50 3 3 1 1 = Some 4 \<and>
   resolveRoundWinner [example_leg 2 (Some 9) (Some 4) 60 30 (Some 9), example_leg 1 (Some 4) (Some 9) 50 40 (Some 4)]
     (Some 9) (Some 4) \<in> {Some 9, Some 4}"
proof -
  have "valid_slot (Some 9)" "valid_slot (Some 4)" by (simp_all add: valid_slot_def)
  note t = knockout_winners_by_merit [OF this, of 50 50 3 3 1 1]
  let ?legs = "[example_leg 2 (Some 9) (Some 4) 60 30 (Some 9), example_leg 1 (Some 4) (Some 9) 50 40 (Some 4)]"
  have "resolveMatchWinner (Some 9) (Some 4) 50 50 3 3 1 1 =
      Some (if lex_less [50, 3, - 1, - 9] [50, 3, - 1, - 4] then 4 else 9)" using t by blast
  then have "resolveMatchWinner (Some 9) (Some 4) 50 50 3 3 1 1 = Some 4" by simp
  moreover have "mset ?legs = mset ?legs \<and> ?legs \<noteq> [] \<and> (\<forall>r \<in> set ?legs. res_matchWinner r \<in> {Some 9, Some 4})"
    by (simp add: example_leg_def)
  then have "resolveRoundWinner ?legs (Some 9) (Some 4) \<in> {Some 9, Some 4}" using t by blast
  ultimately show ?thesis ..
qed

section \<open>The shape of the bracket\<close>

text \<open>The columns that fix a match's place in the bracket, and never change once written.\<close>

definition knockout_shape :: "knockout \<Rightarrow> int \<times> int \<times> int option \<times> int option \<times> int \<times> int option" where
  "knockout_shape k = (ko_tournamentId k, ko_round k, ko_startedEventId k, ko_endedEventId k, ko_matchId k,
     ko_nextMatchId k)"

lemma knockout_shape_merge [simp]: "knockout_shape (knockout_merge new old) = knockout_shape old"
  by (simp add: knockout_shape_def knockout_merge_def)

lemma knockout_shape_key: "knockout_shape k = knockout_shape k' \<Longrightarrow> knockout_key k = knockout_key k'"
  by (simp add: knockout_shape_def knockout_key_def)

lemma knockout_shape_close [simp]: "knockout_shape (close_knockout m k) = knockout_shape k"
  by (simp add: close_knockout_def knockout_shape_def Let_def)

lemma knockout_shape_seed_next [simp]: "knockout_shape (seed_next_knockout m k) = knockout_shape k"
  by (simp add: seed_next_knockout_def knockout_shape_def split: option.splits)

lemma knockout_key_close [simp]: "knockout_key (close_knockout m k) = knockout_key k"
  by (rule knockout_shape_key, simp)

lemma knockout_key_seed_next [simp]: "knockout_key (seed_next_knockout m k) = knockout_key k"
  by (rule knockout_shape_key, simp)

lemma upsert_known_shape:
  assumes "knockouts_upsertBatch records rows = Inr rows'"
    and "\<forall>r \<in> set records. \<exists>t \<in> set rows. knockout_key r = knockout_key t"
  shows "map knockout_shape rows' = map knockout_shape rows"
  using assms knockouts.upsert_batch_known [of records rows knockout_shape]
  by (auto simp: knockouts_upsertBatch_def split: if_splits)

lemma seedRoundOneBulk_shape: "map knockout_shape (seedRoundOneBulk rows tid pairs) = map knockout_shape rows"
  by (auto simp: seedRoundOneBulk_def knockout_shape_def split: option.splits)

lemma ensure_seeded_shape:
  "map knockout_shape (db_knockouts (ensureKnockoutRoundOneSeeded env tid db)) = map knockout_shape (db_knockouts db)"
  by (auto simp: ensureKnockoutRoundOneSeeded_def seedRoundOne_def seedRoundOneBulk_shape Let_def split: option.splits)

lemma transaction_shape:
  assumes "knockout_transaction tid e scored db = Inr (r, db')"
  shows "map knockout_shape (db_knockouts db') = map knockout_shape (db_knockouts db)"
proof -
  define closed where "closed = map (close_knockout (group_by_match (results_findByTournamentAndMatchIds
    (results_upsertBatch scored (db_results db)) tid (js_uniq (map res_matchId scored)))))
    (knockouts_findByTournamentAndEndedEvent (db_knockouts db) tid e)"
  have known: "\<forall>r \<in> set closed. \<exists>t \<in> set (db_knockouts db). knockout_key r = knockout_key t"
    by (auto simp: closed_def knockouts_findByTournamentAndEndedEvent_def)
  have next_known: "\<forall>r \<in> set (map (seed_next_knockout m) (knockouts_findByTournamentAndRound rows tid rnd)).
      \<exists>t \<in> set rows. knockout_key r = knockout_key t" for m rows rnd
    by (auto simp: knockouts_findByTournamentAndRound_def)
  show ?thesis
    using assms upsert_known_shape [OF _ known] upsert_known_shape [OF _ next_known]
    unfolding knockout_transaction_def Let_def closed_def [symmetric]
    by (auto split: sum.splits if_splits)
qed

text \<open>
  C8. Whatever its outcome, a knockout sync never changes the shape of the bracket: the same
  matches, rounds, gameweek windows and successor links are there afterwards, in the same order.
\<close>

theorem syncKnockoutForTournament_shape:
  "map knockout_shape (db_knockouts (snd (syncKnockoutForTournament env t e db))) =
     map knockout_shape (db_knockouts db)"
  using transaction_shape ensure_seeded_shape
  by (auto simp: syncKnockoutForTournament_def Let_def res_bind_Inr_iff split: sum.splits)

section \<open>Advancing to the next round\<close>

text \<open>
  A well-formed bracket: match ids are unique within a tournament, matches that end together are
  of one round, a match has at most one odd and one even predecessor, and successors exist one
  round later.
\<close>

definition bracket_table :: "int \<Rightarrow> knockout list \<Rightarrow> bool" where
  "bracket_table tid rows \<longleftrightarrow> distinct (map knockout_key rows) \<and>
     (\<forall>k \<in> set rows. ko_tournamentId k = tid \<longrightarrow>
        1 \<le> ko_round k \<and>
        (\<forall>k' \<in> set rows. ko_tournamentId k' = tid \<longrightarrow>
           (ko_endedEventId k = ko_endedEventId k' \<longrightarrow> ko_round k = ko_round k') \<and>
           (ko_nextMatchId k \<noteq> None \<and> ko_nextMatchId k = ko_nextMatchId k' \<and>
              ko_matchId k mod 2 = ko_matchId k' mod 2 \<longrightarrow> ko_matchId k = ko_matchId k')) \<and>
        (\<forall>n. ko_nextMatchId k = Some n \<longrightarrow> n \<noteq> 0 \<and>
           (\<exists>k' \<in> set rows. ko_tournamentId k' = tid \<and> ko_matchId k' = n \<and> ko_round k' = ko_round k + 1)))"

definition advances :: "knockout \<Rightarrow> bool" where
  "advances k = (truthy (ko_nextMatchId k) \<and> truthy (ko_roundWinner k))"

definition has_slot :: "knockout_round_summary \<Rightarrow> knockout \<Rightarrow> bool" where
  "has_slot d k = (if ko_matchId k mod 2 = 1 then rs_nextHomeEntryId d = ko_roundWinner k
     else rs_nextAwayEntryId d = ko_roundWinner k)"

lemma add_next_round_get:
  "js_get (add_next_round m x) n =
     (if advances x \<and> the (ko_nextMatchId x) = n then
        (let existing = coalesce (js_get m n)
           \<lparr>rs_matchId = ko_matchId x, rs_round = ko_round x, rs_nextMatchId = ko_nextMatchId x,
            rs_roundWinner = None, rs_nextRound = Some (ko_round x + 1),
            rs_nextHomeEntryId = None, rs_nextAwayEntryId = None\<rparr>
         in Some (if ko_matchId x mod 2 = 1 then existing\<lparr>rs_nextHomeEntryId := ko_roundWinner x\<rparr>
                  else existing\<lparr>rs_nextAwayEntryId := ko_roundWinner x\<rparr>))
      else js_get m n)"
  by (auto simp: add_next_round_def advances_def Let_def)

lemma next_round_slot:
  assumes "k \<in> set ks" "advances k" "ko_nextMatchId k = Some n"
    and "\<forall>x \<in> set ks. \<forall>y \<in> set ks. ko_nextMatchId x = Some n \<and> ko_nextMatchId y = Some n \<and>
      ko_matchId x mod 2 = ko_matchId y mod 2 \<longrightarrow> x = y"
  shows "\<exists>d. js_get (foldl add_next_round [] ks) n = Some d \<and> has_slot d k"
  using assms
proof (induction ks rule: rev_induct)
  case (snoc x ks)
  show ?case
  proof (cases "k = x")
    case True
    with snoc.prems(2,3) show ?thesis
      by (auto simp: add_next_round_get Let_def has_slot_def)
  next
    case False
    with snoc.prems have "k \<in> set ks" by simp
    with snoc obtain d where d: "js_get (foldl add_next_round [] ks) n = Some d" "has_slot d k" by auto
    have "ko_matchId x mod 2 \<noteq> ko_matchId k mod 2" if "ko_nextMatchId x = Some n"
      using snoc.prems(1,3,4) False that by auto
    moreover have "z mod 2 = 0 \<or> z mod 2 = 1" for z :: int by presburger
    moreover have "ko_nextMatchId x = Some n" if "advances x" "the (ko_nextMatchId x) = n"
      using that by (cases "ko_nextMatchId x") (auto simp: advances_def)
    ultimately show ?thesis
      using d by (auto simp: add_next_round_get Let_def has_slot_def split: if_splits)
  qed
qed simp

lemma next_round_entries:
  assumes "\<forall>x \<in> set ks. ko_round x = r" and "js_get (foldl add_next_round [] ks) n = Some d"
  shows "rs_nextRound d = Some (r + 1)"
  using assms
proof (induction ks arbitrary: d rule: rev_induct)
  case (snoc x ks)
  then show ?case
    by (cases "js_get (foldl add_next_round [] ks) n")
      (auto simp: add_next_round_get Let_def split: if_splits)
qed simp

lemma next_round_keys_distinct: "distinct (map fst (foldl add_next_round [] ks))"
  by (induction ks rule: rev_induct)
    (auto simp: add_next_round_def Let_def AList.distinct_update)

lemma next_round_head:
  assumes "\<forall>x \<in> set ks. ko_round x = r" and "foldl add_next_round [] ks = (n, d) # rest"
  shows "rs_nextRound d = Some (r + 1)"
  using next_round_entries [OF assms(1), of n d] assms(2) by simp

lemma lookup_same_shape:
  assumes "map knockout_shape xs = map knockout_shape ys" "lookup knockout_key xs kk = Some a"
  shows "\<exists>b. lookup knockout_key ys kk = Some b \<and> knockout_shape b = knockout_shape a"
  using assms
proof (induction xs arbitrary: ys)
  case (Cons x xs)
  then obtain y ys' where ys: "ys = y # ys'" "knockout_shape x = knockout_shape y"
      "map knockout_shape xs = map knockout_shape ys'" by (cases ys) auto
  with Cons knockout_shape_key [OF ys(2)] show ?case by (auto split: if_splits)
qed simp

lemma distinct_keys_same_shape:
  assumes "map knockout_shape xs = map knockout_shape ys" "distinct (map knockout_key ys)"
  shows "distinct (map knockout_key xs)"
proof -
  let ?key = "\<lambda>(t, r, s, e, m, n). (t, m)"
  have "map knockout_key zs = map ?key (map knockout_shape zs)" for zs
    by (simp add: knockout_key_def knockout_shape_def comp_def)
  with assms show ?thesis by metis
qed

lemma lookup_records:
  assumes "distinct (map knockout_key rows)" "\<And>x. knockout_key (f x) = knockout_key x" "k \<in> set rows" "P k"
  shows "lookup knockout_key (map f (js_sort c (filter P rows))) (knockout_key k) = Some (f k)"
proof -
  have "distinct (map knockout_key (js_sort c (filter P rows)))"
    using assms(1) using mset_distinct_map [OF mset_js_sort] distinct_map_filter by blast
  then have "lookup knockout_key (js_sort c (filter P rows)) (knockout_key k) = Some k"
    by (rule lookup_in_set) (use assms in simp)
  then show ?thesis by (subst lookup_map_same_key) (simp_all add: assms(2))
qed

lemma distinct_records:
  assumes "distinct (map knockout_key rows)" "\<And>x. knockout_key (f x) = knockout_key x"
  shows "distinct (map knockout_key (map f (js_sort c (filter P rows))))"
proof -
  have "map knockout_key (map f xs) = map knockout_key xs" for xs using assms(2) by simp
  moreover have "distinct (map knockout_key (js_sort c (filter P rows)))"
    using assms(1) using mset_distinct_map [OF mset_js_sort] distinct_map_filter by blast
  ultimately show ?thesis by (simp only:)
qed

lemma upsert_known_lookup:
  assumes "knockouts_upsertBatch (map f (js_sort c (filter P rows))) rows = Inr rows'"
    and "distinct (map knockout_key rows)" "\<And>x. knockout_key (f x) = knockout_key x"
    and "k \<in> set rows"
  shows "lookup knockout_key rows' (knockout_key k) = Some (if P k then knockout_merge (f k) k else k)"
proof -
  have k: "lookup knockout_key rows (knockout_key k) = Some k" by (rule lookup_in_set [OF assms(2,4)])
  have inj: "x = k" if "x \<in> set rows" "knockout_key x = knockout_key k" for x
    using lookup_in_set [OF assms(2) that(1)] k that(2) by (metis option.inject)
  have none: "lookup knockout_key (map f (js_sort c (filter P rows))) (knockout_key k) = None" if "\<not> P k"
  proof -
    have "knockout_key k \<notin> knockout_key ` f ` set (filter P rows)"
    proof
      assume "knockout_key k \<in> knockout_key ` f ` set (filter P rows)"
      then obtain x where "x \<in> set rows" "P x" "knockout_key k = knockout_key (f x)" by auto
      with inj [of x] that assms(3) show False by metis
    qed
    then show ?thesis by (simp add: lookup_None_iff)
  qed
  have "rows' = upsert_batch knockout_key knockout_merge (map f (js_sort c (filter P rows))) rows"
    using assms(1) by (auto simp: knockouts_upsertBatch_def split: if_splits)
  then show ?thesis
    using knockouts.lookup_upsert_batch [OF distinct_records [OF assms(2,3)], of c P rows "knockout_key k"]
      lookup_records [OF assms(2,3,4), of P c] none k
    by auto
qed

text \<open>The steps of a successful transaction, with the intermediate knockout table.\<close>

definition closing :: "int \<Rightarrow> knockout_result list \<Rightarrow> knockout_db \<Rightarrow> knockout \<Rightarrow> knockout" where
  "closing tid scored db = close_knockout (group_by_match (results_findByTournamentAndMatchIds
     (results_upsertBatch scored (db_results db)) tid (js_uniq (map res_matchId scored))))"

definition ending :: "int \<Rightarrow> int \<Rightarrow> knockout \<Rightarrow> bool" where
  "ending tid e k = (ko_tournamentId k = tid \<and> ko_endedEventId k = Some e)"

definition in_round :: "int \<Rightarrow> int \<Rightarrow> knockout \<Rightarrow> bool" where
  "in_round tid rnd k = (ko_tournamentId k = tid \<and> ko_round k = rnd)"

definition by_match :: "knockout \<Rightarrow> knockout \<Rightarrow> int" where
  "by_match a b = ko_matchId a - ko_matchId b"

definition closed_matches :: "int \<Rightarrow> int \<Rightarrow> knockout_result list \<Rightarrow> knockout_db \<Rightarrow> knockout list" where
  "closed_matches tid e scored db =
     map (closing tid scored db) (js_sort by_match (filter (ending tid e) (db_knockouts db)))"

lemma transaction_steps:
  assumes "knockout_transaction tid e scored db = Inr (res, db')"
  defines "m \<equiv> foldl add_next_round [] (closed_matches tid e scored db)"
  obtains K1 where "knockouts_upsertBatch (closed_matches tid e scored db) (db_knockouts db) = Inr K1"
    and "m = [] \<Longrightarrow> db_knockouts db' = K1"
    and "\<And>n d rest rnd. m = (n, d) # rest \<Longrightarrow> rs_nextRound d = Some rnd \<Longrightarrow> rnd \<noteq> 0 \<Longrightarrow>
      knockouts_upsertBatch (map (seed_next_knockout m) (js_sort by_match (filter (in_round tid rnd) K1))) K1 =
        Inr (db_knockouts db')"
proof -
  have folds: "knockouts_findByTournamentAndEndedEvent rows tid e = js_sort by_match (filter (ending tid e) rows)"
      "knockouts_findByTournamentAndRound rows tid rnd = js_sort by_match (filter (in_round tid rnd) rows)" for rows rnd
    by (simp_all add: knockouts_findByTournamentAndEndedEvent_def knockouts_findByTournamentAndRound_def
        by_match_def [abs_def] ending_def [abs_def] in_round_def [abs_def])
  note tx = assms(1) [unfolded knockout_transaction_def Let_def folds closing_def [symmetric]
      closed_matches_def [symmetric] m_def [symmetric]]
  show thesis
  proof (rule that [of "projr (knockouts_upsertBatch (closed_matches tid e scored db) (db_knockouts db))"])
    show "knockouts_upsertBatch (closed_matches tid e scored db) (db_knockouts db) =
        Inr (projr (knockouts_upsertBatch (closed_matches tid e scored db) (db_knockouts db)))"
      using tx by (auto split: sum.splits)
  qed (use tx in \<open>auto split: sum.splits\<close>)
qed

lemma key_closing [simp]: "knockout_key (closing tid scored db k) = knockout_key k"
  and shape_closing [simp]: "knockout_shape (closing tid scored db k) = knockout_shape k"
  by (simp_all add: closing_def)

lemma shape_fields:
  assumes "knockout_shape a = knockout_shape b"
  shows "ko_tournamentId a = ko_tournamentId b" "ko_round a = ko_round b" "ko_endedEventId a = ko_endedEventId b"
    "ko_matchId a = ko_matchId b" "ko_nextMatchId a = ko_nextMatchId b"
  using assms by (simp_all add: knockout_shape_def)

lemma closed_round:
  assumes "bracket_table tid (db_knockouts db)" "k \<in> set (db_knockouts db)" "ending tid e k"
  shows "\<forall>x \<in> set (closed_matches tid e scored db). ko_round x = ko_round k"
proof
  fix x assume "x \<in> set (closed_matches tid e scored db)"
  then obtain y where y: "y \<in> set (db_knockouts db)" "ending tid e y" "x = closing tid scored db y"
    by (auto simp: closed_matches_def)
  then have "ko_round y = ko_round k" using assms unfolding bracket_table_def ending_def by metis
  with y(3) shape_fields(2) [OF shape_closing] show "ko_round x = ko_round k" by metis
qed

lemma closed_feeders:
  assumes "bracket_table tid (db_knockouts db)"
  shows "\<forall>x \<in> set (closed_matches tid e scored db). \<forall>y \<in> set (closed_matches tid e scored db).
    ko_nextMatchId x = Some n \<and> ko_nextMatchId y = Some n \<and> ko_matchId x mod 2 = ko_matchId y mod 2 \<longrightarrow> x = y"
proof (intro ballI impI)
  fix x y assume xy: "x \<in> set (closed_matches tid e scored db)" "y \<in> set (closed_matches tid e scored db)"
    and n: "ko_nextMatchId x = Some n \<and> ko_nextMatchId y = Some n \<and> ko_matchId x mod 2 = ko_matchId y mod 2"
  obtain a b where ab: "a \<in> set (db_knockouts db)" "ending tid e a" "x = closing tid scored db a"
      "b \<in> set (db_knockouts db)" "ending tid e b" "y = closing tid scored db b"
    using xy by (auto simp: closed_matches_def)
  have "ko_nextMatchId a = Some n" "ko_nextMatchId b = Some n" "ko_matchId a mod 2 = ko_matchId b mod 2"
    using n ab(3,6) shape_fields [OF shape_closing] by metis+
  then have "ko_matchId a = ko_matchId b"
    using assms ab unfolding bracket_table_def ending_def by (metis option.distinct(1))
  then have "knockout_key a = knockout_key b" using ab by (simp add: knockout_key_def ending_def)
  then have "a = b" using assms ab(1,4) unfolding bracket_table_def by (metis lookup_in_set option.inject)
  with ab show "x = y" by simp
qed

lemma transaction_advances:
  assumes table: "bracket_table tid (db_knockouts db)"
    and tx: "knockout_transaction tid e scored db = Inr (res, db')"
    and k': "k' \<in> set (db_knockouts db')" "ending tid e k'"
    and n: "ko_nextMatchId k' = Some n" and w: "ko_roundWinner k' = Some w" "w \<noteq> 0"
  shows "\<exists>t \<in> set (db_knockouts db'). ko_tournamentId t = tid \<and> ko_matchId t = n \<and>
    (if ko_matchId k' mod 2 = 1 then ko_homeEntryId t = Some w else ko_awayEntryId t = Some w)"
proof -
  let ?K = "db_knockouts db" and ?f = "closing tid scored db" and ?closed = "closed_matches tid e scored db"
  define m where "m = foldl add_next_round [] ?closed"
  obtain K1 where K1: "knockouts_upsertBatch ?closed ?K = Inr K1" "m = [] \<Longrightarrow> db_knockouts db' = K1"
    and K2: "\<And>n d rest rnd. m = (n, d) # rest \<Longrightarrow> rs_nextRound d = Some rnd \<Longrightarrow> rnd \<noteq> 0 \<Longrightarrow>
      knockouts_upsertBatch (map (seed_next_knockout m) (js_sort by_match (filter (in_round tid rnd) K1))) K1 =
        Inr (db_knockouts db')"
    using transaction_steps [OF tx] unfolding m_def by metis
  have dist: "distinct (map knockout_key ?K)" using table by (simp add: bracket_table_def)
  have shape': "map knockout_shape (db_knockouts db') = map knockout_shape ?K" by (rule transaction_shape [OF tx])
  have shape1: "map knockout_shape K1 = map knockout_shape ?K"
    by (rule upsert_known_shape [OF K1(1)]) (auto simp: closed_matches_def)
  have look': "lookup knockout_key (db_knockouts db') (knockout_key k') = Some k'"
    using distinct_keys_same_shape [OF shape' dist] k'(1) by (rule lookup_in_set)
  obtain k where k: "k \<in> set ?K" "knockout_key k = knockout_key k'" "knockout_shape k = knockout_shape k'"
    using lookup_same_shape [OF shape' look'] lookup_SomeD by metis
  note kf = shape_fields [OF k(3)]
  have end_k: "ending tid e k" using kf k'(2) by (simp add: ending_def)
  have look1: "lookup knockout_key K1 (knockout_key k) = Some (knockout_merge (?f k) k)"
    using upsert_known_lookup [OF K1(1) [unfolded closed_matches_def] dist key_closing k(1)] end_k by simp
  define k1 where "k1 = knockout_merge (?f k) k"
  have k1: "k1 \<in> set K1" "knockout_key k1 = knockout_key k" using lookup_SomeD [OF look1] by (simp_all add: k1_def)
  have round1: "ko_round k1 = ko_round k" and winner1: "ko_roundWinner k1 = ko_roundWinner (?f k)"
    by (simp_all add: k1_def knockout_merge_def)
  have dist1: "distinct (map knockout_key K1)" by (rule distinct_keys_same_shape [OF shape1 dist])
  have rounds: "\<forall>x \<in> set ?closed. ko_round x = ko_round k" by (rule closed_round [OF table k(1) end_k])
  obtain t0 where t0: "t0 \<in> set ?K" "ko_tournamentId t0 = tid" "ko_matchId t0 = n" "ko_round t0 = ko_round k + 1"
    and pos: "1 \<le> ko_round k" and n0: "n \<noteq> 0"
    using table k(1) end_k n kf(5) unfolding bracket_table_def ending_def by metis
  show ?thesis
  proof (cases m)
    case Nil
    then have "k' = k1" using K1(2) look' look1 k(2) unfolding k1_def by (metis option.inject)
    then have "advances (?f k)" using w n n0 kf(5) shape_fields(5) [OF shape_closing] winner1
      by (simp add: advances_def)
    moreover have "?f k \<in> set ?closed" using k(1) end_k by (simp add: closed_matches_def)
    moreover have "ko_nextMatchId (?f k) = Some n" using n kf(5) shape_fields(5) [OF shape_closing] by metis
    ultimately show ?thesis
      using next_round_slot [OF _ _ _ closed_feeders [OF table]] Nil unfolding m_def by fastforce
  next
    case (Cons a rest)
    then obtain n' d where m: "m = (n', d) # rest" by (cases a) auto
    have rnd: "rs_nextRound d = Some (ko_round k + 1)"
      using next_round_head [OF rounds] m unfolding m_def by blast
    have up: "knockouts_upsertBatch (map (seed_next_knockout m)
        (js_sort by_match (filter (in_round tid (ko_round k + 1)) K1))) K1 = Inr (db_knockouts db')"
      using K2 [OF m rnd] pos by simp
    note look2 = upsert_known_lookup [OF up dist1 knockout_key_seed_next]
    have "\<not> in_round tid (ko_round k + 1) k1" by (simp add: in_round_def round1)
    with look2 [OF k1(1)] have "lookup knockout_key (db_knockouts db') (knockout_key k1) = Some k1"
      by (simp only: if_False)
    with look' k1(2) k(2) have "k' = k1" by (metis option.inject)
    then have "advances (?f k)" and w1: "ko_roundWinner (?f k) = Some w"
      using w n n0 kf(5) shape_fields(5) [OF shape_closing] winner1 by (simp_all add: advances_def)
    moreover have "?f k \<in> set ?closed" using k(1) end_k by (simp add: closed_matches_def)
    moreover have "ko_nextMatchId (?f k) = Some n" using n kf(5) shape_fields(5) [OF shape_closing] by metis
    ultimately obtain s where s: "js_get m n = Some s" "has_slot s (?f k)"
      using next_round_slot [OF _ _ _ closed_feeders [OF table]] unfolding m_def by blast
    obtain t1 where t1: "t1 \<in> set K1" "knockout_key t1 = knockout_key t0" "knockout_shape t1 = knockout_shape t0"
      using lookup_same_shape [OF shape1 [symmetric] lookup_in_set [OF dist t0(1)]] lookup_SomeD by metis
    note tf = shape_fields [OF t1(3)]
    define t where "t = knockout_merge (seed_next_knockout m t1) t1"
    have "lookup knockout_key (db_knockouts db') (knockout_key t1) = Some t"
      using look2 [OF t1(1)] tf t0 by (simp add: in_round_def t_def)
    then have "t \<in> set (db_knockouts db')" using lookup_SomeD by metis
    moreover have "ko_tournamentId t = tid" "ko_matchId t = n"
      using tf t0 by (simp_all add: t_def knockout_merge_def)
    moreover have "if ko_matchId k' mod 2 = 1 then ko_homeEntryId t = Some w else ko_awayEntryId t = Some w"
      using s w1 tf(4) t0(3) kf(4) shape_fields(4) [OF shape_closing]
      by (simp add: t_def knockout_merge_def seed_next_knockout_def has_slot_def split: if_splits)
    ultimately show ?thesis by blast
  qed
qed

lemma bracket_table_shape:
  assumes "map knockout_shape xs = map knockout_shape ys" "bracket_table tid xs"
  shows "bracket_table tid ys"
proof -
  have dist: "distinct (map knockout_key ys)"
    using assms by (intro distinct_keys_same_shape [of ys xs]) (simp_all add: bracket_table_def)
  have sets: "knockout_shape ` set xs = knockout_shape ` set ys" using assms(1) by (metis set_map)
  have to_x: "\<exists>x \<in> set xs. knockout_shape x = knockout_shape y" if "y \<in> set ys" for y
    using sets that by (metis imageE image_eqI)
  have to_y: "\<exists>y \<in> set ys. knockout_shape y = knockout_shape x" if "x \<in> set xs" for x
    using sets that by (metis imageE image_eqI)
  show ?thesis
    unfolding bracket_table_def
  proof (intro conjI dist ballI impI allI)
    fix k k' assume k: "k \<in> set ys" "ko_tournamentId k = tid"
    obtain a where a: "a \<in> set xs" "knockout_shape a = knockout_shape k" using to_x [OF k(1)] by blast
    note af = shape_fields [OF a(2)]
    show "1 \<le> ko_round k" using assms(2) a(1) af k(2) unfolding bracket_table_def by metis
    {
      assume k': "k' \<in> set ys" "ko_tournamentId k' = tid"
      obtain b where b: "b \<in> set xs" "knockout_shape b = knockout_shape k'" using to_x [OF k'(1)] by blast
      note bf = shape_fields [OF b(2)]
      show "ko_round k = ko_round k'" if "ko_endedEventId k = ko_endedEventId k'"
        using assms(2) a(1) b(1) af bf k(2) k'(2) that unfolding bracket_table_def by metis
      show "ko_matchId k = ko_matchId k'"
        if "ko_nextMatchId k \<noteq> None \<and> ko_nextMatchId k = ko_nextMatchId k' \<and> ko_matchId k mod 2 = ko_matchId k' mod 2"
        using assms(2) a(1) b(1) af bf k(2) k'(2) that unfolding bracket_table_def by metis
    }
    fix n assume n: "ko_nextMatchId k = Some n"
    then obtain c where c: "c \<in> set xs" "ko_tournamentId c = tid" "ko_matchId c = n" "ko_round c = ko_round k + 1"
      and n0: "n \<noteq> 0"
      using assms(2) a(1) af k(2) unfolding bracket_table_def by metis
    show "n \<noteq> 0" by (rule n0)
    obtain d where d: "d \<in> set ys" "knockout_shape d = knockout_shape c" using to_y [OF c(1)] by blast
    show "\<exists>k' \<in> set ys. ko_tournamentId k' = tid \<and> ko_matchId k' = n \<and> ko_round k' = ko_round k + 1"
      using d c shape_fields [OF d(2)] by (intro bexI [of _ d]) simp_all
  qed
qed

text \<open>
  C9. Winners advance: after a sync that scored an event, every match that ends with that event
  and has a round winner finds that winner in the slot of its successor that the bracket
  reserves for it - home for an odd match id, away for an even one.
\<close>

theorem syncKnockoutForTournament_advances:
  assumes "bracket_table (tc_id t) (db_knockouts db)"
    and "syncKnockoutForTournament env t e db = (Inr r, db')" "updatedResults r \<noteq> 0"
    and "k \<in> set (db_knockouts db')" "ko_tournamentId k = tc_id t" "ko_endedEventId k = Some e"
    and "ko_nextMatchId k = Some n" "ko_roundWinner k = Some w" "w \<noteq> 0"
  shows "\<exists>m \<in> set (db_knockouts db'). ko_tournamentId m = tc_id t \<and> ko_matchId m = n \<and>
    (if ko_matchId k mod 2 = 1 then ko_homeEntryId m = Some w else ko_awayEntryId m = Some w)"
proof -
  let ?db1 = "ensureKnockoutRoundOneSeeded env (tc_id t) db"
  obtain scored where tx: "knockout_transaction (tc_id t) e scored ?db1 = Inr (r, db')"
    using assms(2,3) by (auto simp: syncKnockoutForTournament_def Let_def no_updates_def res_bind_Inr_iff
        split: if_splits sum.splits prod.splits)
  have table: "bracket_table (tc_id t) (db_knockouts ?db1)"
    by (rule bracket_table_shape [OF ensure_seeded_shape [symmetric] assms(1)])
  show ?thesis
    by (rule transaction_advances [OF table tx assms(4) _ assms(7,8,9)]) (simp add: ending_def assms(5,6))
qed

section \<open>Level legs\<close>

lemma half_not_integer: "\<not> integer_column (Some (1 / 2))"
  by code_simp

lemma group_by_match_get:
  "coalesce (js_get (group_by_match rs) m) [] = filter (\<lambda>r. res_matchId r = m) rs"
  by (simp add: group_by_match_def js_group_by_coalesce)

lemma transaction_fraction_fails:
  assumes "k \<in> set (db_knockouts db)" "ending tid e k"
    and "\<not> integer_column (Some (calcEntryWinningNum
      (filter (\<lambda>r. res_matchId r = ko_matchId k) (results_findByTournamentAndMatchIds
        (results_upsertBatch scored (db_results db)) tid (js_uniq (map res_matchId scored))))
      (ko_homeEntryId k)))"
  shows "knockout_transaction tid e scored db = Inl (Knockout_table_error TOURNAMENT_KNOCKOUT_UPSERT_ERROR)"
proof -
  let ?m = "group_by_match (results_findByTournamentAndMatchIds
      (results_upsertBatch scored (db_results db)) tid (js_uniq (map res_matchId scored)))"
  have "\<not> integer_column (ko_homeWins (close_knockout ?m k))"
    using assms(3) by (simp add: close_knockout_def Let_def group_by_match_get)
  moreover have "close_knockout ?m k \<in> set (map (close_knockout ?m)
      (knockouts_findByTournamentAndEndedEvent (db_knockouts db) tid e))"
    using assms(1,2) by (simp add: knockouts_findByTournamentAndEndedEvent_def ending_def)
  ultimately have "knockouts_upsertBatch (map (close_knockout ?m)
      (knockouts_findByTournamentAndEndedEvent (db_knockouts db) tid e)) (db_knockouts db) =
      Inl TOURNAMENT_KNOCKOUT_UPSERT_ERROR"
    unfolding knockouts_upsertBatch_def by metis
  then show ?thesis by (simp only: knockout_transaction_def Let_def sum.case)
qed

text \<open>
  C10. A level leg blocks a single-leg round. \<open>calcEntryWinningNum\<close> counts a leg that is level on net
  points as half a win, and the wins columns hold integers: when such a match ends, the
  transaction of the whole event fails, whatever the tie-break on goals says about the winner.
\<close>

theorem knockout_level_leg_fails:
  assumes "k \<in> set (db_knockouts db)" "ko_tournamentId k = tid" "ko_endedEventId k = Some e"
    and "ko_homeEntryId k = Some h" "h \<noteq> 0" "ko_awayEntryId k = Some a"
    and "filter (\<lambda>r. res_matchId r = ko_matchId k) (results_findByTournamentAndMatchIds
        (results_upsertBatch scored (db_results db)) tid (js_uniq (map res_matchId scored))) = [leg]"
    and "res_homeEntryId leg = Some h" "res_awayEntryId leg = Some a"
    and "res_homeNetPoints leg = res_awayNetPoints leg"
  shows "knockout_transaction tid e scored db = Inl (Knockout_table_error TOURNAMENT_KNOCKOUT_UPSERT_ERROR)"
proof (rule transaction_fraction_fails [OF assms(1)])
  show "ending tid e k" using assms(2,3) by (simp add: ending_def)
  have "calcEntryWinningNum [leg] (Some h) = 1 / 2"
    using assms by (simp add: calcEntryWinningNum_def leg_wins_def)
  with half_not_integer assms(4,7) show "\<not> integer_column (Some (calcEntryWinningNum
      (filter (\<lambda>r. res_matchId r = ko_matchId k) (results_findByTournamentAndMatchIds
        (results_upsertBatch scored (db_results db)) tid (js_uniq (map res_matchId scored))))
      (ko_homeEntryId k)))" by metis
qed

definition example_final :: knockout where
  "example_final = \<lparr>ko_tournamentId = 1, ko_round = 1, ko_startedEventId = Some 11, ko_endedEventId = Some 11,
     ko_matchId = 1, ko_nextMatchId = None, ko_homeEntryId = Some 7, ko_homeNetPoints = None,
     ko_homeGoalsScored = None, ko_homeGoalsConceded = None, ko_homeWins = None, ko_awayEntryId = Some 8,
     ko_awayNetPoints = None, ko_awayGoalsScored = None, ko_awayGoalsConceded = None, ko_awayWins = None,
     ko_roundWinner = None\<rparr>"

theorem knockout_level_leg_fails_witness:
  "knockout_transaction 1 11 [example_leg 1 (Some 7) (Some 8) 50 50 (Some 7)]
     \<lparr>db_knockouts = [example_final], db_results = [example_leg 1 (Some 7) (Some 8) 0 0 None]\<rparr>
   = Inl (Knockout_table_error TOURNAMENT_KNOCKOUT_UPSERT_ERROR)"
proof (rule knockout_level_leg_fails [of example_final])
  show "filter (\<lambda>r. res_matchId r = ko_matchId example_final) (results_findByTournamentAndMatchIds
        (results_upsertBatch [example_leg 1 (Some 7) (Some 8) 50 50 (Some 7)]
          (db_results \<lparr>db_knockouts = [example_final], db_results = [example_leg 1 (Some 7) (Some 8) 0 0 None]\<rparr>)) 1
        (js_uniq (map res_matchId [example_leg 1 (Some 7) (Some 8) 50 50 (Some 7)]))) =
      [example_leg 1 (Some 7) (Some 8) 50 50 (Some 7)]"
    by code_simp
qed (simp_all add: example_final_def example_leg_def)

definition example_semi :: "int \<Rightarrow> int \<Rightarrow> int \<Rightarrow> knockout" where
  "example_semi i h a = example_final\<lparr>ko_matchId := i, ko_nextMatchId := Some 3, ko_homeEntryId := Some h,
     ko_awayEntryId := Some a\<rparr>"

definition example_next_final :: knockout where
  "example_next_final = example_final\<lparr>ko_matchId := 3, ko_round := 2, ko_startedEventId := Some 12,
     ko_endedEventId := Some 12, ko_homeEntryId := None, ko_awayEntryId := None\<rparr>"

definition example_semi_leg :: "int \<Rightarrow> int \<Rightarrow> int option \<Rightarrow> knockout_result" where
  "example_semi_leg hn an w = (example_leg 1 (Some 5) (Some 6) hn an w)\<lparr>res_matchId := 2\<rparr>"

definition example_knockout_db :: knockout_db where
  "example_knockout_db = \<lparr>db_knockouts = [example_semi 2 5 6, example_next_final],
     db_results = [example_semi_leg 0 0 None]\<rparr>"

definition example_result :: "int \<Rightarrow> int \<Rightarrow> entry_event_result" where
  "example_result i p = \<lparr>er_entryId = i, er_eventId = 11, er_eventPoints = p, er_eventTransfersCost = 0, er_eventNetPoints = p,
     er_eventRank = None, er_overallRank = 0, er_eventChip = None,
     er_eventPicks = Some [\<lparr>pk_element = 100, pk_position = 1\<rparr>]\<rparr>"

definition example_knockout_env :: knockout_env where
  "example_knockout_env = \<lparr>env_setupConfig = None, env_entrySeeds = [], env_qualifiedEntries = [],
     env_entryIds = [5, 6], env_eventResults = [example_result 5 40, example_result 6 45],
     env_finalizedLives = [\<lparr>lg_elementId = 100, lg_goalsScored = Some 0, lg_goalsConceded = Some 0\<rparr>]\<rparr>"

definition example_knockout_config :: tournament_config where
  "example_knockout_config = example_config\<lparr>tc_knockoutTeamNum := Some 4, tc_knockoutEventNum := Some 2,
     tc_knockoutStartedEventId := Some 11, tc_knockoutEndedEventId := Some 12\<rparr>"

lemma example_knockout_run:
  "syncKnockoutForTournament example_knockout_env example_knockout_config 11 example_knockout_db =
     (Inr \<lparr>updatedResults = 1, updatedKnockouts = 1, skipped = 0\<rparr>,
      \<lparr>db_knockouts = [(example_semi 2 5 6)\<lparr>ko_homeNetPoints := Some 40, ko_homeGoalsScored := Some 0,
           ko_homeGoalsConceded := Some 0, ko_homeWins := Some 0, ko_awayNetPoints := Some 45,
           ko_awayGoalsScored := Some 0, ko_awayGoalsConceded := Some 0, ko_awayWins := Some 1,
           ko_roundWinner := Some 6\<rparr>,
         example_next_final\<lparr>ko_awayEntryId := Some 6\<rparr>],
       db_results = [example_semi_leg 40 45 (Some 6)]\<rparr>)"
  by code_simp

theorem syncKnockoutForTournament_advances_witness:
  "\<exists>m \<in> set (db_knockouts (snd (syncKnockoutForTournament example_knockout_env example_knockout_config 11
      example_knockout_db))). ko_matchId m = 3 \<and> ko_awayEntryId m = Some 6"
proof -
  have "bracket_table (tc_id example_knockout_config) (db_knockouts example_knockout_db)"
    by (simp add: bracket_table_def example_knockout_db_def example_semi_def example_next_final_def
        example_final_def knockout_key_def example_knockout_config_def example_config_def)
  note step = syncKnockoutForTournament_advances [OF this example_knockout_run]
  show ?thesis
    using step [of "(example_semi 2 5 6)\<lparr>ko_homeNetPoints := Some 40, ko_homeGoalsScored := Some 0,
           ko_homeGoalsConceded := Some 0, ko_homeWins := Some 0, ko_awayNetPoints := Some 45,
           ko_awayGoalsScored := Some 0, ko_awayGoalsConceded := Some 0, ko_awayWins := Some 1,
           ko_roundWinner := Some 6\<rparr>" 3 6]
    unfolding example_knockout_run
    by (auto simp: example_semi_def example_final_def example_knockout_config_def example_config_def)
qed

end
