(* ===== verification/TournamentStructure.thy ===== *)
theory TournamentStructure
  imports KnockoutResults
begin

text \<open>
  Building a tournament's rows (\<^verbatim>\<open>src/services/tournament-structure.service.ts\<close>): the group draw and
  the bracket are written in one transaction that first removes whatever the tournament had.
  The theorems connect planning, building and playing: an accepted plan yields a bracket table
  in the sense the knockout sync relies on.
\<close>

section \<open>Model\<close>

record tournament_db =
  td_groups :: "tournament_group list"
  td_knockout :: knockout_db
  td_points :: "points_result list"
  td_battles :: "battle_result list"

text \<open>\<^verbatim>\<open>Number(null)\<close> is 0, so a missing group window is stored as gameweek 0.\<close>

definition groupInsert :: "group_row \<Rightarrow> tournament_group" where
  "groupInsert r =
     \<lparr>tg_tournamentId = gr_tournament_id r, tg_groupId = gr_group_id r, tg_groupName = gr_group_name r,
      tg_groupIndex = gr_group_index r, tg_entryId = gr_entry_id r,
      tg_startedEventId = Some (coalesce (gr_started_event_id r) 0),
      tg_endedEventId = Some (coalesce (gr_ended_event_id r) 0),
      tg_groupPoints = gr_group_points r, tg_groupRank = gr_group_rank r, tg_played = gr_played r,
      tg_won = gr_won r, tg_drawn = gr_drawn r, tg_lost = gr_lost r, tg_totalPoints = gr_total_points r,
      tg_totalTransfersCost = gr_total_transfers_cost r, tg_totalNetPoints = gr_total_net_points r,
      tg_qualified = gr_qualified r, tg_overallRank = gr_overall_rank r\<rparr>"

definition knockoutInsert :: "knockout_match_row \<Rightarrow> knockout" where
  "knockoutInsert m =
     \<lparr>ko_tournamentId = km_tournament_id m, ko_round = km_round m,
      ko_startedEventId = Some (km_started_event_id m), ko_endedEventId = Some (km_ended_event_id m),
      ko_matchId = km_match_id m, ko_nextMatchId = km_next_match_id m,
      ko_homeEntryId = km_home_entry_id m, ko_homeNetPoints = None, ko_homeGoalsScored = None,
      ko_homeGoalsConceded = None, ko_homeWins = None,
      ko_awayEntryId = km_away_entry_id m, ko_awayNetPoints = None, ko_awayGoalsScored = None,
      ko_awayGoalsConceded = None, ko_awayWins = None, ko_roundWinner = None\<rparr>"

definition resultInsert :: "knockout_result_row \<Rightarrow> knockout_result" where
  "resultInsert r =
     \<lparr>res_tournamentId = kr_tournament_id r, res_eventId = kr_event_id r, res_matchId = kr_match_id r,
      res_playAgainstId = kr_play_against_id r, res_homeEntryId = kr_home_entry_id r,
      res_homeNetPoints = None, res_homeGoalsScored = None, res_homeGoalsConceded = None,
      res_awayEntryId = kr_away_entry_id r, res_awayNetPoints = None, res_awayGoalsScored = None,
      res_awayGoalsConceded = None, res_matchWinner = None\<rparr>"

text \<open>\<open>None\<close>: the rows cannot be built (see \<open>buildKnockoutRows\<close>) and nothing is written.\<close>

definition rebuildTournamentStructure ::
  "tournament_config \<Rightarrow> entry_seed list \<Rightarrow> tournament_db \<Rightarrow> tournament_db option" where
  "rebuildTournamentStructure t entrySeeds db =
     (let entryIds = map es_entryId (sortEntrySeeds entrySeeds);
          shouldSeedRoundOneImmediately = (tc_knockoutMode t \<noteq> No_knockout \<and> tc_groupMode t = No_group);
          seededRoundOne = (if shouldSeedRoundOneImmediately \<and> truthy (tc_knockoutTeamNum t)
                            then Some (seedBracketEntries entryIds (the (tc_knockoutTeamNum t))) else None);
          groupRows = (if tc_groupMode t = No_group then []
                       else map groupInsert (buildGroupRows t entrySeeds));
          knockoutRows = (if tc_knockoutMode t = No_knockout then Some ([], [])
                          else buildKnockoutRows t seededRoundOne)
      in case knockoutRows of
           None \<Rightarrow> None
         | Some (matches, results) \<Rightarrow>
             (let knockoutMatches = map knockoutInsert matches;
                  publishedKnockoutResults =
                    (if isOfficialH2HTournament (tc_leagueType t) (tc_rosterMode t) (tc_groupMode t) then []
                     else map resultInsert results);
                  results0 = results_deleteByTournament (db_results (td_knockout db)) (tc_id t);
                  knockouts0 = knockouts_deleteByTournament (db_knockouts (td_knockout db)) (tc_id t);
                  points0 = points_deleteByTournament (td_points db) (tc_id t);
                  battles0 = battles_deleteByTournament (td_battles db) (tc_id t);
                  groups0 = groups_deleteByTournament (td_groups db) (tc_id t)
              in case knockouts_upsertBatch knockoutMatches knockouts0 of
                   Inl _ \<Rightarrow> None
                 | Inr knockouts1 \<Rightarrow>
                     Some \<lparr>td_groups = groups_upsertBatch groupRows groups0,
                           td_knockout = \<lparr>db_knockouts = knockouts1,
                             db_results = results_upsertBatch publishedKnockoutResults results0\<rparr>,
                           td_points = points0, td_battles = battles0\<rparr>))"

section \<open>Inserting rows whose keys are new\<close>

lemma upsert_batch_fresh:
  assumes "distinct (map key records)" "key ` set records \<inter> key ` set rows = {}"
  shows "upsert_batch key merge records rows = rows @ records"
  using assms
proof (induction records arbitrary: rows)
  case (Cons r records)
  have "\<not> (\<exists>t \<in> set rows. key t = key r)" 
    using Cons.prems(2) by (metis IntI emptyE imageI list.set_intros(1))
  then have "upsert_row key merge rows r = rows @ [r]" by (simp add: upsert_row_def)
  moreover have "upsert_batch key merge records (rows @ [r]) = (rows @ [r]) @ records"
    by (rule Cons.IH) (use Cons.prems in auto)
  ultimately show ?case by (simp add: upsert_batch_def)
qed (simp add: upsert_batch_def)

lemma match_row_tournament [simp]: "km_tournament_id (match_row t s st e p k r i) = tc_id t"
  by (simp add: match_row_def Let_def)

lemma bracket_matches_tournament:
  "m \<in> set (bracket_matches t seeded k P S) \<Longrightarrow> km_tournament_id m = tc_id t"
  by (auto simp: bracket_matches_def)

section \<open>A tree of rows is a bracket table\<close>

lemma tree_round_start:
  assumes "knockout_tree B R P S matches" "1 \<le> P" "a \<in> set matches" "b \<in> set matches"
    and "km_ended_event_id a = km_ended_event_id b"
  shows "km_round a = km_round b"
proof -
  have "km_ended_event_id x = S + (km_round x - 1) * P + P - 1" if "x \<in> set matches" for x
    using assms(1) that unfolding knockout_tree_def by auto
  with assms(3-5) have "(km_round a - 1) * P = (km_round b - 1) * P" by simp
  with assms(2) show ?thesis by auto
qed

lemma tree_table:
  assumes tree: "knockout_tree B R P S matches" and P: "1 \<le> P" and B: "2 \<le> B"
    and tid: "\<forall>m \<in> set matches. km_tournament_id m = tid"
    and other: "\<forall>k \<in> set rows. ko_tournamentId k \<noteq> tid" and dist: "distinct (map knockout_key rows)"
  shows "bracket_table tid (rows @ map knockoutInsert matches)"
proof -
  have ids: "map km_match_id matches = [1..B - 1]" using tree by (simp add: knockout_tree_def)
  have "map knockout_key (map knockoutInsert matches) = map (\<lambda>i. (tid, i)) [1..B - 1]"
    unfolding ids [symmetric] using tid by (simp add: knockout_key_def knockoutInsert_def)
  then have dist': "distinct (map knockout_key (rows @ map knockoutInsert matches))"
    using dist other by (auto simp: distinct_map inj_on_def knockout_key_def knockoutInsert_def tid)
  have own: "\<exists>m \<in> set matches. k = knockoutInsert m"
    if "k \<in> set (rows @ map knockoutInsert matches)" "ko_tournamentId k = tid" for k
    using that other by auto
  show ?thesis
    unfolding bracket_table_def
  proof (intro conjI dist' ballI impI allI)
    fix k k' assume "k \<in> set (rows @ map knockoutInsert matches)" "ko_tournamentId k = tid"
    then obtain m where m: "m \<in> set matches" "k = knockoutInsert m" using own by blast
    note tm = tree [unfolded knockout_tree_def, THEN conjunct2, rule_format, OF m(1)]
    show "1 \<le> ko_round k" using tm by (simp add: m(2) knockoutInsert_def)
    {
      assume "k' \<in> set (rows @ map knockoutInsert matches)" "ko_tournamentId k' = tid"
      then obtain m' where m': "m' \<in> set matches" "k' = knockoutInsert m'" using own by blast
      note tm' = tree [unfolded knockout_tree_def, THEN conjunct2, rule_format, OF m'(1)]
      show "ko_round k = ko_round k'" if "ko_endedEventId k = ko_endedEventId k'"
        using tree_round_start [OF tree P m(1) m'(1)] that by (simp add: m(2) m'(2) knockoutInsert_def)
      show "ko_matchId k = ko_matchId k'"
        if same: "ko_nextMatchId k \<noteq> None \<and> ko_nextMatchId k = ko_nextMatchId k' \<and> ko_matchId k mod 2 = ko_matchId k' mod 2"
      proof -
        have "(km_match_id m + 1) div 2 = (km_match_id m' + 1) div 2" "km_match_id m mod 2 = km_match_id m' mod 2"
          using same tm tm' by (auto simp: m(2) m'(2) knockoutInsert_def split: if_splits)
        then show ?thesis by (simp add: m(2) m'(2) knockoutInsert_def) presburger
      qed
    }
    fix n assume n: "ko_nextMatchId k = Some n"
    then obtain m' where m': "m' \<in> set matches" "km_match_id m' = n" "km_round m' = km_round m + 1"
      using tm by (auto simp: m(2) knockoutInsert_def)
    have "km_match_id m' \<in> set [1..B - 1]" using m'(1) unfolding ids [symmetric] by simp
    then show "n \<noteq> 0" using m'(2) by auto
    have mem: "knockoutInsert m' \<in> set (rows @ map knockoutInsert matches)" using m'(1) by simp
    show "\<exists>k' \<in> set (rows @ map knockoutInsert matches). ko_tournamentId k' = tid \<and> ko_matchId k' = n \<and>
        ko_round k' = ko_round k + 1"
      by (rule bexI [OF _ mem]) (use m' tid in \<open>simp add: m(2) knockoutInsert_def\<close>)
  qed
qed



end
