(* ===== verification/GroupRaces.thy ===== *)
theory GroupRaces
  imports KnockoutResults
begin

text \<open>
  Group phases (\<^verbatim>\<open>src/services/tournament-points-race-results.service.ts\<close> and
  \<^verbatim>\<open>src/services/tournament-battle-race-results.service.ts\<close>): after a gameweek, recompute every
  group's standings - totals over the group window in a points race, match points of the
  head-to-head fixtures in a battle race - then rank each group and mark who qualifies.

  State and reads are the tables of \<open>TournamentTables\<close>. Both services end by writing two tables
  without a transaction; as the writes themselves do not depend on each other in the points race,
  and the battle race reads its results back after writing them, the model threads the tables in
  the order of the calls.
\<close>

section \<open>Ranking a group\<close>

definition groupRankKey :: "int \<Rightarrow> int option \<Rightarrow> string" where
  "groupRankKey points overallRank =
     show_int points @ ''-'' @ show_int (coalesce overallRank MAX_SAFE_INTEGER)"

definition race_cmp :: "int \<times> int option \<Rightarrow> int \<times> int option \<Rightarrow> int" where
  "race_cmp a b =
     (if fst a \<noteq> fst b then fst b - fst a
      else coalesce (snd a) MAX_SAFE_INTEGER - coalesce (snd b) MAX_SAFE_INTEGER)"

definition rankGroups :: "(int \<times> int option) list \<Rightarrow> (string, int) js_map" where
  "rankGroups entries =
     js_map_new (map (\<lambda>(index, e). (groupRankKey (fst e) (snd e), int index + 1))
       (enumerate 0 (js_sort race_cmp entries)))"

section \<open>Points race\<close>

record race_env =
  re_entryIds :: "int list"
  re_results :: "entry_event_result list"

record race_counts =
  rc_updatedGroups :: int
  rc_updatedResults :: int
  rc_skipped :: int

definition race_counts_of :: "int \<Rightarrow> int \<Rightarrow> int \<Rightarrow> race_counts" where
  "race_counts_of g r s = \<lparr>rc_updatedGroups = g, rc_updatedResults = r, rc_skipped = s\<rparr>"

definition result_map :: "entry_event_result list \<Rightarrow> (int, entry_event_result) js_map" where
  "result_map rs = js_map_new (map (\<lambda>r. (er_entryId r, r)) rs)"

definition totals_map :: "entry_totals list \<Rightarrow> (int, entry_totals) js_map" where
  "totals_map ts = js_map_new (map (\<lambda>r. (et_entryId r, r)) ts)"

definition no_totals :: "int \<Rightarrow> entry_totals" where
  "no_totals e = \<lparr>et_entryId = e, et_totalPoints = 0, et_totalTransfersCost = 0, et_totalNetPoints = 0\<rparr>"

text \<open>The update of one group row, before its rank is known.\<close>

definition points_group_update ::
  "int \<Rightarrow> (int, entry_totals) js_map \<Rightarrow> tournament_group \<Rightarrow> entry_event_result \<Rightarrow> tournament_group" where
  "points_group_update play totalsMap g r =
     (let totals = coalesce (js_get totalsMap (tg_entryId g)) (no_totals (tg_entryId g)) in
      g\<lparr>tg_groupPoints := et_totalNetPoints totals, tg_played := play,
        tg_totalPoints := et_totalPoints totals, tg_totalTransfersCost := et_totalTransfersCost totals,
        tg_totalNetPoints := et_totalNetPoints totals, tg_overallRank := Some (er_overallRank r)\<rparr>)"

definition apply_rank :: "int option \<Rightarrow> int \<Rightarrow> tournament_group \<Rightarrow> tournament_group" where
  "apply_rank groupQualifyNum rank g =
     (let g1 = g\<lparr>tg_groupRank := Some rank\<rparr> in
      if truthy groupQualifyNum
      then g1\<lparr>tg_qualified := (if rank > 0 \<and> rank \<le> the groupQualifyNum then 1 else 0)\<rparr>
      else g1)"

definition points_result_update ::
  "int \<Rightarrow> (int, points_result) js_map \<Rightarrow> int option \<Rightarrow> tournament_group \<Rightarrow> entry_event_result \<Rightarrow> points_result" where
  "points_result_update eventId existing rank g r =
     \<lparr>pr_tournamentId = tg_tournamentId g, pr_groupId = tg_groupId g, pr_eventId = eventId,
      pr_entryId = tg_entryId g,
      pr_eventGroupRank = Some (case rank of Some k \<Rightarrow> k
        | None \<Rightarrow> coalesce (Option.bind (js_get existing (tg_entryId g)) pr_eventGroupRank) 0),
      pr_eventPoints = Some (er_eventPoints r), pr_eventCost = Some (er_eventTransfersCost r),
      pr_eventNetPoints = Some (er_eventPoints r - er_eventTransfersCost r), pr_eventRank = er_eventRank r\<rparr>"

text \<open>
  The loop over the group rows, the rank lookup per group and the two passes that apply it. A
  row without an event result is skipped.
\<close>

definition points_race_rows ::
  "tournament_config \<Rightarrow> int \<Rightarrow> (int, entry_event_result) js_map \<Rightarrow> (int, entry_totals) js_map
   \<Rightarrow> tournament_group list \<Rightarrow> (tournament_group \<times> entry_event_result) list" where
  "points_race_rows t eventId eventResultMap totalsMap tournamentGroups =
     List.map_filter (\<lambda>g. map_option
       (\<lambda>r. (points_group_update (eventId - the (tc_groupStartedEventId t) + 1) totalsMap g r, r))
       (js_get eventResultMap (tg_entryId g))) tournamentGroups"

definition rank_lookup ::
  "(tournament_group \<times> entry_event_result) list \<Rightarrow> (int, (string, int) js_map) js_map" where
  "rank_lookup rows =
     map (\<lambda>(groupId, members). (groupId, rankGroups (map (\<lambda>(g, _). (tg_totalNetPoints g, tg_overallRank g)) members)))
       (js_group_by (\<lambda>(g, _). tg_groupId g) rows)"

definition rank_of_row :: "(int, (string, int) js_map) js_map \<Rightarrow> tournament_group \<Rightarrow> int option" where
  "rank_of_row ranks g =
     js_get (coalesce (js_get ranks (tg_groupId g)) []) (groupRankKey (tg_totalNetPoints g) (tg_overallRank g))"

definition points_race_updates ::
  "tournament_config \<Rightarrow> (tournament_group \<times> entry_event_result) list \<Rightarrow> tournament_group list" where
  "points_race_updates t rows =
     map (\<lambda>(g, _). (apply_rank (tc_groupQualifyNum t) (coalesce (rank_of_row (rank_lookup rows) g) 0) g)
       \<lparr>tg_groupPoints := tg_totalNetPoints g\<rparr>) rows"

definition syncTournamentPointsRaceResultsForTournament ::
  "race_env \<Rightarrow> tournament_config \<Rightarrow> int \<Rightarrow> tournament_group list \<times> points_result list
   \<Rightarrow> race_counts \<times> tournament_group list \<times> points_result list" where
  "syncTournamentPointsRaceResultsForTournament env t eventId db =
     (if \<not> truthy (tc_groupStartedEventId t) \<or> \<not> truthy (tc_groupEndedEventId t)
      then (race_counts_of 0 0 0, db)
      else
        (let entryIds = re_entryIds env in
         if entryIds = [] then (race_counts_of 0 0 0, db)
         else
           (let eventResults = findByEventAndEntryIds (re_results env) eventId entryIds in
            if eventResults = [] then (race_counts_of 0 0 (int (length entryIds)), db)
            else
              (let eventResultMap = result_map eventResults;
                   tournamentGroups = groups_findByTournamentAndEntries (fst db) (tc_id t) entryIds in
               if tournamentGroups = [] then (race_counts_of 0 0 (int (length entryIds)), db)
               else
                 (let totalsMap = totals_map (aggregateTotalsByEntry (re_results env) entryIds
                        (the (tc_groupStartedEventId t)) (min eventId (the (tc_groupEndedEventId t))));
                      existing = js_map_new (map (\<lambda>r. (pr_entryId r, r))
                        (points_findByTournamentAndEvent (snd db) (tc_id t) eventId entryIds));
                      rows = points_race_rows t eventId eventResultMap totalsMap tournamentGroups;
                      updatedGroups = points_race_updates t rows;
                      updatedResults = map (\<lambda>(g, r). points_result_update eventId existing
                        (rank_of_row (rank_lookup rows) g) g r) rows
                  in (race_counts_of (int (length updatedGroups)) (int (length updatedResults))
                        (int (length tournamentGroups - length rows)),
                      groups_upsertBatch updatedGroups (fst db),
                      points_upsertBatch updatedResults (snd db)))))))"

definition syncTournamentPointsRaceResultsForTournamentId ::
  "race_env \<Rightarrow> tournament_config option \<Rightarrow> int \<Rightarrow> tournament_group list \<times> points_result list
   \<Rightarrow> race_counts \<times> tournament_group list \<times> points_result list" where
  "syncTournamentPointsRaceResultsForTournamentId env tournament eventId db =
     (case tournament of
        None \<Rightarrow> (race_counts_of 0 0 0, db)
      | Some t \<Rightarrow>
          if tc_groupMode t \<noteq> Points_races \<or> \<not> truthy (tc_groupStartedEventId t)
             \<or> \<not> truthy (tc_groupEndedEventId t)
             \<or> eventId < the (tc_groupStartedEventId t) \<or> eventId > the (tc_groupEndedEventId t)
          then (race_counts_of 0 0 0, db)
          else syncTournamentPointsRaceResultsForTournament env t eventId db)"

section \<open>Battle race\<close>

definition matchPoints :: "int \<Rightarrow> int \<Rightarrow> int" where
  "matchPoints homeNet awayNet = (if homeNet > awayNet then 3 else if homeNet < awayNet then 0 else 1)"

text \<open>\<open>None\<close>: a row that is not a local fixture is left out of the upsert.\<close>

definition score_battle :: "(int, entry_event_result) js_map \<Rightarrow> battle_result \<Rightarrow> battle_result option" where
  "score_battle eventResultMap b =
     (case (br_officialMatchId b, br_homeEntryId b, br_awayEntryId b) of
        (None, Some home, Some away) \<Rightarrow>
          Some (case (js_get eventResultMap home, js_get eventResultMap away) of
            (Some h, Some a) \<Rightarrow>
              b\<lparr>br_homeNetPoints := Some (er_eventNetPoints h), br_homeRank := er_eventRank h,
                br_homeMatchPoints := Some (matchPoints (er_eventNetPoints h) (er_eventNetPoints a)),
                br_awayNetPoints := Some (er_eventNetPoints a), br_awayRank := er_eventRank a,
                br_awayMatchPoints := Some (matchPoints (er_eventNetPoints a) (er_eventNetPoints h))\<rparr>
          | _ \<Rightarrow>
              b\<lparr>br_homeNetPoints := None, br_homeRank := None, br_homeMatchPoints := None,
                br_awayNetPoints := None, br_awayRank := None, br_awayMatchPoints := None\<rparr>)
      | _ \<Rightarrow> None)"

definition battle_skipped :: "(int, entry_event_result) js_map \<Rightarrow> battle_result \<Rightarrow> bool" where
  "battle_skipped eventResultMap b =
     (case (br_officialMatchId b, br_homeEntryId b, br_awayEntryId b) of
        (None, Some home, Some away) \<Rightarrow> js_get eventResultMap home = None \<or> js_get eventResultMap away = None
      | _ \<Rightarrow> True)"

record battle_counter =
  bc_points :: int
  bc_won :: int
  bc_drawn :: int
  bc_lost :: int

definition newCounter :: battle_counter where
  "newCounter = \<lparr>bc_points = 0, bc_won = 0, bc_drawn = 0, bc_lost = 0\<rparr>"

definition add_match :: "int \<Rightarrow> battle_counter \<Rightarrow> battle_counter" where
  "add_match points c =
     (let c1 = c\<lparr>bc_points := bc_points c + points\<rparr> in
      if points = 3 then c1\<lparr>bc_won := bc_won c + 1\<rparr>
      else if points = 1 then c1\<lparr>bc_drawn := bc_drawn c + 1\<rparr>
      else c1\<lparr>bc_lost := bc_lost c + 1\<rparr>)"

type_synonym battle_counters = "(int, (int, battle_counter) js_map) js_map"

definition count_battle :: "battle_counters \<Rightarrow> battle_result \<Rightarrow> battle_counters" where
  "count_battle countersByGroup row =
     (case (br_homeMatchPoints row, br_awayMatchPoints row, br_homeEntryId row, br_awayEntryId row) of
        (Some homePoints, Some awayPoints, Some home, Some away) \<Rightarrow>
          (let groupCounters = coalesce (js_get countersByGroup (br_groupId row)) [];
               c1 = js_set home (add_match homePoints (coalesce (js_get groupCounters home) newCounter)) groupCounters;
               c2 = js_set away (add_match awayPoints (coalesce (js_get c1 away) newCounter)) c1
           in js_set (br_groupId row) c2 countersByGroup)
      | _ \<Rightarrow> countersByGroup)"

definition battle_group_update ::
  "int \<Rightarrow> (int, battle_counter) js_map \<Rightarrow> (int, entry_totals) js_map \<Rightarrow> entry_event_result
   \<Rightarrow> tournament_group \<Rightarrow> tournament_group" where
  "battle_group_update played groupCounters totalsMap r g =
     (let counter = coalesce (js_get groupCounters (tg_entryId g)) newCounter;
          totals = coalesce (js_get totalsMap (tg_entryId g)) (no_totals (tg_entryId g))
      in g\<lparr>tg_groupPoints := bc_points counter, tg_played := played, tg_won := bc_won counter,
           tg_drawn := bc_drawn counter, tg_lost := bc_lost counter,
           tg_totalPoints := et_totalPoints totals, tg_totalTransfersCost := et_totalTransfersCost totals,
           tg_totalNetPoints := et_totalNetPoints totals, tg_overallRank := Some (er_overallRank r)\<rparr>)"

definition rank_battle_rows :: "int option \<Rightarrow> tournament_group list \<Rightarrow> tournament_group list" where
  "rank_battle_rows groupQualifyNum filtered =
     (let rankMap = rankGroups (map (\<lambda>g. (tg_groupPoints g, tg_overallRank g)) filtered) in
      map (\<lambda>g. apply_rank groupQualifyNum
        (coalesce (js_get rankMap (groupRankKey (tg_groupPoints g) (tg_overallRank g))) 0) g) filtered)"

text \<open>The updated rows of one group, and the entries of it that have no result.\<close>

definition battle_group_rows ::
  "int \<Rightarrow> battle_counters \<Rightarrow> (int, entry_totals) js_map \<Rightarrow> (int, entry_event_result) js_map
   \<Rightarrow> (int, tournament_group list) js_map \<Rightarrow> int \<Rightarrow> tournament_group list" where
  "battle_group_rows played countersByGroup totalsMap rankingResultMap groupEntries groupId =
     List.map_filter (\<lambda>g. map_option
       (\<lambda>r. battle_group_update played (coalesce (js_get countersByGroup groupId) []) totalsMap r g)
       (js_get rankingResultMap (tg_entryId g)))
       (coalesce (js_get groupEntries groupId) [])"

definition recompute_horizon :: "int \<Rightarrow> int \<Rightarrow> int option \<Rightarrow> int" where
  "recompute_horizon groupEndedEventId eventId maxStoredEventId =
     min groupEndedEventId (max eventId (coalesce maxStoredEventId eventId))"

definition battle_standings ::
  "race_env \<Rightarrow> tournament_config \<Rightarrow> int \<Rightarrow> battle_result list \<Rightarrow> tournament_group list
   \<Rightarrow> int \<times> tournament_group list" where
  "battle_standings env t eventId battles groups =
     (let started = the (tc_groupStartedEventId t); ended = the (tc_groupEndedEventId t);
          horizon = recompute_horizon ended eventId (findMaxEventIdInRange battles (tc_id t) started ended);
          history = battles_findByTournamentAndEventRange battles (tc_id t) started horizon;
          totalsMap = totals_map (aggregateTotalsByEntry (re_results env) (re_entryIds env) started horizon);
          rankingResultMap = result_map (findByEventAndEntryIds (re_results env) horizon (re_entryIds env));
          groupIds = js_uniq (map br_groupId history);
          countersByGroup = foldl count_battle [] history;
          groupEntries = js_group_by tg_groupId
            (groups_findByTournamentAndEntries groups (tc_id t) (re_entryIds env));
          rows = battle_group_rows (horizon - started + 1) countersByGroup totalsMap rankingResultMap groupEntries
      in (sum_list (map (\<lambda>groupId. int (length (coalesce (js_get groupEntries groupId) []) - length (rows groupId))) groupIds),
          concat (map (\<lambda>groupId. rank_battle_rows (tc_groupQualifyNum t) (rows groupId)) groupIds)))"

definition syncTournamentBattleRaceResultsForTournament ::
  "race_env \<Rightarrow> tournament_config \<Rightarrow> int \<Rightarrow> tournament_group list \<times> battle_result list
   \<Rightarrow> race_counts \<times> tournament_group list \<times> battle_result list" where
  "syncTournamentBattleRaceResultsForTournament env t eventId db =
     (if \<not> truthy (tc_groupStartedEventId t) \<or> \<not> truthy (tc_groupEndedEventId t)
      then (race_counts_of 0 0 0, db)
      else
        (let entryIds = re_entryIds env in
         if entryIds = [] then (race_counts_of 0 0 0, db)
         else
           (let eventResults = findByEventAndEntryIds (re_results env) eventId entryIds in
            if eventResults = [] then (race_counts_of 0 0 (int (length entryIds)), db)
            else
              (let eventResultMap = result_map eventResults;
                   battleResults = battles_findByTournamentAndEvent (snd db) (tc_id t) eventId in
               if battleResults = [] then (race_counts_of 0 0 (int (length entryIds)), db)
               else
                 (let scored = List.map_filter (score_battle eventResultMap) battleResults;
                      battles1 = battles_upsertBatch scored (snd db);
                      standings = battle_standings env t eventId battles1 (fst db)
                  in (race_counts_of (int (length (snd standings))) (int (length scored))
                        (int (length (filter (battle_skipped eventResultMap) battleResults)) + fst standings),
                      groups_upsertBatch (snd standings) (fst db), battles1))))))"

section \<open>Ranks\<close>

interpretation race: comparator race_cmp
proof -
  have "comparator (\<lambda>x y :: int \<times> int option. if fst y - fst x \<noteq> 0 then fst y - fst x
      else coalesce (snd x) MAX_SAFE_INTEGER - coalesce (snd y) MAX_SAFE_INTEGER)"
    by (rule comparator_then [OF comparator_key_desc comparator_key])
  moreover have "race_cmp = (\<lambda>x y. if fst y - fst x \<noteq> 0 then fst y - fst x
      else coalesce (snd x) MAX_SAFE_INTEGER - coalesce (snd y) MAX_SAFE_INTEGER)"
    by (auto simp: race_cmp_def fun_eq_iff)
  ultimately show "comparator race_cmp" by (simp only:)
qed

lemma show_nat_dash_inject:
  assumes "show_nat a @ ''-'' @ s = show_nat b @ ''-'' @ t"
  shows "a = b \<and> s = t"
proof -
  have tw: "takeWhile (\<lambda>c. c \<noteq> CHR ''-'') (show_nat n @ ''-'' @ r) = show_nat n" for n r
    using show_nat_no_sep [of "CHR ''-''" n] by (subst takeWhile_append2) auto
  have "show_nat a = show_nat b" using assms tw [of a s] tw [of b t] by simp
  with assms show ?thesis by simp
qed

lemma show_int_dash_inject:
  assumes "show_int a @ ''-'' @ s = show_int b @ ''-'' @ t"
  shows "a = b \<and> s = t"
proof -
  have hd: "hd (show_nat n @ r) \<noteq> CHR ''-''" for n r
    using show_nat_no_sep [of "CHR ''-''" n] by (cases "show_nat n") auto
  show ?thesis
  proof (cases "a < 0"; cases "b < 0")
    assume "a < 0" "b < 0"
    with assms show_nat_dash_inject [of "nat (- a)" s "nat (- b)" t] show ?thesis
      by (auto simp: show_int_def eq_nat_nat_iff)
  next
    assume "a < 0" "\<not> b < 0"
    then have "hd (show_nat (nat b) @ ''-'' @ t) = CHR ''-''"
      using arg_cong [OF assms, of hd] by (simp add: show_int_def)
    with hd show ?thesis by blast
  next
    assume "\<not> a < 0" "b < 0"
    then have "hd (show_nat (nat a) @ ''-'' @ s) = CHR ''-''"
      using arg_cong [OF assms, of hd] by (simp add: show_int_def)
    with hd show ?thesis by blast
  next
    assume "\<not> a < 0" "\<not> b < 0"
    with assms show_nat_dash_inject [of "nat a" s "nat b" t] show ?thesis
      by (auto simp: show_int_def eq_nat_nat_iff)
  qed
qed

lemma groupRankKey_eq_iff:
  "groupRankKey (fst x) (snd x) = groupRankKey (fst y) (snd y) \<longleftrightarrow> race_cmp x y = 0"
proof
  assume "groupRankKey (fst x) (snd x) = groupRankKey (fst y) (snd y)"
  then have "fst x = fst y \<and> show_int (coalesce (snd x) MAX_SAFE_INTEGER) = show_int (coalesce (snd y) MAX_SAFE_INTEGER)"
    unfolding groupRankKey_def by (rule show_int_dash_inject)
  then show "race_cmp x y = 0" by (simp add: race_cmp_def)
next
  assume "race_cmp x y = 0"
  then show "groupRankKey (fst x) (snd x) = groupRankKey (fst y) (snd y)"
    by (auto simp: race_cmp_def groupRankKey_def split: if_splits)
qed

text \<open>Ties share the worst rank: the number of entries that are not worse.\<close>

definition race_rank :: "(int \<times> int option) list \<Rightarrow> int \<times> int option \<Rightarrow> int" where
  "race_rank entries e = int (length (filter (\<lambda>x. race_cmp x e \<le> 0) entries))"

lemma rankGroups_get:
  assumes "e \<in> set entries"
  shows "js_get (rankGroups entries) (groupRankKey (fst e) (snd e)) = Some (race_rank entries e)"
  using race.rank_by_position [OF race.sorted_js_sort, of e entries "\<lambda>x. groupRankKey (fst x) (snd x)"]
    assms groupRankKey_eq_iff
  by (simp add: rankGroups_def js_get_map_new race_rank_def)

lemma race_rank_perm: "mset xs = mset ys \<Longrightarrow> race_rank xs e = race_rank ys e"
  unfolding race_rank_def by (metis mset_filter size_mset)

lemma race_rank_pos: "e \<in> set xs \<Longrightarrow> 1 \<le> race_rank xs e"
proof -
  assume "e \<in> set xs"
  then have "e \<in> set (filter (\<lambda>x. race_cmp x e \<le> 0) xs)" by simp
  then have "length (filter (\<lambda>x. race_cmp x e \<le> 0) xs) \<noteq> 0" by (metis length_0_conv list.set(1) empty_iff)
  then show ?thesis by (simp add: race_rank_def Suc_le_eq)
qed

lemma race_rank_at_most:
  "length (filter (\<lambda>g. race_rank (map f gs) (f g) \<le> int n) gs) \<le> n"
proof -
  have "length (filter (\<lambda>e. race_rank (map f gs) e \<le> int n) (map f gs)) \<le> n"
    using race.rank_at_most [where xs = "map f gs" and n = n] by (simp only: race_rank_def of_nat_le_iff)
  then show ?thesis by (simp add: filter_map comp_def)
qed

section \<open>Event results\<close>

definition results_unique :: "entry_event_result list \<Rightarrow> bool" where
  "results_unique rows = distinct (map (\<lambda>r. (er_entryId r, er_eventId r)) rows)"

definition event_result :: "entry_event_result list \<Rightarrow> int \<Rightarrow> int \<Rightarrow> entry_event_result option" where
  "event_result rows e x = find (\<lambda>r. er_entryId r = x \<and> er_eventId r = e) rows"

lemma event_result_Some:
  assumes "results_unique rows"
  shows "event_result rows e x = Some r \<longleftrightarrow> r \<in> set rows \<and> er_entryId r = x \<and> er_eventId r = e"
  using assms unfolding results_unique_def event_result_def
  by (induction rows) (force split: if_splits)+

lemma result_map_get:
  assumes "results_unique rows"
  shows "js_get (result_map (findByEventAndEntryIds rows e ids)) x = (if x \<in> set ids then event_result rows e x else None)"
proof -
  let ?rs = "findByEventAndEntryIds rows e ids"
  have "distinct (map er_entryId (filter (\<lambda>r. er_eventId r = e \<and> er_entryId r \<in> set ids) rows))"
    using assms unfolding results_unique_def by (induction rows) auto
  then have dist: "distinct (map er_entryId ?rs)"
    using mset_distinct_map [OF mset_results_find] by blast
  then have "js_get (result_map ?rs) x = Some r \<longleftrightarrow> r \<in> set ?rs \<and> er_entryId r = x" for r
    unfolding result_map_def by (subst js_get_map_new_distinct) (auto simp: comp_def map_of_eq_Some_iff)
  then have "js_get (result_map ?rs) x = Some r \<longleftrightarrow>
      (if x \<in> set ids then event_result rows e x else None) = Some r" for r
    by (auto simp: set_results_find event_result_Some [OF assms])
  then show ?thesis by (metis option.exhaust)
qed

section \<open>Standings of a points race\<close>

text \<open>
  What an entry is ranked on: its net points over the group window up to the event, and its
  overall rank at the event.
\<close>

definition points_standing :: "race_env \<Rightarrow> tournament_config \<Rightarrow> int \<Rightarrow> tournament_group \<Rightarrow> int \<times> int option" where
  "points_standing env t e g =
     (sum_list (map er_eventNetPoints (entry_window (re_results env) (tg_entryId g)
        (the (tc_groupStartedEventId t)) (min e (the (tc_groupEndedEventId t))))),
      map_option er_overallRank (event_result (re_results env) e (tg_entryId g)))"

text \<open>The members of a group that have a result in the event.\<close>

definition race_peers :: "race_env \<Rightarrow> int \<Rightarrow> int \<Rightarrow> tournament_group list \<Rightarrow> int \<Rightarrow> tournament_group list" where
  "race_peers env tid e groups groupId =
     filter (\<lambda>h. tg_tournamentId h = tid \<and> tg_groupId h = groupId \<and> tg_entryId h \<in> set (re_entryIds env) \<and>
       event_result (re_results env) e (tg_entryId h) \<noteq> None) groups"

lemma rank_lookup_get:
  "coalesce (js_get (rank_lookup rows) G) [] = rankGroups (map (\<lambda>(g, _). (tg_totalNetPoints g, tg_overallRank g))
     (filter (\<lambda>(g, _). tg_groupId g = G) rows))"
proof -
  have "js_get (rank_lookup rows) G = map_option (\<lambda>members. rankGroups (map (\<lambda>(g, _).
      (tg_totalNetPoints g, tg_overallRank g)) members)) (js_get (js_group_by (\<lambda>(g, _). tg_groupId g) rows) G)"
    unfolding rank_lookup_def map_of_map by simp
  moreover have "filter (\<lambda>(g, _). tg_groupId g = G) rows = []" if "G \<notin> (\<lambda>(g, _). tg_groupId g) ` set rows"
    using that by (auto simp: filter_empty_conv image_iff)
  moreover have "rankGroups [] = []" by (simp add: rankGroups_def js_map_new_def)
  ultimately show ?thesis by (auto simp: js_group_by_get case_prod_beta')
qed

lemma rank_of_row_eq:
  assumes "(u, r) \<in> set rows"
  shows "rank_of_row (rank_lookup rows) u = Some (race_rank (map (\<lambda>(g, _). (tg_totalNetPoints g, tg_overallRank g))
     (filter (\<lambda>(g, _). tg_groupId g = tg_groupId u) rows)) (tg_totalNetPoints u, tg_overallRank u))"
  unfolding rank_of_row_def rank_lookup_get
  by (rule rankGroups_get [of "(tg_totalNetPoints u, tg_overallRank u)", simplified])
    (use assms in force)

lemma points_group_update_simps [simp]:
  "tg_tournamentId (points_group_update p m g r) = tg_tournamentId g"
  "tg_groupId (points_group_update p m g r) = tg_groupId g"
  "tg_entryId (points_group_update p m g r) = tg_entryId g"
  "tg_overallRank (points_group_update p m g r) = Some (er_overallRank r)"
  "tg_totalNetPoints (points_group_update p m g r) =
     et_totalNetPoints (coalesce (js_get m (tg_entryId g)) (no_totals (tg_entryId g)))"
  "group_key (points_group_update p m g r) = group_key g"
  by (simp_all add: points_group_update_def Let_def group_key_def)

lemma apply_rank_simps [simp]:
  "tg_tournamentId (apply_rank n k g) = tg_tournamentId g" "tg_groupId (apply_rank n k g) = tg_groupId g"
  "tg_entryId (apply_rank n k g) = tg_entryId g" "tg_totalNetPoints (apply_rank n k g) = tg_totalNetPoints g"
  "tg_groupPoints (apply_rank n k g) = tg_groupPoints g"
  "tg_won (apply_rank n k g) = tg_won g" "tg_drawn (apply_rank n k g) = tg_drawn g"
  "tg_lost (apply_rank n k g) = tg_lost g" "tg_overallRank (apply_rank n k g) = tg_overallRank g"
  "tg_groupRank (apply_rank n k g) = Some k" "group_key (apply_rank n k g) = group_key g"
  "truthy n \<Longrightarrow> tg_qualified (apply_rank n k g) = (if k > 0 \<and> k \<le> the n then 1 else 0)"
  by (simp_all add: apply_rank_def Let_def group_key_def)

text \<open>The rows the points race updates, in terms of the tables.\<close>

definition points_rows ::
  "race_env \<Rightarrow> tournament_config \<Rightarrow> int \<Rightarrow> tournament_group list \<Rightarrow> (tournament_group \<times> entry_event_result) list" where
  "points_rows env t e groups =
     points_race_rows t e (result_map (findByEventAndEntryIds (re_results env) e (re_entryIds env)))
       (totals_map (aggregateTotalsByEntry (re_results env) (re_entryIds env)
          (the (tc_groupStartedEventId t)) (min e (the (tc_groupEndedEventId t)))))
       (groups_findByTournamentAndEntries groups (tc_id t) (re_entryIds env))"

definition points_update :: "race_env \<Rightarrow> tournament_config \<Rightarrow> int \<Rightarrow> tournament_group \<Rightarrow> entry_event_result \<Rightarrow> tournament_group" where
  "points_update env t e g r = points_group_update (e - the (tc_groupStartedEventId t) + 1)
     (totals_map (aggregateTotalsByEntry (re_results env) (re_entryIds env)
        (the (tc_groupStartedEventId t)) (min e (the (tc_groupEndedEventId t))))) g r"

lemma points_update_standing:
  assumes "event_result (re_results env) e (tg_entryId g) = Some r" "tg_entryId g \<in> set (re_entryIds env)"
  shows "(tg_totalNetPoints (points_update env t e g r), tg_overallRank (points_update env t e g r)) =
    points_standing env t e g"
  using assms by (simp add: points_update_def points_standing_def totals_map_def totals_get no_totals_def entry_totals_of_def)

lemma set_groups_find:
  "g \<in> set (groups_findByTournamentAndEntries groups tid ids) \<longleftrightarrow>
     g \<in> set groups \<and> tg_tournamentId g = tid \<and> tg_entryId g \<in> set ids"
  using mset_eq_setD [OF mset_groups_find [of groups tid ids]] by auto

lemma distinct_groups_find:
  assumes "distinct (map group_key groups)"
  shows "distinct (map group_key (groups_findByTournamentAndEntries groups tid ids))"
  using distinct_map_filter [OF assms] mset_distinct_map [OF mset_groups_find] by blast

lemma points_rows_eq:
  assumes "results_unique (re_results env)"
  shows "points_rows env t e groups =
    map (\<lambda>g. (points_update env t e g (the (event_result (re_results env) e (tg_entryId g))),
          the (event_result (re_results env) e (tg_entryId g))))
      (filter (\<lambda>g. event_result (re_results env) e (tg_entryId g) \<noteq> None)
        (groups_findByTournamentAndEntries groups (tc_id t) (re_entryIds env)))"
proof -
  have ids: "tg_entryId g \<in> set (re_entryIds env)"
    if "g \<in> set (groups_findByTournamentAndEntries groups (tc_id t) (re_entryIds env))" for g
    using that by (simp add: set_groups_find)
  show ?thesis
    unfolding points_rows_def points_race_rows_def map_filter_def points_update_def
    using ids by (auto simp: result_map_get [OF assms] cong: filter_cong)
qed

lemma points_rows_group:
  assumes "results_unique (re_results env)"
  shows "mset (map (\<lambda>(g, _). (tg_totalNetPoints g, tg_overallRank g)) (filter (\<lambda>(g, _). tg_groupId g = G) (points_rows env t e groups))) =
    mset (map (points_standing env t e) (race_peers env (tc_id t) e groups G))"
proof -
  let ?found = "groups_findByTournamentAndEntries groups (tc_id t) (re_entryIds env)"
  let ?P = "\<lambda>g. tg_groupId g = G \<and> event_result (re_results env) e (tg_entryId g) \<noteq> None"
  have "map (\<lambda>(g, _). (tg_totalNetPoints g, tg_overallRank g)) (filter (\<lambda>(g, _). tg_groupId g = G) (points_rows env t e groups)) =
      map (points_standing env t e) (filter ?P ?found)"
    unfolding points_rows_eq [OF assms] filter_map map_map filter_filter comp_def prod.case
    using points_update_standing [of env e _ _ t]
    by (auto simp: set_groups_find points_update_def intro!: map_cong filter_cong)
  also have "mset \<dots> = image_mset (points_standing env t e) (filter_mset ?P (mset ?found))" by simp
  also have "\<dots> = mset (map (points_standing env t e) (race_peers env (tc_id t) e groups G))"
    unfolding mset_groups_find race_peers_def by (simp add: filter_filter_mset conj_commute conj_left_commute flip: mset_filter)
  finally show ?thesis .
qed

text \<open>One row after the points race: totals, rank among the peers, qualification.\<close>

definition points_row_ok ::
  "race_env \<Rightarrow> tournament_config \<Rightarrow> int \<Rightarrow> tournament_group list \<Rightarrow> tournament_group \<Rightarrow> tournament_group \<Rightarrow> bool" where
  "points_row_ok env t e groups g u \<longleftrightarrow>
     (let rank = race_rank (map (points_standing env t e) (race_peers env (tc_id t) e groups (tg_groupId g)))
                   (points_standing env t e g) in
      tg_totalNetPoints u = fst (points_standing env t e g) \<and> tg_groupPoints u = tg_totalNetPoints u \<and>
      tg_overallRank u = snd (points_standing env t e g) \<and> tg_groupRank u = Some rank \<and> 1 \<le> rank \<and>
      (truthy (tc_groupQualifyNum t) \<longrightarrow>
        tg_qualified u = (if rank \<le> the (tc_groupQualifyNum t) then 1 else 0)))"

lemma points_race_updates_lookup:
  assumes "results_unique (re_results env)" "distinct (map group_key groups)"
    and "g \<in> set groups" "tg_tournamentId g = tc_id t" "tg_entryId g \<in> set (re_entryIds env)"
    and "event_result (re_results env) e (tg_entryId g) \<noteq> None"
  shows "\<exists>u. lookup group_key (groups_upsertBatch (points_race_updates t (points_rows env t e groups)) groups)
      (group_key g) = Some u \<and> points_row_ok env t e groups g u"
proof -
  let ?rows = "points_rows env t e groups"
  let ?ups = "points_race_updates t ?rows"
  obtain r where r: "event_result (re_results env) e (tg_entryId g) = Some r" using assms(6) by blast
  let ?v = "points_update env t e g r"
  have mem: "(?v, r) \<in> set ?rows"
    unfolding points_rows_eq [OF assms(1)] using assms(3-5) r by (force simp: set_groups_find)
  define rank where "rank = race_rank (map (points_standing env t e) (race_peers env (tc_id t) e groups (tg_groupId g)))
      (points_standing env t e g)"
  have vg: "tg_groupId ?v = tg_groupId g" "group_key ?v = group_key g" by (simp_all add: points_update_def)
  have rk: "rank_of_row (rank_lookup ?rows) ?v = Some rank"
    unfolding rank_of_row_eq [OF mem] points_update_standing [OF r assms(5)] vg rank_def
    using race_rank_perm [OF points_rows_group [OF assms(1)]] by simp
  have "g \<in> set (race_peers env (tc_id t) e groups (tg_groupId g))"
    using assms(3-6) by (simp add: race_peers_def)
  then have pos: "1 \<le> rank" unfolding rank_def by (intro race_rank_pos) simp
  let ?u = "(apply_rank (tc_groupQualifyNum t) rank ?v)\<lparr>tg_groupPoints := tg_totalNetPoints ?v\<rparr>"
  have up: "?u \<in> set ?ups" unfolding points_race_updates_def using mem rk by force
  have keys: "map group_key ?ups = map group_key (filter (\<lambda>g. event_result (re_results env) e (tg_entryId g) \<noteq> None)
      (groups_findByTournamentAndEntries groups (tc_id t) (re_entryIds env)))"
    unfolding points_race_updates_def points_rows_eq [OF assms(1)]
    by (simp add: points_update_def group_key_def)
  have dist: "distinct (map group_key ?ups)"
    unfolding keys by (intro distinct_map_filter distinct_groups_find assms(2))
  have key_u: "group_key ?u = group_key g" using vg(2) by (simp add: group_key_def)
  have "lookup group_key ?ups (group_key g) = Some ?u" using lookup_in_set [OF dist up] unfolding key_u .
  moreover have "lookup group_key groups (group_key g) = Some g" by (rule lookup_in_set [OF assms(2,3)])
  ultimately have "lookup group_key (groups_upsertBatch ?ups groups) (group_key g) = Some (group_merge ?u g)"
    unfolding groups_upsertBatch_def by (simp add: groups.lookup_upsert_batch [OF dist])
  moreover have "group_merge ?u g = ?u" using key_u by (simp add: group_merge_def group_key_def)
  moreover have "points_row_ok env t e groups g ?u"
    using points_update_standing [OF r assms(5), of t] pos
    unfolding points_row_ok_def Let_def rank_def [symmetric] by (auto simp: prod_eq_iff)
  ultimately show ?thesis by auto
qed

lemma points_race_runs:
  assumes "truthy (tc_groupStartedEventId t)" "truthy (tc_groupEndedEventId t)"
    and "results_unique (re_results env)"
    and "g \<in> set groups" "tg_tournamentId g = tc_id t" "tg_entryId g \<in> set (re_entryIds env)"
    and "event_result (re_results env) e (tg_entryId g) \<noteq> None"
  shows "fst (snd (syncTournamentPointsRaceResultsForTournament env t e (groups, points))) =
    groups_upsertBatch (points_race_updates t (points_rows env t e groups)) groups"
proof -
  have "re_entryIds env \<noteq> []" using assms(6) by auto
  moreover obtain r where "event_result (re_results env) e (tg_entryId g) = Some r" using assms(7) by blast
  then have "r \<in> set (findByEventAndEntryIds (re_results env) e (re_entryIds env))"
    using assms(6) by (auto simp: set_results_find event_result_Some [OF assms(3)])
  then have "findByEventAndEntryIds (re_results env) e (re_entryIds env) \<noteq> []" by auto
  moreover have "g \<in> set (groups_findByTournamentAndEntries groups (tc_id t) (re_entryIds env))"
    using assms(4-6) by (simp add: set_groups_find)
  then have "groups_findByTournamentAndEntries groups (tc_id t) (re_entryIds env) \<noteq> []" by auto
  ultimately show ?thesis
    using assms(1,2) unfolding syncTournamentPointsRaceResultsForTournament_def Let_def points_rows_def by simp
qed

text \<open>
  After a points-race sync every group member with a result in the event carries its net
  points over the group window up to that event, its current overall rank, and as its rank the
  number of members of its group that are not worse than it (by net points, then by overall
  rank); it is marked qualified exactly when that rank is within the group's quota.
\<close>

lemma points_race_row:
  assumes "truthy (tc_groupStartedEventId t)" "truthy (tc_groupEndedEventId t)"
    and "results_unique (re_results env)" "distinct (map group_key groups)"
    and "g \<in> set groups" "tg_tournamentId g = tc_id t" "tg_entryId g \<in> set (re_entryIds env)"
    and "event_result (re_results env) e (tg_entryId g) \<noteq> None"
  shows "\<exists>u. lookup group_key (fst (snd (syncTournamentPointsRaceResultsForTournament env t e (groups, points))))
      (group_key g) = Some u \<and> points_row_ok env t e groups g u"
  unfolding points_race_runs [OF assms(1-3) assms(5-8)]
  by (rule points_race_updates_lookup [OF assms(3-8)])

text \<open>
  No group sends more entries to the knockout phase than its quota: at most
  \<open>groupQualifyNum\<close> of the members that have a result in the event are marked qualified. Because
  tied entries share the worst rank of the tie, a tie across the last place can leave places
  unfilled, but never overfills them.
\<close>

lemma points_race_within_quota:
  assumes "truthy (tc_groupStartedEventId t)" "truthy (tc_groupEndedEventId t)"
    and "results_unique (re_results env)" "distinct (map group_key groups)"
    and "tc_groupQualifyNum t = Some (int n)" "0 < n"
  shows "length (filter (\<lambda>h. \<exists>u. lookup group_key
      (fst (snd (syncTournamentPointsRaceResultsForTournament env t e (groups, points)))) (group_key h) = Some u \<and>
      tg_qualified u = 1) (race_peers env (tc_id t) e groups G)) \<le> n"
proof -
  let ?peers = "race_peers env (tc_id t) e groups G" and ?st = "points_standing env t e"
  let ?out = "fst (snd (syncTournamentPointsRaceResultsForTournament env t e (groups, points)))"
  have "(\<exists>u. lookup group_key ?out (group_key h) = Some u \<and> tg_qualified u = 1) \<longleftrightarrow>
      race_rank (map ?st ?peers) (?st h) \<le> int n" if "h \<in> set ?peers" for h
  proof -
    have h: "h \<in> set groups" "tg_tournamentId h = tc_id t" "tg_entryId h \<in> set (re_entryIds env)"
        "event_result (re_results env) e (tg_entryId h) \<noteq> None" "tg_groupId h = G"
      using that by (simp_all add: race_peers_def)
    obtain u where "lookup group_key ?out (group_key h) = Some u" "points_row_ok env t e groups h u"
      unfolding points_race_runs [OF assms(1-3) h(1-4)]
      using points_race_updates_lookup [OF assms(3,4) h(1-4)] by blast
    with h(5) assms(5,6) show ?thesis by (auto simp: points_row_ok_def Let_def)
  qed
  then have "filter (\<lambda>h. \<exists>u. lookup group_key ?out (group_key h) = Some u \<and> tg_qualified u = 1) ?peers =
      filter (\<lambda>h. race_rank (map ?st ?peers) (?st h) \<le> int n) ?peers"
    by (intro filter_cong) simp_all
  then show ?thesis using race_rank_at_most [of ?st ?peers n] by simp
qed


definition example_group :: "int \<Rightarrow> tournament_group" where
  "example_group i = \<lparr>tg_tournamentId = 1, tg_groupId = 1, tg_groupName = ''A'', tg_groupIndex = i, tg_entryId = i,
     tg_startedEventId = Some 1, tg_endedEventId = Some 10, tg_groupPoints = 0, tg_groupRank = None, tg_played = 0,
     tg_won = 0, tg_drawn = 0, tg_lost = 0, tg_totalPoints = 0, tg_totalTransfersCost = 0,
     tg_totalNetPoints = 0, tg_qualified = 0, tg_overallRank = None\<rparr>"

definition example_race_env :: race_env where
  "example_race_env = \<lparr>re_entryIds = [5, 6, 7],
     re_results = [(example_result 5 40)\<lparr>er_eventId := 2\<rparr>, (example_result 6 45)\<lparr>er_eventId := 2\<rparr>,
       (example_result 7 45)\<lparr>er_eventId := 2\<rparr>]\<rparr>"

lemma example_race_facts:
  "truthy (tc_groupStartedEventId example_config)" "truthy (tc_groupEndedEventId example_config)"
  "results_unique (re_results example_race_env)" "distinct (map group_key (map example_group [5, 6, 7]))"
  "tc_groupQualifyNum example_config = Some (int 2)"
  by (simp_all add: example_config_def example_race_env_def results_unique_def example_result_def
      group_key_def example_group_def)


text \<open>
  Two members level on net points and overall rank share the rank of the later one, so with a
  quota of one place a tie at the top qualifies nobody.
\<close>

lemma tied_leaders_not_qualified:
  "map (\<lambda>g. (tg_entryId g, tg_groupRank g, tg_qualified g))
     (fst (snd (syncTournamentPointsRaceResultsForTournament example_race_env
       (example_config\<lparr>tc_groupQualifyNum := Some 1\<rparr>) 2 (map example_group [5, 6, 7], [])))) =
   [(5, Some 3, 0), (6, Some 2, 0), (7, Some 2, 0)]"
  by code_simp

section \<open>Standings of a battle race\<close>

text \<open>The match points a fixture gives an entry of a group, once both sides are scored.\<close>

definition side_points :: "int \<Rightarrow> int \<Rightarrow> battle_result \<Rightarrow> int list" where
  "side_points G x b =
     (case (br_homeMatchPoints b, br_awayMatchPoints b, br_homeEntryId b, br_awayEntryId b) of
        (Some hp, Some ap, Some home, Some away) \<Rightarrow>
          if br_groupId b = G then (if home = x then [hp] else []) @ (if away = x then [ap] else []) else []
      | _ \<Rightarrow> [])"

definition counter_of :: "battle_counters \<Rightarrow> int \<Rightarrow> int \<Rightarrow> battle_counter" where
  "counter_of m G x = coalesce (js_get (coalesce (js_get m G) []) x) newCounter"

lemma counter_of_count_battle:
  "counter_of (count_battle m b) G x = foldl (\<lambda>c p. add_match p c) (counter_of m G x) (side_points G x b)"
  by (auto simp: counter_of_def count_battle_def side_points_def Let_def split: option.splits)

lemma counter_of_history:
  "counter_of (foldl count_battle [] history) G x =
     foldl (\<lambda>c p. add_match p c) newCounter (concat (map (side_points G x) history))"
proof -
  have "counter_of (foldl count_battle m history) G x =
      foldl (\<lambda>c p. add_match p c) (counter_of m G x) (concat (map (side_points G x) history))" for m
    by (induction history arbitrary: m) (simp_all add: counter_of_count_battle)
  from this [of "[]"] show ?thesis by (simp add: counter_of_def)
qed

lemma foldl_add_match:
  "foldl (\<lambda>c p. add_match p c) c ps =
     \<lparr>bc_points = bc_points c + sum_list ps, bc_won = bc_won c + int (count_list ps 3),
      bc_drawn = bc_drawn c + int (count_list ps 1),
      bc_lost = bc_lost c + int (length (filter (\<lambda>p. p \<noteq> 3 \<and> p \<noteq> 1) ps))\<rparr>"
  by (induction ps arbitrary: c) (auto simp: add_match_def Let_def)

definition battle_counter_of :: "int list \<Rightarrow> battle_counter" where
  "battle_counter_of ps = \<lparr>bc_points = sum_list ps, bc_won = int (count_list ps 3),
     bc_drawn = int (count_list ps 1), bc_lost = int (length (filter (\<lambda>p. p \<noteq> 3 \<and> p \<noteq> 1) ps))\<rparr>"

lemma counter_of_history_eq:
  "counter_of (foldl count_battle [] history) G x = battle_counter_of (concat (map (side_points G x) history))"
  by (simp add: counter_of_history foldl_add_match battle_counter_of_def newCounter_def)

lemma battle_counter_balance:
  "set ps \<subseteq> {0, 1, 3} \<Longrightarrow> bc_points (battle_counter_of ps) =
     3 * bc_won (battle_counter_of ps) + bc_drawn (battle_counter_of ps)"
  by (induction ps) (auto simp: battle_counter_of_def)

lemma battle_counter_played:
  "bc_won (battle_counter_of ps) + bc_drawn (battle_counter_of ps) + bc_lost (battle_counter_of ps) = int (length ps)"
  by (induction ps) (auto simp: battle_counter_of_def)

text \<open>The parts of \<open>battle_standings\<close>, by name.\<close>

definition bt_horizon :: "tournament_config \<Rightarrow> int \<Rightarrow> battle_result list \<Rightarrow> int" where
  "bt_horizon t e battles = recompute_horizon (the (tc_groupEndedEventId t)) e
     (findMaxEventIdInRange battles (tc_id t) (the (tc_groupStartedEventId t)) (the (tc_groupEndedEventId t)))"

definition bt_history :: "tournament_config \<Rightarrow> int \<Rightarrow> battle_result list \<Rightarrow> battle_result list" where
  "bt_history t e battles = battles_findByTournamentAndEventRange battles (tc_id t)
     (the (tc_groupStartedEventId t)) (bt_horizon t e battles)"

definition bt_points :: "tournament_config \<Rightarrow> int \<Rightarrow> battle_result list \<Rightarrow> tournament_group \<Rightarrow> int list" where
  "bt_points t e battles g = concat (map (side_points (tg_groupId g) (tg_entryId g)) (bt_history t e battles))"

definition bt_result :: "race_env \<Rightarrow> tournament_config \<Rightarrow> int \<Rightarrow> battle_result list \<Rightarrow> int \<Rightarrow> entry_event_result option" where
  "bt_result env t e battles x =
     js_get (result_map (findByEventAndEntryIds (re_results env) (bt_horizon t e battles) (re_entryIds env))) x"

definition bt_update :: "race_env \<Rightarrow> tournament_config \<Rightarrow> int \<Rightarrow> battle_result list \<Rightarrow> tournament_group \<Rightarrow> tournament_group" where
  "bt_update env t e battles g =
     battle_group_update (bt_horizon t e battles - the (tc_groupStartedEventId t) + 1)
       (coalesce (js_get (foldl count_battle [] (bt_history t e battles)) (tg_groupId g)) [])
       (totals_map (aggregateTotalsByEntry (re_results env) (re_entryIds env)
          (the (tc_groupStartedEventId t)) (bt_horizon t e battles)))
       (the (bt_result env t e battles (tg_entryId g))) g"

definition bt_standing :: "race_env \<Rightarrow> tournament_config \<Rightarrow> int \<Rightarrow> battle_result list \<Rightarrow> tournament_group \<Rightarrow> int \<times> int option" where
  "bt_standing env t e battles g = (sum_list (bt_points t e battles g),
     Some (er_overallRank (the (bt_result env t e battles (tg_entryId g)))))"

definition bt_peers ::
  "race_env \<Rightarrow> tournament_config \<Rightarrow> int \<Rightarrow> battle_result list \<Rightarrow> tournament_group list \<Rightarrow> int \<Rightarrow> tournament_group list" where
  "bt_peers env t e battles groups G = filter (\<lambda>g. tg_groupId g = G \<and> bt_result env t e battles (tg_entryId g) \<noteq> None)
     (groups_findByTournamentAndEntries groups (tc_id t) (re_entryIds env))"

definition bt_rank :: "race_env \<Rightarrow> tournament_config \<Rightarrow> int \<Rightarrow> battle_result list \<Rightarrow> tournament_group list \<Rightarrow> tournament_group \<Rightarrow> int" where
  "bt_rank env t e battles groups g = race_rank
     (map (bt_standing env t e battles) (bt_peers env t e battles groups (tg_groupId g))) (bt_standing env t e battles g)"

definition bt_row ::
  "race_env \<Rightarrow> tournament_config \<Rightarrow> int \<Rightarrow> battle_result list \<Rightarrow> tournament_group list \<Rightarrow> tournament_group \<Rightarrow> tournament_group" where
  "bt_row env t e battles groups g =
     apply_rank (tc_groupQualifyNum t) (bt_rank env t e battles groups g) (bt_update env t e battles g)"

lemma bt_update_fields [simp]:
  "tg_tournamentId (bt_update env t e battles g) = tg_tournamentId g"
  "tg_groupId (bt_update env t e battles g) = tg_groupId g"
  "tg_entryId (bt_update env t e battles g) = tg_entryId g"
  "group_key (bt_update env t e battles g) = group_key g"
  "tg_groupPoints (bt_update env t e battles g) = sum_list (bt_points t e battles g)"
  "tg_won (bt_update env t e battles g) = bc_won (battle_counter_of (bt_points t e battles g))"
  "tg_drawn (bt_update env t e battles g) = bc_drawn (battle_counter_of (bt_points t e battles g))"
  "tg_lost (bt_update env t e battles g) = bc_lost (battle_counter_of (bt_points t e battles g))"
  "tg_overallRank (bt_update env t e battles g) =
     Some (er_overallRank (the (bt_result env t e battles (tg_entryId g))))"
  using counter_of_history_eq [of "bt_history t e battles" "tg_groupId g" "tg_entryId g"]
  by (simp_all add: bt_update_def battle_group_update_def Let_def group_key_def counter_of_def bt_points_def
      battle_counter_of_def)

lemma bt_standing_update:
  "(tg_groupPoints (bt_update env t e battles g), tg_overallRank (bt_update env t e battles g)) =
     bt_standing env t e battles g"
  by (simp add: bt_standing_def)

lemma battle_standings_rows:
  "snd (battle_standings env t e battles groups) =
     concat (map (\<lambda>G. map (bt_row env t e battles groups) (bt_peers env t e battles groups G))
       (js_uniq (map br_groupId (bt_history t e battles))))"
proof -
  let ?found = "groups_findByTournamentAndEntries groups (tc_id t) (re_entryIds env)"
  define rows where "rows = battle_group_rows (bt_horizon t e battles - the (tc_groupStartedEventId t) + 1)
    (foldl count_battle [] (bt_history t e battles))
    (totals_map (aggregateTotalsByEntry (re_results env) (re_entryIds env)
       (the (tc_groupStartedEventId t)) (bt_horizon t e battles)))
    (result_map (findByEventAndEntryIds (re_results env) (bt_horizon t e battles) (re_entryIds env)))
    (js_group_by tg_groupId ?found)"
  have rows: "rows G = map (bt_update env t e battles) (bt_peers env t e battles groups G)" for G
    unfolding rows_def battle_group_rows_def js_group_by_coalesce map_filter_def bt_peers_def bt_update_def
      bt_result_def filter_filter
    by (auto intro!: map_cong filter_cong)
  have ranked: "rank_battle_rows (tc_groupQualifyNum t) (rows G) =
      map (bt_row env t e battles groups) (bt_peers env t e battles groups G)" for G
  proof -
    have st: "map (\<lambda>g. (tg_groupPoints g, tg_overallRank g)) (rows G) =
        map (bt_standing env t e battles) (bt_peers env t e battles groups G)"
      unfolding rows map_map comp_def bt_standing_update ..
    have rk: "js_get (rankGroups (map (bt_standing env t e battles) (bt_peers env t e battles groups G)))
        (groupRankKey (tg_groupPoints (bt_update env t e battles g)) (tg_overallRank (bt_update env t e battles g))) =
        Some (bt_rank env t e battles groups g)" if "g \<in> set (bt_peers env t e battles groups G)" for g
    proof -
      have "tg_groupId g = G" using that by (simp add: bt_peers_def)
      moreover have "bt_standing env t e battles g \<in> set (map (bt_standing env t e battles) (bt_peers env t e battles groups G))"
        using that by simp
      from rankGroups_get [OF this] show ?thesis
        using bt_standing_update [of env t e battles g] by (simp add: bt_rank_def calculation prod_eq_iff)
    qed
    show ?thesis
      unfolding rank_battle_rows_def Let_def st unfolding rows map_map comp_def
      by (intro map_cong refl) (simp add: rk bt_row_def del: bt_update_fields)
  qed
  show ?thesis
    unfolding battle_standings_def Let_def bt_horizon_def [symmetric] bt_history_def [symmetric]
      rows_def [symmetric] snd_conv ranked ..
qed

section \<open>Re-running a battle race\<close>

lemma battle_merge_score:
  assumes "score_battle em b = Some s"
  shows "\<exists>s'. score_battle em (battle_merge s b) = Some s' \<and> battle_merge s' (battle_merge s b) = battle_merge s b"
    and "battle_key s = battle_key b"
  using assms by (auto simp: score_battle_def battle_merge_def battle_key_def split: option.splits)

lemma score_battle_merge:
  "score_battle em (battle_merge s b) = None \<longleftrightarrow> score_battle em b = None"
  by (auto simp: score_battle_def battle_merge_def split: option.splits)

lemma battle_fields_merge [simp]:
  "br_tournamentId (battle_merge s b) = br_tournamentId b" "br_eventId (battle_merge s b) = br_eventId b"
  by (simp_all add: battle_merge_def)

definition scored_battles :: "(int, entry_event_result) js_map \<Rightarrow> int \<Rightarrow> int \<Rightarrow> battle_result list \<Rightarrow> battle_result list" where
  "scored_battles em tid e battles = List.map_filter (score_battle em) (battles_findByTournamentAndEvent battles tid e)"

lemma set_scored_battles:
  "s \<in> set (scored_battles em tid e battles) \<longleftrightarrow>
     (\<exists>b \<in> set battles. br_tournamentId b = tid \<and> br_eventId b = e \<and> score_battle em b = Some s)"
  by (force simp: scored_battles_def battles_findByTournamentAndEvent_def map_filter_def)

lemma scored_battles_distinct:
  assumes "distinct (map battle_key battles)"
  shows "distinct (map battle_key (scored_battles em tid e battles))"
proof -
  let ?found = "filter (\<lambda>x. \<exists>s. score_battle em x = Some s) (battles_findByTournamentAndEvent battles tid e)"
  have "map battle_key (scored_battles em tid e battles) = map battle_key ?found"
    unfolding scored_battles_def map_filter_def using battle_merge_score(2) by auto
  moreover have "distinct (map battle_key ?found)"
    using assms by (simp add: battles_findByTournamentAndEvent_def distinct_map_filter)
  ultimately show ?thesis by simp
qed

lemma scored_battles_again:
  assumes dist: "distinct (map battle_key battles)"
    and b1: "battles1 = battles_upsertBatch (scored_battles em tid e battles) battles"
  shows "battles_upsertBatch (scored_battles em tid e battles1) battles1 = battles1"
proof -
  note sdist = scored_battles_distinct [OF dist, of em tid e]
  have known: "\<forall>s \<in> set (scored_battles em tid e battles). battle_key s \<in> battle_key ` set battles"
    using battle_merge_score(2) by (fastforce simp: set_scored_battles)
  have dist1: "distinct (map battle_key battles1)"
    unfolding b1 battles_upsertBatch_def by (rule battles.distinct_upsert_batch [OF dist])
  have same: "battle_merge s t = t"
    if b: "b \<in> set battles1" "br_tournamentId b = tid" "br_eventId b = e" "score_battle em b = Some s"
      and t: "t \<in> set battles1" "battle_key t = battle_key s" for b s t
  proof -
    have "t = b" using b(1) t battle_merge_score(2) [OF b(4)] lookup_in_set [OF dist1] by (metis option.inject)
    obtain b0 where b0: "b0 \<in> set battles" "battle_key b0 = battle_key b"
        "b = (case lookup battle_key (scored_battles em tid e battles) (battle_key b0) of None \<Rightarrow> b0 | Some r \<Rightarrow> battle_merge r b0)"
      using battles.upsert_batch_row [OF dist sdist known] b(1) unfolding b1 battles_upsertBatch_def by blast
    have ev: "br_tournamentId b0 = tid" "br_eventId b0 = e"
      using b(2,3) b0(2) by (simp_all add: battle_key_def)
    have "score_battle em b = None \<longleftrightarrow> score_battle em b0 = None"
      by (subst b0(3)) (simp only: score_battle_merge split: option.splits, simp)
    with b(4) have "score_battle em b0 \<noteq> None" by (metis option.distinct(1))
    then obtain s0 where s0: "score_battle em b0 = Some s0" by blast
    then have "s0 \<in> set (scored_battles em tid e battles)" using b0(1) ev by (auto simp: set_scored_battles)
    then have "lookup battle_key (scored_battles em tid e battles) (battle_key b0) = Some s0"
      using lookup_in_set [OF sdist] battle_merge_score(2) [OF s0] by metis
    with b0(3) have "b = battle_merge s0 b0" by simp
    with battle_merge_score(1) [OF s0] b(4) \<open>t = b\<close> show ?thesis by auto
  qed
  have "\<forall>r \<in> set (scored_battles em tid e battles1). battle_key r \<in> battle_key ` set battles1 \<and>
      (\<forall>t \<in> set battles1. battle_key t = battle_key r \<longrightarrow> battle_merge r t = t)"
    using same battle_merge_score(2) by (fastforce simp: set_scored_battles)
  then show ?thesis unfolding battles_upsertBatch_def by (rule battles.upsert_batch_same)
qed

lemma bt_standing_key:
  "group_key g = group_key h \<Longrightarrow> bt_standing env t e battles g = bt_standing env t e battles h"
  by (simp add: bt_standing_def bt_points_def group_key_def)

lemma bt_update_again:
  assumes "group_key g = group_key g0"
    and "g = apply_rank q k (bt_update env t e battles g0)"
  shows "apply_rank q k (bt_update env t e battles g) = g"
proof -
  have "bt_update env t e battles g = g"
    using assms by (simp add: bt_update_def battle_group_update_def apply_rank_def group_key_def Let_def)
  then show ?thesis
    unfolding assms(2) by (simp add: apply_rank_def Let_def)
qed

lemma bt_peers_mset:
  "mset (bt_peers env t e battles groups G) = mset (filter (\<lambda>g. tg_groupId g = G \<and>
     bt_result env t e battles (tg_entryId g) \<noteq> None \<and> tg_tournamentId g = tc_id t \<and>
     tg_entryId g \<in> set (re_entryIds env)) groups)"
  unfolding bt_peers_def mset_filter mset_groups_find
  by (simp add: filter_filter_mset conj_commute conj_left_commute)

lemma bt_rank_same_keys:
  assumes "map group_key groups' = map group_key groups" "group_key g = group_key g0"
  shows "bt_rank env t e battles groups' g = bt_rank env t e battles groups g0"
proof -
  let ?Q = "\<lambda>G k. fst (snd k) = G \<and> bt_result env t e battles (snd (snd k)) \<noteq> None \<and> fst k = tc_id t \<and>
      snd (snd k) \<in> set (re_entryIds env)"
  let ?st = "\<lambda>k :: int \<times> int \<times> int. (sum_list (concat (map (side_points (fst (snd k)) (snd (snd k))) (bt_history t e battles))),
     Some (er_overallRank (the (bt_result env t e battles (snd (snd k))))))"
  have st: "bt_standing env t e battles h = ?st (group_key h)" for h
    by (simp add: bt_standing_def bt_points_def group_key_def)
  have peers: "mset (map (bt_standing env t e battles) (bt_peers env t e battles gs G)) =
      mset (map ?st (filter (?Q G) (map group_key gs)))" for gs G
  proof -
    have "mset (map (bt_standing env t e battles) (bt_peers env t e battles gs G)) =
        image_mset (\<lambda>h. ?st (group_key h)) (mset (filter (\<lambda>h. ?Q G (group_key h)) gs))"
      unfolding mset_map bt_peers_mset st by (simp add: group_key_def)
    also have "\<dots> = mset (map ?st (filter (?Q G) (map group_key gs)))"
      by (simp add: filter_map comp_def image_mset.compositionality)
    finally show ?thesis .
  qed
  have "mset (map (bt_standing env t e battles) (bt_peers env t e battles groups' (tg_groupId g))) =
      mset (map (bt_standing env t e battles) (bt_peers env t e battles groups (tg_groupId g0)))"
    unfolding peers assms(1) using assms(2) by (simp add: group_key_def)
  then show ?thesis
    unfolding bt_rank_def bt_standing_key [OF assms(2)] by (rule race_rank_perm)
qed

lemma bt_row_key [simp]: "group_key (bt_row env t e battles groups g) = group_key g"
  by (simp add: bt_row_def)

lemma set_standings:
  "u \<in> set (snd (battle_standings env t e battles groups)) \<longleftrightarrow>
     (\<exists>g \<in> set groups. tg_tournamentId g = tc_id t \<and> tg_entryId g \<in> set (re_entryIds env) \<and>
        bt_result env t e battles (tg_entryId g) \<noteq> None \<and> tg_groupId g \<in> br_groupId ` set (bt_history t e battles) \<and>
        u = bt_row env t e battles groups g)"
  unfolding battle_standings_rows by (auto simp: bt_peers_def set_groups_find)

lemma standings_distinct:
  assumes "distinct (map group_key groups)"
  shows "distinct (map group_key (snd (battle_standings env t e battles groups)))"
proof -
  let ?ids = "js_uniq (map br_groupId (bt_history t e battles))"
  let ?p = "bt_peers env t e battles groups"
  have keys: "map group_key (snd (battle_standings env t e battles groups)) = concat (map (\<lambda>G. map group_key (?p G)) ?ids)"
    unfolding battle_standings_rows by (simp add: map_concat comp_def)
  have peers: "distinct (map group_key (?p G))" for G
    unfolding bt_peers_def by (intro distinct_map_filter distinct_groups_find assms)
  have group: "fst (snd k) = G" if "k \<in> set (map group_key (?p G))" for k G
    using that by (auto simp: bt_peers_def group_key_def)
  have "distinct ids \<Longrightarrow> distinct (concat (map (\<lambda>G. map group_key (?p G)) ids))" for ids
  proof (induction ids)
    case (Cons G ids)
    have "set (map group_key (?p G)) \<inter> set (concat (map (\<lambda>G. map group_key (?p G)) ids)) = {}"
    proof (rule equals0I)
      fix k assume k: "k \<in> set (map group_key (?p G)) \<inter> set (concat (map (\<lambda>G. map group_key (?p G)) ids))"
      then obtain G' where "G' \<in> set ids" "k \<in> set (map group_key (?p G'))" by auto
      with group [of k G] group [of k G'] k Cons.prems show False by auto
    qed
    with Cons peers show ?case by simp
  qed simp
  then show ?thesis unfolding keys by simp
qed

lemma standings_again:
  assumes dist: "distinct (map group_key groups)"
    and g1: "groups1 = groups_upsertBatch (snd (battle_standings env t e battles groups)) groups"
  shows "groups_upsertBatch (snd (battle_standings env t e battles groups1)) groups1 = groups1"
proof -
  let ?ups = "snd (battle_standings env t e battles groups)"
  note udist = standings_distinct [OF dist, of env t e battles]
  have known: "\<forall>u \<in> set ?ups. group_key u \<in> group_key ` set groups" by (auto simp: set_standings)
  have dist1: "distinct (map group_key groups1)"
    unfolding g1 groups_upsertBatch_def by (rule groups.distinct_upsert_batch [OF dist])
  have keys: "map group_key groups1 = map group_key groups"
    unfolding g1 groups_upsertBatch_def by (rule groups.upsert_batch_known [OF known groups.merge_key])
  have stored: "bt_row env t e battles groups1 g = g"
    if g: "g \<in> set groups1" "tg_tournamentId g = tc_id t" "tg_entryId g \<in> set (re_entryIds env)"
      "bt_result env t e battles (tg_entryId g) \<noteq> None" "tg_groupId g \<in> br_groupId ` set (bt_history t e battles)" for g
  proof -
    obtain g0 where g0: "g0 \<in> set groups" "group_key g0 = group_key g"
        "g = (case lookup group_key ?ups (group_key g0) of None \<Rightarrow> g0 | Some r \<Rightarrow> group_merge r g0)"
      using groups.upsert_batch_row [OF dist udist known] g(1) unfolding g1 groups_upsertBatch_def by blast
    have same: "tg_tournamentId g0 = tg_tournamentId g" "tg_groupId g0 = tg_groupId g" "tg_entryId g0 = tg_entryId g"
      using g0(2) by (simp_all add: group_key_def)
    have "bt_row env t e battles groups g0 \<in> set ?ups" using g0(1) g same by (auto simp: set_standings)
    then have "lookup group_key ?ups (group_key g0) = Some (bt_row env t e battles groups g0)"
      using lookup_in_set [OF udist] bt_row_key by metis
    moreover have "group_merge u g0 = u" if "group_key u = group_key g0" for u
      using that by (simp add: group_merge_def group_key_def)
    ultimately have g_eq: "g = bt_row env t e battles groups g0" using g0(3) by simp
    have "bt_rank env t e battles groups1 g = bt_rank env t e battles groups g0"
      by (rule bt_rank_same_keys [OF keys g0(2) [symmetric]])
    then show ?thesis
      unfolding bt_row_def by (simp only:) (rule bt_update_again [OF g0(2) [symmetric] g_eq [unfolded bt_row_def]])
  qed
  have "group_merge u g = g" if u: "u \<in> set (snd (battle_standings env t e battles groups1))"
      and g: "g \<in> set groups1" "group_key g = group_key u" for u g
  proof -
    obtain h where h: "h \<in> set groups1" "u = bt_row env t e battles groups1 h" "bt_row env t e battles groups1 h = h"
      using u stored unfolding set_standings by blast
    then have "g = u" using g lookup_in_set [OF dist1] by (metis option.inject)
    then show ?thesis by (simp add: group_merge_def)
  qed
  moreover have "group_key u \<in> group_key ` set groups1" if "u \<in> set (snd (battle_standings env t e battles groups1))" for u
    using that by (auto simp: set_standings)
  ultimately show ?thesis unfolding groups_upsertBatch_def by (intro groups.upsert_batch_same) blast
qed

text \<open>
  A battle-race sync is idempotent: running it again on what it left, with the same entry
  results, changes neither the fixtures nor the standings.
\<close>

lemma battle_race_again:
  assumes "distinct (map group_key (fst db))" "distinct (map battle_key (snd db))"
    and "db' = snd (syncTournamentBattleRaceResultsForTournament env t e db)"
  shows "snd (syncTournamentBattleRaceResultsForTournament env t e db') = db'"
proof -
  let ?em = "result_map (findByEventAndEntryIds (re_results env) e (re_entryIds env))"
  let ?b1 = "battles_upsertBatch (scored_battles ?em (tc_id t) e (snd db)) (snd db)"
  let ?g1 = "groups_upsertBatch (snd (battle_standings env t e ?b1 (fst db))) (fst db)"
  define go where "go \<longleftrightarrow> truthy (tc_groupStartedEventId t) \<and> truthy (tc_groupEndedEventId t) \<and> re_entryIds env \<noteq> [] \<and>
    findByEventAndEntryIds (re_results env) e (re_entryIds env) \<noteq> []"
  have run: "snd (syncTournamentBattleRaceResultsForTournament env t e (gs, bs)) =
      (if go \<and> battles_findByTournamentAndEvent bs (tc_id t) e \<noteq> [] then
         (let b1 = battles_upsertBatch (scored_battles ?em (tc_id t) e bs) bs in
          (groups_upsertBatch (snd (battle_standings env t e b1 gs)) gs, b1))
       else (gs, bs))" for gs bs
    by (auto simp: syncTournamentBattleRaceResultsForTournament_def Let_def go_def scored_battles_def)
  show ?thesis
  proof (cases "go \<and> battles_findByTournamentAndEvent (snd db) (tc_id t) e \<noteq> []")
    case True
    then have db': "db' = (?g1, ?b1)" using assms(3) run [of "fst db" "snd db"] by (simp add: Let_def)
    show ?thesis
      unfolding db' run scored_battles_again [OF assms(2) refl] Let_def standings_again [OF assms(1) refl] by simp
  next
    case False
    then have "db' = db" using assms(3) run [of "fst db" "snd db"] by auto
    with False show ?thesis using run [of "fst db" "snd db"] by auto
  qed
qed

lemma side_points_range:
  assumes "\<forall>b \<in> set battles. br_homeMatchPoints b \<in> {None, Some 0, Some 1, Some 3} \<and>
      br_awayMatchPoints b \<in> {None, Some 0, Some 1, Some 3}"
  shows "set (bt_points t e battles g) \<subseteq> {0, 1, 3}"
  using assms unfolding bt_points_def bt_history_def battles_findByTournamentAndEventRange_def side_points_def
  by (fastforce split: option.splits if_splits)

text \<open>
  Battle-race standings are recounted from all scored fixtures of the group window: after a
  sync, a member's points are three per win and one per draw, its wins, draws and losses add up
  to its scored fixtures, and its rank is the number of members that are not worse on points and
  overall rank.
\<close>

lemma battle_race_row:
  assumes dist: "distinct (map group_key (fst db))"
    and go: "truthy (tc_groupStartedEventId t)" "truthy (tc_groupEndedEventId t)"
      "findByEventAndEntryIds (re_results env) e (re_entryIds env) \<noteq> []"
      "battles_findByTournamentAndEvent (snd db) (tc_id t) e \<noteq> []"
    and db': "snd (syncTournamentBattleRaceResultsForTournament env t e db) = (groups', battles')"
    and pts: "\<forall>b \<in> set battles'. br_homeMatchPoints b \<in> {None, Some 0, Some 1, Some 3} \<and>
      br_awayMatchPoints b \<in> {None, Some 0, Some 1, Some 3}"
    and g: "g \<in> set (fst db)" "tg_tournamentId g = tc_id t" "tg_entryId g \<in> set (re_entryIds env)"
      "bt_result env t e battles' (tg_entryId g) \<noteq> None" "tg_groupId g \<in> br_groupId ` set (bt_history t e battles')"
  shows "\<exists>u. lookup group_key groups' (group_key g) = Some u \<and>
    tg_groupPoints u = sum_list (bt_points t e battles' g) \<and>
    tg_groupPoints u = 3 * tg_won u + tg_drawn u \<and>
    tg_won u + tg_drawn u + tg_lost u = int (length (bt_points t e battles' g)) \<and>
    tg_groupRank u = Some (bt_rank env t e battles' (fst db) g)"
proof -
  let ?u = "bt_row env t e battles' (fst db) g"
  have "re_entryIds env \<noteq> []" using g(3) by auto
  with go db' have out: "groups' = groups_upsertBatch (snd (battle_standings env t e battles' (fst db))) (fst db)"
    by (auto simp: syncTournamentBattleRaceResultsForTournament_def Let_def)
  have "?u \<in> set (snd (battle_standings env t e battles' (fst db)))" using g by (auto simp: set_standings)
  then have "lookup group_key (snd (battle_standings env t e battles' (fst db))) (group_key g) = Some ?u"
    using lookup_in_set [OF standings_distinct [OF dist]] bt_row_key by metis
  then have "lookup group_key groups' (group_key g) = Some (group_merge ?u g)"
    unfolding out groups_upsertBatch_def groups.lookup_upsert_batch [OF standings_distinct [OF dist]]
      lookup_in_set [OF dist g(1)] by simp
  moreover have "group_merge ?u g = ?u" by (simp add: group_merge_def bt_row_def)
  ultimately show ?thesis
    using battle_counter_balance [OF side_points_range [OF pts, of t e g]]
      battle_counter_played [of "bt_points t e battles' g"]
    by (simp add: bt_row_def) (simp add: battle_counter_of_def)
qed


definition example_battle :: battle_result where
  "example_battle = \<lparr>br_tournamentId = 1, br_groupId = 1, br_eventId = 2, br_homeIndex = 1, br_homeEntryId = Some 5,
     br_homeNetPoints = None, br_homeRank = None, br_homeMatchPoints = None, br_awayIndex = 2,
     br_awayEntryId = Some 6, br_awayNetPoints = None, br_awayRank = None, br_awayMatchPoints = None,
     br_officialMatchId = None\<rparr>"

definition example_scored_battle :: battle_result where
  "example_scored_battle = example_battle\<lparr>br_homeNetPoints := Some 40, br_homeMatchPoints := Some 0,
     br_awayNetPoints := Some 45, br_awayMatchPoints := Some 3\<rparr>"

lemma example_battle_run:
  "syncTournamentBattleRaceResultsForTournament example_race_env example_config 2
     (map example_group [5, 6], [example_battle]) =
   (race_counts_of 2 1 0,
    [(example_group 5)\<lparr>tg_groupRank := Some 2, tg_played := 2, tg_lost := 1, tg_totalPoints := 40,
        tg_totalNetPoints := 40, tg_overallRank := Some 0, tg_qualified := 1\<rparr>,
     (example_group 6)\<lparr>tg_groupPoints := 3, tg_groupRank := Some 1, tg_played := 2, tg_won := 1, tg_totalPoints := 45,
        tg_totalNetPoints := 45, tg_overallRank := Some 0, tg_qualified := 1\<rparr>], [example_scored_battle])"
  by code_simp


end
