(* ===== verification/FplAdmission.thy ===== *)
theory FplAdmission
  imports JsPrelude Complex_Main
begin

text \<open>
  Admission control for requests to the FPL provider (\<open>src/src/utils/fpl-admission.ts\<close>). All
  processes share one Redis state: a lease per running request, counters of the leases by
  priority, an adaptive limit for bulk requests and a token bucket. The three Lua scripts are
  atomic, so each is one function on that state; the state machine \<open>admission_step\<close> interleaves
  them at Redis server times that do not run backwards. The local scheduler, which replaces
  Redis in tests, is modelled after it.

  Redis numbers are doubles; token amounts are rationals here, so rounding is not modelled.
\<close>

section \<open>Configuration and state\<close>

datatype fpl_request_priority = Live | Bulk

record admission_config =
  ac_maxInflight :: int
  ac_bulkMaxInflight :: int
  ac_requestsPerSecond :: int
  ac_leaseMs :: int

text \<open>The module constants, from the three environment variables when they hold integers.\<close>

definition admission_config_of :: "int option \<Rightarrow> int option \<Rightarrow> int option \<Rightarrow> admission_config" where
  "admission_config_of maxInflightEnv requestsPerSecondEnv leaseMsEnv =
     (let maxInflight = min 5 (max 1 (coalesce maxInflightEnv 5)) in
      \<lparr>ac_maxInflight = maxInflight,
       ac_bulkMaxInflight = max 1 (min (maxInflight - min 2 maxInflight) 3),
       ac_requestsPerSecond = min 4 (max 1 (coalesce requestsPerSecondEnv 4)),
       ac_leaseMs = max 5000 (coalesce leaseMsEnv 45000)\<rparr>)"

text \<open>
  The state hash, the sorted set of lease deadlines, the lease keys with their own expiry and
  the hash of lease priorities. An absent counter reads as 0 and is incremented from 0, so the
  counters are plain integers; the other fields keep the difference.
\<close>

record admission =
  ad_inflight :: int
  ad_live :: int
  ad_bulk :: int
  ad_bulkLimit :: "int option"
  ad_lastBulkErrorMs :: int
  ad_lastRefillMs :: "int option"
  ad_tokens :: "rat option"
  ad_leases :: "(string \<times> int) list"
  ad_leaseKeys :: "(string \<times> fpl_request_priority \<times> int) list"
  ad_meta :: "(string, fpl_request_priority) js_map"

definition empty_admission :: admission where
  "empty_admission = \<lparr>ad_inflight = 0, ad_live = 0, ad_bulk = 0, ad_bulkLimit = None,
     ad_lastBulkErrorMs = 0, ad_lastRefillMs = None, ad_tokens = None, ad_leases = [],
     ad_leaseKeys = [], ad_meta = []\<rparr>"

datatype acquire_result = Wait_capacity | Wait_rate int | Granted string

section \<open>The Lua scripts\<close>

definition decrement :: "fpl_request_priority \<Rightarrow> admission \<Rightarrow> admission" where
  "decrement p st =
     (let st1 = (case p of Live \<Rightarrow> st\<lparr>ad_live := ad_live st - 1\<rparr> | Bulk \<Rightarrow> st\<lparr>ad_bulk := ad_bulk st - 1\<rparr>) in
      st1\<lparr>ad_inflight := ad_inflight st1 - 1\<rparr>)"

definition expire_lease :: "string \<Rightarrow> admission \<Rightarrow> admission" where
  "expire_lease token st =
     (let st1 = (case js_get (ad_meta st) token of None \<Rightarrow> st | Some p \<Rightarrow> decrement p st) in
      st1\<lparr>ad_leaseKeys := AList.delete token (ad_leaseKeys st1),
          ad_meta := AList.delete token (ad_meta st1)\<rparr>)"

definition reap_expired :: "int \<Rightarrow> admission \<Rightarrow> admission" where
  "reap_expired now st =
     (let st1 = fold expire_lease (map fst (filter (\<lambda>l. snd l \<le> now) (ad_leases st))) st in
      st1\<lparr>ad_leases := filter (\<lambda>l. \<not> snd l \<le> now) (ad_leases st1)\<rparr>)"

definition clamp_bulk_limit :: "admission_config \<Rightarrow> admission \<Rightarrow> int \<times> admission" where
  "clamp_bulk_limit cfg st =
     (let configured = ac_bulkMaxInflight cfg; bulkLimit = coalesce (ad_bulkLimit st) configured in
      if bulkLimit > configured then (configured, st\<lparr>ad_bulkLimit := Some configured\<rparr>)
      else (bulkLimit, st))"

definition recover_bulk_limit :: "admission_config \<Rightarrow> int \<Rightarrow> int \<times> admission \<Rightarrow> int \<times> admission" where
  "recover_bulk_limit cfg now = (\<lambda>(bulkLimit, st).
     let configured = ac_bulkMaxInflight cfg; lastError = ad_lastBulkErrorMs st in
     if bulkLimit < configured \<and> lastError > 0 \<and> now - lastError \<ge> 300000
     then (let limit = min configured (bulkLimit + 1) in
           (limit, st\<lparr>ad_bulkLimit := Some limit,
                     ad_lastBulkErrorMs := (if limit < configured then now else 0)\<rparr>))
     else (bulkLimit, st))"

definition refilled :: "admission_config \<Rightarrow> int \<Rightarrow> admission \<Rightarrow> rat" where
  "refilled cfg now st =
     (let rate = of_int (ac_requestsPerSecond cfg);
          lastRefill = coalesce (ad_lastRefillMs st) now;
          tokens = coalesce (ad_tokens st) rate;
          elapsed = max 0 (now - lastRefill)
      in min rate (tokens + of_int elapsed * rate / 1000))"

definition grant_lease :: "admission_config \<Rightarrow> int \<Rightarrow> fpl_request_priority \<Rightarrow> string \<Rightarrow> admission \<Rightarrow> admission" where
  "grant_lease cfg now p token st =
     (let st1 = st\<lparr>ad_inflight := ad_inflight st + 1\<rparr>;
          st2 = (case p of Live \<Rightarrow> st1\<lparr>ad_live := ad_live st1 + 1\<rparr> | Bulk \<Rightarrow> st1\<lparr>ad_bulk := ad_bulk st1 + 1\<rparr>)
      in st2\<lparr>ad_leaseKeys := js_set token (p, now + ac_leaseMs cfg) (ad_leaseKeys st2),
             ad_meta := js_set token p (ad_meta st2),
             ad_leases := js_set token (now + ac_leaseMs cfg) (ad_leases st2)\<rparr>)"

definition acquire_script ::
  "admission_config \<Rightarrow> int \<Rightarrow> fpl_request_priority \<Rightarrow> string \<Rightarrow> admission \<Rightarrow> acquire_result \<times> admission" where
  "acquire_script cfg now p token st =
     (let (bulkLimit, st1) = recover_bulk_limit cfg now (clamp_bulk_limit cfg (reap_expired now st)) in
      if p = Bulk \<and> ad_bulk st1 \<ge> bulkLimit then (Wait_capacity, st1)
      else if ad_inflight st1 \<ge> ac_maxInflight cfg then (Wait_capacity, st1)
      else
        (let tokens = refilled cfg now st1 in
         if tokens < 1
         then (Wait_rate \<lceil>(1 - tokens) * 1000 / of_int (ac_requestsPerSecond cfg)\<rceil>,
               st1\<lparr>ad_tokens := Some tokens, ad_lastRefillMs := Some now, ad_bulkLimit := Some bulkLimit\<rparr>)
         else (Granted token,
               grant_lease cfg now p token
                 (st1\<lparr>ad_tokens := Some (tokens - 1), ad_lastRefillMs := Some now,
                      ad_bulkLimit := Some bulkLimit\<rparr>))))"

definition release_script :: "string \<Rightarrow> admission \<Rightarrow> int \<times> admission" where
  "release_script token st =
     (case js_get (ad_meta st) token of
        None \<Rightarrow> (0, st)
      | Some p \<Rightarrow>
          (1, decrement p (st\<lparr>ad_leaseKeys := AList.delete token (ad_leaseKeys st),
                 ad_meta := AList.delete token (ad_meta st),
                 ad_leases := AList.delete token (ad_leases st)\<rparr>)))"

definition report_script :: "admission_config \<Rightarrow> int \<Rightarrow> int \<Rightarrow> admission \<Rightarrow> int \<times> admission" where
  "report_script cfg now status st =
     (let configured = ac_bulkMaxInflight cfg; limit = coalesce (ad_bulkLimit st) configured in
      if status = 429 \<or> status \<ge> 500 then
        (let limit1 = max 1 (limit - 1) in
         (limit1, st\<lparr>ad_bulkLimit := Some limit1, ad_lastBulkErrorMs := now\<rparr>))
      else if limit < configured then
        (let last = ad_lastBulkErrorMs st in
         if last > 0 \<and> now - last \<ge> 300000
         then (let limit1 = min configured (limit + 1) in
               (limit1, st\<lparr>ad_bulkLimit := Some limit1,
                          ad_lastBulkErrorMs := (if limit1 < configured then now else 0)\<rparr>))
         else (limit, st))
      else (limit, st))"

text \<open>\<open>distributedAcquire\<close> sleeps between attempts, bounded on both sides.\<close>

definition retry_delay :: "acquire_result \<Rightarrow> int" where
  "retry_delay r = max 10 (min 1000 (case r of Wait_rate w \<Rightarrow> w | _ \<Rightarrow> 100))"

text \<open>\<open>reportFplResponse\<close> in the distributed mode: only bulk responses are reported.\<close>

definition reportFplResponse ::
  "admission_config \<Rightarrow> int \<Rightarrow> fpl_request_priority \<Rightarrow> int option \<Rightarrow> admission \<Rightarrow> admission" where
  "reportFplResponse cfg now p status st =
     (if p \<noteq> Bulk then st else snd (report_script cfg now (coalesce status 0) st))"

section \<open>The shared state machine\<close>

text \<open>
  \<open>admission_run cfg t st n t' st'\<close>: from the state \<open>st\<close> at time \<open>t\<close> some interleaving of the
  processes reaches \<open>st'\<close> at time \<open>t'\<close> and grants \<open>n\<close> requests. Each request draws a fresh
  identifier.
\<close>

inductive admission_run ::
  "admission_config \<Rightarrow> int \<Rightarrow> admission \<Rightarrow> nat \<Rightarrow> int \<Rightarrow> admission \<Rightarrow> bool" for cfg t0 st0 where
  start: "admission_run cfg t0 st0 0 t0 st0"
| granted: "admission_run cfg t0 st0 n t st \<Longrightarrow> t \<le> t' \<Longrightarrow> token \<notin> fst ` set (ad_leases st) \<Longrightarrow>
    acquire_script cfg t' p token st = (Granted g, st') \<Longrightarrow> admission_run cfg t0 st0 (Suc n) t' st'"
| refused: "admission_run cfg t0 st0 n t st \<Longrightarrow> t \<le> t' \<Longrightarrow>
    acquire_script cfg t' p token st = (r, st') \<Longrightarrow> \<forall>g. r \<noteq> Granted g \<Longrightarrow> admission_run cfg t0 st0 n t' st'"
| released: "admission_run cfg t0 st0 n t st \<Longrightarrow> t \<le> t' \<Longrightarrow>
    release_script token st = (d, st') \<Longrightarrow> admission_run cfg t0 st0 n t' st'"
| reported: "admission_run cfg t0 st0 n t st \<Longrightarrow> t \<le> t' \<Longrightarrow>
    admission_run cfg t0 st0 n t' (reportFplResponse cfg t' p status st)"

section \<open>The local scheduler\<close>

text \<open>
  The module state of the local mode. A waiter and a running request carry the number of the
  request; \<open>lo_running\<close> lists the requests whose release closure has not been called yet.
\<close>

record local_scheduler =
  lo_inflight :: int
  lo_live :: int
  lo_bulk :: int
  lo_bulkLimit :: int
  lo_lastError :: int
  lo_waiters :: "(nat \<times> fpl_request_priority) list"
  lo_running :: "(nat \<times> fpl_request_priority) list"

definition resetFplAdmissionForTests :: "admission_config \<Rightarrow> local_scheduler" where
  "resetFplAdmissionForTests cfg = \<lparr>lo_inflight = 0, lo_live = 0, lo_bulk = 0,
     lo_bulkLimit = ac_bulkMaxInflight cfg, lo_lastError = 0, lo_waiters = [], lo_running = []\<rparr>"

definition localCanStart :: "admission_config \<Rightarrow> local_scheduler \<Rightarrow> fpl_request_priority \<Rightarrow> bool" where
  "localCanStart cfg st p =
     (if lo_inflight st \<ge> ac_maxInflight cfg then False
      else if p = Bulk \<and> lo_bulk st \<ge> lo_bulkLimit st then False
      else True)"

definition local_start :: "nat \<times> fpl_request_priority \<Rightarrow> local_scheduler \<Rightarrow> local_scheduler" where
  "local_start w st =
     (let st1 = st\<lparr>lo_inflight := lo_inflight st + 1, lo_running := lo_running st @ [w]\<rparr> in
      case snd w of Live \<Rightarrow> st1\<lparr>lo_live := lo_live st1 + 1\<rparr> | Bulk \<Rightarrow> st1\<lparr>lo_bulk := lo_bulk st1 + 1\<rparr>)"

text \<open>The waiter \<open>localDrain\<close> selects: the first live one, otherwise the first one.\<close>

definition next_waiter :: "(nat \<times> fpl_request_priority) list \<Rightarrow> nat \<times> fpl_request_priority" where
  "next_waiter ws = (case List.find (\<lambda>w. snd w = Live) ws of Some w \<Rightarrow> w | None \<Rightarrow> hd ws)"

lemma next_waiter_in: "ws \<noteq> [] \<Longrightarrow> next_waiter ws \<in> set ws"
  by (auto simp: next_waiter_def find_Some_iff split: option.splits)

lemma local_start_sel [simp]:
  "lo_inflight (local_start w st) = lo_inflight st + 1"
  "lo_live (local_start w st) = lo_live st + (if snd w = Live then 1 else 0)"
  "lo_bulk (local_start w st) = lo_bulk st + (if snd w = Bulk then 1 else 0)"
  "lo_running (local_start w st) = lo_running st @ [w]"
  "lo_waiters (local_start w st) = lo_waiters st"
  "lo_bulkLimit (local_start w st) = lo_bulkLimit st"
  by (simp_all add: local_start_def Let_def split: fpl_request_priority.splits)

function localDrain :: "admission_config \<Rightarrow> local_scheduler \<Rightarrow> local_scheduler" where
  "localDrain cfg st =
     (if lo_waiters st = [] then st
      else
        (let selected = next_waiter (lo_waiters st) in
         if \<not> localCanStart cfg st (snd selected) then st
         else localDrain cfg (local_start selected (st\<lparr>lo_waiters := remove1 selected (lo_waiters st)\<rparr>))))"
  by auto
termination
  by (relation "measure (\<lambda>(cfg, st). length (lo_waiters st))")
    (auto simp: length_remove1 next_waiter_in)

declare localDrain.simps [simp del]

definition localAcquire :: "admission_config \<Rightarrow> nat \<times> fpl_request_priority \<Rightarrow> local_scheduler \<Rightarrow> local_scheduler" where
  "localAcquire cfg w st =
     (if \<not> localCanStart cfg st (snd w) then st\<lparr>lo_waiters := lo_waiters st @ [w]\<rparr>
      else local_start w st)"

text \<open>The release closure; a second call does nothing.\<close>

definition local_release :: "admission_config \<Rightarrow> nat \<times> fpl_request_priority \<Rightarrow> local_scheduler \<Rightarrow> local_scheduler" where
  "local_release cfg w st =
     (if w \<notin> set (lo_running st) then st
      else
        (let st1 = st\<lparr>lo_inflight := lo_inflight st - 1, lo_running := remove1 w (lo_running st)\<rparr>;
             st2 = (case snd w of Live \<Rightarrow> st1\<lparr>lo_live := lo_live st1 - 1\<rparr> | Bulk \<Rightarrow> st1\<lparr>lo_bulk := lo_bulk st1 - 1\<rparr>)
         in localDrain cfg st2))"

definition local_report :: "admission_config \<Rightarrow> fpl_request_priority \<Rightarrow> int option \<Rightarrow> int \<Rightarrow> local_scheduler \<Rightarrow> local_scheduler" where
  "local_report cfg p status now st =
     (if p \<noteq> Bulk then st
      else if status = Some 429 \<or> (status \<noteq> None \<and> the status \<ge> 500)
      then st\<lparr>lo_bulkLimit := max 1 (lo_bulkLimit st - 1), lo_lastError := now\<rparr>
      else if lo_bulkLimit st < ac_bulkMaxInflight cfg \<and> lo_lastError st \<noteq> 0 \<and> now - lo_lastError st \<ge> 300000
      then (let limit = lo_bulkLimit st + 1 in
            st\<lparr>lo_bulkLimit := limit, lo_lastError := (if limit < ac_bulkMaxInflight cfg then now else 0)\<rparr>)
      else st)"

datatype local_call =
    Acquire_call "nat \<times> fpl_request_priority"
  | Release_call "nat \<times> fpl_request_priority"
  | Report_call fpl_request_priority "int option" int

fun local_step :: "admission_config \<Rightarrow> local_call \<Rightarrow> local_scheduler \<Rightarrow> local_scheduler" where
  "local_step cfg (Acquire_call w) st = localAcquire cfg w st"
| "local_step cfg (Release_call w) st = local_release cfg w st"
| "local_step cfg (Report_call p status now) st = local_report cfg p status now st"

section \<open>Invariant\<close>

definition priority_count :: "fpl_request_priority \<Rightarrow> (string, fpl_request_priority) js_map \<Rightarrow> int" where
  "priority_count p m = int (length (filter (\<lambda>x. snd x = p) m))"

text \<open>The counters count the leases, and every lease has exactly one priority.\<close>

definition leases_ok :: "admission \<Rightarrow> bool" where
  "leases_ok st \<longleftrightarrow>
     distinct (map fst (ad_leases st)) \<and> distinct (map fst (ad_meta st)) \<and>
     fst ` set (ad_meta st) = fst ` set (ad_leases st) \<and>
     ad_live st = priority_count Live (ad_meta st) \<and> ad_bulk st = priority_count Bulk (ad_meta st) \<and>
     ad_inflight st = ad_live st + ad_bulk st"

definition limit_ok :: "admission_config \<Rightarrow> admission \<Rightarrow> bool" where
  "limit_ok cfg st \<longleftrightarrow> (\<forall>l. ad_bulkLimit st = Some l \<longrightarrow> 1 \<le> l \<and> l \<le> ac_bulkMaxInflight cfg)"

definition bucket_ok :: "admission_config \<Rightarrow> int \<Rightarrow> admission \<Rightarrow> bool" where
  "bucket_ok cfg now st \<longleftrightarrow>
     (case (ad_tokens st, ad_lastRefillMs st) of
        (None, None) \<Rightarrow> True
      | (Some k, Some r) \<Rightarrow> 0 \<le> k \<and> k \<le> of_int (ac_requestsPerSecond cfg) \<and> r \<le> now
      | _ \<Rightarrow> False)"

definition admission_inv :: "admission_config \<Rightarrow> int \<Rightarrow> admission \<Rightarrow> bool" where
  "admission_inv cfg now st \<longleftrightarrow> leases_ok st \<and> limit_ok cfg st \<and> bucket_ok cfg now st \<and>
     ad_inflight st \<le> ac_maxInflight cfg \<and> ad_bulk st \<le> ac_bulkMaxInflight cfg"

definition config_ok :: "admission_config \<Rightarrow> bool" where
  "config_ok cfg \<longleftrightarrow> 1 \<le> ac_maxInflight cfg \<and> 1 \<le> ac_bulkMaxInflight cfg \<and>
     1 \<le> ac_requestsPerSecond cfg \<and> 0 < ac_leaseMs cfg"

lemma admission_config_of_ok: "config_ok (admission_config_of a b c)"
  by (simp add: config_ok_def admission_config_of_def Let_def)

lemma priority_count_nonneg [simp]: "0 \<le> priority_count p m"
  by (simp add: priority_count_def)

lemma priority_count_delete:
  "distinct (map fst m) \<Longrightarrow> js_get m k = Some q \<Longrightarrow>
   priority_count p (AList.delete k m) = priority_count p m - (if p = q then 1 else 0)"
proof (induction m)
  case (Cons x m)
  show ?case
  proof (cases "fst x = k")
    case True
    then have "AList.delete k m = m" using Cons.prems by (intro delete_id) (auto simp: image_iff)
    with True Cons.prems show ?thesis by (cases x) (auto simp: priority_count_def AList.delete_eq)
  next
    case False
    with Cons.prems have "priority_count p (AList.delete k m) = priority_count p m - (if p = q then 1 else 0)"
      by (intro Cons.IH) (cases x, auto)+
    with False show ?thesis by (cases x) (auto simp: priority_count_def AList.delete_eq split: if_splits)
  qed
qed simp

lemma js_set_fresh: "k \<notin> fst ` set m \<Longrightarrow> js_set k v m = m @ [(k, v)]"
  by (induction m) auto

section \<open>The scripts keep the invariant\<close>

definition meta_ok :: "admission \<Rightarrow> bool" where
  "meta_ok st \<longleftrightarrow> distinct (map fst (ad_meta st)) \<and> ad_live st = priority_count Live (ad_meta st) \<and>
     ad_bulk st = priority_count Bulk (ad_meta st) \<and> ad_inflight st = ad_live st + ad_bulk st"

lemma leases_ok_meta:
  "leases_ok st \<longleftrightarrow> meta_ok st \<and> distinct (map fst (ad_leases st)) \<and>
     fst ` set (ad_meta st) = fst ` set (ad_leases st)"
  by (auto simp: leases_ok_def meta_ok_def)

text \<open>The rest of the state hash, which the lease bookkeeping does not touch.\<close>

definition ad_rest :: "admission \<Rightarrow> int option \<times> int \<times> int option \<times> rat option" where
  "ad_rest st = (ad_bulkLimit st, ad_lastBulkErrorMs st, ad_lastRefillMs st, ad_tokens st)"

lemma decrement_sel [simp]:
  "ad_meta (decrement p st) = ad_meta st" "ad_leases (decrement p st) = ad_leases st"
  "ad_rest (decrement p st) = ad_rest st"
  "ad_live (decrement p st) = ad_live st - (if p = Live then 1 else 0)"
  "ad_bulk (decrement p st) = ad_bulk st - (if p = Bulk then 1 else 0)"
  "ad_inflight (decrement p st) = ad_inflight st - 1"
  by (simp_all add: decrement_def ad_rest_def Let_def split: fpl_request_priority.splits)

lemma keys_delete: "fst ` set (AList.delete k m) = fst ` set m - {k}"
  by (auto simp: AList.delete_eq)

lemma priority_not [simp]: "p \<noteq> Live \<longleftrightarrow> p = Bulk" "p \<noteq> Bulk \<longleftrightarrow> p = Live"
  by (cases p; simp)+

lemma expire_lease_ok:
  assumes "meta_ok st"
  shows "meta_ok (expire_lease token st) \<and> ad_leases (expire_lease token st) = ad_leases st \<and>
    ad_rest (expire_lease token st) = ad_rest st \<and>
    fst ` set (ad_meta (expire_lease token st)) = fst ` set (ad_meta st) - {token} \<and>
    ad_inflight (expire_lease token st) \<le> ad_inflight st \<and> ad_bulk (expire_lease token st) \<le> ad_bulk st \<and>
    ad_live (expire_lease token st) \<le> ad_live st"
proof (cases "js_get (ad_meta st) token")
  case None
  then have "token \<notin> fst ` set (ad_meta st)" by (simp add: map_of_eq_None_iff)
  with assms None show ?thesis
    by (simp add: expire_lease_def meta_ok_def ad_rest_def)
next
  case (Some p)
  with assms show ?thesis
    by (cases p) (auto simp: expire_lease_def Let_def meta_ok_def ad_rest_def keys_delete
        priority_count_delete [OF _ Some] distinct_delete decrement_def)
qed

lemma fold_expire_lease_ok:
  "meta_ok st \<Longrightarrow> meta_ok (fold expire_lease ts st) \<and> ad_leases (fold expire_lease ts st) = ad_leases st \<and>
    ad_rest (fold expire_lease ts st) = ad_rest st \<and>
    fst ` set (ad_meta (fold expire_lease ts st)) = fst ` set (ad_meta st) - set ts \<and>
    ad_inflight (fold expire_lease ts st) \<le> ad_inflight st \<and> ad_bulk (fold expire_lease ts st) \<le> ad_bulk st \<and>
    ad_live (fold expire_lease ts st) \<le> ad_live st"
proof (induction ts arbitrary: st)
  case (Cons t ts)
  note step = expire_lease_ok [OF Cons.prems, of t]
  note rest = Cons.IH [OF step [THEN conjunct1]]
  have keys: "A - insert t (set ts) = A - {t} - set ts" for A by blast
  from step rest show ?case unfolding fold_Cons comp_def list.set keys 
    by (elim conjE, intro conjI) (simp_all only:, linarith+)
qed simp

lemma keys_filter_split:
  "distinct (map fst m) \<Longrightarrow>
   fst ` set (filter (\<lambda>x. \<not> P x) m) = fst ` set m - fst ` set (filter P m)"
proof -
  assume "distinct (map fst m)"
  then have "inj_on fst (set m)" by (simp add: distinct_map)
  moreover have "set (filter (\<lambda>x. \<not> P x) m) = set m - set (filter P m)" by auto
  ultimately show ?thesis by (metis filter_is_subset inj_on_image_set_diff order_refl)
qed

lemma reap_expired_ok:
  assumes "leases_ok st"
  shows "leases_ok (reap_expired now st) \<and> ad_rest (reap_expired now st) = ad_rest st \<and>
    ad_leases (reap_expired now st) = filter (\<lambda>l. now < snd l) (ad_leases st) \<and>
    ad_inflight (reap_expired now st) \<le> ad_inflight st \<and> ad_bulk (reap_expired now st) \<le> ad_bulk st \<and>
    ad_live (reap_expired now st) \<le> ad_live st"
proof -
  let ?ts = "map fst (filter (\<lambda>l. snd l \<le> now) (ad_leases st))"
  have ok: "meta_ok st" and d: "distinct (map fst (ad_leases st))"
    and k: "fst ` set (ad_meta st) = fst ` set (ad_leases st)" using assms by (auto simp: leases_ok_meta)
  note f = fold_expire_lease_ok [OF ok, of ?ts]
  have "distinct (map fst (filter (\<lambda>l. \<not> snd l \<le> now) (ad_leases st)))"
    using d by (rule distinct_map_filter)
  moreover have "fst ` set (ad_meta st) - set ?ts = fst ` set (filter (\<lambda>l. \<not> snd l \<le> now) (ad_leases st))"
    using keys_filter_split [OF d, of "\<lambda>l. snd l \<le> now"] k by simp
  ultimately show ?thesis using f
    by (simp add: reap_expired_def Let_def leases_ok_meta meta_ok_def ad_rest_def not_le)
qed

text \<open>What the adjustment of the bulk limit leaves alone.\<close>

definition ad_core :: "admission \<Rightarrow> int \<times> int \<times> int \<times> (string \<times> int) list \<times>
    (string, fpl_request_priority) js_map \<times> int option \<times> rat option" where
  "ad_core st = (ad_inflight st, ad_live st, ad_bulk st, ad_leases st, ad_meta st, ad_lastRefillMs st, ad_tokens st)"

lemma adjust_bulk_limit_ok:
  assumes "limit_ok cfg st" "config_ok cfg"
    and "recover_bulk_limit cfg now (clamp_bulk_limit cfg st) = (l, st')"
  shows "1 \<le> l \<and> l \<le> ac_bulkMaxInflight cfg \<and> limit_ok cfg st' \<and> ad_core st' = ad_core st"
proof -
  let ?k = "coalesce (ad_bulkLimit st) (ac_bulkMaxInflight cfg)"
  have k: "1 \<le> ?k" "?k \<le> ac_bulkMaxInflight cfg"
    using assms(1,2) by (cases "ad_bulkLimit st"; simp add: limit_ok_def config_ok_def)+
  then have "clamp_bulk_limit cfg st = (?k, st)" by (simp add: clamp_bulk_limit_def Let_def)
  with assms(1,3) k show ?thesis
    by (auto simp: recover_bulk_limit_def Let_def limit_ok_def ad_core_def split: if_splits)
qed

lemma leases_ok_cong: "ad_core st = ad_core st' \<Longrightarrow> leases_ok st = leases_ok st'"
  by (simp add: leases_ok_def ad_core_def)

lemma limit_ok_cong: "ad_rest st = ad_rest st' \<Longrightarrow> limit_ok cfg st = limit_ok cfg st'"
  by (simp add: limit_ok_def ad_rest_def)

lemma bucket_ok_cong:
  "ad_lastRefillMs st = ad_lastRefillMs st' \<Longrightarrow> ad_tokens st = ad_tokens st' \<Longrightarrow>
   bucket_ok cfg now st = bucket_ok cfg now st'"
  by (simp add: bucket_ok_def)

lemma refilled_cong:
  "ad_lastRefillMs st = ad_lastRefillMs st' \<Longrightarrow> ad_tokens st = ad_tokens st' \<Longrightarrow>
   refilled cfg now st = refilled cfg now st'"
  by (simp add: refilled_def)

lemma bucket_ok_later: "bucket_ok cfg now st \<Longrightarrow> now \<le> now' \<Longrightarrow> bucket_ok cfg now' st"
  by (auto simp: bucket_ok_def split: option.splits)

lemma refilled_bounds:
  assumes "bucket_ok cfg now st" "config_ok cfg"
  shows "0 \<le> refilled cfg now st \<and> refilled cfg now st \<le> of_int (ac_requestsPerSecond cfg)"
  using assms by (auto simp: bucket_ok_def refilled_def config_ok_def Let_def min_def split: option.splits)

lemma grant_lease_sel [simp]:
  "ad_inflight (grant_lease cfg now p token st) = ad_inflight st + 1"
  "ad_live (grant_lease cfg now p token st) = ad_live st + (if p = Live then 1 else 0)"
  "ad_bulk (grant_lease cfg now p token st) = ad_bulk st + (if p = Bulk then 1 else 0)"
  "ad_meta (grant_lease cfg now p token st) = js_set token p (ad_meta st)"
  "ad_leases (grant_lease cfg now p token st) = js_set token (now + ac_leaseMs cfg) (ad_leases st)"
  "ad_bulkLimit (grant_lease cfg now p token st) = ad_bulkLimit st"
  "ad_lastRefillMs (grant_lease cfg now p token st) = ad_lastRefillMs st"
  "ad_tokens (grant_lease cfg now p token st) = ad_tokens st"
  by (simp_all add: grant_lease_def Let_def split: fpl_request_priority.splits)

lemma grant_lease_ok:
  assumes "leases_ok st" "token \<notin> fst ` set (ad_leases st)"
  shows "leases_ok (grant_lease cfg now p token st)"
  using assms by (cases p) (auto simp: leases_ok_def js_set_fresh priority_count_def)

text \<open>One lemma for all uses of the acquire script: what it decides and what it leaves.\<close>

lemma acquire_scriptE:
  assumes inv: "admission_inv cfg now st" and cfg: "config_ok cfg"
    and run: "acquire_script cfg now p token st = (r, st')"
  obtains l st1 where "1 \<le> l" "l \<le> ac_bulkMaxInflight cfg" "admission_inv cfg now st1"
    "ad_leases st1 = filter (\<lambda>x. now < snd x) (ad_leases st)"
    "ad_lastRefillMs st1 = ad_lastRefillMs st" "ad_tokens st1 = ad_tokens st" "ad_live st1 \<le> ad_live st"
    "r = Wait_capacity \<and> st' = st1 \<and> (p = Bulk \<and> l \<le> ad_bulk st1 \<or> ac_maxInflight cfg \<le> ad_inflight st1) \<or>
     (p = Bulk \<longrightarrow> ad_bulk st1 < l) \<and> ad_inflight st1 < ac_maxInflight cfg \<and>
     (refilled cfg now st < 1 \<and>
      r = Wait_rate \<lceil>(1 - refilled cfg now st) * 1000 / of_int (ac_requestsPerSecond cfg)\<rceil> \<and>
      st' = st1\<lparr>ad_tokens := Some (refilled cfg now st), ad_lastRefillMs := Some now, ad_bulkLimit := Some l\<rparr> \<or>
      1 \<le> refilled cfg now st \<and> r = Granted token \<and>
      st' = grant_lease cfg now p token (st1\<lparr>ad_tokens := Some (refilled cfg now st - 1),
        ad_lastRefillMs := Some now, ad_bulkLimit := Some l\<rparr>))"
proof -
  obtain l st1 where adj: "recover_bulk_limit cfg now (clamp_bulk_limit cfg (reap_expired now st)) = (l, st1)"
    by fastforce
  have lo: "leases_ok st" using inv by (simp add: admission_inv_def)
  note reap = reap_expired_ok [OF lo, of now]
  have "limit_ok cfg (reap_expired now st)"
    using inv reap limit_ok_cong by (metis admission_inv_def)
  note adj_ok = adjust_bulk_limit_ok [OF this cfg adj]
  have same: "ad_lastRefillMs st1 = ad_lastRefillMs st" "ad_tokens st1 = ad_tokens st"
    using reap adj_ok by (simp_all add: ad_rest_def ad_core_def)
  have le: "ad_inflight st1 \<le> ad_inflight st" "ad_bulk st1 \<le> ad_bulk st" "ad_live st1 \<le> ad_live st"
    using reap adj_ok by (simp_all add: ad_core_def)
  have "leases_ok st1" using reap adj_ok leases_ok_cong by blast
  moreover have "bucket_ok cfg now st1"
    using inv bucket_ok_cong [OF same, of cfg now] by (simp add: admission_inv_def)
  ultimately have inv1: "admission_inv cfg now st1"
    using inv adj_ok le by (auto simp: admission_inv_def)
  have leases: "ad_leases st1 = filter (\<lambda>x. now < snd x) (ad_leases st)"
    using reap adj_ok by (simp add: ad_core_def)
  show ?thesis
    by (rule that [of l st1], use adj_ok in blast, use adj_ok in blast, rule inv1, rule leases, rule same, rule same, rule le)
      (use run in \<open>simp add: acquire_script_def adj refilled_cong [OF same] Let_def split: if_splits; simp add: not_le not_less; blast?\<close>)
qed

lemma admission_inv_later: "admission_inv cfg now st \<Longrightarrow> now \<le> now' \<Longrightarrow> admission_inv cfg now' st"
  by (auto simp: admission_inv_def bucket_ok_later)

lemma acquire_script_inv:
  assumes inv: "admission_inv cfg now st" and cfg: "config_ok cfg"
    and run: "acquire_script cfg now p token st = (r, st')"
    and fresh: "r = Granted token \<Longrightarrow> token \<notin> fst ` set (ad_leases st)"
  shows "admission_inv cfg now st'"
proof (rule acquire_scriptE [OF inv cfg run], goal_cases)
  case (1 l st1)
  have b: "0 \<le> refilled cfg now st" "refilled cfg now st \<le> of_int (ac_requestsPerSecond cfg)"
    using refilled_bounds [of cfg now st] inv cfg by (simp_all add: admission_inv_def)
  let ?s = "\<lambda>k. st1\<lparr>ad_tokens := Some k, ad_lastRefillMs := Some now, ad_bulkLimit := Some l\<rparr>"
  have lo: "leases_ok (?s k)" for k using 1(3) by (simp add: admission_inv_def leases_ok_def)
  from 1(8) consider "st' = st1" | "st' = ?s (refilled cfg now st)"
    | "r = Granted token" "p = Bulk \<longrightarrow> ad_bulk st1 < l" "ad_inflight st1 < ac_maxInflight cfg" 
      "1 \<le> refilled cfg now st" "st' = grant_lease cfg now p token (?s (refilled cfg now st - 1))" by blast
  then show ?case
  proof cases
    case 1
    with \<open>admission_inv cfg now st1\<close> show ?thesis by simp
  next
    case 2
    with lo b 1(1-3) show ?thesis by (simp add: admission_inv_def limit_ok_def bucket_ok_def)
  next
    case 3
    have "token \<notin> fst ` set (ad_leases st1)" using fresh 3(1) 1(4) by auto
    then have "leases_ok st'" using grant_lease_ok [OF lo] 3(5) by simp
    with 3 b 1(1-3) show ?thesis
      by (cases p) (simp_all add: admission_inv_def limit_ok_def bucket_ok_def)
  qed
qed

lemma release_script_inv:
  assumes inv: "admission_inv cfg now st" and run: "release_script token st = (d, st')"
  shows "admission_inv cfg now st'"
proof (cases "js_get (ad_meta st) token")
  case None
  with run inv show ?thesis by (simp add: release_script_def)
next
  case (Some p)
  define st1 where "st1 = st\<lparr>ad_leaseKeys := AList.delete token (ad_leaseKeys st),
    ad_meta := AList.delete token (ad_meta st), ad_leases := AList.delete token (ad_leases st)\<rparr>"
  have st': "st' = decrement p st1" using run Some by (simp add: release_script_def st1_def)
  have "leases_ok st" using inv by (simp add: admission_inv_def)
  then have "leases_ok st'" using priority_count_delete [OF _ Some]
    by (cases p) (auto simp: leases_ok_def st' st1_def distinct_delete keys_delete)
  moreover have "ad_rest st1 = ad_rest st" by (simp add: st1_def ad_rest_def)
  then have "ad_rest st' = ad_rest st" by (simp add: st')
  moreover have "ad_inflight st' \<le> ad_inflight st" "ad_bulk st' \<le> ad_bulk st" by (simp_all add: st' st1_def)
  ultimately show ?thesis using inv limit_ok_cong [of st' st cfg] bucket_ok_cong [of st' st cfg now]
    by (simp add: admission_inv_def ad_rest_def)
qed

lemma report_inv:
  assumes inv: "admission_inv cfg now st" and cfg: "config_ok cfg"
  shows "admission_inv cfg now (reportFplResponse cfg now p status st)"
proof -
  let ?st' = "snd (report_script cfg now (coalesce status 0) st)"
  have k: "1 \<le> coalesce (ad_bulkLimit st) (ac_bulkMaxInflight cfg)"
    "coalesce (ad_bulkLimit st) (ac_bulkMaxInflight cfg) \<le> ac_bulkMaxInflight cfg"
    using inv cfg by (cases "ad_bulkLimit st"; simp add: admission_inv_def limit_ok_def config_ok_def)+
  have core: "ad_core ?st' = ad_core st" by (simp add: report_script_def Let_def ad_core_def)
  have "limit_ok cfg ?st'"
    using inv k cfg by (simp add: report_script_def Let_def limit_ok_def admission_inv_def config_ok_def)
  moreover have "bucket_ok cfg now ?st'"
    using inv core bucket_ok_cong [of ?st' st cfg now] by (simp add: admission_inv_def ad_core_def)
  ultimately show ?thesis
    using inv leases_ok_cong [OF core] core
    by (simp add: reportFplResponse_def admission_inv_def ad_core_def)
qed

text \<open>Every reachable state of the shared Redis state satisfies the invariant.\<close>

lemma admission_run_inv:
  "admission_run cfg t st n t' st' \<Longrightarrow> config_ok cfg \<Longrightarrow> admission_inv cfg t st \<Longrightarrow>
   admission_inv cfg t' st' \<and> t \<le> t'"
proof (induction rule: admission_run.induct)
  case (granted n t st t' token p g st')
  then show ?case using acquire_script_inv [of cfg t' st p token "Granted g" st'] admission_inv_later
    by (meson order_trans)
next
  case (refused n t st t' p token r st')
  then show ?case using acquire_script_inv [of cfg t' st p token r st'] admission_inv_later by (meson order_trans)
next
  case (released n t st t' token d st')
  then show ?case using release_script_inv admission_inv_later by (meson order_trans)
next
  case (reported n t st t' p status)
  then show ?case using report_inv admission_inv_later by (meson order_trans)
qed simp

lemma empty_admission_inv: "config_ok cfg \<Longrightarrow> admission_inv cfg t empty_admission"
  by (simp add: admission_inv_def empty_admission_def leases_ok_def limit_ok_def bucket_ok_def
      priority_count_def config_ok_def)

section \<open>The rate bound\<close>

text \<open>
  The potential of the bucket is what it would hold if it were refilled now. A step costs one
  token per grant and gains at most the rate times the time that passed.
\<close>

definition bucket_gain :: "admission_config \<Rightarrow> int \<Rightarrow> int \<Rightarrow> rat" where
  "bucket_gain cfg t t' = of_int (t' - t) * of_int (ac_requestsPerSecond cfg) / 1000"

lemma bucket_gain_trans: "bucket_gain cfg t t' + bucket_gain cfg t' t'' = bucket_gain cfg t t''"
  by (simp add: bucket_gain_def algebra_simps add_divide_distrib diff_divide_distrib)

lemma bucket_gain_nonneg: "config_ok cfg \<Longrightarrow> t \<le> t' \<Longrightarrow> 0 \<le> bucket_gain cfg t t'"
  by (simp add: bucket_gain_def config_ok_def)

lemma refilled_later:
  assumes "bucket_ok cfg t st" "t \<le> t'" "config_ok cfg"
  shows "refilled cfg t' st \<le> refilled cfg t st + bucket_gain cfg t t'"
proof (cases "ad_tokens st")
  case None
  with assms show ?thesis using bucket_gain_nonneg [OF assms(3,2)]
    by (simp add: bucket_ok_def refilled_def config_ok_def split: option.splits)
next
  case (Some k)
  with assms(1) obtain r where r: "ad_lastRefillMs st = Some r" "r \<le> t"
    by (auto simp: bucket_ok_def split: option.splits)
  have "refilled cfg u st = min (of_int (ac_requestsPerSecond cfg)) (k + bucket_gain cfg r u)" if "r \<le> u" for u
    using Some r that by (simp add: refilled_def Let_def bucket_gain_def max_def mult.commute)
  then show ?thesis using assms(2) r(2) bucket_gain_trans [of cfg r t t'] bucket_gain_nonneg [OF assms(3,2)]
    by (simp add: min_def)
qed

lemma refilled_now [simp]:
  "ad_tokens st = Some k \<Longrightarrow> ad_lastRefillMs st = Some now \<Longrightarrow>
   refilled cfg now st = min (of_int (ac_requestsPerSecond cfg)) k"
  by (simp add: refilled_def Let_def)

lemma acquire_potential:
  assumes inv: "admission_inv cfg now st" and cfg: "config_ok cfg"
    and run: "acquire_script cfg now p token st = (r, st')"
  shows "refilled cfg now st' + (case r of Granted _ \<Rightarrow> 1 | _ \<Rightarrow> 0) \<le> refilled cfg now st"
proof (rule acquire_scriptE [OF inv cfg run], goal_cases)
  case (1 l st1)
  then show ?case using refilled_cong [of st1 st cfg now] by auto
qed

lemma admission_run_potential:
  "admission_run cfg t st n t' st' \<Longrightarrow> config_ok cfg \<Longrightarrow> admission_inv cfg t st \<Longrightarrow>
   of_nat n + refilled cfg t' st' \<le> refilled cfg t st + bucket_gain cfg t t'"
proof (induction rule: admission_run.induct)
  case start
  then show ?case by (simp add: bucket_gain_def)
next
  case (granted n t1 st1 t2 token p g st2)
  have i: "admission_inv cfg t1 st1" using admission_run_inv granted by blast
  then have "admission_inv cfg t2 st1" using granted.hyps(2) by (rule admission_inv_later)
  from acquire_potential [OF this granted.prems(1) granted.hyps(4)]
    refilled_later [of cfg t1 st1 t2] i granted show ?case
    using bucket_gain_trans [of cfg t t1 t2] by (simp add: admission_inv_def)
next
  case (refused n t1 st1 t2 p token r st2)
  have i: "admission_inv cfg t1 st1" using admission_run_inv refused by blast
  then have "admission_inv cfg t2 st1" using refused.hyps(2) by (rule admission_inv_later)
  from acquire_potential [OF this refused.prems(1) refused.hyps(3)] refused.hyps(4)
    refilled_later [of cfg t1 st1 t2] i refused show ?case
    using bucket_gain_trans [of cfg t t1 t2] by (cases r) (simp_all add: admission_inv_def)
next
  case (released n t1 st1 t2 token d st2)
  have i: "admission_inv cfg t1 st1" using admission_run_inv released by blast
  have "ad_lastRefillMs st2 = ad_lastRefillMs st1" "ad_tokens st2 = ad_tokens st1"
    using released.hyps(3) by (auto simp: release_script_def decrement_def Let_def
      split: option.splits fpl_request_priority.splits)
  then show ?case using refilled_cong [of st2 st1 cfg t2] refilled_later [of cfg t1 st1 t2] i released
    bucket_gain_trans [of cfg t t1 t2] by (simp add: admission_inv_def)
next
  case (reported n t1 st1 t2 p status)
  have i: "admission_inv cfg t1 st1" using admission_run_inv reported by blast
  have "refilled cfg t2 (reportFplResponse cfg t2 p status st1) = refilled cfg t2 st1"
    by (rule refilled_cong) (simp_all add: reportFplResponse_def report_script_def Let_def)
  then show ?case using refilled_later [of cfg t1 st1 t2] i reported
    bucket_gain_trans [of cfg t t1 t2] by (simp add: admission_inv_def)
qed

section \<open>Invariant of the local scheduler\<close>

definition local_inv :: "admission_config \<Rightarrow> local_scheduler \<Rightarrow> bool" where
  "local_inv cfg st \<longleftrightarrow>
     lo_inflight st = int (length (lo_running st)) \<and>
     lo_live st = int (length (filter (\<lambda>w. snd w = Live) (lo_running st))) \<and>
     lo_bulk st = int (length (filter (\<lambda>w. snd w = Bulk) (lo_running st))) \<and>
     lo_inflight st \<le> ac_maxInflight cfg \<and> lo_bulk st \<le> ac_bulkMaxInflight cfg \<and>
     1 \<le> lo_bulkLimit st \<and> lo_bulkLimit st \<le> ac_bulkMaxInflight cfg"

lemma local_start_inv:
  assumes "local_inv cfg st" "localCanStart cfg st (snd w)"
  shows "local_inv cfg (local_start w st)"
  using assms by (cases "snd w") (auto simp: local_inv_def localCanStart_def split: if_splits)

lemma local_inv_waiters [simp]: "local_inv cfg (st\<lparr>lo_waiters := ws\<rparr>) = local_inv cfg st"
  by (simp add: local_inv_def)

lemma localCanStart_waiters [simp]: "localCanStart cfg (st\<lparr>lo_waiters := ws\<rparr>) p = localCanStart cfg st p"
  by (simp add: localCanStart_def)

text \<open>A blocked waiter means that some request runs, whose release will look at the queue again.\<close>

lemma blocked_running:
  "local_inv cfg st \<Longrightarrow> config_ok cfg \<Longrightarrow> \<not> localCanStart cfg st p \<Longrightarrow> lo_running st \<noteq> []"
  by (auto simp: local_inv_def localCanStart_def config_ok_def split: if_splits)

lemma localDrain_ok:
  assumes "config_ok cfg"
  shows "local_inv cfg st \<Longrightarrow>
    local_inv cfg (localDrain cfg st) \<and>
    (lo_waiters (localDrain cfg st) \<noteq> [] \<longrightarrow>
       \<not> localCanStart cfg (localDrain cfg st) (snd (next_waiter (lo_waiters (localDrain cfg st))))) \<and>
    mset (lo_running (localDrain cfg st)) + mset (lo_waiters (localDrain cfg st)) =
      mset (lo_running st) + mset (lo_waiters st)"
  using assms
proof (induction cfg st rule: localDrain.induct)
  case (1 cfg st)
  let ?w = "next_waiter (lo_waiters st)"
  show ?case
  proof (cases "lo_waiters st = [] \<or> \<not> localCanStart cfg st (snd ?w)")
    case True
    then have "localDrain cfg st = st" by (auto simp: localDrain.simps [of cfg st] Let_def)
    with 1 True show ?thesis by auto
  next
    case False
    let ?s = "local_start ?w (st\<lparr>lo_waiters := remove1 ?w (lo_waiters st)\<rparr>)"
    have eq: "localDrain cfg st = localDrain cfg ?s"
      using False by (simp add: localDrain.simps [of cfg st] Let_def)
    have "local_inv cfg ?s" using 1(2) False by (intro local_start_inv) simp_all
    with 1(1) False 1(3) have ih: "local_inv cfg (localDrain cfg ?s) \<and>
      (lo_waiters (localDrain cfg ?s) \<noteq> [] \<longrightarrow>
       \<not> localCanStart cfg (localDrain cfg ?s) (snd (next_waiter (lo_waiters (localDrain cfg ?s))))) \<and>
      mset (lo_running (localDrain cfg ?s)) + mset (lo_waiters (localDrain cfg ?s)) =
      mset (lo_running ?s) + mset (lo_waiters ?s)" by blast
    have "mset (lo_running ?s) + mset (lo_waiters ?s) = mset (lo_running st) + mset (lo_waiters st)"
      using False next_waiter_in [of "lo_waiters st"] by simp
    with ih show ?thesis unfolding eq by metis
  qed
qed

definition never_stuck :: "local_scheduler \<Rightarrow> bool" where
  "never_stuck st \<longleftrightarrow> (lo_waiters st = [] \<or> lo_running st \<noteq> [])"

definition local_unlease :: "nat \<times> fpl_request_priority \<Rightarrow> local_scheduler \<Rightarrow> local_scheduler" where
  "local_unlease w st =
     (let st1 = st\<lparr>lo_inflight := lo_inflight st - 1, lo_running := remove1 w (lo_running st)\<rparr> in
      case snd w of Live \<Rightarrow> st1\<lparr>lo_live := lo_live st1 - 1\<rparr> | Bulk \<Rightarrow> st1\<lparr>lo_bulk := lo_bulk st1 - 1\<rparr>)"

lemma local_release_unlease:
  "w \<in> set (lo_running st) \<Longrightarrow> local_release cfg w st = localDrain cfg (local_unlease w st)"
  by (simp add: local_release_def local_unlease_def Let_def)

lemma length_filter_remove1:
  "w \<in> set xs \<Longrightarrow> int (length (filter P (remove1 w xs))) = int (length (filter P xs)) - (if P w then 1 else 0)"
  by (induction xs) auto

lemma local_unlease_inv:
  assumes "local_inv cfg st" "w \<in> set (lo_running st)"
  shows "local_inv cfg (local_unlease w st)"
proof -
  have "int (length (remove1 w (lo_running st))) = int (length (lo_running st)) - 1"
    using length_filter_remove1 [OF assms(2), of "\<lambda>_. True"] by simp
  with assms show ?thesis
    by (cases "snd w") (simp_all add: local_inv_def local_unlease_def Let_def length_filter_remove1)
qed

lemma local_unlease_sel [simp]:
  "lo_running (local_unlease w st) = remove1 w (lo_running st)" "lo_waiters (local_unlease w st) = lo_waiters st"
  by (simp_all add: local_unlease_def Let_def split: fpl_request_priority.splits)

lemma next_waiter_live: "\<exists>w \<in> set ws. snd w = Live \<Longrightarrow> snd (next_waiter ws) = Live"
proof (cases "List.find (\<lambda>w. snd w = Live) ws")
  case (Some w)
  then have "snd w = Live" by (auto simp: find_Some_iff)
  with Some show ?thesis by (simp add: next_waiter_def)
qed (auto simp: find_None_iff)

lemma local_release_ok:
  assumes cfg: "config_ok cfg" and inv: "local_inv cfg st" and w: "w \<in> set (lo_running st)"
  shows "local_inv cfg (local_release cfg w st) \<and> never_stuck (local_release cfg w st) \<and>
    mset (lo_running (local_release cfg w st)) + mset (lo_waiters (local_release cfg w st)) =
      mset (lo_running st) + mset (lo_waiters st) - {#w#} \<and>
    (lo_inflight (local_release cfg w st) < ac_maxInflight cfg \<longrightarrow>
      Live \<notin> snd ` set (lo_waiters (local_release cfg w st)))"
proof -
  let ?s = "local_release cfg w st"
  note d = localDrain_ok [OF cfg local_unlease_inv [OF inv w], folded local_release_unlease [OF w]]
  have "never_stuck ?s" using d blocked_running [OF _ cfg] by (auto simp: never_stuck_def)
  moreover have "mset (lo_running ?s) + mset (lo_waiters ?s) = mset (lo_running st) + mset (lo_waiters st) - {#w#}"
    using d w by (simp add: add_mset_remove_trivial_If)
  moreover have "Live \<notin> snd ` set (lo_waiters ?s)" if "lo_inflight ?s < ac_maxInflight cfg"
  proof
    assume live: "Live \<in> snd ` set (lo_waiters ?s)"
    then have "snd (next_waiter (lo_waiters ?s)) = Live" by (intro next_waiter_live) force
    with d live that show False by (auto simp: localCanStart_def)
  qed
  ultimately show ?thesis using d by blast
qed

lemma local_step_inv:
  assumes cfg: "config_ok cfg" and inv: "local_inv cfg st" "never_stuck st"
  shows "local_inv cfg (local_step cfg c st) \<and> never_stuck (local_step cfg c st)"
proof (cases c)
  case (Acquire_call w)
  show ?thesis
  proof (cases "localCanStart cfg st (snd w)")
    case True
    with Acquire_call inv show ?thesis
      by (simp add: localAcquire_def local_start_inv never_stuck_def)
  next
    case False
    with Acquire_call inv show ?thesis using blocked_running [OF inv(1) cfg False]
      by (simp add: localAcquire_def never_stuck_def)
  qed
next
  case (Release_call w)
  with inv show ?thesis using local_release_ok [OF cfg inv(1), of w]
    by (cases "w \<in> set (lo_running st)") (auto simp: local_release_def)
next
  case (Report_call p status now)
  with inv cfg show ?thesis
    by (auto simp: local_report_def Let_def local_inv_def never_stuck_def config_ok_def)
qed

lemma local_steps_inv:
  "config_ok cfg \<Longrightarrow> local_inv cfg st \<Longrightarrow> never_stuck st \<Longrightarrow>
   local_inv cfg (fold (local_step cfg) calls st) \<and> never_stuck (fold (local_step cfg) calls st)"
  by (induction calls arbitrary: st) (auto simp: local_step_inv)

lemma local_reset_inv:
  "config_ok cfg \<Longrightarrow> local_inv cfg (resetFplAdmissionForTests cfg) \<and> never_stuck (resetFplAdmissionForTests cfg)"
  by (simp add: resetFplAdmissionForTests_def local_inv_def never_stuck_def config_ok_def)

section \<open>Live requests are not starved\<close>

text \<open>Enough live leases are free, so capacity cannot be the reason to wait.\<close>

lemma live_no_capacity_wait:
  assumes inv: "admission_inv cfg now st" and cfg: "config_ok cfg"
    and live: "ad_live st < ac_maxInflight cfg - ac_bulkMaxInflight cfg"
    and run: "acquire_script cfg now Live token st = (r, st')"
  shows "r = Granted token \<and> 1 \<le> refilled cfg now st \<or>
    refilled cfg now st < 1 \<and>
    r = Wait_rate \<lceil>(1 - refilled cfg now st) * 1000 / of_int (ac_requestsPerSecond cfg)\<rceil> \<and>
    ad_tokens st' = Some (refilled cfg now st) \<and> ad_lastRefillMs st' = Some now \<and> ad_live st' \<le> ad_live st"
proof (rule acquire_scriptE [OF inv cfg run], goal_cases)
  case (1 l st1)
  then have "ad_inflight st1 < ac_maxInflight cfg"
    using live by (auto simp: admission_inv_def leases_ok_def)
  with 1(7,8) show ?case by auto
qed

lemma refill_after_wait:
  fixes k rate :: rat
  assumes "0 < rate" "\<lceil>(1 - k) * 1000 / rate\<rceil> \<le> d"
  shows "1 \<le> k + of_int d * rate / 1000"
proof -
  have "(1 - k) * 1000 / rate \<le> of_int d" using assms(2) by (simp add: ceiling_le_iff)
  then have "(1 - k) * 1000 \<le> of_int d * rate" using assms(1) by (simp add: divide_le_eq)
  then show ?thesis by (simp add: field_simps)
qed

lemma wait_within_retry:
  fixes k rate :: rat
  assumes "0 \<le> k" "1 \<le> rate"
  shows "\<lceil>(1 - k) * 1000 / rate\<rceil> \<le> 1000"
proof -
  have "(1 - k) * 1000 \<le> 1000 * rate" using assms by (simp add: algebra_simps)
  then show ?thesis using assms(2) by (simp add: ceiling_le_iff divide_le_eq)
qed

lemma live_retry_granted:
  assumes inv: "admission_inv cfg now st" and cfg: "config_ok cfg"
    and live: "ad_live st < ac_maxInflight cfg - ac_bulkMaxInflight cfg"
    and run: "acquire_script cfg now Live token st = (r, st')" and wait: "r \<noteq> Granted token"
  shows "fst (acquire_script cfg (now + retry_delay r) Live token st') = Granted token"
proof -
  let ?k = "refilled cfg now st" and ?rate = "of_int (ac_requestsPerSecond cfg) :: rat"
  let ?now = "now + retry_delay r"
  note first = live_no_capacity_wait [OF inv cfg live run]
  have r: "r = Wait_rate \<lceil>(1 - ?k) * 1000 / ?rate\<rceil>" and st': "ad_tokens st' = Some ?k"
    "ad_lastRefillMs st' = Some now" "ad_live st' \<le> ad_live st" using first wait by auto
  have k: "0 \<le> ?k" "1 \<le> ?rate" using refilled_bounds [of cfg now st] inv cfg
    by (simp_all add: admission_inv_def config_ok_def)
  have d: "0 \<le> retry_delay r" "\<lceil>(1 - ?k) * 1000 / ?rate\<rceil> \<le> retry_delay r"
    using wait_within_retry [OF k] by (auto simp: r retry_delay_def)
  have "1 \<le> refilled cfg ?now st'"
    using refill_after_wait [OF _ d(2)] d(1) k(2) by (simp add: refilled_def st' Let_def)
  moreover have "admission_inv cfg ?now st'"
    using acquire_script_inv [OF inv cfg run] wait admission_inv_later d(1) by simp
  moreover obtain r2 st2 where run2: "acquire_script cfg ?now Live token st' = (r2, st2)" by fastforce
  ultimately show ?thesis
    using live_no_capacity_wait [OF _ cfg _ run2] live st'(3) by auto
qed

section \<open>Properties\<close>

text \<open>
  C14. The shared admission state never admits too much: however acquire, release and report
  calls of all processes interleave, at most \<open>MAX_INFLIGHT\<close> leases exist, at most
  \<open>BULK_MAX_INFLIGHT\<close> of them bulk, and the counters agree exactly with the leases, so that lost
  or repeated releases can neither leak capacity nor drive a counter negative.
\<close>

theorem admission_limits:
  assumes "admission_run cfg t empty_admission n t' st" "cfg = admission_config_of a b c"
  shows "int (length (ad_leases st)) \<le> ac_maxInflight cfg \<and>
    priority_count Bulk (ad_meta st) \<le> ac_bulkMaxInflight cfg \<and>
    ad_inflight st = int (length (ad_leases st)) \<and> ad_bulk st = priority_count Bulk (ad_meta st) \<and>
    ad_live st = priority_count Live (ad_meta st) \<and>
    set (map fst (ad_meta st)) = set (map fst (ad_leases st))"
proof -
  have cfg: "config_ok cfg" using assms(2) admission_config_of_ok by simp
  have inv: "admission_inv cfg t' st"
    using admission_run_inv [OF assms(1) cfg empty_admission_inv [OF cfg]] by blast
  then have lo: "leases_ok st" by (simp add: admission_inv_def)
  have "ad_inflight st = int (length (ad_meta st))"
    using lo sum_length_filter_compl [of "\<lambda>x. snd x = Live" "ad_meta st"]
    by (simp add: leases_ok_def priority_count_def)
  moreover have "length (ad_meta st) = length (ad_leases st)"
    using lo by (metis distinct_card leases_ok_def length_map set_map)
  ultimately show ?thesis using inv lo by (simp add: admission_inv_def leases_ok_def)
qed

text \<open>
  C15. The token bucket bounds the request rate: in any stretch of a run, from time \<open>t\<close> to time
  \<open>t'\<close>, at most one bucket plus the configured rate times the elapsed time is granted.
\<close>

theorem admission_rate_bound:
  assumes "admission_run cfg t0 empty_admission n0 t st" "cfg = admission_config_of a b c"
    and "admission_run cfg t st n t' st'"
  shows "of_nat n \<le> (of_int (ac_requestsPerSecond cfg) :: rat) * (1 + of_int (t' - t) / 1000)"
proof -
  have cfg: "config_ok cfg" using assms(2) admission_config_of_ok by simp
  have inv: "admission_inv cfg t st"
    using admission_run_inv [OF assms(1) cfg empty_admission_inv [OF cfg]] by blast
  have inv': "admission_inv cfg t' st'" using admission_run_inv [OF assms(3) cfg inv] by blast
  have "0 \<le> refilled cfg t' st'" "refilled cfg t st \<le> of_int (ac_requestsPerSecond cfg)"
    using refilled_bounds cfg inv inv' by (auto simp: admission_inv_def)
  with admission_run_potential [OF assms(3) cfg inv] show ?thesis
    by (simp add: bucket_gain_def algebra_simps add_divide_distrib)
qed



section \<open>Witnesses\<close>

definition example_admission_config :: admission_config where
  "example_admission_config = admission_config_of None None None"

definition example_admitted :: admission where
  "example_admitted = snd (acquire_script example_admission_config 1000 Bulk ''a'' empty_admission)"

lemma example_run:
  "admission_run example_admission_config 1000 empty_admission 1 1000 example_admitted"
proof -
  have "acquire_script example_admission_config 1000 Bulk ''a'' empty_admission = (Granted ''a'', example_admitted)"
    unfolding example_admitted_def by code_simp
  moreover have "''a'' \<notin> fst ` set (ad_leases empty_admission)" by (simp add: empty_admission_def)
  ultimately show ?thesis
    using admission_run.granted [OF admission_run.start, of 1000 1000 "''a''" empty_admission] by simp
qed

theorem admission_limits_witness:
  "int (length (ad_leases example_admitted)) \<le> 5 \<and> ad_inflight example_admitted = 1"
proof -
  have "length (ad_leases example_admitted) = 1" by code_simp
  with admission_limits [OF example_run example_admission_config_def] show ?thesis by simp
qed

theorem admission_rate_bound_witness:
  "of_nat 1 \<le> (of_int (ac_requestsPerSecond example_admission_config) :: rat) * (1 + of_int (1000 - 1000) / 1000)"
  by (rule admission_rate_bound [OF admission_run.start example_admission_config_def example_run])



end
