(* ===== verification/Json.thy ===== *)
theory Json
  imports JsPrelude
begin

text \<open>
  JSON documents and the canonical serialisations of \<open>src/src/utils/content-hash.ts\<close>, which the
  publication proofs hash and store. The values are the JavaScript values the serialisers meet:
  an object lists its own properties in JavaScript's property order (array indices in numeric
  order, then the other keys as inserted), an integer is a safe integer, any other finite number
  is given by the literal JavaScript prints for it, a date by its ISO text. Strings are their
  UTF-8 bytes; keys are compared by code unit, which agrees with bytes on the ASCII keys in use.
  \<open>JSON_parse\<close> and \<open>JSON_stringify\<close> model the language's own functions as far as the sources use
  them.
\<close>

datatype json =
    JNull
  | JUndefined
  | JBool bool
  | JInt int
  | JDec string
  | JStr string
  | JDate string
  | JArr "json list"
  | JObj "(string \<times> json) list"

section \<open>Objects\<close>

definition is_index_key :: "string \<Rightarrow> bool" where
  "is_index_key k = (k \<noteq> [] \<and> list_all is_digit_char k \<and> (hd k \<noteq> CHR ''0'' \<or> k = ''0'') \<and>
     read_nat k < 4294967295)"

definition own_order :: "(string \<times> 'a) list \<Rightarrow> (string \<times> 'a) list" where
  "own_order es =
     js_sort (\<lambda>x y. int (read_nat (fst x)) - int (read_nat (fst y))) (filter (\<lambda>e. is_index_key (fst e)) es)
     @ filter (\<lambda>e. \<not> is_index_key (fst e)) es"

text \<open>\<open>Object.fromEntries\<close>: a repeated key keeps its place and takes the last value.\<close>

definition fromEntries :: "(string \<times> json) list \<Rightarrow> json" where
  "fromEntries es = JObj (own_order (js_map_new es))"

fun code_unit_less :: "string \<Rightarrow> string \<Rightarrow> bool" where
  "code_unit_less _ [] = False"
| "code_unit_less [] (_ # _) = True"
| "code_unit_less (x # xs) (y # ys) =
     ((of_char x :: nat) < of_char y \<or> x = y \<and> code_unit_less xs ys)"

text \<open>The default order of \<open>Array.prototype.sort\<close> on strings.\<close>

definition code_unit_cmp :: "string \<Rightarrow> string \<Rightarrow> int" where
  "code_unit_cmp x y = (if code_unit_less x y then -1 else if x = y then 0 else 1)"

definition length_then_cmp :: "string \<Rightarrow> string \<Rightarrow> int" where
  "length_then_cmp left right =
     (let d = int (length left) - int (length right) in
      if d \<noteq> 0 then d
      else if code_unit_less left right then -1 else if code_unit_less right left then 1 else 0)"

section \<open>Text\<close>

definition hex_char :: "nat \<Rightarrow> char" where
  "hex_char d = (if d < 10 then char_of (48 + d) else char_of (87 + d))"

definition escape_char :: "char \<Rightarrow> string" where
  "escape_char c =
     (let n = of_char c :: nat in
      if c = CHR 0x22 then [CHR 0x5C, CHR 0x22]
      else if c = CHR 0x5C then [CHR 0x5C, CHR 0x5C]
      else if c = CHR 0x08 then [CHR 0x5C, CHR ''b'']
      else if c = CHR 0x09 then [CHR 0x5C, CHR ''t'']
      else if c = CHR 0x0A then [CHR 0x5C, CHR ''n'']
      else if c = CHR 0x0C then [CHR 0x5C, CHR ''f'']
      else if c = CHR 0x0D then [CHR 0x5C, CHR ''r'']
      else if n < 32 then [CHR 0x5C, CHR ''u'', CHR ''0'', CHR ''0'', hex_char (n div 16), hex_char (n mod 16)]
      else [c])"

definition quote_string :: "string \<Rightarrow> string" where
  "quote_string s = CHR 0x22 # concat (map escape_char s) @ [CHR 0x22]"

fun join_with :: "string \<Rightarrow> string list \<Rightarrow> string" where
  "join_with sep [] = []"
| "join_with sep [x] = x"
| "join_with sep (x # y # ys) = x @ sep @ join_with sep (y # ys)"

text \<open>
  \<open>JSON.stringify\<close> without an indent: \<open>undefined\<close> has no text, so a property holding it is left
  out; in an array it prints as null.
\<close>

fun JSON_stringify :: "json \<Rightarrow> string option"
and stringify_elems :: "json list \<Rightarrow> string list"
and stringify_members :: "(string \<times> json) list \<Rightarrow> string list" where
  "JSON_stringify JNull = Some ''null''"
| "JSON_stringify JUndefined = None"
| "JSON_stringify (JBool b) = Some (if b then ''true'' else ''false'')"
| "JSON_stringify (JInt n) = Some (show_int n)"
| "JSON_stringify (JDec l) = Some l"
| "JSON_stringify (JStr s) = Some (quote_string s)"
| "JSON_stringify (JDate s) = Some (quote_string s)"
| "JSON_stringify (JArr vs) = Some (''['' @ join_with '','' (stringify_elems vs) @ '']'')"
| "JSON_stringify (JObj es) = Some (''{'' @ join_with '','' (stringify_members es) @ ''}'')"
| "stringify_elems [] = []"
| "stringify_elems (v # vs) = coalesce (JSON_stringify v) ''null'' # stringify_elems vs"
| "stringify_members [] = []"
| "stringify_members ((k, v) # es) =
     (case JSON_stringify v of
        None \<Rightarrow> stringify_members es
      | Some t \<Rightarrow> (quote_string k @ '':'' @ t) # stringify_members es)"

fun canonicalize :: "json \<Rightarrow> json"
and canonicalize_elems :: "json list \<Rightarrow> json list"
and canonicalize_members :: "(string \<times> json) list \<Rightarrow> (string \<times> json) list" where
  "canonicalize (JArr vs) = JArr (canonicalize_elems vs)"
| "canonicalize (JDate s) = JStr s"
| "canonicalize (JObj es) =
     fromEntries (js_sort (\<lambda>x y. code_unit_cmp (fst x) (fst y)) (canonicalize_members es))"
| "canonicalize v = v"
| "canonicalize_elems [] = []"
| "canonicalize_elems (v # vs) = canonicalize v # canonicalize_elems vs"
| "canonicalize_members [] = []"
| "canonicalize_members ((k, v) # es) = (k, canonicalize v) # canonicalize_members es"

datatype json_error = Not_serializable

definition canonicalJson :: "json \<Rightarrow> (json_error, string) result" where
  "canonicalJson v =
     (case JSON_stringify (canonicalize v) of None \<Rightarrow> Inl Not_serializable | Some s \<Rightarrow> Inr s)"

fun serializePostgresJsonb :: "json \<Rightarrow> (json_error, string) result"
and serialize_elems :: "json list \<Rightarrow> (json_error, string list) result"
and serialize_members :: "(string \<times> json) list \<Rightarrow> (json_error, (string \<times> string) list) result" where
  "serializePostgresJsonb (JArr vs) =
     res_bind (serialize_elems vs) (\<lambda>ts. Inr (''['' @ join_with '', '' ts @ '']''))"
| "serializePostgresJsonb (JDate s) = Inr (quote_string s)"
| "serializePostgresJsonb (JObj es) =
     res_bind (serialize_members es) (\<lambda>ts.
       Inr (''{'' @ join_with '', ''
         (map (\<lambda>(k, t). quote_string k @ '': '' @ t) (js_sort (\<lambda>x y. length_then_cmp (fst x) (fst y)) ts)) @ ''}''))"
| "serializePostgresJsonb v = (case JSON_stringify v of None \<Rightarrow> Inl Not_serializable | Some s \<Rightarrow> Inr s)"
| "serialize_elems [] = Inr []"
| "serialize_elems (v # vs) =
     res_bind (serializePostgresJsonb v) (\<lambda>t. res_bind (serialize_elems vs) (\<lambda>ts. Inr (t # ts)))"
| "serialize_members [] = Inr []"
| "serialize_members ((k, v) # es) =
     res_bind (serializePostgresJsonb v) (\<lambda>t. res_bind (serialize_members es) (\<lambda>ts. Inr ((k, t) # ts)))"

definition postgresJsonbCanonicalJson :: "json \<Rightarrow> (json_error, string) result" where
  "postgresJsonbCanonicalJson v = serializePostgresJsonb v"

section \<open>Reading\<close>

text \<open>
  \<open>JSON.parse\<close>. The recursion is bounded by the length of the text, which is enough because every
  call consumes a character. Escaped surrogate pairs and number literals that JavaScript itself
  would print differently are not covered: they give no result.
\<close>

definition is_json_space :: "char \<Rightarrow> bool" where
  "is_json_space c = (c = CHR '' '' \<or> c = CHR 0x09 \<or> c = CHR 0x0A \<or> c = CHR 0x0D)"

abbreviation skip_space :: "string \<Rightarrow> string" where
  "skip_space \<equiv> dropWhile is_json_space"

definition hex_value :: "char \<Rightarrow> nat option" where
  "hex_value c =
     (let n = of_char c :: nat in
      if 48 \<le> n \<and> n \<le> 57 then Some (n - 48)
      else if 97 \<le> n \<and> n \<le> 102 then Some (n - 87)
      else if 65 \<le> n \<and> n \<le> 70 then Some (n - 55)
      else None)"

definition hex_code :: "char \<Rightarrow> char \<Rightarrow> char \<Rightarrow> char \<Rightarrow> nat option" where
  "hex_code a b c d =
     (case (hex_value a, hex_value b, hex_value c, hex_value d) of
        (Some w, Some x, Some y, Some z) \<Rightarrow> Some (((w * 16 + x) * 16 + y) * 16 + z)
      | _ \<Rightarrow> None)"

definition utf8_bytes :: "nat \<Rightarrow> string option" where
  "utf8_bytes n =
     (if n < 128 then Some [char_of n]
      else if n < 2048 then Some [char_of (192 + n div 64), char_of (128 + n mod 64)]
      else if 55296 \<le> n \<and> n < 57344 then None
      else Some [char_of (224 + n div 4096), char_of (128 + n div 64 mod 64), char_of (128 + n mod 64)])"

definition simple_escape :: "char \<Rightarrow> char option" where
  "simple_escape e =
     (if e = CHR 0x22 \<or> e = CHR 0x5C \<or> e = CHR ''/'' then Some e
      else if e = CHR ''b'' then Some (CHR 0x08)
      else if e = CHR ''t'' then Some (CHR 0x09)
      else if e = CHR ''n'' then Some (CHR 0x0A)
      else if e = CHR ''f'' then Some (CHR 0x0C)
      else if e = CHR ''r'' then Some (CHR 0x0D)
      else None)"

fun parse_string :: "string \<Rightarrow> (string \<times> string) option" where
  "parse_string [] = None"
| "parse_string (c # cs) =
     (if c = CHR 0x22 then Some ([], cs)
      else if c = CHR 0x5C then
        (case cs of
           [] \<Rightarrow> None
         | e # rest \<Rightarrow>
             (case simple_escape e of
                Some x \<Rightarrow> (case parse_string rest of None \<Rightarrow> None | Some (s, r) \<Rightarrow> Some (x # s, r))
              | None \<Rightarrow>
                  if e \<noteq> CHR ''u'' then None
                  else
                    (case rest of
                       h1 # h2 # h3 # h4 # rest' \<Rightarrow>
                         (case hex_code h1 h2 h3 h4 of
                            None \<Rightarrow> None
                          | Some n \<Rightarrow>
                              (case utf8_bytes n of
                                 None \<Rightarrow> None
                               | Some bs \<Rightarrow>
                                   (case parse_string rest' of None \<Rightarrow> None | Some (s, r) \<Rightarrow> Some (bs @ s, r))))
                     | _ \<Rightarrow> None)))
      else if (of_char c :: nat) < 32 then None
      else (case parse_string cs of None \<Rightarrow> None | Some (s, r) \<Rightarrow> Some (c # s, r)))"

definition is_number_char :: "char \<Rightarrow> bool" where
  "is_number_char c = (is_digit_char c \<or> c = CHR ''-'' \<or> c = CHR ''+'' \<or> c = CHR ''.'' \<or> c = CHR ''e'' \<or> c = CHR ''E'')"

definition natural_literal :: "string \<Rightarrow> bool" where
  "natural_literal s = (s \<noteq> [] \<and> list_all is_digit_char s \<and> (hd s \<noteq> CHR ''0'' \<or> s = ''0''))"

text \<open>The literals of non-integers: an integer part, a point and digits that do not end in 0.\<close>

definition decimal_literal :: "string \<Rightarrow> bool" where
  "decimal_literal s =
     (let body = (if s \<noteq> [] \<and> hd s = CHR ''-'' then tl s else s);
          whole = takeWhile (\<lambda>c. c \<noteq> CHR ''.'') body;
          fraction = tl (dropWhile (\<lambda>c. c \<noteq> CHR ''.'') body)
      in CHR ''.'' \<in> set body \<and> natural_literal whole \<and> fraction \<noteq> [] \<and>
         list_all is_digit_char fraction \<and> last fraction \<noteq> CHR ''0'')"

definition read_number :: "string \<Rightarrow> json option" where
  "read_number s =
     (if natural_literal s then Some (JInt (int (read_nat s)))
      else if s \<noteq> [] \<and> hd s = CHR ''-'' \<and> natural_literal (tl s) then Some (JInt (- int (read_nat (tl s))))
      else if decimal_literal s then Some (JDec s)
      else None)"

definition parse_word :: "string \<Rightarrow> json \<Rightarrow> string \<Rightarrow> (json \<times> string) option" where
  "parse_word w v s = (if take (length w) s = w then Some (v, drop (length w) s) else None)"

fun parse_value :: "nat \<Rightarrow> string \<Rightarrow> (json \<times> string) option"
and parse_elems :: "nat \<Rightarrow> string \<Rightarrow> (json list \<times> string) option"
and parse_members :: "nat \<Rightarrow> string \<Rightarrow> ((string \<times> json) list \<times> string) option" where
  "parse_value 0 s = None"
| "parse_value (Suc n) s =
     (case skip_space s of
        [] \<Rightarrow> None
      | c # cs \<Rightarrow>
          if c = CHR 0x7B then
            (case skip_space cs of
               [] \<Rightarrow> None
             | d # ds \<Rightarrow>
                 if d = CHR 0x7D then Some (JObj [], ds)
                 else (case parse_members n cs of None \<Rightarrow> None | Some (es, r) \<Rightarrow> Some (fromEntries es, r)))
          else if c = CHR 0x5B then
            (case skip_space cs of
               [] \<Rightarrow> None
             | d # ds \<Rightarrow>
                 if d = CHR 0x5D then Some (JArr [], ds)
                 else (case parse_elems n cs of None \<Rightarrow> None | Some (vs, r) \<Rightarrow> Some (JArr vs, r)))
          else if c = CHR 0x22 then
            (case parse_string cs of None \<Rightarrow> None | Some (t, r) \<Rightarrow> Some (JStr t, r))
          else if c = CHR ''n'' then parse_word ''null'' JNull (c # cs)
          else if c = CHR ''t'' then parse_word ''true'' (JBool True) (c # cs)
          else if c = CHR ''f'' then parse_word ''false'' (JBool False) (c # cs)
          else
            (case read_number (takeWhile is_number_char (c # cs)) of
               None \<Rightarrow> None
             | Some v \<Rightarrow> Some (v, dropWhile is_number_char (c # cs))))"
| "parse_elems 0 s = None"
| "parse_elems (Suc n) s =
     (case parse_value n s of
        None \<Rightarrow> None
      | Some (v, r) \<Rightarrow>
          (case skip_space r of
             [] \<Rightarrow> None
           | c # cs \<Rightarrow>
               if c = CHR 0x5D then Some ([v], cs)
               else if c = CHR '','' then
                 (case parse_elems n cs of None \<Rightarrow> None | Some (vs, r') \<Rightarrow> Some (v # vs, r'))
               else None))"
| "parse_members 0 s = None"
| "parse_members (Suc n) s =
     (case skip_space s of
        [] \<Rightarrow> None
      | q # qs \<Rightarrow>
          if q \<noteq> CHR 0x22 then None
          else
            (case parse_string qs of
               None \<Rightarrow> None
             | Some (k, r) \<Rightarrow>
                 (case skip_space r of
                    [] \<Rightarrow> None
                  | c # cs \<Rightarrow>
                      if c \<noteq> CHR '':'' then None
                      else
                        (case parse_value n cs of
                           None \<Rightarrow> None
                         | Some (v, r2) \<Rightarrow>
                             (case skip_space r2 of
                                [] \<Rightarrow> None
                              | d # ds \<Rightarrow>
                                  if d = CHR 0x7D then Some ([(k, v)], ds)
                                  else if d = CHR '','' then
                                    (case parse_members n ds of
                                       None \<Rightarrow> None
                                     | Some (es, r') \<Rightarrow> Some ((k, v) # es, r'))
                                  else None)))))"

definition JSON_parse :: "string \<Rightarrow> json option" where
  "JSON_parse s =
     (case parse_value (Suc (length s)) s of
        None \<Rightarrow> None
      | Some (v, r) \<Rightarrow> if skip_space r = [] then Some v else None)"

section \<open>Strings and numbers are read back\<close>

lemma hex_value_hex_char: "d < 16 \<Longrightarrow> hex_value (hex_char d) = Some d"
  by (simp add: hex_value_def hex_char_def Let_def)

lemma control_code:
  assumes "(of_char c :: nat) < 32"
  shows "hex_code (CHR ''0'') (CHR ''0'') (hex_char (of_char c div 16)) (hex_char (of_char c mod 16)) = Some (of_char c)"
proof -
  have "of_char c div 16 < (16 :: nat)" "of_char c mod 16 < (16 :: nat)" using assms by simp_all
  then show ?thesis by (simp add: hex_code_def hex_value_hex_char) (simp add: hex_value_def)
qed

lemma parse_string_simple:
  "simple_escape e = Some x \<Longrightarrow>
   parse_string (CHR 0x5C # e # rest) = (case parse_string rest of None \<Rightarrow> None | Some (s, r) \<Rightarrow> Some (x # s, r))"
  by simp

lemma parse_string_escape:
  "parse_string (escape_char c @ rest) =
     (case parse_string rest of None \<Rightarrow> None | Some (s, r) \<Rightarrow> Some (c # s, r))"
proof -
  consider "c = CHR 0x22" | "c = CHR 0x5C" | "c = CHR 0x08" | "c = CHR 0x09" | "c = CHR 0x0A" | "c = CHR 0x0C"
    | "c = CHR 0x0D"
    | (control) "c \<notin> {CHR 0x22, CHR 0x5C, CHR 0x08, CHR 0x09, CHR 0x0A, CHR 0x0C, CHR 0x0D}" "(of_char c :: nat) < 32"
    | (plain) "c \<notin> {CHR 0x22, CHR 0x5C, CHR 0x08, CHR 0x09, CHR 0x0A, CHR 0x0C, CHR 0x0D}" "\<not> (of_char c :: nat) < 32"
    by blast
  then show ?thesis
  proof cases
    case control
    have esc: "escape_char c = [CHR 0x5C, CHR ''u'', CHR ''0'', CHR ''0'', hex_char (of_char c div 16), hex_char (of_char c mod 16)]"
      using control by (auto simp: escape_char_def Let_def)
    have u: "utf8_bytes (of_char c) = Some [c]" using control(2) by (simp add: utf8_bytes_def)
    show ?thesis
      by (simp add: esc simple_escape_def control_code [OF control(2)] u split: option.splits)
  next
    case plain
    then have "escape_char c = [c]" by (auto simp: escape_char_def Let_def)
    with plain show ?thesis by simp
  qed (simp_all add: escape_char_def Let_def simple_escape_def split: option.splits)
qed

lemma parse_quoted: "parse_string (concat (map escape_char s) @ CHR 0x22 # r) = Some (s, r)"
proof (induction s)
  case (Cons c s)
  then show ?case using parse_string_escape [of c "concat (map escape_char s) @ CHR 0x22 # r"] by simp
qed simp

lemma show_nat_zero: "show_nat 0 = ''0''"
  by code_simp

lemma natural_literal_show_nat: "natural_literal (show_nat n)"
proof (induction n rule: show_nat.induct)
  case (1 n)
  show ?case
  proof (cases "n < 10")
    case True
    have "digit_char n = CHR ''0'' \<Longrightarrow> n = 0"
      using of_char_digit [OF True] by simp
    then show ?thesis using True
      by (auto simp: show_nat.simps [of n] natural_literal_def digit_char_def is_digit_char_def)
  next
    case False
    then have "n div 10 \<noteq> 0" by auto
    then have "show_nat (n div 10) \<noteq> ''0''"
      using show_nat_inject [of "n div 10" 0] by (simp add: show_nat_zero)
    with False "1.IH" have "hd (show_nat (n div 10)) \<noteq> CHR ''0''" by (simp add: natural_literal_def)
    moreover have "show_nat n = show_nat (n div 10) @ [digit_char (n mod 10)]"
      using False by (simp add: show_nat.simps [of n])
    ultimately show ?thesis using show_nat_all_digits [of n] by (simp add: natural_literal_def)
  qed
qed

lemma not_digit_minus [simp]: "\<not> is_digit_char (CHR ''-'')"
  by (simp add: is_digit_char_def)

lemma read_number_show_int: "read_number (show_int n) = Some (JInt n)"
proof (cases "n < 0")
  case True
  then have "show_int n = CHR ''-'' # show_nat (nat (- n))" by (simp add: show_int_def)
  moreover have "\<not> natural_literal (CHR ''-'' # t)" for t by (simp add: natural_literal_def)
  ultimately show ?thesis using True natural_literal_show_nat by (simp add: read_number_def)
next
  case False
  then show ?thesis using natural_literal_show_nat by (simp add: read_number_def show_int_def)
qed

lemma not_natural_point: "CHR ''.'' \<in> set s \<Longrightarrow> \<not> natural_literal s"
  by (auto simp: natural_literal_def list_all_iff is_digit_char_def Let_def dest!: bspec [of _ _ "CHR ''.''"])

lemma read_number_decimal: "decimal_literal s \<Longrightarrow> read_number s = Some (JDec s)"
  using not_natural_point [of s] not_natural_point [of "tl s"]
  by (cases s) (auto simp: read_number_def decimal_literal_def Let_def split: if_splits)

lemma digits_number_chars: "list_all is_digit_char s \<Longrightarrow> list_all is_number_char s"
  by (auto simp: list_all_iff is_number_char_def)

lemma show_int_number_chars: "list_all is_number_char (show_int n) \<and> show_int n \<noteq> []"
  using digits_number_chars [OF show_nat_all_digits] by (simp add: show_int_def is_number_char_def)

lemma decimal_number_chars:
  assumes "decimal_literal s"
  shows "list_all is_number_char s \<and> s \<noteq> []"
proof -
  define body where "body = (if s \<noteq> [] \<and> hd s = CHR ''-'' then tl s else s)"
  let ?p = "\<lambda>c. c \<noteq> CHR ''.''"
  have b: "CHR ''.'' \<in> set body" "natural_literal (takeWhile ?p body)" "list_all is_digit_char (tl (dropWhile ?p body))"
    using assms by (simp_all add: decimal_literal_def Let_def body_def)
  from split_list_first [OF b(1)] obtain ys zs where split: "body = ys @ CHR ''.'' # zs" "CHR ''.'' \<notin> set ys"
    by blast
  have "takeWhile ?p body = ys" "dropWhile ?p body = CHR ''.'' # zs"
    using split by (simp_all add: takeWhile_append dropWhile_append)
  then have "list_all is_digit_char ys" "list_all is_digit_char zs"
    using b(2,3) by (simp_all add: natural_literal_def)
  then have "list_all is_number_char body"
    using digits_number_chars by (simp add: split(1)) (simp add: is_number_char_def)
  moreover have "body \<noteq> []" using b(1) by auto
  ultimately show ?thesis by (cases s) (auto simp: body_def is_number_char_def split: if_splits)
qed

section \<open>Texts are read back\<close>

text \<open>
  \<open>json_text v t\<close>: \<open>t\<close> is a text of the value \<open>v\<close> in either of the two styles, with the members of
  an object in any order.
\<close>

definition separator :: "string \<Rightarrow> string \<Rightarrow> bool" where
  "separator c s \<longleftrightarrow> s = c \<or> s = c @ '' ''"

abbreviation member_text :: "string \<Rightarrow> string \<times> string \<Rightarrow> string" where
  "member_text colon m \<equiv> quote_string (fst m) @ colon @ snd m"

inductive json_text :: "json \<Rightarrow> string \<Rightarrow> bool" where
  null: "json_text JNull ''null''"
| true: "json_text (JBool True) ''true''"
| false: "json_text (JBool False) ''false''"
| int: "json_text (JInt n) (show_int n)"
| dec: "decimal_literal l \<Longrightarrow> json_text (JDec l) l"
| str: "json_text (JStr s) (quote_string s)"
| arr: "list_all2 json_text vs ts \<Longrightarrow> separator '','' sep \<Longrightarrow>
    json_text (JArr vs) (''['' @ join_with sep ts @ '']'')"
| obj: "list_all2 (\<lambda>e m. fst m = fst e \<and> json_text (snd e) (snd m)) es ms \<Longrightarrow>
    separator '','' sep \<Longrightarrow> separator '':'' colon \<Longrightarrow>
    json_text (fromEntries es) (''{'' @ join_with sep (map (member_text colon) ms) @ ''}'')"

definition reads :: "json \<Rightarrow> string \<Rightarrow> bool" where
  "reads v t \<longleftrightarrow> t \<noteq> [] \<and> \<not> is_json_space (hd t) \<and> hd t \<notin> {CHR 0x5D, CHR 0x7D} \<and>
     (\<forall>n r. length t \<le> n \<longrightarrow> (r = [] \<or> \<not> is_number_char (hd r)) \<longrightarrow> parse_value n (t @ r) = Some (v, r))"

lemma parse_value_space [simp]: "parse_value n (CHR '' '' # s) = parse_value n s"
  by (cases n) (simp_all add: is_json_space_def)

lemma parse_members_space [simp]: "parse_members n (CHR '' '' # s) = parse_members n s"
  by (cases n) (simp_all add: is_json_space_def)

lemma parse_elems_space [simp]: "parse_elems n (CHR '' '' # s) = parse_elems n s"
  by (cases n) simp_all

lemma separatorE:
  assumes "separator [c] s"
  obtains "s = [c]" | "s = [c, CHR '' '']"
  using assms by (auto simp: separator_def)

lemma not_space [simp]:
  "\<not> is_json_space (CHR '','')" "\<not> is_json_space (CHR 0x5D)" "\<not> is_json_space (CHR 0x7D)"
  "\<not> is_json_space (CHR 0x22)" "\<not> is_json_space (CHR '':'')" "\<not> is_json_space (CHR 0x7B)" "\<not> is_json_space (CHR 0x5B)"
  by (simp_all add: is_json_space_def)

lemma not_number [simp]:
  "\<not> is_number_char (CHR '','')" "\<not> is_number_char (CHR 0x5D)" "\<not> is_number_char (CHR 0x7D)"
  by (simp_all add: is_number_char_def is_digit_char_def)

lemma parse_elems_join:
  assumes "list_all2 reads vs ts" "vs \<noteq> []" "separator '','' sep" "length (join_with sep ts) < n"
  shows "parse_elems n (join_with sep ts @ CHR 0x5D # r) = Some (vs, r)"
  using assms
proof (induction vs arbitrary: ts n)
  case (Cons v vs)
  from Cons.prems(1) obtain t us where ts: "ts = t # us" and v: "reads v t" and vs: "list_all2 reads vs us"
    by (auto simp: list_all2_Cons1)
  obtain m where n: "n = Suc m" using Cons.prems(4) by (cases n) auto
  show ?case
  proof (cases us)
    case Nil
    then have "parse_value m (t @ CHR 0x5D # r) = Some (v, CHR 0x5D # r)"
      using v Cons.prems(4) ts n by (simp add: reads_def)
    with Nil vs show ?thesis by (simp add: ts n)
  next
    case (Cons u us')
    let ?rest = "join_with sep us @ CHR 0x5D # r"
    have len: "length t \<le> m" "length (join_with sep us) < m"
      using \<open>length (join_with sep ts) < n\<close> \<open>separator '','' sep\<close> Cons ts n by (auto elim!: separatorE)
    have hd: "\<not> is_number_char (hd (sep @ x))" "sep @ x \<noteq> []" for x
      using \<open>separator '','' sep\<close> by (auto elim!: separatorE)
    have "parse_value m (t @ sep @ ?rest) = Some (v, sep @ ?rest)"
      using v len(1) hd by (simp add: reads_def)
    moreover have "parse_elems m ?rest = Some (vs, r)"
      using Cons.IH [OF vs _ \<open>separator '','' sep\<close> len(2)] Cons vs by auto
    moreover have "join_with sep ts @ CHR 0x5D # r = t @ sep @ ?rest" by (simp add: ts Cons)
    ultimately show ?thesis using \<open>separator '','' sep\<close>
      by (elim separatorE) (simp_all add: n)
  qed
qed simp

lemma parse_members_member:
  assumes v: "reads v t" and colon: "separator '':'' colon" and len: "length t \<le> m"
    and rest: "rest \<noteq> []" "\<not> is_number_char (hd rest)"
  shows "parse_members (Suc m) (member_text colon (k, t) @ rest) =
    (case skip_space rest of
       [] \<Rightarrow> None
     | d # ds \<Rightarrow>
         if d = CHR 0x7D then Some ([(k, v)], ds)
         else if d = CHR '','' then
           (case parse_members m ds of None \<Rightarrow> None | Some (es, r') \<Rightarrow> Some ((k, v) # es, r'))
         else None)"
proof -
  have "parse_value m (t @ rest) = Some (v, rest)"
    using v len rest by (simp add: reads_def)
  then show ?thesis using colon
    by (elim separatorE) (simp_all add: quote_string_def parse_quoted)
qed

lemma parse_members_join:
  assumes "list_all2 (\<lambda>e m. fst m = fst e \<and> reads (snd e) (snd m)) es ms" "es \<noteq> []"
    "separator '','' sep" "separator '':'' colon" "length (join_with sep (map (member_text colon) ms)) < n"
  shows "parse_members n (join_with sep (map (member_text colon) ms) @ CHR 0x7D # r) = Some (es, r)"
  using assms
proof (induction es arbitrary: ms n)
  case (Cons e es)
  from Cons.prems(1) obtain mem us where ms: "ms = mem # us" and e: "fst mem = fst e" "reads (snd e) (snd mem)"
    and es: "list_all2 (\<lambda>e m. fst m = fst e \<and> reads (snd e) (snd m)) es us"
    by (auto simp: list_all2_Cons1)
  obtain m where n: "n = Suc m" using Cons.prems(5) by (cases n) auto
  note sep = \<open>separator '','' sep\<close> and colon = \<open>separator '':'' colon\<close>
  show ?case
  proof (cases us)
    case Nil
    then have "length (snd mem) \<le> m" using Cons.prems(5) ms n by (simp add: quote_string_def)
    from parse_members_member [OF e(2) colon this, of "CHR 0x7D # r" "fst e"] Nil es show ?thesis
      using e(1) by (simp add: ms n)
  next
    case (Cons u us')
    let ?rest = "join_with sep (map (member_text colon) us) @ CHR 0x7D # r"
    have len: "length (snd mem) \<le> m" "length (join_with sep (map (member_text colon) us)) < m"
      using \<open>length (join_with sep (map (member_text colon) ms)) < n\<close> sep Cons ms n
      by (auto elim!: separatorE simp: quote_string_def)
    have hd: "\<not> is_number_char (hd (sep @ x))" "sep @ x \<noteq> []" for x
      using sep by (auto elim!: separatorE)
    have "parse_members m ?rest = Some (es, r)"
      using Cons.IH [OF es _ sep colon len(2)] Cons es by auto
    moreover have "join_with sep (map (member_text colon) ms) @ CHR 0x7D # r =
        member_text colon (fst e, snd mem) @ sep @ ?rest"
      by (simp add: ms Cons e(1))
    ultimately show ?thesis using sep parse_members_member [OF e(2) colon len(1) hd(2) hd(1), of "fst e" ?rest]
      unfolding n by (elim separatorE) simp_all
  qed
qed simp

lemma parse_number_text:
  assumes "list_all is_number_char s" "s \<noteq> []" "read_number s = Some v"
    and "hd s \<notin> {CHR ''n'', CHR ''t'', CHR ''f''}"
  shows "reads v s"
proof -
  have hd: "is_number_char (hd s)" using assms(1,2) by (cases s) auto
  then have ns: "\<not> is_json_space (hd s)" "hd s \<notin> {CHR 0x7B, CHR 0x5B, CHR 0x22, CHR 0x5D, CHR 0x7D}"
    by (auto simp: is_number_char_def is_json_space_def is_digit_char_def)
  have "parse_value n (s @ r) = Some (v, r)" if len: "length s \<le> n" and end_: "r = [] \<or> \<not> is_number_char (hd r)" for n r
  proof -
    obtain m where n: "n = Suc m" using len assms(2) by (cases n) auto
    obtain c cs where s: "s = c # cs" using assms(2) by (cases s) auto
    have "takeWhile is_number_char r = []" "dropWhile is_number_char r = r" using end_ by (cases r; auto)+
    then have "takeWhile is_number_char (s @ r) = s" "dropWhile is_number_char (s @ r) = r"
      using assms(1) by (simp_all add: list_all_iff)
    then show ?thesis using ns assms(3,4) by (simp add: n s)
  qed
  with ns assms(2) show ?thesis by (auto simp: reads_def)
qed

lemma show_int_hd: "hd (show_int n) \<notin> {CHR ''n'', CHR ''t'', CHR ''f''}"
proof (cases "n < 0")
  case False
  have "hd (show_nat (nat n)) \<in> set (show_nat (nat n))" by simp
  then have "is_digit_char (hd (show_nat (nat n)))" using show_nat_all_digits [of "nat n"] by (simp add: list_all_iff)
  with False show ?thesis by (auto simp: show_int_def is_digit_char_def)
qed (simp add: show_int_def)

lemma decimal_hd: "decimal_literal s \<Longrightarrow> hd s \<notin> {CHR ''n'', CHR ''t'', CHR ''f''}"
  using decimal_number_chars [of s]
  by (cases s) (auto simp: is_number_char_def is_digit_char_def)

lemma word_reads:
  assumes "w \<in> {''null'', ''true'', ''false''}"
    and "v = (if w = ''null'' then JNull else JBool (w = ''true''))"
  shows "reads v w"
proof -
  have "parse_value n (w @ r) = Some (v, r)" if len: "length w \<le> n" for n r
  proof -
    obtain m where "n = Suc m" using len assms(1) by (cases n) auto
    with assms show ?thesis by (auto simp: parse_word_def is_json_space_def)
  qed
  with assms(1) show ?thesis by (auto simp: reads_def is_json_space_def)
qed

lemma string_reads: "reads (JStr s) (quote_string s)"
proof -
  have "parse_value n (quote_string s @ r) = Some (JStr s, r)" if len: "length (quote_string s) \<le> n" for n r
  proof -
    obtain m where "n = Suc m" using len by (cases n) (auto simp: quote_string_def)
    then show ?thesis by (simp add: quote_string_def parse_quoted)
  qed
  then show ?thesis by (simp add: reads_def quote_string_def)
qed

lemma array_reads:
  assumes "list_all2 reads vs ts" "separator '','' sep"
  shows "reads (JArr vs) (''['' @ join_with sep ts @ '']'')"
proof -
  have "parse_value n ((''['' @ join_with sep ts @ '']'') @ r) = Some (JArr vs, r)"
    if len: "length (''['' @ join_with sep ts @ '']'') \<le> n" for n r
  proof -
    obtain m where n: "n = Suc m" using len by (cases n) auto
    show ?thesis
    proof (cases vs)
      case Nil
      with assms(1) show ?thesis by (simp add: n)
    next
      case (Cons v vs')
      with assms(1) obtain t us where ts: "ts = t # us" "reads v t" by (auto simp: list_all2_Cons1)
      have t: "t \<noteq> []" "\<not> is_json_space (hd t)" "hd t \<noteq> CHR 0x5D" using ts(2) by (simp_all add: reads_def)
      then obtain c cs where j: "join_with sep ts = c # cs" "\<not> is_json_space c" "c \<noteq> CHR 0x5D"
        using ts(1) by (cases t; cases us) auto
      have "parse_elems m (join_with sep ts @ CHR 0x5D # r) = Some (vs, r)"
        using parse_elems_join [OF assms(1) _ assms(2)] Cons len n by simp
      then show ?thesis using j by (simp add: n)
    qed
  qed
  then show ?thesis by (simp add: reads_def)
qed

lemma fromEntries_Nil [simp]: "fromEntries [] = JObj []"
  by (simp add: fromEntries_def own_order_def js_map_new_def)

lemma object_reads:
  assumes "list_all2 (\<lambda>e m. fst m = fst e \<and> reads (snd e) (snd m)) es ms" "separator '','' sep" "separator '':'' colon"
  shows "reads (fromEntries es) (''{'' @ join_with sep (map (member_text colon) ms) @ ''}'')"
proof -
  have "parse_value n ((''{'' @ join_with sep (map (member_text colon) ms) @ ''}'') @ r) = Some (fromEntries es, r)"
    if len: "length (''{'' @ join_with sep (map (member_text colon) ms) @ ''}'') \<le> n" for n r
  proof -
    obtain m where n: "n = Suc m" using len by (cases n) auto
    show ?thesis
    proof (cases es)
      case Nil
      with assms(1) show ?thesis by (simp add: n)
    next
      case (Cons e es')
      with assms(1) obtain mem us where ms: "ms = mem # us" by (auto simp: list_all2_Cons1)
      then obtain cs where j: "join_with sep (map (member_text colon) ms) = CHR 0x22 # cs"
        by (cases us) (auto simp: quote_string_def)
      have "parse_members m (join_with sep (map (member_text colon) ms) @ CHR 0x7D # r) = Some (es, r)"
        using parse_members_join [OF assms(1) _ assms(2,3)] Cons len n by simp
      then show ?thesis using j by (simp add: n)
    qed
  qed
  then show ?thesis by (simp add: reads_def)
qed

lemma json_text_reads: "json_text v t \<Longrightarrow> reads v t"
proof (induction rule: json_text.induct)
  case (int n)
  show ?case using show_int_number_chars show_int_hd by (intro parse_number_text) (auto simp: read_number_show_int)
next
  case (dec l)
  then show ?case using decimal_number_chars decimal_hd
    by (intro parse_number_text) (auto simp: read_number_decimal)
next
  case (arr vs ts sep)
  then show ?case by (intro array_reads) (auto elim: list_all2_mono)
next
  case (obj es ms sep colon)
  then show ?case by (intro object_reads) (auto elim: list_all2_mono)
qed (auto intro: word_reads string_reads)

lemma JSON_parse_text: "json_text v t \<Longrightarrow> JSON_parse t = Some v"
proof -
  assume "json_text v t"
  then have "length t \<le> Suc (length t) \<longrightarrow> parse_value (Suc (length t)) (t @ []) = Some (v, [])"
    using json_text_reads [of v t] unfolding reads_def by blast
  then have "parse_value (Suc (length t)) t = Some (v, [])" by (simp del: parse_value.simps)
  then show ?thesis by (simp add: JSON_parse_def del: parse_value.simps)
qed

section \<open>Well-formed values\<close>

text \<open>
  The values a program can hold: numbers that JavaScript prints as given, objects whose
  properties are distinct and in JavaScript's order. \<open>plain\<close> values contain neither \<open>undefined\<close> nor
  dates, as every parsed document.
\<close>

fun wf_json :: "json \<Rightarrow> bool" where
  "wf_json (JDec l) = decimal_literal l"
| "wf_json (JArr vs) = list_all wf_json vs"
| "wf_json (JObj es) = (distinct (map fst es) \<and> own_order es = es \<and> list_all (\<lambda>e. wf_json (snd e)) es)"
| "wf_json _ = True"

fun defined :: "json \<Rightarrow> bool" where
  "defined JUndefined = False"
| "defined (JArr vs) = list_all defined vs"
| "defined (JObj es) = list_all (\<lambda>e. defined (snd e)) es"
| "defined _ = True"

fun plain :: "json \<Rightarrow> bool" where
  "plain JUndefined = False"
| "plain (JDate _) = False"
| "plain (JArr vs) = list_all plain vs"
| "plain (JObj es) = list_all (\<lambda>e. plain (snd e)) es"
| "plain _ = True"

lemma js_map_new_distinct: "distinct (map fst es) \<Longrightarrow> js_map_new es = es"
proof -
  have "distinct (map fst (acc @ es)) \<Longrightarrow> foldl (\<lambda>m (k, v). js_set k v m) acc es = acc @ es" for acc
  proof (induction es arbitrary: acc)
    case (Cons e es)
    have "js_set (fst e) (snd e) acc = acc @ [(fst e, snd e)]"
      using Cons.prems by (induction acc) auto
    with Cons show ?case by (cases e) simp
  qed simp
  then show "distinct (map fst es) \<Longrightarrow> js_map_new es = es"
    using append_Nil unfolding js_map_new_def by (metis (no_types))
qed

lemma fromEntries_wf: "distinct (map fst es) \<Longrightarrow> own_order es = es \<Longrightarrow> fromEntries es = JObj es"
  by (simp add: fromEntries_def js_map_new_distinct)

text \<open>Stringifying a well-formed plain value gives a text of it.\<close>

lemma stringify_text:
  shows "wf_json v \<Longrightarrow> plain v \<Longrightarrow> \<exists>t. JSON_stringify v = Some t \<and> json_text v t"
    and "list_all wf_json vs \<Longrightarrow> list_all plain vs \<Longrightarrow> list_all2 json_text vs (stringify_elems vs)"
    and "list_all (\<lambda>e. wf_json (snd e)) es \<Longrightarrow> list_all (\<lambda>e. plain (snd e)) es \<Longrightarrow>
      \<exists>ms. stringify_members es = map (member_text '':'') ms \<and>
        list_all2 (\<lambda>e m. fst m = fst e \<and> json_text (snd e) (snd m)) es ms"
proof (induction v and vs and es rule: JSON_stringify_stringify_elems_stringify_members.induct)
  case (9 es)
  then obtain ms where "stringify_members es = map (member_text '':'') ms"
    "list_all2 (\<lambda>e m. fst m = fst e \<and> json_text (snd e) (snd m)) es ms" by auto
  with json_text.obj [of es ms "'',''" "'':''"] 9(2) show ?case
    by (simp add: separator_def fromEntries_wf)
next
  case (8 vs)
  then show ?case using json_text.arr [of vs "stringify_elems vs" "'',''"] by (simp add: separator_def)
next
  case (11 v vs)
  then show ?case by auto
next
  case (13 k v es)
  then obtain t ms where t: "JSON_stringify v = Some t" "json_text v t"
    and ms: "stringify_members es = map (member_text '':'') ms"
      "list_all2 (\<lambda>e m. fst m = fst e \<and> json_text (snd e) (snd m)) es ms" by auto
  then show ?case by (intro exI [of _ "(k, t) # ms"]) simp
qed (auto intro: json_text.intros simp: separator_def)

lemma JSON_parse_stringify:
  assumes "wf_json v" "plain v"
  shows "\<exists>t. JSON_stringify v = Some t \<and> JSON_parse t = Some v"
  using stringify_text(1) [OF assms] JSON_parse_text by blast

section \<open>Canonical form\<close>

lemma code_unit_less_irrefl [simp]: "\<not> code_unit_less x x"
  by (induction x) auto

lemma code_unit_less_trans: "code_unit_less x y \<Longrightarrow> code_unit_less y z \<Longrightarrow> code_unit_less x z"
proof (induction x y arbitrary: z rule: code_unit_less.induct)
  case (2 y ys)
  then show ?case by (cases z) auto
next
  case (3 x xs y ys)
  then show ?case by (cases z) auto
qed simp

lemma code_unit_less_total: "x \<noteq> y \<Longrightarrow> code_unit_less x y \<or> code_unit_less y x"
proof (induction x y rule: code_unit_less.induct)
  case (1 x)
  then show ?case by (cases x) auto
next
  case (3 x xs y ys)
  have "x \<noteq> y \<Longrightarrow> (of_char x :: nat) \<noteq> of_char y" by simp
  with 3 show ?case by (auto simp: nat_neq_iff)
qed simp

interpretation code_units: comparator code_unit_cmp
proof
  fix x y z
  show "code_unit_cmp x y < 0 \<longleftrightarrow> 0 < code_unit_cmp y x"
    using code_unit_less_total [of x y] code_unit_less_trans [of x y x] by (auto simp: code_unit_cmp_def)
  show "code_unit_cmp x y \<le> 0 \<Longrightarrow> code_unit_cmp y z \<le> 0 \<Longrightarrow> code_unit_cmp x z \<le> 0"
    using code_unit_less_trans [of x y z] by (auto simp: code_unit_cmp_def split: if_splits)
qed

interpretation lengths: comparator length_then_cmp
proof
  fix x y z
  show "length_then_cmp x y < 0 \<longleftrightarrow> 0 < length_then_cmp y x"
    using code_unit_less_total [of x y] code_unit_less_trans [of x y x]
    by (auto simp: length_then_cmp_def Let_def)
  show "length_then_cmp x y \<le> 0 \<Longrightarrow> length_then_cmp y z \<le> 0 \<Longrightarrow> length_then_cmp x z \<le> 0"
    using code_unit_less_trans [of x y z] code_unit_less_total [of x y] code_unit_less_total [of y z]
    by (auto simp: length_then_cmp_def Let_def split: if_splits dest: code_unit_less_trans)
qed

interpretation member_order: comparator "\<lambda>(x :: string \<times> 'a) (y :: string \<times> 'a). code_unit_cmp (fst x) (fst y)"
  by (rule comparator_on [OF code_units.comparator_axioms])

interpretation jsonb_order: comparator "\<lambda>(x :: string \<times> 'a) (y :: string \<times> 'a). length_then_cmp (fst x) (fst y)"
  by (rule comparator_on [OF lengths.comparator_axioms])

interpretation index_order: comparator
  "\<lambda>(x :: string \<times> 'a) (y :: string \<times> 'a). int (read_nat (fst x)) - int (read_nat (fst y))"
  by (rule comparator_key)

lemma mset_own_order [simp]: "mset (own_order es) = mset es"
  by (simp add: own_order_def mset_filter)

lemma set_own_order [simp]: "set (own_order es) = set es"
  by (metis mset_own_order set_mset_mset)

lemma distinct_own_order [simp]: "distinct (map fst (own_order es)) = distinct (map fst es)"
  by (rule mset_distinct_map) simp

lemma own_order_idem [simp]: "own_order (own_order es) = own_order es"
proof -
  let ?s = "js_sort (\<lambda>x y. int (read_nat (fst x)) - int (read_nat (fst y))) (filter (\<lambda>e. is_index_key (fst e)) es)"
  have "filter (\<lambda>e. is_index_key (fst e)) ?s = ?s" "filter (\<lambda>e. \<not> is_index_key (fst e)) ?s = []"
    by (auto simp: filter_id_conv filter_empty_conv)
  then show ?thesis
    by (simp add: own_order_def index_order.js_sort_sorted [OF index_order.sorted_js_sort])
qed

lemma canonicalize_maps:
  "canonicalize_elems vs = map canonicalize vs"
  "canonicalize_members es = map (\<lambda>e. (fst e, canonicalize (snd e))) es"
  by (induction vs; simp) (induction es; auto)

lemma canonicalize_Obj:
  assumes "distinct (map fst es)"
  shows "canonicalize (JObj es) = JObj (own_order
    (js_sort (\<lambda>x y. code_unit_cmp (fst x) (fst y)) (map (\<lambda>e. (fst e, canonicalize (snd e))) es)))"
proof -
  have "distinct (map fst (js_sort (\<lambda>x y. code_unit_cmp (fst x) (fst y)) (map (\<lambda>e. (fst e, canonicalize (snd e))) es)))"
    using assms mset_distinct_map [OF mset_js_sort] by (metis (no_types, lifting) comp_def fst_conv map_eq_conv map_map)
  then show ?thesis by (simp add: canonicalize_maps fromEntries_def js_map_new_distinct)
qed

lemma canonicalize_wf: "wf_json v \<Longrightarrow> defined v \<Longrightarrow> wf_json (canonicalize v) \<and> plain (canonicalize v)"
proof (induction v)
  case (JArr vs)
  then show ?case by (auto simp: canonicalize_maps list_all_iff)
next
  case (JObj es)
  let ?ms = "map (\<lambda>e. (fst e, canonicalize (snd e))) es"
  have d: "distinct (map fst es)" using JObj.prems by simp
  have "wf_json (canonicalize (snd e)) \<and> plain (canonicalize (snd e))" if "e \<in> set es" for e
    using JObj.IH [of e "snd e"] JObj.prems that by (cases e) (fastforce simp: list_all_iff)
  moreover have "distinct (map fst ?ms)" using d by (simp add: comp_def)
  then have "distinct (map fst (js_sort (\<lambda>x y. code_unit_cmp (fst x) (fst y)) ?ms))"
    using mset_distinct_map [OF mset_js_sort] by blast
  ultimately show ?case unfolding canonicalize_Obj [OF d] by (auto simp: list_all_iff)
qed simp_all

lemma canonicalJson_parse:
  assumes "wf_json v" "defined v"
  shows "\<exists>t. canonicalJson v = Inr t \<and> JSON_parse t = Some (canonicalize v)"
proof -
  obtain t where "JSON_stringify (canonicalize v) = Some t" "JSON_parse t = Some (canonicalize v)"
    using JSON_parse_stringify canonicalize_wf [OF assms] by blast
  then show ?thesis by (simp add: canonicalJson_def)
qed

section \<open>Same content, same text\<close>

text \<open>Two plain values have the same content when they differ at most in the order of properties.\<close>

inductive same_content :: "json \<Rightarrow> json \<Rightarrow> bool" where
  same: "same_content v v"
| arr: "list_all2 same_content vs ws \<Longrightarrow> same_content (JArr vs) (JArr ws)"
| obj: "list_all2 (\<lambda>e f. fst e = fst f \<and> same_content (snd e) (snd f)) es fs' \<Longrightarrow> mset fs' = mset fs \<Longrightarrow>
    same_content (JObj es) (JObj fs)"

abbreviation canonical_member :: "string \<times> json \<Rightarrow> string \<times> json" where
  "canonical_member e \<equiv> (fst e, canonicalize (snd e))"

lemma members_keys_unique:
  "distinct (map fst es) \<Longrightarrow> x \<in> set es \<Longrightarrow> y \<in> set es \<Longrightarrow> fst x = fst y \<Longrightarrow> x = y"
  by (metis eq_key_imp_eq_value prod.collapse)

lemma code_unit_cmp_0 [simp]: "code_unit_cmp x y = 0 \<longleftrightarrow> x = y"
  by (auto simp: code_unit_cmp_def)

lemma length_then_cmp_0 [simp]: "length_then_cmp x y = 0 \<longleftrightarrow> x = y"
  using code_unit_less_total [of x y] by (auto simp: length_then_cmp_def Let_def split: if_splits)

lemma canonicalize_perm:
  assumes "distinct (map fst es)" "mset (map canonical_member es) = mset (map canonical_member fs)"
  shows "canonicalize (JObj es) = canonicalize (JObj fs)"
proof -
  have k1: "distinct (map fst (map canonical_member es))" using assms(1) by (simp add: comp_def)
  then have "distinct (map fst (map canonical_member fs))" using mset_distinct_map [OF assms(2)] by blast
  then have k2: "distinct (map fst fs)" by (simp add: comp_def)
  have "js_sort (\<lambda>x y. code_unit_cmp (fst x) (fst y)) (map canonical_member es) =
    js_sort (\<lambda>x y. code_unit_cmp (fst x) (fst y)) (map canonical_member fs)"
    using members_keys_unique [OF k1] by (intro member_order.js_sort_perm [OF assms(2)]) auto
  then show ?thesis using canonicalize_Obj [OF assms(1)] canonicalize_Obj [OF k2] by simp
qed

lemma same_content_canonicalize: "same_content v w \<Longrightarrow> wf_json v \<Longrightarrow> canonicalize v = canonicalize w"
proof (induction rule: same_content.induct)
  case (arr vs ws)
  then have "map canonicalize vs = map canonicalize ws"
    by (induction rule: list_all2_induct) auto
  then show ?case by (simp add: canonicalize_maps)
next
  case (obj es fs' fs)
  have "list_all (\<lambda>e. wf_json (snd e)) es" using obj.prems by simp
  with obj.IH have "map canonical_member es = map canonical_member fs'"
    by (induction rule: list_all2_induct) auto
  with obj.hyps have "mset (map canonical_member es) = mset (map canonical_member fs)" by simp
  with obj.prems show ?case by (intro canonicalize_perm) simp_all
qed simp

lemma canonicalize_leafD:
  "v = canonicalize w \<Longrightarrow> plain w \<Longrightarrow> \<forall>vs. v \<noteq> JArr vs \<Longrightarrow> \<forall>es. v \<noteq> JObj es \<Longrightarrow> w = v"
  by (cases w) (auto simp: fromEntries_def)

lemma canonicalize_ArrE:
  assumes "plain w" "canonicalize w = JArr us"
  obtains ws where "w = JArr ws" "us = map canonicalize ws"
  using assms by (cases w) (auto simp: canonicalize_maps fromEntries_def)

lemma canonicalize_ObjE:
  assumes "plain w" "canonicalize w = JObj ms"
  obtains fs where "w = JObj fs"
  using assms by (cases w) auto

lemma canonicalize_same_content:
  "wf_json v \<Longrightarrow> plain v \<Longrightarrow> wf_json w \<Longrightarrow> plain w \<Longrightarrow> canonicalize v = canonicalize w \<Longrightarrow> same_content v w"
proof (induction v arbitrary: w)
  case (JArr vs)
  then have "canonicalize w = JArr (map canonicalize vs)" by (simp add: canonicalize_maps)
  then obtain ws where w: "w = JArr ws" "map canonicalize vs = map canonicalize ws"
    using JArr.prems(4) by (elim canonicalize_ArrE) auto
  then have "list_all2 same_content vs ws"
    using JArr by (auto simp: list_all2_conv_all_nth list_all_length map_equality_iff)
  then show ?case by (simp add: w same_content.arr)
next
  case (JObj es)
  have d: "distinct (map fst es)" using JObj.prems by simp
  obtain fs where w: "w = JObj fs"
    using JObj.prems(4,5) unfolding canonicalize_Obj [OF d] by (auto elim: canonicalize_ObjE [OF _ sym])
  have f: "distinct (map fst fs)" using JObj.prems w by simp
  have "mset (map canonical_member es) = mset (map canonical_member fs)"
  proof -
    have "own_order (js_sort (\<lambda>x y. code_unit_cmp (fst x) (fst y)) (map canonical_member es)) =
      own_order (js_sort (\<lambda>x y. code_unit_cmp (fst x) (fst y)) (map canonical_member fs))"
      using JObj.prems(5) unfolding w canonicalize_Obj [OF d] canonicalize_Obj [OF f] by (rule json.inject(7) [THEN iffD1])
    from arg_cong [OF this, of mset] show ?thesis by (simp only: mset_js_sort mset_own_order)
  qed
  moreover have "list_all2 (\<lambda>m f. m = canonical_member f) (map canonical_member fs) fs"
    by (simp add: list_all2_conv_all_nth)
  ultimately obtain fs' where fs': "list_all2 (\<lambda>m f. m = canonical_member f) (map canonical_member es) fs'"
    "mset fs' = mset fs"
    using list_all2_reorder_left_invariance [of "\<lambda>m f. m = canonical_member f" "map canonical_member fs" fs] by blast
  have "list_all2 (\<lambda>e f. fst e = fst f \<and> same_content (snd e) (snd f)) es fs'"
  proof (rule list_all2_all_nthI)
    show len: "length es = length fs'" using fs'(1) by (auto dest: list_all2_lengthD)
    fix i assume i: "i < length es"
    then have "canonical_member (es ! i) = canonical_member (fs' ! i)"
      using fs'(1) by (auto simp: list_all2_conv_all_nth)
    moreover have "fs' ! i \<in> set fs'" using i len by simp
    then have "fs' ! i \<in> set fs" using mset_eq_setD [OF fs'(2)] by simp
    ultimately have c: "fst (es ! i) = fst (fs' ! i)" "canonicalize (snd (es ! i)) = canonicalize (snd (fs' ! i))"
      and f: "wf_json (snd (fs' ! i))" "plain (snd (fs' ! i))"
      using JObj.prems(3,4) by (simp_all add: w list_all_iff)
    have e: "es ! i \<in> set es" using i by simp
    have "same_content (snd (es ! i)) (snd (fs' ! i))"
      by (rule JObj.IH [OF e _ _ _ f c(2)]) (use JObj.prems(1,2) e in \<open>auto simp: list_all_iff snds.simps prod_eq_iff\<close>)
    with c(1) show "fst (es ! i) = fst (fs' ! i) \<and> same_content (snd (es ! i)) (snd (fs' ! i))" ..
  qed
  with fs'(2) show ?case by (simp add: w same_content.obj)
qed (simp_all, (drule (1) canonicalize_leafD, simp_all add: same_content.same)+)

section \<open>The serialisation in jsonb order\<close>

lemma js_insert_rel:
  assumes "\<And>x x' y y'. R x y \<Longrightarrow> R x' y' \<Longrightarrow> cmp x x' = cmp' y y'" "R x y" "list_all2 R xs ys"
  shows "list_all2 R (js_insert cmp x xs) (js_insert cmp' y ys)"
  using assms(3)
proof (induction rule: list_all2_induct)
  case (Cons u us v vs)
  then show ?case using assms(1) [OF assms(2) Cons.hyps(1)] assms(2) by simp
qed (simp add: assms(2))

lemma js_sort_rel:
  assumes "\<And>x x' y y'. R x y \<Longrightarrow> R x' y' \<Longrightarrow> cmp x x' = cmp' y y'" "list_all2 R xs ys"
  shows "list_all2 R (js_sort cmp xs) (js_sort cmp' ys)"
  using assms(2) by (induction rule: list_all2_induct) (auto intro: js_insert_rel [OF assms(1)])

text \<open>The value a reader gets from the text: the members in length-then-code-unit order.\<close>

fun jsonb_value :: "json \<Rightarrow> json"
and jsonb_elems :: "json list \<Rightarrow> json list"
and jsonb_members :: "(string \<times> json) list \<Rightarrow> (string \<times> json) list" where
  "jsonb_value (JArr vs) = JArr (jsonb_elems vs)"
| "jsonb_value (JDate s) = JStr s"
| "jsonb_value (JObj es) = fromEntries (js_sort (\<lambda>x y. length_then_cmp (fst x) (fst y)) (jsonb_members es))"
| "jsonb_value v = v"
| "jsonb_elems [] = []"
| "jsonb_elems (v # vs) = jsonb_value v # jsonb_elems vs"
| "jsonb_members [] = []"
| "jsonb_members ((k, v) # es) = (k, jsonb_value v) # jsonb_members es"

lemma serializePostgresJsonb_text:
  shows "wf_json v \<Longrightarrow> defined v \<Longrightarrow> \<exists>t. serializePostgresJsonb v = Inr t \<and> json_text (jsonb_value v) t"
    and "list_all wf_json vs \<Longrightarrow> list_all defined vs \<Longrightarrow>
      \<exists>ts. serialize_elems vs = Inr ts \<and> list_all2 json_text (jsonb_elems vs) ts"
    and "list_all (\<lambda>e. wf_json (snd e)) es \<Longrightarrow> list_all (\<lambda>e. defined (snd e)) es \<Longrightarrow>
      \<exists>ms. serialize_members es = Inr ms \<and>
        list_all2 (\<lambda>e m. fst m = fst e \<and> json_text (snd e) (snd m)) (jsonb_members es) ms"
proof (induction v and vs and es rule: jsonb_value_jsonb_elems_jsonb_members.induct)
  case (1 vs)
  then obtain ts where "serialize_elems vs = Inr ts" "list_all2 json_text (jsonb_elems vs) ts" by auto
  with json_text.arr [of "jsonb_elems vs" ts "'', ''"] show ?case by (simp add: separator_def)
next
  case (3 es)
  let ?R = "\<lambda>(e :: string \<times> json) (m :: string \<times> string). fst m = fst e \<and> json_text (snd e) (snd m)"
  from 3 obtain ms where ms: "serialize_members es = Inr ms" "list_all2 ?R (jsonb_members es) ms" by auto
  then have "list_all2 ?R (js_sort (\<lambda>x y. length_then_cmp (fst x) (fst y)) (jsonb_members es))
    (js_sort (\<lambda>x y. length_then_cmp (fst x) (fst y)) ms)"
    by (intro js_sort_rel) auto
  from json_text.obj [OF this, of "'', ''" "'': ''"] ms(1) show ?case
    by (simp add: separator_def split_def)
next
  case (6 v vs)
  then obtain t ts where "serializePostgresJsonb v = Inr t" "json_text (jsonb_value v) t"
    "serialize_elems vs = Inr ts" "list_all2 json_text (jsonb_elems vs) ts" by auto
  then show ?case by simp
next
  case (8 k v es)
  then obtain t ms where "serializePostgresJsonb v = Inr t" "json_text (jsonb_value v) t"
    "serialize_members es = Inr ms"
    "list_all2 (\<lambda>e m. fst m = fst e \<and> json_text (snd e) (snd m)) (jsonb_members es) ms" by auto
  then show ?case by simp
qed (auto intro: json_text.intros)

lemma jsonb_maps:
  "jsonb_elems vs = map jsonb_value vs"
  "jsonb_members es = map (\<lambda>e. (fst e, jsonb_value (snd e))) es"
  by (induction vs; simp) (induction es; auto)

lemma jsonb_Obj:
  assumes "distinct (map fst es)"
  shows "\<exists>ms. jsonb_value (JObj es) = JObj ms \<and> mset ms = mset (map (\<lambda>e. (fst e, jsonb_value (snd e))) es) \<and>
    distinct (map fst ms) \<and> own_order ms = ms"
proof -
  let ?ms = "js_sort (\<lambda>x y. length_then_cmp (fst x) (fst y)) (map (\<lambda>e. (fst e, jsonb_value (snd e))) es)"
  have "distinct (map fst (map (\<lambda>e. (fst e, jsonb_value (snd e))) es))" using assms by (simp add: comp_def)
  then have "distinct (map fst ?ms)" using mset_distinct_map [OF mset_js_sort] by blast
  then show ?thesis
    by (intro exI [of _ "own_order ?ms"]) (simp add: jsonb_maps fromEntries_def js_map_new_distinct)
qed

lemma jsonb_value_ok:
  "wf_json v \<Longrightarrow> defined v \<Longrightarrow>
   wf_json (jsonb_value v) \<and> plain (jsonb_value v) \<and> canonicalize (jsonb_value v) = canonicalize v"
proof (induction v)
  case (JArr vs)
  then show ?case by (auto simp: jsonb_maps canonicalize_maps list_all_iff)
next
  case (JObj es)
  have d: "distinct (map fst es)" using JObj.prems by simp
  from jsonb_Obj [OF d] obtain ms where ms: "jsonb_value (JObj es) = JObj ms"
    "mset ms = mset (map (\<lambda>e. (fst e, jsonb_value (snd e))) es)" "distinct (map fst ms)" "own_order ms = ms" by blast
  have ih: "wf_json (jsonb_value (snd e)) \<and> plain (jsonb_value (snd e)) \<and> canonicalize (jsonb_value (snd e)) = canonicalize (snd e)"
    if "e \<in> set es" for e
    using JObj.IH [of e "snd e"] JObj.prems that by (cases e) (fastforce simp: list_all_iff)
  have set: "set ms = (\<lambda>e. (fst e, jsonb_value (snd e))) ` set es"
    using arg_cong [OF ms(2), of set_mset] by simp
  have "mset (map canonical_member ms) = image_mset canonical_member (mset (map (\<lambda>e. (fst e, jsonb_value (snd e))) es))"
    using ms(2) by simp
  also have "\<dots> = mset (map canonical_member es)"
    using ih by (auto simp: image_mset.compositionality comp_def intro!: image_mset_cong)
  finally have "canonicalize (JObj ms) = canonicalize (JObj es)" by (intro canonicalize_perm ms(3))
  moreover have "wf_json (JObj ms)" "plain (JObj ms)" using ms(3,4) set ih by (auto simp: list_all_iff)
  ultimately show ?case unfolding ms(1) by blast
qed simp_all

lemma postgresJsonb_parse:
  assumes "wf_json v" "defined v"
  shows "\<exists>t. postgresJsonbCanonicalJson v = Inr t \<and> JSON_parse t = Some (jsonb_value v)"
  using serializePostgresJsonb_text(1) [OF assms] JSON_parse_text by (auto simp: postgresJsonbCanonicalJson_def)

definition jsonb_text :: "json \<Rightarrow> string" where
  "jsonb_text v = projr (serializePostgresJsonb v)"

lemma serialize_ok: "wf_json v \<Longrightarrow> defined v \<Longrightarrow> serializePostgresJsonb v = Inr (jsonb_text v)"
  using serializePostgresJsonb_text(1) [of v] by (auto simp: jsonb_text_def)

lemma plain_defined: "plain v \<Longrightarrow> defined v"
  by (induction v) (auto simp: list_all_iff)

lemma serialize_lists:
  "list_all (\<lambda>v. wf_json v \<and> defined v) vs \<Longrightarrow> serialize_elems vs = Inr (map jsonb_text vs)"
  "list_all (\<lambda>e. wf_json (snd e) \<and> defined (snd e)) es \<Longrightarrow>
    serialize_members es = Inr (map (\<lambda>e. (fst e, jsonb_text (snd e))) es)"
proof -
  show "list_all (\<lambda>v. wf_json v \<and> defined v) vs \<Longrightarrow> serialize_elems vs = Inr (map jsonb_text vs)"
    by (induction vs) (auto simp: serialize_ok)
  show "list_all (\<lambda>e. wf_json (snd e) \<and> defined (snd e)) es \<Longrightarrow>
    serialize_members es = Inr (map (\<lambda>e. (fst e, jsonb_text (snd e))) es)"
    by (induction es) (auto simp: serialize_ok)
qed

lemma same_content_jsonb:
  "same_content v w \<Longrightarrow> wf_json v \<Longrightarrow> defined v \<Longrightarrow> wf_json w \<Longrightarrow> defined w \<Longrightarrow>
   serializePostgresJsonb v = serializePostgresJsonb w"
proof (induction rule: same_content.induct)
  case (arr vs ws)
  have "list_all (\<lambda>v. wf_json v \<and> defined v) vs" "list_all (\<lambda>v. wf_json v \<and> defined v) ws"
    using arr.prems by (simp_all add: list_all_iff)
  moreover from arr.IH this have "map jsonb_text vs = map jsonb_text ws"
    by (induction rule: list_all2_induct) (auto simp: list_all_iff jsonb_text_def)
  ultimately show ?case by (simp add: serialize_lists)
next
  case (obj es fs' fs)
  let ?g = "\<lambda>e :: string \<times> json. (fst e, jsonb_text (snd e))"
  let ?cmp = "\<lambda>x y :: string \<times> string. length_then_cmp (fst x) (fst y)"
  have ok: "list_all (\<lambda>e. wf_json (snd e) \<and> defined (snd e)) es" "list_all (\<lambda>e. wf_json (snd e) \<and> defined (snd e)) fs"
    using obj.prems by (simp_all add: list_all_iff)
  then have "list_all (\<lambda>e. wf_json (snd e) \<and> defined (snd e)) fs'"
    using mset_eq_setD [OF obj.hyps] by (simp add: list_all_iff)
  with obj.IH ok(1) have "map ?g es = map ?g fs'"
    by (induction rule: list_all2_induct) (auto simp: list_all_iff jsonb_text_def)
  with obj.hyps have m: "mset (map ?g es) = mset (map ?g fs)" by simp
  have k: "distinct (map fst (map ?g es))" using obj.prems(1) by (simp add: comp_def)
  have "js_sort ?cmp (map ?g es) = js_sort ?cmp (map ?g fs)"
    using members_keys_unique [OF k] by (intro jsonb_order.js_sort_perm [OF m]) auto
  then show ?case by (simp add: serialize_lists(2) [OF ok(1)] serialize_lists(2) [OF ok(2)])
qed simp

section \<open>Properties\<close>

text \<open>
  C18. Both serialisations succeed on every value without \<open>undefined\<close> and can be read back: the
  canonical text parses to the canonical form of the value, and the jsonb-ordered text to a value
  with the same canonical form.
\<close>

theorem canonicalJson_roundtrip:
  assumes "wf_json v" "defined v"
  shows "(\<exists>t. canonicalJson v = Inr t \<and> JSON_parse t = Some (canonicalize v)) \<and>
    (\<exists>t w. postgresJsonbCanonicalJson v = Inr t \<and> JSON_parse t = Some w \<and> canonicalize w = canonicalize v)"
  using canonicalJson_parse [OF assms] postgresJsonb_parse [OF assms] jsonb_value_ok [OF assms] by blast

text \<open>
  C19. The canonical texts identify content: two values have the same text, in either
  serialisation, exactly when they are the same up to the order of object properties. A hash of
  the text therefore depends on the content only.
\<close>

theorem canonicalJson_content:
  assumes "wf_json v" "plain v" "wf_json w" "plain w"
  shows "(canonicalJson v = canonicalJson w \<longleftrightarrow> same_content v w) \<and>
    (postgresJsonbCanonicalJson v = postgresJsonbCanonicalJson w \<longleftrightarrow> same_content v w)"
proof -
  have d: "defined v" "defined w" using assms plain_defined by blast+
  have "canonicalJson v = canonicalJson w \<Longrightarrow> canonicalize v = canonicalize w"
    using canonicalJson_parse [OF assms(1) d(1)] canonicalJson_parse [OF assms(3) d(2)] by auto
  moreover have "postgresJsonbCanonicalJson v = postgresJsonbCanonicalJson w \<Longrightarrow> canonicalize v = canonicalize w"
    using postgresJsonb_parse [OF assms(1) d(1)] postgresJsonb_parse [OF assms(3) d(2)]
      jsonb_value_ok [OF assms(1) d(1)] jsonb_value_ok [OF assms(3) d(2)] by auto
  moreover have "same_content v w \<Longrightarrow> canonicalJson v = canonicalJson w"
    using same_content_canonicalize [of v w] assms(1) by (simp add: canonicalJson_def)
  moreover have "same_content v w \<Longrightarrow> postgresJsonbCanonicalJson v = postgresJsonbCanonicalJson w"
    using same_content_jsonb [of v w] assms d by (simp add: postgresJsonbCanonicalJson_def)
  ultimately show ?thesis using canonicalize_same_content [OF assms] by blast
qed

section \<open>Witnesses\<close>

definition example_document :: json where
  "example_document = JObj [(''b'', JArr [JInt 1, JNull]), (''a'', JStr ''x'')]"

definition example_reordered :: json where
  "example_reordered = JObj [(''a'', JStr ''x''), (''b'', JArr [JInt 1, JNull])]"

lemma example_document_ok:
  "wf_json example_document" "plain example_document" "defined example_document"
  "wf_json example_reordered" "plain example_reordered"
  by code_simp+

theorem canonicalJson_roundtrip_witness:
  "\<exists>t. canonicalJson example_document = Inr t \<and> JSON_parse t = Some example_reordered"
proof -
  have "canonicalize example_document = example_reordered" by code_simp
  with canonicalJson_roundtrip [OF example_document_ok(1,3)] show ?thesis by simp
qed

theorem canonicalJson_content_witness: "same_content example_document example_reordered"
proof -
  have "canonicalJson example_document = canonicalJson example_reordered" by code_simp
  with canonicalJson_content [OF example_document_ok(1,2) example_document_ok(4,5)] show ?thesis by blast
qed

end
