(* ===== verification/DataPublication.thy ===== *)
theory DataPublication
  imports Json
begin

text \<open>
  Versioned publication of data sets through Redis (\<open>src/src/cache/data-publication.ts\<close>). A
  publication is a set of immutable item payloads under keys that carry the revision, and a
  manifest that lists them with sizes and hashes; one pointer key per scope holds the manifest
  that readers follow. The Lua scripts that move the pointer are atomic, so each is one function
  on the Redis state; Redis itself is a map from keys to texts with optional expiry, and a clock.

  SHA-256 and the date parser of the platform are fields of \<open>publication_env\<close>. A pointer whose
  text is not a JSON object of the manifest's shape counts as invalid throughout.
\<close>

section \<open>Data\<close>

datatype publication_dataset = Fpl_core | Fpl_live | Fpl_market
datatype publication_state = State_active | State_scheduled | State_live | State_settled

fun dataset_text :: "publication_dataset \<Rightarrow> string" where
  "dataset_text Fpl_core = ''fpl:core''"
| "dataset_text Fpl_live = ''fpl:live''"
| "dataset_text Fpl_market = ''fpl:market''"

fun state_text :: "publication_state \<Rightarrow> string" where
  "state_text State_active = ''active''"
| "state_text State_scheduled = ''scheduled''"
| "state_text State_live = ''live''"
| "state_text State_settled = ''settled''"

record publication_scope =
  sc_dataset :: publication_dataset
  sc_seasonCode :: string
  sc_eventId :: "int option"

record manifest_item =
  mi_name :: string
  mi_key :: string
  mi_type :: string
  mi_count :: int
  mi_bytes :: int
  mi_sha256 :: string

record manifest =
  mf_dataset :: publication_dataset
  mf_seasonCode :: string
  mf_eventId :: "int option"
  mf_revision :: int
  mf_publicationId :: string
  mf_sourceCheckedAt :: string
  mf_lastSuccessfulFetchAt :: "string option"
  mf_publishedAt :: string
  mf_state :: publication_state
  mf_items :: "manifest_item list"

record publication_env =
  pe_sha256 :: "string \<Rightarrow> string"
  pe_validDate :: "string \<Rightarrow> bool"

text \<open>A date is its ISO text; \<open>None\<close> is an invalid \<open>Date\<close> object.\<close>

record publish_input =
  pi_scope :: publication_scope
  pi_revision :: int
  pi_publicationId :: string
  pi_sourceCheckedAt :: "string option"
  pi_lastSuccessfulFetchAt :: "string option option"
  pi_state :: publication_state
  pi_items :: "(string \<times> json) list"

datatype cache_error =
    DATA_PUBLICATION_SEASON_INVALID
  | DATA_PUBLICATION_EVENT_INVALID
  | DATA_PUBLICATION_CORE_EVENT_INVALID
  | DATA_PUBLICATION_REVISION_INVALID
  | DATA_PUBLICATION_ITEM_NAME_INVALID
  | DATA_PUBLICATION_ITEMS_EMPTY
  | DATA_PUBLICATION_ITEM_DUPLICATE
  | DATA_PUBLICATION_ITEM_INVALID
  | DATA_PUBLICATION_ITEM_SET_INVALID
  | DATA_PUBLICATION_SOURCE_TIME_INVALID
  | DATA_PUBLICATION_SUCCESSFUL_FETCH_TIME_INVALID
  | DATA_PUBLICATION_ID_INVALID
  | DATA_PUBLICATION_STATE_INVALID
  | DATA_PUBLICATION_STAGE_CONFLICT
  | DATA_PUBLICATION_ACTIVATION_FAILED
  | DATA_PUBLICATION_CAS_FAILED
  | DATA_PUBLICATION_RETIRE_INVALID

definition DATA_PUBLICATION_STAGING_TTL_MS :: int where
  "DATA_PUBLICATION_STAGING_TTL_MS = 15 * 60 * 1000"

definition DATA_PUBLICATION_RETIRED_TTL_MS :: int where
  "DATA_PUBLICATION_RETIRED_TTL_MS = 24 * 60 * 60 * 1000"

section \<open>Names and keys\<close>

definition is_hex_digit :: "char \<Rightarrow> bool" where
  "is_hex_digit c = (hex_value c \<noteq> None)"

definition isDataPublicationId :: "string \<Rightarrow> bool" where
  "isDataPublicationId v =
     (length v = 36 \<and>
      list_all (\<lambda>i. if i \<in> {8, 13, 18, 23} then v ! i = CHR ''-'' else is_hex_digit (v ! i)) [0..<36] \<and>
      v ! 14 \<in> set ''12345678'' \<and> v ! 19 \<in> set ''89abAB'')"

definition is_lower_hex :: "char \<Rightarrow> bool" where
  "is_lower_hex c = (is_hex_digit c \<and> c \<notin> set ''ABCDEF'')"

definition is_season_code :: "string \<Rightarrow> bool" where
  "is_season_code s = (length s = 4 \<and> list_all is_digit_char s)"

definition is_lower_char :: "char \<Rightarrow> bool" where
  "is_lower_char c = (97 \<le> (of_char c :: nat) \<and> (of_char c :: nat) \<le> 122)"

definition is_upper_char :: "char \<Rightarrow> bool" where
  "is_upper_char c = (65 \<le> (of_char c :: nat) \<and> (of_char c :: nat) \<le> 90)"

definition is_item_name :: "string \<Rightarrow> bool" where
  "is_item_name s = (s \<noteq> [] \<and> is_lower_char (hd s) \<and>
     list_all (\<lambda>c. is_lower_char c \<or> is_upper_char c \<or> is_digit_char c) (tl s))"

definition is_safe_integer :: "int \<Rightarrow> bool" where
  "is_safe_integer n = (\<bar>n\<bar> \<le> 9007199254740991)"

fun DATASET_ITEM_NAMES :: "publication_dataset \<Rightarrow> string list" where
  "DATASET_ITEM_NAMES Fpl_core =
     [''events'', ''teams'', ''players'', ''phases'', ''fixtures'', ''currentEventId'', ''selectionRules'']"
| "DATASET_ITEM_NAMES Fpl_live = [''eventLive'', ''fixtures'']"
| "DATASET_ITEM_NAMES Fpl_market = [''context'']"

definition LEGACY_CORE_ITEM_NAMES :: "string list" where
  "LEGACY_CORE_ITEM_NAMES = [''events'', ''teams'', ''players'', ''phases'', ''fixtures'', ''currentEventId'']"

definition hasExactNames :: "string list \<Rightarrow> string list \<Rightarrow> bool" where
  "hasExactNames names expected = (js_sort code_unit_cmp names = js_sort code_unit_cmp expected)"

definition hasExactItemNames :: "publication_dataset \<Rightarrow> string list \<Rightarrow> bool" where
  "hasExactItemNames d names = hasExactNames names (DATASET_ITEM_NAMES d)"

definition hasAcceptedItemNames :: "publication_dataset \<Rightarrow> string list \<Rightarrow> bool" where
  "hasAcceptedItemNames d names =
     (hasExactItemNames d names \<or> d = Fpl_core \<and> hasExactNames names LEGACY_CORE_ITEM_NAMES)"

definition isCanonicalState :: "publication_dataset \<Rightarrow> publication_state \<Rightarrow> bool" where
  "isCanonicalState d s = (if d = Fpl_live then s \<noteq> State_active else s = State_active)"

definition assertScope :: "publication_scope \<Rightarrow> (cache_error, unit) result" where
  "assertScope scope =
     (if \<not> is_season_code (sc_seasonCode scope) then Inl DATA_PUBLICATION_SEASON_INVALID
      else if sc_dataset scope = Fpl_live then
        (if coalesce (sc_eventId scope) 0 \<le> 0 then Inl DATA_PUBLICATION_EVENT_INVALID else Inr ())
      else if sc_eventId scope \<noteq> None then Inl DATA_PUBLICATION_CORE_EVENT_INVALID
      else Inr ())"

definition scopePrefix :: "publication_scope \<Rightarrow> (cache_error, string) result" where
  "scopePrefix scope =
     res_bind (assertScope scope) (\<lambda>_.
       Inr (''llm:data:'' @ dataset_text (sc_dataset scope) @ '':'' @ sc_seasonCode scope @
         (if sc_dataset scope = Fpl_live then '':'' @ show_int (the (sc_eventId scope)) else [])))"

definition activeDataPublicationKey :: "publication_scope \<Rightarrow> (cache_error, string) result" where
  "activeDataPublicationKey scope = res_bind (scopePrefix scope) (\<lambda>p. Inr (p @ '':active''))"

definition dataPublicationItemKey :: "publication_scope \<Rightarrow> int \<Rightarrow> string \<Rightarrow> (cache_error, string) result" where
  "dataPublicationItemKey scope revision itemName =
     (if \<not> is_safe_integer revision \<or> revision \<le> 0 then Inl DATA_PUBLICATION_REVISION_INVALID
      else if \<not> is_item_name itemName then Inl DATA_PUBLICATION_ITEM_NAME_INVALID
      else res_bind (scopePrefix scope) (\<lambda>p. Inr (p @ '':'' @ show_int revision @ '':'' @ itemName)))"

definition manifest_scope :: "manifest \<Rightarrow> publication_scope" where
  "manifest_scope m = \<lparr>sc_dataset = mf_dataset m, sc_seasonCode = mf_seasonCode m, sc_eventId = mf_eventId m\<rparr>"

section \<open>Preparing a publication\<close>

fun itemCount :: "json \<Rightarrow> int" where
  "itemCount (JArr vs) = int (length vs)"
| "itemCount (JObj es) = int (length es)"
| "itemCount JNull = 0"
| "itemCount JUndefined = 0"
| "itemCount (JDate _) = 0"
| "itemCount _ = 1"

type_synonym serialized_item = "manifest_item \<times> string"

definition item_payload :: "publication_dataset \<Rightarrow> json \<Rightarrow> (json_error, string) result" where
  "item_payload d v = (if d = Fpl_live then postgresJsonbCanonicalJson v else canonicalJson v)"

definition serialize_item ::
  "publication_env \<Rightarrow> publish_input \<Rightarrow> string \<times> json \<Rightarrow> (cache_error, serialized_item) result" where
  "serialize_item env input item =
     (case item_payload (sc_dataset (pi_scope input)) (snd item) of
        Inl _ \<Rightarrow> Inl DATA_PUBLICATION_ITEM_INVALID
      | Inr payload \<Rightarrow>
          res_bind (dataPublicationItemKey (pi_scope input) (pi_revision input) (fst item)) (\<lambda>key.
            Inr (\<lparr>mi_name = fst item, mi_key = key, mi_type = ''string'', mi_count = itemCount (snd item),
                  mi_bytes = int (length payload), mi_sha256 = pe_sha256 env payload\<rparr>, payload)))"

fun serialize_loop ::
  "publication_env \<Rightarrow> publish_input \<Rightarrow> string list \<Rightarrow> (string \<times> json) list \<Rightarrow> (cache_error, serialized_item list) result" where
  "serialize_loop env input names [] = Inr []"
| "serialize_loop env input names (item # items) =
     (if fst item \<in> set names then Inl DATA_PUBLICATION_ITEM_DUPLICATE
      else res_bind (serialize_item env input item) (\<lambda>s.
        res_bind (serialize_loop env input (fst item # names) items) (\<lambda>ss. Inr (s # ss))))"

definition serializeItems :: "publication_env \<Rightarrow> publish_input \<Rightarrow> (cache_error, serialized_item list) result" where
  "serializeItems env input =
     (if pi_items input = [] then Inl DATA_PUBLICATION_ITEMS_EMPTY
      else res_bind (serialize_loop env input [] (pi_items input)) (\<lambda>serialized.
        if \<not> hasExactItemNames (sc_dataset (pi_scope input)) (map fst (pi_items input))
        then Inl DATA_PUBLICATION_ITEM_SET_INVALID
        else Inr serialized))"

definition createManifest ::
  "string \<Rightarrow> publish_input \<Rightarrow> serialized_item list \<Rightarrow> (cache_error, manifest) result" where
  "createManifest publishedAt input items =
     (if pi_sourceCheckedAt input = None then Inl DATA_PUBLICATION_SOURCE_TIME_INVALID
      else if pi_lastSuccessfulFetchAt input = Some None then Inl DATA_PUBLICATION_SUCCESSFUL_FETCH_TIME_INVALID
      else if \<not> isDataPublicationId (pi_publicationId input) then Inl DATA_PUBLICATION_ID_INVALID
      else if \<not> isCanonicalState (sc_dataset (pi_scope input)) (pi_state input)
      then Inl DATA_PUBLICATION_STATE_INVALID
      else Inr
        \<lparr>mf_dataset = sc_dataset (pi_scope input), mf_seasonCode = sc_seasonCode (pi_scope input),
         mf_eventId = sc_eventId (pi_scope input), mf_revision = pi_revision input,
         mf_publicationId = pi_publicationId input, mf_sourceCheckedAt = the (pi_sourceCheckedAt input),
         mf_lastSuccessfulFetchAt = coalesce (pi_lastSuccessfulFetchAt input) None,
         mf_publishedAt = publishedAt, mf_state = pi_state input, mf_items = map fst items\<rparr>)"

definition prepareDataPublication ::
  "publication_env \<Rightarrow> string \<Rightarrow> publish_input \<Rightarrow> (cache_error, manifest \<times> serialized_item list) result" where
  "prepareDataPublication env publishedAt input =
     res_bind (assertScope (pi_scope input)) (\<lambda>_.
     res_bind (serializeItems env input) (\<lambda>items.
     res_bind (createManifest publishedAt input items) (\<lambda>m. Inr (m, items))))"

section \<open>Manifests as JSON\<close>

definition item_json :: "manifest_item \<Rightarrow> json" where
  "item_json i = JObj
     [(''name'', JStr (mi_name i)), (''key'', JStr (mi_key i)), (''type'', JStr (mi_type i)),
      (''count'', JInt (mi_count i)), (''bytes'', JInt (mi_bytes i)), (''sha256'', JStr (mi_sha256 i))]"

definition manifest_json :: "manifest \<Rightarrow> json" where
  "manifest_json m = JObj
     ([(''dataset'', JStr (dataset_text (mf_dataset m))), (''seasonCode'', JStr (mf_seasonCode m)),
       (''eventId'', case mf_eventId m of None \<Rightarrow> JNull | Some e \<Rightarrow> JInt e),
       (''revision'', JInt (mf_revision m)), (''publicationId'', JStr (mf_publicationId m)),
       (''sourceCheckedAt'', JStr (mf_sourceCheckedAt m))]
      @ (case mf_lastSuccessfulFetchAt m of None \<Rightarrow> [] | Some t \<Rightarrow> [(''lastSuccessfulFetchAt'', JStr t)])
      @ [(''publishedAt'', JStr (mf_publishedAt m)), (''state'', JStr (state_text (mf_state m))),
         (''items'', JArr (map item_json (mf_items m)))])"

definition manifest_text :: "manifest \<Rightarrow> string" where
  "manifest_text m = coalesce (JSON_stringify (manifest_json m)) []"

definition json_field :: "json \<Rightarrow> string \<Rightarrow> json option" where
  "json_field v k = (case v of JObj es \<Rightarrow> map_of es k | _ \<Rightarrow> None)"

fun json_string :: "json option \<Rightarrow> string option" where
  "json_string (Some (JStr s)) = Some s"
| "json_string _ = None"

fun json_int :: "json option \<Rightarrow> int option" where
  "json_int (Some (JInt n)) = Some n"
| "json_int _ = None"

fun json_list :: "json option \<Rightarrow> json list option" where
  "json_list (Some (JArr vs)) = Some vs"
| "json_list _ = None"

definition decode_item :: "json \<Rightarrow> manifest_item option" where
  "decode_item v =
     (case (json_string (json_field v ''name''), json_string (json_field v ''key''),
            json_string (json_field v ''type''), json_int (json_field v ''count''),
            json_int (json_field v ''bytes''), json_string (json_field v ''sha256'')) of
        (Some n, Some k, Some t, Some c, Some b, Some h) \<Rightarrow>
          Some \<lparr>mi_name = n, mi_key = k, mi_type = t, mi_count = c, mi_bytes = b, mi_sha256 = h\<rparr>
      | _ \<Rightarrow> None)"

definition read_dataset :: "string \<Rightarrow> publication_dataset option" where
  "read_dataset s = List.find (\<lambda>d. dataset_text d = s) [Fpl_core, Fpl_live, Fpl_market]"

definition read_state :: "string \<Rightarrow> publication_state option" where
  "read_state s = List.find (\<lambda>d. state_text d = s) [State_active, State_scheduled, State_live, State_settled]"

text \<open>A null or integer event id, and an absent or textual fetch time; anything else fails.\<close>

fun read_event_id :: "json option \<Rightarrow> int option option" where
  "read_event_id (Some JNull) = Some None"
| "read_event_id (Some (JInt n)) = Some (Some n)"
| "read_event_id _ = None"

fun read_fetch_time :: "json option \<Rightarrow> string option option" where
  "read_fetch_time None = Some None"
| "read_fetch_time (Some (JStr t)) = Some (Some t)"
| "read_fetch_time _ = None"

definition decode_manifest :: "json \<Rightarrow> manifest option" where
  "decode_manifest v =
     (case (Option.bind (json_string (json_field v ''dataset'')) read_dataset,
            json_string (json_field v ''seasonCode''), read_event_id (json_field v ''eventId''),
            json_int (json_field v ''revision''), json_string (json_field v ''publicationId'')) of
        (Some d, Some season, Some e, Some n, Some pid) \<Rightarrow>
          (case (json_string (json_field v ''sourceCheckedAt''), read_fetch_time (json_field v ''lastSuccessfulFetchAt''),
                 json_string (json_field v ''publishedAt''),
                 Option.bind (json_string (json_field v ''state'')) read_state,
                 Option.bind (json_list (json_field v ''items'')) (\<lambda>vs. those (map decode_item vs))) of
             (Some src, Some fetch, Some pub, Some st, Some items) \<Rightarrow>
               Some \<lparr>mf_dataset = d, mf_seasonCode = season, mf_eventId = e, mf_revision = n,
                     mf_publicationId = pid, mf_sourceCheckedAt = src, mf_lastSuccessfulFetchAt = fetch,
                     mf_publishedAt = pub, mf_state = st, mf_items = items\<rparr>
           | _ \<Rightarrow> None)
      | _ \<Rightarrow> None)"

definition MANIFEST_FIELDS :: "string list" where
  "MANIFEST_FIELDS = [''dataset'', ''seasonCode'', ''eventId'', ''revision'', ''publicationId'',
     ''sourceCheckedAt'', ''publishedAt'', ''state'', ''items'']"

definition OPTIONAL_MANIFEST_FIELDS :: "string list" where
  "OPTIONAL_MANIFEST_FIELDS = [''lastSuccessfulFetchAt'']"

definition MANIFEST_ITEM_FIELDS :: "string list" where
  "MANIFEST_ITEM_FIELDS = [''name'', ''key'', ''type'', ''count'', ''bytes'', ''sha256'']"

definition hasExactFields :: "json \<Rightarrow> string list \<Rightarrow> bool" where
  "hasExactFields v expected = (case v of JObj es \<Rightarrow> hasExactNames (map fst es) expected | _ \<Rightarrow> False)"

definition hasManifestFields :: "json \<Rightarrow> bool" where
  "hasManifestFields v =
     (hasExactFields v MANIFEST_FIELDS \<or> hasExactFields v (MANIFEST_FIELDS @ OPTIONAL_MANIFEST_FIELDS))"

definition manifest_item_ok :: "manifest \<Rightarrow> manifest_item \<Rightarrow> bool" where
  "manifest_item_ok m i =
     (is_item_name (mi_name i) \<and> mi_type i = ''string'' \<and>
      dataPublicationItemKey (manifest_scope m) (mf_revision m) (mi_name i) = Inr (mi_key i) \<and>
      mi_count i \<ge> 0 \<and> mi_bytes i \<ge> 0 \<and> length (mi_sha256 i) = 64 \<and> list_all is_lower_hex (mi_sha256 i))"

definition manifest_ok :: "publication_env \<Rightarrow> manifest \<Rightarrow> bool" where
  "manifest_ok env m =
     (is_season_code (mf_seasonCode m) \<and> is_safe_integer (mf_revision m) \<and> mf_revision m > 0 \<and>
      isDataPublicationId (mf_publicationId m) \<and> pe_validDate env (mf_sourceCheckedAt m) \<and>
      (case mf_lastSuccessfulFetchAt m of None \<Rightarrow> True | Some t \<Rightarrow> pe_validDate env t) \<and>
      pe_validDate env (mf_publishedAt m) \<and> isCanonicalState (mf_dataset m) (mf_state m) \<and>
      (if mf_dataset m = Fpl_live
       then mf_eventId m \<noteq> None \<and> is_safe_integer (the (mf_eventId m)) \<and> the (mf_eventId m) > 0
       else mf_eventId m = None) \<and>
      assertScope (manifest_scope m) = Inr () \<and>
      distinct (map mi_name (mf_items m)) \<and> list_all (manifest_item_ok m) (mf_items m) \<and>
      hasAcceptedItemNames (mf_dataset m) (map mi_name (mf_items m)))"

definition parseDataPublicationManifest :: "publication_env \<Rightarrow> string option \<Rightarrow> manifest option" where
  "parseDataPublicationManifest env raw =
     (if raw = None \<or> raw = Some [] then None
      else
        (case JSON_parse (the raw) of
           None \<Rightarrow> None
         | Some v \<Rightarrow>
             if \<not> hasManifestFields v then None
             else
               (case decode_manifest v of
                  None \<Rightarrow> None
                | Some m \<Rightarrow>
                    if list_all (\<lambda>i. hasExactFields i MANIFEST_ITEM_FIELDS) (coalesce (json_list (json_field v ''items'')) [])
                       \<and> manifest_ok env m
                    then Some m else None)))"

section \<open>Redis\<close>

text \<open>A key holds a text and, if it expires, the time at which it does.\<close>

record redis =
  rd_now :: int
  rd_store :: "(string, string \<times> int option) js_map"

definition redis_entry :: "redis \<Rightarrow> string \<Rightarrow> (string \<times> int option) option" where
  "redis_entry r k =
     (case js_get (rd_store r) k of
        None \<Rightarrow> None
      | Some (v, None) \<Rightarrow> Some (v, None)
      | Some (v, Some d) \<Rightarrow> if rd_now r > d then None else Some (v, Some d))"

definition redis_get :: "redis \<Rightarrow> string \<Rightarrow> string option" where
  "redis_get r k = map_option fst (redis_entry r k)"

definition redis_put :: "string \<Rightarrow> string \<times> int option \<Rightarrow> redis \<Rightarrow> redis" where
  "redis_put k e r = r\<lparr>rd_store := js_set k e (rd_store r)\<rparr>"

definition redis_set :: "string \<Rightarrow> string \<Rightarrow> redis \<Rightarrow> redis" where
  "redis_set k v = redis_put k (v, None)"

definition redis_set_nx :: "string \<Rightarrow> string \<Rightarrow> int \<Rightarrow> redis \<Rightarrow> redis" where
  "redis_set_nx k v ttl r = (if redis_entry r k \<noteq> None then r else redis_put k (v, Some (rd_now r + ttl)) r)"

definition redis_persist :: "string \<Rightarrow> redis \<Rightarrow> redis" where
  "redis_persist k r = (case redis_entry r k of None \<Rightarrow> r | Some (v, _) \<Rightarrow> redis_put k (v, None) r)"

definition redis_pexpire :: "int \<Rightarrow> string \<Rightarrow> redis \<Rightarrow> redis" where
  "redis_pexpire ttl k r = (case redis_entry r k of None \<Rightarrow> r | Some (v, _) \<Rightarrow> redis_put k (v, Some (rd_now r + ttl)) r)"

definition redis_del :: "string \<Rightarrow> redis \<Rightarrow> redis" where
  "redis_del k r = r\<lparr>rd_store := AList.delete k (rd_store r)\<rparr>"

section \<open>The Lua scripts\<close>

definition lua_manifest :: "string \<Rightarrow> manifest option" where
  "lua_manifest raw = (case JSON_parse raw of None \<Rightarrow> None | Some v \<Rightarrow> decode_manifest v)"

datatype activate_reply =
    Invalid_active_manifest
  | Publication_id_conflict
  | Idempotent string
  | Stale string
  | Missing_stage string
  | Wrong_stage_type string
  | Wrong_stage_size string
  | Published string

definition same_publication :: "manifest \<Rightarrow> manifest \<Rightarrow> bool" where
  "same_publication current candidate =
     (mf_dataset current = mf_dataset candidate \<and> mf_seasonCode current = mf_seasonCode candidate \<and>
      coalesce (mf_eventId current) (-1) = coalesce (mf_eventId candidate) (-1) \<and>
      mf_revision current = mf_revision candidate \<and>
      mf_sourceCheckedAt current = mf_sourceCheckedAt candidate \<and>
      mf_lastSuccessfulFetchAt current = mf_lastSuccessfulFetchAt candidate \<and>
      mf_state current = mf_state candidate \<and> mf_items current = mf_items candidate)"

fun check_stage :: "redis \<Rightarrow> manifest_item list \<Rightarrow> activate_reply option" where
  "check_stage r [] = None"
| "check_stage r (i # is) =
     (case redis_get r (mi_key i) of
        None \<Rightarrow> Some (Missing_stage (mi_key i))
      | Some payload \<Rightarrow>
          if mi_type i \<noteq> ''string'' then Some (Wrong_stage_type (mi_key i))
          else if int (length payload) \<noteq> mi_bytes i then Some (Wrong_stage_size (mi_key i))
          else check_stage r is)"

definition retire_items :: "int \<Rightarrow> manifest_item list \<Rightarrow> manifest_item list \<Rightarrow> redis \<Rightarrow> redis" where
  "retire_items ttl retained items =
     fold (\<lambda>i r. if mi_key i \<in> mi_key ` set retained then r else redis_pexpire ttl (mi_key i) r) items"

definition swap_pointer :: "string \<Rightarrow> manifest \<Rightarrow> redis \<Rightarrow> redis" where
  "swap_pointer key candidate r =
     redis_set key (manifest_text candidate) (fold redis_persist (map mi_key (mf_items candidate)) r)"

definition activate_script :: "string \<Rightarrow> manifest \<Rightarrow> int \<Rightarrow> redis \<Rightarrow> activate_reply \<times> redis" where
  "activate_script key candidate ttl r =
     (let stage = (\<lambda>current raw.
        (case check_stage r (mf_items candidate) of
           Some failure \<Rightarrow> (failure, r)
         | None \<Rightarrow>
             (Published raw,
              retire_items ttl (mf_items candidate) (case current of None \<Rightarrow> [] | Some m \<Rightarrow> mf_items m)
                (swap_pointer key candidate r))))
      in case redis_get r key of
           None \<Rightarrow> stage None []
         | Some raw \<Rightarrow>
             (case lua_manifest raw of
                None \<Rightarrow> (Invalid_active_manifest, r)
              | Some current \<Rightarrow>
                  if mf_publicationId current = mf_publicationId candidate then
                    (if same_publication current candidate then (Idempotent raw, r)
                     else (Publication_id_conflict, r))
                  else if code_unit_less (mf_sourceCheckedAt candidate) (mf_sourceCheckedAt current)
                  then (Stale raw, r)
                  else if mf_sourceCheckedAt current = mf_sourceCheckedAt candidate
                    \<and> mf_revision current \<ge> mf_revision candidate
                  then (Stale raw, r)
                  else stage (Some current) raw))"

datatype retire_reply = Retire_absent | Retire_invalid string | Retired string

definition retire_script :: "string \<Rightarrow> int \<Rightarrow> redis \<Rightarrow> retire_reply \<times> redis" where
  "retire_script key ttl r =
     (case redis_get r key of
        None \<Rightarrow> (Retire_absent, r)
      | Some raw \<Rightarrow>
          (case lua_manifest raw of
             None \<Rightarrow> (Retire_invalid raw, r)
           | Some current \<Rightarrow>
               (Retired raw, redis_del key (fold (redis_pexpire ttl) (map mi_key (mf_items current)) r))))"

datatype cas_reply = Cas_missing | Cas_invalid | Cas_changed string | Cas_removed string | Cas_missing_stage string | Cas_replaced string

text \<open>The swap makes each payload persistent while it checks them; an early one stays so on failure.\<close>

fun persist_checked :: "string list \<Rightarrow> redis \<Rightarrow> string option \<times> redis" where
  "persist_checked [] r = (None, r)"
| "persist_checked (k # ks) r =
     (if redis_entry r k = None then (Some k, r) else persist_checked ks (redis_persist k r))"

definition cas_script :: "string \<Rightarrow> string \<Rightarrow> manifest option \<Rightarrow> redis \<Rightarrow> cas_reply \<times> redis" where
  "cas_script key expectedPublicationId replacement r =
     (case redis_get r key of
        None \<Rightarrow> (Cas_missing, r)
      | Some raw \<Rightarrow>
          (case lua_manifest raw of
             None \<Rightarrow> (Cas_invalid, r)
           | Some current \<Rightarrow>
               if mf_publicationId current \<noteq> expectedPublicationId then (Cas_changed raw, r)
               else
                 (case replacement of
                    None \<Rightarrow> (Cas_removed raw, redis_del key r)
                  | Some candidate \<Rightarrow>
                      (case persist_checked (map mi_key (mf_items candidate)) r of
                         (Some missing, r1) \<Rightarrow> (Cas_missing_stage missing, r1)
                       | (None, r1) \<Rightarrow> (Cas_replaced raw, redis_set key (manifest_text candidate) r1)))))"

section \<open>Operations\<close>

definition stageDataPublicationItems ::
  "manifest \<Rightarrow> serialized_item list \<Rightarrow> redis \<Rightarrow> (cache_error, unit) result \<times> redis" where
  "stageDataPublicationItems m items r =
     (let r1 = fold (\<lambda>(i, payload). redis_set_nx (mi_key i) payload DATA_PUBLICATION_STAGING_TTL_MS) items r in
      if \<not> list_all (\<lambda>(i, payload). redis_get r1 (mi_key i) = Some payload) items
      then (Inl DATA_PUBLICATION_STAGE_CONFLICT, r1)
      else if \<not> hasAcceptedItemNames (mf_dataset m) (map (mi_name \<circ> fst) items)
      then (Inl DATA_PUBLICATION_ITEM_SET_INVALID, r1)
      else (Inr (), r1))"

datatype publish_status = Status_published | Status_stale

record publish_result =
  ps_status :: publish_status
  ps_manifest :: manifest
  ps_previousManifest :: "manifest option"

definition activateDataPublicationPointer ::
  "publication_env \<Rightarrow> manifest \<Rightarrow> redis \<Rightarrow> (cache_error, publish_result) result \<times> redis" where
  "activateDataPublicationPointer env m r =
     (case activeDataPublicationKey (manifest_scope m) of
        Inl e \<Rightarrow> (Inl e, r)
      | Inr key \<Rightarrow>
          (let (reply, r1) = activate_script key m DATA_PUBLICATION_RETIRED_TTL_MS r in
           (case reply of
              Idempotent raw \<Rightarrow>
                (case parseDataPublicationManifest env (Some raw) of
                   None \<Rightarrow> Inl DATA_PUBLICATION_ACTIVATION_FAILED
                 | Some active \<Rightarrow>
                     Inr \<lparr>ps_status = Status_published, ps_manifest = active, ps_previousManifest = None\<rparr>)
            | Stale raw \<Rightarrow>
                Inr \<lparr>ps_status = Status_stale, ps_manifest = m,
                     ps_previousManifest = parseDataPublicationManifest env (Some raw)\<rparr>
            | Published raw \<Rightarrow>
                Inr \<lparr>ps_status = Status_published, ps_manifest = m,
                     ps_previousManifest = parseDataPublicationManifest env (Some raw)\<rparr>
            | _ \<Rightarrow> Inl DATA_PUBLICATION_ACTIVATION_FAILED, r1)))"

datatype swap_status = Swap_replaced | Swap_removed | Swap_missing | Swap_changed

definition compareAndSwapDataPublicationPointer ::
  "publication_scope \<Rightarrow> string \<Rightarrow> manifest option \<Rightarrow> redis \<Rightarrow> (cache_error, swap_status) result \<times> redis" where
  "compareAndSwapDataPublicationPointer scope expectedPublicationId replacement r =
     (case activeDataPublicationKey scope of
        Inl e \<Rightarrow> (Inl e, r)
      | Inr key \<Rightarrow>
          (let (reply, r1) = cas_script key expectedPublicationId replacement r in
           (case reply of
              Cas_replaced _ \<Rightarrow> Inr Swap_replaced
            | Cas_removed _ \<Rightarrow> Inr Swap_removed
            | Cas_missing \<Rightarrow> Inr Swap_missing
            | Cas_changed _ \<Rightarrow> Inr Swap_changed
            | _ \<Rightarrow> Inl DATA_PUBLICATION_CAS_FAILED, r1)))"

definition assertManifestMatchesScope :: "manifest \<Rightarrow> publication_scope \<Rightarrow> bool" where
  "assertManifestMatchesScope m scope =
     (mf_dataset m = sc_dataset scope \<and> mf_seasonCode m = sc_seasonCode scope \<and> mf_eventId m = sc_eventId scope)"

text \<open>
  \<open>publishDataRevision\<close>: \<open>accepted\<close> is what the caller's \<open>beforeActivate\<close> answers, \<open>activate\<close> the option
  of that name.
\<close>

definition publishDataRevision ::
  "publication_env \<Rightarrow> string \<Rightarrow> bool \<Rightarrow> bool \<Rightarrow> publish_input \<Rightarrow> redis
   \<Rightarrow> (cache_error, publish_result) result \<times> redis" where
  "publishDataRevision env publishedAt accepted activate input r =
     (case prepareDataPublication env publishedAt input of
        Inl e \<Rightarrow> (Inl e, r)
      | Inr (m, items) \<Rightarrow>
          (case stageDataPublicationItems m items r of
             (Inl e, r1) \<Rightarrow> (Inl e, r1)
           | (Inr _, r1) \<Rightarrow>
               if \<not> accepted
               then (Inr \<lparr>ps_status = Status_stale, ps_manifest = m, ps_previousManifest = None\<rparr>, r1)
               else if \<not> activate
               then (Inr \<lparr>ps_status = Status_published, ps_manifest = m, ps_previousManifest = None\<rparr>, r1)
               else
                 (case activateDataPublicationPointer env m r1 of
                    (Inl e, r2) \<Rightarrow> (Inl e, r2)
                  | (Inr result, r2) \<Rightarrow>
                      if ps_status result = Status_published
                        \<and> \<not> assertManifestMatchesScope (ps_manifest result) (pi_scope input)
                      then (Inl DATA_PUBLICATION_ACTIVATION_FAILED, r2)
                      else (Inr result, r2))))"

text \<open>A reader first fetches the pointer and then, in a second request, the payloads.\<close>

definition read_pointer :: "publication_env \<Rightarrow> publication_scope \<Rightarrow> string \<Rightarrow> redis \<Rightarrow> manifest option" where
  "read_pointer env scope key r =
     (case parseDataPublicationManifest env (redis_get r key) of
        None \<Rightarrow> None
      | Some m \<Rightarrow> if \<not> assertManifestMatchesScope m scope \<or> mf_items m = [] then None else Some m)"

definition read_item :: "publication_env \<Rightarrow> redis \<Rightarrow> manifest_item \<Rightarrow> (string \<times> json) option" where
  "read_item env r i =
     (case redis_get r (mi_key i) of
        None \<Rightarrow> None
      | Some payload \<Rightarrow>
          if int (length payload) \<noteq> mi_bytes i \<or> pe_sha256 env payload \<noteq> mi_sha256 i then None
          else
            (case JSON_parse payload of
               None \<Rightarrow> None
             | Some parsed \<Rightarrow> if itemCount parsed \<noteq> mi_count i then None else Some (mi_name i, parsed)))"

definition read_payloads :: "publication_env \<Rightarrow> manifest \<Rightarrow> redis \<Rightarrow> (manifest \<times> (string \<times> json) list) option" where
  "read_payloads env m r = map_option (\<lambda>items. (m, items)) (those (map (read_item env r) (mf_items m)))"

definition readActiveDataPublication ::
  "publication_env \<Rightarrow> publication_scope \<Rightarrow> redis \<Rightarrow> (cache_error, (manifest \<times> (string \<times> json) list) option) result" where
  "readActiveDataPublication env scope r =
     res_bind (activeDataPublicationKey scope) (\<lambda>key.
       Inr (case read_pointer env scope key r of None \<Rightarrow> None | Some m \<Rightarrow> read_payloads env m r))"

definition retireActiveDataPublication ::
  "publication_env \<Rightarrow> publication_scope \<Rightarrow> redis \<Rightarrow> (cache_error, manifest option) result \<times> redis" where
  "retireActiveDataPublication env scope r =
     (case activeDataPublicationKey scope of
        Inl e \<Rightarrow> (Inl e, r)
      | Inr key \<Rightarrow>
          (let (reply, r1) = retire_script key DATA_PUBLICATION_RETIRED_TTL_MS r in
           (case reply of
              Retire_absent \<Rightarrow> Inr None
            | Retire_invalid _ \<Rightarrow> Inl DATA_PUBLICATION_RETIRE_INVALID
            | Retired raw \<Rightarrow> Inr (parseDataPublicationManifest env (Some raw)), r1)))"

section \<open>Redis facts\<close>

lemma entry_put [simp]:
  "redis_entry (redis_put k e r) k' =
     (if k' = k then (case e of (v, Some d) \<Rightarrow> if rd_now r > d then None else Some e | _ \<Rightarrow> Some e)
      else redis_entry r k')"
  by (auto simp: redis_entry_def redis_put_def split: option.splits prod.splits)

lemma now_ops [simp]:
  "rd_now (redis_put k e r) = rd_now r" "rd_now (redis_set k v r) = rd_now r"
  "rd_now (redis_set_nx k v ttl r) = rd_now r" "rd_now (redis_persist k r) = rd_now r"
  "rd_now (redis_pexpire ttl k r) = rd_now r" "rd_now (redis_del k r) = rd_now r"
  by (simp_all add: redis_put_def redis_set_def redis_set_nx_def redis_persist_def redis_pexpire_def
      redis_del_def split: option.splits prod.splits)

lemma entry_set [simp]: "redis_entry (redis_set k v r) k' = (if k' = k then Some (v, None) else redis_entry r k')"
  by (simp add: redis_set_def)

lemma entry_del [simp]: "redis_entry (redis_del k r) k' = (if k' = k then None else redis_entry r k')"
  by (auto simp: redis_del_def redis_entry_def delete_conv' split: option.splits prod.splits)

lemma entry_set_nx:
  "0 \<le> ttl \<Longrightarrow> redis_entry (redis_set_nx k v ttl r) k' =
     (if k' = k \<and> redis_entry r k = None then Some (v, Some (rd_now r + ttl)) else redis_entry r k')"
  by (simp add: redis_set_nx_def)

lemma entry_persist:
  "redis_entry (redis_persist k r) k' =
     (if k' = k then map_option (\<lambda>(v, _). (v, None)) (redis_entry r k) else redis_entry r k')"
  by (auto simp: redis_persist_def split: option.splits prod.splits)

lemma entry_pexpire:
  "0 \<le> ttl \<Longrightarrow> redis_entry (redis_pexpire ttl k r) k' =
     (if k' = k then map_option (\<lambda>(v, _). (v, Some (rd_now r + ttl))) (redis_entry r k) else redis_entry r k')"
  by (auto simp: redis_pexpire_def split: option.splits prod.splits)

text \<open>Persisting and expiring many keys.\<close>

lemma now_fold_persist [simp]: "rd_now (fold redis_persist ks r) = rd_now r"
  by (induction ks arbitrary: r) simp_all

lemma entry_fold_persist:
  "redis_entry (fold redis_persist ks r) k =
     (if k \<in> set ks then map_option (\<lambda>(v, _). (v, None)) (redis_entry r k) else redis_entry r k)"
  by (induction ks arbitrary: r) (auto simp: entry_persist option.map_comp comp_def split_def option.map_ident)

lemma now_fold_pexpire [simp]: "rd_now (fold (redis_pexpire ttl) ks r) = rd_now r"
  by (induction ks arbitrary: r) simp_all

lemma entry_fold_pexpire:
  "0 \<le> ttl \<Longrightarrow> redis_entry (fold (redis_pexpire ttl) ks r) k =
     (if k \<in> set ks then map_option (\<lambda>(v, _). (v, Some (rd_now r + ttl))) (redis_entry r k) else redis_entry r k)"
  by (induction ks arbitrary: r) (auto simp: entry_pexpire option.map_comp comp_def split_def option.map_ident)

lemma retire_items_fold:
  "retire_items ttl retained items r =
     fold (redis_pexpire ttl) (map mi_key (filter (\<lambda>i. mi_key i \<notin> mi_key ` set retained) items)) r"
  unfolding retire_items_def by (induction items arbitrary: r) auto

lemma now_retire_items [simp]: "rd_now (retire_items ttl retained items r) = rd_now r"
  by (simp add: retire_items_fold)

lemma get_entry: "redis_get r k = Some v \<longleftrightarrow> (\<exists>d. redis_entry r k = Some (v, d))"
  by (auto simp: redis_get_def)

section \<open>Manifests are read back\<close>

lemma own_order_no_index: "list_all (\<lambda>e. \<not> is_index_key (fst e)) es \<Longrightarrow> own_order es = es"
proof -
  assume no: "list_all (\<lambda>e. \<not> is_index_key (fst e)) es"
  then have "filter (\<lambda>e. is_index_key (fst e)) es = []" "filter (\<lambda>e. \<not> is_index_key (fst e)) es = es"
    by (auto simp: filter_empty_conv filter_id_conv list_all_iff)
  then show ?thesis by (simp add: own_order_def)
qed

definition manifest_keys :: "string list" where
  "manifest_keys = MANIFEST_FIELDS @ OPTIONAL_MANIFEST_FIELDS @ MANIFEST_ITEM_FIELDS"

lemma manifest_keys_no_index: "list_all (\<lambda>k. \<not> is_index_key k) manifest_keys"
  by code_simp

lemma no_index_keys:
  "set (map fst es) \<subseteq> set manifest_keys \<Longrightarrow> list_all (\<lambda>e. \<not> is_index_key (fst e)) es"
  using manifest_keys_no_index by (auto simp: list_all_iff)

lemma item_json_wf: "wf_json (item_json i) \<and> plain (item_json i)"
proof -
  have "own_order es = es" if "map fst es = MANIFEST_ITEM_FIELDS" for es :: "(string \<times> json) list"
    using that by (intro own_order_no_index no_index_keys) (auto simp: manifest_keys_def)
  then show ?thesis by (simp add: item_json_def MANIFEST_ITEM_FIELDS_def)
qed

lemma manifest_json_keys:
  "\<exists>es. manifest_json m = JObj es \<and> distinct (map fst es) \<and> set (map fst es) \<subseteq> set manifest_keys"
  by (auto simp: manifest_json_def manifest_keys_def MANIFEST_FIELDS_def OPTIONAL_MANIFEST_FIELDS_def
      split: option.splits)

lemma manifest_json_wf: "wf_json (manifest_json m) \<and> plain (manifest_json m)"
proof -
  obtain es where es: "manifest_json m = JObj es" "distinct (map fst es)" "set (map fst es) \<subseteq> set manifest_keys"
    using manifest_json_keys by blast
  have "own_order es = es" using es(3) by (intro own_order_no_index no_index_keys)
  moreover have "list_all (\<lambda>e. wf_json (snd e)) es \<and> list_all (\<lambda>e. plain (snd e)) es"
    using es(1) item_json_wf by (auto simp: manifest_json_def list_all_iff split: option.splits)
  ultimately show ?thesis using es(1,2) by simp
qed

lemma decode_item_json [simp]: "decode_item (item_json i) = Some i"
  by (simp add: decode_item_def item_json_def json_field_def)

lemma read_texts [simp]: "read_dataset (dataset_text d) = Some d" "read_state (state_text st) = Some st"
  by (cases d; simp add: read_dataset_def) (cases st; simp add: read_state_def)

lemma those_map_Some [simp]: "those (map (\<lambda>x. Some (f x)) xs) = Some (map f xs)"
  by (induction xs) simp_all

lemma decode_manifest_json [simp]: "decode_manifest (manifest_json m) = Some m"
  by (cases "mf_eventId m"; cases "mf_lastSuccessfulFetchAt m")
    (simp_all add: decode_manifest_def manifest_json_def json_field_def comp_def)

lemma manifest_text_parse [simp]: "JSON_parse (manifest_text m) = Some (manifest_json m)"
  using JSON_parse_stringify manifest_json_wf unfolding manifest_text_def by (metis coalesce_simps(2))

lemma lua_manifest_text [simp]: "lua_manifest (manifest_text m) = Some m"
  by (simp add: lua_manifest_def)

lemma manifest_text_nonempty [simp]: "manifest_text m \<noteq> []"
proof
  assume "manifest_text m = []"
  then have "JSON_parse [] = Some (manifest_json m)" using manifest_text_parse [of m] by simp
  then show False by (simp add: JSON_parse_def)
qed

lemma manifest_text_inject [simp]: "manifest_text m = manifest_text m' \<longleftrightarrow> m = m'"
  by (metis lua_manifest_text option.inject)

lemma hasManifestFields_json: "hasManifestFields (manifest_json m)"
proof (cases "mf_lastSuccessfulFetchAt m")
  case None
  then have "map fst (case manifest_json m of JObj es \<Rightarrow> es | _ \<Rightarrow> []) =  MANIFEST_FIELDS"
    by (simp add: manifest_json_def MANIFEST_FIELDS_def)
  then show ?thesis
    by (simp add: hasManifestFields_def hasExactFields_def hasExactNames_def manifest_json_def)
next
  case (Some t)
  let ?ks = "[''dataset'', ''seasonCode'', ''eventId'', ''revision'', ''publicationId'', ''sourceCheckedAt'',
    ''lastSuccessfulFetchAt'', ''publishedAt'', ''state'', ''items'']"
  have "mset ?ks = mset (MANIFEST_FIELDS @ OPTIONAL_MANIFEST_FIELDS)"
    by (simp add: MANIFEST_FIELDS_def OPTIONAL_MANIFEST_FIELDS_def)
  then have "js_sort code_unit_cmp ?ks = js_sort code_unit_cmp (MANIFEST_FIELDS @ OPTIONAL_MANIFEST_FIELDS)"
    by (intro code_units.js_sort_perm) simp_all
  then show ?thesis using Some
    by (simp add: hasManifestFields_def hasExactFields_def hasExactNames_def manifest_json_def)
qed

lemma hasExactFields_item: "hasExactFields (item_json i) MANIFEST_ITEM_FIELDS"
  by (simp add: hasExactFields_def hasExactNames_def item_json_def MANIFEST_ITEM_FIELDS_def)

lemma parse_manifest_text: "manifest_ok env m \<Longrightarrow> parseDataPublicationManifest env (Some (manifest_text m)) = Some m"
proof -
  have "json_list (json_field (manifest_json m) ''items'') = Some (map item_json (mf_items m))"
    by (cases "mf_lastSuccessfulFetchAt m") (simp_all add: manifest_json_def json_field_def)
  then show "manifest_ok env m \<Longrightarrow> ?thesis"
    by (simp add: parseDataPublicationManifest_def hasManifestFields_json list_all_iff hasExactFields_item)
qed

lemma parse_manifest_ok:
  "parseDataPublicationManifest env (Some raw) = Some m \<Longrightarrow> lua_manifest raw = Some m \<and> manifest_ok env m"
  by (auto simp: parseDataPublicationManifest_def lua_manifest_def split: if_splits option.splits)

section \<open>Keys do not collide\<close>

lemma split_last_colon:
  assumes "x @ CHR '':'' # a = y @ CHR '':'' # b" "CHR '':'' \<notin> set a" "CHR '':'' \<notin> set b"
  shows "x = y \<and> a = b"
proof -
  have "rev a @ CHR '':'' # rev x = rev b @ CHR '':'' # rev y"
    using arg_cong [OF assms(1), of rev] by simp
  moreover have "takeWhile (\<lambda>c. c \<noteq> CHR '':'') (rev z @ CHR '':'' # w) = rev z"
    "dropWhile (\<lambda>c. c \<noteq> CHR '':'') (rev z @ CHR '':'' # w) = CHR '':'' # w"
    if "CHR '':'' \<notin> set z" for z w
    using that by (simp_all add: takeWhile_append dropWhile_append)
  ultimately have "rev a = rev b" "CHR '':'' # rev x = CHR '':'' # rev y"
    using assms(2,3) by metis+
  then show ?thesis by simp
qed

lemma show_int_no_colon: "CHR '':'' \<notin> set (show_int n)"
proof -
  have "CHR '':'' \<notin> set (show_nat m)" for m by (rule show_nat_no_sep) simp
  then show ?thesis by (simp add: show_int_def)
qed

lemma item_name_no_colon: "is_item_name n \<Longrightarrow> CHR '':'' \<notin> set n"
  by (cases n) (auto simp: is_item_name_def is_lower_char_def is_upper_char_def is_digit_char_def list_all_iff
      dest!: bspec [of _ _ "CHR '':''"])

lemma scopePrefix_shape:
  "scopePrefix s = Inr p \<Longrightarrow>
     assertScope s = Inr () \<and> p = ''llm:data:'' @ dataset_text (sc_dataset s) @ '':'' @ sc_seasonCode s @
       (if sc_dataset s = Fpl_live then '':'' @ show_int (the (sc_eventId s)) else [])"
  by (cases "assertScope s") (auto simp: scopePrefix_def)

lemma assertScope_ok:
  "assertScope s = Inr () \<longleftrightarrow> is_season_code (sc_seasonCode s) \<and>
     (if sc_dataset s = Fpl_live then \<exists>e>0. sc_eventId s = Some e else sc_eventId s = None)"
  by (cases "sc_eventId s") (auto simp: assertScope_def split: if_splits)

lemma scopePrefix_inj:
  assumes "scopePrefix s = Inr p" "scopePrefix s' = Inr p"
  shows "s = s'"
proof -
  have a: "assertScope s = Inr ()" "assertScope s' = Inr ()" using assms scopePrefix_shape by blast+
  have l: "length (sc_seasonCode s) = length (sc_seasonCode s')"
    using a by (simp add: assertScope_ok is_season_code_def)
  have eq: "dataset_text (sc_dataset s) @ '':'' @ sc_seasonCode s @
       (if sc_dataset s = Fpl_live then '':'' @ show_int (the (sc_eventId s)) else []) =
     dataset_text (sc_dataset s') @ '':'' @ sc_seasonCode s' @
       (if sc_dataset s' = Fpl_live then '':'' @ show_int (the (sc_eventId s')) else [])"
    using assms scopePrefix_shape by (metis same_append_eq)
  then have d: "sc_dataset s = sc_dataset s'"
    by (cases "sc_dataset s"; cases "sc_dataset s'") simp_all
  then have "sc_seasonCode s = sc_seasonCode s' \<and>
    (sc_dataset s = Fpl_live \<longrightarrow> show_int (the (sc_eventId s)) = show_int (the (sc_eventId s')))"
    using eq l by (auto simp: append_eq_append_conv split: if_splits)
  with d a show ?thesis by (auto simp: assertScope_ok split: if_splits)
qed

lemma item_key_shape:
  assumes "dataPublicationItemKey s n name = Inr k"
  obtains p where "scopePrefix s = Inr p" "k = p @ '':'' @ show_int n @ '':'' @ name" "is_item_name name"
    "is_safe_integer n" "0 < n"
  using assms by (cases "scopePrefix s") (auto simp: dataPublicationItemKey_def split: if_splits)

lemma item_key_inj:
  assumes "dataPublicationItemKey s n name = Inr k" "dataPublicationItemKey s' n' name' = Inr k"
  shows "s = s' \<and> n = n' \<and> name = name'"
proof -
  from assms obtain p p' where p: "scopePrefix s = Inr p" "scopePrefix s' = Inr p'"
    "p @ '':'' @ show_int n @ '':'' @ name = p' @ '':'' @ show_int n' @ '':'' @ name'"
    "is_item_name name" "is_item_name name'" by (metis item_key_shape)
  then have "(p @ '':'' @ show_int n) @ CHR '':'' # name = (p' @ '':'' @ show_int n') @ CHR '':'' # name'" by simp
  then have 1: "p @ '':'' @ show_int n = p' @ '':'' @ show_int n'" "name = name'"
    using split_last_colon item_name_no_colon p(4,5) by blast+
  then have "p @ CHR '':'' # show_int n = p' @ CHR '':'' # show_int n'" by simp
  then have "p = p'" "show_int n = show_int n'" using split_last_colon show_int_no_colon by blast+
  with p 1 scopePrefix_inj show ?thesis by simp
qed

lemma active_key_inj:
  "activeDataPublicationKey s = Inr k \<Longrightarrow> activeDataPublicationKey s' = Inr k \<Longrightarrow> s = s'"
  using scopePrefix_inj by (cases "scopePrefix s"; cases "scopePrefix s'") (auto simp: activeDataPublicationKey_def)

lemma item_key_not_active:
  assumes "dataPublicationItemKey s n name = Inr k" "activeDataPublicationKey s' = Inr k'" "name \<noteq> ''active''"
  shows "k \<noteq> k'"
proof
  assume "k = k'"
  obtain p' where p': "k' = p' @ '':active''"
    using assms(2) by (cases "scopePrefix s'") (auto simp: activeDataPublicationKey_def)
  obtain p where p: "k = p @ '':'' @ show_int n @ '':'' @ name" "is_item_name name"
    using assms(1) by (rule item_key_shape)
  have "(p @ '':'' @ show_int n) @ CHR '':'' # name = p' @ CHR '':'' # ''active''"
    using \<open>k = k'\<close> p p' by simp
  from split_last_colon [OF this item_name_no_colon [OF p(2)]] have "name = ''active''" by simp
  with assms(3) show False ..
qed

lemma exact_names_set: "hasExactNames names ns \<Longrightarrow> set names = set ns"
  unfolding hasExactNames_def by (metis set_js_sort)

lemma accepted_names:
  assumes "hasAcceptedItemNames d names"
  shows "''active'' \<notin> set names"
proof -
  have "set names = set (DATASET_ITEM_NAMES d) \<or> set names = set LEGACY_CORE_ITEM_NAMES"
    using assms exact_names_set by (auto simp: hasAcceptedItemNames_def hasExactItemNames_def)
  moreover have "''active'' \<notin> set (DATASET_ITEM_NAMES d)" by (cases d) simp_all
  moreover have "''active'' \<notin> set LEGACY_CORE_ITEM_NAMES" by (simp add: LEGACY_CORE_ITEM_NAMES_def)
  ultimately show ?thesis by auto
qed

section \<open>The shared state machine\<close>

text \<open>
  \<open>content\<close> gives the one payload that is ever published under an item key: revisions are drawn
  from a database sequence, so a key is never staged with two payloads. A manifest describes
  the content when its sizes, hashes and counts are those of the payloads.
\<close>

definition describes :: "publication_env \<Rightarrow> (string \<Rightarrow> string) \<Rightarrow> manifest \<Rightarrow> bool" where
  "describes env content m \<longleftrightarrow> manifest_ok env m \<and>
     (\<forall>i \<in> set (mf_items m). mi_bytes i = int (length (content (mi_key i))) \<and>
        mi_sha256 i = pe_sha256 env (content (mi_key i)) \<and>
        (\<exists>v. JSON_parse (content (mi_key i)) = Some v \<and> itemCount v = mi_count i))"

definition is_item_key :: "string \<Rightarrow> bool" where
  "is_item_key k \<longleftrightarrow> (\<exists>s n name. dataPublicationItemKey s n name = Inr k \<and> name \<noteq> ''active'')"

abbreviation item_keys :: "manifest \<Rightarrow> string list" where
  "item_keys m \<equiv> map mi_key (mf_items m)"

text \<open>
  The steps of all processes: time passes, a publisher stages one payload, and the three scripts
  run for some scope.
\<close>

inductive redis_step :: "publication_env \<Rightarrow> (string \<Rightarrow> string) \<Rightarrow> redis \<Rightarrow> redis \<Rightarrow> bool" for env content where
  tick: "0 \<le> d \<Longrightarrow> redis_step env content r (r\<lparr>rd_now := rd_now r + d\<rparr>)"
| stage: "is_item_key k \<Longrightarrow>
    redis_step env content r (redis_set_nx k (content k) DATA_PUBLICATION_STAGING_TTL_MS r)"
| activate: "describes env content m \<Longrightarrow> activeDataPublicationKey (manifest_scope m) = Inr key \<Longrightarrow>
    activate_script key m DATA_PUBLICATION_RETIRED_TTL_MS r = (reply, r') \<Longrightarrow> redis_step env content r r'"
| retire: "activeDataPublicationKey s = Inr key \<Longrightarrow>
    retire_script key DATA_PUBLICATION_RETIRED_TTL_MS r = (retired, r') \<Longrightarrow> redis_step env content r r'"
| swap: "(\<And>m. replacement = Some m \<Longrightarrow> describes env content m \<and> manifest_scope m = s) \<Longrightarrow>
    activeDataPublicationKey s = Inr key \<Longrightarrow>
    cas_script key expected replacement r = (swapped, r') \<Longrightarrow> redis_step env content r r'"

definition holds_items :: "(string \<Rightarrow> string) \<Rightarrow> manifest \<Rightarrow> redis \<Rightarrow> bool" where
  "holds_items content m r \<longleftrightarrow> (\<forall>k \<in> set (item_keys m). redis_entry r k = Some (content k, None))"

definition pointer_ok :: "publication_env \<Rightarrow> (string \<Rightarrow> string) \<Rightarrow> publication_scope \<Rightarrow> string \<Rightarrow> redis \<Rightarrow> bool" where
  "pointer_ok env content s key r \<longleftrightarrow>
     (\<forall>raw. redis_get r key = Some raw \<longrightarrow>
       (\<exists>m. raw = manifest_text m \<and> describes env content m \<and> manifest_scope m = s \<and> holds_items content m r))"

definition publication_inv :: "publication_env \<Rightarrow> (string \<Rightarrow> string) \<Rightarrow> redis \<Rightarrow> bool" where
  "publication_inv env content r \<longleftrightarrow>
     (\<forall>k v d. is_item_key k \<longrightarrow> redis_entry r k = Some (v, d) \<longrightarrow> v = content k) \<and>
     (\<forall>s key. activeDataPublicationKey s = Inr key \<longrightarrow> pointer_ok env content s key r)"

lemma describes_item_key:
  assumes "describes env content m" "k \<in> set (item_keys m)"
  shows "\<exists>name. dataPublicationItemKey (manifest_scope m) (mf_revision m) name = Inr k \<and> name \<noteq> ''active''"
proof -
  from assms(2) obtain i where i: "i \<in> set (mf_items m)" "k = mi_key i" by auto
  have ok: "manifest_ok env m" using assms(1) by (simp add: describes_def)
  then have "dataPublicationItemKey (manifest_scope m) (mf_revision m) (mi_name i) = Inr k"
    using i by (simp add: manifest_ok_def manifest_item_ok_def list_all_iff)
  moreover have "mi_name i \<noteq> ''active''"
    using ok accepted_names [of "mf_dataset m" "map mi_name (mf_items m)"] i(1)
    unfolding manifest_ok_def by (metis imageI list.set_map)
  ultimately show ?thesis by blast
qed

lemma describes_is_item_key: "describes env content m \<Longrightarrow> k \<in> set (item_keys m) \<Longrightarrow> is_item_key k"
  using describes_item_key unfolding is_item_key_def by blast

lemma describes_scope_keys:
  "describes env content m \<Longrightarrow> describes env content m' \<Longrightarrow> k \<in> set (item_keys m) \<Longrightarrow> k \<in> set (item_keys m') \<Longrightarrow>
   manifest_scope m = manifest_scope m'"
  using describes_item_key item_key_inj by metis

lemma item_key_pointer: "is_item_key k \<Longrightarrow> activeDataPublicationKey s = Inr key \<Longrightarrow> k \<noteq> key"
  unfolding is_item_key_def using item_key_not_active by blast

lemma check_stage_None:
  "check_stage r is = None \<Longrightarrow> i \<in> set is \<Longrightarrow>
   \<exists>v d. redis_entry r (mi_key i) = Some (v, d) \<and> int (length v) = mi_bytes i"
  by (induction "is") (auto split: option.splits if_splits simp: get_entry)

lemma lua_text_of_pointer:
  "pointer_ok env content s key r \<Longrightarrow> redis_get r key = Some raw \<Longrightarrow>
   \<exists>m. lua_manifest raw = Some m \<and> raw = manifest_text m \<and> describes env content m \<and> manifest_scope m = s \<and>
     holds_items content m r"
  unfolding pointer_ok_def by fastforce

text \<open>What each script leaves, in terms of the entries.\<close>

lemma swap_pointer_entry:
  "redis_entry (swap_pointer key m r) k =
     (if k = key then Some (manifest_text m, None)
      else if k \<in> set (item_keys m) then map_option (\<lambda>(v, _). (v, None)) (redis_entry r k)
      else redis_entry r k)"
  by (simp add: swap_pointer_def entry_fold_persist)

lemma now_swap_pointer [simp]: "rd_now (swap_pointer key m r) = rd_now r"
  by (simp add: swap_pointer_def)

lemma retired_ttl_nonneg: "0 \<le> DATA_PUBLICATION_RETIRED_TTL_MS" "0 \<le> DATA_PUBLICATION_STAGING_TTL_MS"
  by (simp_all add: DATA_PUBLICATION_RETIRED_TTL_MS_def DATA_PUBLICATION_STAGING_TTL_MS_def)

lemma check_stage_not_published: "check_stage r is \<noteq> Some (Published raw)"
  by (induction "is") (auto split: option.splits)

lemma activate_script_cases:
  assumes run: "activate_script key m ttl r = (reply, r')"
  obtains "r' = r" "\<forall>raw. reply \<noteq> Published raw"
  | cur where "check_stage r (mf_items m) = None"
      "reply = Published (coalesce (redis_get r key) [])"
      "redis_get r key = None \<and> cur = [] \<or>
       (\<exists>old. redis_get r key \<noteq> None \<and> lua_manifest (the (redis_get r key)) = Some old \<and> cur = mf_items old \<and>
         mf_publicationId old \<noteq> mf_publicationId m \<and>
         \<not> code_unit_less (mf_sourceCheckedAt m) (mf_sourceCheckedAt old) \<and>
         (mf_sourceCheckedAt old = mf_sourceCheckedAt m \<longrightarrow> mf_revision old < mf_revision m))"
      "r' = retire_items ttl (mf_items m) cur (swap_pointer key m r)"
proof (cases "redis_get r key")
  case None
  show ?thesis
  proof (cases "check_stage r (mf_items m)")
    case None
    with \<open>redis_get r key = None\<close> run that(2) [of "[]"] show ?thesis
      by (simp add: activate_script_def)
  next
    case (Some f)
    with \<open>redis_get r key = None\<close> run that(1) check_stage_not_published [of r "mf_items m"] show ?thesis
      by (simp add: activate_script_def)
  qed
next
  case (Some raw)
  show ?thesis
  proof (cases "lua_manifest raw")
    case None
    with Some run that(1) show ?thesis by (simp add: activate_script_def)
  next
    case (Some old)
    let ?later = "mf_publicationId old \<noteq> mf_publicationId m \<and>
      \<not> code_unit_less (mf_sourceCheckedAt m) (mf_sourceCheckedAt old) \<and>
      \<not> (mf_sourceCheckedAt old = mf_sourceCheckedAt m \<and> mf_revision m \<le> mf_revision old)"
    note cur = \<open>redis_get r key = Some raw\<close> Some
    show ?thesis
    proof (cases "?later \<and> check_stage r (mf_items m) = None")
      case True
      with cur run have "reply = Published raw" "r' = retire_items ttl (mf_items m) (mf_items old) (swap_pointer key m r)"
        by (simp_all add: activate_script_def split: if_splits)
      with True cur show ?thesis by (intro that(2) [of "mf_items old"]) auto
    next
      case False
      with cur run have "r' = r \<and> (reply \<in> {Idempotent raw, Publication_id_conflict, Stale raw} \<or>
        check_stage r (mf_items m) = Some reply)"
        by (auto simp: activate_script_def split: if_splits option.splits)
      then show ?thesis using check_stage_not_published [of r "mf_items m"] by (intro that(1)) auto
    qed
  qed
qed

lemma persist_checked_entry:
  "persist_checked ks r = (x, r') \<Longrightarrow>
   rd_now r' = rd_now r \<and>
   (k \<notin> set ks \<longrightarrow> redis_entry r' k = redis_entry r k) \<and>
   redis_entry r' k \<in> {redis_entry r k, map_option (\<lambda>(v, _). (v, None)) (redis_entry r k)} \<and>
   (x = None \<longrightarrow> k \<in> set ks \<longrightarrow>
     redis_entry r k \<noteq> None \<and> redis_entry r' k = map_option (\<lambda>(v, _). (v, None)) (redis_entry r k))"
proof (induction ks arbitrary: r)
  case (Cons j ks)
  show ?case
  proof (cases "redis_entry r j = None")
    case True
    with Cons.prems show ?thesis by auto
  next
    case False
    with Cons.prems have "persist_checked ks (redis_persist j r) = (x, r')" by simp
    note ih = Cons.IH [OF this]
    have e: "redis_entry (redis_persist j r) k =
        (if k = j then map_option (\<lambda>(v, _). (v, None)) (redis_entry r k) else redis_entry r k)"
      by (simp add: entry_persist)
    have i: "map_option (\<lambda>(v, _). (v, None)) (map_option (\<lambda>(v, _). (v, None)) y) = map_option (\<lambda>(v, _). (v, None)) y"
      for y :: "(string \<times> int option) option" by (cases y) auto
    show ?thesis using ih False unfolding e
      by (cases "k = j"; cases "k \<in> set ks") (auto simp only: i list.set insert_iff if_True if_False now_ops, auto)
  qed
qed simp

lemma entry_iff:
  "redis_entry r k = Some (v, d) \<longleftrightarrow>
   js_get (rd_store r) k = Some (v, d) \<and> (\<forall>x. d = Some x \<longrightarrow> rd_now r \<le> x)"
  by (auto simp: redis_entry_def split: option.splits if_splits)

lemma retire_swap_entry:
  "0 \<le> ttl \<Longrightarrow> k \<noteq> key \<Longrightarrow>
   redis_entry (retire_items ttl (mf_items m) cur (swap_pointer key m r)) k =
     (if k \<in> set (item_keys m) then map_option (\<lambda>(v, _). (v, None)) (redis_entry r k)
      else if k \<in> mi_key ` set cur then map_option (\<lambda>(v, _). (v, Some (rd_now r + ttl))) (redis_entry r k)
      else redis_entry r k)"
  by (auto simp: retire_items_fold entry_fold_pexpire swap_pointer_entry image_iff)

lemma step_now: "redis_step env content r r' \<Longrightarrow> rd_now r \<le> rd_now r'"
proof (induction rule: redis_step.induct)
  case (activate m key r reply r')
  then show ?case by (auto elim!: activate_script_cases)
next
  case (retire s key r retired r')
  then show ?case by (auto simp: retire_script_def split: option.splits)
next
  case (swap replacement s key expected r swapped r')
  then show ?case
    by (auto simp: cas_script_def split: option.splits if_splits prod.splits dest!: persist_checked_entry)
qed simp_all

text \<open>An existing payload survives every step: at worst it gets a new deadline a day ahead.\<close>

lemma step_keeps:
  assumes "redis_step env content r r'" and k: "is_item_key k" and e: "redis_entry r k = Some (v, d)"
    and alive: "\<And>x. d = Some x \<Longrightarrow> rd_now r' \<le> x"
  shows "\<exists>d'. redis_entry r' k = Some (v, d') \<and> d' \<in> {d, None, Some (rd_now r + DATA_PUBLICATION_RETIRED_TTL_MS)}"
  using assms(1)
proof cases
  case (tick t)
  with e alive show ?thesis by (auto simp: entry_iff)
next
  case (stage j)
  with e show ?thesis by (auto simp: entry_set_nx retired_ttl_nonneg)
next
  case (activate m key reply)
  have "k \<noteq> key" using item_key_pointer k activate by blast
  from activate(3) show ?thesis
  proof (cases rule: activate_script_cases)
    case 1
    with e show ?thesis by simp
  next
    case (2 cur)
    with e show ?thesis by (simp add: retire_swap_entry [OF retired_ttl_nonneg(1) \<open>k \<noteq> key\<close>])
  qed
next
  case (retire s key reply)
  have "k \<noteq> key" using item_key_pointer k retire by blast
  with retire e show ?thesis
    by (auto simp: retire_script_def entry_fold_pexpire retired_ttl_nonneg split: option.splits if_splits)
next
  case (swap replacement s key expected reply)
  have "k \<noteq> key" using item_key_pointer k swap by blast
  have "redis_entry r' k \<in> {redis_entry r k, map_option (\<lambda>(v, _). (v, None)) (redis_entry r k)}"
    using swap(3) \<open>k \<noteq> key\<close> persist_checked_entry [where k = k]
    by (auto simp: cas_script_def split: option.splits if_splits prod.splits) fastforce+
  with e show ?thesis by auto
qed

section \<open>The invariant is kept\<close>

lemma holds_items_update:
  assumes "holds_items content m r" "\<And>k. k \<in> set (item_keys m) \<Longrightarrow> redis_entry r' k = redis_entry r k"
  shows "holds_items content m r'"
  using assms by (simp add: holds_items_def)

lemma pointer_ok_update:
  assumes "pointer_ok env content s key r" "redis_get r' key = redis_get r key \<or> redis_get r' key = None"
    and "\<And>m k. describes env content m \<Longrightarrow> manifest_scope m = s \<Longrightarrow> holds_items content m r \<Longrightarrow>
      redis_get r key = Some (manifest_text m) \<Longrightarrow> k \<in> set (item_keys m) \<Longrightarrow> redis_entry r' k = redis_entry r k"
  shows "pointer_ok env content s key r'"
  using assms holds_items_update unfolding pointer_ok_def by (metis option.distinct(1))

lemma stage_contents:
  assumes "redis_step env content r r'" "is_item_key k" "redis_entry r' k = Some (v, d)"
    and "\<forall>k v d. is_item_key k \<longrightarrow> redis_entry r k = Some (v, d) \<longrightarrow> v = content k"
  shows "v = content k"
  using assms(1)
proof cases
  case (tick t)
  with assms(2-4) show ?thesis by (fastforce simp: entry_iff)
next
  case (stage j)
  with assms(2-4) show ?thesis by (auto simp: entry_set_nx retired_ttl_nonneg split: if_splits)
next
  case (activate m key reply)
  have "k \<noteq> key" using item_key_pointer assms(2) activate by blast
  from activate(3) show ?thesis
  proof (cases rule: activate_script_cases)
    case 1
    with assms(2-4) show ?thesis by blast
  next
    case (2 cur)
    with assms(2-4) show ?thesis
      by (auto simp: retire_swap_entry [OF retired_ttl_nonneg(1) \<open>k \<noteq> key\<close>] split: if_splits)
  qed
next
  case (retire s key reply)
  have "k \<noteq> key" using item_key_pointer assms(2) retire by blast
  with retire assms(2-4) show ?thesis
    by (auto simp: retire_script_def entry_fold_pexpire retired_ttl_nonneg split: option.splits if_splits)
next
  case (swap replacement s key expected reply)
  have "k \<noteq> key" using item_key_pointer assms(2) swap by blast
  have "redis_entry r' k \<in> {redis_entry r k, map_option (\<lambda>(v, _). (v, None)) (redis_entry r k)}"
    using swap(3) \<open>k \<noteq> key\<close> persist_checked_entry [where k = k]
    by (auto simp: cas_script_def split: option.splits if_splits prod.splits) fastforce+
  then obtain d' where "redis_entry r k = Some (v, d')" using assms(3) by (cases "redis_entry r k") auto
  with assms(2,4) show ?thesis by blast
qed

lemma activate_pointer_ok:
  assumes inv: "publication_inv env content r" and m: "describes env content m"
    and key: "activeDataPublicationKey (manifest_scope m) = Inr key"
    and run: "activate_script key m DATA_PUBLICATION_RETIRED_TTL_MS r = (reply, r')"
    and s: "activeDataPublicationKey s = Inr key'"
  shows "pointer_ok env content s key' r'"
  using run
proof (cases rule: activate_script_cases)
  case 1
  with inv s show ?thesis by (simp add: publication_inv_def)
next
  case (2 cur)
  have items: "k \<noteq> key" if "k \<in> set (item_keys n)" "describes env content n" for k n
    using item_key_pointer describes_is_item_key that key by blast
  note entry = retire_swap_entry [OF retired_ttl_nonneg(1), of _ key m cur r, folded 2(4)]
  show ?thesis
  proof (cases "key' = key")
    case True
    have "redis_entry r' k = Some (content k, None)" if k: "k \<in> set (item_keys m)" for k
    proof -
      obtain v d where "redis_entry r k = Some (v, d)" using check_stage_None [OF 2(1)] k by fastforce
      moreover from this have "v = content k"
        using inv describes_is_item_key [OF m k] by (auto simp: publication_inv_def)
      ultimately show ?thesis using entry [OF items [OF k m]] k by simp
    qed
    moreover have "redis_entry r' key = Some (manifest_text m, None)"
    proof -
      have "key \<notin> mi_key ` set cur"
      proof (cases "redis_get r key = None")
        case False
        then obtain old where old: "lua_manifest (the (redis_get r key)) = Some old" "cur = mf_items old"
          using 2(3) by auto
        have "pointer_ok env content (manifest_scope m) key r" using inv key by (simp add: publication_inv_def)
        then have "describes env content old" using lua_text_of_pointer False old(1) by fastforce
        then show ?thesis using items old(2) by fastforce
      qed (use 2(3) in simp)
      then show ?thesis
        unfolding 2(4) by (auto simp: retire_items_fold entry_fold_pexpire retired_ttl_nonneg swap_pointer_entry)
    qed
    moreover have "s = manifest_scope m" using active_key_inj s key True by simp
    ultimately show ?thesis using m True by (auto simp: pointer_ok_def holds_items_def redis_get_def)
  next
    case False
    have other: "manifest_scope m \<noteq> s" using s key False by auto
    have cur: "\<exists>n. describes env content n \<and> manifest_scope n = manifest_scope m \<and> k \<in> set (item_keys n)"
      if "k \<in> mi_key ` set cur" for k
    proof -
      from that 2(3) obtain old where old: "redis_get r key \<noteq> None"
        "lua_manifest (the (redis_get r key)) = Some old" "cur = mf_items old" by auto
      have "pointer_ok env content (manifest_scope m) key r" using inv key by (simp add: publication_inv_def)
      then show ?thesis using lua_text_of_pointer old that by fastforce
    qed
    have keys: "key' \<notin> set (item_keys m)" "key' \<notin> mi_key ` set cur"
      using item_key_pointer [OF _ s] describes_is_item_key m cur by blast+
    show ?thesis
    proof (rule pointer_ok_update)
      show "pointer_ok env content s key' r" using inv s by (simp add: publication_inv_def)
      show "redis_get r' key' = redis_get r key' \<or> redis_get r' key' = None"
        using entry [OF False] keys by (simp add: redis_get_def)
      fix n k
      assume n: "describes env content n" "manifest_scope n = s" and k: "k \<in> set (item_keys n)"
      have "k \<notin> set (item_keys m)" "k \<notin> mi_key ` set cur"
        using describes_scope_keys [OF n(1) _ k] cur m n(2) other by metis+
      then show "redis_entry r' k = redis_entry r k" using entry [OF items [OF k n(1)]] by simp
    qed
  qed
qed

lemma step_pointer_ok:
  assumes step: "redis_step env content r r'" and inv: "publication_inv env content r"
    and s: "activeDataPublicationKey s = Inr key"
  shows "pointer_ok env content s key r'"
  using step
proof cases
  case (tick t)
  have get: "redis_get r' key = redis_get r key \<or> redis_get r' key = None"
    using tick by (auto simp: redis_get_def redis_entry_def split: option.splits)
  have persistent: "redis_entry r' k = Some (v, None)" if "redis_entry r k = Some (v, None)" for k v
    using that tick by (simp add: entry_iff)
  have "pointer_ok env content s key r" using inv s by (simp add: publication_inv_def)
  then show ?thesis
  proof (rule pointer_ok_update [OF _ get])
    fix m k assume "holds_items content m r" "k \<in> set (item_keys m)"
    then have "redis_entry r k = Some (content k, None)" by (auto simp: holds_items_def)
    then show "redis_entry r' k = redis_entry r k" using persistent by simp
  qed
next
  case (stage j)
  then have "j \<noteq> key" using item_key_pointer s by blast
  have "pointer_ok env content s key r" using inv s by (simp add: publication_inv_def)
  then show ?thesis
  proof (rule pointer_ok_update)
    show "redis_get r' key = redis_get r key \<or> redis_get r' key = None"
      using stage \<open>j \<noteq> key\<close> by (simp add: entry_set_nx retired_ttl_nonneg redis_get_def)
    fix m k assume "holds_items content m r" "k \<in> set (item_keys m)"
    then have "redis_entry r k = Some (content k, None)" by (auto simp: holds_items_def)
    then show "redis_entry r' k = redis_entry r k" using stage by (auto simp: entry_set_nx retired_ttl_nonneg)
  qed
next
  case (activate m k reply)
  then show ?thesis using activate_pointer_ok [OF inv _ _ _ s] by blast
next
  case (retire s' k reply)
  have p: "pointer_ok env content s key r" "pointer_ok env content s' k r"
    using inv s retire(1) by (simp_all add: publication_inv_def)
  show ?thesis
  proof (cases "redis_get r k")
    case None
    with retire p show ?thesis by (simp add: retire_script_def)
  next
    case (Some raw)
    then obtain cur where cur: "lua_manifest raw = Some cur" "describes env content cur" "manifest_scope cur = s'"
      using lua_text_of_pointer [OF p(2)] by blast
    have r': "r' = redis_del k (fold (redis_pexpire DATA_PUBLICATION_RETIRED_TTL_MS) (item_keys cur) r)"
      using retire(2) Some cur(1) by (simp add: retire_script_def)
    have items: "j \<noteq> k" "j \<noteq> key" if "j \<in> set (item_keys n)" "describes env content n" for j n
      using item_key_pointer describes_is_item_key that s retire(1) by blast+
    show ?thesis
    proof (cases "s = s'")
      case True
      with s retire(1) have "k = key" by simp
      then show ?thesis by (simp add: pointer_ok_def r' redis_get_def)
    next
      case False
      have "k \<noteq> key" using active_key_inj [OF s] retire(1) False by auto
      show ?thesis
      proof (rule pointer_ok_update [OF p(1)])
        show "redis_get r' key = redis_get r key \<or> redis_get r' key = None"
          using \<open>k \<noteq> key\<close> items(2) cur(2)
          by (auto simp: r' redis_get_def entry_fold_pexpire retired_ttl_nonneg)
        fix n j
        assume n: "describes env content n" "manifest_scope n = s" and j: "j \<in> set (item_keys n)"
        have "j \<notin> set (item_keys cur)" using describes_scope_keys [OF n(1) cur(2) j] n(2) cur(3) False by auto
        then show "redis_entry r' j = redis_entry r j"
          using items(1) [OF j n(1)] by (simp add: r' entry_fold_pexpire retired_ttl_nonneg)
      qed
    qed
  qed
next
  case (swap replacement s' k expected reply)
  have p: "pointer_ok env content s key r" "pointer_ok env content s' k r"
    using inv s swap(2) by (simp_all add: publication_inv_def)
  have items: "j \<noteq> k" "j \<noteq> key" if "j \<in> set (item_keys n)" "describes env content n" for j n
    using item_key_pointer describes_is_item_key that s swap(2) by blast+
  have same: "pointer_ok env content s key r1"
    if r1: "\<And>j. redis_entry r1 j \<in> {redis_entry r j, map_option (\<lambda>(v, _). (v, None)) (redis_entry r j)}" for r1
  proof (rule pointer_ok_update [OF p(1)])
    show "redis_get r1 key = redis_get r key \<or> redis_get r1 key = None"
      using r1 [of key] by (auto simp: redis_get_def split: option.splits)
    fix n j
    assume "holds_items content n r" "j \<in> set (item_keys n)"
    then have "redis_entry r j = Some (content j, None)" by (auto simp: holds_items_def)
    then show "redis_entry r1 j = redis_entry r j" using r1 [of j] by auto
  qed
  consider "r' = r" | "r' = redis_del k r" "\<exists>raw. redis_get r k = Some raw"
    | (fail) m x where "replacement = Some m" "persist_checked (item_keys m) r = (Some x, r')"
    | (replaced) m r1 where "replacement = Some m" "persist_checked (item_keys m) r = (None, r1)"
        "r' = redis_set k (manifest_text m) r1"
    using swap(3) by (auto simp: cas_script_def split: option.splits if_splits prod.splits)
  then show ?thesis
  proof cases
    case 1
    with p show ?thesis by simp
  next
    case 2
    show ?thesis
    proof (rule pointer_ok_update [OF p(1)])
      show "redis_get r' key = redis_get r key \<or> redis_get r' key = None" using 2 by (simp add: redis_get_def)
      fix n j
      assume "describes env content n" "j \<in> set (item_keys n)"
      then show "redis_entry r' j = redis_entry r j" using items(1) 2 by simp
    qed
  next
    case fail
    show ?thesis by (rule same) (use persist_checked_entry [OF fail(2)] in blast)
  next
    case replaced
    have m: "describes env content m" "manifest_scope m = s'" using swap(1) replaced(1) by blast+
    have r1: "pointer_ok env content s key r1" by (rule same) (use persist_checked_entry [OF replaced(2)] in blast)
    have r': "redis_entry r' j = redis_entry r1 j" if "j \<noteq> k" for j using that by (simp add: replaced(3))
    show ?thesis
    proof (cases "s = s'")
      case True
      then have "k = key" using s swap(2) by simp
      have "redis_entry r' j = Some (content j, None)" if j: "j \<in> set (item_keys m)" for j
      proof -
        have e: "redis_entry r j \<noteq> None" "redis_entry r1 j = map_option (\<lambda>(v, _). (v, None)) (redis_entry r j)"
          using persist_checked_entry [OF replaced(2), of j] j by auto
        moreover have "v = content j" if "redis_entry r j = Some (v, d)" for v d
          using inv describes_is_item_key [OF m(1) j] that by (auto simp: publication_inv_def)
        ultimately show ?thesis using r' items(1) [OF j m(1)] by auto
      qed
      then show ?thesis using m True \<open>k = key\<close>
        by (auto simp: pointer_ok_def holds_items_def redis_get_def replaced(3))
    next
      case False
      have "k \<noteq> key" using active_key_inj [OF s] swap(2) False by auto
      then show ?thesis using r1 r' items(1)
        by (intro pointer_ok_update [OF r1]) (auto simp: redis_get_def)
    qed
  qed
qed

lemma step_publication_inv:
  "redis_step env content r r' \<Longrightarrow> publication_inv env content r \<Longrightarrow> publication_inv env content r'"
  using stage_contents step_pointer_ok unfolding publication_inv_def by blast

interpretation publication: step_invariant "redis_step env content" "publication_inv env content" for env content
  by unfold_locales (rule step_publication_inv)

definition empty_redis :: redis where
  "empty_redis = \<lparr>rd_now = 0, rd_store = []\<rparr>"

lemma empty_redis_inv: "publication_inv env content empty_redis"
  by (simp add: publication_inv_def pointer_ok_def empty_redis_def redis_entry_def redis_get_def)

section \<open>Readers\<close>

text \<open>Once a payload was referenced by an active pointer, it stays for the retirement period.\<close>

definition kept_for :: "(string \<Rightarrow> string) \<Rightarrow> string list \<Rightarrow> int \<Rightarrow> redis \<Rightarrow> bool" where
  "kept_for content ks until r \<longleftrightarrow> rd_now r \<le> until \<longrightarrow>
     (\<forall>k \<in> set ks. \<exists>d. redis_entry r k = Some (content k, d) \<and> (\<forall>x. d = Some x \<longrightarrow> until \<le> x))"

lemma step_kept:
  assumes step: "redis_step env content r r'" and keys: "\<And>k. k \<in> set ks \<Longrightarrow> is_item_key k"
    and kept: "kept_for content ks until r" and later: "until \<le> rd_now r + DATA_PUBLICATION_RETIRED_TTL_MS"
  shows "kept_for content ks until r'"
  unfolding kept_for_def
proof (intro impI ballI)
  fix k assume now: "rd_now r' \<le> until" and k: "k \<in> set ks"
  have "rd_now r \<le> until" using step_now [OF step] now by simp
  then obtain d where d: "redis_entry r k = Some (content k, d)" "\<And>x. d = Some x \<Longrightarrow> until \<le> x"
    using kept k unfolding kept_for_def by blast
  then have "\<And>x. d = Some x \<Longrightarrow> rd_now r' \<le> x" using now by force
  from step_keeps [OF step keys [OF k] d(1) this] d(2) later
  show "\<exists>d. redis_entry r' k = Some (content k, d) \<and> (\<forall>x. d = Some x \<longrightarrow> until \<le> x)" by auto
qed

lemma run_kept:
  assumes "publication_inv env content r" "(redis_step env content)\<^sup>*\<^sup>* r r'"
    and "describes env content m" "holds_items content m r"
  shows "kept_for content (item_keys m) (rd_now r + DATA_PUBLICATION_RETIRED_TTL_MS) r' \<and> rd_now r \<le> rd_now r'"
  using assms(2)
proof (induction rule: rtranclp_induct)
  case base
  have "redis_entry r k = Some (content k, None)" if "k \<in> set (item_keys m)" for k
    using assms(4) that by (auto simp: holds_items_def)
  then show ?case by (auto simp: kept_for_def)
next
  case (step t u)
  then show ?case
    using step_kept [OF step.hyps(2), of "item_keys m"] describes_is_item_key [OF assms(3)] step_now [OF step.hyps(2)] by simp
qed

lemma read_item_described:
  assumes "describes env content m" "i \<in> set (mf_items m)" "redis_get r (mi_key i) = Some (content (mi_key i))"
  shows "read_item env r i = Some (mi_name i, the (JSON_parse (content (mi_key i))))"
  using assms by (auto simp: describes_def read_item_def)

lemma those_map_eq: "(\<And>x. x \<in> set xs \<Longrightarrow> f x = Some (g x)) \<Longrightarrow> those (map f xs) = Some (map g xs)"
  by (induction xs) simp_all

lemma read_pointer_inv:
  assumes "publication_inv env content r" "activeDataPublicationKey s = Inr key" "read_pointer env s key r = Some m"
  shows "describes env content m \<and> manifest_scope m = s \<and> holds_items content m r"
proof -
  obtain raw where raw: "redis_get r key = Some raw"
    using assms(3) by (cases "redis_get r key") (auto simp: read_pointer_def parseDataPublicationManifest_def)
  then have "lua_manifest raw = Some m"
    using assms(3) parse_manifest_ok by (auto simp: read_pointer_def split: option.splits if_splits)
  moreover have "pointer_ok env content s key r" using assms(1,2) by (simp add: publication_inv_def)
  ultimately show ?thesis using lua_text_of_pointer [OF _ raw] by fastforce
qed

text \<open>
  C20. Readers never see a torn publication. In every reachable state of Redis, a reader that
  fetched an active manifest and fetches the payloads at any time within the retirement period
  gets the complete, unmodified content the manifest describes, whatever the publishers,
  retirements, swaps and expirations of all scopes do in between.
\<close>

theorem publication_readers:
  assumes "(redis_step env content)\<^sup>*\<^sup>* empty_redis r" "activeDataPublicationKey s = Inr key"
    and "read_pointer env s key r = Some m"
    and "(redis_step env content)\<^sup>*\<^sup>* r r'" "rd_now r' \<le> rd_now r + DATA_PUBLICATION_RETIRED_TTL_MS"
  shows "read_payloads env m r' =
    Some (m, map (\<lambda>i. (mi_name i, the (JSON_parse (content (mi_key i))))) (mf_items m))"
proof -
  have inv: "publication_inv env content r" using publication.reach_inv assms(1) empty_redis_inv by blast
  then have m: "describes env content m" "holds_items content m r"
    using read_pointer_inv assms(2,3) by blast+
  have get: "redis_get r' (mi_key i) = Some (content (mi_key i))" if "i \<in> set (mf_items m)" for i
    using run_kept [OF inv assms(4) m] assms(5) that by (auto simp: kept_for_def redis_get_def)
  have "those (map (read_item env r') (mf_items m)) =
      Some (map (\<lambda>i. (mi_name i, the (JSON_parse (content (mi_key i))))) (mf_items m))"
    by (intro those_map_eq read_item_described [OF m(1) _ get])
  then show ?thesis by (simp add: read_payloads_def)
qed

section \<open>The pointer as a register\<close>

text \<open>
  The abstract contract of activation: per scope a register that keeps the newest publication, by
  source time and then revision.
\<close>

definition newer :: "manifest \<Rightarrow> manifest \<Rightarrow> bool" where
  "newer current candidate \<longleftrightarrow>
     code_unit_less (mf_sourceCheckedAt current) (mf_sourceCheckedAt candidate) \<or>
     mf_sourceCheckedAt current = mf_sourceCheckedAt candidate \<and> mf_revision current < mf_revision candidate"

definition register_publish :: "manifest \<Rightarrow> manifest option \<Rightarrow> manifest option" where
  "register_publish candidate current =
     (case current of
        None \<Rightarrow> Some candidate
      | Some m \<Rightarrow> if mf_publicationId m \<noteq> mf_publicationId candidate \<and> newer m candidate then Some candidate else Some m)"

definition active_manifest :: "redis \<Rightarrow> string \<Rightarrow> manifest option" where
  "active_manifest r key = (case redis_get r key of None \<Rightarrow> None | Some raw \<Rightarrow> lua_manifest raw)"

lemma get_persist [simp]: "redis_get (fold redis_persist ks r) k = redis_get r k"
  by (auto simp: redis_get_def entry_fold_persist option.map_comp comp_def split_def)

lemma get_pexpire [simp]: "0 \<le> ttl \<Longrightarrow> redis_get (fold (redis_pexpire ttl) ks r) k = redis_get r k"
  by (auto simp: redis_get_def entry_fold_pexpire option.map_comp comp_def split_def)

lemma get_set: "redis_get (redis_set k v r) k' = (if k' = k then Some v else redis_get r k')"
  by (simp add: redis_get_def)

lemma get_retire_swap:
  "0 \<le> ttl \<Longrightarrow> redis_get (retire_items ttl retained cur (swap_pointer key m r)) k =
     (if k = key then Some (manifest_text m) else redis_get r k)"
  by (simp add: retire_items_fold swap_pointer_def get_set)

lemma check_stage_described:
  assumes "describes env content m" "\<And>k. k \<in> set (item_keys m) \<Longrightarrow> redis_get r k = Some (content k)"
  shows "check_stage r (mf_items m) = None"
proof -
  have "check_stage r is = None" if "set is \<subseteq> set (mf_items m)" for "is"
    using that
  proof (induction "is")
    case (Cons i js)
    then have "mi_bytes i = int (length (content (mi_key i)))" "mi_type i = ''string''"
      using assms(1) by (auto simp: describes_def manifest_ok_def manifest_item_ok_def list_all_iff)
    with Cons assms(2) [of "mi_key i"] show ?case by auto
  qed simp
  then show ?thesis by simp
qed

lemma newer_iff:
  "newer old m \<longleftrightarrow> \<not> code_unit_less (mf_sourceCheckedAt m) (mf_sourceCheckedAt old) \<and>
     \<not> (mf_sourceCheckedAt old = mf_sourceCheckedAt m \<and> mf_revision m \<le> mf_revision old)"
proof (cases "mf_sourceCheckedAt old = mf_sourceCheckedAt m")
  case True
  then show ?thesis by (auto simp: newer_def)
next
  case False
  then have "code_unit_less (mf_sourceCheckedAt old) (mf_sourceCheckedAt m) \<longleftrightarrow>
      \<not> code_unit_less (mf_sourceCheckedAt m) (mf_sourceCheckedAt old)"
    using code_unit_less_total code_unit_less_trans code_unit_less_irrefl by metis
  with False show ?thesis by (simp add: newer_def)
qed

text \<open>
  C21. Activation implements the register: when its payloads are staged, activating a manifest
  makes the pointer of its scope hold the newest publication, reports success exactly when the
  pointer moved, and touches no other scope's pointer.
\<close>

theorem activate_refines_register:
  assumes "(redis_step env content)\<^sup>*\<^sup>* empty_redis r" "describes env content m"
    and "activeDataPublicationKey (manifest_scope m) = Inr key"
    and "\<And>k. k \<in> set (item_keys m) \<Longrightarrow> redis_entry r k \<noteq> None"
    and "activate_script key m DATA_PUBLICATION_RETIRED_TTL_MS r = (reply, r')"
  shows "active_manifest r' key = register_publish m (active_manifest r key) \<and>
    ((\<exists>raw. reply = Published raw) \<longleftrightarrow>
      (\<forall>old. active_manifest r key = Some old \<longrightarrow> mf_publicationId old \<noteq> mf_publicationId m \<and> newer old m)) \<and>
    (\<forall>key'. key' \<noteq> key \<longrightarrow> redis_get r' key' = redis_get r key')"
proof -
  have inv: "publication_inv env content r" using publication.reach_inv assms(1) empty_redis_inv by blast
  have "redis_get r k = Some (content k)" if "k \<in> set (item_keys m)" for k
    using assms(4) [OF that] inv describes_is_item_key [OF assms(2) that]
    by (cases "redis_entry r k") (auto simp: publication_inv_def redis_get_def)
  then have staged: "check_stage r (mf_items m) = None" using check_stage_described assms(2) by blast
  have pointer: "lua_manifest raw \<noteq> None" if "redis_get r key = Some raw" for raw
    using lua_text_of_pointer [OF _ that] inv assms(3) by (fastforce simp: publication_inv_def)
  show ?thesis
  proof (cases "redis_get r key")
    case None
    with assms(5) staged have "reply = Published []" "r' = retire_items DATA_PUBLICATION_RETIRED_TTL_MS (mf_items m) [] (swap_pointer key m r)"
      by (simp_all add: activate_script_def)
    with None show ?thesis
      by (simp add: active_manifest_def get_retire_swap retired_ttl_nonneg register_publish_def)
  next
    case (Some raw)
    with pointer obtain old where old: "lua_manifest raw = Some old" by auto
    have act: "active_manifest r key = Some old" using Some old by (simp add: active_manifest_def)
    show ?thesis
    proof (cases "mf_publicationId old \<noteq> mf_publicationId m \<and> newer old m")
      case True
      with assms(5) staged Some old
      have "reply = Published raw" "r' = retire_items DATA_PUBLICATION_RETIRED_TTL_MS (mf_items m) (mf_items old) (swap_pointer key m r)"
        unfolding newer_iff by (auto simp: activate_script_def)
      with True act show ?thesis
        by (simp add: active_manifest_def get_retire_swap retired_ttl_nonneg register_publish_def)
    next
      case False
      with assms(5) staged Some old have "r' = r" "\<forall>x. reply \<noteq> Published x"
        unfolding newer_iff by (auto simp: activate_script_def split: if_splits)
      with False act show ?thesis by (auto simp: register_publish_def)
    qed
  qed
qed

section \<open>Publishing and reading back\<close>

definition stored_value :: "publication_dataset \<Rightarrow> json \<Rightarrow> json" where
  "stored_value d v = (if d = Fpl_live then jsonb_value v else canonicalize v)"

text \<open>A top-level date is counted as an object without properties but is stored as a text.\<close>

definition readable :: "json \<Rightarrow> bool" where
  "readable v \<longleftrightarrow> wf_json v \<and> defined v \<and> (case v of JDate _ \<Rightarrow> False | _ \<Rightarrow> True)"

definition digests :: "publication_env \<Rightarrow> bool" where
  "digests env \<longleftrightarrow> (\<forall>s. length (pe_sha256 env s) = 64 \<and> list_all is_lower_hex (pe_sha256 env s))"

definition dates_valid :: "publication_env \<Rightarrow> string \<Rightarrow> publish_input \<Rightarrow> bool" where
  "dates_valid env publishedAt input \<longleftrightarrow> pe_validDate env publishedAt \<and>
     (\<forall>t. pi_sourceCheckedAt input = Some t \<longrightarrow> pe_validDate env t) \<and>
     (\<forall>t. pi_lastSuccessfulFetchAt input = Some (Some t) \<longrightarrow> pe_validDate env t)"

lemma stored_count:
  assumes "readable v"
  shows "itemCount (stored_value d v) = itemCount v"
proof (cases v)
  case (JArr vs)
  then show ?thesis by (simp add: stored_value_def jsonb_maps canonicalize_maps)
next
  case (JObj es)
  then have "distinct (map fst es)" using assms by (simp add: readable_def)
  note jsonb_Obj [OF this] canonicalize_Obj [OF this]
  then show ?thesis using JObj
    by (auto simp: stored_value_def simp flip: size_mset)
qed (use assms in \<open>simp_all add: readable_def stored_value_def\<close>)

lemma payload_parse:
  assumes "readable v"
  shows "\<exists>p. item_payload d v = Inr p \<and> JSON_parse p = Some (stored_value d v)"
  using canonicalJson_parse [of v] postgresJsonb_parse [of v] assms
  by (auto simp: item_payload_def stored_value_def readable_def)

lemma serialize_item_shape:
  assumes "serialize_item env input item = Inr s" "readable (snd item)"
  shows "mi_name (fst s) = fst item \<and> mi_type (fst s) = ''string'' \<and>
    dataPublicationItemKey (pi_scope input) (pi_revision input) (fst item) = Inr (mi_key (fst s)) \<and>
    mi_bytes (fst s) = int (length (snd s)) \<and> mi_sha256 (fst s) = pe_sha256 env (snd s) \<and>
    mi_count (fst s) = itemCount (snd item) \<and>
    JSON_parse (snd s) = Some (stored_value (sc_dataset (pi_scope input)) (snd item))"
proof -
  obtain p where "item_payload (sc_dataset (pi_scope input)) (snd item) = Inr p"
    "JSON_parse p = Some (stored_value (sc_dataset (pi_scope input)) (snd item))"
    using payload_parse assms(2) by blast
  with assms(1) show ?thesis
    by (cases "dataPublicationItemKey (pi_scope input) (pi_revision input) (fst item)")
      (auto simp: serialize_item_def)
qed

lemma serialize_loop_shape:
  "serialize_loop env input names items = Inr ss \<Longrightarrow>
   list_all2 (\<lambda>item s. serialize_item env input item = Inr s) items ss \<and> distinct (map fst items) \<and>
   set (map fst items) \<inter> set names = {}"
proof (induction env input names items arbitrary: ss rule: serialize_loop.induct)
  case (2 env input names item items)
  from "2.prems" obtain s ss' where s: "fst item \<notin> set names" "serialize_item env input item = Inr s"
    "serialize_loop env input (fst item # names) items = Inr ss'" "ss = s # ss'"
    by (cases "serialize_item env input item"; cases "serialize_loop env input (fst item # names) items")
      (auto split: if_splits)
  from "2.IH" [OF s(1,3)] s show ?case by auto
qed simp

lemma itemCount_nonneg: "0 \<le> itemCount v"
  by (cases v) simp_all

text \<open>What a prepared publication looks like.\<close>

lemma prepared_shape:
  assumes prep: "prepareDataPublication env t input = Inr (m, ss)"
    and items: "list_all (\<lambda>item. readable (snd item)) (pi_items input)"
    and env: "digests env" "dates_valid env t input"
    and event: "\<And>e. sc_eventId (pi_scope input) = Some e \<Longrightarrow> is_safe_integer e"
  shows "manifest_ok env m \<and> manifest_scope m = pi_scope input \<and> mf_items m = map fst ss \<and> ss \<noteq> [] \<and>
    list_all2 (\<lambda>item s. serialize_item env input item = Inr s) (pi_items input) ss"
proof -
  let ?s = "pi_scope input"
  from prep have scope: "assertScope ?s = Inr ()" and ser: "serializeItems env input = Inr ss"
    and man: "createManifest t input ss = Inr m"
    by (auto simp: prepareDataPublication_def res_bind_Inr_iff)
  from ser have loop: "serialize_loop env input [] (pi_items input) = Inr ss" and "pi_items input \<noteq> []"
    and names: "hasExactItemNames (sc_dataset ?s) (map fst (pi_items input))"
    by (auto simp: serializeItems_def res_bind_Inr_iff split: if_splits)
  note l = serialize_loop_shape [OF loop]
  then have "ss \<noteq> []" using \<open>pi_items input \<noteq> []\<close> by auto
  from man have m: "mf_dataset m = sc_dataset ?s" "mf_seasonCode m = sc_seasonCode ?s" "mf_eventId m = sc_eventId ?s"
    "mf_revision m = pi_revision input" "mf_items m = map fst ss" "isDataPublicationId (mf_publicationId m)"
    "isCanonicalState (mf_dataset m) (mf_state m)" "pe_validDate env (mf_publishedAt m)"
    "pe_validDate env (mf_sourceCheckedAt m)"
    "case mf_lastSuccessfulFetchAt m of None \<Rightarrow> True | Some t \<Rightarrow> pe_validDate env t"
    using env(2) by (cases "pi_lastSuccessfulFetchAt input";
      auto simp: createManifest_def dates_valid_def split: if_splits option.splits)+
  have ms: "manifest_scope m = ?s" using m by (simp add: manifest_scope_def)
  have shape: "list_all2 (\<lambda>item s. mi_name (fst s) = fst item \<and> manifest_item_ok m (fst s)) (pi_items input) ss"
  proof (rule list.rel_mono_strong [OF conjunct1 [OF l]])
    fix item s assume "item \<in> set (pi_items input)" and s: "serialize_item env input item = Inr s"
    then have "readable (snd item)" using items by (simp add: list_all_iff)
    from serialize_item_shape [OF s this] show "mi_name (fst s) = fst item \<and> manifest_item_ok m (fst s)"
      using env(1) itemCount_nonneg
      by (auto simp: manifest_item_ok_def ms m digests_def elim!: item_key_shape)
  qed
  then have ns: "map mi_name (mf_items m) = map fst (pi_items input)"
    unfolding m(5) by (induction rule: list_all2_induct) simp_all
  have oks: "list_all (manifest_item_ok m) (mf_items m)"
    using shape unfolding m(5) by (induction rule: list_all2_induct) simp_all
  obtain i where "i \<in> set (mf_items m)" using \<open>ss \<noteq> []\<close> m(5) by (cases ss) auto
  then obtain name where "dataPublicationItemKey ?s (mf_revision m) name = Inr (mi_key i)"
    using oks by (auto simp: list_all_iff manifest_item_ok_def ms)
  then have rev: "is_safe_integer (mf_revision m) \<and> 0 < mf_revision m" by (elim item_key_shape) simp
  have ev: "if mf_dataset m = Fpl_live
       then mf_eventId m \<noteq> None \<and> is_safe_integer (the (mf_eventId m)) \<and> the (mf_eventId m) > 0
       else mf_eventId m = None"
    using scope event by (auto simp: assertScope_ok m)
  have "manifest_ok env m"
    using scope names ev rev m oks l ns
    by (auto simp: manifest_ok_def ms hasAcceptedItemNames_def assertScope_ok split: if_splits)
  with ms m(5) \<open>ss \<noteq> []\<close> l show ?thesis by blast
qed

lemma stage_ok:
  "stageDataPublicationItems m ss r = (Inr u, r1) \<Longrightarrow>
   list_all (\<lambda>(i, payload). redis_get r1 (mi_key i) = Some payload) ss"
  by (auto simp: stageDataPublicationItems_def Let_def split: if_splits)

lemma check_stage_reply:
  assumes "check_stage r is = Some reply"
  obtains k where "reply \<in> {Missing_stage k, Wrong_stage_type k, Wrong_stage_size k}"
  using assms by (induction "is") (auto split: option.splits if_splits)

lemma activate_published:
  assumes act: "activateDataPublicationPointer env m r = (Inr result, r')" "ps_status result = Status_published"
    and key: "activeDataPublicationKey (manifest_scope m) = Inr key"
    and ok: "manifest_ok env m"
  shows "parseDataPublicationManifest env (redis_get r' key) = Some (ps_manifest result) \<and>
    mf_items (ps_manifest result) = mf_items m \<and>
    (\<forall>k. k \<noteq> key \<longrightarrow> redis_get r' k = redis_get r k)"
proof -
  obtain reply where run: "activate_script key m DATA_PUBLICATION_RETIRED_TTL_MS r = (reply, r')"
    using act key by (auto simp: activateDataPublicationPointer_def split: prod.splits)
  show ?thesis
  proof (cases "\<exists>raw. reply = Published raw")
    case True
    then have "ps_manifest result = m"
      using act key run by (auto simp: activateDataPublicationPointer_def)
    moreover from run obtain cur where
      "r' = retire_items DATA_PUBLICATION_RETIRED_TTL_MS (mf_items m) cur (swap_pointer key m r)"
      using True by (auto elim: activate_script_cases)
    ultimately show ?thesis using parse_manifest_text ok by (simp add: get_retire_swap retired_ttl_nonneg)
  next
    case False
    then obtain raw where raw: "reply = Idempotent raw"
        "parseDataPublicationManifest env (Some raw) = Some (ps_manifest result)"
      using act key run by (cases reply) (auto simp: activateDataPublicationPointer_def split: option.splits)
    then obtain current where "redis_get r key = Some raw" "lua_manifest raw = Some current"
        "same_publication current m" "r' = r"
      using run check_stage_not_published
      by (auto simp: activate_script_def Let_def split: option.splits if_splits elim!: check_stage_reply)
    moreover have "lua_manifest raw = Some (ps_manifest result)" using raw(2) parse_manifest_ok by blast
    ultimately show ?thesis using raw by (simp add: same_publication_def)
  qed
qed

text \<open>
  C22. What is published can be read: when a publication of readable items reports success and
  activation was asked for, a reader of the scope gets the published manifest and every item, in
  order, with its canonical value.
\<close>

theorem publishDataRevision_roundtrip:
  assumes "publishDataRevision env publishedAt True True input r = (Inr result, r')"
    and "ps_status result = Status_published"
    and "list_all (\<lambda>item. readable (snd item)) (pi_items input)"
    and "digests env" "dates_valid env publishedAt input"
    and "\<And>e. sc_eventId (pi_scope input) = Some e \<Longrightarrow> is_safe_integer e"
  shows "readActiveDataPublication env (pi_scope input) r' =
    Inr (Some (ps_manifest result,
      map (\<lambda>(name, v). (name, stored_value (sc_dataset (pi_scope input)) v)) (pi_items input)))"
proof -
  let ?s = "pi_scope input"
  obtain m ss r1 where prep: "prepareDataPublication env publishedAt input = Inr (m, ss)"
    and stage: "stageDataPublicationItems m ss r = (Inr (), r1)"
    and act: "activateDataPublicationPointer env m r1 = (Inr result, r')"
    and matches: "assertManifestMatchesScope (ps_manifest result) ?s"
    using assms(1,2) by (auto simp: publishDataRevision_def split: sum.splits prod.splits if_splits)
  note p = prepared_shape [OF prep assms(3-6)]
  obtain key where key: "activeDataPublicationKey ?s = Inr key"
    using act p by (cases "activeDataPublicationKey ?s") (auto simp: activateDataPublicationPointer_def)
  have pub: "parseDataPublicationManifest env (redis_get r' key) = Some (ps_manifest result)"
    "mf_items (ps_manifest result) = map fst ss" "\<And>k. k \<noteq> key \<Longrightarrow> redis_get r' k = redis_get r1 k"
    using activate_published [OF act assms(2)] key p by auto
  have ptr: "read_pointer env ?s key r' = Some (ps_manifest result)"
    using pub(1,2) matches p by (simp add: read_pointer_def)
  have "list_all2 (\<lambda>item s. read_item env r' (fst s) =
      Some (fst item, stored_value (sc_dataset ?s) (snd item))) (pi_items input) ss"
  proof (rule list.rel_mono_strong)
    show "list_all2 (\<lambda>item s. serialize_item env input item = Inr s) (pi_items input) ss" using p by blast
    fix item s assume i: "item \<in> set (pi_items input)" "s \<in> set ss" "serialize_item env input item = Inr s"
    then have rd: "readable (snd item)" using assms(3) by (simp add: list_all_iff)
    note sh = serialize_item_shape [OF i(3) rd]
    have "manifest_ok env m" "fst s \<in> set (mf_items m)" using p i(2) by auto
    then have "mi_name (fst s) \<noteq> ''active''"
      using accepted_names [of "mf_dataset m" "map mi_name (mf_items m)"]
      unfolding manifest_ok_def by (metis imageI list.set_map)
    then have "mi_key (fst s) \<noteq> key" using sh item_key_not_active key by metis
    moreover have "redis_get r1 (mi_key (fst s)) = Some (snd s)"
      using stage_ok [OF stage] i(2) by (auto simp: list_all_iff split_def)
    ultimately show "read_item env r' (fst s) = Some (fst item, stored_value (sc_dataset ?s) (snd item))"
      using sh pub(3) stored_count [OF rd] by (simp add: read_item_def)
  qed
  then have "those (map (read_item env r') (map fst ss)) =
      Some (map (\<lambda>(name, v). (name, stored_value (sc_dataset ?s) v)) (pi_items input))"
    by (induction rule: list_all2_induct) (auto simp: split_def)
  then show ?thesis using key ptr pub(2) by (simp add: readActiveDataPublication_def read_payloads_def)
qed

lemma matches_scope_iff: "assertManifestMatchesScope m s \<longleftrightarrow> manifest_scope m = s"
  by (cases s) (simp add: assertManifestMatchesScope_def manifest_scope_def)

section \<open>Witnesses\<close>

definition example_env :: publication_env where
  "example_env = \<lparr>pe_sha256 = (\<lambda>_. replicate 64 (CHR ''0'')), pe_validDate = (\<lambda>_. True)\<rparr>"

definition example_input :: publish_input where
  "example_input = \<lparr>pi_scope = \<lparr>sc_dataset = Fpl_market, sc_seasonCode = ''2526'', sc_eventId = None\<rparr>,
     pi_revision = 3, pi_publicationId = ''00000000-0000-4000-8000-000000000001'',
     pi_sourceCheckedAt = Some ''2026'', pi_lastSuccessfulFetchAt = None, pi_state = State_active,
     pi_items = [(''context'', JObj [(''b'', JInt 1), (''a'', JNull)])]\<rparr>"

definition example_scope :: publication_scope where
  "example_scope = \<lparr>sc_dataset = Fpl_market, sc_seasonCode = ''2526'', sc_eventId = None\<rparr>"

definition example_payload :: string where
  "example_payload = quote_string ''a'' @ '':null,'' @ quote_string ''b'' @ '':1}''"

definition example_stored :: json where
  "example_stored = JObj [(''a'', JNull), (''b'', JInt 1)]"

definition example_content :: "string \<Rightarrow> string" where
  "example_content k = CHR ''{'' # example_payload"

definition example_key :: string where
  "example_key = ''llm:data:fpl:market:2526:active''"

definition example_manifest :: manifest where
  "example_manifest = fst (projr (prepareDataPublication example_env ''2026'' example_input))"

lemma example_prepared:
  "prepareDataPublication example_env ''2026'' example_input =
     Inr (example_manifest, [(hd (mf_items example_manifest), example_content [])])"
  by code_simp

lemma example_ok:
  "list_all (\<lambda>item. readable (snd item)) (pi_items example_input)" "digests example_env"
  "dates_valid example_env ''2026'' example_input" "sc_eventId (pi_scope example_input) = None"
proof -
  show "list_all (\<lambda>item. readable (snd item)) (pi_items example_input)" unfolding readable_def by code_simp
  have "list_all is_lower_hex (replicate 64 (CHR ''0''))" by code_simp
  then show "digests example_env" unfolding digests_def by (simp add: example_env_def)
  show "dates_valid example_env ''2026'' example_input" "sc_eventId (pi_scope example_input) = None"
    by (simp_all add: dates_valid_def example_env_def example_input_def)
qed

lemma example_manifest_ok:
  "manifest_ok example_env example_manifest" "manifest_scope example_manifest = example_scope"
  using prepared_shape [OF example_prepared example_ok(1-3)] example_ok(4)
  by (auto simp: example_input_def example_scope_def)

lemma example_active_key: "activeDataPublicationKey example_scope = Inr example_key"
  by code_simp

lemma example_described: "describes example_env example_content example_manifest"
proof -
  have "JSON_parse (example_content []) = Some example_stored" by code_simp
  moreover have "list_all (\<lambda>i. mi_bytes i = int (length (example_content [])) \<and>
      mi_sha256 i = pe_sha256 example_env (example_content []) \<and> itemCount example_stored = mi_count i)
      (mf_items example_manifest)" by code_simp
  ultimately show ?thesis using example_manifest_ok(1)
    by (auto simp: describes_def list_all_iff example_content_def)
qed

theorem publishDataRevision_roundtrip_witness:
  "readActiveDataPublication example_env example_scope
     (snd (publishDataRevision example_env ''2026'' True True example_input empty_redis)) =
   Inr (Some (example_manifest, [(''context'', example_stored)]))"
proof -
  let ?p = "publishDataRevision example_env ''2026'' True True example_input empty_redis"
  have "fst ?p = Inr \<lparr>ps_status = Status_published, ps_manifest = example_manifest, ps_previousManifest = None\<rparr>"
    by code_simp
  then have "?p = (Inr \<lparr>ps_status = Status_published, ps_manifest = example_manifest, ps_previousManifest = None\<rparr>, snd ?p)"
    by (metis prod.collapse)
  note publishDataRevision_roundtrip [OF this _ example_ok(1-3)]
  moreover have "stored_value Fpl_market (JObj [(''b'', JInt 1), (''a'', JNull)]) = example_stored" by code_simp
  ultimately show ?thesis using example_ok(4) by (simp add: example_input_def example_scope_def)
qed

definition example_staged :: redis where
  "example_staged = fold (\<lambda>k. redis_set_nx k (example_content k) DATA_PUBLICATION_STAGING_TTL_MS)
     (item_keys example_manifest) empty_redis"

definition example_active :: redis where
  "example_active = snd (activate_script example_key example_manifest DATA_PUBLICATION_RETIRED_TTL_MS example_staged)"

lemma example_staged:
  "redis_get example_staged example_key = None" "check_stage example_staged (mf_items example_manifest) = None"
  "list_all (\<lambda>k. redis_entry example_staged k \<noteq> None) (item_keys example_manifest)"
  by code_simp+

lemma example_activation:
  "activate_script example_key example_manifest DATA_PUBLICATION_RETIRED_TTL_MS example_staged = (Published [], example_active)"
  using example_staged by (simp add: example_active_def activate_script_def)

lemma example_steps:
  "(redis_step example_env example_content)\<^sup>*\<^sup>* empty_redis example_staged"
  "redis_step example_env example_content example_staged example_active"
proof -
  have "(redis_step example_env example_content)\<^sup>*\<^sup>* r
      (fold (\<lambda>k. redis_set_nx k (example_content k) DATA_PUBLICATION_STAGING_TTL_MS) ks r)"
    if "\<And>k. k \<in> set ks \<Longrightarrow> is_item_key k" for ks r
    using that
  proof (induction ks arbitrary: r)
    case (Cons k ks)
    then have "is_item_key k" by simp
    from converse_rtranclp_into_rtranclp [OF redis_step.stage [OF this] Cons.IH] Cons.prems show ?case by simp
  qed simp
  then show "(redis_step example_env example_content)\<^sup>*\<^sup>* empty_redis example_staged"
    unfolding example_staged_def using describes_is_item_key [OF example_described] by blast
  show "redis_step example_env example_content example_staged example_active"
    using redis_step.activate [OF example_described _ example_activation] example_manifest_ok(2) example_active_key by simp
qed

theorem activate_refines_register_witness: "active_manifest example_active example_key = Some example_manifest"
proof -
  have "\<And>k. k \<in> set (item_keys example_manifest) \<Longrightarrow> redis_entry example_staged k \<noteq> None"
    using example_staged(3) unfolding list_all_iff by blast
  with activate_refines_register [OF example_steps(1) example_described _ _ example_activation]
    example_manifest_ok(2) example_active_key
  show ?thesis by (simp add: active_manifest_def example_staged(1) register_publish_def)
qed

text \<open>The publication is retired between the reader's two requests, which still succeed.\<close>

definition example_retired :: redis where
  "example_retired = snd (retire_script example_key DATA_PUBLICATION_RETIRED_TTL_MS example_active)"

theorem publication_readers_witness:
  "redis_get example_retired example_key = None \<and>
   read_payloads example_env example_manifest (example_retired\<lparr>rd_now := rd_now example_retired + 1000\<rparr>) =
     Some (example_manifest, [(''context'', example_stored)])"
proof -
  let ?late = "example_retired\<lparr>rd_now := rd_now example_retired + 1000\<rparr>"
  have steps: "(redis_step example_env example_content)\<^sup>*\<^sup>* empty_redis example_active"
    using example_steps by (rule rtranclp.rtrancl_into_rtrancl)
  have pointer: "redis_get example_active example_key = Some (manifest_text example_manifest)"
    by (simp add: example_active_def activate_script_def example_staged get_retire_swap retired_ttl_nonneg)
  have items: "mf_items example_manifest \<noteq> []" "map mi_name (mf_items example_manifest) = [''context'']"
    by code_simp+
  have read: "read_pointer example_env example_scope example_key example_active = Some example_manifest"
    using pointer parse_manifest_text [OF example_manifest_ok(1)] items(1) example_manifest_ok(2)
    by (simp add: read_pointer_def matches_scope_iff)
  have r: "example_retired = redis_del example_key (fold (redis_pexpire DATA_PUBLICATION_RETIRED_TTL_MS)
      (item_keys example_manifest) example_active)"
    using pointer by (simp add: example_retired_def retire_script_def)
  have "redis_step example_env example_content example_active example_retired"
    unfolding example_retired_def by (rule redis_step.retire [OF example_active_key prod.collapse [symmetric]])
  then have late: "(redis_step example_env example_content)\<^sup>*\<^sup>* example_active ?late"
    using redis_step.tick [of 1000] by (meson converse_rtranclp_into_rtranclp r_into_rtranclp zero_le_numeral)
  have "JSON_parse (example_content k) = Some example_stored" for k
  proof -
    have "JSON_parse (example_content []) = Some example_stored" by code_simp
    then show ?thesis by (simp add: example_content_def)
  qed
  moreover have "rd_now ?late \<le> rd_now example_active + DATA_PUBLICATION_RETIRED_TTL_MS"
    by (simp add: r DATA_PUBLICATION_RETIRED_TTL_MS_def)
  ultimately show ?thesis
    using publication_readers [OF steps example_active_key read late] items
    by (auto simp: r redis_get_def)
qed

end
