(* ===== verification/SyncOperations.thy ===== *)
theory SyncOperations
  imports DataPublication
begin

text \<open>
  The database side of publication (\<open>src/src/repositories/sync-operations.ts\<close> over the tables of
  \<open>src/src/db/schemas/platform.schema.ts\<close>): synchronisation runs and their items, data set
  publications with their payloads, and the outbox rows that activation leaves for the dispatcher.

  A table is the list of its rows and a transaction a function on the tables that either changes
  them or throws and leaves them alone. A call takes the instant \<open>now\<close> its statements see, and
  where it draws a fresh identifier, that identifier. Identifiers are the canonical texts of
  UUIDs. A violated check or foreign key of these tables is \<open>Constraint_violation\<close>; the season
  and event rows they also refer to are taken to exist. Creation stamps, which nothing reads,
  are left out, and so are the other columns no query of the modelled code uses.
\<close>

section \<open>Tables\<close>

record season_ref =
  season_seasonId :: int
  season_seasonCode :: string

datatype run_status =
    Run_pending | Run_running | Run_failed | Run_completed | Run_ready_to_publish | Run_published | Run_skipped

datatype item_status = Item_pending | Item_running | Item_failed | Item_completed | Item_skipped

datatype publication_status = Pub_staging | Pub_active | Pub_retired | Pub_failed

datatype outbox_status =
    Out_pending | Out_staged | Out_db_activated | Out_redis_activated | Out_delivered | Out_failed

record run_identity =
  ri_provider :: string
  ri_lane :: string
  ri_scope :: string
  ri_seasonId :: "int option"
  ri_seasonCode :: "string option"
  ri_eventId :: "int option"
  ri_mode :: string
  ri_trigger :: string

record sync_run =
  ru_runId :: string
  ru_identity :: run_identity
  ru_status :: run_status
  ru_expectedItems :: int
  ru_completedItems :: int
  ru_failedItems :: int
  ru_skippedItems :: int
  ru_dataChanged :: bool
  ru_publicationId :: "string option"
  ru_errorSummary :: "string option"
  ru_metadata :: json
  ru_startedAt :: int
  ru_completedAt :: "int option"
  ru_updatedAt :: int

record sync_item =
  it_runId :: string
  it_resourceType :: string
  it_resourceId :: string
  it_status :: item_status
  it_attempts :: int
  it_sourceHash :: "string option"
  it_normalizedPayload :: "json option"
  it_lastError :: "string option"
  it_completedAt :: "int option"
  it_updatedAt :: int

record publication =
  pb_publicationId :: string
  pb_dataset :: publication_dataset
  pb_seasonId :: int
  pb_eventId :: "int option"
  pb_revision :: int
  pb_status :: publication_status
  pb_manifest :: json
  pb_sourceRunId :: "string option"
  pb_activatedAt :: "int option"
  pb_retiredAt :: "int option"
  pb_expiresAt :: "int option"
  pb_updatedAt :: int

record publication_item =
  py_publicationId :: string
  py_itemName :: string
  py_payload :: json
  py_itemCount :: int
  py_checksum :: string

record outbox_row =
  ob_outboxId :: string
  ob_publicationId :: string
  ob_sourceRunId :: "string option"
  ob_dataset :: publication_dataset
  ob_seasonId :: int
  ob_eventId :: "int option"
  ob_manifest :: json
  ob_status :: outbox_status
  ob_availableAt :: int
  ob_attempts :: int
  ob_leaseOwner :: "string option"
  ob_leaseExpiresAt :: "int option"
  ob_stagedAt :: "int option"
  ob_dbActivatedAt :: "int option"
  ob_redisActivatedAt :: "int option"
  ob_deliveredAt :: "int option"
  ob_lastError :: "string option"
  ob_updatedAt :: int

record ops_db =
  db_runs :: "sync_run list"
  db_items :: "sync_item list"
  db_publications :: "publication list"
  db_publicationItems :: "publication_item list"
  db_outbox :: "outbox_row list"
  db_nextRevision :: int

datatype sync_error =
    SYNC_RUN_ID_CONFLICT
  | SYNC_RUN_NOT_FOUND
  | SYNC_RUN_TERMINAL_STATE_CONFLICT
  | SYNC_RUN_PUBLICATION_CONFLICT
  | DATASET_PUBLICATION_MANIFEST_MISMATCH
  | DATASET_PUBLICATION_ID_INVALID
  | DATASET_PUBLICATION_ID_CONFLICT
  | DATASET_PUBLICATION_ITEMS_INCOMPLETE
  | DATASET_PUBLICATION_NOT_FOUND
  | DATASET_PUBLICATION_SCOPE_CONFLICT
  | DATASET_PUBLICATION_TERMINAL_STATE_CONFLICT
  | DATASET_PUBLICATION_STALE_ACTIVATION
  | Constraint_violation

text \<open>\<^verbatim>\<open>UPDATE ... WHERE\<close> and the row a key names.\<close>

definition update_where :: "('row \<Rightarrow> bool) \<Rightarrow> ('row \<Rightarrow> 'row) \<Rightarrow> 'row list \<Rightarrow> 'row list" where
  "update_where p f = map (\<lambda>row. if p row then f row else row)"

definition find_run :: "string \<Rightarrow> ops_db \<Rightarrow> sync_run option" where
  "find_run runId db = List.find (\<lambda>row. ru_runId row = runId) (db_runs db)"

definition find_publication :: "string \<Rightarrow> ops_db \<Rightarrow> publication option" where
  "find_publication publicationId db = List.find (\<lambda>row. pb_publicationId row = publicationId) (db_publications db)"

definition is_json_object :: "json \<Rightarrow> bool" where
  "is_json_object v = (case v of JObj _ \<Rightarrow> True | _ \<Rightarrow> False)"

definition nonblank :: "string \<Rightarrow> bool" where
  "nonblank s = list_ex (\<lambda>c. c \<noteq> CHR '' '') s"

definition run_checks :: "sync_run \<Rightarrow> bool" where
  "run_checks row =
     (nonblank (ri_provider (ru_identity row)) \<and> nonblank (ri_lane (ru_identity row)) \<and>
      nonblank (ri_scope (ru_identity row)) \<and> nonblank (ri_mode (ru_identity row)) \<and>
      nonblank (ri_trigger (ru_identity row)) \<and>
      ru_expectedItems row \<ge> 0 \<and> ru_completedItems row \<ge> 0 \<and> ru_failedItems row \<ge> 0 \<and> ru_skippedItems row \<ge> 0 \<and>
      (case ri_eventId (ru_identity row) of None \<Rightarrow> True | Some e \<Rightarrow> e > 0) \<and>
      (case ru_completedAt row of None \<Rightarrow> True | Some t \<Rightarrow> t \<ge> ru_startedAt row) \<and>
      is_json_object (ru_metadata row))"

definition item_checks :: "sync_item \<Rightarrow> bool" where
  "item_checks row =
     (nonblank (it_resourceType row) \<and> nonblank (it_resourceId row) \<and> it_attempts row \<ge> 0 \<and>
      (case it_normalizedPayload row of None \<Rightarrow> True | Some v \<Rightarrow> is_json_object v))"

definition publication_item_checks :: "publication_item \<Rightarrow> bool" where
  "publication_item_checks row =
     (py_itemName row \<in> set [''context'', ''events'', ''teams'', ''players'', ''phases'', ''fixtures'',
        ''currentEventId'', ''selectionRules'', ''eventLive''] \<and>
      py_itemCount row \<ge> 0 \<and> nonblank (py_checksum row))"

section \<open>Runs\<close>

definition NON_TERMINAL_RUN_STATUSES :: "run_status list" where
  "NON_TERMINAL_RUN_STATUSES = [Run_pending, Run_running, Run_ready_to_publish]"

definition EXPIRED_PUBLICATION_CLEANUP_BATCH_SIZE :: nat where
  "EXPIRED_PUBLICATION_CLEANUP_BATCH_SIZE = 100"

record start_run_input =
  sri_runId :: "string option"
  sri_provider :: string
  sri_lane :: string
  sri_scope :: string
  sri_season :: "season_ref option"
  sri_eventId :: "int option"
  sri_mode :: string
  sri_trigger :: string
  sri_expectedItems :: "int option"
  sri_metadata :: "json option"
  sri_startedAt :: "int option"

definition run_identity_of :: "start_run_input \<Rightarrow> run_identity" where
  "run_identity_of input =
     \<lparr>ri_provider = sri_provider input, ri_lane = sri_lane input, ri_scope = sri_scope input,
      ri_seasonId = map_option season_seasonId (sri_season input),
      ri_seasonCode = map_option season_seasonCode (sri_season input),
      ri_eventId = sri_eventId input, ri_mode = sri_mode input, ri_trigger = sri_trigger input\<rparr>"

definition new_run :: "string \<Rightarrow> int \<Rightarrow> start_run_input \<Rightarrow> sync_run" where
  "new_run runId now input =
     \<lparr>ru_runId = runId, ru_identity = run_identity_of input, ru_status = Run_running,
      ru_expectedItems = coalesce (sri_expectedItems input) 0, ru_completedItems = 0, ru_failedItems = 0,
      ru_skippedItems = 0, ru_dataChanged = False, ru_publicationId = None, ru_errorSummary = None,
      ru_metadata = coalesce (sri_metadata input) (JObj []), ru_startedAt = coalesce (sri_startedAt input) now,
      ru_completedAt = None, ru_updatedAt = now\<rparr>"

definition startRun ::
  "string \<Rightarrow> int \<Rightarrow> start_run_input \<Rightarrow> ops_db \<Rightarrow> (sync_error, string) result \<times> ops_db" where
  "startRun fresh now input db =
     (let runId = coalesce (sri_runId input) fresh; row = new_run runId now input in
      if \<not> run_checks row then (Inl Constraint_violation, db)
      else
        (case find_run runId db of
           None \<Rightarrow> (Inr runId, db\<lparr>db_runs := db_runs db @ [row]\<rparr>)
         | Some existing \<Rightarrow>
             if ru_identity existing \<noteq> run_identity_of input then (Inl SYNC_RUN_ID_CONFLICT, db)
             else (Inr runId, db)))"

record sync_item_input =
  sii_resourceType :: string
  sii_resourceId :: string
  sii_status :: item_status
  sii_attempts :: "int option"
  sii_sourceHash :: "string option"
  sii_normalizedPayload :: "json option"
  sii_lastError :: "string option"
  sii_completedAt :: "int option"

definition item_row :: "string \<Rightarrow> int \<Rightarrow> sync_item_input \<Rightarrow> sync_item" where
  "item_row runId now i =
     \<lparr>it_runId = runId, it_resourceType = sii_resourceType i, it_resourceId = sii_resourceId i,
      it_status = sii_status i, it_attempts = coalesce (sii_attempts i) 0, it_sourceHash = sii_sourceHash i,
      it_normalizedPayload = sii_normalizedPayload i, it_lastError = sii_lastError i,
      it_completedAt = sii_completedAt i, it_updatedAt = now\<rparr>"

definition item_key_of :: "sync_item \<Rightarrow> string \<times> string \<times> string" where
  "item_key_of row = (it_runId row, it_resourceType row, it_resourceId row)"

definition merge_item :: "sync_item \<Rightarrow> sync_item \<Rightarrow> sync_item" where
  "merge_item excluded row =
     (if it_attempts excluded < it_attempts row
        \<or> it_attempts excluded = it_attempts row \<and> it_status row \<in> {Item_completed, Item_skipped}
      then row
      else row\<lparr>it_status := it_status excluded, it_attempts := max (it_attempts row) (it_attempts excluded),
        it_sourceHash := it_sourceHash excluded, it_normalizedPayload := it_normalizedPayload excluded,
        it_lastError := it_lastError excluded, it_completedAt := it_completedAt excluded,
        it_updatedAt := it_updatedAt excluded\<rparr>)"

definition upsert_item :: "sync_item \<Rightarrow> sync_item list \<Rightarrow> sync_item list" where
  "upsert_item excluded rows =
     (if item_key_of excluded \<in> item_key_of ` set rows
      then update_where (\<lambda>row. item_key_of row = item_key_of excluded) (merge_item excluded) rows
      else rows @ [excluded])"

text \<open>One statement per 500 items. A statement fails on a key it would touch twice.\<close>

definition upsert_chunk :: "string \<Rightarrow> int \<Rightarrow> sync_item_input list \<Rightarrow> ops_db \<Rightarrow> (sync_error, ops_db) result" where
  "upsert_chunk runId now chunk db =
     (let rows = map (item_row runId now) chunk in
      if list_all item_checks rows \<and> distinct (map item_key_of rows) \<and> find_run runId db \<noteq> None
      then Inr (db\<lparr>db_items := fold upsert_item rows (db_items db)\<rparr>)
      else Inl Constraint_violation)"

function upsertItems ::
  "string \<Rightarrow> int \<Rightarrow> sync_item_input list \<Rightarrow> ops_db \<Rightarrow> (sync_error, unit) result \<times> ops_db" where
  "upsertItems runId now items db =
     (if items = [] then (Inr (), db)
      else case upsert_chunk runId now (take 500 items) db of
        Inl e \<Rightarrow> (Inl e, db)
      | Inr db1 \<Rightarrow> upsertItems runId now (drop 500 items) db1)"
  by pat_completeness auto
termination by (relation "measure (\<lambda>(_, _, items, _). length items)") auto

declare upsertItems.simps [simp del]

record finish_run_input =
  fri_status :: run_status
  fri_completedItems :: int
  fri_failedItems :: "int option"
  fri_skippedItems :: "int option"
  fri_dataChanged :: bool
  fri_publicationId :: "string option option"
  fri_metadata :: "json option"

definition finished_run :: "int \<Rightarrow> finish_run_input \<Rightarrow> sync_run \<Rightarrow> sync_run" where
  "finished_run now input row =
     row\<lparr>ru_status := fri_status input, ru_completedItems := fri_completedItems input,
       ru_failedItems := coalesce (fri_failedItems input) 0, ru_skippedItems := coalesce (fri_skippedItems input) 0,
       ru_dataChanged := fri_dataChanged input,
       ru_publicationId := coalesce (fri_publicationId input) (ru_publicationId row),
       ru_metadata := coalesce (fri_metadata input) (ru_metadata row),
       ru_completedAt := Some (coalesce (ru_completedAt row) now), ru_updatedAt := now\<rparr>"

definition finishRun :: "int \<Rightarrow> string \<Rightarrow> finish_run_input \<Rightarrow> ops_db \<Rightarrow> (sync_error, ops_db) result" where
  "finishRun now runId input db =
     (case find_run runId db of
        None \<Rightarrow> Inl SYNC_RUN_NOT_FOUND
      | Some current \<Rightarrow>
          if ru_status current \<noteq> fri_status input \<and> ru_status current \<notin> set NON_TERMINAL_RUN_STATUSES
          then Inl SYNC_RUN_TERMINAL_STATE_CONFLICT
          else
            (let row = finished_run now input current in
             if run_checks row
                \<and> (case ru_publicationId row of None \<Rightarrow> True | Some p \<Rightarrow> find_publication p db \<noteq> None)
             then Inr (db\<lparr>db_runs := update_where (\<lambda>r. ru_runId r = runId) (finished_run now input) (db_runs db)\<rparr>)
             else Inl Constraint_violation))"

definition failed_run :: "int \<Rightarrow> string \<Rightarrow> sync_run \<Rightarrow> sync_run" where
  "failed_run now summary row =
     row\<lparr>ru_status := Run_failed, ru_errorSummary := Some (take 4000 summary), ru_completedAt := Some now,
       ru_updatedAt := now\<rparr>"

definition failRun :: "int \<Rightarrow> string \<Rightarrow> string \<Rightarrow> ops_db \<Rightarrow> (sync_error, ops_db) result" where
  "failRun now runId summary db =
     (let hit = (\<lambda>row. ru_runId row = runId \<and> ru_status row \<in> set (NON_TERMINAL_RUN_STATUSES @ [Run_failed])) in
      if list_all (\<lambda>row. hit row \<longrightarrow> run_checks (failed_run now summary row)) (db_runs db)
      then Inr (db\<lparr>db_runs := update_where hit (failed_run now summary) (db_runs db)\<rparr>)
      else Inl Constraint_violation)"

section \<open>Publications\<close>

definition in_scope :: "publication_dataset \<Rightarrow> int \<Rightarrow> int option \<Rightarrow> publication \<Rightarrow> bool" where
  "in_scope d seasonId eventId row = (pb_dataset row = d \<and> pb_seasonId row = seasonId \<and> pb_eventId row = eventId)"

record prepare_input =
  ppi_publicationId :: "string option"
  ppi_dataset :: publication_dataset
  ppi_season :: season_ref
  ppi_eventId :: "int option"
  ppi_sourceRunId :: string
  ppi_manifest :: "json option"

record prepared_row =
  pp_publicationId :: string
  pp_revision :: int
  pp_status :: publication_status

definition prepared_row_of :: "publication \<Rightarrow> prepared_row" where
  "prepared_row_of row =
     \<lparr>pp_publicationId = pb_publicationId row, pp_revision = pb_revision row, pp_status = pb_status row\<rparr>"

definition is_expired :: "int \<Rightarrow> publication \<Rightarrow> bool" where
  "is_expired now row =
     ((case pb_expiresAt row of None \<Rightarrow> False | Some t \<Rightarrow> t \<le> now) \<and> pb_status row \<in> {Pub_retired, Pub_failed})"

definition expiry_order :: "publication \<Rightarrow> publication \<Rightarrow> int" where
  "expiry_order a b =
     (let byTime = coalesce (pb_expiresAt a) 0 - coalesce (pb_expiresAt b) 0 in
      if byTime \<noteq> 0 then byTime else code_unit_cmp (pb_publicationId a) (pb_publicationId b))"

text \<open>Deleting a publication deletes its payloads and outbox row with it.\<close>

definition delete_publications :: "string set \<Rightarrow> int \<Rightarrow> ops_db \<Rightarrow> ops_db" where
  "delete_publications ids now db = db\<lparr>
     db_runs := update_where (\<lambda>r. ru_publicationId r \<in> Some ` ids)
       (\<lambda>r. r\<lparr>ru_publicationId := None, ru_updatedAt := now\<rparr>) (db_runs db),
     db_publications := filter (\<lambda>row. pb_publicationId row \<notin> ids) (db_publications db),
     db_publicationItems := filter (\<lambda>row. py_publicationId row \<notin> ids) (db_publicationItems db),
     db_outbox := filter (\<lambda>row. ob_publicationId row \<notin> ids) (db_outbox db)\<rparr>"

definition expired_ids :: "string set \<Rightarrow> int \<Rightarrow> ops_db \<Rightarrow> string set" where
  "expired_ids locked now db =
     set (map pb_publicationId (take EXPIRED_PUBLICATION_CLEANUP_BATCH_SIZE
       (js_sort expiry_order
         (filter (\<lambda>row. is_expired now row \<and> pb_publicationId row \<notin> locked) (db_publications db)))))"

definition cleanup_expired :: "string set \<Rightarrow> int \<Rightarrow> ops_db \<Rightarrow> ops_db" where
  "cleanup_expired locked now db = delete_publications (expired_ids locked now db) now db"

definition staging_row :: "string \<Rightarrow> int \<Rightarrow> prepare_input \<Rightarrow> ops_db \<Rightarrow> publication" where
  "staging_row publicationId now input db =
     \<lparr>pb_publicationId = publicationId, pb_dataset = ppi_dataset input,
      pb_seasonId = season_seasonId (ppi_season input), pb_eventId = ppi_eventId input,
      pb_revision = db_nextRevision db, pb_status = Pub_staging, pb_manifest = coalesce (ppi_manifest input) (JObj []),
      pb_sourceRunId = Some (ppi_sourceRunId input), pb_activatedAt = None, pb_retiredAt = None,
      pb_expiresAt = Some (now + 15 * 60 * 1000), pb_updatedAt = now\<rparr>"

text \<open>
  Expired rows that other transactions have locked are skipped. The revision comes from a
  sequence, which an insert advances even when it then finds the row present.
\<close>

definition preparePublication ::
  "string \<Rightarrow> string set \<Rightarrow> int \<Rightarrow> prepare_input \<Rightarrow> ops_db \<Rightarrow> (sync_error, prepared_row) result \<times> ops_db" where
  "preparePublication fresh locked now input db =
     (let publicationId = coalesce (ppi_publicationId input) fresh in
      if \<not> isDataPublicationId publicationId then (Inl DATASET_PUBLICATION_ID_INVALID, db)
      else
        (let db1 = cleanup_expired locked now db;
             row = staging_row publicationId now input db1;
             db2 = db1\<lparr>db_nextRevision := db_nextRevision db1 + 1\<rparr>
         in if \<not> is_json_object (pb_manifest row) \<or> \<not> (case ppi_eventId input of None \<Rightarrow> True | Some e \<Rightarrow> e > 0)
            then (Inl Constraint_violation, db2)
            else case find_publication publicationId db1 of
              None \<Rightarrow>
                if find_run (ppi_sourceRunId input) db1 = None then (Inl Constraint_violation, db2)
                else (Inr (prepared_row_of row), db2\<lparr>db_publications := db_publications db1 @ [row]\<rparr>)
            | Some existing \<Rightarrow>
                if pb_dataset existing \<noteq> ppi_dataset input
                  \<or> pb_seasonId existing \<noteq> season_seasonId (ppi_season input)
                  \<or> pb_eventId existing \<noteq> ppi_eventId input
                  \<or> pb_sourceRunId existing \<noteq> Some (ppi_sourceRunId input)
                then (Inl DATASET_PUBLICATION_ID_CONFLICT, db2)
                else (Inr (prepared_row_of existing), db2)))"

record item_proof =
  ip_name :: string
  ip_payload :: json
  ip_count :: int
  ip_checksum :: string

definition complete_item_names :: "string list \<Rightarrow> bool" where
  "complete_item_names names =
     (let uniq = js_uniq names;
          isLiveItems = length names = 2 \<and> ''eventLive'' \<in> set uniq \<and> ''fixtures'' \<in> set uniq;
          isMarketItems = length names = 1 \<and> ''context'' \<in> set uniq;
          coreNames = DATASET_ITEM_NAMES Fpl_core;
          isCoreItems = (length names = length coreNames \<or> length names = length LEGACY_CORE_ITEM_NAMES)
            \<and> list_all (\<lambda>n. n \<in> set coreNames) uniq
            \<and> (length names = length coreNames \<or> list_all (\<lambda>n. n \<in> set LEGACY_CORE_ITEM_NAMES) uniq)
      in (isLiveItems \<or> isMarketItems \<or> isCoreItems) \<and> length uniq = length names)"

text \<open>\<open>jsonb\<close> columns give their values back with the properties in the order of that type.\<close>

definition proof_row :: "string \<Rightarrow> item_proof \<Rightarrow> publication_item" where
  "proof_row publicationId i =
     \<lparr>py_publicationId = publicationId, py_itemName = ip_name i, py_payload = jsonb_value (ip_payload i),
      py_itemCount = ip_count i, py_checksum = ip_checksum i\<rparr>"

definition upsert_proof :: "publication_item \<Rightarrow> publication_item list \<Rightarrow> publication_item list" where
  "upsert_proof excluded rows =
     (if list_ex (\<lambda>row. py_publicationId row = py_publicationId excluded \<and> py_itemName row = py_itemName excluded) rows
      then update_where
        (\<lambda>row. py_publicationId row = py_publicationId excluded \<and> py_itemName row = py_itemName excluded)
        (\<lambda>row. row\<lparr>py_payload := py_payload excluded, py_itemCount := py_itemCount excluded,
           py_checksum := py_checksum excluded\<rparr>) rows
      else rows @ [excluded])"

definition stagePublicationItems :: "string \<Rightarrow> item_proof list \<Rightarrow> ops_db \<Rightarrow> (sync_error, ops_db) result" where
  "stagePublicationItems publicationId items db =
     (if \<not> complete_item_names (map ip_name items) then Inl DATASET_PUBLICATION_ITEMS_INCOMPLETE
      else
        (let rows = map (proof_row publicationId) items in
         if list_all publication_item_checks rows \<and> find_publication publicationId db \<noteq> None
         then Inr (db\<lparr>db_publicationItems := fold upsert_proof rows (db_publicationItems db)\<rparr>)
         else Inl Constraint_violation))"

definition items_of :: "string \<Rightarrow> ops_db \<Rightarrow> publication_item list" where
  "items_of publicationId db = filter (\<lambda>row. py_publicationId row = publicationId) (db_publicationItems db)"

definition proves :: "string \<times> int \<times> string \<Rightarrow> publication_item \<Rightarrow> bool" where
  "proves item row = ((py_itemName row, py_itemCount row, py_checksum row) = item)"

definition has_proofs :: "(string \<times> int \<times> string) list \<Rightarrow> publication_item list \<Rightarrow> bool" where
  "has_proofs items rows = (length rows = length items \<and> list_all (\<lambda>item. list_ex (proves item) rows) items)"

definition assertPublicationItemsComplete ::
  "string \<Rightarrow> item_proof list \<Rightarrow> ops_db \<Rightarrow> (sync_error, unit) result" where
  "assertPublicationItemsComplete publicationId expected db =
     res_guard (has_proofs (map (\<lambda>i. (ip_name i, ip_count i, ip_checksum i)) expected) (items_of publicationId db))
       DATASET_PUBLICATION_ITEMS_INCOMPLETE"

record activate_input =
  ai_publicationId :: string
  ai_dataset :: publication_dataset
  ai_season :: season_ref
  ai_eventId :: "int option"
  ai_sourceRunId :: string
  ai_manifest :: manifest
  ai_outboxId :: "string option"

definition assertPublicationManifest :: "activate_input \<Rightarrow> int \<Rightarrow> bool" where
  "assertPublicationManifest input revision =
     (let m = ai_manifest input in
      mf_publicationId m = ai_publicationId input \<and> mf_dataset m = ai_dataset input \<and>
      mf_seasonCode m = season_seasonCode (ai_season input) \<and> mf_eventId m = ai_eventId input \<and>
      mf_revision m = revision)"

definition stored_manifest :: "manifest \<Rightarrow> json" where
  "stored_manifest m = jsonb_value (manifest_json m)"

definition new_outbox_row :: "int \<Rightarrow> string \<Rightarrow> activate_input \<Rightarrow> outbox_row" where
  "new_outbox_row now outboxId input =
     \<lparr>ob_outboxId = outboxId, ob_publicationId = ai_publicationId input, ob_sourceRunId = Some (ai_sourceRunId input),
      ob_dataset = ai_dataset input, ob_seasonId = season_seasonId (ai_season input), ob_eventId = ai_eventId input,
      ob_manifest = stored_manifest (ai_manifest input), ob_status = Out_db_activated, ob_availableAt = now,
      ob_attempts = 0, ob_leaseOwner = None, ob_leaseExpiresAt = None, ob_stagedAt = None,
      ob_dbActivatedAt = Some now, ob_redisActivatedAt = None, ob_deliveredAt = None, ob_lastError = None,
      ob_updatedAt = now\<rparr>"

text \<open>The row is inserted unless the publication has one; a used outbox id is a key violation.\<close>

definition insert_outbox :: "int \<Rightarrow> activate_input \<Rightarrow> ops_db \<Rightarrow> (sync_error, ops_db) result" where
  "insert_outbox now input db =
     (case ai_outboxId input of
        None \<Rightarrow> Inr db
      | Some outboxId \<Rightarrow>
          if list_ex (\<lambda>row. ob_publicationId row = ai_publicationId input) (db_outbox db) then Inr db
          else if list_ex (\<lambda>row. ob_outboxId row = outboxId) (db_outbox db) then Inl Constraint_violation
          else Inr (db\<lparr>db_outbox := db_outbox db @ [new_outbox_row now outboxId input]\<rparr>))"

text \<open>The guards of the activation, in the order of the code.\<close>

definition activation_error :: "activate_input \<Rightarrow> ops_db \<Rightarrow> sync_error option" where
  "activation_error input db =
     (case find_publication (ai_publicationId input) db of
        None \<Rightarrow> Some DATASET_PUBLICATION_NOT_FOUND
      | Some target \<Rightarrow>
          if \<not> in_scope (ai_dataset input) (season_seasonId (ai_season input)) (ai_eventId input) target
            \<or> pb_sourceRunId target \<noteq> Some (ai_sourceRunId input)
          then Some DATASET_PUBLICATION_SCOPE_CONFLICT
          else if pb_status target \<notin> {Pub_staging, Pub_active} then Some DATASET_PUBLICATION_TERMINAL_STATE_CONFLICT
          else if \<not> assertPublicationManifest input (pb_revision target)
          then Some DATASET_PUBLICATION_MANIFEST_MISMATCH
          else if ai_outboxId input \<noteq> None
            \<and> \<not> has_proofs (map (\<lambda>i. (mi_name i, mi_count i, mi_sha256 i)) (mf_items (ai_manifest input)))
                  (items_of (ai_publicationId input) db)
          then Some DATASET_PUBLICATION_ITEMS_INCOMPLETE
          else if list_ex (\<lambda>row. in_scope (ai_dataset input) (season_seasonId (ai_season input)) (ai_eventId input) row
              \<and> pb_status row = Pub_active \<and> pb_publicationId row \<noteq> ai_publicationId input
              \<and> pb_revision row \<ge> pb_revision target) (db_publications db)
          then Some DATASET_PUBLICATION_STALE_ACTIVATION
          else
            (case find_run (ai_sourceRunId input) db of
               None \<Rightarrow> Some SYNC_RUN_NOT_FOUND
             | Some run \<Rightarrow>
                 if ru_publicationId run \<noteq> None \<and> ru_publicationId run \<noteq> Some (ai_publicationId input)
                 then Some SYNC_RUN_PUBLICATION_CONFLICT
                 else if ru_status run \<noteq> Run_published \<and> ru_status run \<notin> set NON_TERMINAL_RUN_STATUSES
                 then Some SYNC_RUN_TERMINAL_STATE_CONFLICT
                 else None))"

definition retired_row :: "int \<Rightarrow> int \<Rightarrow> publication \<Rightarrow> publication" where
  "retired_row now ttl row =
     row\<lparr>pb_status := Pub_retired, pb_retiredAt := Some now, pb_expiresAt := Some (now + ttl), pb_updatedAt := now\<rparr>"

definition activated_row :: "int \<Rightarrow> manifest \<Rightarrow> publication \<Rightarrow> publication" where
  "activated_row now m row =
     row\<lparr>pb_status := Pub_active, pb_manifest := stored_manifest m, pb_activatedAt := Some now,
       pb_retiredAt := None, pb_expiresAt := None, pb_updatedAt := now\<rparr>"

definition activated_run :: "int \<Rightarrow> activate_input \<Rightarrow> sync_run \<Rightarrow> sync_run" where
  "activated_run now input row =
     row\<lparr>ru_status := if ai_outboxId input \<noteq> None then Run_ready_to_publish else Run_published,
       ru_publicationId := Some (ai_publicationId input), ru_dataChanged := True,
       ru_completedAt := Some (coalesce (ru_completedAt row) now), ru_updatedAt := now\<rparr>"

definition activatePublication :: "int \<Rightarrow> activate_input \<Rightarrow> ops_db \<Rightarrow> (sync_error, ops_db) result" where
  "activatePublication now input db =
     (case activation_error input db of
        Some e \<Rightarrow> Inl e
      | None \<Rightarrow>
          (let retire = update_where
                 (\<lambda>row. in_scope (ai_dataset input) (season_seasonId (ai_season input)) (ai_eventId input) row
                    \<and> pb_status row = Pub_active \<and> pb_publicationId row \<noteq> ai_publicationId input)
                 (retired_row now (24 * 60 * 60 * 1000));
               activate = update_where (\<lambda>row. pb_publicationId row = ai_publicationId input)
                 (activated_row now (ai_manifest input));
               runs = update_where (\<lambda>row. ru_runId row = ai_sourceRunId input) (activated_run now input) (db_runs db)
           in if \<not> list_all (\<lambda>row. ru_runId row = ai_sourceRunId input \<longrightarrow> run_checks row) runs
              then Inl Constraint_violation
              else insert_outbox now input
                (db\<lparr>db_publications := activate (retire (db_publications db)), db_runs := runs\<rparr>)))"

text \<open>
  Failing and skipping a staged publication also ends its run; without a staged row they succeed
  only if the publication is already there.
\<close>

definition end_publication ::
  "int \<Rightarrow> string \<Rightarrow> (publication \<Rightarrow> publication) \<Rightarrow> publication_status \<Rightarrow> run_status list \<Rightarrow> (sync_run \<Rightarrow> sync_run)
   \<Rightarrow> ops_db \<Rightarrow> (sync_error, ops_db) result" where
  "end_publication now publicationId ended final runStatuses endRun db =
     (let staged = (\<lambda>row. pb_publicationId row = publicationId \<and> pb_status row = Pub_staging);
          db1 = db\<lparr>db_publications := update_where staged ended (db_publications db)\<rparr>
      in case Option.bind (List.find staged (db_publications db)) pb_sourceRunId of
           Some runId \<Rightarrow>
             (let hit = (\<lambda>row. ru_runId row = runId \<and> ru_status row \<in> set runStatuses) in
              if list_all (\<lambda>row. hit row \<longrightarrow> run_checks (endRun row)) (db_runs db)
              then Inr (db1\<lparr>db_runs := update_where hit endRun (db_runs db)\<rparr>)
              else Inl Constraint_violation)
         | None \<Rightarrow>
             (case find_publication publicationId db1 of
                None \<Rightarrow> Inl DATASET_PUBLICATION_NOT_FOUND
              | Some row \<Rightarrow>
                  if pb_status row \<noteq> final then Inl DATASET_PUBLICATION_TERMINAL_STATE_CONFLICT else Inr db1))"

definition failPublication :: "int \<Rightarrow> string \<Rightarrow> string \<Rightarrow> ops_db \<Rightarrow> (sync_error, ops_db) result" where
  "failPublication now publicationId summary =
     end_publication now publicationId
       (\<lambda>row. row\<lparr>pb_status := Pub_failed, pb_expiresAt := Some now, pb_updatedAt := now\<rparr>) Pub_failed
       (NON_TERMINAL_RUN_STATUSES @ [Run_failed]) (failed_run now summary)"

definition skipped_run :: "int \<Rightarrow> string \<Rightarrow> sync_run \<Rightarrow> sync_run" where
  "skipped_run now reason row =
     row\<lparr>ru_status := Run_skipped, ru_dataChanged := False, ru_errorSummary := Some (take 4000 reason),
       ru_completedAt := Some now, ru_updatedAt := now\<rparr>"

definition skipPublication :: "int \<Rightarrow> string \<Rightarrow> string \<Rightarrow> ops_db \<Rightarrow> (sync_error, ops_db) result" where
  "skipPublication now publicationId reason =
     end_publication now publicationId (retired_row now (15 * 60 * 1000)) Pub_retired
       (NON_TERMINAL_RUN_STATUSES @ [Run_skipped]) (skipped_run now reason)"

section \<open>Lookups\<close>

definition active_row :: "publication_dataset \<Rightarrow> season_ref \<Rightarrow> int option \<Rightarrow> ops_db \<Rightarrow> publication option" where
  "active_row d season eventId db =
     List.find (\<lambda>row. in_scope d (season_seasonId season) eventId row \<and> pb_status row = Pub_active) (db_publications db)"

definition findActivePublication ::
  "publication_dataset \<Rightarrow> season_ref \<Rightarrow> int option \<Rightarrow> ops_db \<Rightarrow> prepared_row option" where
  "findActivePublication d season eventId db = map_option prepared_row_of (active_row d season eventId db)"

record staging_publication =
  sp_publicationId :: string
  sp_revision :: int
  sp_sourceRunId :: string
  sp_manifest :: json

definition findStagingPublication ::
  "publication_dataset \<Rightarrow> season_ref \<Rightarrow> int option \<Rightarrow> ops_db \<Rightarrow> staging_publication option" where
  "findStagingPublication d season eventId db =
     (case js_sort (\<lambda>a b. pb_revision b - pb_revision a)
             (filter (\<lambda>row. in_scope d (season_seasonId season) eventId row \<and> pb_status row = Pub_staging)
               (db_publications db)) of
        [] \<Rightarrow> None
      | row # _ \<Rightarrow>
          (case pb_sourceRunId row of
             None \<Rightarrow> None
           | Some runId \<Rightarrow>
               if runId = [] \<or> \<not> is_json_object (pb_manifest row) then None
               else Some \<lparr>sp_publicationId = pb_publicationId row, sp_revision = pb_revision row,
                      sp_sourceRunId = runId, sp_manifest = pb_manifest row\<rparr>))"

definition parse_stored_manifest :: "publication_env \<Rightarrow> json \<Rightarrow> manifest option" where
  "parse_stored_manifest env v = parseDataPublicationManifest env (JSON_stringify v)"

definition findActivePublicationManifest ::
  "publication_env \<Rightarrow> publication_dataset \<Rightarrow> season_ref \<Rightarrow> int option \<Rightarrow> ops_db \<Rightarrow> manifest option" where
  "findActivePublicationManifest env d season eventId db =
     Option.bind (active_row d season eventId db) (\<lambda>row.
       Option.bind (parse_stored_manifest env (pb_manifest row)) (\<lambda>m.
         if mf_dataset m \<noteq> d \<or> mf_seasonCode m \<noteq> season_seasonCode season \<or> mf_eventId m \<noteq> eventId then None
         else Some m))"

section \<open>Tables under updates\<close>

lemma update_where_iff: "x \<in> set (update_where p f rows) \<longleftrightarrow> (\<exists>y \<in> set rows. x = (if p y then f y else y))"
  by (auto simp: update_where_def)

lemma update_where_key [simp]: "(\<And>row. k (f row) = k row) \<Longrightarrow> map k (update_where p f rows) = map k rows"
  by (simp add: update_where_def)

lemma length_update_where [simp]: "length (update_where p f rows) = length rows"
  by (simp add: update_where_def)

lemma update_where_rel: "(\<And>row. row \<in> set rows \<Longrightarrow> R row (if p row then f row else row)) \<Longrightarrow> list_all2 R rows (update_where p f rows)"
  by (simp add: update_where_def list_all2_map2 list_all2_same)

lemma find_key:
  assumes "distinct (map k rows)"
  shows "List.find (\<lambda>row. k row = x) rows = Some row \<longleftrightarrow> row \<in> set rows \<and> k row = x"
  using assms by (induction rows) auto

lemma find_key_None: "List.find (\<lambda>row. k row = x) rows = None \<longleftrightarrow> x \<notin> k ` set rows"
  by (induction rows) auto

lemma list_ex_key: "list_ex (\<lambda>row. k row = x) rows \<longleftrightarrow> x \<in> k ` set rows"
  by (auto simp: list_ex_iff)

section \<open>The invariant of the tables\<close>

text \<open>How one publication may change while it exists, and what its columns say of its status.\<close>

fun status_moves :: "publication_status \<Rightarrow> publication_status \<Rightarrow> bool" where
  "status_moves Pub_staging s = True"
| "status_moves Pub_active s = (s \<in> {Pub_active, Pub_retired})"
| "status_moves Pub_retired s = (s = Pub_retired)"
| "status_moves Pub_failed s = (s = Pub_failed)"

definition same_identity :: "publication \<Rightarrow> publication \<Rightarrow> bool" where
  "same_identity a b \<longleftrightarrow> pb_publicationId b = pb_publicationId a \<and> pb_dataset b = pb_dataset a \<and>
     pb_seasonId b = pb_seasonId a \<and> pb_eventId b = pb_eventId a \<and> pb_revision b = pb_revision a \<and>
     pb_sourceRunId b = pb_sourceRunId a"

definition moves_on :: "publication \<Rightarrow> publication \<Rightarrow> bool" where
  "moves_on a b \<longleftrightarrow> same_identity a b \<and> status_moves (pb_status a) (pb_status b)"

definition publication_ok :: "publication \<Rightarrow> bool" where
  "publication_ok row =
     (case pb_status row of
        Pub_staging \<Rightarrow> pb_activatedAt row = None \<and> pb_retiredAt row = None \<and> pb_expiresAt row \<noteq> None
      | Pub_active \<Rightarrow> pb_activatedAt row \<noteq> None \<and> pb_retiredAt row = None \<and> pb_expiresAt row = None
      | Pub_retired \<Rightarrow> pb_retiredAt row \<noteq> None \<and> pb_expiresAt row \<noteq> None
      | Pub_failed \<Rightarrow> pb_activatedAt row = None \<and> pb_expiresAt row \<noteq> None)"

definition same_scope :: "publication \<Rightarrow> publication \<Rightarrow> bool" where
  "same_scope a b \<longleftrightarrow> in_scope (pb_dataset a) (pb_seasonId a) (pb_eventId a) b"

definition publications_ok :: "int \<Rightarrow> publication list \<Rightarrow> bool" where
  "publications_ok next pubs \<longleftrightarrow> distinct (map pb_publicationId pubs) \<and> distinct (map pb_revision pubs) \<and>
     (\<forall>row \<in> set pubs. pb_revision row < next \<and> publication_ok row) \<and>
     (\<forall>a \<in> set pubs. \<forall>b \<in> set pubs. pb_status a = Pub_active \<longrightarrow> pb_status b = Pub_active \<longrightarrow> same_scope a b \<longrightarrow> a = b)"

definition runs_ok :: "publication list \<Rightarrow> sync_run list \<Rightarrow> bool" where
  "runs_ok pubs runs \<longleftrightarrow> distinct (map ru_runId runs) \<and>
     (\<forall>r \<in> set runs. \<forall>p. ru_publicationId r = Some p \<longrightarrow> p \<in> pb_publicationId ` set pubs)"

definition items_ok :: "sync_run list \<Rightarrow> sync_item list \<Rightarrow> bool" where
  "items_ok runs items \<longleftrightarrow> distinct (map item_key_of items) \<and> it_runId ` set items \<subseteq> ru_runId ` set runs"

definition proofs_ok :: "publication list \<Rightarrow> publication_item list \<Rightarrow> bool" where
  "proofs_ok pubs rows \<longleftrightarrow> distinct (map (\<lambda>row. (py_publicationId row, py_itemName row)) rows) \<and>
     py_publicationId ` set rows \<subseteq> pb_publicationId ` set pubs"

text \<open>
  An outbox row belongs to a publication that was activated with the row's manifest, holds a
  lease with both or neither of its columns, and is delivered for good.
\<close>

definition outbox_row_ok :: "publication list \<Rightarrow> outbox_row \<Rightarrow> bool" where
  "outbox_row_ok pubs row \<longleftrightarrow>
     (\<exists>pub \<in> set pubs. \<exists>m. pb_publicationId pub = ob_publicationId row \<and> pb_status pub \<in> {Pub_active, Pub_retired} \<and>
        in_scope (ob_dataset row) (ob_seasonId row) (ob_eventId row) pub \<and>
        ob_manifest row = stored_manifest m \<and> mf_publicationId m = ob_publicationId row \<and>
        mf_dataset m = ob_dataset row \<and> mf_eventId m = ob_eventId row \<and> mf_revision m = pb_revision pub) \<and>
     (ob_leaseOwner row = None \<longleftrightarrow> ob_leaseExpiresAt row = None) \<and>
     (ob_deliveredAt row \<noteq> None \<longleftrightarrow> ob_status row = Out_delivered) \<and>
     (ob_deliveredAt row \<noteq> None \<longrightarrow> ob_redisActivatedAt row \<noteq> None \<and> ob_leaseOwner row = None) \<and>
     ob_dbActivatedAt row \<noteq> None \<and> ob_attempts row \<ge> 0"

definition outbox_ok :: "publication list \<Rightarrow> outbox_row list \<Rightarrow> bool" where
  "outbox_ok pubs rows \<longleftrightarrow> distinct (map ob_outboxId rows) \<and> distinct (map ob_publicationId rows) \<and>
     (\<forall>row \<in> set rows. outbox_row_ok pubs row)"

definition ops_inv :: "ops_db \<Rightarrow> bool" where
  "ops_inv db \<longleftrightarrow> publications_ok (db_nextRevision db) (db_publications db) \<and>
     runs_ok (db_publications db) (db_runs db) \<and> items_ok (db_runs db) (db_items db) \<and>
     proofs_ok (db_publications db) (db_publicationItems db) \<and> outbox_ok (db_publications db) (db_outbox db)"

lemma status_moves_refl [simp]: "status_moves s s"
  by (cases s) simp_all

lemma status_moves_trans: "status_moves s t \<Longrightarrow> status_moves t u \<Longrightarrow> status_moves s u"
  by (cases s; cases t) auto

lemma same_identity_refl [simp]: "same_identity a a"
  by (simp add: same_identity_def)

lemma moves_on_refl [simp]: "moves_on a a"
  by (simp add: moves_on_def)

lemma moves_on_trans: "moves_on a b \<Longrightarrow> moves_on b c \<Longrightarrow> moves_on a c"
  using status_moves_trans by (auto simp: moves_on_def same_identity_def)

text \<open>Tables that refer to publications do not notice when these move on.\<close>

lemma moves_on_keys:
  assumes "list_all2 moves_on pubs pubs'"
  shows "map pb_publicationId pubs' = map pb_publicationId pubs" "map pb_revision pubs' = map pb_revision pubs"
  using assms by (induction rule: list_all2_induct) (simp_all add: moves_on_def same_identity_def)

lemma moves_on_ids:
  assumes "list_all2 moves_on pubs pubs'"
  shows "pb_publicationId ` set pubs' = pb_publicationId ` set pubs"
  using moves_on_keys(1) [OF assms] by (metis list.set_map)

lemma references_kept:
  assumes "list_all2 moves_on pubs pubs'"
  shows "runs_ok pubs' runs = runs_ok pubs runs" "proofs_ok pubs' rows = proofs_ok pubs rows"
  using moves_on_ids [OF assms] by (simp_all add: runs_ok_def proofs_ok_def)

lemma outbox_row_ok_moves:
  assumes "outbox_row_ok pubs row" "list_all2 moves_on pubs pubs'"
  shows "outbox_row_ok pubs' row"
proof -
  have "\<exists>b \<in> set pubs'. moves_on a b" if "a \<in> set pubs" for a
    using assms(2) that by (induction rule: list_all2_induct) auto
  then have "\<exists>b \<in> set pubs'. same_identity a b \<and> pb_status b \<in> {Pub_active, Pub_retired}"
    if "a \<in> set pubs" "pb_status a \<in> {Pub_active, Pub_retired}" for a
    using that by (fastforce simp: moves_on_def)
  with assms(1) show ?thesis
    unfolding outbox_row_ok_def same_identity_def in_scope_def by metis
qed

lemma outbox_ok_moves: "outbox_ok pubs rows \<Longrightarrow> list_all2 moves_on pubs pubs' \<Longrightarrow> outbox_ok pubs' rows"
  by (auto simp: outbox_ok_def intro: outbox_row_ok_moves)

section \<open>Every operation keeps the invariant\<close>

definition same_publications :: "ops_db \<Rightarrow> ops_db \<Rightarrow> bool" where
  "same_publications db db' \<longleftrightarrow> db_publications db' = db_publications db \<and> db_outbox db' = db_outbox db \<and>
     db_nextRevision db' = db_nextRevision db"

lemma same_publications_simps [simp]:
  "same_publications db db" "same_publications db (db\<lparr>db_runs := runs\<rparr>)" "same_publications db (db\<lparr>db_items := items\<rparr>)"
  "same_publications db (db\<lparr>db_publicationItems := rows\<rparr>)"
  by (simp_all add: same_publications_def)

lemma same_publications_trans: "same_publications a b \<Longrightarrow> same_publications b c \<Longrightarrow> same_publications a c"
  by (simp add: same_publications_def)

lemma find_run_Some: "runs_ok pubs (db_runs db) \<Longrightarrow> find_run runId db = Some r \<longleftrightarrow> r \<in> set (db_runs db) \<and> ru_runId r = runId"
  by (simp add: find_run_def find_key runs_ok_def)

lemma find_run_None: "find_run runId db = None \<longleftrightarrow> runId \<notin> ru_runId ` set (db_runs db)"
  by (simp add: find_run_def find_key_None)

lemma find_publication_Some:
  "publications_ok n (db_publications db) \<Longrightarrow>
   find_publication p db = Some row \<longleftrightarrow> row \<in> set (db_publications db) \<and> pb_publicationId row = p"
  by (simp add: find_publication_def find_key publications_ok_def)

lemma find_publication_None: "find_publication p db = None \<longleftrightarrow> p \<notin> pb_publicationId ` set (db_publications db)"
  by (simp add: find_publication_def find_key_None)

lemma runs_ok_update:
  assumes "runs_ok pubs runs" "\<And>r. ru_runId (f r) = ru_runId r"
    and "\<And>r p. r \<in> set runs \<Longrightarrow> hit r \<Longrightarrow> ru_publicationId (f r) = Some p \<Longrightarrow> p \<in> pb_publicationId ` set pubs"
  shows "runs_ok pubs (update_where hit f runs)"
  using assms by (auto simp: runs_ok_def update_where_iff split: if_splits)

lemma run_ids_update [simp]: "(\<And>r. ru_runId (f r) = ru_runId r) \<Longrightarrow> ru_runId ` set (update_where hit f runs) = ru_runId ` set runs"
  by (metis list.set_map update_where_key)

lemma items_ok_more: "items_ok runs items \<Longrightarrow> ru_runId ` set runs \<subseteq> ru_runId ` set runs' \<Longrightarrow> items_ok runs' items"
  unfolding items_ok_def by blast

lemma ops_inv_runs:
  assumes "ops_inv db" "runs_ok (db_publications db) runs" "ru_runId ` set (db_runs db) \<subseteq> ru_runId ` set runs"
  shows "ops_inv (db\<lparr>db_runs := runs\<rparr>)"
proof -
  have "items_ok runs (db_items db)"
    by (rule items_ok_more [OF _ assms(3)]) (use assms(1) in \<open>simp add: ops_inv_def\<close>)
  then show ?thesis using assms(1,2) by (simp add: ops_inv_def)
qed

lemma startRun_inv:
  assumes "ops_inv db" "startRun fresh now input db = (res, db')"
  shows "ops_inv db' \<and> same_publications db db'"
proof -
  let ?id = "coalesce (sri_runId input) fresh"
  let ?row = "new_run ?id now input"
  have "db' = db \<or> find_run ?id db = None \<and> db' = db\<lparr>db_runs := db_runs db @ [?row]\<rparr>"
    using assms(2) unfolding startRun_def Let_def
    by (cases "find_run ?id db") (simp_all split: if_split_asm)
  moreover have "ops_inv (db\<lparr>db_runs := db_runs db @ [?row]\<rparr>)" if "find_run ?id db = None"
  proof -
    have "ru_runId ?row = ?id" "ru_publicationId ?row = None" by (simp_all add: new_run_def)
    then have "runs_ok (db_publications db) (db_runs db @ [?row])"
      using assms(1) that find_run_None [of ?id db] by (auto simp: ops_inv_def runs_ok_def)
    then show ?thesis by (intro ops_inv_runs assms(1)) auto
  qed
  ultimately show ?thesis using assms(1) by auto
qed

lemma fold_ids:
  assumes "\<And>e rows. g ` set (up e rows) \<subseteq> insert (g e) (g ` set rows)"
  shows "g ` set (fold up es rows) \<subseteq> g ` set es \<union> g ` set rows"
proof (induction es arbitrary: rows)
  case (Cons e es)
  have "g ` set (fold up (e # es) rows) \<subseteq> g ` set es \<union> g ` set (up e rows)" using Cons.IH by simp
  also have "\<dots> \<subseteq> g ` set es \<union> insert (g e) (g ` set rows)" using assms [of e rows] by blast
  finally show ?case by simp
qed simp

lemma fold_keeps: "(\<And>e rows. P rows \<Longrightarrow> P (up e rows)) \<Longrightarrow> P rows \<Longrightarrow> P (fold up es rows)"
  by (induction es arbitrary: rows) simp_all

lemma update_where_ids: "(\<And>row. g (f row) = g row) \<Longrightarrow> g ` set (update_where p f rows) = g ` set rows"
  by (metis list.set_map update_where_key)

lemma merge_item_keys [simp]: "item_key_of (merge_item e row) = item_key_of row" "it_runId (merge_item e row) = it_runId row"
  by (simp_all add: merge_item_def item_key_of_def)

lemma ids_within: "N \<subseteq> R \<union> I \<Longrightarrow> R \<subseteq> {x} \<Longrightarrow> I \<subseteq> D \<Longrightarrow> x \<in> D \<Longrightarrow> N \<subseteq> D"
  by blast

lemma upsert_item_distinct: "distinct (map item_key_of rows) \<Longrightarrow> distinct (map item_key_of (upsert_item e rows))"
  by (auto simp: upsert_item_def)

lemma upsert_item_ids: "it_runId ` set (upsert_item e rows) \<subseteq> insert (it_runId e) (it_runId ` set rows)"
  by (auto simp: upsert_item_def update_where_ids)

lemma upsert_chunk_inv: "ops_inv db \<Longrightarrow> upsert_chunk runId now chunk db = Inr db' \<Longrightarrow> ops_inv db' \<and> same_publications db db'"
proof -
  assume inv: "ops_inv db" and run: "upsert_chunk runId now chunk db = Inr db'"
  let ?rows = "map (item_row runId now) chunk"
  from run have db': "db' = db\<lparr>db_items := fold upsert_item ?rows (db_items db)\<rparr>"
    and r: "runId \<in> ru_runId ` set (db_runs db)"
    unfolding upsert_chunk_def Let_def find_run_None by (auto split: if_split_asm)
  have items: "items_ok (db_runs db) (db_items db)" using inv by (simp add: ops_inv_def)
  have "distinct (map item_key_of (fold upsert_item ?rows (db_items db)))"
    by (rule fold_keeps [where P = "\<lambda>rows. distinct (map item_key_of rows)", OF upsert_item_distinct])
      (use items in \<open>simp_all add: items_ok_def\<close>)
  moreover have "it_runId ` set (fold upsert_item ?rows (db_items db)) \<subseteq> ru_runId ` set (db_runs db)"
    by (rule ids_within [OF fold_ids [OF upsert_item_ids] _ _ r])
      (use items in \<open>auto simp: item_row_def items_ok_def\<close>)
  ultimately have "items_ok (db_runs db) (fold upsert_item ?rows (db_items db))" by (simp add: items_ok_def)
  then show ?thesis using inv db' by (simp add: ops_inv_def)
qed

lemma upsertItems_inv:
  "ops_inv db \<Longrightarrow> upsertItems runId now items db = (res, db') \<Longrightarrow> ops_inv db' \<and> same_publications db db'"
proof (induction runId now items db arbitrary: db' rule: upsertItems.induct)
  case (1 runId now items db)
  show ?case
  proof (cases "items = []")
    case False
    show ?thesis
    proof (cases "upsert_chunk runId now (take 500 items) db")
      case (Inr db1)
      with upsert_chunk_inv "1.prems"(1) have "ops_inv db1" "same_publications db db1" by blast+
      moreover have "upsertItems runId now (drop 500 items) db1 = (res, db')"
        using "1.prems"(2) False Inr by (subst (asm) upsertItems.simps) simp
      ultimately show ?thesis using "1.IH" [OF False Inr] same_publications_trans by blast
    qed (use "1.prems" False in \<open>subst (asm) upsertItems.simps; auto\<close>)
  qed (use "1.prems" in \<open>subst (asm) upsertItems.simps; auto\<close>)
qed

lemma finishRun_inv:
  assumes "ops_inv db" "finishRun now runId input db = Inr db'"
  shows "ops_inv db' \<and> same_publications db db'"
proof -
  have id: "ru_runId (finished_run now input r) = ru_runId r" for r by (simp add: finished_run_def)
  from assms(2) obtain cur where cur: "find_run runId db = Some cur"
    and ok: "case ru_publicationId (finished_run now input cur) of None \<Rightarrow> True | Some p \<Rightarrow> find_publication p db \<noteq> None"
    and db': "db' = db\<lparr>db_runs := update_where (\<lambda>r. ru_runId r = runId) (finished_run now input) (db_runs db)\<rparr>"
    by (auto simp: finishRun_def Let_def split: option.splits if_splits)
  have runs: "runs_ok (db_publications db) (db_runs db)" using assms(1) by (simp add: ops_inv_def)
  have "runs_ok (db_publications db) (update_where (\<lambda>r. ru_runId r = runId) (finished_run now input) (db_runs db))"
  proof (rule runs_ok_update [OF runs id])
    fix r p assume "r \<in> set (db_runs db)" "ru_runId r = runId" "ru_publicationId (finished_run now input r) = Some p"
    moreover from this have "r = cur" using cur find_run_Some [OF runs, of runId r] by simp
    ultimately show "p \<in> pb_publicationId ` set (db_publications db)"
      using ok find_publication_None [of p db] by simp
  qed
  then show ?thesis using assms(1) id unfolding db' by (auto intro: ops_inv_runs)
qed

lemma failRun_inv:
  assumes "ops_inv db" "failRun now runId summary db = Inr db'"
  shows "ops_inv db' \<and> same_publications db db'"
proof -
  let ?hit = "\<lambda>row. ru_runId row = runId \<and> ru_status row \<in> set (NON_TERMINAL_RUN_STATUSES @ [Run_failed])"
  have "runs_ok (db_publications db) (update_where ?hit (failed_run now summary) (db_runs db))"
    using assms(1) by (intro runs_ok_update) (auto simp: ops_inv_def runs_ok_def failed_run_def)
  then have "ops_inv (db\<lparr>db_runs := update_where ?hit (failed_run now summary) (db_runs db)\<rparr>)"
    by (intro ops_inv_runs assms(1)) (simp_all add: failed_run_def)
  then show ?thesis using assms(2) unfolding failRun_def Let_def by (auto split: if_split_asm)
qed

abbreviation proof_key :: "publication_item \<Rightarrow> string \<times> string" where
  "proof_key row \<equiv> (py_publicationId row, py_itemName row)"

lemma upsert_proof_distinct: "distinct (map proof_key rows) \<Longrightarrow> distinct (map proof_key (upsert_proof e rows))"
  by (auto simp: upsert_proof_def list_ex_iff)

lemma upsert_proof_ids: "py_publicationId ` set (upsert_proof e rows) \<subseteq> insert (py_publicationId e) (py_publicationId ` set rows)"
  by (auto simp: upsert_proof_def update_where_ids)

lemma stagePublicationItems_inv:
  assumes "ops_inv db" "stagePublicationItems p items db = Inr db'"
  shows "ops_inv db' \<and> same_publications db db'"
proof -
  let ?rows = "map (proof_row p) items"
  from assms(2) have db': "db' = db\<lparr>db_publicationItems := fold upsert_proof ?rows (db_publicationItems db)\<rparr>"
    and p: "p \<in> pb_publicationId ` set (db_publications db)"
    unfolding stagePublicationItems_def Let_def find_publication_None by (auto split: if_split_asm)
  have proofs: "proofs_ok (db_publications db) (db_publicationItems db)" using assms(1) by (simp add: ops_inv_def)
  have "distinct (map proof_key (fold upsert_proof ?rows (db_publicationItems db)))"
    by (rule fold_keeps [where P = "\<lambda>rows. distinct (map proof_key rows)", OF upsert_proof_distinct])
      (use proofs in \<open>simp_all add: proofs_ok_def\<close>)
  moreover have "py_publicationId ` set (fold upsert_proof ?rows (db_publicationItems db)) \<subseteq>
      pb_publicationId ` set (db_publications db)"
    by (rule ids_within [OF fold_ids [OF upsert_proof_ids] _ _ p])
      (use proofs in \<open>auto simp: proof_row_def proofs_ok_def\<close>)
  ultimately have "proofs_ok (db_publications db) (fold upsert_proof ?rows (db_publicationItems db))"
    by (simp add: proofs_ok_def)
  then show ?thesis using assms(1) db' by (simp add: ops_inv_def)
qed

text \<open>The cleanup deletes expired publications with everything that refers to them.\<close>

lemma expired_idsD:
  "p \<in> expired_ids locked now db \<Longrightarrow> \<exists>row \<in> set (db_publications db). pb_publicationId row = p \<and> is_expired now row"
  by (auto simp: expired_ids_def dest!: in_set_takeD)

lemma distinct_filter_map: "distinct (map f xs) \<Longrightarrow> distinct (map f (filter p xs))"
  by (simp add: distinct_map inj_on_def)

lemma publications_ok_filter: "publications_ok n pubs \<Longrightarrow> publications_ok n (filter p pubs)"
  by (simp add: publications_ok_def distinct_filter_map)

lemma delete_inv:
  assumes "ops_inv db"
  shows "ops_inv (delete_publications ids now db)"
proof -
  let ?pubs = "filter (\<lambda>row. pb_publicationId row \<notin> ids) (db_publications db)"
  let ?runs = "update_where (\<lambda>r. ru_publicationId r \<in> Some ` ids)
         (\<lambda>r. r\<lparr>ru_publicationId := None, ru_updatedAt := now\<rparr>) (db_runs db)"
  have ids: "pb_publicationId ` set ?pubs = pb_publicationId ` set (db_publications db) - ids" by auto
  have ok: "runs_ok (db_publications db) (db_runs db)" using assms by (simp add: ops_inv_def)
  have "p \<in> pb_publicationId ` set (db_publications db) - ids"
    if r: "r \<in> set ?runs" "ru_publicationId r = Some p" for r p
  proof -
    from r(1) obtain y where y: "y \<in> set (db_runs db)"
      "r = (if ru_publicationId y \<in> Some ` ids then y\<lparr>ru_publicationId := None, ru_updatedAt := now\<rparr> else y)"
      unfolding update_where_iff by blast
    then show ?thesis using r(2) ok by (cases "ru_publicationId y \<in> Some ` ids") (auto simp: runs_ok_def)
  qed
  then have runs: "runs_ok ?pubs ?runs" using ok unfolding runs_ok_def ids by simp
  have items: "items_ok ?runs (db_items db)"
    by (rule items_ok_more [of "db_runs db"]) (use assms in \<open>auto simp: ops_inv_def\<close>)
  have proofs: "proofs_ok ?pubs (filter (\<lambda>row. py_publicationId row \<notin> ids) (db_publicationItems db))"
    unfolding proofs_ok_def ids using assms by (auto simp: ops_inv_def proofs_ok_def distinct_filter_map)
  have "outbox_row_ok ?pubs row" if row: "outbox_row_ok (db_publications db) row" "ob_publicationId row \<notin> ids" for row
  proof -
    have "\<And>pub. pub \<in> set (db_publications db) \<Longrightarrow> pb_publicationId pub = ob_publicationId row \<Longrightarrow> pub \<in> set ?pubs"
      using row(2) by simp
    then show ?thesis using row(1) unfolding outbox_row_ok_def by blast
  qed
  then have "outbox_ok ?pubs (filter (\<lambda>row. ob_publicationId row \<notin> ids) (db_outbox db))"
    using assms by (simp add: ops_inv_def outbox_ok_def distinct_filter_map)
  with runs items proofs show ?thesis
    using assms publications_ok_filter unfolding delete_publications_def by (simp add: ops_inv_def)
qed

lemma outbox_row_ok_more: "outbox_row_ok pubs row \<Longrightarrow> set pubs \<subseteq> set pubs' \<Longrightarrow> outbox_row_ok pubs' row"
  unfolding outbox_row_ok_def by blast

lemma outbox_ok_more: "outbox_ok pubs rows \<Longrightarrow> set pubs \<subseteq> set pubs' \<Longrightarrow> outbox_ok pubs' rows"
  unfolding outbox_ok_def using outbox_row_ok_more by blast

lemma sequence_inv: "ops_inv db \<Longrightarrow> ops_inv (db\<lparr>db_nextRevision := db_nextRevision db + 1\<rparr>)"
  by (fastforce simp: ops_inv_def publications_ok_def)

lemma insert_staging_inv:
  assumes inv: "ops_inv db" and new: "find_publication p db = None"
  shows "ops_inv (db\<lparr>db_nextRevision := db_nextRevision db + 1,
    db_publications := db_publications db @ [staging_row p now input db]\<rparr>)"
proof -
  let ?row = "staging_row p now input db"
  have row: "pb_publicationId ?row = p" "pb_revision ?row = db_nextRevision db" "pb_status ?row = Pub_staging"
    "publication_ok ?row" by (simp_all add: staging_row_def publication_ok_def)
  have "publications_ok (db_nextRevision db) (db_publications db)" using inv by (simp add: ops_inv_def)
  then have "publications_ok (db_nextRevision db + 1) (db_publications db @ [?row])"
    using row new find_publication_None [of p db] by (fastforce simp: publications_ok_def)
  moreover have "runs_ok (db_publications db @ [?row]) (db_runs db)"
    "proofs_ok (db_publications db @ [?row]) (db_publicationItems db)"
    using inv by (auto simp: ops_inv_def runs_ok_def proofs_ok_def)
  moreover have "outbox_ok (db_publications db @ [?row]) (db_outbox db)"
    by (rule outbox_ok_more [of "db_publications db"]) (use inv in \<open>auto simp: ops_inv_def\<close>)
  ultimately show ?thesis using inv by (simp add: ops_inv_def)
qed

lemma preparePublication_inv:
  assumes "ops_inv db" "preparePublication fresh locked now input db = (res, db')"
  shows "ops_inv db'"
proof -
  let ?id = "coalesce (ppi_publicationId input) fresh"
  let ?db1 = "cleanup_expired locked now db"
  have 1: "ops_inv ?db1" using assms(1) delete_inv by (simp add: cleanup_expired_def)
  have "db' = db \<or> db' = ?db1\<lparr>db_nextRevision := db_nextRevision ?db1 + 1\<rparr> \<or>
    find_publication ?id ?db1 = None \<and> db' = ?db1\<lparr>db_nextRevision := db_nextRevision ?db1 + 1,
      db_publications := db_publications ?db1 @ [staging_row ?id now input ?db1]\<rparr>"
    using assms(2) unfolding preparePublication_def Let_def
    by (cases "find_publication ?id ?db1") (simp_all split: if_split_asm)
  then show ?thesis using assms(1) sequence_inv [OF 1] insert_staging_inv [OF 1] by auto
qed

text \<open>What activation does to each publication.\<close>

definition activation_hits :: "activate_input \<Rightarrow> publication \<Rightarrow> bool" where
  "activation_hits input row \<longleftrightarrow> in_scope (ai_dataset input) (season_seasonId (ai_season input)) (ai_eventId input) row
     \<and> pb_status row = Pub_active \<and> pb_publicationId row \<noteq> ai_publicationId input"

definition activation_of :: "int \<Rightarrow> activate_input \<Rightarrow> publication \<Rightarrow> publication" where
  "activation_of now input row =
     (if pb_publicationId row = ai_publicationId input then activated_row now (ai_manifest input) row
      else if activation_hits input row then retired_row now (24 * 60 * 60 * 1000) row else row)"

lemma activatePublication_cases:
  assumes "activatePublication now input db = Inr db'"
  obtains rows where
    "activation_error input db = None" "db_publications db' = map (activation_of now input) (db_publications db)"
    "db_runs db' = update_where (\<lambda>row. ru_runId row = ai_sourceRunId input) (activated_run now input) (db_runs db)"
    "db_outbox db' = db_outbox db @ rows"
    "rows = [] \<or> (\<exists>i. ai_outboxId input = Some i \<and> rows = [new_outbox_row now i input] \<and>
       i \<notin> ob_outboxId ` set (db_outbox db) \<and> ai_publicationId input \<notin> ob_publicationId ` set (db_outbox db))"
    "ai_outboxId input \<noteq> None \<Longrightarrow> ai_publicationId input \<in> ob_publicationId ` set (db_outbox db')"
    "db_items db' = db_items db" "db_publicationItems db' = db_publicationItems db" "db_nextRevision db' = db_nextRevision db"
proof -
  have rows: "update_where (\<lambda>row. pb_publicationId row = ai_publicationId input) (activated_row now (ai_manifest input))
      (update_where (\<lambda>row. in_scope (ai_dataset input) (season_seasonId (ai_season input)) (ai_eventId input) row
          \<and> pb_status row = Pub_active \<and> pb_publicationId row \<noteq> ai_publicationId input)
        (retired_row now (24 * 60 * 60 * 1000)) pubs) = map (activation_of now input) pubs" for pubs
    by (induction pubs) (auto simp: update_where_def activation_of_def activation_hits_def retired_row_def)
  have err: "activation_error input db = None"
    using assms by (simp add: activatePublication_def split: option.split_asm)
  let ?db1 = "db\<lparr>db_publications := map (activation_of now input) (db_publications db),
    db_runs := update_where (\<lambda>row. ru_runId row = ai_sourceRunId input) (activated_run now input) (db_runs db)\<rparr>"
  have ins: "insert_outbox now input ?db1 = Inr db'"
    using assms err unfolding activatePublication_def Let_def rows by (simp split: if_split_asm)
  show ?thesis
  proof (cases "\<exists>i. ai_outboxId input = Some i \<and> db' = ?db1\<lparr>db_outbox := db_outbox db @ [new_outbox_row now i input]\<rparr> \<and>
       i \<notin> ob_outboxId ` set (db_outbox db) \<and> ai_publicationId input \<notin> ob_publicationId ` set (db_outbox db)")
    case True
    then obtain i where i: "ai_outboxId input = Some i" "db' = ?db1\<lparr>db_outbox := db_outbox db @ [new_outbox_row now i input]\<rparr>"
      "i \<notin> ob_outboxId ` set (db_outbox db)" "ai_publicationId input \<notin> ob_publicationId ` set (db_outbox db)" by blast
    show ?thesis by (rule that [of "[new_outbox_row now i input]"]) (use err i in \<open>simp_all add: new_outbox_row_def\<close>)
  next
    case False
    then have "db' = ?db1" "ai_outboxId input \<noteq> None \<longrightarrow> ai_publicationId input \<in> ob_publicationId ` set (db_outbox db)"
      using ins by (auto simp: insert_outbox_def list_ex_key split: option.splits if_splits)
    then show ?thesis using err by (intro that [of "[]"]) simp_all
  qed
qed

lemma activation_target:
  assumes "activation_error input db = None" "publications_ok n (db_publications db)"
  obtains target where "target \<in> set (db_publications db)" "pb_publicationId target = ai_publicationId input"
    "in_scope (ai_dataset input) (season_seasonId (ai_season input)) (ai_eventId input) target"
    "pb_sourceRunId target = Some (ai_sourceRunId input)" "pb_status target \<in> {Pub_staging, Pub_active}"
    "mf_publicationId (ai_manifest input) = ai_publicationId input" "mf_dataset (ai_manifest input) = ai_dataset input"
    "mf_seasonCode (ai_manifest input) = season_seasonCode (ai_season input)"
    "mf_eventId (ai_manifest input) = ai_eventId input" "mf_revision (ai_manifest input) = pb_revision target"
    "\<And>row. row \<in> set (db_publications db) \<Longrightarrow> activation_hits input row \<Longrightarrow> pb_revision row < pb_revision target"
proof -
  obtain target where t: "find_publication (ai_publicationId input) db = Some target"
    using assms(1) by (auto simp: activation_error_def split: option.splits)
  have e: "\<not> (\<not> in_scope (ai_dataset input) (season_seasonId (ai_season input)) (ai_eventId input) target
            \<or> pb_sourceRunId target \<noteq> Some (ai_sourceRunId input))"
    "pb_status target \<in> {Pub_staging, Pub_active}" "assertPublicationManifest input (pb_revision target)"
    "\<not> list_ex (\<lambda>row. in_scope (ai_dataset input) (season_seasonId (ai_season input)) (ai_eventId input) row
              \<and> pb_status row = Pub_active \<and> pb_publicationId row \<noteq> ai_publicationId input
              \<and> pb_revision row \<ge> pb_revision target) (db_publications db)"
    using assms(1) t unfolding activation_error_def by (auto split: if_split_asm)
  show ?thesis
  proof (rule that [of target])
    show "target \<in> set (db_publications db)" "pb_publicationId target = ai_publicationId input"
      using t find_publication_Some [OF assms(2)] by blast+
    show "pb_revision row < pb_revision target" if "row \<in> set (db_publications db)" "activation_hits input row" for row
      using e(4) that by (force simp: list_ex_iff activation_hits_def)
  qed (use e(1-3) in \<open>auto simp: assertPublicationManifest_def Let_def\<close>)
qed

lemma outbox_ok_snoc:
  "outbox_ok pubs rows \<Longrightarrow> outbox_row_ok pubs r \<Longrightarrow> ob_outboxId r \<notin> ob_outboxId ` set rows \<Longrightarrow>
   ob_publicationId r \<notin> ob_publicationId ` set rows \<Longrightarrow> outbox_ok pubs (rows @ [r])"
  by (simp add: outbox_ok_def)

lemma activation_moves_on:
  assumes "pb_publicationId row = ai_publicationId input \<Longrightarrow> pb_status row \<in> {Pub_staging, Pub_active}"
  shows "moves_on row (activation_of now input row)"
  using assms by (auto simp: activation_of_def activation_hits_def moves_on_def same_identity_def activated_row_def retired_row_def)

lemma activation_status:
  "pb_status (activation_of now input row) = Pub_active \<longleftrightarrow>
     pb_publicationId row = ai_publicationId input \<or> pb_status row = Pub_active \<and> \<not> activation_hits input row"
  by (simp add: activation_of_def activated_row_def retired_row_def)

lemma activation_identity: "same_identity row (activation_of now input row)"
  by (simp add: activation_of_def same_identity_def activated_row_def retired_row_def)

lemma activatePublication_inv:
  assumes inv: "ops_inv db" and run: "activatePublication now input db = Inr db'"
  shows "ops_inv db' \<and> list_all2 moves_on (db_publications db) (db_publications db')"
proof -
  have pubs: "publications_ok (db_nextRevision db) (db_publications db)" using inv by (simp add: ops_inv_def)
  from run obtain rows where c:
    "activation_error input db = None" "db_publications db' = map (activation_of now input) (db_publications db)"
    "db_runs db' = update_where (\<lambda>row. ru_runId row = ai_sourceRunId input) (activated_run now input) (db_runs db)"
    "db_outbox db' = db_outbox db @ rows"
    "rows = [] \<or> (\<exists>i. ai_outboxId input = Some i \<and> rows = [new_outbox_row now i input] \<and>
       i \<notin> ob_outboxId ` set (db_outbox db) \<and> ai_publicationId input \<notin> ob_publicationId ` set (db_outbox db))"
    "db_items db' = db_items db" "db_publicationItems db' = db_publicationItems db" "db_nextRevision db' = db_nextRevision db"
    by (rule activatePublication_cases)
  from activation_target [OF c(1) pubs] obtain target where t: "target \<in> set (db_publications db)"
    "pb_publicationId target = ai_publicationId input"
    "in_scope (ai_dataset input) (season_seasonId (ai_season input)) (ai_eventId input) target"
    "pb_status target \<in> {Pub_staging, Pub_active}"
    "mf_publicationId (ai_manifest input) = ai_publicationId input" "mf_dataset (ai_manifest input) = ai_dataset input"
    "mf_eventId (ai_manifest input) = ai_eventId input" "mf_revision (ai_manifest input) = pb_revision target" by metis
  have only: "row = target" if "row \<in> set (db_publications db)" "pb_publicationId row = ai_publicationId input" for row
    using that t(1,2) pubs by (auto simp: publications_ok_def distinct_map inj_on_def)
  have moves: "list_all2 moves_on (db_publications db) (db_publications db')"
    unfolding c(2) list_all2_map2
    by (rule list.rel_refl_strong) (use only t(4) in \<open>auto intro: activation_moves_on\<close>)
  have ok: "publication_ok (activation_of now input row)" if "row \<in> set (db_publications db)" for row
  proof -
    have "publication_ok row" using that pubs by (simp add: publications_ok_def)
    then show ?thesis
      by (auto simp: publication_ok_def activation_of_def activation_hits_def activated_row_def retired_row_def)
  qed
  have one: "activation_of now input a = activation_of now input b"
    if ab: "a \<in> set (db_publications db)" "b \<in> set (db_publications db)" "same_scope a b"
      "pb_status (activation_of now input a) = Pub_active" "pb_status (activation_of now input b) = Pub_active" for a b
  proof (cases "pb_publicationId a = ai_publicationId input \<or> pb_publicationId b = ai_publicationId input")
    case True
    have "x = target" if "x \<in> set (db_publications db)" "same_scope target x \<or> same_scope x target"
      "pb_status (activation_of now input x) = Pub_active" for x
      using that t(3) only by (auto simp: activation_status activation_hits_def same_scope_def in_scope_def)
    with True ab only show ?thesis by metis
  next
    case False
    then have "pb_status a = Pub_active" "pb_status b = Pub_active" using ab by (simp_all add: activation_status)
    then show ?thesis using pubs ab by (auto simp: publications_ok_def)
  qed
  have "publications_ok (db_nextRevision db') (db_publications db')"
    unfolding publications_ok_def
  proof (intro conjI ballI impI)
    show "distinct (map pb_publicationId (db_publications db'))" "distinct (map pb_revision (db_publications db'))"
      using moves_on_keys [OF moves] pubs by (simp_all add: publications_ok_def)
  next
    fix row assume "row \<in> set (db_publications db')"
    then obtain a where a: "a \<in> set (db_publications db)" "row = activation_of now input a" by (auto simp: c(2))
    then show "publication_ok row" using ok by simp
    show "pb_revision row < db_nextRevision db'"
      using a pubs activation_identity [of a now input] c(8) by (simp add: publications_ok_def same_identity_def)
  next
    fix x y assume xy: "x \<in> set (db_publications db')" "y \<in> set (db_publications db')"
      "pb_status x = Pub_active" "pb_status y = Pub_active" "same_scope x y"
    then obtain a b where ab: "a \<in> set (db_publications db)" "x = activation_of now input a"
      "b \<in> set (db_publications db)" "y = activation_of now input b" by (auto simp: c(2))
    have "same_scope a b" using xy(5) activation_identity [of a now input] activation_identity [of b now input]
      by (simp add: ab same_scope_def in_scope_def same_identity_def)
    then show "x = y" using one ab xy by blast
  qed
  moreover have "runs_ok (db_publications db) (db_runs db')"
    unfolding c(3) using inv t(1,2)
    by (intro runs_ok_update) (auto simp: ops_inv_def activated_run_def)
  moreover have "items_ok (db_runs db') (db_items db)"
    unfolding c(3) by (rule items_ok_more [of "db_runs db"])
      (use inv in \<open>auto simp: ops_inv_def activated_run_def update_where_ids\<close>)
  moreover have "outbox_ok (db_publications db') (db_outbox db')"
  proof -
    have old: "outbox_ok (db_publications db') (db_outbox db)" using inv outbox_ok_moves [OF _ moves] by (simp add: ops_inv_def)
    have "outbox_row_ok (db_publications db') (new_outbox_row now i input)" for i
    proof -
      let ?t = "activation_of now input target"
      have "?t \<in> set (db_publications db')" "pb_status ?t = Pub_active" "same_identity target ?t"
        using t(1,2) c(2) activation_status activation_identity by auto
      then show ?thesis using t
        by (auto simp: outbox_row_ok_def new_outbox_row_def same_identity_def in_scope_def intro!: bexI [of _ ?t])
    qed
    moreover have "ob_outboxId (new_outbox_row now i input) = i"
      "ob_publicationId (new_outbox_row now i input) = ai_publicationId input" for i by (simp_all add: new_outbox_row_def)
    ultimately show ?thesis using old c(5) outbox_ok_snoc [OF old] unfolding c(4) by force
  qed
  ultimately show ?thesis using inv moves references_kept [OF moves] c(6,7) by (simp add: ops_inv_def)
qed

lemma end_publication_inv:
  assumes inv: "ops_inv db"
    and run: "end_publication now p ended final statuses endRun db = Inr db'"
    and ended: "\<And>row. pb_status row = Pub_staging \<Longrightarrow> publication_ok row \<Longrightarrow>
      same_identity row (ended row) \<and> pb_status (ended row) = final \<and> publication_ok (ended row)"
    and endRun: "\<And>r. ru_runId (endRun r) = ru_runId r" "\<And>r. ru_publicationId (endRun r) = ru_publicationId r"
    and final: "final \<noteq> Pub_active"
  shows "ops_inv db' \<and> list_all2 moves_on (db_publications db) (db_publications db')"
proof -
  let ?staged = "\<lambda>row. pb_publicationId row = p \<and> pb_status row = Pub_staging"
  let ?pubs = "update_where ?staged ended (db_publications db)"
  let ?db1 = "db\<lparr>db_publications := ?pubs\<rparr>"
  have pubs: "publications_ok (db_nextRevision db) (db_publications db)" using inv by (simp add: ops_inv_def)
  have row: "moves_on row (if ?staged row then ended row else row)" "publication_ok (if ?staged row then ended row else row)"
    "pb_status (if ?staged row then ended row else row) = Pub_active \<longleftrightarrow> pb_status row = Pub_active"
    if "row \<in> set (db_publications db)" for row
    using that ended [of row] pubs final by (auto simp: publications_ok_def moves_on_def)
  have moves: "list_all2 moves_on (db_publications db) ?pubs" by (rule update_where_rel) (rule row(1))
  have "publications_ok (db_nextRevision db) ?pubs"
    unfolding publications_ok_def moves_on_keys [OF moves]
  proof (intro conjI ballI impI)
    fix x assume "x \<in> set ?pubs"
    then obtain a where a: "a \<in> set (db_publications db)" "x = (if ?staged a then ended a else a)"
      unfolding update_where_iff by blast
    show "publication_ok x" using row(2) a by blast
    show "pb_revision x < db_nextRevision db"
      using row(1) [OF a(1)] a pubs unfolding a(2) by (auto simp: publications_ok_def moves_on_def same_identity_def)
  next
    fix x y assume xy: "x \<in> set ?pubs" "y \<in> set ?pubs" "pb_status x = Pub_active" "pb_status y = Pub_active" "same_scope x y"
    then have "x \<in> set (db_publications db)" "y \<in> set (db_publications db)"
      using row(3) unfolding update_where_iff by (metis ended final pubs publications_ok_def)+
    then show "x = y" using pubs xy by (simp add: publications_ok_def)
  qed (use pubs in \<open>simp_all add: publications_ok_def\<close>)
  then have inv1: "ops_inv ?db1"
    using inv references_kept [OF moves] outbox_ok_moves [OF _ moves] by (simp add: ops_inv_def)
  have "ops_inv (?db1\<lparr>db_runs := update_where hit endRun (db_runs db)\<rparr>)" for hit
  proof (rule ops_inv_runs [OF inv1])
    show "runs_ok (db_publications ?db1) (update_where hit endRun (db_runs db))"
      using inv1 endRun by (intro runs_ok_update) (auto simp: ops_inv_def runs_ok_def)
  qed (simp add: endRun)
  then have "ops_inv db' \<and> db_publications db' = ?pubs"
    using run inv1 unfolding end_publication_def Let_def
    by (auto split: option.split_asm if_split_asm)
  then show ?thesis using moves by simp
qed

lemma failPublication_inv:
  assumes "ops_inv db" "failPublication now p summary db = Inr db'"
  shows "ops_inv db' \<and> list_all2 moves_on (db_publications db) (db_publications db')"
  by (rule end_publication_inv [OF assms [unfolded failPublication_def]])
    (auto simp: same_identity_def publication_ok_def failed_run_def)

lemma skipPublication_inv:
  assumes "ops_inv db" "skipPublication now p reason db = Inr db'"
  shows "ops_inv db' \<and> list_all2 moves_on (db_publications db) (db_publications db')"
  by (rule end_publication_inv [OF assms [unfolded skipPublication_def]])
    (auto simp: same_identity_def publication_ok_def skipped_run_def retired_row_def)

text \<open>
  How the publications of two states compare: a revision names one publication that only moves
  forward, revisions are never reused, and a scope with an active publication keeps one, of a
  revision that never decreases.
\<close>

definition publications_progress :: "ops_db \<Rightarrow> ops_db \<Rightarrow> bool" where
  "publications_progress db db' \<longleftrightarrow> db_nextRevision db \<le> db_nextRevision db' \<and>
     (\<forall>b \<in> set (db_publications db'). pb_revision b < db_nextRevision db \<longrightarrow>
       (\<exists>a \<in> set (db_publications db). moves_on a b)) \<and>
     (\<forall>a \<in> set (db_publications db). pb_status a = Pub_active \<longrightarrow>
       (\<exists>b \<in> set (db_publications db'). pb_status b = Pub_active \<and> same_scope a b \<and> pb_revision a \<le> pb_revision b))"

lemma progress_refl: "publications_progress db db"
  unfolding publications_progress_def same_scope_def in_scope_def using moves_on_refl by blast

lemma progress_same: "db_publications db' = db_publications db \<Longrightarrow> db_nextRevision db' = db_nextRevision db \<Longrightarrow>
    publications_progress db db'"
  using progress_refl [of db] by (simp add: publications_progress_def)

lemma progress_trans:
  assumes "publications_progress a b" "publications_progress b c"
  shows "publications_progress a c"
  unfolding publications_progress_def
proof (intro conjI ballI impI)
  show "db_nextRevision a \<le> db_nextRevision c" using assms by (simp add: publications_progress_def)
  fix r assume r: "r \<in> set (db_publications c)" "pb_revision r < db_nextRevision a"
  then have "pb_revision r < db_nextRevision b" using assms(1) by (simp add: publications_progress_def)
  then obtain q where q: "q \<in> set (db_publications b)" "moves_on q r"
    using assms(2) r(1) unfolding publications_progress_def by blast
  moreover from q r(2) have "pb_revision q < db_nextRevision a" by (simp add: moves_on_def same_identity_def)
  ultimately obtain p where "p \<in> set (db_publications a)" "moves_on p q"
    using assms(1) unfolding publications_progress_def by blast
  with q(2) show "\<exists>p \<in> set (db_publications a). moves_on p r" using moves_on_trans by blast
next
  fix p assume "p \<in> set (db_publications a)" "pb_status p = Pub_active"
  then obtain q where q: "q \<in> set (db_publications b)" "pb_status q = Pub_active" "same_scope p q" "pb_revision p \<le> pb_revision q"
    using assms(1) unfolding publications_progress_def by blast
  then obtain r where "r \<in> set (db_publications c)" "pb_status r = Pub_active" "same_scope q r" "pb_revision q \<le> pb_revision r"
    using assms(2) unfolding publications_progress_def by blast
  with q show "\<exists>r \<in> set (db_publications c). pb_status r = Pub_active \<and> same_scope p r \<and> pb_revision p \<le> pb_revision r"
    by (intro bexI [of _ r]) (auto simp: same_scope_def in_scope_def)
qed

lemma progress_moves:
  assumes "list_all2 moves_on (db_publications db) (db_publications db')" "db_nextRevision db' = db_nextRevision db"
    and "\<And>a. a \<in> set (db_publications db) \<Longrightarrow> pb_status a = Pub_active \<Longrightarrow>
      \<exists>b \<in> set (db_publications db'). pb_status b = Pub_active \<and> same_scope a b \<and> pb_revision a \<le> pb_revision b"
  shows "publications_progress db db'"
proof -
  have "\<exists>a \<in> set (db_publications db). moves_on a b" if "b \<in> set (db_publications db')" for b
    using assms(1) that by (induction rule: list_all2_induct) auto
  with assms(2,3) show ?thesis by (simp add: publications_progress_def)
qed

section \<open>Stored manifests read back\<close>

lemma jsonb_field:
  assumes "distinct (map fst es)"
  shows "json_field (jsonb_value (JObj es)) k = map_option jsonb_value (map_of es k)"
proof -
  obtain ms where ms: "jsonb_value (JObj es) = JObj ms" "mset ms = mset (map (\<lambda>e. (fst e, jsonb_value (snd e))) es)"
    "distinct (map fst ms)" using jsonb_Obj [OF assms] by blast
  have "map_of ms = map_of (map (\<lambda>e. (fst e, jsonb_value (snd e))) es)"
    using ms(2,3) assms mset_eq_setD [OF ms(2)] by (subst map_of_inject_set) (simp_all add: comp_def)
  also have "\<dots> = map_option jsonb_value \<circ> map_of es" by (induction es) auto
  finally show ?thesis unfolding ms(1) by (simp add: json_field_def)
qed

lemma exact_names_mset: "mset names = mset names' \<Longrightarrow> hasExactNames names ns = hasExactNames names' ns"
  unfolding hasExactNames_def using code_units.js_sort_perm [of names names'] by simp

lemma jsonb_exact_fields:
  assumes "distinct (map fst es)"
  shows "hasExactFields (jsonb_value (JObj es)) ns = hasExactFields (JObj es) ns"
proof -
  obtain ms where ms: "jsonb_value (JObj es) = JObj ms" "mset ms = mset (map (\<lambda>e. (fst e, jsonb_value (snd e))) es)"
    using jsonb_Obj [OF assms] by blast
  have "mset (map fst ms) = image_mset fst (mset ms)" by simp
  also have "\<dots> = mset (map fst es)" unfolding ms(2) by (simp add: image_mset.compositionality comp_def)
  finally show ?thesis unfolding ms(1) hasExactFields_def by (simp add: exact_names_mset)
qed

lemma decode_stored_item: "decode_item (jsonb_value (item_json i)) = Some i"
proof -
  have "json_field (jsonb_value (item_json i)) k = map_option jsonb_value (json_field (item_json i) k)" for k
    unfolding item_json_def by (subst jsonb_field) (simp_all add: json_field_def)
  then show ?thesis by (simp add: decode_item_def item_json_def json_field_def)
qed

lemma stored_field: "json_field (stored_manifest m) k = map_option jsonb_value (json_field (manifest_json m) k)"
proof -
  obtain es where es: "manifest_json m = JObj es" "distinct (map fst es)" using manifest_json_keys by blast
  then show ?thesis by (simp only: stored_manifest_def jsonb_field) (simp add: json_field_def)
qed

lemma stored_items:
  "json_list (json_field (stored_manifest m) ''items'') = Some (map (\<lambda>i. jsonb_value (item_json i)) (mf_items m))"
  unfolding stored_field
  by (cases "mf_lastSuccessfulFetchAt m") (simp_all add: manifest_json_def json_field_def jsonb_maps comp_def)

lemma decode_stored: "decode_manifest (stored_manifest m) = Some m"
proof -
  have items: "those (map decode_item (jsonb_elems (map item_json (mf_items m)))) = Some (mf_items m)"
    by (simp add: jsonb_maps comp_def decode_stored_item)
  show ?thesis
    unfolding decode_manifest_def stored_field
    by (cases "mf_eventId m"; cases "mf_lastSuccessfulFetchAt m")
      (simp_all add: manifest_json_def json_field_def items)
qed

lemma stored_manifest_fields: "hasManifestFields (stored_manifest m)"
proof -
  obtain es where es: "manifest_json m = JObj es" "distinct (map fst es)" using manifest_json_keys by blast
  then show ?thesis using hasManifestFields_json [of m]
    by (simp only: stored_manifest_def hasManifestFields_def jsonb_exact_fields)
qed

lemma stored_item_fields: "hasExactFields (jsonb_value (item_json i)) MANIFEST_ITEM_FIELDS"
proof -
  have "distinct [''name'', ''key'', ''type'', ''count'', ''bytes'', ''sha256'']" by simp
  then show ?thesis using hasExactFields_item [of i] unfolding item_json_def
    by (subst jsonb_exact_fields) simp_all
qed

lemma stored_text: "\<exists>t. JSON_stringify (stored_manifest m) = Some t \<and> JSON_parse t = Some (stored_manifest m) \<and> t \<noteq> []"
proof -
  have "wf_json (stored_manifest m)" "plain (stored_manifest m)"
    using jsonb_value_ok [of "manifest_json m"] manifest_json_wf plain_defined by (auto simp: stored_manifest_def)
  then obtain t where "JSON_stringify (stored_manifest m) = Some t" "JSON_parse t = Some (stored_manifest m)"
    using JSON_parse_stringify by blast
  moreover from this have "t \<noteq> []" by (auto simp: JSON_parse_def)
  ultimately show ?thesis by blast
qed

lemma parse_stored: "manifest_ok env m \<Longrightarrow> parse_stored_manifest env (stored_manifest m) = Some m"
proof -
  obtain t where "JSON_stringify (stored_manifest m) = Some t" "JSON_parse t = Some (stored_manifest m)" "t \<noteq> []"
    using stored_text by blast
  then show "manifest_ok env m \<Longrightarrow> ?thesis"
    by (simp add: parse_stored_manifest_def parseDataPublicationManifest_def stored_manifest_fields decode_stored
      stored_items list_all_iff stored_item_fields)
qed

lemma parse_stored_Some: "parse_stored_manifest env (stored_manifest m) = Some m' \<Longrightarrow> m' = m \<and> manifest_ok env m"
proof -
  obtain t where "JSON_stringify (stored_manifest m) = Some t" "JSON_parse t = Some (stored_manifest m)" "t \<noteq> []"
    using stored_text by blast
  then show "parse_stored_manifest env (stored_manifest m) = Some m' \<Longrightarrow> ?thesis"
    by (auto simp: parse_stored_manifest_def parseDataPublicationManifest_def decode_stored split: if_splits)
qed

end
