(* ===== verification/SyncRuns.thy ===== *)
theory SyncRuns
  imports SyncOperations
begin

text \<open>
  The calls of \<open>sync-operations.ts\<close> as one step relation, and what any sequence of them keeps:
  the invariant of the tables and the progress of publications.
\<close>

section \<open>Steps\<close>

inductive sync_step :: "ops_db \<Rightarrow> ops_db \<Rightarrow> bool" where
  start_run: "startRun fresh now run db = (name, db') \<Longrightarrow> sync_step db db'"
| upsert_items: "upsertItems runId now items db = (done, db') \<Longrightarrow> sync_step db db'"
| finish_run: "finishRun now runId result db = Inr db' \<Longrightarrow> sync_step db db'"
| fail_run: "failRun now runId summary db = Inr db' \<Longrightarrow> sync_step db db'"
| prepare: "preparePublication fresh locked now request db = (row, db') \<Longrightarrow> sync_step db db'"
| stage: "stagePublicationItems p proofs db = Inr db' \<Longrightarrow> sync_step db db'"
| activate: "activatePublication now activation db = Inr db' \<Longrightarrow> sync_step db db'"
| fail: "failPublication now p summary db = Inr db' \<Longrightarrow> sync_step db db'"
| skip: "skipPublication now p reason db = Inr db' \<Longrightarrow> sync_step db db'"

definition empty_db :: ops_db where
  "empty_db = \<lparr>db_runs = [], db_items = [], db_publications = [], db_publicationItems = [], db_outbox = [],
     db_nextRevision = 1\<rparr>"

lemma empty_db_inv: "ops_inv empty_db"
  by (simp add: ops_inv_def empty_db_def publications_ok_def runs_ok_def items_ok_def proofs_ok_def outbox_ok_def)

lemma sync_step_inv: "sync_step db db' \<Longrightarrow> ops_inv db \<Longrightarrow> ops_inv db'"
  by (induction rule: sync_step.induct)
    (blast dest: startRun_inv upsertItems_inv finishRun_inv failRun_inv preparePublication_inv
      stagePublicationItems_inv activatePublication_inv failPublication_inv skipPublication_inv)+

interpretation sync: step_invariant sync_step ops_inv
  by unfold_locales (rule sync_step_inv)

section \<open>Progress\<close>

lemma delete_progress:
  assumes "ops_inv db" "\<And>p. p \<in> ids \<Longrightarrow> \<exists>row \<in> set (db_publications db). pb_publicationId row = p \<and> pb_status row \<noteq> Pub_active"
  shows "publications_progress db (delete_publications ids now db)"
proof -
  have "pb_publicationId a \<notin> ids" if a: "a \<in> set (db_publications db)" "pb_status a = Pub_active" for a
  proof
    assume "pb_publicationId a \<in> ids"
    then obtain row where "row \<in> set (db_publications db)" "pb_publicationId row = pb_publicationId a" "pb_status row \<noteq> Pub_active"
      using assms(2) by blast
    then show False using a assms(1) by (auto simp: ops_inv_def publications_ok_def distinct_map inj_on_def)
  qed
  then show ?thesis unfolding publications_progress_def delete_publications_def
    by (auto simp: same_scope_def in_scope_def intro!: bexI [of _ _])
qed

lemma prepare_progress:
  assumes "ops_inv db" "preparePublication fresh locked now input db = (res, db')"
  shows "publications_progress db db'"
proof -
  let ?id = "coalesce (ppi_publicationId input) fresh"
  let ?db1 = "cleanup_expired locked now db"
  have 1: "publications_progress db ?db1"
    unfolding cleanup_expired_def by (rule delete_progress [OF assms(1)]) (auto dest!: expired_idsD simp: is_expired_def)
  have 2: "publications_progress ?db1 (?db1\<lparr>db_nextRevision := db_nextRevision ?db1 + 1\<rparr>)"
    "publications_progress ?db1 (?db1\<lparr>db_nextRevision := db_nextRevision ?db1 + 1,
       db_publications := db_publications ?db1 @ [staging_row ?id now input ?db1]\<rparr>)"
    using progress_refl [of ?db1] by (auto simp: publications_progress_def staging_row_def)
  have "db' = db \<or> db' = ?db1\<lparr>db_nextRevision := db_nextRevision ?db1 + 1\<rparr> \<or>
    db' = ?db1\<lparr>db_nextRevision := db_nextRevision ?db1 + 1,
      db_publications := db_publications ?db1 @ [staging_row ?id now input ?db1]\<rparr>"
    using assms(2) unfolding preparePublication_def Let_def
    by (cases "find_publication ?id ?db1") (simp_all split: if_split_asm)
  then show ?thesis using progress_refl progress_trans [OF 1] 2 by auto
qed

lemma activate_progress:
  assumes "ops_inv db" "activatePublication now input db = Inr db'"
  shows "publications_progress db db'"
proof -
  have pubs: "publications_ok (db_nextRevision db) (db_publications db)" using assms(1) by (simp add: ops_inv_def)
  obtain c: "activation_error input db = None" "db_publications db' = map (activation_of now input) (db_publications db)"
    "db_nextRevision db' = db_nextRevision db" using activatePublication_cases [OF assms(2)] by metis
  obtain t where t: "t \<in> set (db_publications db)" "pb_publicationId t = ai_publicationId input"
    "in_scope (ai_dataset input) (season_seasonId (ai_season input)) (ai_eventId input) t"
    "\<And>row. row \<in> set (db_publications db) \<Longrightarrow> activation_hits input row \<Longrightarrow> pb_revision row < pb_revision t"
    using activation_target [OF c(1) pubs] by metis
  show ?thesis
  proof (rule progress_moves [OF conjunct2 [OF activatePublication_inv [OF assms]] c(3)])
    fix a assume a: "a \<in> set (db_publications db)" "pb_status a = Pub_active"
    let ?b = "if activation_hits input a then t else a"
    have b: "?b \<in> set (db_publications db)" "same_scope a ?b" "pb_revision a \<le> pb_revision ?b"
      using a t by (auto simp: activation_hits_def same_scope_def in_scope_def less_imp_le)
    have "pb_status (activation_of now input ?b) = Pub_active"
      using a t(2) by (simp add: activation_status)
    then show "\<exists>b \<in> set (db_publications db'). pb_status b = Pub_active \<and> same_scope a b \<and> pb_revision a \<le> pb_revision b"
      using b activation_identity [of ?b now input] unfolding c(2)
      by (intro bexI [of _ "activation_of now input ?b"]) (auto simp: same_identity_def same_scope_def in_scope_def)
  qed
qed

lemma end_progress:
  assumes "end_publication now p ended final statuses endRun db = Inr db'"
    and "list_all2 moves_on (db_publications db) (db_publications db')"
  shows "publications_progress db db'"
proof -
  let ?pubs = "update_where (\<lambda>row. pb_publicationId row = p \<and> pb_status row = Pub_staging) ended (db_publications db)"
  have "db_publications db' = ?pubs \<and> db_nextRevision db' = db_nextRevision db"
    using assms(1) unfolding end_publication_def Let_def by (auto split: option.split_asm if_split_asm)
  moreover have "a \<in> set ?pubs" if "a \<in> set (db_publications db)" "pb_status a = Pub_active" for a
    using that by (auto simp: update_where_iff intro!: bexI [of _ a])
  ultimately show ?thesis using assms(2)
    by (intro progress_moves) (auto simp: same_scope_def in_scope_def)
qed

text \<open>Calls on runs, items and payloads leave the publications alone.\<close>

lemma sync_step_cases:
  assumes "sync_step db db'" "ops_inv db"
  obtains "same_publications db db'"
  | (prepare) fresh locked now request row where "preparePublication fresh locked now request db = (row, db')"
  | (activate) now activation where "activatePublication now activation db = Inr db'"
  | (ended) now p ended final statuses endRun where "end_publication now p ended final statuses endRun db = Inr db'"
      "list_all2 moves_on (db_publications db) (db_publications db')"
  using assms
proof (induction rule: sync_step.induct)
  case (fail now p summary db db')
  then show ?case using failPublication_inv [OF fail.prems(5) fail.hyps] unfolding failPublication_def by blast
next
  case (skip now p reason db db')
  then show ?case using skipPublication_inv [OF skip.prems(5) skip.hyps] unfolding skipPublication_def by blast
qed (blast dest: startRun_inv upsertItems_inv finishRun_inv failRun_inv stagePublicationItems_inv)+

lemma sync_step_progress: "sync_step db db' \<Longrightarrow> ops_inv db \<Longrightarrow> publications_progress db db'"
proof (erule sync_step_cases, assumption)
  assume "same_publications db db'"
  then show "publications_progress db db'" by (simp add: same_publications_def progress_same)
qed (blast intro: prepare_progress activate_progress end_progress)+

section \<open>Outbox rows\<close>

text \<open>
  A row changes under another name for its lease at most, never after its delivery, and
  disappears only together with its publication; \<open>owner\<close> is the owner a step may introduce.
\<close>

definition row_evolves :: "string option \<Rightarrow> outbox_row \<Rightarrow> outbox_row \<Rightarrow> bool" where
  "row_evolves owner row row' \<longleftrightarrow> ob_outboxId row' = ob_outboxId row \<and> ob_publicationId row' = ob_publicationId row \<and>
     ob_manifest row' = ob_manifest row \<and> (ob_deliveredAt row \<noteq> None \<longrightarrow> row' = row) \<and>
     ob_leaseOwner row' \<in> {ob_leaseOwner row, None, owner}"

definition row_revision :: "outbox_row \<Rightarrow> int option" where
  "row_revision row = map_option mf_revision (decode_manifest (ob_manifest row))"

definition outbox_evolves :: "string option \<Rightarrow> ops_db \<Rightarrow> ops_db \<Rightarrow> bool" where
  "outbox_evolves owner db db' \<longleftrightarrow>
     (\<forall>row' \<in> set (db_outbox db'). (\<exists>row \<in> set (db_outbox db). row_evolves owner row row') \<or>
       ob_leaseOwner row' = None \<and> ob_deliveredAt row' = None) \<and>
     (\<forall>row \<in> set (db_outbox db). (\<exists>row' \<in> set (db_outbox db'). row_evolves owner row row') \<or>
       row_revision row \<notin> Some ` pb_revision ` set (db_publications db'))"

lemma row_evolves_refl [simp]: "row_evolves owner row row"
  by (simp add: row_evolves_def)

lemma evolves_grows:
  assumes "set (db_outbox db) \<subseteq> set (db_outbox db')"
    and "\<And>row. row \<in> set (db_outbox db') \<Longrightarrow> row \<in> set (db_outbox db) \<or> ob_leaseOwner row = None \<and> ob_deliveredAt row = None"
  shows "outbox_evolves owner db db'"
  unfolding outbox_evolves_def using assms row_evolves_refl by blast

lemma row_publication:
  assumes "outbox_row_ok pubs row"
  obtains pub where "pub \<in> set pubs" "pb_publicationId pub = ob_publicationId row" "row_revision row = Some (pb_revision pub)"
  using assms decode_stored by (auto simp: outbox_row_ok_def row_revision_def)

lemma one_publication:
  assumes "publications_ok n pubs" "a \<in> set pubs" "b \<in> set pubs" "pb_publicationId a = pb_publicationId b \<or> pb_revision a = pb_revision b"
  shows "a = b"
proof -
  have "inj_on pb_publicationId (set pubs)" "inj_on pb_revision (set pubs)"
    using assms(1) by (simp_all add: publications_ok_def distinct_map)
  then show ?thesis using assms(2-4) unfolding inj_on_def by blast
qed

lemma delete_evolves:
  assumes "ops_inv db"
  shows "outbox_evolves owner db (delete_publications ids now db)"
  unfolding outbox_evolves_def
proof (intro conjI ballI)
  fix row assume "row \<in> set (db_outbox (delete_publications ids now db))"
  then show "(\<exists>r \<in> set (db_outbox db). row_evolves owner r row) \<or> ob_leaseOwner row = None \<and> ob_deliveredAt row = None"
    by (auto simp: delete_publications_def intro: row_evolves_refl)
next
  fix row assume row: "row \<in> set (db_outbox db)"
  show "(\<exists>r \<in> set (db_outbox (delete_publications ids now db)). row_evolves owner row r) \<or>
    row_revision row \<notin> Some ` pb_revision ` set (db_publications (delete_publications ids now db))"
  proof (cases "ob_publicationId row \<in> ids")
    case False
    with row have "row \<in> set (db_outbox (delete_publications ids now db))" by (simp add: delete_publications_def)
    then show ?thesis using row_evolves_refl by blast
  next
    case True
    have ok: "publications_ok (db_nextRevision db) (db_publications db)" "outbox_row_ok (db_publications db) row"
      using assms row by (simp_all add: ops_inv_def outbox_ok_def)
    obtain pub where pub: "pub \<in> set (db_publications db)" "pb_publicationId pub = ob_publicationId row"
      "row_revision row = Some (pb_revision pub)" by (rule row_publication [OF ok(2)])
    have "pb_revision b \<noteq> pb_revision pub" if "b \<in> set (db_publications db)" "pb_publicationId b \<notin> ids" for b
      using that pub(1,2) True one_publication [OF ok(1)] by metis
    then have "row_revision row \<notin> Some ` pb_revision ` set (db_publications (delete_publications ids now db))"
      unfolding pub(3) by (auto simp: delete_publications_def) metis
    then show ?thesis ..
  qed
qed

lemma prepare_evolves:
  assumes "ops_inv db" "preparePublication fresh locked now input db = (res, db')"
  shows "outbox_evolves owner db db'"
proof -
  let ?id = "coalesce (ppi_publicationId input) fresh"
  let ?db1 = "cleanup_expired locked now db"
  have 1: "outbox_evolves owner db ?db1" unfolding cleanup_expired_def by (rule delete_evolves [OF assms(1)])
  have "db' = db \<or> db' = ?db1\<lparr>db_nextRevision := db_nextRevision ?db1 + 1\<rparr> \<or>
    db' = ?db1\<lparr>db_nextRevision := db_nextRevision ?db1 + 1,
      db_publications := db_publications ?db1 @ [staging_row ?id now input ?db1]\<rparr>"
    using assms(2) unfolding preparePublication_def Let_def
    by (cases "find_publication ?id ?db1") (simp_all split: if_split_asm)
  moreover have "row_revision row \<noteq> Some (pb_revision (staging_row ?id now input ?db1))"
    if "row \<in> set (db_outbox db)" for row
  proof -
    have "outbox_row_ok (db_publications db) row" using that assms(1) by (simp add: ops_inv_def outbox_ok_def)
    then obtain pub where "pub \<in> set (db_publications db)" "row_revision row = Some (pb_revision pub)"
      by (rule row_publication)
    then show ?thesis using assms(1)
      by (auto simp: ops_inv_def publications_ok_def staging_row_def cleanup_expired_def delete_publications_def)
  qed
  then have "outbox_evolves owner db (?db1\<lparr>db_nextRevision := db_nextRevision ?db1 + 1,
      db_publications := db_publications ?db1 @ [staging_row ?id now input ?db1]\<rparr>)"
    using 1 unfolding outbox_evolves_def by simp
  moreover have "outbox_evolves owner db (?db1\<lparr>db_nextRevision := db_nextRevision ?db1 + 1\<rparr>)"
    using 1 by (simp add: outbox_evolves_def)
  moreover have "outbox_evolves owner db db" by (rule evolves_grows) auto
  ultimately show ?thesis by auto
qed

lemma sync_step_evolves:
  assumes "sync_step db db'" "ops_inv db"
  shows "outbox_evolves owner db db'"
  using assms
proof (rule sync_step_cases)
  assume "same_publications db db'"
  then show ?thesis by (intro evolves_grows) (auto simp: same_publications_def)
next
  fix now activation
  assume "activatePublication now activation db = Inr db'"
  then obtain rows where "db_outbox db' = db_outbox db @ rows" "rows = [] \<or> (\<exists>i. rows = [new_outbox_row now i activation])"
    by (metis activatePublication_cases)
  then show ?thesis by (intro evolves_grows) (auto simp: new_outbox_row_def)
next
  fix now p ended final statuses endRun
  assume "end_publication now p ended final statuses endRun db = Inr db'"
  then have "db_outbox db' = db_outbox db"
    unfolding end_publication_def Let_def by (auto split: option.split_asm if_split_asm)
  then show ?thesis by (intro evolves_grows) auto
qed (rule prepare_evolves [OF assms(2)])

end
