(* ===== verification/PublicationOutbox.thy ===== *)
theory PublicationOutbox
  imports SyncRuns
begin

text \<open>
  The durable outbox between the database and Redis
  (\<open>src/src/repositories/data-publication-outbox.ts\<close>). A dispatcher claims rows under a lease, and
  for each of them stages the payloads, moves the Redis pointer and records every phase; a
  delivery is therefore a sequence of steps on the database and Redis, between which any other
  process may act. Rows that other transactions have locked are skipped by a claim (\<open>locked\<close>).
\<close>

section \<open>Loading a publication\<close>

datatype outbox_error =
    Claim_limit_invalid
  | Claim_lease_invalid
  | Publication_absent
  | Manifest_invalid
  | Item_missing string
  | Item_proof_invalid string
  | Lease_lost_staging
  | Lease_lost_activating
  | Redis_publication_newer
  | Cache_failure cache_error
  | Database_failure sync_error

definition matches_proof :: "publication_env \<Rightarrow> manifest_item \<Rightarrow> publication_item \<Rightarrow> string \<Rightarrow> bool" where
  "matches_proof env i row candidate =
     (int (length candidate) = mi_bytes i \<and> pe_sha256 env candidate = mi_sha256 i \<and> py_checksum row = mi_sha256 i)"

definition payload_candidates :: "publication_dataset \<Rightarrow> json \<Rightarrow> (json_error, string list) result" where
  "payload_candidates d v =
     res_bind (item_payload d v) (\<lambda>canonical.
     res_bind (postgresJsonbCanonicalJson v) (\<lambda>jsonb.
       Inr [canonical, coalesce (JSON_stringify v) [], jsonb]))"

definition load_item ::
  "publication_env \<Rightarrow> manifest \<Rightarrow> publication_item list \<Rightarrow> manifest_item \<Rightarrow> (outbox_error, serialized_item) result" where
  "load_item env m rows i =
     (case List.find (\<lambda>row. py_itemName row = mi_name i) rows of
        None \<Rightarrow> Inl (Item_missing (mi_name i))
      | Some row \<Rightarrow>
          (case payload_candidates (mf_dataset m) (py_payload row) of
             Inl _ \<Rightarrow> Inl (Cache_failure DATA_PUBLICATION_ITEM_INVALID)
           | Inr candidates \<Rightarrow>
               (case List.find (matches_proof env i row) candidates of
                  None \<Rightarrow> Inl (Item_proof_invalid (mi_name i))
                | Some payload \<Rightarrow>
                    if payload = [] then Inl (Item_proof_invalid (mi_name i)) else Inr (i, payload))))"

definition loadPreparedPublication ::
  "publication_env \<Rightarrow> ops_db \<Rightarrow> string \<Rightarrow> json \<Rightarrow> (outbox_error, manifest \<times> serialized_item list) result" where
  "loadPreparedPublication env db publicationId manifestValue =
     (case parse_stored_manifest env manifestValue of
        None \<Rightarrow> Inl Manifest_invalid
      | Some m \<Rightarrow>
          res_bind (res_map (load_item env m (items_of publicationId db)) (mf_items m)) (\<lambda>items. Inr (m, items)))"

definition loadDataPublicationDelivery ::
  "publication_env \<Rightarrow> string \<Rightarrow> ops_db \<Rightarrow> (outbox_error, manifest \<times> serialized_item list) result" where
  "loadDataPublicationDelivery env publicationId db =
     (case find_publication publicationId db of
        None \<Rightarrow> Inl Publication_absent
      | Some row \<Rightarrow> loadPreparedPublication env db publicationId (pb_manifest row))"

section \<open>Claiming\<close>

record claimed_row =
  cl_outboxId :: string
  cl_owner :: string
  cl_publicationId :: string
  cl_manifest :: manifest
  cl_items :: "serialized_item list"

definition claimable :: "string option \<Rightarrow> int \<Rightarrow> outbox_row \<Rightarrow> bool" where
  "claimable publicationId now row =
     ((case publicationId of None \<Rightarrow> True | Some p \<Rightarrow> p = [] \<or> ob_publicationId row = p) \<and>
      ob_deliveredAt row = None \<and> ob_availableAt row \<le> now \<and>
      (case ob_leaseExpiresAt row of None \<Rightarrow> True | Some t \<Rightarrow> t \<le> now) \<and>
      ob_status row \<in> {Out_pending, Out_staged, Out_db_activated, Out_redis_activated})"

definition claim_order :: "outbox_row \<Rightarrow> outbox_row \<Rightarrow> int" where
  "claim_order a b =
     (let byTime = ob_availableAt a - ob_availableAt b in
      if byTime \<noteq> 0 then byTime else code_unit_cmp (ob_outboxId a) (ob_outboxId b))"

definition leased_row :: "string \<Rightarrow> int \<Rightarrow> int \<Rightarrow> outbox_row \<Rightarrow> outbox_row" where
  "leased_row owner now leaseMs row =
     row\<lparr>ob_leaseOwner := Some owner, ob_leaseExpiresAt := Some (now + leaseMs), ob_attempts := ob_attempts row + 1,
       ob_updatedAt := now\<rparr>"

definition claim_one ::
  "publication_env \<Rightarrow> string \<Rightarrow> int \<Rightarrow> int \<Rightarrow> outbox_row \<Rightarrow> ops_db \<times> claimed_row list
   \<Rightarrow> (outbox_error, ops_db \<times> claimed_row list) result" where
  "claim_one env owner now leaseMs row st =
     (let (db, claimed) = st;
          db1 = db\<lparr>db_outbox := update_where (\<lambda>r. ob_outboxId r = ob_outboxId row) (leased_row owner now leaseMs) (db_outbox db)\<rparr>
      in res_bind (loadPreparedPublication env db1 (ob_publicationId row) (ob_manifest row)) (\<lambda>(m, items).
           Inr (db1, claimed @ [\<lparr>cl_outboxId = ob_outboxId row, cl_owner = owner, cl_publicationId = ob_publicationId row,
             cl_manifest = m, cl_items = items\<rparr>])))"

definition claimDataPublicationOutbox ::
  "publication_env \<Rightarrow> string \<Rightarrow> string set \<Rightarrow> int \<Rightarrow> int option \<Rightarrow> int option \<Rightarrow> string option \<Rightarrow> ops_db
   \<Rightarrow> (outbox_error, ops_db \<times> claimed_row list) result" where
  "claimDataPublicationOutbox env owner locked now limitOption leaseOption publicationId db =
     (let limit = coalesce limitOption 20; leaseMs = coalesce leaseOption 60000 in
      if limit < 1 \<or> limit > 100 then Inl Claim_limit_invalid
      else if \<not> is_safe_integer leaseMs \<or> leaseMs < 1 then Inl Claim_lease_invalid
      else
        res_iter (claim_one env owner now leaseMs)
          (take (nat limit) (js_sort claim_order
            (filter (\<lambda>row. claimable publicationId now row \<and> ob_outboxId row \<notin> locked) (db_outbox db))))
          (db, []))"

section \<open>Recording phases\<close>

definition holds_lease :: "string \<Rightarrow> string \<Rightarrow> outbox_row \<Rightarrow> bool" where
  "holds_lease outboxId owner row =
     (ob_outboxId row = outboxId \<and> ob_leaseOwner row = Some owner \<and> ob_deliveredAt row = None)"

definition publish_run :: "int \<Rightarrow> outbox_row \<Rightarrow> ops_db \<Rightarrow> (outbox_error, ops_db) result" where
  "publish_run now row db =
     (let hit = (\<lambda>r. Some (ru_runId r) = ob_sourceRunId row \<and> ru_status r \<in> {Run_ready_to_publish, Run_published});
          publish = (\<lambda>r. r\<lparr>ru_status := Run_published, ru_publicationId := Some (ob_publicationId row),
            ru_completedAt := Some (coalesce (ru_completedAt r) now), ru_updatedAt := now\<rparr>)
      in if list_all (\<lambda>r. hit r \<longrightarrow> run_checks (publish r)) (db_runs db)
         then Inr (db\<lparr>db_runs := update_where hit publish (db_runs db)\<rparr>)
         else Inl (Database_failure Constraint_violation))"

definition delivered_row :: "int \<Rightarrow> outbox_row \<Rightarrow> outbox_row" where
  "delivered_row now row =
     row\<lparr>ob_status := Out_delivered, ob_deliveredAt := Some (coalesce (ob_deliveredAt row) now),
       ob_redisActivatedAt := Some (coalesce (ob_redisActivatedAt row) now), ob_leaseOwner := None,
       ob_leaseExpiresAt := None, ob_lastError := None, ob_updatedAt := now\<rparr>"

definition mark_delivered :: "(outbox_row \<Rightarrow> bool) \<Rightarrow> int \<Rightarrow> ops_db \<Rightarrow> (outbox_error, ops_db \<times> bool) result" where
  "mark_delivered hit now db =
     (case List.find hit (db_outbox db) of
        None \<Rightarrow> Inr (db, False)
      | Some row \<Rightarrow>
          res_bind (publish_run now row (db\<lparr>db_outbox := update_where hit (delivered_row now) (db_outbox db)\<rparr>))
            (\<lambda>db1. Inr (db1, True)))"

definition markDataPublicationOutboxDelivered ::
  "int \<Rightarrow> string \<Rightarrow> string \<Rightarrow> ops_db \<Rightarrow> (outbox_error, ops_db \<times> bool) result" where
  "markDataPublicationOutboxDelivered now outboxId owner = mark_delivered (holds_lease outboxId owner) now"

definition markDataPublicationOutboxReconciled ::
  "int \<Rightarrow> string \<Rightarrow> ops_db \<Rightarrow> (outbox_error, ops_db \<times> bool) result" where
  "markDataPublicationOutboxReconciled now publicationId =
     mark_delivered (\<lambda>row. ob_publicationId row = publicationId \<and> ob_deliveredAt row = None
       \<and> ob_status row \<in> {Out_pending, Out_staged, Out_db_activated, Out_redis_activated, Out_failed}) now"

definition update_leased :: "string \<Rightarrow> string \<Rightarrow> (outbox_row \<Rightarrow> outbox_row) \<Rightarrow> ops_db \<Rightarrow> ops_db \<times> bool" where
  "update_leased outboxId owner f db =
     (db\<lparr>db_outbox := update_where (holds_lease outboxId owner) f (db_outbox db)\<rparr>,
      length (filter (holds_lease outboxId owner) (db_outbox db)) = 1)"

definition markDataPublicationOutboxStage :: "int \<Rightarrow> string \<Rightarrow> string \<Rightarrow> bool \<Rightarrow> ops_db \<Rightarrow> ops_db \<times> bool" where
  "markDataPublicationOutboxStage now outboxId owner redisActivated =
     update_leased outboxId owner
       (if \<not> redisActivated
        then (\<lambda>row. row\<lparr>ob_status := Out_staged, ob_stagedAt := Some (coalesce (ob_stagedAt row) now), ob_updatedAt := now\<rparr>)
        else (\<lambda>row. row\<lparr>ob_status := Out_redis_activated,
          ob_redisActivatedAt := Some (coalesce (ob_redisActivatedAt row) now), ob_updatedAt := now\<rparr>))"

definition releaseDataPublicationOutbox ::
  "int \<Rightarrow> string \<Rightarrow> string \<Rightarrow> string \<Rightarrow> int option \<Rightarrow> ops_db \<Rightarrow> ops_db \<times> bool" where
  "releaseDataPublicationOutbox now outboxId owner message retryDelayMs =
     update_leased outboxId owner
       (\<lambda>row. row\<lparr>ob_status := Out_pending, ob_availableAt := now + max 0 (coalesce retryDelayMs 60000),
          ob_leaseOwner := None, ob_leaseExpiresAt := None, ob_lastError := Some (take 4000 message), ob_updatedAt := now\<rparr>)"

definition failDataPublicationOutbox :: "int \<Rightarrow> string \<Rightarrow> string \<Rightarrow> string \<Rightarrow> ops_db \<Rightarrow> ops_db \<times> bool" where
  "failDataPublicationOutbox now outboxId owner message =
     update_leased outboxId owner
       (\<lambda>row. row\<lparr>ob_status := Out_failed, ob_leaseOwner := None, ob_leaseExpiresAt := None,
          ob_lastError := Some (take 4000 message), ob_updatedAt := now\<rparr>)"

section \<open>Delivering one claimed row\<close>

text \<open>
  The body of the dispatcher for a claimed row, one step per call to Redis or the database. The
  recorded message of an error is left to the parameter \<open>describe\<close>.
\<close>

datatype delivery_outcome = Delivered | Lease_lost | Failed outbox_error

datatype delivery_pc =
    Stage_payloads
  | Mark_staged
  | Activate_pointer
  | Mark_activated
  | Mark_delivered
  | Recover outbox_error
  | Done delivery_outcome

type_synonym stores = "ops_db \<times> redis"

fun delivery_step ::
  "publication_env \<Rightarrow> (outbox_error \<Rightarrow> string) \<Rightarrow> int \<Rightarrow> claimed_row \<Rightarrow> delivery_pc \<Rightarrow> stores \<Rightarrow> delivery_pc \<times> stores" where
  "delivery_step env describe now c Stage_payloads (db, r) =
     (case stageDataPublicationItems (cl_manifest c) (cl_items c) r of
        (Inl e, r1) \<Rightarrow> (Recover (Cache_failure e), db, r1)
      | (Inr _, r1) \<Rightarrow> (Mark_staged, db, r1))"
| "delivery_step env describe now c Mark_staged (db, r) =
     (let (db1, ok) = markDataPublicationOutboxStage now (cl_outboxId c) (cl_owner c) False db in
      (if ok then Activate_pointer else Recover Lease_lost_staging, db1, r))"
| "delivery_step env describe now c Activate_pointer (db, r) =
     (case activateDataPublicationPointer env (cl_manifest c) r of
        (Inl e, r1) \<Rightarrow> (Recover (Cache_failure e), db, r1)
      | (Inr result, r1) \<Rightarrow>
          (if ps_status result = Status_stale then Recover Redis_publication_newer else Mark_activated, db, r1))"
| "delivery_step env describe now c Mark_activated (db, r) =
     (let (db1, ok) = markDataPublicationOutboxStage now (cl_outboxId c) (cl_owner c) True db in
      (if ok then Mark_delivered else Recover Lease_lost_activating, db1, r))"
| "delivery_step env describe now c Mark_delivered (db, r) =
     (case markDataPublicationOutboxDelivered now (cl_outboxId c) (cl_owner c) db of
        Inl e \<Rightarrow> (Recover e, db, r)
      | Inr (db1, ok) \<Rightarrow> (Done (if ok then Delivered else Lease_lost), db1, r))"
| "delivery_step env describe now c (Recover e) (db, r) =
     (Done (Failed e),
      fst (if e = Redis_publication_newer
           then failDataPublicationOutbox now (cl_outboxId c) (cl_owner c) (describe e) db
           else releaseDataPublicationOutbox now (cl_outboxId c) (cl_owner c) (describe e) None db), r)"
| "delivery_step env describe now c (Done out) st = (Done out, st)"

text \<open>
  The longest delivery takes six steps: the five calls and the recovery. \<open>dispatch\<close> lets the
  deliveries of one call run one after the other.
\<close>

definition run_delivery ::
  "publication_env \<Rightarrow> (outbox_error \<Rightarrow> string) \<Rightarrow> int \<Rightarrow> claimed_row \<Rightarrow> stores \<Rightarrow> delivery_pc \<times> stores" where
  "run_delivery env describe now c st =
     ((\<lambda>(pc, st). delivery_step env describe now c pc st) ^^ 6) (Stage_payloads, st)"

record dispatch_counts =
  dc_claimed :: int
  dc_delivered :: int
  dc_failed :: int

fun run_deliveries ::
  "publication_env \<Rightarrow> (outbox_error \<Rightarrow> string) \<Rightarrow> int \<Rightarrow> claimed_row list \<Rightarrow> dispatch_counts \<Rightarrow> stores
   \<Rightarrow> dispatch_counts \<times> stores" where
  "run_deliveries env describe now [] counts st = (counts, st)"
| "run_deliveries env describe now (c # cs) counts st =
     (case run_delivery env describe now c st of
        (Done Delivered, st1) \<Rightarrow> run_deliveries env describe now cs (counts\<lparr>dc_delivered := dc_delivered counts + 1\<rparr>) st1
      | (Done (Failed _), st1) \<Rightarrow> run_deliveries env describe now cs (counts\<lparr>dc_failed := dc_failed counts + 1\<rparr>) st1
      | (_, st1) \<Rightarrow> run_deliveries env describe now cs counts st1)"

definition dispatchDataPublicationOutbox ::
  "publication_env \<Rightarrow> (outbox_error \<Rightarrow> string) \<Rightarrow> string \<Rightarrow> string set \<Rightarrow> int \<Rightarrow> int option \<Rightarrow> string option \<Rightarrow> stores
   \<Rightarrow> (outbox_error, dispatch_counts \<times> stores) result" where
  "dispatchDataPublicationOutbox env describe owner locked now limit publicationId st =
     res_bind (claimDataPublicationOutbox env owner locked now limit None publicationId (fst st)) (\<lambda>(db1, claimed).
       Inr (run_deliveries env describe now claimed
         \<lparr>dc_claimed = int (length claimed), dc_delivered = 0, dc_failed = 0\<rparr> (db1, snd st)))"

section \<open>The outbox keeps the invariant\<close>

lemma ops_inv_outbox:
  assumes inv: "ops_inv db" and ids: "\<And>row. ob_outboxId (f row) = ob_outboxId row" "\<And>row. ob_publicationId (f row) = ob_publicationId row"
    and ok: "\<And>row. row \<in> set (db_outbox db) \<Longrightarrow> hit row \<Longrightarrow> outbox_row_ok (db_publications db) row \<Longrightarrow>
      outbox_row_ok (db_publications db) (f row)"
  shows "ops_inv (db\<lparr>db_outbox := update_where hit f (db_outbox db)\<rparr>)"
proof -
  have old: "outbox_ok (db_publications db) (db_outbox db)" using inv by (simp add: ops_inv_def)
  have "outbox_row_ok (db_publications db) x" if "x \<in> set (update_where hit f (db_outbox db))" for x
    using that old ok by (auto simp: outbox_ok_def update_where_iff)
  then have "outbox_ok (db_publications db) (update_where hit f (db_outbox db))"
    using old ids by (simp add: outbox_ok_def)
  then show ?thesis using inv by (simp add: ops_inv_def)
qed

lemma row_facts: "row \<in> set (db_outbox db) \<Longrightarrow> ops_inv db \<Longrightarrow> outbox_row_ok (db_publications db) row"
  by (simp add: ops_inv_def outbox_ok_def)

lemma same_row:
  assumes "ops_inv db" "row \<in> set (db_outbox db)" "row' \<in> set (db_outbox db)"
    and "ob_outboxId row = ob_outboxId row' \<or> ob_publicationId row = ob_publicationId row'"
  shows "row = row'"
  using assms by (auto simp: ops_inv_def outbox_ok_def distinct_map inj_on_def)

text \<open>Every change to a row that a holder of its lease makes, as one relation.\<close>

definition row_update :: "(outbox_row \<Rightarrow> outbox_row) \<Rightarrow> bool" where
  "row_update f \<longleftrightarrow> (\<forall>row pubs. ob_outboxId (f row) = ob_outboxId row \<and> ob_publicationId (f row) = ob_publicationId row \<and>
     ob_manifest (f row) = ob_manifest row \<and>
     (ob_deliveredAt row = None \<longrightarrow> ob_leaseOwner row \<noteq> None \<longrightarrow> outbox_row_ok pubs row \<longrightarrow> outbox_row_ok pubs (f row)) \<and>
     (ob_leaseOwner (f row) = ob_leaseOwner row \<or> ob_leaseOwner (f row) = None) \<and>
     ob_deliveredAt (f row) = ob_deliveredAt row)"

lemma row_updateD:
  assumes "row_update f"
  shows "ob_outboxId (f row) = ob_outboxId row" "ob_publicationId (f row) = ob_publicationId row"
    "ob_manifest (f row) = ob_manifest row" "ob_leaseOwner (f row) = ob_leaseOwner row \<or> ob_leaseOwner (f row) = None"
    "ob_deliveredAt (f row) = ob_deliveredAt row"
  using assms by (simp_all add: row_update_def)

lemma list_all2_from: "list_all2 P xs ys \<Longrightarrow> y \<in> set ys \<Longrightarrow> \<exists>x \<in> set xs. P x y"
  by (induction rule: list_all2_induct) auto

lemma row_updates:
  "row_update (\<lambda>row. row\<lparr>ob_status := Out_staged, ob_stagedAt := Some (coalesce (ob_stagedAt row) now), ob_updatedAt := now\<rparr>)"
  "row_update (\<lambda>row. row\<lparr>ob_status := Out_redis_activated,
     ob_redisActivatedAt := Some (coalesce (ob_redisActivatedAt row) now), ob_updatedAt := now\<rparr>)"
  "row_update (\<lambda>row. row\<lparr>ob_status := Out_pending, ob_availableAt := t, ob_leaseOwner := None, ob_leaseExpiresAt := None,
     ob_lastError := Some e, ob_updatedAt := now\<rparr>)"
  "row_update (\<lambda>row. row\<lparr>ob_status := Out_failed, ob_leaseOwner := None, ob_leaseExpiresAt := None,
     ob_lastError := Some e, ob_updatedAt := now\<rparr>)"
  by (auto simp: row_update_def outbox_row_ok_def)

lemma update_leased_inv:
  assumes "row_update f" "ops_inv db"
  shows "ops_inv (fst (update_leased outboxId owner f db))"
  unfolding update_leased_def fst_conv
  by (rule ops_inv_outbox [OF assms(2)]) (use assms(1) in \<open>auto simp: row_update_def holds_lease_def\<close>)

lemma leased_row_inv:
  assumes "ops_inv db" "row \<in> set (db_outbox db)" "ob_deliveredAt row = None"
  shows "ops_inv (db\<lparr>db_outbox := update_where (\<lambda>r. ob_outboxId r = ob_outboxId row) (leased_row owner now leaseMs) (db_outbox db)\<rparr>)"
proof (rule ops_inv_outbox [OF assms(1)])
  fix r assume "r \<in> set (db_outbox db)" "ob_outboxId r = ob_outboxId row" "outbox_row_ok (db_publications db) r"
  moreover from this have "r = row" using same_row assms by blast
  ultimately show "outbox_row_ok (db_publications db) (leased_row owner now leaseMs r)"
    using assms(3) by (auto simp: outbox_row_ok_def leased_row_def)
qed (simp_all add: leased_row_def)

lemma delivered_row_ok: "outbox_row_ok pubs row \<Longrightarrow> outbox_row_ok pubs (delivered_row now row)"
  by (auto simp: outbox_row_ok_def delivered_row_def)

lemma publish_run_shape:
  "publish_run now row db = Inr db' \<Longrightarrow>
   \<exists>runs. db' = db\<lparr>db_runs := runs\<rparr> \<and> (ops_inv db \<longrightarrow> ob_publicationId row \<in> pb_publicationId ` set (db_publications db) \<longrightarrow> ops_inv db')"
proof -
  let ?hit = "\<lambda>r. Some (ru_runId r) = ob_sourceRunId row \<and> ru_status r \<in> {Run_ready_to_publish, Run_published}"
  let ?publish = "\<lambda>r. r\<lparr>ru_status := Run_published, ru_publicationId := Some (ob_publicationId row),
            ru_completedAt := Some (coalesce (ru_completedAt r) now), ru_updatedAt := now\<rparr>"
  assume "publish_run now row db = Inr db'"
  then have db': "db' = db\<lparr>db_runs := update_where ?hit ?publish (db_runs db)\<rparr>"
    unfolding publish_run_def Let_def by (simp split: if_split_asm)
  moreover have "ops_inv (db\<lparr>db_runs := update_where ?hit ?publish (db_runs db)\<rparr>)"
    if "ops_inv db" "ob_publicationId row \<in> pb_publicationId ` set (db_publications db)"
  proof (rule ops_inv_runs [OF that(1)])
    show "runs_ok (db_publications db) (update_where ?hit ?publish (db_runs db))"
      using that by (intro runs_ok_update) (auto simp: ops_inv_def)
  qed (simp add: update_where_ids)
  ultimately show ?thesis by blast
qed

lemma mark_delivered_inv:
  assumes inv: "ops_inv db" and run: "mark_delivered hit now db = Inr (db', ok)"
  shows "ops_inv db' \<and> db_publications db' = db_publications db \<and> db_nextRevision db' = db_nextRevision db \<and>
    db_outbox db' = (if ok then update_where hit (delivered_row now) (db_outbox db) else db_outbox db) \<and>
    (ok \<longrightarrow> (\<exists>row \<in> set (db_outbox db). hit row))"
proof (cases "List.find hit (db_outbox db)")
  case None
  with assms show ?thesis by (simp add: mark_delivered_def)
next
  case (Some row)
  then have row: "row \<in> set (db_outbox db)" "hit row" by (auto simp: find_Some_iff)
  let ?db1 = "db\<lparr>db_outbox := update_where hit (delivered_row now) (db_outbox db)\<rparr>"
  have inv1: "ops_inv ?db1"
    by (rule ops_inv_outbox [OF inv]) (simp_all add: delivered_row_ok, simp_all add: delivered_row_def)
  have "ob_publicationId row \<in> pb_publicationId ` set (db_publications db)"
    using row_facts [OF row(1) inv] by (force simp: outbox_row_ok_def)
  moreover obtain db2 where "publish_run now row ?db1 = Inr db2" "db' = db2" "ok"
    using run Some by (auto simp: mark_delivered_def res_bind_Inr_iff)
  ultimately show ?thesis using publish_run_shape [of now row ?db1] inv1 row by fastforce
qed

text \<open>A claim leases its rows and returns them with their publications.\<close>

lemma load_outbox [simp]:
  "loadPreparedPublication env (db\<lparr>db_outbox := rows\<rparr>) p v = loadPreparedPublication env db p v"
  by (cases "parse_stored_manifest env v") (simp_all add: loadPreparedPublication_def items_of_def)

definition claimed_from :: "publication_env \<Rightarrow> ops_db \<Rightarrow> string \<Rightarrow> outbox_row \<Rightarrow> claimed_row \<Rightarrow> bool" where
  "claimed_from env db owner row c \<longleftrightarrow> cl_outboxId c = ob_outboxId row \<and> cl_owner c = owner \<and>
     cl_publicationId c = ob_publicationId row \<and>
     loadPreparedPublication env db (ob_publicationId row) (ob_manifest row) = Inr (cl_manifest c, cl_items c)"

definition lease_all :: "string set \<Rightarrow> string \<Rightarrow> int \<Rightarrow> int \<Rightarrow> outbox_row list \<Rightarrow> outbox_row list" where
  "lease_all ids owner now leaseMs = update_where (\<lambda>r. ob_outboxId r \<in> ids) (leased_row owner now leaseMs)"

lemma leased_row_id [simp]: "ob_outboxId (leased_row owner now leaseMs r) = ob_outboxId r"
  by (simp add: leased_row_def)

lemma claim_one_shape:
  assumes "claim_one env owner now leaseMs row (db, acc) = Inr st"
  obtains m items where "loadPreparedPublication env db (ob_publicationId row) (ob_manifest row) = Inr (m, items)"
    "st = (db\<lparr>db_outbox := update_where (\<lambda>r. ob_outboxId r = ob_outboxId row) (leased_row owner now leaseMs) (db_outbox db)\<rparr>,
      acc @ [\<lparr>cl_outboxId = ob_outboxId row, cl_owner = owner, cl_publicationId = ob_publicationId row,
        cl_manifest = m, cl_items = items\<rparr>])"
  using assms by (auto simp: claim_one_def res_bind_Inr_iff)

lemma claim_iter:
  "res_iter (claim_one env owner now leaseMs) rows (db, acc) = Inr (db', acc') \<Longrightarrow> distinct (map ob_outboxId rows) \<Longrightarrow>
   db' = db\<lparr>db_outbox := lease_all (ob_outboxId ` set rows) owner now leaseMs (db_outbox db)\<rparr> \<and>
   (\<exists>cs. acc' = acc @ cs \<and> list_all2 (claimed_from env db owner) rows cs)"
proof (induction rows arbitrary: db acc)
  case Nil
  then show ?case by (simp add: lease_all_def update_where_def)
next
  case (Cons row rows)
  let ?db1 = "db\<lparr>db_outbox := update_where (\<lambda>r. ob_outboxId r = ob_outboxId row) (leased_row owner now leaseMs) (db_outbox db)\<rparr>"
  from Cons.prems(1) obtain m items where load: "loadPreparedPublication env db (ob_publicationId row) (ob_manifest row) = Inr (m, items)"
    and rest: "res_iter (claim_one env owner now leaseMs) rows (?db1, acc @ [\<lparr>cl_outboxId = ob_outboxId row, cl_owner = owner,
      cl_publicationId = ob_publicationId row, cl_manifest = m, cl_items = items\<rparr>]) = Inr (db', acc')"
    unfolding res_iter.simps res_bind_Inr_iff by (auto elim: claim_one_shape)
  have ih: "db' = ?db1\<lparr>db_outbox := lease_all (ob_outboxId ` set rows) owner now leaseMs (db_outbox ?db1)\<rparr>"
    "\<exists>cs. acc' = (acc @ [\<lparr>cl_outboxId = ob_outboxId row, cl_owner = owner,
      cl_publicationId = ob_publicationId row, cl_manifest = m, cl_items = items\<rparr>]) @ cs \<and> list_all2 (claimed_from env ?db1 owner) rows cs"
    using Cons.IH [OF rest] Cons.prems(2) by auto
  have "lease_all (ob_outboxId ` set rows) owner now leaseMs (db_outbox ?db1) =
      lease_all (ob_outboxId ` set (row # rows)) owner now leaseMs (db_outbox db)"
    using Cons.prems(2) by (auto simp: lease_all_def update_where_def)
  moreover have "claimed_from env ?db1 owner = claimed_from env db owner" by (simp add: claimed_from_def fun_eq_iff)
  moreover have "claimed_from env db owner row \<lparr>cl_outboxId = ob_outboxId row, cl_owner = owner,
      cl_publicationId = ob_publicationId row, cl_manifest = m, cl_items = items\<rparr>"
    using load by (simp add: claimed_from_def)
  ultimately show ?case using ih by auto
qed

lemma guarded: "(if a then Inl x else if b then Inl y else e) = Inr z \<Longrightarrow> \<not> a \<and> e = Inr z"
  by (simp split: if_split_asm)

lemma claim_shape:
  assumes "claimDataPublicationOutbox env owner locked now limit lease pid db = Inr (db', claimed)" "ops_inv db"
  obtains rows leaseMs where "set rows \<subseteq> {row \<in> set (db_outbox db). claimable pid now row \<and> ob_outboxId row \<notin> locked}"
    "distinct (map ob_outboxId rows)"
    "db' = db\<lparr>db_outbox := lease_all (ob_outboxId ` set rows) owner now leaseMs (db_outbox db)\<rparr>"
    "list_all2 (claimed_from env db owner) rows claimed"
    "rows = take (nat (coalesce limit 20)) (js_sort claim_order
       (filter (\<lambda>row. claimable pid now row \<and> ob_outboxId row \<notin> locked) (db_outbox db)))"
    "1 \<le> coalesce limit 20"
proof -
  let ?hits = "filter (\<lambda>row. claimable pid now row \<and> ob_outboxId row \<notin> locked) (db_outbox db)"
  let ?rows = "take (nat (coalesce limit 20)) (js_sort claim_order ?hits)"
  have "distinct (map ob_outboxId (db_outbox db))" using assms(2) by (simp add: ops_inv_def outbox_ok_def)
  then have "distinct (map ob_outboxId ?hits)" by (rule distinct_filter_map)
  then have "distinct (map ob_outboxId (js_sort claim_order ?hits))" using mset_distinct_map [OF mset_js_sort] by blast
  then have d: "distinct (map ob_outboxId ?rows)" unfolding take_map [symmetric] by (rule distinct_take)
  note g = guarded [OF assms(1) [unfolded claimDataPublicationOutbox_def Let_def]]
  note shape = claim_iter [OF conjunct2 [OF g] d]
  have limit: "1 \<le> coalesce limit 20" using conjunct1 [OF g] by linarith
  show ?thesis
  proof (rule that [OF _ d _ _ refl limit])
    show "set ?rows \<subseteq> {row \<in> set (db_outbox db). claimable pid now row \<and> ob_outboxId row \<notin> locked}"
      by (auto dest!: in_set_takeD)
    show "db' = db\<lparr>db_outbox := lease_all (ob_outboxId ` set ?rows) owner now (coalesce lease 60000) (db_outbox db)\<rparr>"
      using shape by blast
    show "list_all2 (claimed_from env db owner) ?rows claimed" using shape by auto
  qed
qed

lemma lease_all_inv:
  assumes inv: "ops_inv db" and rows: "set rows \<subseteq> {row \<in> set (db_outbox db). claimable pid now row \<and> ob_outboxId row \<notin> locked}"
  shows "ops_inv (db\<lparr>db_outbox := lease_all (ob_outboxId ` set rows) owner now leaseMs (db_outbox db)\<rparr>)"
  unfolding lease_all_def
proof (rule ops_inv_outbox [OF inv])
  fix r assume r: "r \<in> set (db_outbox db)" "ob_outboxId r \<in> ob_outboxId ` set rows" "outbox_row_ok (db_publications db) r"
  then obtain row where "row \<in> set rows" "ob_outboxId r = ob_outboxId row" by auto
  moreover from this rows have "r = row" using same_row [OF inv r(1)] by blast
  ultimately have "ob_deliveredAt r = None" using rows by (auto simp: claimable_def)
  then show "outbox_row_ok (db_publications db) (leased_row owner now leaseMs r)"
    using r(3) by (auto simp: outbox_row_ok_def leased_row_def)
qed (simp_all add: leased_row_def)

section \<open>All processes\<close>

text \<open>
  The database, Redis and the deliveries under way. Redis may change arbitrarily between the
  steps of deliveries, and the database by any repository call or the reconciler; an owner is a
  fresh identifier. A dispatcher that dies simply takes no further step.
\<close>

record system =
  sy_db :: ops_db
  sy_redis :: redis
  sy_deliveries :: "(claimed_row \<times> delivery_pc) list"

inductive ops_step :: "publication_env \<Rightarrow> (outbox_error \<Rightarrow> string) \<Rightarrow> system \<Rightarrow> system \<Rightarrow> bool" for env describe where
  database: "sync_step (sy_db s) db' \<Longrightarrow> ops_step env describe s (s\<lparr>sy_db := db'\<rparr>)"
| redis: "ops_step env describe s (s\<lparr>sy_redis := r'\<rparr>)"
| claim: "claimDataPublicationOutbox env owner locked now limit lease pid (sy_db s) = Inr (db', claimed) \<Longrightarrow>
    owner \<notin> (\<lambda>d. cl_owner (fst d)) ` set (sy_deliveries s) \<Longrightarrow> (\<And>row. row \<in> set (db_outbox (sy_db s)) \<Longrightarrow> ob_leaseOwner row \<noteq> Some owner) \<Longrightarrow>
    ops_step env describe s
      (s\<lparr>sy_db := db', sy_deliveries := sy_deliveries s @ map (\<lambda>c. (c, Stage_payloads)) claimed\<rparr>)"
| deliver: "sy_deliveries s = before @ (c, pc) # after \<Longrightarrow>
    delivery_step env describe now c pc (sy_db s, sy_redis s) = (pc', db', r') \<Longrightarrow>
    ops_step env describe s \<lparr>sy_db = db', sy_redis = r', sy_deliveries = before @ (c, pc') # after\<rparr>"
| reconcile: "markDataPublicationOutboxReconciled now p (sy_db s) = Inr (db', ok) \<Longrightarrow>
    ops_step env describe s (s\<lparr>sy_db := db'\<rparr>)"

text \<open>What a delivery step does to the database.\<close>

inductive row_change :: "string \<Rightarrow> string \<Rightarrow> ops_db \<Rightarrow> ops_db \<Rightarrow> bool" for outboxId owner where
  none: "row_change outboxId owner db db"
| change: "row_update f \<Longrightarrow> row_change outboxId owner db
    (db\<lparr>db_outbox := update_where (holds_lease outboxId owner) f (db_outbox db)\<rparr>)"
| deliver: "mark_delivered (holds_lease outboxId owner) now db = Inr (db', True) \<Longrightarrow> row_change outboxId owner db db'"

lemma delivery_step_change:
  assumes "delivery_step env describe now c pc (db, r) = (pc', db', r')"
  shows "row_change (cl_outboxId c) (cl_owner c) db db' \<and>
    (pc' = Done Delivered \<longrightarrow> pc = Done Delivered \<or>
      pc = Mark_delivered \<and> mark_delivered (holds_lease (cl_outboxId c) (cl_owner c)) now db = Inr (db', True))"
proof -
  have leased: "row_update f \<Longrightarrow> row_change i o' db (fst (update_leased i o' f db))" for f i o'
    by (simp add: update_leased_def row_change.change)
  show ?thesis
  proof (cases pc)
    case Stage_payloads
    with assms show ?thesis by (auto intro: row_change.none split: prod.splits sum.splits)
  next
    case Mark_staged
    with assms leased [OF row_updates(1)] show ?thesis
      by (auto simp: markDataPublicationOutboxStage_def update_leased_def split: if_splits)
  next
    case Activate_pointer
    with assms show ?thesis by (auto intro: row_change.none split: prod.splits sum.splits if_splits)
  next
    case Mark_activated
    with assms leased [OF row_updates(2)] show ?thesis
      by (auto simp: markDataPublicationOutboxStage_def update_leased_def split: if_splits)
  next
    case Mark_delivered
    show ?thesis
    proof (cases "markDataPublicationOutboxDelivered now (cl_outboxId c) (cl_owner c) db")
      case (Inl e)
      with assms Mark_delivered show ?thesis by (auto intro: row_change.none)
    next
      case (Inr res)
      obtain db1 ok where res: "res = (db1, ok)" by fastforce
      have "\<not> ok \<Longrightarrow> db1 = db"
        using Inr res unfolding markDataPublicationOutboxDelivered_def mark_delivered_def
        by (auto simp: res_bind_Inr_iff split: option.splits)
      with Inr res assms Mark_delivered show ?thesis
        by (cases ok) (auto simp: markDataPublicationOutboxDelivered_def intro: row_change.intros)
    qed
  next
    case (Recover e)
    with assms leased [OF row_updates(3)] leased [OF row_updates(4)] show ?thesis
      by (auto simp: releaseDataPublicationOutbox_def failDataPublicationOutbox_def)
  next
    case (Done out)
    with assms show ?thesis by (auto intro: row_change.none)
  qed
qed

lemma update_evolves:
  assumes "\<And>row. row \<in> set (db_outbox db) \<Longrightarrow> hit row \<Longrightarrow> row_evolves owner row (f row)"
  shows "outbox_evolves owner db (db\<lparr>db_outbox := update_where hit f (db_outbox db)\<rparr>)"
  unfolding outbox_evolves_def
proof (intro conjI ballI)
  fix row' assume "row' \<in> set (db_outbox (db\<lparr>db_outbox := update_where hit f (db_outbox db)\<rparr>))"
  then obtain row where "row \<in> set (db_outbox db)" "row' = (if hit row then f row else row)"
    by (auto simp: update_where_iff)
  then have "\<exists>row \<in> set (db_outbox db). row_evolves owner row row'" using assms by fastforce
  then show "(\<exists>row \<in> set (db_outbox db). row_evolves owner row row') \<or> ob_leaseOwner row' = None \<and> ob_deliveredAt row' = None" ..
next
  fix row assume row: "row \<in> set (db_outbox db)"
  let ?row' = "if hit row then f row else row"
  have "?row' \<in> set (db_outbox (db\<lparr>db_outbox := update_where hit f (db_outbox db)\<rparr>))"
    using row by (auto simp: update_where_iff)
  moreover have "row_evolves owner row ?row'" using assms row by simp
  ultimately show "(\<exists>row' \<in> set (db_outbox (db\<lparr>db_outbox := update_where hit f (db_outbox db)\<rparr>)). row_evolves owner row row') \<or>
      row_revision row \<notin> Some ` pb_revision ` set (db_publications (db\<lparr>db_outbox := update_where hit f (db_outbox db)\<rparr>))"
    by blast
qed

lemma evolves_outbox_cong:
  "db_outbox db'' = db_outbox db' \<Longrightarrow> db_publications db'' = db_publications db' \<Longrightarrow>
   outbox_evolves owner db db'' = outbox_evolves owner db db'"
  by (simp add: outbox_evolves_def)

definition db_evolves :: "string option \<Rightarrow> ops_db \<Rightarrow> ops_db \<Rightarrow> bool" where
  "db_evolves owner db db' \<longleftrightarrow> ops_inv db' \<and> publications_progress db db' \<and> outbox_evolves owner db db'"

lemma mark_delivered_evolves:
  assumes "ops_inv db" "mark_delivered hit now db = Inr (db', ok)" "\<And>row. hit row \<Longrightarrow> ob_deliveredAt row = None"
  shows "db_evolves None db db'"
proof -
  note m = mark_delivered_inv [OF assms(1,2)]
  have "outbox_evolves None db (db\<lparr>db_outbox := update_where hit (delivered_row now) (db_outbox db)\<rparr>)"
    by (rule update_evolves) (use assms(3) in \<open>auto simp: row_evolves_def delivered_row_def\<close>)
  moreover have "outbox_evolves None db db" by (rule evolves_grows) auto
  ultimately have "outbox_evolves None db db'"
    using m evolves_outbox_cong [of db' "if ok then db\<lparr>db_outbox := update_where hit (delivered_row now) (db_outbox db)\<rparr> else db"]
    by (cases ok) auto
  then show ?thesis using m progress_same by (simp add: db_evolves_def)
qed

lemma row_change_evolves:
  assumes "row_change i owner db db'" "ops_inv db"
  shows "db_evolves None db db'"
  using assms(1)
proof cases
  case none
  then show ?thesis using assms(2) progress_refl evolves_grows [of db db] by (auto simp: db_evolves_def)
next
  case (change f)
  have "outbox_evolves None db db'" unfolding change(1)
    by (rule update_evolves) (use row_updateD [OF change(2)] in \<open>simp add: row_evolves_def holds_lease_def; metis\<close>)
  moreover have "ops_inv db'" using update_leased_inv [OF change(2) assms(2)] by (simp add: change(1) update_leased_def)
  ultimately show ?thesis using progress_same by (simp add: db_evolves_def change(1))
next
  case (deliver now)
  show ?thesis by (rule mark_delivered_evolves [OF assms(2) deliver]) (simp add: holds_lease_def)
qed

lemma sync_step_db_evolves: "sync_step db db' \<Longrightarrow> ops_inv db \<Longrightarrow> db_evolves None db db'"
  by (simp add: db_evolves_def sync_step_inv sync_step_progress sync_step_evolves)

lemma claim_evolves:
  assumes "claimDataPublicationOutbox env owner locked now limit lease pid db = Inr (db', claimed)" "ops_inv db"
  shows "db_evolves (Some owner) db db'"
proof -
  obtain rows leaseMs where rows: "set rows \<subseteq> {row \<in> set (db_outbox db). claimable pid now row \<and> ob_outboxId row \<notin> locked}"
    "db' = db\<lparr>db_outbox := lease_all (ob_outboxId ` set rows) owner now leaseMs (db_outbox db)\<rparr>"
    by (rule claim_shape [OF assms])
  have "outbox_evolves (Some owner) db db'"
    unfolding rows(2) lease_all_def
  proof (rule update_evolves)
    fix r assume r: "r \<in> set (db_outbox db)" "ob_outboxId r \<in> ob_outboxId ` set rows"
    then obtain row where "row \<in> set rows" "ob_outboxId r = ob_outboxId row" by auto
    moreover from this rows(1) have "r = row" using same_row [OF assms(2) r(1)] by blast
    ultimately have "ob_deliveredAt r = None" using rows(1) by (auto simp: claimable_def)
    then show "row_evolves (Some owner) r (leased_row owner now leaseMs r)" by (simp add: row_evolves_def leased_row_def)
  qed
  then show ?thesis using lease_all_inv [OF assms(2) rows(1)] progress_same
    by (simp add: db_evolves_def rows(2))
qed

section \<open>What the processes together keep\<close>

definition claim_ok :: "ops_db \<Rightarrow> claimed_row \<Rightarrow> bool" where
  "claim_ok db c \<longleftrightarrow> mf_revision (cl_manifest c) < db_nextRevision db \<and>
     (\<forall>row \<in> set (db_outbox db). ob_outboxId row = cl_outboxId c \<longrightarrow> ob_leaseOwner row = Some (cl_owner c) \<longrightarrow>
        row_revision row = Some (mf_revision (cl_manifest c)))"

definition delivery_recorded :: "ops_db \<Rightarrow> int \<Rightarrow> bool" where
  "delivery_recorded db n \<longleftrightarrow> n \<notin> pb_revision ` set (db_publications db) \<or>
     (\<exists>row \<in> set (db_outbox db). ob_deliveredAt row \<noteq> None \<and> row_revision row = Some n)"

definition delivered_revisions :: "(claimed_row \<times> delivery_pc) list \<Rightarrow> int list" where
  "delivered_revisions ds = map (\<lambda>d. mf_revision (cl_manifest (fst d))) (filter (\<lambda>d. snd d = Done Delivered) ds)"

definition sys_inv :: "system \<Rightarrow> bool" where
  "sys_inv s \<longleftrightarrow> ops_inv (sy_db s) \<and> (\<forall>d \<in> set (sy_deliveries s). claim_ok (sy_db s) (fst d)) \<and>
     distinct (delivered_revisions (sy_deliveries s)) \<and>
     (\<forall>n \<in> set (delivered_revisions (sy_deliveries s)). delivery_recorded (sy_db s) n)"

lemma row_evolves_revision: "row_evolves owner row row' \<Longrightarrow> row_revision row' = row_revision row"
  by (simp add: row_evolves_def row_revision_def)

lemma claim_ok_evolves:
  assumes "claim_ok db c" "db_evolves owner db db'" "owner \<noteq> Some (cl_owner c)"
  shows "claim_ok db' c"
  unfolding claim_ok_def
proof (intro conjI ballI impI)
  show "mf_revision (cl_manifest c) < db_nextRevision db'"
    using assms(1,2) by (auto simp: claim_ok_def db_evolves_def publications_progress_def)
  fix row' assume row': "row' \<in> set (db_outbox db')" "ob_outboxId row' = cl_outboxId c" "ob_leaseOwner row' = Some (cl_owner c)"
  then obtain row where row: "row \<in> set (db_outbox db)" "row_evolves owner row row'"
    using assms(2) unfolding db_evolves_def outbox_evolves_def by fastforce
  then have "ob_outboxId row = cl_outboxId c" "ob_leaseOwner row = Some (cl_owner c)"
    using row' assms(3) by (auto simp: row_evolves_def)
  then show "row_revision row' = Some (mf_revision (cl_manifest c))"
    using assms(1) row row_evolves_revision by (simp add: claim_ok_def)
qed

lemma recorded_evolves:
  assumes "delivery_recorded db n" "db_evolves owner db db'" "n < db_nextRevision db"
  shows "delivery_recorded db' n"
proof (cases "n \<in> pb_revision ` set (db_publications db)")
  case False
  have "pb_revision b \<noteq> n" if b: "b \<in> set (db_publications db')" for b
  proof
    assume "pb_revision b = n"
    then obtain a where "a \<in> set (db_publications db)" "moves_on a b"
      using b assms(2,3) unfolding db_evolves_def publications_progress_def by blast
    then show False using False \<open>pb_revision b = n\<close> by (auto simp: moves_on_def same_identity_def)
  qed
  then show ?thesis by (auto simp: delivery_recorded_def)
next
  case True
  then obtain row where row: "row \<in> set (db_outbox db)" "ob_deliveredAt row \<noteq> None" "row_revision row = Some n"
    using assms(1) by (auto simp: delivery_recorded_def)
  then consider row' where "row' \<in> set (db_outbox db')" "row_evolves owner row row'"
    | "row_revision row \<notin> Some ` pb_revision ` set (db_publications db')"
    using assms(2) unfolding db_evolves_def outbox_evolves_def by blast
  then show ?thesis
  proof cases
    case 1
    then have "row' = row" using row(2) by (simp add: row_evolves_def)
    with 1 row show ?thesis by (auto simp: delivery_recorded_def)
  next
    case 2
    then show ?thesis using row(3) by (auto simp: delivery_recorded_def)
  qed
qed

lemma sys_inv_database:
  assumes "sys_inv s" "db_evolves owner (sy_db s) db'" "owner \<notin> (\<lambda>d. Some (cl_owner (fst d))) ` set (sy_deliveries s)"
    and "sy_db s' = db'" "sy_deliveries s' = sy_deliveries s"
  shows "sys_inv s'"
  unfolding sys_inv_def assms(4,5)
proof (intro conjI ballI)
  show "ops_inv db'" using assms(2) by (simp add: db_evolves_def)
  show "distinct (delivered_revisions (sy_deliveries s))" using assms(1) by (simp add: sys_inv_def)
  fix d assume d: "d \<in> set (sy_deliveries s)"
  then show "claim_ok db' (fst d)" using claim_ok_evolves [OF _ assms(2)] assms(1,3) by (auto simp: sys_inv_def)
next
  fix n assume n: "n \<in> set (delivered_revisions (sy_deliveries s))"
  then obtain d where "d \<in> set (sy_deliveries s)" "n = mf_revision (cl_manifest (fst d))" by (auto simp: delivered_revisions_def)
  then have "n < db_nextRevision (sy_db s)" using assms(1) by (auto simp: sys_inv_def claim_ok_def)
  then show "delivery_recorded db' n" using recorded_evolves [OF _ assms(2)] assms(1) n by (simp add: sys_inv_def)
qed

lemma sys_inv_claim:
  assumes inv: "sys_inv s" and claim: "claimDataPublicationOutbox env owner locked now limit lease pid (sy_db s) = Inr (db', claimed)"
    and fresh: "owner \<notin> (\<lambda>d. cl_owner (fst d)) ` set (sy_deliveries s)"
      "\<And>row. row \<in> set (db_outbox (sy_db s)) \<Longrightarrow> ob_leaseOwner row \<noteq> Some owner"
  shows "sys_inv (s\<lparr>sy_db := db', sy_deliveries := sy_deliveries s @ map (\<lambda>c. (c, Stage_payloads)) claimed\<rparr>)"
proof -
  have db: "ops_inv (sy_db s)" using inv by (simp add: sys_inv_def)
  have "sys_inv (s\<lparr>sy_db := db'\<rparr>)"
    by (rule sys_inv_database [OF inv claim_evolves [OF claim db]]) (use fresh(1) in auto)
  moreover have "claim_ok db' c" if c: "c \<in> set claimed" for c
  proof -
    obtain rows leaseMs where rows: "set rows \<subseteq> {row \<in> set (db_outbox (sy_db s)). claimable pid now row \<and> ob_outboxId row \<notin> locked}"
      "db' = (sy_db s)\<lparr>db_outbox := lease_all (ob_outboxId ` set rows) owner now leaseMs (db_outbox (sy_db s))\<rparr>"
      "list_all2 (claimed_from env (sy_db s) owner) rows claimed"
      by (rule claim_shape [OF claim db])
    obtain row where row: "row \<in> set rows" "claimed_from env (sy_db s) owner row c"
      using list_all2_from [OF rows(3) c] by blast
    then have r: "row \<in> set (db_outbox (sy_db s))" using rows(1) by blast
    have ok: "outbox_row_ok (db_publications (sy_db s)) row" by (rule row_facts [OF r db])
    then obtain m where m: "ob_manifest row = stored_manifest m" by (auto simp: outbox_row_ok_def)
    have "parse_stored_manifest env (ob_manifest row) = Some (cl_manifest c)"
      using row(2) by (auto simp: claimed_from_def loadPreparedPublication_def res_bind_Inr_iff split: option.splits)
    then have "cl_manifest c = m" using m parse_stored_Some by simp
    then have rev: "row_revision row = Some (mf_revision (cl_manifest c))" using m decode_stored by (simp add: row_revision_def)
    obtain pub where "pub \<in> set (db_publications (sy_db s))" "row_revision row = Some (pb_revision pub)"
      by (rule row_publication [OF ok])
    then have "mf_revision (cl_manifest c) < db_nextRevision db'"
      using rev db rows(2) by (auto simp: ops_inv_def publications_ok_def)
    moreover have "row_revision x = Some (mf_revision (cl_manifest c))"
      if x: "x \<in> set (db_outbox db')" "ob_outboxId x = cl_outboxId c" for x
    proof -
      obtain y where y: "y \<in> set (db_outbox (sy_db s))"
        "x = (if ob_outboxId y \<in> ob_outboxId ` set rows then leased_row owner now leaseMs y else y)"
        using x(1) unfolding rows(2) lease_all_def by (auto simp: update_where_iff)
      then have "ob_outboxId y = ob_outboxId row" using x(2) row(2) by (auto simp: claimed_from_def split: if_splits)
      then have "y = row" using same_row [OF db y(1) r] by simp
      with rev y show ?thesis by (simp add: row_revision_def leased_row_def)
    qed
    ultimately show ?thesis by (simp add: claim_ok_def)
  qed
  ultimately show ?thesis by (auto simp: sys_inv_def delivered_revisions_def)
qed

lemma delivered_revisions_append:
  "delivered_revisions (before @ (c, pc) # after) =
     delivered_revisions before @ (if pc = Done Delivered then [mf_revision (cl_manifest c)] else []) @ delivered_revisions after"
  by (simp add: delivered_revisions_def)

lemma sys_inv_deliver:
  assumes inv: "sys_inv s" and ds: "sy_deliveries s = before @ (c, pc) # after"
    and step: "delivery_step env describe now c pc (sy_db s, sy_redis s) = (pc', db', r')"
  shows "sys_inv \<lparr>sy_db = db', sy_redis = r', sy_deliveries = before @ (c, pc') # after\<rparr>"
proof -
  have db: "ops_inv (sy_db s)" using inv by (simp add: sys_inv_def)
  note change = delivery_step_change [OF step]
  have ev: "db_evolves None (sy_db s) db'" by (rule row_change_evolves [OF conjunct1 [OF change] db])
  have "sys_inv (s\<lparr>sy_db := db'\<rparr>)" by (rule sys_inv_database [OF inv ev]) auto
  then have s': "ops_inv db'" "\<And>d. d \<in> set (sy_deliveries s) \<Longrightarrow> claim_ok db' (fst d)"
    "distinct (delivered_revisions (sy_deliveries s))"
    "\<And>n. n \<in> set (delivered_revisions (sy_deliveries s)) \<Longrightarrow> delivery_recorded db' n" by (auto simp: sys_inv_def)
  have cl: "claim_ok db' (fst d)" if "d \<in> set (before @ (c, pc') # after)" for d
    using that s'(2) [of d] s'(2) [of "(c, pc)"] ds by auto
  show ?thesis
  proof (cases "pc' = Done Delivered \<and> pc \<noteq> Done Delivered")
    case False
    then have "pc = Done Delivered \<longrightarrow> pc' = Done Delivered" using step by (cases pc) auto
    then have "delivered_revisions (before @ (c, pc') # after) = delivered_revisions (sy_deliveries s)"
      using False ds by (auto simp: delivered_revisions_append)
    then show ?thesis using s'(1,3,4) cl by (simp add: sys_inv_def)
  next
    case True
    let ?n = "mf_revision (cl_manifest c)"
    let ?hit = "holds_lease (cl_outboxId c) (cl_owner c)"
    from True change have mark: "mark_delivered ?hit now (sy_db s) = Inr (db', True)" by blast
    then obtain row where row: "row \<in> set (db_outbox (sy_db s))" "?hit row"
      and out: "db_outbox db' = update_where ?hit (delivered_row now) (db_outbox (sy_db s))"
      using mark_delivered_inv [OF db mark] by auto
    have rev: "row_revision row = Some ?n"
      using inv row ds by (auto simp: sys_inv_def claim_ok_def holds_lease_def)
    have new: "?n \<notin> set (delivered_revisions (sy_deliveries s))"
    proof
      assume "?n \<in> set (delivered_revisions (sy_deliveries s))"
      then have rec: "delivery_recorded (sy_db s) ?n" using inv by (simp add: sys_inv_def)
      obtain pub where pub: "pub \<in> set (db_publications (sy_db s))" "pb_publicationId pub = ob_publicationId row"
        "row_revision row = Some (pb_revision pub)" by (rule row_publication [OF row_facts [OF row(1) db]])
      then have "?n \<in> pb_revision ` set (db_publications (sy_db s))" using rev by force
      with rec obtain row' where row': "row' \<in> set (db_outbox (sy_db s))" "ob_deliveredAt row' \<noteq> None"
        "row_revision row' = Some ?n" by (auto simp: delivery_recorded_def)
      obtain pub' where pub': "pub' \<in> set (db_publications (sy_db s))" "pb_publicationId pub' = ob_publicationId row'"
        "row_revision row' = Some (pb_revision pub')" by (rule row_publication [OF row_facts [OF row'(1) db]])
      have pubs: "publications_ok (db_nextRevision (sy_db s)) (db_publications (sy_db s))" using db by (simp add: ops_inv_def)
      have "pb_revision pub' = pb_revision pub" using pub(3) pub'(3) unfolding rev row'(3) option.inject by metis
      then have "pub' = pub" using one_publication [OF pubs pub'(1) pub(1)] by blast
      then have "row' = row" using same_row [OF db row'(1) row(1)] pub(2) pub'(2) by metis
      with row row' show False by (simp add: holds_lease_def)
    qed
    have "delivered_row now row \<in> set (db_outbox db')" using row unfolding out by (auto simp: update_where_iff)
    then have "delivery_recorded db' ?n" using rev
      by (auto simp: delivery_recorded_def row_revision_def delivered_row_def intro!: bexI [of _ "delivered_row now row"])
    moreover have "distinct (delivered_revisions (before @ (c, pc') # after))"
      "set (delivered_revisions (before @ (c, pc') # after)) = insert ?n (set (delivered_revisions (sy_deliveries s)))"
      using new s'(3) ds True by (auto simp: delivered_revisions_append)
    ultimately show ?thesis using s'(1,4) cl by (simp add: sys_inv_def)
  qed
qed

lemma ops_step_inv: "ops_step env describe s s' \<Longrightarrow> sys_inv s \<Longrightarrow> sys_inv s'"
proof (induction rule: ops_step.induct)
  case (database s db')
  then have "db_evolves None (sy_db s) db'" using sync_step_db_evolves by (simp add: sys_inv_def)
  show ?case by (rule sys_inv_database [OF database.prems \<open>db_evolves None (sy_db s) db'\<close>]) auto
next
  case (redis s r')
  then show ?case by (simp add: sys_inv_def)
next
  case (claim owner locked now limit lease pid s db' claimed)
  then show ?case using sys_inv_claim by blast
next
  case (deliver s before c pc after now pc' db' r')
  then show ?case using sys_inv_deliver by blast
next
  case (reconcile now p s db' ok)
  have "db_evolves None (sy_db s) db'"
    by (rule mark_delivered_evolves [OF _ reconcile.hyps [unfolded markDataPublicationOutboxReconciled_def]])
      (use reconcile.prems in \<open>simp_all add: sys_inv_def\<close>)
  show ?case by (rule sys_inv_database [OF reconcile.prems \<open>db_evolves None (sy_db s) db'\<close>]) auto
qed

interpretation ops: step_invariant "ops_step env describe" sys_inv for env describe
  by unfold_locales (rule ops_step_inv)

definition empty_system :: "redis \<Rightarrow> system" where
  "empty_system r = \<lparr>sy_db = empty_db, sy_redis = r, sy_deliveries = []\<rparr>"

lemma empty_system_inv: "sys_inv (empty_system r)"
  by (simp add: sys_inv_def empty_system_def empty_db_inv delivered_revisions_def)

lemma ops_step_progress: "ops_step env describe s s' \<Longrightarrow> sys_inv s \<Longrightarrow> publications_progress (sy_db s) (sy_db s')"
proof (induction rule: ops_step.induct)
  case (database s db')
  then show ?case using sync_step_progress by (simp add: sys_inv_def)
next
  case (redis s r')
  then show ?case by (simp add: progress_refl)
next
  case (claim owner locked now limit lease pid s db' claimed)
  then show ?case using claim_evolves by (auto simp: sys_inv_def db_evolves_def)
next
  case (deliver s before c pc after now pc' db' r')
  then show ?case using row_change_evolves [OF conjunct1 [OF delivery_step_change]] by (fastforce simp: sys_inv_def db_evolves_def)
next
  case (reconcile now p s db' ok)
  then show ?case using mark_delivered_inv progress_same
    by (auto simp: sys_inv_def markDataPublicationOutboxReconciled_def)
qed

lemma ops_progress: "(ops_step env describe)\<^sup>*\<^sup>* s s' \<Longrightarrow> sys_inv s \<Longrightarrow> publications_progress (sy_db s) (sy_db s')"
  by (rule ops.reach_relation [where rel = "\<lambda>s t. publications_progress (sy_db s) (sy_db t)"])
    (auto intro: progress_refl progress_trans ops_step_progress)

end
