(* ===== verification/OutboxDelivery.thy ===== *)
theory OutboxDelivery
  imports PublicationOutbox
begin

text \<open>
  What the outbox guarantees: the invariant and progress of the tables under all processes, one
  delivery per publication, delivery only after activation, and the outcome of a dispatch.
\<close>

section \<open>Delivery comes after activation\<close>

text \<open>A history is the list of the states passed.\<close>

inductive ops_run :: "publication_env \<Rightarrow> (outbox_error \<Rightarrow> string) \<Rightarrow> system list \<Rightarrow> bool" for env describe where
  start: "ops_run env describe [empty_system r]"
| continue: "ops_run env describe (h @ [s]) \<Longrightarrow> ops_step env describe s s' \<Longrightarrow> ops_run env describe (h @ [s, s'])"

definition pointer_held :: "claimed_row \<Rightarrow> redis \<Rightarrow> bool" where
  "pointer_held c r \<longleftrightarrow> (\<exists>key a. activeDataPublicationKey (manifest_scope (cl_manifest c)) = Inr key \<and>
     active_manifest r key = Some a \<and> mf_publicationId a = mf_publicationId (cl_manifest c) \<and>
     same_publication a (cl_manifest c))"

lemma same_publication_refl [simp]: "same_publication m m"
  by (simp add: same_publication_def)

lemma activation_holds_pointer:
  assumes "activateDataPublicationPointer env m r = (Inr result, r')" "ps_status result \<noteq> Status_stale"
  obtains key a where "activeDataPublicationKey (manifest_scope m) = Inr key" "active_manifest r' key = Some a"
    "mf_publicationId a = mf_publicationId m" "same_publication a m"
proof -
  obtain key where key: "activeDataPublicationKey (manifest_scope m) = Inr key"
    using assms(1) by (cases "activeDataPublicationKey (manifest_scope m)") (auto simp: activateDataPublicationPointer_def)
  obtain reply where run: "activate_script key m DATA_PUBLICATION_RETIRED_TTL_MS r = (reply, r')"
    using assms(1) key by (auto simp: activateDataPublicationPointer_def split: prod.splits)
  show ?thesis
  proof (cases "\<exists>raw. reply = Published raw")
    case True
    with run obtain cur where "r' = retire_items DATA_PUBLICATION_RETIRED_TTL_MS (mf_items m) cur (swap_pointer key m r)"
      by (auto elim: activate_script_cases)
    then have "active_manifest r' key = Some m" by (simp add: active_manifest_def get_retire_swap retired_ttl_nonneg)
    with key show ?thesis using that by simp
  next
    case False
    then obtain raw where raw: "reply = Idempotent raw"
      using assms key run by (cases reply) (auto simp: activateDataPublicationPointer_def)
    then obtain current where "redis_get r key = Some raw" "lua_manifest raw = Some current" "r' = r"
        "same_publication current m" "mf_publicationId current = mf_publicationId m"
      using run check_stage_not_published
      by (auto simp: activate_script_def Let_def split: option.splits if_splits elim!: check_stage_reply)
    then show ?thesis using that [OF key, of current] by (simp add: active_manifest_def)
  qed
qed

definition past_activation :: "delivery_pc \<Rightarrow> bool" where
  "past_activation pc \<longleftrightarrow> pc \<in> {Mark_activated, Mark_delivered, Done Delivered}"

lemma delivery_step_pointer:
  assumes "delivery_step env describe now c pc (db, r) = (pc', db', r')" "past_activation pc'"
  shows "past_activation pc \<or> pointer_held c r'"
proof (cases pc)
  case Activate_pointer
  with assms obtain result where "activateDataPublicationPointer env (cl_manifest c) r = (Inr result, r')"
    "ps_status result \<noteq> Status_stale"
    by (auto simp: past_activation_def split: prod.splits sum.splits if_splits)
  then show ?thesis by (rule activation_holds_pointer) (auto simp: pointer_held_def)
next
  case (Recover e)
  with assms show ?thesis by (auto simp: past_activation_def)
qed (use assms in \<open>auto simp: past_activation_def split: prod.splits sum.splits if_splits\<close>)

lemma run_pointer:
  "ops_run env describe h \<Longrightarrow> (c, pc) \<in> set (sy_deliveries (last h)) \<Longrightarrow> past_activation pc \<Longrightarrow>
   \<exists>s \<in> set h. pointer_held c (sy_redis s)"
proof (induction arbitrary: c pc rule: ops_run.induct)
  case (start r)
  then show ?case by (simp add: empty_system_def)
next
  case (continue h s s')
  have old: "\<exists>s \<in> set (h @ [s, s']). pointer_held c (sy_redis s)" if "(c, pc) \<in> set (sy_deliveries s)" "past_activation pc" for c pc
    using continue.IH [of c pc] that by auto
  have "(c, pc) \<in> set (sy_deliveries s')" using continue.prems(1) by simp
  with continue.hyps(2) show ?case
  proof cases
    case (claim owner locked now limit lease pid db' claimed)
    then have "(c, pc) \<in> set (sy_deliveries s) \<or> pc = Stage_payloads" using \<open>(c, pc) \<in> set (sy_deliveries s')\<close> by auto
    then show ?thesis using old continue.prems(2) by (auto simp: past_activation_def)
  next
    case (deliver before d pc0 after now pc1 db' r')
    then have "(c, pc) = (d, pc1) \<or> (c, pc) \<in> set (sy_deliveries s)" using \<open>(c, pc) \<in> set (sy_deliveries s')\<close> by auto
    then show ?thesis
    proof
      assume "(c, pc) = (d, pc1)"
      then have "past_activation pc0 \<or> pointer_held c r'"
        using delivery_step_pointer [OF deliver(3)] continue.prems(2) by simp
      moreover have "(c, pc0) \<in> set (sy_deliveries s)" using deliver(2) \<open>(c, pc) = (d, pc1)\<close> by simp
      ultimately show ?thesis using old deliver(1) by auto
    qed (use old continue.prems(2) in blast)
  qed (use old continue.prems(2) \<open>(c, pc) \<in> set (sy_deliveries s')\<close> in auto)
qed

section \<open>One dispatch\<close>

lemma filter_key:
  "distinct (map k xs) \<Longrightarrow> x \<in> set xs \<Longrightarrow> filter (\<lambda>y. k y = k x \<and> P y) xs = (if P x then [x] else [])"
proof (induction xs)
  case (Cons y ys)
  show ?case
  proof (cases "x = y")
    case True
    then have "filter (\<lambda>z. k z = k x \<and> P z) ys = []" using Cons.prems by (auto simp: filter_empty_conv image_iff)
    then show ?thesis using True by simp
  next
    case False
    then have "k y \<noteq> k x" "x \<in> set ys" using Cons.prems by auto
    then show ?thesis using Cons by simp
  qed
qed simp

definition leased :: "ops_db \<Rightarrow> string \<Rightarrow> string \<Rightarrow> outbox_row \<Rightarrow> bool" where
  "leased db outboxId owner row \<longleftrightarrow> ops_inv db \<and> row \<in> set (db_outbox db) \<and> holds_lease outboxId owner row"

lemma leased_one:
  assumes "leased db outboxId owner row"
  shows "filter (holds_lease outboxId owner) (db_outbox db) = [row]"
proof -
  have "distinct (map ob_outboxId (db_outbox db))" "row \<in> set (db_outbox db)" "ob_outboxId row = outboxId"
    "holds_lease outboxId owner row"
    using assms by (simp_all add: leased_def ops_inv_def outbox_ok_def holds_lease_def)
  with filter_key [of ob_outboxId "db_outbox db" row "\<lambda>y. ob_leaseOwner y = Some owner \<and> ob_deliveredAt y = None"]
  show ?thesis by (simp add: holds_lease_def [abs_def])
qed

lemma update_leased_row:
  assumes "leased db outboxId owner row" "row_update f"
  obtains db' where "update_leased outboxId owner f db = (db', True)" "ops_inv db'" "f row \<in> set (db_outbox db')"
    "db_runs db' = db_runs db" "holds_lease outboxId owner (f row) \<Longrightarrow> leased db' outboxId owner (f row)"
proof -
  let ?db = "db\<lparr>db_outbox := update_where (holds_lease outboxId owner) f (db_outbox db)\<rparr>"
  have "update_leased outboxId owner f db = (?db, True)" using leased_one [OF assms(1)] by (simp add: update_leased_def)
  moreover have inv: "ops_inv ?db" using update_leased_inv [OF assms(2)] assms(1) by (simp add: update_leased_def leased_def)
  moreover have mem: "f row \<in> set (db_outbox ?db)" using assms(1) by (auto simp: leased_def update_where_iff)
  moreover have "leased ?db outboxId owner (f row)" if "holds_lease outboxId owner (f row)"
    using that inv mem by (simp add: leased_def)
  ultimately show ?thesis using that [of ?db] by simp
qed

definition runs_checked :: "int \<Rightarrow> ops_db \<Rightarrow> bool" where
  "runs_checked now db \<longleftrightarrow> (\<forall>run \<in> set (db_runs db). run_checks run \<and> ru_startedAt run \<le> now)"

lemma find_filter: "filter p xs = [x] \<Longrightarrow> List.find p xs = Some x"
  by (induction xs) (auto split: if_splits)

lemma publish_run_checked:
  assumes "runs_checked now db"
  obtains runs where "publish_run now row db = Inr (db\<lparr>db_runs := runs\<rparr>)"
proof -
  have "run_checks (r\<lparr>ru_status := Run_published, ru_publicationId := Some (ob_publicationId row),
      ru_completedAt := Some (coalesce (ru_completedAt r) now), ru_updatedAt := now\<rparr>)" if "r \<in> set (db_runs db)" for r
    using assms that by (cases "ru_completedAt r") (auto simp: runs_checked_def run_checks_def)
  then show ?thesis using that unfolding publish_run_def Let_def by (auto simp: list_all_iff)
qed

lemma deliver_leased_row:
  assumes "leased db outboxId owner row" "runs_checked now db"
  obtains db' where "markDataPublicationOutboxDelivered now outboxId owner db = Inr (db', True)"
    "delivered_row now row \<in> set (db_outbox db')"
proof -
  let ?hit = "holds_lease outboxId owner"
  let ?db1 = "db\<lparr>db_outbox := update_where ?hit (delivered_row now) (db_outbox db)\<rparr>"
  have find: "List.find ?hit (db_outbox db) = Some row" by (rule find_filter) (rule leased_one [OF assms(1)])
  then have "row \<in> set (db_outbox db)" "?hit row" by (auto simp: find_Some_iff)
  then have mem: "delivered_row now row \<in> set (db_outbox ?db1)" by (auto simp: update_where_iff)
  have "runs_checked now ?db1" using assms(2) by (simp add: runs_checked_def)
  then obtain runs where "publish_run now row ?db1 = Inr (?db1\<lparr>db_runs := runs\<rparr>)" by (rule publish_run_checked)
  with find have "markDataPublicationOutboxDelivered now outboxId owner db = Inr (?db1\<lparr>db_runs := runs\<rparr>, True)"
    unfolding markDataPublicationOutboxDelivered_def mark_delivered_def by simp
  with mem show ?thesis using that by simp
qed

lemma claim_single:
  assumes "ops_inv db" "row \<in> set (db_outbox db)" "claimable None now row" "ob_publicationId row = p" "p \<noteq> []"
    "ob_outboxId row \<notin> locked" "loadPreparedPublication env db p (ob_manifest row) = Inr (m, items)"
  obtains db1 where
    "claimDataPublicationOutbox env owner locked now (Some 1) None (Some p) db = Inr (db1,
       [\<lparr>cl_outboxId = ob_outboxId row, cl_owner = owner, cl_publicationId = p, cl_manifest = m, cl_items = items\<rparr>])"
    "leased db1 (ob_outboxId row) owner (leased_row owner now 60000 row)" "db_runs db1 = db_runs db"
proof -
  have d: "distinct (map ob_publicationId (db_outbox db))" using assms(1) by (simp add: ops_inv_def outbox_ok_def)
  have hits: "filter (\<lambda>row. claimable (Some p) now row \<and> ob_outboxId row \<notin> locked) (db_outbox db) = [row]"
    using filter_key [OF d assms(2), of "\<lambda>y. claimable None now y \<and> ob_outboxId y \<notin> locked"] assms(3-6)
    by (simp add: claimable_def conj_ac)
  let ?db1 = "db\<lparr>db_outbox := update_where (\<lambda>r. ob_outboxId r = ob_outboxId row) (leased_row owner now 60000) (db_outbox db)\<rparr>"
  have "claimDataPublicationOutbox env owner locked now (Some 1) None (Some p) db = Inr (?db1,
       [\<lparr>cl_outboxId = ob_outboxId row, cl_owner = owner, cl_publicationId = p, cl_manifest = m, cl_items = items\<rparr>])"
    unfolding claimDataPublicationOutbox_def hits using assms(4,7)
    by (simp add: js_sort_def is_safe_integer_def claim_one_def)
  moreover have "ob_deliveredAt row = None" using assms(3) by (simp add: claimable_def)
  then have "leased ?db1 (ob_outboxId row) owner (leased_row owner now 60000 row)"
    using leased_row_inv [OF assms(1,2)] assms(2)
    by (auto simp: leased_def holds_lease_def update_where_iff) (auto simp: leased_row_def)
  ultimately show ?thesis using that by simp
qed

text \<open>Staging writes every payload that is not there yet.\<close>

abbreviation stage_items :: "serialized_item list \<Rightarrow> redis \<Rightarrow> redis" where
  "stage_items items \<equiv> fold (\<lambda>(i, payload). redis_set_nx (mi_key i) payload DATA_PUBLICATION_STAGING_TTL_MS) items"

lemma get_set_nx: "0 \<le> ttl \<Longrightarrow>
   redis_get (redis_set_nx k v ttl r) k' = (if k' = k \<and> redis_get r k = None then Some v else redis_get r k')"
  by (simp add: redis_get_def entry_set_nx)

lemma stage_other:
  "k \<notin> (\<lambda>s. mi_key (fst s)) ` set items \<Longrightarrow> redis_get (stage_items items r) k = redis_get r k"
  by (induction items arbitrary: r) (auto simp: get_set_nx retired_ttl_nonneg)

lemma stage_items_get:
  assumes "distinct (map (mi_key \<circ> fst) items)" "(i, payload) \<in> set items" "redis_get r (mi_key i) \<in> {None, Some payload}"
  shows "redis_get (stage_items items r) (mi_key i) = Some payload"
  using assms
proof (induction items arbitrary: r)
  case (Cons s items)
  obtain j p where s: "s = (j, p)" by fastforce
  show ?case
  proof (cases "(i, payload) = s")
    case True
    then have "mi_key i \<notin> (\<lambda>s. mi_key (fst s)) ` set items"
      using Cons.prems(1) True [symmetric] by (simp add: comp_def)
    then show ?thesis using Cons.prems(3) True by (auto simp: stage_other get_set_nx retired_ttl_nonneg)
  next
    case False
    then have "(i, payload) \<in> set items" using Cons.prems(2) by simp
    then have "mi_key i \<noteq> mi_key j" using Cons.prems(1) s by force
    then show ?thesis using Cons s \<open>(i, payload) \<in> set items\<close> by (simp add: get_set_nx retired_ttl_nonneg)
  qed
qed simp

text \<open>A loaded publication matches its manifest.\<close>

lemma load_item_shape:
  assumes "load_item env m rows i = Inr s"
  shows "fst s = i \<and> int (length (snd s)) = mi_bytes i \<and> pe_sha256 env (snd s) = mi_sha256 i"
  using assms unfolding load_item_def
  by (auto simp: find_Some_iff matches_proof_def split: option.splits sum.splits if_splits)

lemma res_map_shape:
  "res_map f xs = Inr ys \<Longrightarrow> (\<And>x y. f x = Inr y \<Longrightarrow> P x y) \<Longrightarrow> list_all2 P xs ys"
  by (induction xs arbitrary: ys) (auto simp: res_bind_Inr_iff)

lemma load_shape:
  assumes "loadPreparedPublication env db p v = Inr (m, items)" "outbox_row_ok pubs row" "ob_manifest row = v"
  shows "manifest_ok env m \<and> map fst items = mf_items m \<and>
    (\<forall>(i, payload) \<in> set items. int (length payload) = mi_bytes i) \<and> distinct (map (mi_key \<circ> fst) items)"
proof -
  obtain m0 where m0: "v = stored_manifest m0" using assms(2,3) by (auto simp: outbox_row_ok_def)
  obtain load: "parse_stored_manifest env v = Some m" "res_map (load_item env m (items_of p db)) (mf_items m) = Inr items"
    using assms(1) by (auto simp: loadPreparedPublication_def res_bind_Inr_iff split: option.splits)
  have ok: "manifest_ok env m" using load(1) m0 parse_stored_Some by blast
  have each: "list_all2 (\<lambda>i s. fst s = i \<and> int (length (snd s)) = mi_bytes i) (mf_items m) items"
    by (rule res_map_shape [OF load(2)]) (use load_item_shape in blast)
  then have fst: "map fst items = mf_items m" by (induction rule: list_all2_induct) auto
  have len: "\<forall>s \<in> set items. int (length (snd s)) = mi_bytes (fst s)" using each by (induction rule: list_all2_induct) auto
  have key: "dataPublicationItemKey (manifest_scope m) (mf_revision m) (mi_name i) = Inr (mi_key i)"
    if "i \<in> set (mf_items m)" for i
    using ok that by (simp add: manifest_ok_def manifest_item_ok_def list_all_iff)
  have "inj_on mi_key (set (mf_items m))"
  proof (rule inj_onI)
    fix i j assume ij: "i \<in> set (mf_items m)" "j \<in> set (mf_items m)" "mi_key i = mi_key j"
    have "mi_name i = mi_name j" using item_key_inj [OF key [OF ij(1)]] key [OF ij(2)] ij(3) by simp
    with ij show "i = j" using ok by (auto simp: manifest_ok_def distinct_map inj_on_def)
  qed
  then have "distinct (map mi_key (mf_items m))" using ok by (auto simp: manifest_ok_def distinct_map)
  then have "distinct (map (mi_key \<circ> fst) items)" using fst by (metis map_map)
  then show ?thesis using ok fst len by (simp add: case_prod_beta)
qed

lemma check_stage_complete:
  "(\<And>i. i \<in> set is \<Longrightarrow> mi_type i = ''string'' \<and> (\<exists>payload. redis_get r (mi_key i) = Some payload \<and> int (length payload) = mi_bytes i)) \<Longrightarrow>
   check_stage r is = None"
  by (induction "is") fastforce+

text \<open>The state of a pointer at which a delivery is not an error.\<close>

definition superseded :: "manifest \<Rightarrow> manifest option \<Rightarrow> bool" where
  "superseded m current \<longleftrightarrow>
     (case current of None \<Rightarrow> False | Some old \<Rightarrow> mf_publicationId old \<noteq> mf_publicationId m \<and> \<not> newer old m)"

definition pointer_readable :: "publication_env \<Rightarrow> manifest \<Rightarrow> string \<Rightarrow> redis \<Rightarrow> bool" where
  "pointer_readable env m key r \<longleftrightarrow>
     (case redis_get r key of
        None \<Rightarrow> True
      | Some raw \<Rightarrow>
          (case lua_manifest raw of
             None \<Rightarrow> False
           | Some old \<Rightarrow> mf_publicationId old = mf_publicationId m \<longrightarrow>
               same_publication old m \<and> parseDataPublicationManifest env (Some raw) \<noteq> None))"

lemma activate_outcome:
  assumes "check_stage r (mf_items m) = None" "pointer_readable env m key r"
    "activeDataPublicationKey (manifest_scope m) = Inr key"
  obtains result r' where "activateDataPublicationPointer env m r = (Inr result, r')"
    "ps_status result = Status_stale \<longleftrightarrow> superseded m (active_manifest r key)"
    "superseded m (active_manifest r key) \<longrightarrow> r' = r"
proof (cases "redis_get r key")
  case None
  with assms show ?thesis
    by (intro that) (auto simp: activateDataPublicationPointer_def activate_script_def active_manifest_def superseded_def)
next
  case (Some raw)
  then obtain old where old: "lua_manifest raw = Some old"
    "mf_publicationId old = mf_publicationId m \<Longrightarrow>
      same_publication old m \<and> parseDataPublicationManifest env (Some raw) \<noteq> None"
    using assms(2) by (auto simp: pointer_readable_def split: option.splits)
  show ?thesis
  proof (cases "mf_publicationId old = mf_publicationId m")
    case True
    from old(2) [OF this] obtain active where "same_publication old m"
      "parseDataPublicationManifest env (Some raw) = Some active" by blast
    with True assms Some old(1) show ?thesis
      by (intro that) (auto simp: activateDataPublicationPointer_def activate_script_def active_manifest_def superseded_def)
  next
    case False
    then have sup: "superseded m (active_manifest r key) \<longleftrightarrow> \<not> newer old m"
      using Some old(1) by (simp add: superseded_def active_manifest_def)
    show ?thesis
    proof (cases "newer old m")
      case True
      with False assms Some old(1) show ?thesis
        by (intro that) (auto simp: activateDataPublicationPointer_def activate_script_def sup newer_iff)
    next
      case stale: False
      then have "activate_script key m DATA_PUBLICATION_RETIRED_TTL_MS r = (Stale raw, r)"
        using False assms(1) Some old(1) unfolding newer_iff by (auto simp: activate_script_def)
      with stale assms(3) sup show ?thesis by (intro that) (auto simp: activateDataPublicationPointer_def)
    qed
  qed
qed

lemma staged_complete:
  assumes "manifest_ok env m" "map fst items = mf_items m" "\<forall>(i, payload) \<in> set items. int (length payload) = mi_bytes i"
    "distinct (map (mi_key \<circ> fst) items)" "\<And>i payload. (i, payload) \<in> set items \<Longrightarrow> redis_get r (mi_key i) \<in> {None, Some payload}"
  shows "stageDataPublicationItems m items r = (Inr (), stage_items items r) \<and>
    check_stage (stage_items items r) (mf_items m) = None"
proof -
  have get: "redis_get (stage_items items r) (mi_key i) = Some payload" if "(i, payload) \<in> set items" for i payload
    using stage_items_get [OF assms(4) that assms(5) [OF that]] .
  have "map (mi_name \<circ> fst) items = map mi_name (mf_items m)" using assms(2) by (metis map_map)
  then have "stageDataPublicationItems m items r = (Inr (), stage_items items r)"
    using get assms(1) by (simp add: stageDataPublicationItems_def list_all_iff manifest_ok_def case_prod_beta)
  moreover have "check_stage (stage_items items r) (mf_items m) = None"
  proof (rule check_stage_complete)
    fix i assume i: "i \<in> set (mf_items m)"
    then obtain payload where p: "(i, payload) \<in> set items" using assms(2) by (metis (no_types) imageE list.set_map prod.collapse)
    have "mi_type i = ''string''" using i assms(1) by (simp add: manifest_ok_def manifest_item_ok_def list_all_iff)
    then show "mi_type i = ''string'' \<and> (\<exists>payload. redis_get (stage_items items r) (mi_key i) = Some payload \<and> int (length payload) = mi_bytes i)"
      using get [OF p] p assms(3) by auto
  qed
  ultimately show ?thesis ..
qed

lemma run_delivery_steps:
  "run_delivery env describe now c st = (\<lambda>(pc, st). delivery_step env describe now c pc st) (
     (\<lambda>(pc, st). delivery_step env describe now c pc st) ((\<lambda>(pc, st). delivery_step env describe now c pc st) (
     (\<lambda>(pc, st). delivery_step env describe now c pc st) ((\<lambda>(pc, st). delivery_step env describe now c pc st)
       (delivery_step env describe now c Stage_payloads st)))))"
  by (simp add: run_delivery_def eval_nat_numeral)

lemma run_leased:
  assumes "leased db (cl_outboxId c) (cl_owner c) row" "runs_checked now db" "cl_manifest c = m" "cl_items c = items"
    and staged: "stageDataPublicationItems m items r = (Inr (), r1)" "check_stage r1 (mf_items m) = None"
    and pointer: "pointer_readable env m key r1" "activeDataPublicationKey (manifest_scope m) = Inr key"
  shows "if superseded m (active_manifest r1 key)
    then \<exists>db'. run_delivery env describe now c (db, r) = (Done (Failed Redis_publication_newer), db', r1) \<and>
      (\<exists>row' \<in> set (db_outbox db'). ob_publicationId row' = ob_publicationId row \<and> ob_status row' = Out_failed)
    else \<exists>db' r'. run_delivery env describe now c (db, r) = (Done Delivered, db', r') \<and>
      (\<exists>row' \<in> set (db_outbox db'). ob_publicationId row' = ob_publicationId row \<and> ob_status row' = Out_delivered \<and>
        ob_deliveredAt row' = Some now) \<and>
      (\<exists>a. active_manifest r' key = Some a \<and> mf_publicationId a = mf_publicationId m \<and> same_publication a m)"
proof -
  let ?s1 = "\<lambda>row. row\<lparr>ob_status := Out_staged, ob_stagedAt := Some (coalesce (ob_stagedAt row) now), ob_updatedAt := now\<rparr>"
  let ?s2 = "\<lambda>row. row\<lparr>ob_status := Out_redis_activated, ob_redisActivatedAt := Some (coalesce (ob_redisActivatedAt row) now), ob_updatedAt := now\<rparr>"
  let ?step = "delivery_step env describe now c"
  have held: "holds_lease (cl_outboxId c) (cl_owner c) row" "ob_deliveredAt row = None"
    using assms(1) by (simp_all add: leased_def holds_lease_def)
  obtain db1 where db1: "update_leased (cl_outboxId c) (cl_owner c) ?s1 db = (db1, True)" "db_runs db1 = db_runs db"
    "leased db1 (cl_outboxId c) (cl_owner c) (?s1 row)"
    by (rule update_leased_row [OF assms(1) row_updates(1)]) (use held in \<open>auto simp: holds_lease_def\<close>)
  have step1: "?step Stage_payloads (db, r) = (Mark_staged, db, r1)" using staged(1) assms(3,4) by simp
  have step2: "?step Mark_staged (db, r1) = (Activate_pointer, db1, r1)"
    using db1(1) by (simp add: markDataPublicationOutboxStage_def)
  obtain result r2 where act: "activateDataPublicationPointer env m r1 = (Inr result, r2)"
    "ps_status result = Status_stale \<longleftrightarrow> superseded m (active_manifest r1 key)"
    "superseded m (active_manifest r1 key) \<longrightarrow> r2 = r1" by (rule activate_outcome [OF staged(2) pointer])
  show ?thesis
  proof (cases "superseded m (active_manifest r1 key)")
    case True
    let ?f = "\<lambda>row. row\<lparr>ob_status := Out_failed, ob_leaseOwner := None, ob_leaseExpiresAt := None,
          ob_lastError := Some (take 4000 (describe Redis_publication_newer)), ob_updatedAt := now\<rparr>"
    obtain db2 where db2: "update_leased (cl_outboxId c) (cl_owner c) ?f db1 = (db2, True)" "?f (?s1 row) \<in> set (db_outbox db2)"
      by (rule update_leased_row [OF db1(3) row_updates(4)]) auto
    have "?step Activate_pointer (db1, r1) = (Recover Redis_publication_newer, db1, r1)" using act True assms(3) by simp
    moreover have "?step (Recover Redis_publication_newer) (db1, r1) = (Done (Failed Redis_publication_newer), db2, r1)"
      using db2(1) by (simp add: failDataPublicationOutbox_def)
    ultimately have "run_delivery env describe now c (db, r) = (Done (Failed Redis_publication_newer), db2, r1)"
      unfolding run_delivery_steps step1 using step2 by simp
    moreover have "\<exists>row' \<in> set (db_outbox db2). ob_publicationId row' = ob_publicationId row \<and> ob_status row' = Out_failed"
      using db2(2) by (rule bexI [rotated]) simp
    ultimately show ?thesis using True by auto
  next
    case False
    have step3: "?step Activate_pointer (db1, r1) = (Mark_activated, db1, r2)" using act False assms(3) by simp
    obtain db2 where db2: "update_leased (cl_outboxId c) (cl_owner c) ?s2 db1 = (db2, True)" "db_runs db2 = db_runs db1"
      "leased db2 (cl_outboxId c) (cl_owner c) (?s2 (?s1 row))"
      by (rule update_leased_row [OF db1(3) row_updates(2)]) (use held in \<open>auto simp: holds_lease_def\<close>)
    have step4: "?step Mark_activated (db1, r2) = (Mark_delivered, db2, r2)"
      using db2(1) by (simp add: markDataPublicationOutboxStage_def)
    have "runs_checked now db2" using assms(2) db1(2) db2(2) by (simp add: runs_checked_def)
    then obtain db3 where db3: "markDataPublicationOutboxDelivered now (cl_outboxId c) (cl_owner c) db2 = Inr (db3, True)"
      "delivered_row now (?s2 (?s1 row)) \<in> set (db_outbox db3)" by (rule deliver_leased_row [OF db2(3)])
    have step5: "?step Mark_delivered (db2, r2) = (Done Delivered, db3, r2)" using db3(1) by simp
    have "run_delivery env describe now c (db, r) = (Done Delivered, db3, r2)"
      unfolding run_delivery_steps step1 using step2 step3 step4 step5 by simp
    moreover have "\<exists>row' \<in> set (db_outbox db3). ob_publicationId row' = ob_publicationId row \<and> ob_status row' = Out_delivered \<and>
        ob_deliveredAt row' = Some now"
      using db3(2) by (rule bexI [rotated]) (simp add: delivered_row_def held(2))
    moreover have "\<exists>a. active_manifest r2 key = Some a \<and> mf_publicationId a = mf_publicationId m \<and> same_publication a m"
      using act False pointer(2) by (auto elim: activation_holds_pointer)
    ultimately show ?thesis using False by auto
  qed
qed

lemma pointer_key_not_item:
  assumes "manifest_ok env m" "activeDataPublicationKey s = Inr key" "i \<in> set (mf_items m)"
  shows "key \<noteq> mi_key i"
proof -
  have "dataPublicationItemKey (manifest_scope m) (mf_revision m) (mi_name i) = Inr (mi_key i)"
    using assms(1,3) by (simp add: manifest_ok_def manifest_item_ok_def list_all_iff)
  moreover have "mi_name i \<noteq> ''active''"
    using assms(1,3) accepted_names [of "mf_dataset m" "map mi_name (mf_items m)"]
    unfolding manifest_ok_def by (metis imageI list.set_map)
  ultimately show ?thesis using item_key_not_active assms(2) by blast
qed

text \<open>Every delivery ends: each step moves to a later phase, and recovery ends it.\<close>

fun phases_left :: "delivery_pc \<Rightarrow> nat" where
  "phases_left Stage_payloads = 6"
| "phases_left Mark_staged = 5"
| "phases_left Activate_pointer = 4"
| "phases_left Mark_activated = 3"
| "phases_left Mark_delivered = 2"
| "phases_left (Recover _) = 1"
| "phases_left (Done _) = 0"

lemma phases_decrease:
  "delivery_step env describe now c pc st = (pc', st') \<Longrightarrow> phases_left pc' \<le> phases_left pc - 1"
  by (cases st; cases pc) (auto split: prod.splits sum.splits if_splits)

lemma phases_after: "phases_left (fst (((\<lambda>(pc, st). delivery_step env describe now c pc st) ^^ n) (pc, st))) \<le> phases_left pc - n"
proof (induction n)
  case (Suc n)
  obtain pc1 st1 where mid: "((\<lambda>(pc, st). delivery_step env describe now c pc st) ^^ n) (pc, st) = (pc1, st1)"
    by (metis surj_pair)
  obtain pc2 st2 where step: "delivery_step env describe now c pc1 st1 = (pc2, st2)" by (metis surj_pair)
  show ?case using Suc phases_decrease [OF step] mid step by simp
qed simp

lemma phases_done: "phases_left pc = 0 \<Longrightarrow> \<exists>out. pc = Done out"
  by (cases pc) auto


text \<open>
  C24. The tables stay consistent, publications only move forward, and each is delivered at most
  once: in every state that all processes together can reach the invariant holds; whatever happens
  later, an active publication of a scope is only ever replaced by a later revision of that scope;
  and of all deliveries that any number of dispatchers run under expiring leases, at most one per
  revision reports success, which the table records.
\<close>

theorem outbox_invariant:
  assumes "(ops_step env describe)\<^sup>*\<^sup>* (empty_system r0) s" "(ops_step env describe)\<^sup>*\<^sup>* s s'"
  shows "ops_inv (sy_db s') \<and> publications_progress (sy_db s) (sy_db s') \<and>
    distinct (delivered_revisions (sy_deliveries s')) \<and>
    (\<forall>n \<in> set (delivered_revisions (sy_deliveries s')). delivery_recorded (sy_db s') n)"
proof -
  have "sys_inv s" using ops.reach_inv [OF assms(1)] empty_system_inv .
  then show ?thesis using ops.reach_inv [OF assms(2)] ops_progress [OF assms(2)] by (simp add: sys_inv_def)
qed

text \<open>
  C25. Delivery comes after activation: when a delivery reports success, the Redis pointer of its
  scope has held its publication in some earlier state.
\<close>

theorem delivered_after_activation:
  assumes "ops_run env describe h" "(c, Done Delivered) \<in> set (sy_deliveries (last h))"
  shows "\<exists>s \<in> set h. pointer_held c (sy_redis s)"
  by (rule run_pointer [OF assms]) (simp add: past_activation_def)

text \<open>
  C26. A dispatch delivers: asked for an unlocked, due publication whose payloads are intact, an
  undisturbed dispatcher delivers it and leaves it active in Redis, or, if Redis already has a
  newer publication of the scope, fails the row for good.
\<close>

theorem dispatch_delivers:
  assumes "ops_inv db" "row \<in> set (db_outbox db)" "claimable None now row" "ob_publicationId row = p" "p \<noteq> []"
    "ob_outboxId row \<notin> locked" "loadPreparedPublication env db p (ob_manifest row) = Inr (m, items)"
    and "activeDataPublicationKey (manifest_scope m) = Inr key" "runs_checked now db" "pointer_readable env m key r"
    and "\<And>i payload. (i, payload) \<in> set items \<Longrightarrow> redis_get r (mi_key i) \<in> {None, Some payload}"
  shows "if superseded m (active_manifest r key)
    then \<exists>db' r'. dispatchDataPublicationOutbox env describe owner locked now (Some 1) (Some p) (db, r) =
        Inr (\<lparr>dc_claimed = 1, dc_delivered = 0, dc_failed = 1\<rparr>, db', r') \<and>
      (\<exists>row' \<in> set (db_outbox db'). ob_publicationId row' = p \<and> ob_status row' = Out_failed) \<and>
      active_manifest r' key = active_manifest r key
    else \<exists>db' r'. dispatchDataPublicationOutbox env describe owner locked now (Some 1) (Some p) (db, r) =
        Inr (\<lparr>dc_claimed = 1, dc_delivered = 1, dc_failed = 0\<rparr>, db', r') \<and>
      (\<exists>row' \<in> set (db_outbox db'). ob_publicationId row' = p \<and> ob_status row' = Out_delivered \<and> ob_deliveredAt row' = Some now) \<and>
      (\<exists>a. active_manifest r' key = Some a \<and> mf_publicationId a = mf_publicationId m \<and> same_publication a m)"
proof -
  let ?c = "\<lparr>cl_outboxId = ob_outboxId row, cl_owner = owner, cl_publicationId = p, cl_manifest = m, cl_items = items\<rparr>"
  let ?r1 = "stage_items items r"
  note shape = load_shape [OF assms(7) row_facts [OF assms(2,1)] refl]
  obtain db1 where claim: "claimDataPublicationOutbox env owner locked now (Some 1) None (Some p) db = Inr (db1, [?c])"
    "leased db1 (ob_outboxId row) owner (leased_row owner now 60000 row)" "db_runs db1 = db_runs db"
    by (rule claim_single [OF assms(1-7)])
  have staged: "stageDataPublicationItems m items r = (Inr (), ?r1)" "check_stage ?r1 (mf_items m) = None"
    using staged_complete [of env m items r] shape assms(11) by auto
  have "key \<notin> (\<lambda>s. mi_key (fst s)) ` set items"
  proof
    assume "key \<in> (\<lambda>s. mi_key (fst s)) ` set items"
    then obtain i where "i \<in> set (mf_items m)" "key = mi_key i" using shape by (metis (no_types, lifting) image_iff list.set_map)
    then show False using pointer_key_not_item shape assms(8) by blast
  qed
  then have pointer: "redis_get ?r1 key = redis_get r key" by (rule stage_other)
  then have act: "active_manifest ?r1 key = active_manifest r key" "pointer_readable env m key ?r1"
    using assms(10) by (simp_all add: active_manifest_def pointer_readable_def)
  have "runs_checked now db1" using assms(9) claim(3) by (simp add: runs_checked_def)
  then have "if superseded m (active_manifest ?r1 key)
    then \<exists>db'. run_delivery env describe now ?c (db1, r) = (Done (Failed Redis_publication_newer), db', ?r1) \<and>
      (\<exists>row' \<in> set (db_outbox db'). ob_publicationId row' = ob_publicationId (leased_row owner now 60000 row) \<and> ob_status row' = Out_failed)
    else \<exists>db' r'. run_delivery env describe now ?c (db1, r) = (Done Delivered, db', r') \<and>
      (\<exists>row' \<in> set (db_outbox db'). ob_publicationId row' = ob_publicationId (leased_row owner now 60000 row) \<and> ob_status row' = Out_delivered \<and>
        ob_deliveredAt row' = Some now) \<and>
      (\<exists>a. active_manifest r' key = Some a \<and> mf_publicationId a = mf_publicationId m \<and> same_publication a m)"
    by (intro run_leased [OF _ _ _ _ staged act(2) assms(8)]) (use claim(2) in simp_all)
  moreover have "ob_publicationId (leased_row owner now 60000 row) = p" using assms(4) by (simp add: leased_row_def)
  ultimately show ?thesis
    unfolding act(1) dispatchDataPublicationOutbox_def fst_conv claim(1) res_bind_simps
    by (cases "superseded m (active_manifest r key)") (auto simp: act(1))
qed

section \<open>Witnesses\<close>

text \<open>A run that prepares, stages and activates one publication, and its delivery.\<close>

definition sample_input :: publish_input where
  "sample_input = example_input\<lparr>pi_revision := 1\<rparr>"

definition sample_manifest :: manifest where
  "sample_manifest = fst (projr (prepareDataPublication example_env ''2026'' sample_input))"

definition sample_season :: season_ref where
  "sample_season = \<lparr>season_seasonId = 1, season_seasonCode = ''2526''\<rparr>"

definition sample_run :: start_run_input where
  "sample_run = \<lparr>sri_runId = Some ''r'', sri_provider = ''fpl'', sri_lane = ''market'', sri_scope = ''s'',
     sri_season = Some sample_season, sri_eventId = None, sri_mode = ''full'', sri_trigger = ''cron'',
     sri_expectedItems = None, sri_metadata = None, sri_startedAt = None\<rparr>"

definition sample_prepare :: prepare_input where
  "sample_prepare = \<lparr>ppi_publicationId = Some (pi_publicationId sample_input), ppi_dataset = Fpl_market,
     ppi_season = sample_season, ppi_eventId = None, ppi_sourceRunId = ''r'', ppi_manifest = None\<rparr>"

definition sample_proofs :: "item_proof list" where
  "sample_proofs = map2 (\<lambda>i item. \<lparr>ip_name = mi_name i, ip_payload = snd item, ip_count = mi_count i, ip_checksum = mi_sha256 i\<rparr>)
     (mf_items sample_manifest) (pi_items sample_input)"

definition sample_activation :: activate_input where
  "sample_activation = \<lparr>ai_publicationId = pi_publicationId sample_input, ai_dataset = Fpl_market, ai_season = sample_season,
     ai_eventId = None, ai_sourceRunId = ''r'', ai_manifest = sample_manifest, ai_outboxId = Some ''o''\<rparr>"

definition sample_started :: ops_db where "sample_started = snd (startRun [] 10 sample_run empty_db)"
definition sample_prepared :: ops_db where "sample_prepared = snd (preparePublication [] {} 20 sample_prepare sample_started)"
definition sample_staged :: ops_db where
  "sample_staged = projr (stagePublicationItems (pi_publicationId sample_input) sample_proofs sample_prepared)"
definition sample_activated :: ops_db where "sample_activated = projr (activatePublication 30 sample_activation sample_staged)"

lemma sample_operations:
  "\<not> isl (stagePublicationItems (pi_publicationId sample_input) sample_proofs sample_prepared)"
  "\<not> isl (activatePublication 30 sample_activation sample_staged)"
  by code_simp+

lemma sample_steps: "sync_step\<^sup>*\<^sup>* empty_db sample_activated"
proof -
  have "sync_step empty_db sample_started"
    unfolding sample_started_def by (rule sync_step.start_run [OF prod.collapse [symmetric]])
  moreover have "sync_step sample_started sample_prepared"
    unfolding sample_prepared_def by (rule sync_step.prepare [OF prod.collapse [symmetric]])
  moreover have "sync_step sample_prepared sample_staged"
    using sample_operations(1) unfolding sample_staged_def by (intro sync_step.stage) (rule sum.collapse(2) [symmetric])
  moreover have "sync_step sample_staged sample_activated"
    using sample_operations(2) unfolding sample_activated_def by (intro sync_step.activate) (rule sum.collapse(2) [symmetric])
  ultimately show ?thesis by (meson converse_rtranclp_into_rtranclp rtranclp.rtrancl_refl)
qed

lemma database_steps: "sync_step\<^sup>*\<^sup>* (sy_db s) db' \<Longrightarrow> (ops_step env describe)\<^sup>*\<^sup>* s (s\<lparr>sy_db := db'\<rparr>)"
proof (induction rule: rtranclp_induct)
  case (step db1 db2)
  from step.IH ops_step.database [of "s\<lparr>sy_db := db1\<rparr>" db2] step.hyps(2) show ?case
    by (auto intro: rtranclp.rtrancl_into_rtrancl)
qed simp

lemma delivery_steps:
  "((\<lambda>(pc, st). delivery_step env describe now c pc st) ^^ n) (pc, sy_db s, sy_redis s) = (pc', db', r') \<Longrightarrow>
   sy_deliveries s = [(c, pc)] \<Longrightarrow>
   (ops_step env describe)\<^sup>*\<^sup>* s \<lparr>sy_db = db', sy_redis = r', sy_deliveries = [(c, pc')]\<rparr>"
proof (induction n arbitrary: pc' db' r')
  case (Suc n)
  obtain pc1 db1 r1 where mid:
    "((\<lambda>(pc, st). delivery_step env describe now c pc st) ^^ n) (pc, sy_db s, sy_redis s) = (pc1, db1, r1)" by (metis surj_pair)
  note ih = Suc.IH [OF mid Suc.prems(2)]
  have step: "delivery_step env describe now c pc1 (db1, r1) = (pc', db', r')" using Suc.prems(1) mid by simp
  have "ops_step env describe \<lparr>sy_db = db1, sy_redis = r1, sy_deliveries = [(c, pc1)]\<rparr>
      \<lparr>sy_db = db', sy_redis = r', sy_deliveries = [(c, pc')]\<rparr>"
    using ops_step.deliver [of "\<lparr>sy_db = db1, sy_redis = r1, sy_deliveries = [(c, pc1)]\<rparr>" "[]" c pc1 "[]"] step by simp
  then show ?case by (rule rtranclp.rtrancl_into_rtrancl [OF ih])
qed (cases s, simp)

definition sample_claim :: "(outbox_error, ops_db \<times> claimed_row list) result" where
  "sample_claim = claimDataPublicationOutbox example_env ''d'' {} 40 (Some 1) None (Some (pi_publicationId sample_input)) sample_activated"

definition sample_claimed :: claimed_row where "sample_claimed = hd (snd (projr sample_claim))"

definition sample_delivery :: "delivery_pc \<times> stores" where
  "sample_delivery = run_delivery example_env (\<lambda>_. ''e'') 50 sample_claimed (fst (projr sample_claim), empty_redis)"

lemma sample_claim_ok: "sample_claim = Inr (fst (projr sample_claim), [sample_claimed])"
proof -
  have "\<not> isl sample_claim \<and> length (snd (projr sample_claim)) = 1" by code_simp
  then have inr: "sample_claim = Inr (projr sample_claim)" and one: "length (snd (projr sample_claim)) = 1" by simp_all
  from one have "snd (projr sample_claim) = [sample_claimed]" by (auto simp: sample_claimed_def length_Suc_conv)
  with inr show ?thesis by (metis prod.collapse)
qed

lemma sample_delivery_ok: "fst sample_delivery = Done Delivered" "mf_revision (cl_manifest sample_claimed) = 1"
  by code_simp+

definition sample_final :: system where
  "sample_final = \<lparr>sy_db = fst (snd sample_delivery), sy_redis = snd (snd sample_delivery),
     sy_deliveries = [(sample_claimed, Done Delivered)]\<rparr>"

lemma sample_reaches:
  "(ops_step example_env (\<lambda>_. ''e''))\<^sup>*\<^sup>* (empty_system empty_redis) (empty_system empty_redis\<lparr>sy_db := sample_activated\<rparr>)"
  "(ops_step example_env (\<lambda>_. ''e''))\<^sup>*\<^sup>* (empty_system empty_redis\<lparr>sy_db := sample_activated\<rparr>) sample_final"
proof -
  let ?s = "empty_system empty_redis\<lparr>sy_db := sample_activated\<rparr>"
  let ?t = "\<lparr>sy_db = fst (projr sample_claim), sy_redis = empty_redis, sy_deliveries = [(sample_claimed, Stage_payloads)]\<rparr>"
  show "(ops_step example_env (\<lambda>_. ''e''))\<^sup>*\<^sup>* (empty_system empty_redis) ?s"
    by (rule database_steps) (simp add: empty_system_def sample_steps)
  have "list_all (\<lambda>row. ob_leaseOwner row \<noteq> Some ''d'') (db_outbox sample_activated)" by code_simp
  then have "ops_step example_env (\<lambda>_. ''e'') ?s (?s\<lparr>sy_db := fst (projr sample_claim),
      sy_deliveries := sy_deliveries ?s @ map (\<lambda>c. (c, Stage_payloads)) [sample_claimed]\<rparr>)"
    by (intro ops_step.claim) (use sample_claim_ok in \<open>auto simp: sample_claim_def empty_system_def list_all_iff\<close>)
  then have "ops_step example_env (\<lambda>_. ''e'') ?s ?t" by (simp add: empty_system_def)
  moreover have "sample_delivery = (Done Delivered, fst (snd sample_delivery), snd (snd sample_delivery))"
    using sample_delivery_ok(1) by (metis prod.collapse)
  then have "(ops_step example_env (\<lambda>_. ''e''))\<^sup>*\<^sup>* ?t sample_final"
    unfolding sample_final_def sample_delivery_def run_delivery_def
    by (intro delivery_steps [where pc = Stage_payloads and n = 6]) simp_all
  ultimately show "(ops_step example_env (\<lambda>_. ''e''))\<^sup>*\<^sup>* ?s sample_final" by (rule converse_rtranclp_into_rtranclp)
qed

lemma run_reaches:
  "(ops_step env describe)\<^sup>*\<^sup>* (empty_system r) s \<Longrightarrow> \<exists>h. ops_run env describe h \<and> last h = s"
proof (induction rule: rtranclp_induct)
  case base
  show ?case using ops_run.start by (intro exI [of _ "[empty_system r]"]) simp
next
  case (step s s')
  then obtain h where h: "ops_run env describe h" "last h = s" by blast
  have "h \<noteq> []" using h(1) by (induction rule: ops_run.induct) auto
  then obtain h' where "h = h' @ [s]" using h(2) append_butlast_last_id by metis
  with ops_run.continue [of env describe h' s s'] h(1) step.hyps(2)
  show ?case by (intro exI [of _ "h' @ [s, s']"]) simp
qed

theorem outbox_invariant_witness:
  "ops_inv (sy_db sample_final) \<and> publications_progress sample_activated (sy_db sample_final) \<and> delivery_recorded (sy_db sample_final) 1"
  using outbox_invariant [OF sample_reaches] sample_delivery_ok(2) by (simp add: sample_final_def delivered_revisions_def)

theorem delivered_after_activation_witness:
  "\<exists>h. ops_run example_env (\<lambda>_. ''e'') h \<and> last h = sample_final \<and> (\<exists>s \<in> set h. pointer_held sample_claimed (sy_redis s))"
proof -
  obtain h where h: "ops_run example_env (\<lambda>_. ''e'') h" "last h = sample_final"
    using run_reaches [OF rtranclp_trans [OF sample_reaches]] by blast
  have "(sample_claimed, Done Delivered) \<in> set (sy_deliveries (last h))" using h(2) by (simp add: sample_final_def)
  from delivered_after_activation [OF h(1) this] h show ?thesis by blast
qed

definition sample_row :: outbox_row where "sample_row = hd (db_outbox sample_activated)"

definition sample_loaded :: "manifest \<times> serialized_item list" where
  "sample_loaded = projr (loadPreparedPublication example_env sample_activated (pi_publicationId sample_input) (ob_manifest sample_row))"

theorem dispatch_delivers_witness:
  "\<exists>db' r' a. dispatchDataPublicationOutbox example_env (\<lambda>_. ''e'') ''d'' {} 40 (Some 1) (Some (pi_publicationId sample_input))
      (sample_activated, empty_redis) = Inr (\<lparr>dc_claimed = 1, dc_delivered = 1, dc_failed = 0\<rparr>, db', r') \<and>
    active_manifest r' example_key = Some a \<and> mf_publicationId a = pi_publicationId sample_input"
proof -
  let ?p = "pi_publicationId sample_input"
  have inv: "ops_inv sample_activated" using sync.reach_inv [OF sample_steps empty_db_inv] .
  have checks: "db_outbox sample_activated \<noteq> [] \<and> claimable None 40 sample_row \<and> ob_publicationId sample_row = ?p \<and> ?p \<noteq> [] \<and>
    list_all (\<lambda>run. run_checks run \<and> ru_startedAt run \<le> 40) (db_runs sample_activated)" by code_simp
  have loaded: "\<not> isl (loadPreparedPublication example_env sample_activated ?p (ob_manifest sample_row)) \<and>
    activeDataPublicationKey (manifest_scope (fst sample_loaded)) = Inr example_key \<and> mf_publicationId (fst sample_loaded) = ?p"
    by code_simp
  have row: "sample_row \<in> set (db_outbox sample_activated)" using checks by (simp add: sample_row_def)
  have load: "loadPreparedPublication example_env sample_activated ?p (ob_manifest sample_row) = Inr (fst sample_loaded, snd sample_loaded)"
    using loaded unfolding sample_loaded_def by (metis prod.collapse sum.collapse(2))
  have empty: "redis_get empty_redis k = None" for k by (simp add: redis_get_def redis_entry_def empty_redis_def)
  have "\<not> superseded (fst sample_loaded) (active_manifest empty_redis example_key)"
    by (simp add: superseded_def active_manifest_def empty)
  moreover have "runs_checked 40 sample_activated" using checks by (simp add: runs_checked_def list_all_iff)
  moreover have "pointer_readable example_env (fst sample_loaded) example_key empty_redis" by (simp add: pointer_readable_def empty)
  ultimately show ?thesis
    using dispatch_delivers [OF inv row _ _ _ _ load, of 40 "{}" example_key empty_redis "\<lambda>_. ''e''" "''d''"] checks loaded empty
    by auto
qed

end
