(* ===== verification/Reconciler.thy ===== *)
theory Reconciler
  imports OutboxDelivery
begin

text \<open>
  The reconciler of the two stores (\<open>src/src/services/data-publication-reconciler.ts\<close>): it compares
  the active publication of the database with the Redis pointer and repairs the latter.
\<close>

section \<open>Reconciling one scope\<close>

datatype reconciliation_status = Rec_matched | Rec_repaired | Rec_ghost | Rec_missing | Rec_failed

record reconciliation =
  rec_status :: reconciliation_status
  rec_dataset :: publication_dataset
  rec_publicationId :: "string option"

datatype reconcile_error =
    Outbox_failure outbox_error
  | Pointer_changed

text \<open>
  What the surroundings provide in one pass: the environment of publications, the text of an
  error, two fresh identifiers, the rows other transactions hold and the database clock.
\<close>

record reconcile_env =
  rv_env :: publication_env
  rv_describe :: "outbox_error \<Rightarrow> string"
  rv_outboxId :: string
  rv_owner :: string
  rv_locked :: "string set"
  rv_now :: int

definition dispatch_one ::
  "reconcile_env \<Rightarrow> string \<Rightarrow> stores \<Rightarrow> (outbox_error, dispatch_counts \<times> stores) result" where
  "dispatch_one v publicationId =
     dispatchDataPublicationOutbox (rv_env v) (rv_describe v) (rv_owner v) (rv_locked v) (rv_now v) (Some 1) (Some publicationId)"

text \<open>
  A publication left in staging is activated and dispatched. The result is None when an error
  before the activation is only logged.
\<close>

definition recover_staging ::
  "reconcile_env \<Rightarrow> publication_scope \<Rightarrow> season_ref \<Rightarrow> staging_publication \<Rightarrow> stores
   \<Rightarrow> (reconcile_error, reconciliation) result option \<times> stores" where
  "recover_staging v scope season staging st =
     (let (db, r) = st in
      case loadDataPublicationDelivery (rv_env v) (sp_publicationId staging) db of
        Inl _ \<Rightarrow> (None, db, r)
      | Inr (m, items) \<Rightarrow>
          (case stageDataPublicationItems m items r of
             (Inl _, r1) \<Rightarrow> (None, db, r1)
           | (Inr _, r1) \<Rightarrow>
               (case activatePublication (rv_now v)
                       \<lparr>ai_publicationId = sp_publicationId staging, ai_dataset = sc_dataset scope, ai_season = season,
                        ai_eventId = sc_eventId scope, ai_sourceRunId = sp_sourceRunId staging, ai_manifest = m,
                        ai_outboxId = Some (rv_outboxId v)\<rparr> db of
                  Inl _ \<Rightarrow> (None, db, r1)
                | Inr db1 \<Rightarrow>
                    (case dispatch_one v (sp_publicationId staging) (db1, r1) of
                       Inl e \<Rightarrow> (Some (Inl (Outbox_failure e)), db1, r1)
                     | Inr (_, st2) \<Rightarrow>
                         (Some (Inr \<lparr>rec_status = Rec_repaired, rec_dataset = sc_dataset scope,
                            rec_publicationId = Some (sp_publicationId staging)\<rparr>), st2)))))"

text \<open>The pointer is moved directly when no receipt could be delivered.\<close>

definition move_pointer ::
  "reconcile_env \<Rightarrow> publication_scope \<Rightarrow> manifest option \<Rightarrow> manifest \<Rightarrow> redis \<Rightarrow> (reconcile_error, unit) result \<times> redis" where
  "move_pointer v scope redisActive canonical r =
     (case redisActive of
        None \<Rightarrow>
          (case activateDataPublicationPointer (rv_env v) canonical r of
             (Inl e, r1) \<Rightarrow> (Inl (Outbox_failure (Cache_failure e)), r1)
           | (Inr activated, r1) \<Rightarrow>
               (if ps_status activated = Status_stale then Inl Pointer_changed else Inr (), r1))
      | Some current \<Rightarrow>
          (case compareAndSwapDataPublicationPointer scope (mf_publicationId current) (Some canonical) r of
             (Inl e, r1) \<Rightarrow> (Inl (Outbox_failure (Cache_failure e)), r1)
           | (Inr result, r1) \<Rightarrow> (if result \<noteq> Swap_replaced then Inl Pointer_changed else Inr (), r1)))"

definition repaired_result :: "manifest \<Rightarrow> publication_scope \<Rightarrow> reconciliation" where
  "repaired_result canonical scope =
     \<lparr>rec_status = Rec_repaired, rec_dataset = sc_dataset scope, rec_publicationId = Some (mf_publicationId canonical)\<rparr>"

definition repair_directly ::
  "reconcile_env \<Rightarrow> publication_scope \<Rightarrow> string \<Rightarrow> manifest option \<Rightarrow> manifest \<times> serialized_item list \<Rightarrow> stores
   \<Rightarrow> (reconcile_error, reconciliation) result \<times> stores" where
  "repair_directly v scope publicationId redisActive canonical st =
     (let (db, r) = st; (m, items) = canonical in
      case stageDataPublicationItems m items r of
        (Inl e, r1) \<Rightarrow> (Inl (Outbox_failure (Cache_failure e)), db, r1)
      | (Inr _, r1) \<Rightarrow>
          (case move_pointer v scope redisActive m r1 of
             (Inl e, r2) \<Rightarrow> (Inl e, db, r2)
           | (Inr _, r2) \<Rightarrow>
               (case markDataPublicationOutboxReconciled (rv_now v) publicationId db of
                  Inl e \<Rightarrow> (Inl (Outbox_failure e), db, r2)
                | Inr (db1, _) \<Rightarrow> (Inr (repaired_result m scope), db1, r2))))"

definition repair_active ::
  "reconcile_env \<Rightarrow> publication_scope \<Rightarrow> prepared_row \<Rightarrow> manifest option \<Rightarrow> stores
   \<Rightarrow> (reconcile_error, reconciliation) result \<times> stores" where
  "repair_active v scope dbActive redisActive st =
     (case loadDataPublicationDelivery (rv_env v) (pp_publicationId dbActive) (fst st) of
        Inl e \<Rightarrow> (Inl (Outbox_failure e), st)
      | Inr (m, items) \<Rightarrow>
          if map_option mf_publicationId redisActive = Some (mf_publicationId m) \<and>
             map_option mf_revision redisActive = Some (mf_revision m)
          then (Inr \<lparr>rec_status = Rec_matched, rec_dataset = sc_dataset scope, rec_publicationId = Some (mf_publicationId m)\<rparr>, st)
          else
            (case dispatch_one v (pp_publicationId dbActive) st of
               Inl e \<Rightarrow> (Inl (Outbox_failure e), st)
             | Inr (counts, st1) \<Rightarrow>
                 if dc_delivered counts = 1 then (Inr (repaired_result m scope), st1)
                 else repair_directly v scope (pp_publicationId dbActive) redisActive (m, items) st1))"

definition reconcile_active ::
  "reconcile_env \<Rightarrow> publication_scope \<Rightarrow> prepared_row option \<Rightarrow> manifest option \<Rightarrow> stores
   \<Rightarrow> (reconcile_error, reconciliation) result \<times> stores" where
  "reconcile_active v scope dbActive redisActive st =
     (case dbActive of
        None \<Rightarrow>
          (case redisActive of
             Some current \<Rightarrow>
               (Inr \<lparr>rec_status = Rec_ghost, rec_dataset = sc_dataset scope,
                  rec_publicationId = Some (mf_publicationId current)\<rparr>, st)
           | None \<Rightarrow> (Inr \<lparr>rec_status = Rec_missing, rec_dataset = sc_dataset scope, rec_publicationId = None\<rparr>, st))
      | Some active \<Rightarrow> repair_active v scope active redisActive st)"

definition reconcileDataPublication ::
  "reconcile_env \<Rightarrow> publication_scope \<Rightarrow> season_ref \<Rightarrow> stores \<Rightarrow> (reconcile_error, reconciliation) result \<times> stores" where
  "reconcileDataPublication v scope season st =
     (case readActiveDataPublication (rv_env v) scope (snd st) of
        Inl e \<Rightarrow> (Inl (Outbox_failure (Cache_failure e)), st)
      | Inr redisRead \<Rightarrow>
          (let dbActive = findActivePublication (sc_dataset scope) season (sc_eventId scope) (fst st);
               redisActive = map_option fst redisRead
           in case findStagingPublication (sc_dataset scope) season (sc_eventId scope) (fst st) of
                None \<Rightarrow> reconcile_active v scope dbActive redisActive st
              | Some staging \<Rightarrow>
                  (case recover_staging v scope season staging st of
                     (Some result, st1) \<Rightarrow> (result, st1)
                   | (None, st1) \<Rightarrow> reconcile_active v scope dbActive redisActive st1)))"

text \<open>All scopes of a season, one after the other; \<open>currentEvent\<close> is what the events table answers.\<close>

definition season_scopes :: "season_ref \<Rightarrow> int option \<Rightarrow> publication_scope list" where
  "season_scopes season currentEvent =
     [\<lparr>sc_dataset = Fpl_core, sc_seasonCode = season_seasonCode season, sc_eventId = None\<rparr>,
      \<lparr>sc_dataset = Fpl_market, sc_seasonCode = season_seasonCode season, sc_eventId = None\<rparr>]
     @ (case currentEvent of None \<Rightarrow> []
        | Some e \<Rightarrow> [\<lparr>sc_dataset = Fpl_live, sc_seasonCode = season_seasonCode season, sc_eventId = Some e\<rparr>])"

fun reconcile_scopes ::
  "season_ref \<Rightarrow> (reconcile_env \<times> publication_scope) list \<Rightarrow> stores \<Rightarrow> reconciliation list \<times> stores" where
  "reconcile_scopes season [] st = ([], st)"
| "reconcile_scopes season ((v, scope) # rest) st =
     (let (result, st1) = reconcileDataPublication v scope season st;
          (results, st2) = reconcile_scopes season rest st1
      in ((case result of
             Inl _ \<Rightarrow> \<lparr>rec_status = Rec_failed, rec_dataset = sc_dataset scope, rec_publicationId = None\<rparr>
           | Inr outcome \<Rightarrow> outcome) # results, st2))"

definition reconcileCoreAndMarketPublications ::
  "(nat \<Rightarrow> reconcile_env) \<Rightarrow> season_ref \<Rightarrow> int option \<Rightarrow> stores \<Rightarrow> reconciliation list \<times> stores" where
  "reconcileCoreAndMarketPublications envs season currentEvent st =
     (let scopes = season_scopes season currentEvent in
      reconcile_scopes season (zip (map envs [0..<length scopes]) scopes) st)"

section \<open>A staged publication is not recovered\<close>

text \<open>
  What the callers of \<open>preparePublication\<close> store as the manifest of a staged publication
  (\<open>market-publication.service.ts\<close>, \<open>core-snapshot.service.ts\<close>, \<open>live-snapshot.service.ts\<close>).
\<close>

definition staging_manifest :: "string \<Rightarrow> string option \<Rightarrow> json" where
  "staging_manifest sourceCheckedAt lastSuccessfulFetchAt = JObj
     ([(''state'', JStr ''staging''), (''sourceCheckedAt'', JStr sourceCheckedAt)] @
      (case lastSuccessfulFetchAt of None \<Rightarrow> [] | Some t \<Rightarrow> [(''lastSuccessfulFetchAt'', JStr t)]))"

lemma exact_names_length: "hasExactNames names expected \<Longrightarrow> length names = length expected"
  unfolding hasExactNames_def by (metis mset_js_sort size_mset)

lemma staging_manifest_invalid: "parse_stored_manifest env (staging_manifest t f) = None"
proof -
  obtain es where es: "staging_manifest t f = JObj es" "set (map fst es) \<subseteq> set manifest_keys" "distinct (map fst es)"
    "length es \<le> 3" "list_all (\<lambda>e. wf_json (snd e) \<and> plain (snd e)) es"
    by (cases f) (auto simp: staging_manifest_def manifest_keys_def MANIFEST_FIELDS_def OPTIONAL_MANIFEST_FIELDS_def)
  have "own_order es = es" by (intro own_order_no_index no_index_keys) (rule es(2))
  then have "wf_json (staging_manifest t f) \<and> plain (staging_manifest t f)" using es by (simp add: list_all_iff)
  then obtain raw where "JSON_stringify (staging_manifest t f) = Some raw" "JSON_parse raw = Some (staging_manifest t f)"
    using JSON_parse_stringify by blast
  moreover have "\<not> hasManifestFields (staging_manifest t f)"
    using es(1,4) exact_names_length [of "map fst es"]
    by (auto simp: hasManifestFields_def hasExactFields_def MANIFEST_FIELDS_def OPTIONAL_MANIFEST_FIELDS_def)
  ultimately show ?thesis by (simp add: parse_stored_manifest_def parseDataPublicationManifest_def)
qed

lemma find_publication_unique:
  assumes "ops_inv db" "row \<in> set (db_publications db)"
  shows "find_publication (pb_publicationId row) db = Some row"
proof -
  have "distinct (map pb_publicationId (db_publications db))" using assms(1) by (simp add: ops_inv_def publications_ok_def)
  then have "filter (\<lambda>x. pb_publicationId x = pb_publicationId row) (db_publications db) = [row]"
    using filter_key [of pb_publicationId "db_publications db" row "\<lambda>_. True"] assms(2) by simp
  then show ?thesis unfolding find_publication_def by (rule find_filter)
qed

lemma staging_row_found:
  assumes "findStagingPublication d season e db = Some staging"
  obtains row where "row \<in> set (db_publications db)" "pb_publicationId row = sp_publicationId staging"
    "pb_manifest row = sp_manifest staging" "pb_status row = Pub_staging"
proof -
  let ?rows = "filter (\<lambda>row. in_scope d (season_seasonId season) e row \<and> pb_status row = Pub_staging) (db_publications db)"
  obtain row rest where "js_sort (\<lambda>a b. pb_revision b - pb_revision a) ?rows = row # rest"
    and row: "sp_publicationId staging = pb_publicationId row" "sp_manifest staging = pb_manifest row"
    using assms by (auto simp: findStagingPublication_def split: list.splits option.splits if_splits)
  then have "row \<in> set ?rows" by (metis list.set_intros(1) mset_js_sort mset_eq_setD)
  then show ?thesis using that row by auto
qed

lemma recover_staging_fails:
  assumes "ops_inv db" "findStagingPublication (sc_dataset scope) season (sc_eventId scope) db = Some staging"
    "sp_manifest staging = staging_manifest t f"
  shows "recover_staging v scope season staging (db, r) = (None, db, r)"
proof -
  obtain row where row: "row \<in> set (db_publications db)" "pb_publicationId row = sp_publicationId staging"
    "pb_manifest row = sp_manifest staging" by (rule staging_row_found [OF assms(2)])
  have "find_publication (sp_publicationId staging) db = Some row" using find_publication_unique [OF assms(1) row(1)] row(2) by simp
  then have "loadDataPublicationDelivery (rv_env v) (sp_publicationId staging) db = Inl Manifest_invalid"
    using row(3) assms(3) staging_manifest_invalid by (simp add: loadDataPublicationDelivery_def loadPreparedPublication_def)
  then show ?thesis by (simp add: recover_staging_def)
qed

section \<open>The pointer follows the database\<close>

lemma past_keeps_redis:
  "delivery_step env describe now c pc (db, r) = (pc', db', r') \<Longrightarrow> past_activation pc \<Longrightarrow> r' = r"
  by (cases pc) (auto simp: past_activation_def split: prod.splits sum.splits if_splits)

lemma steps_pointer:
  "((\<lambda>(pc, st). delivery_step env describe now c pc st) ^^ n) (pc, db, r) = (pc', db', r') \<Longrightarrow> past_activation pc' \<Longrightarrow>
   past_activation pc \<and> r' = r \<or> pointer_held c r'"
proof (induction n arbitrary: pc' db' r')
  case (Suc n)
  obtain pc1 db1 r1 where mid:
    "((\<lambda>(pc, st). delivery_step env describe now c pc st) ^^ n) (pc, db, r) = (pc1, db1, r1)" by (metis surj_pair)
  then have step: "delivery_step env describe now c pc1 (db1, r1) = (pc', db', r')" using Suc.prems(1) by simp
  from delivery_step_pointer [OF this Suc.prems(2)] show ?case
    using Suc.IH [OF mid] past_keeps_redis [OF step] by auto
qed simp

lemma run_delivered_pointer:
  "run_delivery env describe now c (db, r) = (Done Delivered, db', r') \<Longrightarrow> pointer_held c r'"
  using steps_pointer [of 6 env describe now c Stage_payloads db r]
  by (auto simp: run_delivery_def past_activation_def)

lemma dispatch_one_delivered:
  assumes "dispatch_one v p (db, r) = Inr (counts, db', r')" "dc_delivered counts = 1" "ops_inv db" "p \<noteq> []"
  obtains row c where "row \<in> set (db_outbox db)" "ob_publicationId row = p" "claimed_from (rv_env v) db (rv_owner v) row c"
    "pointer_held c r'"
proof -
  let ?zero = "\<lambda>claimed. \<lparr>dc_claimed = int (length claimed), dc_delivered = 0, dc_failed = 0\<rparr>"
  obtain db1 claimed where claim: "claimDataPublicationOutbox (rv_env v) (rv_owner v) (rv_locked v) (rv_now v) (Some 1) None (Some p) db
      = Inr (db1, claimed)"
    and run: "run_deliveries (rv_env v) (rv_describe v) (rv_now v) claimed (?zero claimed) (db1, r) = (counts, db', r')"
    using assms(1) by (auto simp: dispatch_one_def dispatchDataPublicationOutbox_def res_bind_Inr_iff)
  obtain rows where rows: "set rows \<subseteq> {row \<in> set (db_outbox db). claimable (Some p) (rv_now v) row \<and> ob_outboxId row \<notin> rv_locked v}"
    "list_all2 (claimed_from (rv_env v) db (rv_owner v)) rows claimed" "length rows \<le> 1"
    by (rule claim_shape [OF claim assms(3)]) (auto intro: that)
  have "claimed \<noteq> []" using run assms(2) by (auto simp: dispatch_counts.defs)
  then obtain row c where rc: "rows = [row]" "claimed = [c]" "claimed_from (rv_env v) db (rv_owner v) row c"
    using rows(2,3) by (cases rows; cases claimed) auto
  obtain pc db2 r2 where one: "run_delivery (rv_env v) (rv_describe v) (rv_now v) c (db1, r) = (pc, db2, r2)" by (metis surj_pair)
  have "pc = Done Delivered \<and> r2 = r'"
    using run assms(2) rc(2) one by (auto split: delivery_pc.splits delivery_outcome.splits)
  then have "pointer_held c r'" using run_delivered_pointer one by blast
  moreover have "ob_publicationId row = p" using rows(1) rc(1) assms(4) by (auto simp: claimable_def)
  ultimately show ?thesis using that rows(1) rc(1,3) by auto
qed

text \<open>The active publication of a scope in the database.\<close>

lemma active_row_iff:
  assumes "ops_inv db"
  shows "active_row d season e db = Some row \<longleftrightarrow>
    row \<in> set (db_publications db) \<and> in_scope d (season_seasonId season) e row \<and> pb_status row = Pub_active"
proof
  let ?hit = "\<lambda>row. in_scope d (season_seasonId season) e row \<and> pb_status row = Pub_active"
  assume row: "row \<in> set (db_publications db) \<and> in_scope d (season_seasonId season) e row \<and> pb_status row = Pub_active"
  then obtain x where x: "active_row d season e db = Some x" unfolding active_row_def
    by (cases "List.find ?hit (db_publications db)") (auto simp: find_None_iff)
  then have "x \<in> set (db_publications db)" "?hit x" by (auto simp: active_row_def find_Some_iff)
  moreover have "same_scope x row" using \<open>?hit x\<close> row by (auto simp: same_scope_def in_scope_def)
  ultimately show "active_row d season e db = Some row" using x row assms by (auto simp: ops_inv_def publications_ok_def)
qed (auto simp: active_row_def find_Some_iff)

definition canonical :: "publication_env \<Rightarrow> publication_scope \<Rightarrow> season_ref \<Rightarrow> ops_db \<Rightarrow> manifest \<Rightarrow> bool" where
  "canonical env scope season db m \<longleftrightarrow>
     findActivePublicationManifest env (sc_dataset scope) season (sc_eventId scope) db = Some m \<and>
     findActivePublication (sc_dataset scope) season (sc_eventId scope) db =
       Some \<lparr>pp_publicationId = mf_publicationId m, pp_revision = mf_revision m, pp_status = Pub_active\<rparr>"

text \<open>A receipt of the publication, if there is one, was written with the same manifest.\<close>

definition receipt_agrees :: "ops_db \<Rightarrow> manifest \<Rightarrow> bool" where
  "receipt_agrees db m \<longleftrightarrow>
     (\<forall>row \<in> set (db_outbox db). ob_publicationId row = mf_publicationId m \<longrightarrow> ob_manifest row = stored_manifest m)"

lemma canonical_row:
  assumes "canonical env scope season db m" "ops_inv db"
  obtains row where "row \<in> set (db_publications db)" "pb_publicationId row = mf_publicationId m"
    "pb_revision row = mf_revision m" "pb_status row = Pub_active"
    "parse_stored_manifest env (pb_manifest row) = Some m" "find_publication (mf_publicationId m) db = Some row"
proof -
  let ?row = "active_row (sc_dataset scope) season (sc_eventId scope) db"
  obtain row where row: "?row = Some row" "parse_stored_manifest env (pb_manifest row) = Some m"
    using assms(1) by (auto simp: canonical_def findActivePublicationManifest_def bind_eq_Some_conv split: if_splits)
  then have "prepared_row_of row = \<lparr>pp_publicationId = mf_publicationId m, pp_revision = mf_revision m, pp_status = Pub_active\<rparr>"
    using assms(1) by (simp add: canonical_def findActivePublication_def)
  then have "pb_publicationId row = mf_publicationId m" "pb_revision row = mf_revision m" "pb_status row = Pub_active"
    by (simp_all add: prepared_row_of_def)
  moreover have mem: "row \<in> set (db_publications db)" using row(1) active_row_iff [OF assms(2)] by blast
  moreover have "find_publication (mf_publicationId m) db = Some row"
    using find_publication_unique [OF assms(2) mem] calculation(1) by simp
  ultimately show ?thesis using that row(2) by blast
qed

lemma activation_canonical:
  assumes inv: "ops_inv db" and run: "activatePublication now input db = Inr db'"
    and m: "m = ai_manifest input" "manifest_ok env m"
    and scope: "scope = \<lparr>sc_dataset = ai_dataset input, sc_seasonCode = season_seasonCode (ai_season input), sc_eventId = ai_eventId input\<rparr>"
  shows "canonical env scope (ai_season input) db' m"
proof -
  have pubs: "publications_ok (db_nextRevision db) (db_publications db)" using inv by (simp add: ops_inv_def)
  obtain c: "activation_error input db = None" "db_publications db' = map (activation_of now input) (db_publications db)"
    using activatePublication_cases [OF run] by metis
  obtain t where t: "t \<in> set (db_publications db)" "pb_publicationId t = ai_publicationId input"
    "in_scope (ai_dataset input) (season_seasonId (ai_season input)) (ai_eventId input) t"
    "mf_publicationId m = ai_publicationId input" "mf_dataset m = ai_dataset input"
    "mf_seasonCode m = season_seasonCode (ai_season input)" "mf_eventId m = ai_eventId input" "mf_revision m = pb_revision t"
    using activation_target [OF c(1) pubs] m(1) by metis
  let ?t = "activation_of now input t"
  have t': "pb_status ?t = Pub_active" "pb_manifest ?t = stored_manifest m" "same_identity t ?t"
    using t(2) m(1) by (simp_all add: activation_of_def activated_row_def same_identity_def)
  have "active_row (ai_dataset input) (ai_season input) (ai_eventId input) db' = Some ?t"
    using active_row_iff [OF conjunct1 [OF activatePublication_inv [OF inv run]]] t(1,3) t' c(2)
    by (auto simp: in_scope_def same_identity_def)
  then show ?thesis using t t' parse_stored [OF m(2)] scope
    by (simp add: canonical_def findActivePublicationManifest_def findActivePublication_def prepared_row_of_def same_identity_def)
qed

lemma activation_other_scope:
  assumes inv: "ops_inv db" and run: "activatePublication now input db = Inr db'"
    and other: "(d, season_seasonId season, e) \<noteq> (ai_dataset input, season_seasonId (ai_season input), ai_eventId input)"
  shows "active_row d season e db' = active_row d season e db"
proof -
  have pubs: "publications_ok (db_nextRevision db) (db_publications db)" using inv by (simp add: ops_inv_def)
  obtain c: "activation_error input db = None" "db_publications db' = map (activation_of now input) (db_publications db)"
    using activatePublication_cases [OF run] by metis
  obtain t where t: "t \<in> set (db_publications db)" "pb_publicationId t = ai_publicationId input"
    "in_scope (ai_dataset input) (season_seasonId (ai_season input)) (ai_eventId input) t"
    using activation_target [OF c(1) pubs] by metis
  have same: "activation_of now input row = row"
    if "row \<in> set (db_publications db)" "in_scope d (season_seasonId season) e row" for row
  proof -
    have "pb_publicationId row \<noteq> ai_publicationId input"
      using one_publication [OF pubs that(1) t(1)] t(2,3) that(2) other by (auto simp: in_scope_def)
    moreover have "\<not> activation_hits input row" using that(2) other by (auto simp: activation_hits_def in_scope_def)
    ultimately show ?thesis by (simp add: activation_of_def)
  qed
  have scope: "in_scope d (season_seasonId season) e (activation_of now input row) = in_scope d (season_seasonId season) e row" for row
    using activation_identity [of row now input] by (simp add: same_identity_def in_scope_def)
  have "active_row d season e db' = Some row \<longleftrightarrow> active_row d season e db = Some row" for row
    using active_row_iff [OF conjunct1 [OF activatePublication_inv [OF inv run]]] active_row_iff [OF inv] c(2) same scope
    by (auto simp: image_iff) metis+
  then show ?thesis by (metis option.exhaust)
qed

lemma parse_stored_ok: "parse_stored_manifest env v = Some m \<Longrightarrow> manifest_ok env m"
  using parse_manifest_ok [of env]
  by (cases "JSON_stringify v") (auto simp: parse_stored_manifest_def parseDataPublicationManifest_def)

lemma load_canonical:
  assumes "canonical env scope season db m" "ops_inv db" "loadDataPublicationDelivery env (mf_publicationId m) db = Inr (m', items)"
  shows "m' = m"
proof -
  obtain row where "parse_stored_manifest env (pb_manifest row) = Some m" "find_publication (mf_publicationId m) db = Some row"
    by (rule canonical_row [OF assms(1,2)])
  then show ?thesis using assms(3) by (auto simp: loadDataPublicationDelivery_def loadPreparedPublication_def res_bind_Inr_iff)
qed

definition pointer_is :: "string \<Rightarrow> redis \<Rightarrow> manifest \<Rightarrow> bool" where
  "pointer_is key r m \<longleftrightarrow>
     (\<exists>a. active_manifest r key = Some a \<and> mf_publicationId a = mf_publicationId m \<and> mf_revision a = mf_revision m)"

lemma same_publication_pointer:
  "active_manifest r key = Some a \<Longrightarrow> mf_publicationId a = mf_publicationId m \<Longrightarrow> same_publication a m \<Longrightarrow> pointer_is key r m"
  by (auto simp: pointer_is_def same_publication_def)

lemma move_pointer_moves:
  assumes "move_pointer v scope current m r = (Inr u, r')" "manifest_scope m = scope" "activeDataPublicationKey scope = Inr key"
  shows "pointer_is key r' m"
proof (cases current)
  case None
  with assms obtain activated where "activateDataPublicationPointer (rv_env v) m r = (Inr activated, r')" "ps_status activated \<noteq> Status_stale"
    by (auto simp: move_pointer_def split: prod.splits sum.splits if_splits)
  then obtain key' a where "activeDataPublicationKey (manifest_scope m) = Inr key'" "active_manifest r' key' = Some a"
    "mf_publicationId a = mf_publicationId m" "same_publication a m" by (rule activation_holds_pointer)
  then show ?thesis using assms(2,3) same_publication_pointer by auto
next
  case (Some old)
  with assms obtain res where swap: "compareAndSwapDataPublicationPointer scope (mf_publicationId old) (Some m) r = (Inr res, r')" "res = Swap_replaced"
    by (auto simp: move_pointer_def split: prod.splits sum.splits if_splits)
  then obtain raw where cas: "cas_script key (mf_publicationId old) (Some m) r = (Cas_replaced raw, r')"
    using assms(3) by (auto simp: compareAndSwapDataPublicationPointer_def Let_def split: prod.splits cas_reply.splits)
  have "\<exists>r1. r' = redis_set key (manifest_text m) r1"
    using cas by (auto simp: cas_script_def split: option.splits prod.splits if_splits)
  then have "active_manifest r' key = Some m" by (auto simp: active_manifest_def get_set)
  then show ?thesis by (simp add: pointer_is_def)
qed

text \<open>The database's publications are left alone.\<close>

lemma step_publications:
  assumes "delivery_step env describe now c pc (db, r) = (pc', db', r')" "ops_inv db"
  shows "ops_inv db' \<and> db_publications db' = db_publications db"
  using conjunct1 [OF delivery_step_change [OF assms(1)]]
proof cases
  case (change f)
  then show ?thesis using update_leased_inv [OF change(2) assms(2)] by (simp add: update_leased_def)
next
  case (deliver now)
  then show ?thesis using mark_delivered_inv [OF assms(2) deliver] by simp
qed (use assms(2) in simp)

lemma steps_publications:
  "((\<lambda>(pc, st). delivery_step env describe now c pc st) ^^ n) (pc, db, r) = (pc', db', r') \<Longrightarrow> ops_inv db \<Longrightarrow>
   ops_inv db' \<and> db_publications db' = db_publications db"
proof (induction n arbitrary: pc' db' r')
  case (Suc n)
  obtain pc1 db1 r1 where mid:
    "((\<lambda>(pc, st). delivery_step env describe now c pc st) ^^ n) (pc, db, r) = (pc1, db1, r1)" by (metis surj_pair)
  then have step: "delivery_step env describe now c pc1 (db1, r1) = (pc', db', r')" using Suc.prems(1) by simp
  show ?case using Suc.IH [OF mid Suc.prems(2)] step_publications [OF step] by simp
qed simp

lemma run_deliveries_publications:
  "run_deliveries env describe now cs counts (db, r) = (counts', db', r') \<Longrightarrow> ops_inv db \<Longrightarrow>
   ops_inv db' \<and> db_publications db' = db_publications db"
proof (induction cs arbitrary: counts db r)
  case (Cons c cs)
  obtain pc db1 r1 where one: "run_delivery env describe now c (db, r) = (pc, db1, r1)" by (metis surj_pair)
  then have keep: "ops_inv db1 \<and> db_publications db1 = db_publications db"
    using steps_publications [of 6 env describe now c Stage_payloads] Cons.prems(2) by (simp add: run_delivery_def)
  obtain counts1 where "run_deliveries env describe now cs counts1 (db1, r1) = (counts', db', r')"
    using Cons.prems(1) one by (auto split: delivery_pc.splits delivery_outcome.splits)
  then show ?case using Cons.IH keep by simp
qed simp

lemma read_pointer_active:
  assumes "read_pointer env scope key r = Some a"
  shows "active_manifest r key = Some a"
proof (cases "redis_get r key")
  case None
  then show ?thesis using assms by (simp add: read_pointer_def parseDataPublicationManifest_def)
next
  case (Some raw)
  then have "parseDataPublicationManifest env (Some raw) = Some a"
    using assms by (simp add: read_pointer_def split: option.splits if_splits)
  then show ?thesis using parse_manifest_ok Some by (simp add: active_manifest_def)
qed

lemma dispatch_publications:
  assumes "dispatch_one v p (db, r) = Inr (counts, db', r')" "ops_inv db"
  shows "ops_inv db' \<and> db_publications db' = db_publications db"
proof -
  obtain db1 claimed where claim: "claimDataPublicationOutbox (rv_env v) (rv_owner v) (rv_locked v) (rv_now v) (Some 1) None (Some p) db
      = Inr (db1, claimed)"
    and run: "run_deliveries (rv_env v) (rv_describe v) (rv_now v) claimed
      \<lparr>dc_claimed = int (length claimed), dc_delivered = 0, dc_failed = 0\<rparr> (db1, r) = (counts, db', r')"
    using assms(1) by (auto simp: dispatch_one_def dispatchDataPublicationOutbox_def res_bind_Inr_iff)
  have "ops_inv db1" using claim_evolves [OF claim assms(2)] by (simp add: db_evolves_def)
  moreover have "db_publications db1 = db_publications db"
    by (rule claim_shape [OF claim assms(2)]) simp
  ultimately show ?thesis using run_deliveries_publications [OF run] by simp
qed

lemma repair_directly_publications:
  assumes "repair_directly v scope p current loaded (db, r) = (res, db', r')" "ops_inv db"
  shows "ops_inv db' \<and> db_publications db' = db_publications db"
proof -
  have "db' = db \<or> (\<exists>ok. markDataPublicationOutboxReconciled (rv_now v) p db = Inr (db', ok))"
    using assms(1) unfolding repair_directly_def by (auto split: prod.splits sum.splits)
  then show ?thesis
  proof (elim disjE exE)
    fix ok assume "markDataPublicationOutboxReconciled (rv_now v) p db = Inr (db', ok)"
    then show ?thesis using mark_delivered_inv [OF assms(2)] unfolding markDataPublicationOutboxReconciled_def by blast
  qed (use assms(2) in simp)
qed

lemma repair_active_cases:
  assumes "repair_active v scope active current (db, r) = (res, db', r')"
  obtains
    (unloaded) e where "res = Inl e" "db' = db" "r' = r"
  | (matched) m items where "loadDataPublicationDelivery (rv_env v) (pp_publicationId active) db = Inr (m, items)"
      "map_option mf_publicationId current = Some (mf_publicationId m)" "map_option mf_revision current = Some (mf_revision m)"
      "res = Inr \<lparr>rec_status = Rec_matched, rec_dataset = sc_dataset scope, rec_publicationId = Some (mf_publicationId m)\<rparr>"
      "db' = db" "r' = r"
  | (dispatched) m items counts where "loadDataPublicationDelivery (rv_env v) (pp_publicationId active) db = Inr (m, items)"
      "dispatch_one v (pp_publicationId active) (db, r) = Inr (counts, db', r')" "dc_delivered counts = 1"
      "res = Inr (repaired_result m scope)"
  | (direct) m items counts db1 r1 where "loadDataPublicationDelivery (rv_env v) (pp_publicationId active) db = Inr (m, items)"
      "dispatch_one v (pp_publicationId active) (db, r) = Inr (counts, db1, r1)"
      "repair_directly v scope (pp_publicationId active) current (m, items) (db1, r1) = (res, db', r')"
proof (cases "loadDataPublicationDelivery (rv_env v) (pp_publicationId active) db")
  case (Inl e)
  then show ?thesis using assms unloaded [of "Outbox_failure e"] by (simp add: repair_active_def)
next
  case (Inr loaded)
  obtain m items where load: "loaded = (m, items)" by fastforce
  show ?thesis
  proof (cases "map_option mf_publicationId current = Some (mf_publicationId m) \<and> map_option mf_revision current = Some (mf_revision m)")
    case True
    then show ?thesis using assms Inr load by (intro matched [of m items]) (auto simp: repair_active_def)
  next
    case False
    then have rest: "(case dispatch_one v (pp_publicationId active) (db, r) of
        Inl e \<Rightarrow> (Inl (Outbox_failure e), db, r)
      | Inr (counts, st1) \<Rightarrow> if dc_delivered counts = 1 then (Inr (repaired_result m scope), st1)
          else repair_directly v scope (pp_publicationId active) current (m, items) st1) = (res, db', r')"
      using assms Inr load unfolding repair_active_def fst_conv by (simp only: sum.case prod.case if_False)
    show ?thesis
    proof (cases "dispatch_one v (pp_publicationId active) (db, r)")
      case (Inl e)
      then show ?thesis using rest unloaded [of "Outbox_failure e"] by simp
    next
      case dis: (Inr out)
      obtain counts db1 r1 where out: "out = (counts, db1, r1)" by (metis surj_pair)
      show ?thesis
      proof (cases "dc_delivered counts = 1")
        case True
        then show ?thesis using rest dis out Inr load by (intro dispatched [of m items counts]) auto
      next
        case False
        then show ?thesis using rest dis out Inr load by (intro direct [of m items counts db1 r1]) auto
      qed
    qed
  qed
qed

lemma repair_publications:
  assumes "repair_active v scope active current (db, r) = (res, db', r')" "ops_inv db"
  shows "ops_inv db' \<and> db_publications db' = db_publications db"
  using assms(1)
proof (cases rule: repair_active_cases)
  case (dispatched m items counts)
  show ?thesis by (rule dispatch_publications [OF dispatched(2) assms(2)])
next
  case (direct m items counts db1 r1)
  then show ?thesis using dispatch_publications [OF direct(2) assms(2)] repair_directly_publications [OF direct(3)] by simp
qed (use assms(2) in simp_all)

text \<open>A staging publication as the callers leave it is not recoverable.\<close>

definition staging_as_written :: "publication_scope \<Rightarrow> season_ref \<Rightarrow> ops_db \<Rightarrow> bool" where
  "staging_as_written scope season db \<longleftrightarrow>
     (\<forall>staging. findStagingPublication (sc_dataset scope) season (sc_eventId scope) db = Some staging \<longrightarrow>
        (\<exists>t f. sp_manifest staging = staging_manifest t f))"

lemma reconcile_unfold:
  assumes "ops_inv db" "staging_as_written scope season db" "readActiveDataPublication (rv_env v) scope r = Inr redisRead"
  shows "reconcileDataPublication v scope season (db, r) =
    reconcile_active v scope (findActivePublication (sc_dataset scope) season (sc_eventId scope) db) (map_option fst redisRead) (db, r)"
proof (cases "findStagingPublication (sc_dataset scope) season (sc_eventId scope) db")
  case (Some staging)
  then obtain t f where "sp_manifest staging = staging_manifest t f" using assms(2) by (auto simp: staging_as_written_def)
  then show ?thesis using recover_staging_fails [OF assms(1) Some] Some assms(3) by (simp add: reconcileDataPublication_def)
qed (use assms(3) in \<open>simp add: reconcileDataPublication_def\<close>)




section \<open>Witnesses\<close>

definition sample_scope :: publication_scope where
  "sample_scope = \<lparr>sc_dataset = Fpl_market, sc_seasonCode = ''2526'', sc_eventId = None\<rparr>"

definition sample_pass :: reconcile_env where
  "sample_pass = \<lparr>rv_env = example_env, rv_describe = (\<lambda>_. ''e''), rv_outboxId = ''o2'', rv_owner = ''d'', rv_locked = {}, rv_now = 40\<rparr>"

lemma sample_manifest_ok: "manifest_ok example_env sample_manifest"
proof -
  have "\<not> isl (prepareDataPublication example_env ''2026'' sample_input)" by code_simp
  then have "prepareDataPublication example_env ''2026'' sample_input =
      Inr (sample_manifest, snd (projr (prepareDataPublication example_env ''2026'' sample_input)))"
    unfolding sample_manifest_def by (metis prod.collapse sum.collapse(2))
  moreover have "list_all (\<lambda>item. readable (snd item)) (pi_items sample_input)" "dates_valid example_env ''2026'' sample_input"
    using example_ok(1,3) by (simp_all add: sample_input_def dates_valid_def)
  moreover have "sc_eventId (pi_scope sample_input) = None" using example_ok(4) by (simp add: sample_input_def)
  ultimately show ?thesis using prepared_shape [of example_env _ sample_input] example_ok(2) by force
qed

lemma sample_started_inv: "ops_inv sample_started"
  unfolding sample_started_def using startRun_inv [OF empty_db_inv prod.collapse [symmetric]] by blast

lemma sample_invs: "ops_inv sample_prepared" "ops_inv sample_staged" "ops_inv sample_activated"
proof -
  show prepared: "ops_inv sample_prepared"
    unfolding sample_prepared_def by (rule preparePublication_inv [OF sample_started_inv prod.collapse [symmetric]])
  have "stagePublicationItems (pi_publicationId sample_input) sample_proofs sample_prepared = Inr sample_staged"
    using sample_operations(1) unfolding sample_staged_def by (rule sum.collapse(2) [symmetric])
  then show "ops_inv sample_staged" using stagePublicationItems_inv prepared by blast
  show "ops_inv sample_activated" using sync.reach_inv [OF sample_steps empty_db_inv] .
qed

lemma sample_activates: "activatePublication 30 sample_activation sample_staged = Inr sample_activated"
  using sample_operations(2) unfolding sample_activated_def by (rule sum.collapse(2) [symmetric])

lemma sample_activation_fields:
  "ai_manifest sample_activation = sample_manifest" "ai_outboxId sample_activation \<noteq> None" "ai_season sample_activation = sample_season"
  "sample_scope = \<lparr>sc_dataset = ai_dataset sample_activation, sc_seasonCode = season_seasonCode (ai_season sample_activation),
     sc_eventId = ai_eventId sample_activation\<rparr>"
  by (simp_all add: sample_activation_def sample_scope_def sample_season_def)



definition sample_waiting :: ops_db where
  "sample_waiting = snd (preparePublication [] {} 20
     (sample_prepare\<lparr>ppi_manifest := Some (staging_manifest ''2026'' None)\<rparr>) sample_started)"


end
