(* ===== verification/LiveLifecycle.thy ===== *)
theory LiveLifecycle
  imports FplTypes
begin

text \<open>
  The lifecycle of a gameweek: the match window of \<open>src/src/utils/conditions.ts\<close> and the
  orchestrator of \<open>src/src/services/live-lifecycle-orchestrator.ts\<close>, which decides what a tick does
  and probes the picks before it fans out. \<open>parse_date\<close> stands for the \<^verbatim>\<open>Date\<close> constructor on texts.
\<close>

section \<open>Match window\<close>

definition MATCH_WINDOW_MS :: int where "MATCH_WINDOW_MS = 2 * 60 * 60 * 1000"
definition MATCH_PREWARM_MS :: int where "MATCH_PREWARM_MS = 5 * 60 * 1000"
definition FINISH_FLAG_GRACE_MS :: int where "FINISH_FLAG_GRACE_MS = 6 * 60 * 60 * 1000"
definition SEASON_WINDOW_CACHE_TTL_MS :: int where "SEASON_WINDOW_CACHE_TTL_MS = 10 * 60 * 1000"
definition DAY_MS :: int where "DAY_MS = 24 * 60 * 60 * 1000"

text \<open>Comparisons with an invalid date are false; the extremes of a list with one are invalid.\<close>

fun date_le :: "js_date \<Rightarrow> js_date \<Rightarrow> bool" where
  "date_le (Some a) (Some b) = (a \<le> b)"
| "date_le _ _ = False"

definition date_min :: "js_date list \<Rightarrow> js_date" where
  "date_min ds = map_option (\<lambda>ts. foldl min (hd ts) (tl ts)) (those ds)"

definition date_max :: "js_date list \<Rightarrow> js_date" where
  "date_max ds = map_option (\<lambda>ts. foldl max (hd ts) (tl ts)) (those ds)"

definition toUtcDayStartMs :: "js_date \<Rightarrow> js_date" where
  "toUtcDayStartMs = map_option (\<lambda>t. t div DAY_MS * DAY_MS)"

definition toUtcDayEndMs :: "js_date \<Rightarrow> js_date" where
  "toUtcDayEndMs = map_option (\<lambda>t. t div DAY_MS * DAY_MS + (DAY_MS - 1))"

definition extractKickoffs :: "fixture list \<Rightarrow> js_date list" where
  "extractKickoffs fixtures = List.map_filter fx_kickoffTime fixtures"

record season_window =
  sw_seasonId :: int
  sw_startDayMs :: js_date
  sw_endDayMs :: js_date
  sw_loadedAtMs :: int

text \<open>The module's cache: the last window, and when and for which season there was none.\<close>

record window_cache =
  wc_window :: "season_window option"
  wc_nullAtMs :: "int option"
  wc_nullSeasonId :: "int option"

definition loadSeasonWindow ::
  "int \<Rightarrow> fixture list \<Rightarrow> fixture list \<Rightarrow> int \<Rightarrow> window_cache \<Rightarrow> season_window option \<times> window_cache" where
  "loadSeasonWindow seasonId gw1Fixtures gw38Fixtures now cache =
     (let fresh = (case wc_window cache of
            None \<Rightarrow> False
          | Some w \<Rightarrow> sw_seasonId w = seasonId \<and> now - sw_loadedAtMs w < SEASON_WINDOW_CACHE_TTL_MS)
      in if fresh then (wc_window cache, cache)
         else if (case wc_nullAtMs cache of
             None \<Rightarrow> False
           | Some t \<Rightarrow> wc_nullSeasonId cache = Some seasonId \<and> now - t < SEASON_WINDOW_CACHE_TTL_MS)
         then (None, cache)
         else
           (let gw1 = extractKickoffs gw1Fixtures; gw38 = extractKickoffs gw38Fixtures in
            if gw1 = [] \<or> gw38 = []
            then (None, \<lparr>wc_window = None, wc_nullAtMs = Some now, wc_nullSeasonId = Some seasonId\<rparr>)
            else
              (let resolved = \<lparr>sw_seasonId = seasonId, sw_startDayMs = toUtcDayStartMs (date_min gw1),
                     sw_endDayMs = toUtcDayEndMs (date_max gw38), sw_loadedAtMs = now\<rparr>
               in (Some resolved, \<lparr>wc_window = Some resolved, wc_nullAtMs = None, wc_nullSeasonId = None\<rparr>))))"

definition isFPLSeason ::
  "int \<Rightarrow> fixture list \<Rightarrow> fixture list \<Rightarrow> int \<Rightarrow> window_cache \<Rightarrow> bool \<times> window_cache" where
  "isFPLSeason seasonId gw1Fixtures gw38Fixtures now cache =
     (let (window, cache1) = loadSeasonWindow seasonId gw1Fixtures gw38Fixtures now cache in
      ((case window of
          None \<Rightarrow> False
        | Some w \<Rightarrow> date_le (sw_startDayMs w) (Some now) \<and> date_le (Some now) (sw_endDayMs w)), cache1))"

text \<open>
  Two times have the same UTC date text when they are in the same day; an invalid kick-off has
  none, and asking for it is an error.
\<close>

datatype date_error = Invalid_time_value

definition toUtcDateString :: "js_date \<Rightarrow> (date_error, int) result" where
  "toUtcDateString d = (case d of None \<Rightarrow> Inl Invalid_time_value | Some t \<Rightarrow> Inr (t div DAY_MS))"

record match_window =
  mw_start :: "js_date option"
  mw_end :: "js_date option"
  mw_matchDates :: "int list"

definition getMatchWindow :: "fixture list \<Rightarrow> (date_error, match_window) result" where
  "getMatchWindow fixtures =
     (let kickoffTimes = extractKickoffs fixtures in
      if kickoffTimes = [] then Inr \<lparr>mw_start = None, mw_end = None, mw_matchDates = []\<rparr>
      else res_bind (res_map toUtcDateString kickoffTimes) (\<lambda>dates.
        Inr \<lparr>mw_start = Some (date_min kickoffTimes),
             mw_end = Some (map_option (\<lambda>t. t + MATCH_WINDOW_MS) (date_max kickoffTimes)),
             mw_matchDates = js_uniq dates\<rparr>))"

record match_interval =
  mt_fixture :: fixture
  mt_startMs :: js_date
  mt_endMs :: js_date
  mt_hardEndMs :: js_date

definition getMatchIntervals :: "fixture list \<Rightarrow> match_interval list" where
  "getMatchIntervals fixtures = List.map_filter (\<lambda>f.
     (case fx_kickoffTime f of
        None \<Rightarrow> None
      | Some kickoff \<Rightarrow>
          Some \<lparr>mt_fixture = f, mt_startMs = map_option (\<lambda>t. t - MATCH_PREWARM_MS) kickoff,
            mt_endMs = map_option (\<lambda>t. t + MATCH_WINDOW_MS) kickoff,
            mt_hardEndMs = map_option (\<lambda>t. t + FINISH_FLAG_GRACE_MS) kickoff\<rparr>)) fixtures"

definition isMatchDay :: "event \<Rightarrow> fixture list \<Rightarrow> int \<Rightarrow> (date_error, bool) result" where
  "isMatchDay event fixtures now =
     (if ev_finished event then Inr False
      else res_bind (getMatchWindow fixtures) (\<lambda>w. Inr (now div DAY_MS \<in> set (mw_matchDates w))))"

definition isAfterMatchDay :: "event \<Rightarrow> fixture list \<Rightarrow> int \<Rightarrow> (date_error, bool) result" where
  "isAfterMatchDay event fixtures now =
     (if ev_finished event then Inr True
      else res_bind (getMatchWindow fixtures) (\<lambda>w.
        Inr (case mw_end w of Some (Some t) \<Rightarrow> now > t | _ \<Rightarrow> False)))"

definition interval_open :: "int \<Rightarrow> match_interval \<Rightarrow> bool" where
  "interval_open now i =
     (date_le (mt_startMs i) (Some now) \<and> date_le (Some now) (mt_endMs i) \<or>
      fx_started (mt_fixture i) = Some True \<and> \<not> fx_finished (mt_fixture i) \<and> date_le (Some now) (mt_hardEndMs i))"

definition isMatchDayTime :: "event \<Rightarrow> fixture list \<Rightarrow> int \<Rightarrow> bool" where
  "isMatchDayTime event fixtures now =
     (\<not> ev_finished event \<and> list_ex (interval_open now) (getMatchIntervals fixtures))"

definition isSelectTime ::
  "(string \<Rightarrow> js_date) \<Rightarrow> event \<Rightarrow> fixture list \<Rightarrow> int \<Rightarrow> (date_error, bool) result" where
  "isSelectTime parse_date event fixtures now =
     res_bind (isMatchDay event fixtures now) (\<lambda>matchDay.
       Inr (matchDay \<and>
         (case ev_deadlineTime event of
            None \<Rightarrow> False
          | Some rawDeadline \<Rightarrow>
              rawDeadline \<noteq> [] \<and>
              (case parse_date rawDeadline of
                 None \<Rightarrow> False
               | Some deadlineMs \<Rightarrow> deadlineMs + 30 * 60 * 1000 \<le> now \<and> now \<le> deadlineMs + 90 * 60 * 1000))))"

section \<open>The decision\<close>

text \<open>The settings read from the process environment, with the defaults of the source.\<close>

record lifecycle_config =
  cf_picksFirstProbeOffset :: int
  cf_picksRetrySchedule :: "int list"
  cf_bulkMaxInflight :: int
  cf_betweenFixturesPoll :: int
  cf_daySettlingInitialPoll :: int
  cf_daySettlingStablePoll :: int
  cf_daySettlingStableAfter :: int
  cf_picksProbePoll :: int
  cf_preDeadlinePoll :: int
  cf_gwReviewPoll :: int
  cf_gwReviewFinalizationPoll :: int
  cf_finalizedPoll :: int

definition LIVE_POLL_MS :: int where "LIVE_POLL_MS = 30000"

definition default_config :: lifecycle_config where
  "default_config = \<lparr>cf_picksFirstProbeOffset = 60 * 60000, cf_picksRetrySchedule = [120000, 180000, 300000, 600000],
     cf_bulkMaxInflight = 3, cf_betweenFixturesPoll = 5 * 60000, cf_daySettlingInitialPoll = 60000,
     cf_daySettlingStablePoll = 5 * 60000, cf_daySettlingStableAfter = 10 * 60000, cf_picksProbePoll = 120000,
     cf_preDeadlinePoll = 5 * 60000, cf_gwReviewPoll = 10 * 60000, cf_gwReviewFinalizationPoll = 2 * 60000,
     cf_finalizedPoll = 5 * 60000\<rparr>"

datatype lifecycle_state =
    PRE_DEADLINE | PICKS_WAIT | PICKS_PROBE | PICKS_SYNC | LIVE_ACTIVE | BETWEEN_FIXTURES | DAY_SETTLING | GW_REVIEW | FINALIZED

record decision =
  dn_state :: lifecycle_state
  dn_shouldFetchLive :: bool
  dn_shouldProbePicks :: bool
  dn_shouldSyncPicks :: bool
  dn_recoverStaleFixtures :: bool
  dn_finalizeEvent :: bool
  dn_nextRetryAt :: "int option"

record observation =
  os_lastRevision :: "int option"
  os_unchangedSince :: "int option"
  os_matchDayTime :: "bool option"
  os_publicationActive :: "bool option"
  os_publicationStarted :: "bool option"

definition kickoff_times :: "fixture list \<Rightarrow> int list" where
  "kickoff_times = List.map_filter (\<lambda>f. case fx_kickoffTime f of Some (Some t) \<Rightarrow> Some t | _ \<Rightarrow> None)"

definition firstKickoff :: "fixture list \<Rightarrow> int option" where
  "firstKickoff fixtures = (case kickoff_times fixtures of [] \<Rightarrow> None | t # ts \<Rightarrow> Some (foldl min t ts))"

definition lastKickoff :: "fixture list \<Rightarrow> int option" where
  "lastKickoff fixtures = (case kickoff_times fixtures of [] \<Rightarrow> None | t # ts \<Rightarrow> Some (foldl max t ts))"

definition fixture_over :: "fixture \<Rightarrow> bool" where
  "fixture_over f = (fx_finished f \<or> fx_finishedProvisional f)"

definition all_finished :: "fixture list \<Rightarrow> bool" where
  "all_finished fixtures = (fixtures \<noteq> [] \<and> list_all fixture_over fixtures)"

definition core_active :: "fixture list \<Rightarrow> bool" where
  "core_active = list_ex (\<lambda>f. is_true (fx_started f) \<and> \<not> fx_finished f \<and> \<not> fx_finishedProvisional f)"

definition in_future :: "int \<Rightarrow> fixture \<Rightarrow> bool" where
  "in_future now f =
     (\<not> fx_finished f \<and> \<not> fx_finishedProvisional f \<and> fx_started f \<noteq> Some True \<and>
      (case fx_kickoffTime f of None \<Rightarrow> True | Some None \<Rightarrow> False | Some (Some t) \<Rightarrow> t > now))"

abbreviation decided :: "lifecycle_state \<Rightarrow> bool \<Rightarrow> bool \<Rightarrow> bool \<Rightarrow> bool \<Rightarrow> int option \<Rightarrow> decision" where
  "decided st fetch probe sync finalize retry \<equiv>
     \<lparr>dn_state = st, dn_shouldFetchLive = fetch, dn_shouldProbePicks = probe, dn_shouldSyncPicks = sync,
      dn_recoverStaleFixtures = False, dn_finalizeEvent = finalize, dn_nextRetryAt = retry\<rparr>"

definition decideLiveLifecycle ::
  "lifecycle_config \<Rightarrow> (string \<Rightarrow> js_date) \<Rightarrow> event \<Rightarrow> fixture list \<Rightarrow> int \<Rightarrow> observation \<Rightarrow> decision" where
  "decideLiveLifecycle cf parse_date event fixtures nowMs obs =
     (let deadlineMs = (case ev_deadlineTime event of
            None \<Rightarrow> None
          | Some raw \<Rightarrow> if raw = [] then None else parse_date raw);
          allFinished = all_finished fixtures;
          activeEvidence = (core_active fixtures \<or> os_publicationActive obs = Some True);
          active = (activeEvidence \<and> os_matchDayTime obs \<noteq> Some False);
          anyStarted = (list_ex (\<lambda>f. is_true (fx_started f)) fixtures \<or> os_publicationStarted obs = Some True);
          futureFixtures = list_ex (in_future nowMs) fixtures
      in if ev_finished event \<and> ev_dataChecked event \<and> allFinished
         then decided FINALIZED True False False True None
         else if allFinished \<and> lastKickoff fixtures \<noteq> None
         then decided GW_REVIEW (nowMs - the (lastKickoff fixtures) < 24 * 60 * 60000) False False False None
         else if active then decided LIVE_ACTIVE True False True False None
         else if anyStarted then
           (let quietFor = (case os_unchangedSince obs of
                  None \<Rightarrow> 0
                | Some t \<Rightarrow> if t = 0 then 0 else nowMs - t)
            in if futureFixtures \<and> quietFor \<ge> cf_daySettlingStableAfter cf
               then decided BETWEEN_FIXTURES True False False False None
               else decided DAY_SETTLING True False True False None)
         else if (case deadlineMs of None \<Rightarrow> False | Some d \<Rightarrow> nowMs < d)
         then decided PRE_DEADLINE False False False False None
         else if (case deadlineMs of None \<Rightarrow> False | Some d \<Rightarrow> nowMs < d + cf_picksFirstProbeOffset cf)
         then decided PICKS_WAIT False False False False (Some (the deadlineMs + cf_picksFirstProbeOffset cf))
         else if (case firstKickoff fixtures of None \<Rightarrow> False | Some k \<Rightarrow> nowMs < k)
         then decided PICKS_PROBE False True False False None
         else if (case firstKickoff fixtures of None \<Rightarrow> False | Some k \<Rightarrow> nowMs \<ge> k)
         then decided PICKS_SYNC True True True False None
         else decided PICKS_SYNC False True True False None)"

section \<open>Probing and syncing the picks\<close>

text \<open>
  The entries of a tick: those of the active tournaments and the known entries that have started,
  given as pairs of an id and the event they started in.
\<close>

definition resolveUniqueActiveTournamentEntryIds :: "int \<Rightarrow> int list list \<Rightarrow> (int \<times> int option) list \<Rightarrow> int list" where
  "resolveUniqueActiveTournamentEntryIds eventId entryLists knownEntries =
     filter (\<lambda>e. e > 0) (js_uniq (concat entryLists @
       map fst (filter (\<lambda>(_, started). case started of None \<Rightarrow> True | Some s \<Rightarrow> s \<le> eventId) knownEntries)))"

record probe_state =
  ps_attempts :: nat
  ps_nextProbeAt :: int
  ps_canarySucceeded :: bool
  ps_failedCanaryEntryIds :: "int list"

type_synonym settling = "int option \<times> int"

text \<open>The module's three maps, by season code and event.\<close>

record lifecycle_proc =
  lp_picksProbeStates :: "(string \<times> int, probe_state) js_map"
  lp_daySettlingStates :: "(string \<times> int, settling) js_map"
  lp_picksFanoutClaims :: "(string \<times> int, (int, int) js_map) js_map"

definition initial_probe :: probe_state where
  "initial_probe = \<lparr>ps_attempts = 0, ps_nextProbeAt = 0, ps_canarySucceeded = False, ps_failedCanaryEntryIds = []\<rparr>"

definition claim_open :: "int \<Rightarrow> (int, int) js_map \<Rightarrow> int \<Rightarrow> bool" where
  "claim_open nowMs claims e = (case js_get claims e of None \<Rightarrow> True | Some t \<Rightarrow> nowMs - t \<ge> 10 * 60000)"

definition choose_canaries :: "probe_state \<Rightarrow> int list \<Rightarrow> int list \<times> probe_state" where
  "choose_canaries st pending =
     (if ps_canarySucceeded st then ([], st)
      else
        (case take 2 (filter (\<lambda>e. e \<notin> set (ps_failedCanaryEntryIds st)) pending) of
           [] \<Rightarrow> (take 2 pending, st\<lparr>ps_failedCanaryEntryIds := []\<rparr>)
         | canaries \<Rightarrow> (canaries, st)))"

definition note_canaries :: "(int \<Rightarrow> bool) \<Rightarrow> int list \<Rightarrow> probe_state \<Rightarrow> probe_state" where
  "note_canaries fulfilled canaries st =
     st\<lparr>ps_failedCanaryEntryIds :=
       fold (\<lambda>e failed. if fulfilled e then filter (\<lambda>x. x \<noteq> e) failed else if e \<in> set failed then failed else failed @ [e])
         canaries (ps_failedCanaryEntryIds st)\<rparr>"

record probe_result =
  pr_canaryCount :: int
  pr_synced :: int
  pr_pending :: int

text \<open>
  What one call does: the result, None when the queue refused the job, the job's entries if one
  was asked for, and the entries that were fetched.
\<close>

record probe_outcome =
  po_result :: "probe_result option"
  po_enqueued :: "int list option"
  po_concurrency :: int
  po_canaries :: "int list"

definition quiet_outcome :: probe_outcome where
  "quiet_outcome = \<lparr>po_result = Some \<lparr>pr_canaryCount = 0, pr_synced = 0, pr_pending = 0\<rparr>, po_enqueued = None,
     po_concurrency = 0, po_canaries = []\<rparr>"

text \<open>
  The surroundings answer which entries there are, which have stored picks, for which of the
  canaries a complete payload could be fetched and stored, and whether the queue took the job.
  Both state objects are changed in place: when the queue fails, what was already in the maps has
  changed, and what was not is dropped.
\<close>

record probe_answers =
  pa_entryIds :: "int list"
  pa_persisted :: "int list"
  pa_fulfilled :: "int \<Rightarrow> bool"
  pa_queueAccepts :: bool

definition probe_delay :: "lifecycle_config \<Rightarrow> nat \<Rightarrow> int" where
  "probe_delay cf attempts =
     (if cf_picksRetrySchedule cf = [] then 600000
      else cf_picksRetrySchedule cf ! min (attempts - 1) (length (cf_picksRetrySchedule cf) - 1))"

definition in_place :: "'k \<Rightarrow> 'v \<Rightarrow> ('k, 'v) js_map \<Rightarrow> ('k, 'v) js_map" where
  "in_place k v m = (if js_get m k = None then m else js_set k v m)"

text \<open>No canary went through: the next probe waits, and nothing is fanned out.\<close>

definition pause_fanout ::
  "lifecycle_config \<Rightarrow> string \<times> int \<Rightarrow> int \<Rightarrow> int list \<Rightarrow> int list \<Rightarrow> probe_state \<Rightarrow> lifecycle_proc
   \<Rightarrow> probe_outcome \<times> lifecycle_proc" where
  "pause_fanout cf key now pending canaries state proc =
     (let attempts = ps_attempts state + 1;
          state1 = state\<lparr>ps_attempts := attempts, ps_nextProbeAt := now + probe_delay cf attempts\<rparr>
      in (\<lparr>po_result = Some \<lparr>pr_canaryCount = 0, pr_synced = 0, pr_pending = int (length pending)\<rparr>,
           po_enqueued = None, po_concurrency = 0, po_canaries = canaries\<rparr>,
          proc\<lparr>lp_picksProbeStates := js_set key state1 (lp_picksProbeStates proc)\<rparr>))"

definition fan_out ::
  "lifecycle_config \<Rightarrow> string \<times> int \<Rightarrow> int \<Rightarrow> probe_answers \<Rightarrow> int list \<Rightarrow> int list \<Rightarrow> (int, int) js_map \<Rightarrow> probe_state
   \<Rightarrow> lifecycle_proc \<Rightarrow> probe_outcome \<times> lifecycle_proc" where
  "fan_out cf key now answers pending canaries claims state proc =
     (let state1 = state\<lparr>ps_canarySucceeded := True\<rparr>;
          canaryCount = int (length (filter (pa_fulfilled answers) canaries));
          remaining = filter (\<lambda>e. e \<notin> set canaries) pending;
          job = (if remaining = [] then None else Some remaining);
          concurrency = max 1 (min (cf_bulkMaxInflight cf) 3)
      in if job \<noteq> None \<and> \<not> pa_queueAccepts answers
         then (\<lparr>po_result = None, po_enqueued = job, po_concurrency = concurrency, po_canaries = canaries\<rparr>,
           proc\<lparr>lp_picksProbeStates := in_place key state1 (lp_picksProbeStates proc)\<rparr>)
         else
           (\<lparr>po_result = Some \<lparr>pr_canaryCount = canaryCount, pr_synced = canaryCount, pr_pending = int (length remaining)\<rparr>,
              po_enqueued = job, po_concurrency = concurrency, po_canaries = canaries\<rparr>,
            proc\<lparr>lp_picksFanoutClaims := js_set key (fold (\<lambda>e. js_set e now) remaining claims) (lp_picksFanoutClaims proc),
              lp_picksProbeStates := js_set key
                (state1\<lparr>ps_attempts := ps_attempts state1 + 1,
                   ps_nextProbeAt := now + (case cf_picksRetrySchedule cf of [] \<Rightarrow> 120000 | d # _ \<Rightarrow> d)\<rparr>)
                (lp_picksProbeStates proc)\<rparr>))"

definition probe_pending ::
  "lifecycle_config \<Rightarrow> string \<times> int \<Rightarrow> int \<Rightarrow> probe_answers \<Rightarrow> int list \<Rightarrow> (int, int) js_map \<Rightarrow> probe_state
   \<Rightarrow> lifecycle_proc \<Rightarrow> probe_outcome \<times> lifecycle_proc" where
  "probe_pending cf key now answers pending claims state proc =
     (let (canaries, state1) = choose_canaries state pending;
          state2 = note_canaries (pa_fulfilled answers) canaries state1
      in if \<not> ps_canarySucceeded state2 \<and> \<not> list_ex (pa_fulfilled answers) canaries
         then pause_fanout cf key now pending canaries state2 proc
         else fan_out cf key now answers pending canaries claims state2 proc)"

definition runPicksProbeAndSync ::
  "lifecycle_config \<Rightarrow> string \<times> int \<Rightarrow> int \<Rightarrow> probe_answers \<Rightarrow> lifecycle_proc \<Rightarrow> probe_outcome \<times> lifecycle_proc" where
  "runPicksProbeAndSync cf key now answers proc =
     (let state = coalesce (js_get (lp_picksProbeStates proc) key) initial_probe in
      if now < ps_nextProbeAt state then (quiet_outcome, proc)
      else if pa_entryIds answers = [] then (quiet_outcome, proc)
      else
        (let claims = fold AList.delete (js_uniq (pa_persisted answers)) (coalesce (js_get (lp_picksFanoutClaims proc) key) []);
             proc1 = proc\<lparr>lp_picksFanoutClaims := in_place key claims (lp_picksFanoutClaims proc)\<rparr>;
             pending = filter (\<lambda>e. e \<notin> set (pa_persisted answers) \<and> claim_open now claims e) (pa_entryIds answers)
         in if pending = [] then (quiet_outcome, proc1)
            else probe_pending cf key now answers pending claims state proc1))"

section \<open>A tick\<close>

text \<open>The published snapshot, as far as a tick reads it, and the stored row of the status table.\<close>

record live_cache =
  lc_revision :: int
  lc_publicationId :: string
  lc_publishedAt :: string
  lc_sourceCheckedAt :: string
  lc_lastSuccessfulFetchAt :: "string option"
  lc_fixtures :: "fixture list"

record status_row =
  lr_state :: lifecycle_state
  lr_observedAt :: int
  lr_lastChangedAt :: int
  lr_nextRefreshAt :: "int option"
  lr_liveRevision :: "string option"
  lr_publicationId :: "string option"
  lr_sourceCheckedAt :: "js_date option"

text \<open>
  What a tick learns from the surroundings: London's minute of the day, the current event with its
  fixtures, the snapshot if one can be read, whether the status row can be read and written, and
  whether the event's final snapshot was already taken.
\<close>

record tick_answers =
  ta_ukMinutes :: int
  ta_currentEvent :: "event option"
  ta_fixtures :: "fixture list"
  ta_cache :: "live_cache option"
  ta_readable :: bool
  ta_writable :: bool
  ta_finalized :: bool
  ta_probe :: probe_answers

type_synonym status_table = "(int \<times> int, status_row) js_map"

definition isUkFinalizationWindow :: "int \<Rightarrow> bool" where
  "isUkFinalizationWindow totalMinutes = (totalMinutes \<ge> 8 * 60 + 50 \<and> totalMinutes \<le> 9 * 60 + 15)"

definition lifecycleDelay ::
  "lifecycle_config \<Rightarrow> int \<Rightarrow> decision \<Rightarrow> string \<times> int \<Rightarrow> int \<Rightarrow> lifecycle_proc \<Rightarrow> int" where
  "lifecycleDelay cf ukMinutes d key now proc =
     (if dn_state d = FINALIZED then cf_finalizedPoll cf
      else if (case dn_nextRetryAt d of None \<Rightarrow> False | Some t \<Rightarrow> t > now)
      then max 1000 (the (dn_nextRetryAt d) - now)
      else
        (case dn_state d of
           LIVE_ACTIVE \<Rightarrow> LIVE_POLL_MS
         | BETWEEN_FIXTURES \<Rightarrow> cf_betweenFixturesPoll cf
         | DAY_SETTLING \<Rightarrow>
             (case js_get (lp_daySettlingStates proc) key of
                None \<Rightarrow> cf_daySettlingInitialPoll cf
              | Some (_, unchangedSince) \<Rightarrow>
                  if now - unchangedSince \<ge> cf_daySettlingStableAfter cf then cf_daySettlingStablePoll cf
                  else cf_daySettlingInitialPoll cf)
         | GW_REVIEW \<Rightarrow> if isUkFinalizationWindow ukMinutes then cf_gwReviewFinalizationPoll cf else cf_gwReviewPoll cf
         | PICKS_PROBE \<Rightarrow> cf_picksProbePoll cf
         | PICKS_SYNC \<Rightarrow> cf_picksProbePoll cf
         | PRE_DEADLINE \<Rightarrow> cf_preDeadlinePoll cf
         | PICKS_WAIT \<Rightarrow> cf_picksProbePoll cf
         | FINALIZED \<Rightarrow> LIVE_POLL_MS))"

definition observe_revision ::
  "(string \<Rightarrow> js_date) \<Rightarrow> string \<times> int \<Rightarrow> int \<Rightarrow> live_cache option \<Rightarrow> status_row option \<Rightarrow> lifecycle_proc \<Rightarrow> lifecycle_proc" where
  "observe_revision parse_date key now cache persisted proc =
     (let revision = map_option lc_revision cache;
          publishedAtMs = Option.bind cache (\<lambda>c. if lc_publishedAt c = [] then None else parse_date (lc_publishedAt c));
          persistedMs = Option.bind (Option.bind persisted lr_sourceCheckedAt) (\<lambda>d. d);
          initialUnchangedSince =
            (case publishedAtMs of
               Some t \<Rightarrow> min now t
             | None \<Rightarrow> (case persistedMs of Some t \<Rightarrow> min now t | None \<Rightarrow> now))
      in if map_option fst (js_get (lp_daySettlingStates proc) key) = Some revision then proc
         else proc\<lparr>lp_daySettlingStates := js_set key (revision, initialUnchangedSince) (lp_daySettlingStates proc)\<rparr>)"

definition observation_of :: "string \<times> int \<Rightarrow> event \<Rightarrow> fixture list \<Rightarrow> int \<Rightarrow> live_cache option \<Rightarrow> lifecycle_proc \<Rightarrow> observation" where
  "observation_of key event fixtures now cache proc =
     \<lparr>os_lastRevision = map_option lc_revision cache,
      os_unchangedSince = map_option snd (js_get (lp_daySettlingStates proc) key),
      os_matchDayTime = Some (isMatchDayTime event fixtures now),
      os_publicationActive = map_option (\<lambda>c. list_ex (\<lambda>f. fx_started f = Some True \<and> \<not> fx_finished f \<and> \<not> fx_finishedProvisional f)
        (lc_fixtures c)) cache,
      os_publicationStarted = map_option (\<lambda>c. list_ex (\<lambda>f. fx_started f = Some True) (lc_fixtures c)) cache\<rparr>"

definition persistLiveLifecycleStatus ::
  "lifecycle_config \<Rightarrow> (string \<Rightarrow> js_date) \<Rightarrow> int \<Rightarrow> string \<Rightarrow> int \<Rightarrow> tick_answers \<Rightarrow> lifecycle_proc \<times> status_table
   \<Rightarrow> (event \<times> decision) option \<times> lifecycle_proc \<times> status_table" where
  "persistLiveLifecycleStatus cf parse_date seasonId seasonCode now answers st =
     (let (proc, table) = st in
      case ta_currentEvent answers of
        None \<Rightarrow> (None, proc, table)
      | Some event \<Rightarrow>
          (let key = (seasonCode, ev_id event); fixtures = ta_fixtures answers; cache = ta_cache answers;
               persisted = (if ta_readable answers then js_get table (seasonId, ev_id event) else None);
               proc1 = observe_revision parse_date key now cache persisted proc;
               d = decideLiveLifecycle cf parse_date event fixtures now (observation_of key event fixtures now cache proc1);
               proc2 = (if dn_state d \<notin> {DAY_SETTLING, BETWEEN_FIXTURES}
                 then proc1\<lparr>lp_daySettlingStates := AList.delete key (lp_daySettlingStates proc1)\<rparr> else proc1);
               row = \<lparr>lr_state = dn_state d, lr_observedAt = now,
                 lr_lastChangedAt = (case persisted of
                    Some old \<Rightarrow> if lr_state old = dn_state d then lr_lastChangedAt old else now
                  | None \<Rightarrow> now),
                 lr_nextRefreshAt = Some (now + lifecycleDelay cf (ta_ukMinutes answers) d key now proc2),
                 lr_liveRevision = map_option (\<lambda>c. show_int (lc_revision c)) cache,
                 lr_publicationId = map_option lc_publicationId cache,
                 lr_sourceCheckedAt = Option.bind cache (\<lambda>c.
                   let t = coalesce (lc_lastSuccessfulFetchAt c) (lc_sourceCheckedAt c) in
                   if t = [] then None else Some (parse_date t))\<rparr>
           in (Some (event, d), proc2, if ta_writable answers then js_set (seasonId, ev_id event) row table else table)))"

datatype lifecycle_action =
    Enqueue_active_snapshot
  | Enqueue_snapshot bool bool
  | Enqueue_official_h2h

definition live_actions :: "event \<Rightarrow> fixture list \<Rightarrow> int \<Rightarrow> bool \<Rightarrow> decision \<Rightarrow> lifecycle_action list" where
  "live_actions event fixtures now finalized d =
     (if \<not> dn_shouldFetchLive d then []
      else
        (let shouldEnqueueFinalization = (dn_finalizeEvent d \<and> \<not> finalized);
             persistContinuously = (dn_state d = DAY_SETTLING \<or> dn_state d = GW_REVIEW \<or> dn_recoverStaleFixtures d
               \<or> dn_finalizeEvent d)
         in (if \<not> dn_finalizeEvent d \<or> shouldEnqueueFinalization
             then [if dn_state d = LIVE_ACTIVE \<and> \<not> persistContinuously then Enqueue_active_snapshot
                   else Enqueue_snapshot persistContinuously (dn_finalizeEvent d)]
             else [])
            @ (if isMatchDayTime event fixtures now then [Enqueue_official_h2h] else [])))"

definition runLiveLifecycle ::
  "lifecycle_config \<Rightarrow> (string \<Rightarrow> js_date) \<Rightarrow> int \<Rightarrow> string \<Rightarrow> int \<Rightarrow> tick_answers \<Rightarrow> lifecycle_proc \<times> status_table
   \<Rightarrow> (decision \<times> probe_outcome \<times> lifecycle_action list) option \<times> lifecycle_proc \<times> status_table" where
  "runLiveLifecycle cf parse_date seasonId seasonCode now answers st =
     (case persistLiveLifecycleStatus cf parse_date seasonId seasonCode now answers st of
        (None, st1) \<Rightarrow> (None, st1)
      | (Some (event, d), proc1, table1) \<Rightarrow>
          (let (outcome, proc2) =
                 (if dn_shouldProbePicks d \<or> dn_shouldSyncPicks d
                  then runPicksProbeAndSync cf (seasonCode, ev_id event) now (ta_probe answers) proc1
                  else (quiet_outcome, proc1))
           in (Some (d, outcome, live_actions event (ta_fixtures answers) now (ta_finalized answers) d), proc2, table1)))"

section \<open>The lifecycle never goes back\<close>

fun phase :: "lifecycle_state \<Rightarrow> nat" where
  "phase PRE_DEADLINE = 0"
| "phase PICKS_WAIT = 1"
| "phase PICKS_PROBE = 2"
| "phase PICKS_SYNC = 3"
| "phase LIVE_ACTIVE = 4"
| "phase BETWEEN_FIXTURES = 4"
| "phase DAY_SETTLING = 4"
| "phase GW_REVIEW = 5"
| "phase FINALIZED = 6"

definition any_started :: "fixture list \<Rightarrow> observation \<Rightarrow> bool" where
  "any_started fixtures obs \<longleftrightarrow> list_ex (\<lambda>f. is_true (fx_started f)) fixtures \<or> os_publicationStarted obs = Some True"

text \<open>An active publication has a started fixture, as \<open>observation_of\<close> computes both.\<close>

definition observation_ok :: "observation \<Rightarrow> bool" where
  "observation_ok obs \<longleftrightarrow> (os_publicationActive obs = Some True \<longrightarrow> os_publicationStarted obs = Some True)"

lemma observation_of_ok: "observation_ok (observation_of key event fixtures now cache proc)"
  by (cases cache) (auto simp: observation_ok_def observation_of_def list_ex_iff)

definition deadline_ms :: "(string \<Rightarrow> js_date) \<Rightarrow> event \<Rightarrow> js_date" where
  "deadline_ms parse_date event =
     (case ev_deadlineTime event of None \<Rightarrow> None | Some raw \<Rightarrow> if raw = [] then None else parse_date raw)"

lemma core_active_started: "core_active fixtures \<Longrightarrow> any_started fixtures obs"
  by (auto simp: core_active_def any_started_def list_ex_iff)

lemma phase_decide:
  assumes "observation_ok obs"
  shows "phase (dn_state (decideLiveLifecycle cf parse_date event fixtures now obs)) =
    (if ev_finished event \<and> ev_dataChecked event \<and> all_finished fixtures then 6
     else if all_finished fixtures \<and> lastKickoff fixtures \<noteq> None then 5
     else if any_started fixtures obs then 4
     else if (case deadline_ms parse_date event of None \<Rightarrow> False | Some d \<Rightarrow> now < d) then 0
     else if (case deadline_ms parse_date event of None \<Rightarrow> False | Some d \<Rightarrow> now < d + cf_picksFirstProbeOffset cf) then 1
     else if (case firstKickoff fixtures of None \<Rightarrow> False | Some k \<Rightarrow> now < k) then 2 else 3)"
proof -
  have "any_started fixtures obs" if "core_active fixtures \<or> os_publicationActive obs = Some True"
    using that assms core_active_started by (auto simp: observation_ok_def any_started_def)
  then show ?thesis
    unfolding decideLiveLifecycle_def Let_def any_started_def [symmetric] deadline_ms_def [symmetric]
    by (auto simp del: not_None_eq)
qed

definition fixture_later :: "fixture \<Rightarrow> fixture \<Rightarrow> bool" where
  "fixture_later f g \<longleftrightarrow> fx_kickoffTime g = fx_kickoffTime f \<and> (is_true (fx_started f) \<longrightarrow> is_true (fx_started g)) \<and>
     (fx_finished f \<longrightarrow> fx_finished g) \<and> (fx_finishedProvisional f \<longrightarrow> fx_finishedProvisional g)"

definition event_later :: "event \<Rightarrow> event \<Rightarrow> bool" where
  "event_later e e' \<longleftrightarrow> ev_deadlineTime e' = ev_deadlineTime e \<and> (ev_finished e \<longrightarrow> ev_finished e') \<and>
     (ev_dataChecked e \<longrightarrow> ev_dataChecked e')"

lemma later_kickoffs: "list_all2 fixture_later fs gs \<Longrightarrow> kickoff_times gs = kickoff_times fs"
  by (induction rule: list_all2_induct) (auto simp: kickoff_times_def List.map_filter_def fixture_later_def)

lemma later_finished: "list_all2 fixture_later fs gs \<Longrightarrow> all_finished fs \<Longrightarrow> all_finished gs"
proof -
  assume "list_all2 fixture_later fs gs" "all_finished fs"
  moreover from this have "list_all fixture_over gs"
    unfolding all_finished_def by (induction rule: list_all2_induct) (auto simp: fixture_over_def fixture_later_def)
  ultimately show ?thesis by (auto simp: all_finished_def)
qed

lemma later_started: "list_all2 fixture_later fs gs \<Longrightarrow> list_ex (\<lambda>f. is_true (fx_started f)) fs \<Longrightarrow> list_ex (\<lambda>f. is_true (fx_started f)) gs"
  by (induction rule: list_all2_induct) (auto simp: fixture_later_def)

text \<open>
  C30. The lifecycle never goes back: as time passes and the evidence grows (fixtures start and
  finish at unchanged kick-off times, the event is finished and checked, a publication has
  started), a later tick decides for the same or a later phase.
\<close>

theorem lifecycle_never_regresses:
  assumes "now \<le> now'" "event_later event event'" "list_all2 fixture_later fixtures fixtures'"
    and "observation_ok obs" "observation_ok obs'"
    and "os_publicationStarted obs = Some True \<longrightarrow> os_publicationStarted obs' = Some True"
  shows "phase (dn_state (decideLiveLifecycle cf parse_date event fixtures now obs)) \<le>
    phase (dn_state (decideLiveLifecycle cf parse_date event' fixtures' now' obs'))"
proof -
  have deadline: "deadline_ms parse_date event' = deadline_ms parse_date event"
    using assms(2) by (simp add: deadline_ms_def event_later_def)
  have kicks: "firstKickoff fixtures' = firstKickoff fixtures" "lastKickoff fixtures' = lastKickoff fixtures"
    using later_kickoffs [OF assms(3)] by (simp_all add: firstKickoff_def lastKickoff_def)
  have over: "all_finished fixtures \<longrightarrow> all_finished fixtures'" using later_finished [OF assms(3)] by blast
  have started: "any_started fixtures obs \<longrightarrow> any_started fixtures' obs'"
    using later_started [OF assms(3)] assms(6) by (auto simp: any_started_def)
  have ended: "ev_finished event \<and> ev_dataChecked event \<longrightarrow> ev_finished event' \<and> ev_dataChecked event'"
    using assms(2) by (auto simp: event_later_def)
  show ?thesis
    unfolding phase_decide [OF assms(4)] phase_decide [OF assms(5)] deadline kicks
    using over started ended assms(1) by (cases "deadline_ms parse_date event"; cases "firstKickoff fixtures") auto
qed

section \<open>Probing over the life of the process\<close>

text \<open>
  The ticks of one event in the order they ran, with the state they led to. In between, ticks of
  other events and the quiet-revision clock may change the rest of the state; a restart of the
  process begins a new run.
\<close>

type_synonym probe_tick = "int \<times> probe_answers \<times> probe_outcome"

inductive probe_run :: "lifecycle_config \<Rightarrow> string \<times> int \<Rightarrow> probe_tick list \<Rightarrow> lifecycle_proc \<Rightarrow> bool" for cf key where
  start: "probe_run cf key [] \<lparr>lp_picksProbeStates = [], lp_daySettlingStates = [], lp_picksFanoutClaims = []\<rparr>"
| tick: "probe_run cf key ticks proc \<Longrightarrow> (\<And>tick. tick \<in> set ticks \<Longrightarrow> fst tick \<le> now) \<Longrightarrow>
    runPicksProbeAndSync cf key now answers proc = (outcome, proc') \<Longrightarrow> probe_run cf key (ticks @ [(now, answers, outcome)]) proc'"
| other: "probe_run cf key ticks proc \<Longrightarrow>
    js_get (lp_picksProbeStates proc') key = js_get (lp_picksProbeStates proc) key \<Longrightarrow>
    js_get (lp_picksFanoutClaims proc') key = js_get (lp_picksFanoutClaims proc) key \<Longrightarrow> probe_run cf key ticks proc'"

abbreviation state_at :: "lifecycle_proc \<Rightarrow> string \<times> int \<Rightarrow> probe_state" where
  "state_at proc key \<equiv> coalesce (js_get (lp_picksProbeStates proc) key) initial_probe"

abbreviation claims_at :: "lifecycle_proc \<Rightarrow> string \<times> int \<Rightarrow> (int, int) js_map" where
  "claims_at proc key \<equiv> coalesce (js_get (lp_picksFanoutClaims proc) key) []"

definition open_claims :: "probe_answers \<Rightarrow> lifecycle_proc \<Rightarrow> string \<times> int \<Rightarrow> (int, int) js_map" where
  "open_claims answers proc key = fold AList.delete (js_uniq (pa_persisted answers)) (claims_at proc key)"

lemma get_delete_all: "js_get (fold AList.delete ks m) k = (if k \<in> set ks then None else js_get m k)"
proof (induction ks arbitrary: m)
  case (Cons j ks)
  then show ?case by (auto simp: delete_conv')
qed simp

lemma get_open_claims: "js_get (open_claims answers proc key) e = (if e \<in> set (pa_persisted answers) then None else js_get (claims_at proc key) e)"
  by (simp add: open_claims_def get_delete_all)

lemma get_set_all: "js_get (fold (\<lambda>e. js_set e now) ks m) k = (if k \<in> set ks then Some now else js_get m k)"
  by (induction ks arbitrary: m) auto

lemma get_in_place: "js_get (in_place k v m) k' = (if k' = k \<and> js_get m k \<noteq> None then Some v else js_get m k')"
  by (auto simp: in_place_def)

lemma chosen_canaries:
  "choose_canaries st pending = (canaries, st') \<Longrightarrow>
   ps_canarySucceeded st' = ps_canarySucceeded st \<and> set canaries \<subseteq> set pending \<and> (ps_canarySucceeded st \<longrightarrow> canaries = [])"
proof (cases "take 2 (filter (\<lambda>e. e \<notin> set (ps_failedCanaryEntryIds st)) pending)")
  case (Cons e es)
  have "set (take 2 (filter (\<lambda>e. e \<notin> set (ps_failedCanaryEntryIds st)) pending)) \<subseteq> set pending" by (auto dest: in_set_takeD)
  with Cons show "choose_canaries st pending = (canaries, st') \<Longrightarrow> ?thesis"
    by (auto simp: choose_canaries_def split: if_splits dest: in_set_takeD)
qed (auto simp: choose_canaries_def split: if_splits dest: in_set_takeD)

lemma note_canaries_same [simp]: "ps_canarySucceeded (note_canaries f cs st) = ps_canarySucceeded st"
  by (simp add: note_canaries_def)

text \<open>The three ways a tick can go.\<close>

lemma tick_cases:
  assumes "runPicksProbeAndSync cf key now answers proc = (outcome, proc')"
  obtains
    (quiet) "outcome = quiet_outcome"
      "js_get (lp_picksProbeStates proc') key = js_get (lp_picksProbeStates proc) key"
      "claims_at proc' key = claims_at proc key \<or> claims_at proc' key = open_claims answers proc key"
  | (paused) "po_enqueued outcome = None" "ps_nextProbeAt (state_at proc key) \<le> now"
      "\<not> list_ex (pa_fulfilled answers) (po_canaries outcome)" "\<not> ps_canarySucceeded (state_at proc' key)"
      "claims_at proc' key = claims_at proc key \<or> claims_at proc' key = open_claims answers proc key"
  | (refused) ids where "po_enqueued outcome = Some ids" "po_result outcome = None"
      "ps_canarySucceeded (state_at proc key) \<or> list_ex (pa_fulfilled answers) (po_canaries outcome)"
      "\<And>e. e \<in> set ids \<Longrightarrow> e \<in> set (pa_entryIds answers) \<and> e \<notin> set (pa_persisted answers) \<and>
        e \<notin> set (po_canaries outcome) \<and> claim_open now (open_claims answers proc key) e"
      "claims_at proc' key = claims_at proc key \<or> claims_at proc' key = open_claims answers proc key"
      "ids \<noteq> []"
  | (fanned) ids where "po_enqueued outcome = (if ids = [] then None else Some ids)" "po_result outcome \<noteq> None"
      "ps_canarySucceeded (state_at proc key) \<or> list_ex (pa_fulfilled answers) (po_canaries outcome)"
      "\<And>e. e \<in> set ids \<Longrightarrow> e \<in> set (pa_entryIds answers) \<and> e \<notin> set (pa_persisted answers) \<and>
        e \<notin> set (po_canaries outcome) \<and> claim_open now (open_claims answers proc key) e"
      "claims_at proc' key = fold (\<lambda>e. js_set e now) ids (open_claims answers proc key)"
proof -
  let ?st = "state_at proc key" and ?claims = "open_claims answers proc key"
  let ?proc1 = "proc\<lparr>lp_picksFanoutClaims := in_place key ?claims (lp_picksFanoutClaims proc)\<rparr>"
  let ?pending = "filter (\<lambda>e. e \<notin> set (pa_persisted answers) \<and> claim_open now ?claims e) (pa_entryIds answers)"
  have claims1: "claims_at ?proc1 key = claims_at proc key \<or> claims_at ?proc1 key = ?claims"
    by (auto simp: get_in_place)
  show ?thesis
  proof (cases "now < ps_nextProbeAt ?st \<or> pa_entryIds answers = [] \<or> ?pending = []")
    case True
    then have "outcome = quiet_outcome \<and> (proc' = proc \<or> proc' = ?proc1)"
      using assms unfolding runPicksProbeAndSync_def Let_def open_claims_def [symmetric] by (auto split: if_splits)
    then show ?thesis using quiet claims1 by auto
  next
    case False
    then have run: "probe_pending cf key now answers ?pending ?claims ?st ?proc1 = (outcome, proc')"
      using assms unfolding runPicksProbeAndSync_def Let_def open_claims_def [symmetric] by (simp split: if_splits)
    obtain canaries st1 where chosen: "choose_canaries ?st ?pending = (canaries, st1)" by fastforce
    note c = chosen_canaries [OF chosen]
    let ?st2 = "note_canaries (pa_fulfilled answers) canaries st1"
    show ?thesis
    proof (cases "\<not> ps_canarySucceeded ?st2 \<and> \<not> list_ex (pa_fulfilled answers) canaries")
      case True
      then have "pause_fanout cf key now ?pending canaries ?st2 ?proc1 = (outcome, proc')"
        using run chosen by (simp add: probe_pending_def)
      then show ?thesis using paused True False claims1 by (auto simp: pause_fanout_def Let_def)
    next
      case fan: False
      then have out: "fan_out cf key now answers ?pending canaries ?claims ?st2 ?proc1 = (outcome, proc')"
        using run unfolding probe_pending_def chosen Let_def prod.case if_not_P [OF fan] by simp
      have canary: "ps_canarySucceeded ?st \<or> list_ex (pa_fulfilled answers) canaries" using fan c by auto
      let ?ids = "filter (\<lambda>e. e \<notin> set canaries) ?pending"
      show ?thesis
      proof (cases "?ids \<noteq> [] \<and> \<not> pa_queueAccepts answers")
        case True
        then show ?thesis using out canary claims1 by (intro refused [of ?ids]) (auto simp: fan_out_def Let_def)
      next
        case False
        then show ?thesis using out canary by (intro fanned [of ?ids]) (auto simp: fan_out_def Let_def)
      qed
    qed
  qed
qed

lemma canary_flag:
  assumes "runPicksProbeAndSync cf key now answers proc = (outcome, proc')" "ps_canarySucceeded (state_at proc' key)"
  shows "ps_canarySucceeded (state_at proc key) \<or> list_ex (pa_fulfilled answers) (po_canaries outcome)"
  using assms(1) by (cases rule: tick_cases) (use assms(2) in auto)

text \<open>A canary has gone through by the time fan-out is allowed.\<close>

definition canary_seen :: "probe_tick list \<Rightarrow> bool" where
  "canary_seen ticks \<longleftrightarrow> (\<exists>(t, answers, outcome) \<in> set ticks. list_ex (pa_fulfilled answers) (po_canaries outcome))"

lemma canary_seen_snoc:
  "canary_seen (ticks @ [(t, answers, outcome)]) \<longleftrightarrow> canary_seen ticks \<or> list_ex (pa_fulfilled answers) (po_canaries outcome)"
  by (auto simp: canary_seen_def)

lemma run_canary: "probe_run cf key ticks proc \<Longrightarrow> ps_canarySucceeded (state_at proc key) \<Longrightarrow> canary_seen ticks"
proof (induction rule: probe_run.induct)
  case start
  then show ?case by (simp add: initial_probe_def)
next
  case (tick ticks proc now answers outcome proc')
  then show ?case using canary_flag [OF tick.hyps(3)] by (auto simp: canary_seen_snoc)
qed simp

lemma snoc_split:
  "ticks @ [x] = before @ y # after \<longleftrightarrow> (\<exists>after'. after = after' @ [x] \<and> ticks = before @ y # after') \<or> after = [] \<and> ticks = before \<and> y = x"
  by (cases after rule: rev_cases) auto

text \<open>
  The claims remember every fan-out the queue accepted, until the entry's picks are stored.
\<close>

definition stored_between :: "int \<Rightarrow> probe_tick list \<Rightarrow> bool" where
  "stored_between e ticks \<longleftrightarrow> (\<exists>(t, answers, outcome) \<in> set ticks. e \<in> set (pa_persisted answers))"

definition fanned_out :: "probe_tick \<Rightarrow> int \<Rightarrow> bool" where
  "fanned_out tick e \<longleftrightarrow> (\<exists>ids. po_enqueued (snd (snd tick)) = Some ids \<and> e \<in> set ids)"

lemma claims_kept:
  assumes "runPicksProbeAndSync cf key now answers proc = (outcome, proc')" "e \<notin> set (pa_persisted answers)"
    "js_get (claims_at proc key) e = Some u" "u \<le> now"
  shows "\<exists>u'. u \<le> u' \<and> u' \<le> now \<and> js_get (claims_at proc' key) e = Some u'"
  using assms(1)
proof (cases rule: tick_cases)
  case quiet
  then show ?thesis using assms(2-4) get_open_claims [of answers proc key e] by auto
next
  case paused
  then show ?thesis using assms(2-4) get_open_claims [of answers proc key e] by auto
next
  case (refused ids)
  then show ?thesis using assms(2-4) get_open_claims [of answers proc key e] by auto
next
  case (fanned ids)
  then show ?thesis using assms(2-4) get_open_claims [of answers proc key e] by (auto simp: get_set_all)
qed

lemma fan_out_claims:
  assumes "runPicksProbeAndSync cf key now answers proc = (outcome, proc')" "po_result outcome \<noteq> None"
    "po_enqueued outcome = Some ids" "e \<in> set ids"
  shows "js_get (claims_at proc' key) e = Some now"
  using assms(1) by (cases rule: tick_cases) (use assms(2-4) in \<open>auto simp: quiet_outcome_def get_set_all split: if_splits\<close>)

lemma fan_out_open:
  assumes "runPicksProbeAndSync cf key now answers proc = (outcome, proc')" "po_enqueued outcome = Some ids" "e \<in> set ids"
  shows "e \<in> set (pa_entryIds answers) \<and> e \<notin> set (pa_persisted answers) \<and> e \<notin> set (po_canaries outcome) \<and>
    (\<forall>u. js_get (claims_at proc key) e = Some u \<longrightarrow> now - u \<ge> 10 * 60000) \<and>
    (ps_canarySucceeded (state_at proc key) \<or> list_ex (pa_fulfilled answers) (po_canaries outcome))"
proof -
  have spaced: "\<forall>u. js_get (claims_at proc key) e = Some u \<longrightarrow> now - u \<ge> 10 * 60000"
    if "claim_open now (open_claims answers proc key) e" "e \<notin> set (pa_persisted answers)"
    using that by (auto simp: claim_open_def get_open_claims)
  from assms(1) show ?thesis
  proof (cases rule: tick_cases)
    case (refused ids')
    then show ?thesis using assms(2,3) spaced by auto
  next
    case (fanned ids')
    then have "ids = ids'" using assms(2) by (auto split: if_splits)
    then show ?thesis using assms(3) fanned(3,4) spaced by blast
  qed (use assms(2) in \<open>auto simp: quiet_outcome_def\<close>)
qed

lemma run_claims:
  "probe_run cf key ticks proc \<Longrightarrow> ticks = before @ tick # after \<Longrightarrow> po_result (snd (snd tick)) \<noteq> None \<Longrightarrow> fanned_out tick e \<Longrightarrow>
   \<not> stored_between e after \<Longrightarrow> \<exists>u \<ge> fst tick. js_get (claims_at proc key) e = Some u \<and> u \<le> fst (last ticks)"
proof (induction arbitrary: before after rule: probe_run.induct)
  case (tick ticks proc now answers outcome proc')
  from tick.prems(1) consider
      (old) after' where "after = after' @ [(now, answers, outcome)]" "ticks = before @ tick # after'"
    | (new) "after = []" "tick = (now, answers, outcome)" unfolding snoc_split by blast
  then show ?case
  proof cases
    case old
    have s: "\<not> stored_between e after'" "e \<notin> set (pa_persisted answers)"
      using tick.prems(4) old(1) by (auto simp: stored_between_def)
    obtain u where u: "fst tick \<le> u" "js_get (claims_at proc key) e = Some u" "u \<le> fst (last ticks)"
      using tick.IH [OF old(2) tick.prems(2,3) s(1)] by blast
    have "last ticks \<in> set ticks" using old(2) by simp
    then have le: "u \<le> now" using u(3) tick.hyps(2) by fastforce
    show ?thesis using claims_kept [OF tick.hyps(3) s(2) u(2) le] u(1) by fastforce
  next
    case new
    then show ?thesis using fan_out_claims [OF tick.hyps(3)] tick.prems(2,3) by (auto simp: fanned_out_def)
  qed
qed auto

lemma run_spacing:
  "probe_run cf key ticks proc \<Longrightarrow> ticks = before @ first # between @ second # after \<Longrightarrow> po_result (snd (snd first)) \<noteq> None \<Longrightarrow>
   fanned_out first e \<Longrightarrow> fanned_out second e \<Longrightarrow> \<not> stored_between e between \<Longrightarrow> fst second - fst first \<ge> 10 * 60000"
proof (induction arbitrary: before first between second after rule: probe_run.induct)
  case (tick ticks proc now answers outcome proc')
  have "ticks @ [(now, answers, outcome)] = (before @ first # between) @ second # after" using tick.prems(1) by simp
  then consider (old) after' where "ticks = before @ first # between @ second # after'"
    | (new) "ticks = before @ first # between" "second = (now, answers, outcome)" unfolding snoc_split by auto
  then show ?case
  proof cases
    case old
    then show ?thesis using tick.IH [OF old] tick.prems(2-5) by blast
  next
    case new
    obtain u where u: "fst first \<le> u" "js_get (claims_at proc key) e = Some u"
      using run_claims [OF tick.hyps(1) new(1) tick.prems(2,3,5)] by blast
    obtain ids where "po_enqueued outcome = Some ids" "e \<in> set ids" using tick.prems(4) new(2) by (auto simp: fanned_out_def)
    then have "now - u \<ge> 10 * 60000" using fan_out_open [OF tick.hyps(3)] u(2) by blast
    then show ?thesis using u(1) new(2) by simp
  qed
qed auto

lemma run_fanout:
  "probe_run cf key ticks proc \<Longrightarrow> ticks = before @ (now, answers, outcome) # after \<Longrightarrow> po_enqueued outcome = Some ids \<Longrightarrow>
   set ids \<subseteq> set (pa_entryIds answers) - set (pa_persisted answers) - set (po_canaries outcome) \<and>
   canary_seen (before @ [(now, answers, outcome)])"
proof (induction arbitrary: before now answers outcome after rule: probe_run.induct)
  case (tick ticks proc now' answers' outcome' proc')
  from tick.prems(1) consider (old) after' where "ticks = before @ (now, answers, outcome) # after'"
    | (new) "ticks = before" "(now, answers, outcome) = (now', answers', outcome')" unfolding snoc_split by auto
  then show ?case
  proof cases
    case old
    then show ?thesis using tick.IH tick.prems(2) by blast
  next
    case new
    have ids: "po_enqueued outcome' = Some ids" using tick.prems(2) new(2) by simp
    have fan: "canary_seen ticks \<or> list_ex (pa_fulfilled answers') (po_canaries outcome')" if "e \<in> set ids" for e
      using fan_out_open [OF tick.hyps(3) ids that] run_canary [OF tick.hyps(1)] by blast
    have "ids \<noteq> []" using tick.hyps(3) by (cases rule: tick_cases) (use ids in \<open>auto simp: quiet_outcome_def split: if_splits\<close>)
    then obtain e where "e \<in> set ids" by (cases ids) auto
    then have "canary_seen (before @ [(now, answers, outcome)])" using fan new by (auto simp: canary_seen_snoc)
    moreover have "set ids \<subseteq> set (pa_entryIds answers) - set (pa_persisted answers) - set (po_canaries outcome)"
      using fan_out_open [OF tick.hyps(3) ids] new(2) by blast
    ultimately show ?thesis by blast
  qed
qed auto

text \<open>
  C31. Fan-out waits for a canary and is spaced: a tick asks the queue for picks only when in this
  or an earlier tick of the event some canary's payload was fetched whole and stored, and asks
  only for entries of the event whose picks are not stored and that this tick did not fetch
  itself. An entry that an earlier tick handed to the queue with success, and whose picks no tick
  in between found stored, is handed over again only after ten minutes.
\<close>

theorem picks_fan_out:
  assumes "probe_run cf key (before @ (now, answers, outcome) # after) proc" "po_enqueued outcome = Some ids"
  shows "set ids \<subseteq> set (pa_entryIds answers) - set (pa_persisted answers) - set (po_canaries outcome) \<and>
    (\<exists>(t, answers', outcome') \<in> set (before @ [(now, answers, outcome)]). list_ex (pa_fulfilled answers') (po_canaries outcome')) \<and>
    (\<forall>earlier t1 answers1 outcome1 between ids1 e.
      before = earlier @ (t1, answers1, outcome1) # between \<and> po_result outcome1 \<noteq> None \<and> po_enqueued outcome1 = Some ids1 \<and>
      e \<in> set ids1 \<and> e \<in> set ids \<and> (\<forall>(t, answers', outcome') \<in> set between. e \<notin> set (pa_persisted answers')) \<longrightarrow>
      now - t1 \<ge> 10 * 60000)"
proof (intro conjI)
  show "\<forall>earlier t1 answers1 outcome1 between ids1 e.
      before = earlier @ (t1, answers1, outcome1) # between \<and> po_result outcome1 \<noteq> None \<and> po_enqueued outcome1 = Some ids1 \<and>
      e \<in> set ids1 \<and> e \<in> set ids \<and> (\<forall>(t, answers', outcome') \<in> set between. e \<notin> set (pa_persisted answers')) \<longrightarrow>
      now - t1 \<ge> 10 * 60000"
  proof (intro allI impI, elim conjE)
    fix earlier t1 answers1 outcome1 between ids1 e
    assume before: "before = earlier @ (t1, answers1, outcome1) # between" and rest: "po_result outcome1 \<noteq> None"
      "po_enqueued outcome1 = Some ids1" "e \<in> set ids1" "e \<in> set ids"
      "\<forall>(t, answers', outcome') \<in> set between. e \<notin> set (pa_persisted answers')"
    have "probe_run cf key (earlier @ (t1, answers1, outcome1) # between @ (now, answers, outcome) # after) proc"
      using assms(1) before by simp
    from run_spacing [OF this refl, of e] show "now - t1 \<ge> 10 * 60000"
      using rest assms(2) by (fastforce simp: fanned_out_def stored_between_def)
  qed
qed (use run_fanout [OF assms(1) refl assms(2)] in \<open>simp_all add: canary_seen_def\<close>)

section \<open>Witnesses\<close>

definition sample_fixture :: "bool option \<Rightarrow> bool \<Rightarrow> fixture" where
  "sample_fixture started finished = \<lparr>fx_id = 1, fx_code = 1, fx_event = Some 1, fx_finished = finished, fx_finishedProvisional = finished,
     fx_kickoffTime = Some (Some 10000000), fx_minutes = 0, fx_provisionalStartTime = False, fx_started = started,
     fx_teamA = 1, fx_teamAScore = None, fx_teamH = 2, fx_teamHScore = None, fx_stats = [], fx_teamHDifficulty = None,
     fx_teamADifficulty = None, fx_pulseId = 1, fx_createdAt = None, fx_updatedAt = None\<rparr>"

definition sample_event :: event where
  "sample_event = \<lparr>ev_id = 1, ev_name = ''GW1'', ev_deadlineTime = Some ''d'', ev_averageEntryScore = None, ev_finished = False,
     ev_dataChecked = False, ev_dataCheckedAt = None, ev_highestScoringEntry = None, ev_deadlineTimeEpoch = None,
     ev_deadlineTimeGameOffset = None, ev_highestScore = None, ev_isPrevious = False, ev_isCurrent = True, ev_isNext = False,
     ev_cupLeagueCreate = False, ev_h2hKoMatchesCreated = False, ev_chipPlays = None, ev_mostSelected = None,
     ev_mostTransferredIn = None, ev_topElement = None, ev_topElementInfo = None, ev_transfersMade = None,
     ev_mostCaptained = None, ev_mostViceCaptained = None, ev_createdAt = None, ev_updatedAt = None\<rparr>"

definition sample_observation :: observation where
  "sample_observation = \<lparr>os_lastRevision = None, os_unchangedSince = None, os_matchDayTime = Some True,
     os_publicationActive = None, os_publicationStarted = None\<rparr>"

abbreviation sample_decide :: "fixture list \<Rightarrow> int \<Rightarrow> decision" where
  "sample_decide fixtures now \<equiv>
     decideLiveLifecycle default_config (\<lambda>_. Some 5000000) sample_event fixtures now sample_observation"

theorem lifecycle_never_regresses_witness:
  "phase (dn_state (sample_decide [sample_fixture (Some False) False] 9000000)) = 2 \<and>
   phase (dn_state (sample_decide [sample_fixture (Some False) False] 9000000))
     \<le> phase (dn_state (sample_decide [sample_fixture (Some True) False] 10060000)) \<and>
   dn_state (sample_decide [sample_fixture (Some True) False] 10060000) = LIVE_ACTIVE"
proof -
  have "list_all2 fixture_later [sample_fixture (Some False) False] [sample_fixture (Some True) False]"
    by (simp add: fixture_later_def sample_fixture_def)
  moreover have "observation_ok sample_observation" by (simp add: observation_ok_def sample_observation_def)
  moreover have "phase (dn_state (sample_decide [sample_fixture (Some False) False] 9000000)) = 2"
    "dn_state (sample_decide [sample_fixture (Some True) False] 10060000) = LIVE_ACTIVE" by code_simp+
  ultimately show ?thesis
    using lifecycle_never_regresses [of 9000000 10060000 sample_event sample_event] by (simp add: event_later_def)
qed

text \<open>Three ticks: the canary goes through, the failed canary follows, and the third entry is asked for again.\<close>

definition sample_answers :: "int list \<Rightarrow> probe_answers" where
  "sample_answers persisted = \<lparr>pa_entryIds = [1, 2, 3], pa_persisted = persisted, pa_fulfilled = (\<lambda>e. e = 1), pa_queueAccepts = True\<rparr>"

definition sample_key :: "string \<times> int" where "sample_key = (''2526'', 1)"

definition sample_tick :: "int \<Rightarrow> int list \<Rightarrow> lifecycle_proc \<Rightarrow> probe_outcome \<times> lifecycle_proc" where
  "sample_tick now persisted = runPicksProbeAndSync default_config sample_key now (sample_answers persisted)"

definition sample_tick1 :: "probe_outcome \<times> lifecycle_proc" where
  "sample_tick1 = sample_tick 1000 [] \<lparr>lp_picksProbeStates = [], lp_daySettlingStates = [], lp_picksFanoutClaims = []\<rparr>"
definition sample_tick2 :: "probe_outcome \<times> lifecycle_proc" where "sample_tick2 = sample_tick 130000 [1] (snd sample_tick1)"
definition sample_tick3 :: "probe_outcome \<times> lifecycle_proc" where "sample_tick3 = sample_tick 601000 [1, 2] (snd sample_tick2)"

definition sample_ticks :: "probe_tick list" where
  "sample_ticks = [(1000, sample_answers [], fst sample_tick1), (130000, sample_answers [1], fst sample_tick2),
     (601000, sample_answers [1, 2], fst sample_tick3)]"

lemma sample_run: "probe_run default_config sample_key sample_ticks (snd sample_tick3)"
proof -
  have "probe_run default_config sample_key [(1000, sample_answers [], fst sample_tick1)] (snd sample_tick1)"
    using probe_run.tick [OF probe_run.start, of 1000 default_config sample_key "sample_answers []"]
    by (simp add: sample_tick1_def sample_tick_def)
  then have "probe_run default_config sample_key ([(1000, sample_answers [], fst sample_tick1)] @ [(130000, sample_answers [1], fst sample_tick2)])
      (snd sample_tick2)"
    by (rule probe_run.tick) (simp_all add: sample_tick2_def sample_tick_def)
  then have "probe_run default_config sample_key (([(1000, sample_answers [], fst sample_tick1)] @ [(130000, sample_answers [1], fst sample_tick2)])
      @ [(601000, sample_answers [1, 2], fst sample_tick3)]) (snd sample_tick3)"
    by (rule probe_run.tick) (auto simp: sample_tick3_def sample_tick_def)
  then show ?thesis by (simp add: sample_ticks_def)
qed

lemma sample_fanouts:
  "po_enqueued (fst sample_tick1) = Some [3]" "po_enqueued (fst sample_tick2) = Some [2]" "po_enqueued (fst sample_tick3) = Some [3]"
  "\<not> Option.is_none (po_result (fst sample_tick1))"
  by code_simp+

theorem picks_fan_out_witness:
  "po_enqueued (fst sample_tick3) = Some [3] \<and> set [3] \<subseteq> set (pa_entryIds (sample_answers [1, 2])) - {1, 2} \<and>
   (\<exists>(t, answers, outcome) \<in> set sample_ticks. list_ex (pa_fulfilled answers) (po_canaries outcome)) \<and>
   po_enqueued (fst sample_tick1) = Some [3] \<and> (601000 :: int) - 1000 \<ge> 10 * 60000"
proof -
  note run = picks_fan_out [of default_config sample_key
    "[(1000, sample_answers [], fst sample_tick1), (130000, sample_answers [1], fst sample_tick2)]" 601000
    "sample_answers [1, 2]" "fst sample_tick3" "[]" "snd sample_tick3" "[3]"]
  have "po_result (fst sample_tick1) \<noteq> None" using sample_fanouts(4) by (simp add: Option.is_none_def)
  then show ?thesis
    using run sample_run sample_fanouts(1,3)
    by (simp add: sample_ticks_def sample_answers_def)
qed

end
