(* ===== verification/MutationScopes.thy ===== *)
theory MutationScopes
  imports Json
begin

text \<open>
  The scopes that serialise writers (\<open>src/src/domain/mutation-scope.ts\<close>) and the row locks by which
  transactions hold them (\<open>src/src/utils/mutation-scopes.ts\<close>). An absent or infinite id is None.
\<close>

section \<open>Scopes of a job\<close>

record scope_input =
  si_queueName :: string
  si_jobName :: string
  si_eventId :: "int option"
  si_tournamentId :: "int option"
  si_scopes :: "string list option"

definition TOURNAMENT_STRUCTURE_GLOBAL_SCOPE :: string where
  "TOURNAMENT_STRUCTURE_GLOBAL_SCOPE = ''tournament-structure:global''"

definition tournamentSetupRebuildScopes :: "int option \<Rightarrow> string list" where
  "tournamentSetupRebuildScopes tournamentId =
     [case tournamentId of
        Some n \<Rightarrow> ''tournament-structure:tournament:'' @ show_int n
      | None \<Rightarrow> ''tournament-structure:all'',
      TOURNAMENT_STRUCTURE_GLOBAL_SCOPE]"

definition tournamentSetupBackfillEventScopes :: "int option \<Rightarrow> string list" where
  "tournamentSetupBackfillEventScopes eventId =
     [case eventId of
        Some n \<Rightarrow> ''tournament-structure:event:'' @ show_int n
      | None \<Rightarrow> ''tournament-structure:all'',
      TOURNAMENT_STRUCTURE_GLOBAL_SCOPE]"

definition tournamentSetupLifecycleScope :: "int option \<Rightarrow> string" where
  "tournamentSetupLifecycleScope tournamentId =
     (case tournamentId of
        Some n \<Rightarrow> ''tournament-setup:tournament:'' @ show_int n
      | None \<Rightarrow> ''tournament-setup:all'')"

definition tournamentEntryCoreScopes :: "int \<Rightarrow> int list \<Rightarrow> string list" where
  "tournamentEntryCoreScopes seasonId entryIds =
     js_sort code_unit_cmp (js_uniq
       (map (\<lambda>e. ''entry-core:'' @ show_int seasonId @ '':'' @ show_int e) (filter (\<lambda>e. e > 0) entryIds)))"

definition tournamentSetupEnqueueScope :: "int option \<Rightarrow> string" where
  "tournamentSetupEnqueueScope tournamentId =
     (case tournamentId of
        Some n \<Rightarrow> ''tournament-setup-enqueue:tournament:'' @ show_int n
      | None \<Rightarrow> ''tournament-setup-enqueue:all'')"

definition withEvent :: "string \<Rightarrow> int option \<Rightarrow> string" where
  "withEvent scope eventId = (case eventId of Some n \<Rightarrow> scope @ '':event:'' @ show_int n | None \<Rightarrow> scope @ '':all'')"

definition withTournament :: "string \<Rightarrow> int option \<Rightarrow> string" where
  "withTournament scope tournamentId =
     (case tournamentId of Some n \<Rightarrow> scope @ '':tournament:'' @ show_int n | None \<Rightarrow> scope @ '':all'')"

definition tournament_sync_scopes :: "string \<Rightarrow> int option \<Rightarrow> string list" where
  "tournament_sync_scopes jobName eventId =
     (if jobName = ''tournament-event-results'' then
        [''data-core:events'', withEvent ''entry-event-picks'' eventId, withEvent ''entry-event-transfers'' eventId,
         withEvent ''entry-event-results'' eventId, withEvent ''tournament-event-results'' eventId]
      else if jobName = ''tournament-event-picks'' then
        [withEvent ''entry-event-picks'' eventId, withEvent ''tournament-event-mutations'' eventId]
      else if jobName \<in> {''tournament-transfers-pre'', ''tournament-transfers-post''} then
        [withEvent ''entry-event-transfers'' eventId, withEvent ''tournament-event-mutations'' eventId]
      else if jobName = ''tournament-selection-stats'' then [withEvent ''tournament-event-mutations'' eventId]
      else if jobName \<in> {''tournament-points-race'', ''tournament-battle-race'', ''tournament-knockout'',
          ''tournament-official-h2h''} then
        [withEvent ''tournament-structure'' eventId, TOURNAMENT_STRUCTURE_GLOBAL_SCOPE]
      else if jobName = ''tournament-cup-results'' then [withEvent ''tournament-cup-results'' eventId]
      else if jobName = ''tournament-materialized-views-refresh'' then
        [TOURNAMENT_STRUCTURE_GLOBAL_SCOPE, ''data-core:events'']
      else if jobName = ''tournament-info'' then [''tournament-info:all'']
      else [])"

definition resolveMutationScopes :: "scope_input \<Rightarrow> string list" where
  "resolveMutationScopes input =
     (let queue = si_queueName input; jobName = si_jobName input; eventId = si_eventId input;
          tournamentId = si_tournamentId input
      in if queue = ''data-sync'' then
           (if jobName = ''core-snapshot'' then
              [''data-core:events'', ''data-core:teams'', ''data-core:players'', ''data-core:phases'', ''data-core:fixtures'']
            else if jobName = ''player-prices'' then [''data-core:players'']
            else if jobName \<in> {''player-stats'', ''player-values''} then
              (if jobName = ''player-stats'' then [''data-core:players''] else [''data-core:'' @ jobName])
            else [])
         else if queue = ''entry-sync'' then
           (if jobName = ''entry-info'' then []
            else if jobName = ''entry-picks'' then [withEvent ''entry-event-picks'' eventId]
            else if jobName = ''entry-transfers'' then [withEvent ''entry-event-transfers'' eventId]
            else if jobName = ''entry-results'' then [withEvent ''entry-event-results'' eventId]
            else [])
         else if queue = ''live-data'' then
           (if jobName = ''live-snapshot'' then [''data-core:fixtures'', withEvent ''live-snapshot'' eventId] else [])
         else if queue = ''league-sync'' then
           (if jobName = ''league-event-picks'' then
              [withEvent ''entry-event-picks'' eventId, withTournament ''league-event-picks'' tournamentId]
            else if jobName = ''league-event-results'' then
              [withEvent ''entry-event-results'' eventId, withEvent ''league-event-results'' eventId,
               withTournament ''league-event-results'' tournamentId]
            else [])
         else if queue = ''tournament-sync'' then tournament_sync_scopes jobName eventId
         else if queue = ''tournament-setup'' then []
         else if queue \<in> {''understat-mappings'', ''understat-team-sync'', ''understat-player-sync''} then
           [''understat:reference:all'']
         else if queue = ''bridge'' then [''bridge:all'']
         else [])"

text \<open>Explicit scopes replace the resolved ones; both are trimmed, deduplicated and sorted.\<close>

definition requested_scopes :: "scope_input \<Rightarrow> string list" where
  "requested_scopes input =
     (case si_scopes input of
        Some (s # ss) \<Rightarrow> s # ss
      | _ \<Rightarrow> resolveMutationScopes input)"

definition normalizedScopes :: "string list \<Rightarrow> string list" where
  "normalizedScopes scopes = js_sort code_unit_cmp (js_uniq (filter (\<lambda>s. s \<noteq> []) (map js_trim scopes)))"

section \<open>Transactions and their row locks\<close>

text \<open>
  A transaction holds the rows it has locked until it ends; its next row waits while another
  transaction holds it. The insert-or-update of a row takes its lock, which the following select
  only confirms. When no row is left to lock the operation runs. A transaction ends by commit,
  error, time-out or the death of its process, at any time.
\<close>

record scope_tx =
  tx_id :: nat
  tx_input :: scope_input
  tx_held :: "string list"
  tx_todo :: "string list"

definition withMutationScopes :: "nat \<Rightarrow> scope_input \<Rightarrow> scope_tx" where
  "withMutationScopes n input =
     \<lparr>tx_id = n, tx_input = input, tx_held = [], tx_todo = normalizedScopes (requested_scopes input)\<rparr>"

definition running :: "scope_tx \<Rightarrow> bool" where
  "running t = (tx_todo t = [])"

fun lock_next :: "scope_tx \<Rightarrow> scope_tx list \<Rightarrow> scope_tx option" where
  "lock_next t others =
     (case tx_todo t of
        [] \<Rightarrow> None
      | scope # rest \<Rightarrow>
          if list_ex (\<lambda>u. scope \<in> set (tx_held u)) others then None
          else Some (t\<lparr>tx_held := tx_held t @ [scope], tx_todo := rest\<rparr>))"

inductive lock_step :: "scope_tx list \<Rightarrow> scope_tx list \<Rightarrow> bool" where
  begin_tx: "n \<notin> tx_id ` set txs \<Longrightarrow> lock_step txs (txs @ [withMutationScopes n input])"
| acquire: "lock_next t (before @ after) = Some t' \<Longrightarrow> lock_step (before @ t # after) (before @ t' # after)"
| end_tx: "lock_step (before @ t # after) (before @ after)"

section \<open>What the locks give\<close>

definition tx_ok :: "scope_tx \<Rightarrow> bool" where
  "tx_ok t \<longleftrightarrow> tx_held t @ tx_todo t = normalizedScopes (requested_scopes (tx_input t))"

definition locks_inv :: "scope_tx list \<Rightarrow> bool" where
  "locks_inv txs \<longleftrightarrow> distinct (map tx_id txs) \<and> list_all tx_ok txs \<and>
     (\<forall>t \<in> set txs. \<forall>u \<in> set txs. tx_id t \<noteq> tx_id u \<longrightarrow> set (tx_held t) \<inter> set (tx_held u) = {})"

lemma lock_next_shape:
  assumes "lock_next t others = Some t'"
  obtains scope rest where "tx_todo t = scope # rest" "t' = t\<lparr>tx_held := tx_held t @ [scope], tx_todo := rest\<rparr>"
    "\<And>u. u \<in> set others \<Longrightarrow> scope \<notin> set (tx_held u)"
  using assms by (auto simp: list_ex_iff split: list.splits if_splits)

lemma lock_step_inv: "lock_step txs txs' \<Longrightarrow> locks_inv txs \<Longrightarrow> locks_inv txs'"
proof (induction rule: lock_step.induct)
  case (begin_tx n txs input)
  then show ?case by (auto simp: locks_inv_def withMutationScopes_def tx_ok_def)
next
  case (acquire t before after t')
  obtain scope rest where s: "tx_todo t = scope # rest" "t' = t\<lparr>tx_held := tx_held t @ [scope], tx_todo := rest\<rparr>"
    "\<And>u. u \<in> set (before @ after) \<Longrightarrow> scope \<notin> set (tx_held u)"
    using lock_next_shape [OF acquire.hyps] by blast
  have "tx_ok t \<Longrightarrow> tx_ok t'" "tx_id t' = tx_id t" "set (tx_held t') = insert scope (set (tx_held t))"
    using s(1) by (simp_all add: s(2) tx_ok_def)
  then show ?case using acquire.prems s(3) by (auto simp: locks_inv_def)
next
  case (end_tx before t after)
  then show ?case by (auto simp: locks_inv_def)
qed

interpretation locks: step_invariant lock_step locks_inv
  by unfold_locales (rule lock_step_inv)

lemma locks_reach: "lock_step\<^sup>*\<^sup>* [] txs \<Longrightarrow> locks_inv txs"
  using locks.reach_inv [of "[]" txs] by (simp add: locks_inv_def)

text \<open>The scopes are taken in strictly ascending order.\<close>

lemma ascending: "sorted_wrt (\<lambda>x y. code_unit_cmp x y \<le> 0) xs \<Longrightarrow> distinct xs \<Longrightarrow> sorted_wrt code_unit_less xs"
  by (induction xs) (auto simp: code_unit_cmp_def split: if_splits)

lemma normalized_ascending: "sorted_wrt code_unit_less (normalizedScopes scopes)"
  by (rule ascending) (simp_all add: normalizedScopes_def code_units.sorted_js_sort)

definition waits_for :: "scope_tx list \<Rightarrow> scope_tx \<Rightarrow> scope_tx \<Rightarrow> bool" where
  "waits_for txs t u \<longleftrightarrow> t \<in> set txs \<and> u \<in> set txs \<and>
     (\<exists>scope rest. tx_todo t = scope # rest \<and> scope \<in> set (tx_held u))"

lemma waits_ascend:
  assumes "locks_inv txs" "waits_for txs t u" "tx_todo t = s # rest" "tx_todo u = s' # rest'"
  shows "code_unit_less s s'"
proof -
  have "tx_ok u" "s \<in> set (tx_held u)" using assms by (auto simp: waits_for_def locks_inv_def list_all_iff)
  then have "sorted_wrt code_unit_less (tx_held u @ s' # rest')" using normalized_ascending assms(4) by (metis tx_ok_def)
  then show ?thesis using \<open>s \<in> set (tx_held u)\<close> by (simp add: sorted_wrt_append)
qed

lemma waits_chain:
  "(waits_for txs)\<^sup>+\<^sup>+ t u \<Longrightarrow> locks_inv txs \<Longrightarrow> tx_todo u = s' # rest' \<Longrightarrow>
   \<exists>s rest. tx_todo t = s # rest \<and> code_unit_less s s'"
proof (induction arbitrary: s' rest' rule: tranclp_induct)
  case (base u)
  then obtain s rest where "tx_todo t = s # rest" by (auto simp: waits_for_def)
  then show ?case using waits_ascend base by blast
next
  case (step u w)
  obtain s1 rest1 where u: "tx_todo u = s1 # rest1" using step.hyps(2) by (auto simp: waits_for_def)
  obtain s rest where "tx_todo t = s # rest" "code_unit_less s s1" using step.IH [OF step.prems(1) u] by blast
  moreover have "code_unit_less s1 s'" using waits_ascend [OF step.prems(1) step.hyps(2) u step.prems(2)] .
  ultimately show ?case using code_unit_less_trans by blast
qed

lemma no_cycle: "locks_inv txs \<Longrightarrow> \<not> (waits_for txs)\<^sup>+\<^sup>+ t t"
proof
  assume inv: "locks_inv txs" and cycle: "(waits_for txs)\<^sup>+\<^sup>+ t t"
  from cycle obtain s rest where "tx_todo t = s # rest"
    by (rule converse_tranclpE) (auto simp: waits_for_def)
  with waits_chain [OF cycle inv] show False by fastforce
qed

text \<open>Among waiting transactions one with the last scope does not wait for another waiting one.\<close>

lemma some_progress:
  assumes "locks_inv txs" "txs \<noteq> []"
  shows "\<exists>before t after. txs = before @ t # after \<and> (running t \<or> lock_next t (before @ after) \<noteq> None)"
proof (cases "\<exists>t \<in> set txs. running t")
  case True
  then show ?thesis by (meson split_list)
next
  case False
  let ?heads = "(\<lambda>t. hd (tx_todo t)) ` set txs"
  have "finite ?heads" "?heads \<noteq> {}" using assms(2) by simp_all
  moreover have "transp_on ?heads code_unit_less" using code_unit_less_trans unfolding transp_on_def by blast
  moreover have "asymp_on ?heads code_unit_less"
    using code_unit_less_trans code_unit_less_irrefl unfolding asymp_on_def by blast
  ultimately obtain m where m: "m \<in> ?heads" "\<forall>x \<in> ?heads. x \<noteq> m \<longrightarrow> \<not> code_unit_less m x"
    using Finite_Set.bex_max_element by metis
  from m(1) obtain t where t0: "t \<in> set txs" "m = hd (tx_todo t)" by blast
  have t: "t \<in> set txs" "\<And>u. u \<in> set txs \<Longrightarrow> \<not> code_unit_less (hd (tx_todo t)) (hd (tx_todo u))"
    using t0 m(2) code_unit_less_irrefl by auto
  obtain before after where txs: "txs = before @ t # after" using split_list [OF t(1)] by blast
  obtain s rest where todo: "tx_todo t = s # rest" using False t(1) by (cases "tx_todo t") (auto simp: running_def)
  have "\<not> list_ex (\<lambda>u. s \<in> set (tx_held u)) (before @ after)"
  proof
    assume "list_ex (\<lambda>u. s \<in> set (tx_held u)) (before @ after)"
    then obtain u where u: "u \<in> set txs" "s \<in> set (tx_held u)" unfolding txs by (auto simp: list_ex_iff)
    obtain s' rest' where "tx_todo u = s' # rest'" using False u(1) by (cases "tx_todo u") (auto simp: running_def)
    moreover have "waits_for txs t u" using t(1) u todo by (simp add: waits_for_def)
    ultimately show False using waits_ascend [OF assms(1) _ todo] t(2) [OF u(1)] todo by simp
  qed
  then show ?thesis using txs todo by (intro exI [of _ before] exI [of _ t] exI [of _ after]) simp
qed

text \<open>The jobs that write the structure tables of tournaments.\<close>

definition structure_writer :: "scope_input \<Rightarrow> bool" where
  "structure_writer input \<longleftrightarrow>
     si_scopes input = None \<and> si_queueName input = ''tournament-sync'' \<and>
       si_jobName input \<in> {''tournament-points-race'', ''tournament-battle-race'', ''tournament-knockout'', ''tournament-official-h2h''} \<or>
     (\<exists>n. si_scopes input \<in> {Some (tournamentSetupRebuildScopes n), Some (tournamentSetupBackfillEventScopes n)})"

lemma writer_scope: "structure_writer input \<Longrightarrow> TOURNAMENT_STRUCTURE_GLOBAL_SCOPE \<in> set (requested_scopes input)"
  by (auto simp: structure_writer_def requested_scopes_def resolveMutationScopes_def tournament_sync_scopes_def
      tournamentSetupRebuildScopes_def tournamentSetupBackfillEventScopes_def)

lemma global_normalized:
  assumes "TOURNAMENT_STRUCTURE_GLOBAL_SCOPE \<in> set scopes"
  shows "TOURNAMENT_STRUCTURE_GLOBAL_SCOPE \<in> set (normalizedScopes scopes)"
proof -
  have "js_trim TOURNAMENT_STRUCTURE_GLOBAL_SCOPE = TOURNAMENT_STRUCTURE_GLOBAL_SCOPE" by code_simp
  then have "TOURNAMENT_STRUCTURE_GLOBAL_SCOPE \<in> js_trim ` set scopes" using assms by force
  then show ?thesis by (simp add: normalizedScopes_def TOURNAMENT_STRUCTURE_GLOBAL_SCOPE_def)
qed

lemma running_disjoint:
  assumes "locks_inv txs" "t \<in> set txs" "u \<in> set txs" "running t" "running u"
    "s \<in> set (normalizedScopes (requested_scopes (tx_input t)))" "s \<in> set (normalizedScopes (requested_scopes (tx_input u)))"
  shows "t = u"
proof -
  have "tx_ok t" "tx_ok u" using assms(1-3) by (auto simp: locks_inv_def list_all_iff)
  then have "s \<in> set (tx_held t) \<inter> set (tx_held u)" using assms(4-7) by (simp add: tx_ok_def running_def)
  then have "tx_id t = tx_id u" using assms(1-3) by (auto simp: locks_inv_def)
  then show ?thesis using assms(1-3) by (auto simp: locks_inv_def distinct_map inj_on_def)
qed


section \<open>Witness\<close>

text \<open>A knockout sync runs while the rebuild of a tournament waits for it.\<close>

definition sample_knockout :: scope_input where
  "sample_knockout = \<lparr>si_queueName = ''tournament-sync'', si_jobName = ''tournament-knockout'', si_eventId = Some 3,
     si_tournamentId = None, si_scopes = None\<rparr>"

definition sample_rebuild :: scope_input where
  "sample_rebuild = \<lparr>si_queueName = ''tournament-setup'', si_jobName = ''setup'', si_eventId = None, si_tournamentId = Some 5,
     si_scopes = Some (tournamentSetupRebuildScopes (Some 5))\<rparr>"

definition sample_holder :: scope_tx where
  "sample_holder = the (lock_next (the (lock_next (withMutationScopes 0 sample_knockout) [])) [])"

lemma sample_holder:
  "lock_next (withMutationScopes 0 sample_knockout) [] \<noteq> None"
  "lock_next (the (lock_next (withMutationScopes 0 sample_knockout) [])) [] \<noteq> None"
  "running sample_holder" "tx_id sample_holder = 0" "tx_input sample_holder = sample_knockout"
  "\<not> running (withMutationScopes 1 sample_rebuild)" "lock_next (withMutationScopes 1 sample_rebuild) [sample_holder] = None"
  unfolding Option.is_none_def [symmetric] by code_simp+


end
