(* ===== verification/Transformers.thy ===== *)
theory Transformers
  imports FplTypes Json
begin

text \<open>
  The transformers of \<^verbatim>\<open>src/transformers\<close> (\<open>events.ts\<close>, \<open>teams.ts\<close>, \<open>players.ts\<close>, \<open>phases.ts\<close>,
  \<open>fixtures.ts\<close>) with the validation schemas of \<^verbatim>\<open>src/domain\<close>: from the provider's records to
  the domain records, one item at a time. The batch functions skip items that fail and report
  when nothing is left; \<open>transformPlayersStrict\<close> stops at the first failure.

  The input records are the ones the provider client hands over, so that a field has its type;
  what a schema demands beyond the type is a predicate. Numbers are integers as everywhere in the
  development: for \<open>z.number().int()\<close> that is the schema's own demand, and the few plain
  \<open>z.number()\<close> fields of an event hold counts and points. Of a provider element only the fields
  that are used or constrained beyond their type are kept. Values typed \<open>unknown\<close> are \<open>json\<close>.
  The parser of \<open>new Date(text)\<close> is a parameter. Logging is left out.
\<close>

section \<open>Schemas\<close>

text \<open>Lengths of strings count UTF-16 code units; strings here are UTF-8 bytes.\<close>

definition utf16_units :: "char \<Rightarrow> nat" where
  "utf16_units c =
     (let k = (of_char c :: nat) in if 128 \<le> k \<and> k < 192 then 0 else if 240 \<le> k then 2 else 1)"

definition utf16_length :: "string \<Rightarrow> nat" where
  "utf16_length s = sum_list (map utf16_units s)"

definition z_text :: "nat \<Rightarrow> string \<Rightarrow> bool" where
  "z_text mx s = (1 \<le> utf16_length s \<and> utf16_length s \<le> mx)"

definition z_positive :: "int \<Rightarrow> bool" where "z_positive n = (0 < n)"

definition z_between :: "int \<Rightarrow> int \<Rightarrow> int \<Rightarrow> bool" where
  "z_between lo hi n = (lo \<le> n \<and> n \<le> hi)"

definition z_nullable :: "('a \<Rightarrow> bool) \<Rightarrow> 'a option \<Rightarrow> bool" where
  "z_nullable ok x = (case x of None \<Rightarrow> True | Some v \<Rightarrow> ok v)"

lemmas z_defs = z_positive_def z_between_def z_nullable_def

lemma z_nullable_simps [simp]: "z_nullable ok None" "z_nullable ok (Some v) = ok v"
  by (simp_all add: z_nullable_def)

definition z_field :: "string \<Rightarrow> (string \<times> json) list \<Rightarrow> json" where
  "z_field k es = coalesce (map_of es k) JUndefined"

fun z_number :: "json \<Rightarrow> int option" where
  "z_number (JInt n) = Some n"
| "z_number (JDec s) = js_number s"
| "z_number _ = None"

fun z_string :: "json \<Rightarrow> string option" where
  "z_string (JStr s) = Some s"
| "z_string _ = None"

datatype transform_error =
    Transform_error int
  | Player_failed nat
  | All_events_invalid
  | All_teams_invalid
  | All_phases_invalid
  | All_fixtures_invalid

definition oks :: "('e, 'a) result list \<Rightarrow> 'a list" where
  "oks rs = List.map_filter (\<lambda>r. case r of Inl _ \<Rightarrow> None | Inr x \<Rightarrow> Some x) rs"

lemma oks_simps [simp]: "oks [] = []" "oks (Inl e # rs) = oks rs" "oks (Inr x # rs) = x # oks rs"
  by (simp_all add: oks_def map_filter_def)

lemma length_oks_le: "length (oks rs) \<le> length rs"
proof (induction rs)
  case (Cons r rs)
  then show ?case by (cases r) auto
qed simp

text \<open>A batch that lost nothing is the image of the whole input.\<close>

lemma oks_full:
  "length (oks (map f xs)) = length xs \<Longrightarrow> list_all2 (\<lambda>x y. f x = Inr y) xs (oks (map f xs))"
proof (induction xs)
  case (Cons x xs)
  then show ?case
    using length_oks_le [of "map f xs"] by (cases "f x") auto
qed simp

lemma oks_map_Inr: "(\<And>x. x \<in> set xs \<Longrightarrow> f x = Inr (g x)) \<Longrightarrow> oks (map f xs) = map g xs"
  by (induction xs) auto

section \<open>Events\<close>

record raw_event =
  re_id :: int
  re_name :: string
  re_deadline_time :: "string option"
  re_average_entry_score :: "int option"
  re_finished :: bool
  re_data_checked :: bool
  re_highest_scoring_entry :: "int option"
  re_deadline_time_epoch :: "int option"
  re_deadline_time_game_offset :: "int option"
  re_highest_score :: "int option"
  re_is_previous :: bool
  re_is_current :: bool
  re_is_next :: bool
  re_cup_leagues_created :: bool
  re_h2h_ko_matches_created :: bool
  re_chip_plays :: "json list"
  re_most_selected :: "int option"
  re_most_transferred_in :: "int option"
  re_top_element :: "int option"
  re_top_element_info :: json
  re_transfers_made :: "int option"
  re_most_captained :: "int option"
  re_most_vice_captained :: "int option"

text \<open>The unions try their first shape and then the second.\<close>

fun ChipPlaySchema :: "json \<Rightarrow> chip_data option" where
  "ChipPlaySchema (JObj es) =
     (case z_number (z_field ''num_played'' es) of
        None \<Rightarrow> None
      | Some n \<Rightarrow>
          (case z_string (z_field ''chip_name'' es) of
             Some c \<Rightarrow> Some \<lparr>chipName = c, numberPlayed = n\<rparr>
           | None \<Rightarrow> map_option (\<lambda>c. \<lparr>chipName = c, numberPlayed = n\<rparr>) (z_string (z_field ''name'' es))))"
| "ChipPlaySchema _ = None"

fun TopElementInfoSchema :: "json \<Rightarrow> top_element_data option" where
  "TopElementInfoSchema (JObj es) =
     (case z_number (z_field ''points'' es) of
        None \<Rightarrow> None
      | Some p \<Rightarrow>
          (case z_number (z_field ''element'' es) of
             Some e \<Rightarrow> Some \<lparr>te_element = e, te_points = p\<rparr>
           | None \<Rightarrow> map_option (\<lambda>e. \<lparr>te_element = e, te_points = p\<rparr>) (z_number (z_field ''id'' es))))"
| "TopElementInfoSchema _ = None"

definition z_optional :: "(json \<Rightarrow> 'a option) \<Rightarrow> json \<Rightarrow> 'a option option" where
  "z_optional schema j = (if j = JNull \<or> j = JUndefined then Some None else map_option Some (schema j))"

fun z_array :: "(json \<Rightarrow> 'a option) \<Rightarrow> json list \<Rightarrow> 'a list option" where
  "z_array schema [] = Some []"
| "z_array schema (j # js) =
     (case schema j of
        None \<Rightarrow> None
      | Some x \<Rightarrow> map_option (Cons x) (z_array schema js))"

definition transformEvent :: "raw_event \<Rightarrow> (transform_error, event) result" where
  "transformEvent r =
     (case (z_array ChipPlaySchema (re_chip_plays r), z_optional TopElementInfoSchema (re_top_element_info r)) of
        (Some chips, Some info) \<Rightarrow>
          if z_positive (re_id r) \<and> re_name r \<noteq> [] then
            Inr \<lparr>ev_id = re_id r, ev_name = re_name r, ev_deadlineTime = re_deadline_time r,
                 ev_averageEntryScore = re_average_entry_score r, ev_finished = re_finished r,
                 ev_dataChecked = re_data_checked r, ev_dataCheckedAt = None,
                 ev_highestScoringEntry = re_highest_scoring_entry r,
                 ev_deadlineTimeEpoch = re_deadline_time_epoch r,
                 ev_deadlineTimeGameOffset = re_deadline_time_game_offset r,
                 ev_highestScore = re_highest_score r, ev_isPrevious = re_is_previous r,
                 ev_isCurrent = re_is_current r, ev_isNext = re_is_next r,
                 ev_cupLeagueCreate = re_cup_leagues_created r,
                 ev_h2hKoMatchesCreated = re_h2h_ko_matches_created r,
                 ev_chipPlays = Some chips, ev_mostSelected = re_most_selected r,
                 ev_mostTransferredIn = re_most_transferred_in r, ev_topElement = re_top_element r,
                 ev_topElementInfo = info, ev_transfersMade = re_transfers_made r,
                 ev_mostCaptained = re_most_captained r,
                 ev_mostViceCaptained = re_most_vice_captained r,
                 ev_createdAt = None, ev_updatedAt = None\<rparr>
          else Inl (Transform_error (re_id r))
      | _ \<Rightarrow> Inl (Transform_error (re_id r)))"

definition transformEvents :: "raw_event list \<Rightarrow> (transform_error, event list) result" where
  "transformEvents raws =
     (let events = oks (map transformEvent raws) in
      if events = [] \<and> raws \<noteq> [] then Inl All_events_invalid else Inr events)"

text \<open>What the domain's own schema asks of an event beyond its types.\<close>

definition EventSchema :: "event \<Rightarrow> bool" where
  "EventSchema e = z_positive (ev_id e)"

section \<open>Teams\<close>

record raw_team =
  rt_id :: int
  rt_name :: string
  rt_short_name :: string
  rt_code :: int
  rt_draw :: int
  rt_form :: "string option"
  rt_loss :: int
  rt_played :: int
  rt_points :: int
  rt_position :: int
  rt_strength :: "int option"
  rt_team_division :: "int option"
  rt_unavailable :: bool
  rt_win :: int
  rt_strength_overall_home :: int
  rt_strength_overall_away :: int
  rt_strength_attack_home :: int
  rt_strength_attack_away :: int
  rt_strength_defence_home :: int
  rt_strength_defence_away :: int
  rt_pulse_id :: int

definition RawFPLTeamSchema :: "raw_team \<Rightarrow> bool" where
  "RawFPLTeamSchema r =
     (z_positive (rt_id r) \<and> rt_name r \<noteq> [] \<and> rt_short_name r \<noteq> [] \<and> z_positive (rt_code r) \<and>
      0 \<le> rt_draw r \<and> 0 \<le> rt_loss r \<and> 0 \<le> rt_played r \<and> 0 \<le> rt_points r \<and>
      z_between 0 20 (rt_position r) \<and> z_nullable (z_between 1 5) (rt_strength r) \<and>
      0 \<le> rt_win r \<and> z_positive (rt_pulse_id r))"

definition TeamSchema :: "team \<Rightarrow> bool" where
  "TeamSchema t =
     (z_positive (tm_id t) \<and> z_text 50 (tm_name t) \<and> z_text 5 (tm_shortName t) \<and> z_positive (tm_code t) \<and>
      0 \<le> tm_draw t \<and> 0 \<le> tm_loss t \<and> 0 \<le> tm_played t \<and> 0 \<le> tm_points t \<and>
      z_between 0 20 (tm_position t) \<and> z_nullable (z_between 1 5) (tm_strength t) \<and> 0 \<le> tm_win t \<and>
      z_between 0 1500 (tm_strengthOverallHome t) \<and> z_between 0 1500 (tm_strengthOverallAway t) \<and>
      z_between 0 1500 (tm_strengthAttackHome t) \<and> z_between 0 1500 (tm_strengthAttackAway t) \<and>
      z_between 0 1500 (tm_strengthDefenceHome t) \<and> z_between 0 1500 (tm_strengthDefenceAway t) \<and>
      z_positive (tm_pulseId t))"

definition domain_team :: "raw_team \<Rightarrow> team" where
  "domain_team r =
     \<lparr>tm_id = rt_id r, tm_name = rt_name r, tm_shortName = rt_short_name r, tm_code = rt_code r,
      tm_draw = rt_draw r, tm_form = rt_form r, tm_loss = rt_loss r, tm_played = rt_played r,
      tm_points = rt_points r, tm_position = rt_position r, tm_strength = rt_strength r,
      tm_teamDivision = rt_team_division r, tm_unavailable = rt_unavailable r, tm_win = rt_win r,
      tm_strengthOverallHome = rt_strength_overall_home r,
      tm_strengthOverallAway = rt_strength_overall_away r,
      tm_strengthAttackHome = rt_strength_attack_home r,
      tm_strengthAttackAway = rt_strength_attack_away r,
      tm_strengthDefenceHome = rt_strength_defence_home r,
      tm_strengthDefenceAway = rt_strength_defence_away r, tm_pulseId = rt_pulse_id r,
      tm_createdAt = None, tm_updatedAt = None\<rparr>"

definition transformTeam :: "raw_team \<Rightarrow> (transform_error, team) result" where
  "transformTeam r =
     (if RawFPLTeamSchema r \<and> TeamSchema (domain_team r) then Inr (domain_team r)
      else Inl (Transform_error (rt_id r)))"

definition transformTeams :: "raw_team list \<Rightarrow> (transform_error, team list) result" where
  "transformTeams raws =
     (let teams = oks (map transformTeam raws) in
      if teams = [] then Inl All_teams_invalid else Inr teams)"

section \<open>Players\<close>

record raw_element =
  el_id :: int
  el_code :: int
  el_element_type :: int
  el_team :: int
  el_now_cost :: int
  el_cost_change_start :: int
  el_first_name :: string
  el_second_name :: string
  el_web_name :: string
  el_chance_of_playing_this_round :: "int option"
  el_chance_of_playing_next_round :: "int option"

definition RawFPLElementSchema :: "raw_element \<Rightarrow> bool" where
  "RawFPLElementSchema r =
     (z_positive (el_id r) \<and> z_positive (el_code r) \<and> z_between 1 4 (el_element_type r) \<and>
      z_positive (el_team r) \<and> z_between 35 200 (el_now_cost r) \<and>
      el_first_name r \<noteq> [] \<and> el_second_name r \<noteq> [] \<and> el_web_name r \<noteq> [] \<and>
      z_nullable (z_between 0 100) (el_chance_of_playing_this_round r) \<and>
      z_nullable (z_between 0 100) (el_chance_of_playing_next_round r))"

definition PlayerSchema :: "player \<Rightarrow> bool" where
  "PlayerSchema p =
     (z_positive (pl_id p) \<and> z_positive (pl_code p) \<and> z_between 1 4 (pl_type p) \<and>
      z_positive (pl_teamId p) \<and> z_between 35 200 (pl_price p) \<and> z_between 35 200 (pl_startPrice p) \<and>
      z_text 50 (pl_firstName p) \<and> z_text 50 (pl_secondName p) \<and> z_text 30 (pl_webName p))"

definition domain_player :: "raw_element \<Rightarrow> player" where
  "domain_player r =
     \<lparr>pl_id = el_id r, pl_code = el_code r, pl_type = el_element_type r, pl_teamId = el_team r,
      pl_price = el_now_cost r, pl_startPrice = el_now_cost r - el_cost_change_start r,
      pl_firstName = el_first_name r, pl_secondName = el_second_name r, pl_webName = el_web_name r\<rparr>"

definition transformPlayer :: "raw_element \<Rightarrow> (transform_error, player) result" where
  "transformPlayer r =
     (if RawFPLElementSchema r \<and> PlayerSchema (domain_player r) then Inr (domain_player r)
      else Inl (Transform_error (el_id r)))"

definition transformPlayers :: "raw_element list \<Rightarrow> player list" where
  "transformPlayers raws = oks (map transformPlayer raws)"

definition transformPlayersStrict :: "raw_element list \<Rightarrow> (transform_error, player list) result" where
  "transformPlayersStrict raws =
     res_map (\<lambda>(i, r). case transformPlayer r of Inl _ \<Rightarrow> Inl (Player_failed i) | Inr p \<Rightarrow> Inr p)
       (enumerate 0 raws)"

section \<open>Phases\<close>

record raw_phase =
  rp_id :: int
  rp_name :: string
  rp_start_event :: int
  rp_stop_event :: int
  rp_highest_score :: "int option"

definition validateRawFPLPhase :: "raw_phase \<Rightarrow> bool" where
  "validateRawFPLPhase r =
     (z_positive (rp_id r) \<and> rp_name r \<noteq> [] \<and> z_between 1 38 (rp_start_event r) \<and>
      z_between 1 38 (rp_stop_event r) \<and> z_nullable (\<lambda>n. 0 \<le> n) (rp_highest_score r) \<and>
      rp_start_event r \<le> rp_stop_event r)"

definition validatePhase :: "FplTypes.phase \<Rightarrow> bool" where
  "validatePhase p =
     (z_positive (ph_id p) \<and> z_text 50 (ph_name p) \<and> z_between 1 38 (ph_startEvent p) \<and>
      z_between 1 38 (ph_stopEvent p) \<and> z_nullable (\<lambda>n. 0 \<le> n) (ph_highestScore p) \<and>
      ph_startEvent p \<le> ph_stopEvent p)"

definition domain_phase :: "raw_phase \<Rightarrow> FplTypes.phase" where
  "domain_phase r =
     \<lparr>ph_id = rp_id r, ph_name = rp_name r, ph_startEvent = rp_start_event r,
      ph_stopEvent = rp_stop_event r, ph_highestScore = rp_highest_score r\<rparr>"

definition transformPhase :: "raw_phase \<Rightarrow> (transform_error, FplTypes.phase) result" where
  "transformPhase r =
     (if validateRawFPLPhase r \<and> validatePhase (domain_phase r) then Inr (domain_phase r)
      else Inl (Transform_error (rp_id r)))"

definition transformPhases :: "raw_phase list \<Rightarrow> (transform_error, FplTypes.phase list) result" where
  "transformPhases raws =
     (let phases = oks (map transformPhase raws) in
      if phases = [] then Inl All_phases_invalid else Inr phases)"

section \<open>Fixtures\<close>

record raw_fixture =
  rf_code :: int
  rf_event :: "int option"
  rf_finished :: bool
  rf_finished_provisional :: bool
  rf_id :: int
  rf_kickoff_time :: "string option"
  rf_minutes :: int
  rf_provisional_start_time :: bool
  rf_started :: "bool option"
  rf_team_a :: int
  rf_team_a_score :: "int option"
  rf_team_h :: int
  rf_team_h_score :: "int option"
  rf_stats :: "fixture_stat list"
  rf_team_h_difficulty :: "int option"
  rf_team_a_difficulty :: "int option"
  rf_pulse_id :: int

definition z_stat :: "fixture_stat \<Rightarrow> bool" where
  "z_stat s = (list_all (\<lambda>i. z_positive (st_element i)) (fs_a s) \<and>
     list_all (\<lambda>i. z_positive (st_element i)) (fs_h s))"

definition RawFPLFixtureSchema :: "raw_fixture \<Rightarrow> bool" where
  "RawFPLFixtureSchema r =
     (z_positive (rf_code r) \<and> z_nullable (z_between 1 38) (rf_event r) \<and> z_positive (rf_id r) \<and>
      0 \<le> rf_minutes r \<and> z_positive (rf_team_a r) \<and> z_nullable (\<lambda>n. 0 \<le> n) (rf_team_a_score r) \<and>
      z_positive (rf_team_h r) \<and> z_nullable (\<lambda>n. 0 \<le> n) (rf_team_h_score r) \<and>
      list_all z_stat (rf_stats r) \<and> z_nullable (z_between 1 5) (rf_team_h_difficulty r) \<and>
      z_nullable (z_between 1 5) (rf_team_a_difficulty r) \<and> 0 \<le> rf_pulse_id r)"

definition FixtureSchema :: "fixture \<Rightarrow> bool" where
  "FixtureSchema f =
     (z_positive (fx_id f) \<and> z_positive (fx_code f) \<and> z_nullable (z_between 1 38) (fx_event f) \<and>
      fx_kickoffTime f \<noteq> Some None \<and> 0 \<le> fx_minutes f \<and>
      z_positive (fx_teamA f) \<and> z_nullable (\<lambda>n. 0 \<le> n) (fx_teamAScore f) \<and>
      z_positive (fx_teamH f) \<and> z_nullable (\<lambda>n. 0 \<le> n) (fx_teamHScore f) \<and>
      list_all z_stat (fx_stats f) \<and> z_nullable (z_between 1 5) (fx_teamHDifficulty f) \<and>
      z_nullable (z_between 1 5) (fx_teamADifficulty f) \<and> 0 \<le> fx_pulseId f \<and>
      fx_createdAt f \<noteq> Some None \<and> fx_updatedAt f \<noteq> Some None)"

text \<open>An absent, empty or unreadable kickoff becomes \<open>null\<close>.\<close>

definition safe_kickoff :: "(string \<Rightarrow> js_date) \<Rightarrow> string option \<Rightarrow> js_date option" where
  "safe_kickoff parseDate k =
     (case k of
        None \<Rightarrow> None
      | Some s \<Rightarrow> if s = [] then None else (case parseDate s of None \<Rightarrow> None | Some t \<Rightarrow> Some (Some t)))"

definition domain_fixture :: "(string \<Rightarrow> js_date) \<Rightarrow> raw_fixture \<Rightarrow> fixture" where
  "domain_fixture parseDate r =
     \<lparr>fx_id = rf_id r, fx_code = rf_code r, fx_event = rf_event r, fx_finished = rf_finished r,
      fx_finishedProvisional = rf_finished_provisional r,
      fx_kickoffTime = safe_kickoff parseDate (rf_kickoff_time r), fx_minutes = rf_minutes r,
      fx_provisionalStartTime = rf_provisional_start_time r, fx_started = rf_started r,
      fx_teamA = rf_team_a r, fx_teamAScore = rf_team_a_score r, fx_teamH = rf_team_h r,
      fx_teamHScore = rf_team_h_score r, fx_stats = rf_stats r,
      fx_teamHDifficulty = rf_team_h_difficulty r, fx_teamADifficulty = rf_team_a_difficulty r,
      fx_pulseId = rf_pulse_id r, fx_createdAt = None, fx_updatedAt = None\<rparr>"

definition transformFixture :: "(string \<Rightarrow> js_date) \<Rightarrow> raw_fixture \<Rightarrow> (transform_error, fixture) result" where
  "transformFixture parseDate r =
     (if RawFPLFixtureSchema r \<and> FixtureSchema (domain_fixture parseDate r)
      then Inr (domain_fixture parseDate r) else Inl (Transform_error (rf_id r)))"

definition transformFixtures :: "(string \<Rightarrow> js_date) \<Rightarrow> raw_fixture list \<Rightarrow> (transform_error, fixture list) result" where
  "transformFixtures parseDate raws =
     (let fixtures = oks (map (transformFixture parseDate) raws) in
      if fixtures = [] \<and> raws \<noteq> [] then Inl All_fixtures_invalid else Inr fixtures)"

section \<open>What a transformed item satisfies\<close>

lemma transformEvent_ok: "transformEvent r = Inr e \<Longrightarrow> EventSchema e \<and> ev_id e = re_id r"
  by (auto simp: transformEvent_def EventSchema_def split: option.splits if_splits)

lemma transformTeam_ok: "transformTeam r = Inr t \<Longrightarrow> TeamSchema t \<and> t = domain_team r"
  by (auto simp: transformTeam_def split: if_splits)

lemma transformPlayer_ok: "transformPlayer r = Inr p \<Longrightarrow> PlayerSchema p \<and> p = domain_player r"
  by (auto simp: transformPlayer_def split: if_splits)

lemma transformPhase_ok: "transformPhase r = Inr p \<Longrightarrow> validatePhase p \<and> p = domain_phase r"
  by (auto simp: transformPhase_def split: if_splits)

lemma transformFixture_ok:
  "transformFixture pd r = Inr f \<Longrightarrow> FixtureSchema f \<and> f = domain_fixture pd r"
  by (auto simp: transformFixture_def split: if_splits)

text \<open>
  The domain schema never rejects a fixture whose provider record passed: the second validation
  of \<open>transformFixture\<close> is redundant, as an unreadable kickoff has been replaced before it.
\<close>

lemma fixture_schema_redundant:
  "RawFPLFixtureSchema r \<Longrightarrow> FixtureSchema (domain_fixture pd r)"
  by (auto simp: RawFPLFixtureSchema_def FixtureSchema_def domain_fixture_def safe_kickoff_def
      split: option.splits)

lemma res_map_enumerate:
  assumes "res_map (\<lambda>(i, r). case f r of Inl _ \<Rightarrow> Inl (g i) | Inr p \<Rightarrow> Inr p) (enumerate n xs) = Inr ys"
  shows "list_all2 (\<lambda>x y. f x = Inr y) xs ys"
  using assms
proof (induction xs arbitrary: n ys)
  case (Cons x xs)
  then show ?case by (auto simp: res_bind_Inr_iff split: sum.splits)
qed simp

lemma transformPlayersStrict_ok:
  "transformPlayersStrict rs = Inr ps \<Longrightarrow> list_all2 (\<lambda>r p. transformPlayer r = Inr p) rs ps"
  unfolding transformPlayersStrict_def by (rule res_map_enumerate)

text \<open>The strict and the lenient batch agree whenever the strict one succeeds.\<close>

lemma list_all2_oks: "list_all2 (\<lambda>x y. f x = Inr y) xs ys \<Longrightarrow> oks (map f xs) = ys"
  by (induction rule: list_all2_induct) auto

lemma transformPlayers_strict:
  "transformPlayersStrict rs = Inr ps \<Longrightarrow> transformPlayers rs = ps"
  by (simp add: transformPlayers_def list_all2_oks transformPlayersStrict_ok)

lemma list_all2_map_id:
  assumes "list_all2 (\<lambda>x y. f x = Inr y) xs ys"
    and "\<And>x y. f x = Inr y \<Longrightarrow> P y \<and> y = g x"
  shows "ys = map g xs \<and> (\<forall>y \<in> set ys. P y)"
  using assms(1) by (induction rule: list_all2_induct) (auto dest: assms(2))

end
