(* ===== verification/JsDate.thy ===== *)
theory JsDate
  imports JsPrelude
begin

text \<open>
  Calendar dates of the proleptic Gregorian calendar, as the runtime library's \<^verbatim>\<open>Date\<close> and
  \<^verbatim>\<open>Intl.DateTimeFormat\<close> compute them from a time value in milliseconds, and the date keys of
  \<^verbatim>\<open>src/utils/timezone.ts\<close>. The zone \<^verbatim>\<open>Asia/Shanghai\<close> is eight hours ahead of UTC all year, as it
  has been since 1991.
\<close>

section \<open>Years\<close>

text \<open>
  \<open>getUTCFullYear\<close> by the day of a year's first day: the estimate from the mean year is off by
  one year at most.
\<close>

definition day_from_year :: "int \<Rightarrow> int" where
  "day_from_year y =
     365 * (y - 1970) + (y - 1969) div 4 - (y - 1901) div 100 + (y - 1601) div 400"

definition time_from_year :: "int \<Rightarrow> int" where
  "time_from_year y = 86400000 * day_from_year y"

definition getUTCFullYear :: "int \<Rightarrow> int" where
  "getUTCFullYear t =
     (let y = 1970 + t div 31556952000 in
      if t < time_from_year y then y - 1
      else if time_from_year (y + 1) \<le> t then y + 1 else y)"

lemma div_bounds:
  assumes "0 < (m :: int)"
  shows "m * (x div m) \<le> x" and "x < m * (x div m) + m"
  using mult_div_mod_eq [of m x] pos_mod_bound [OF assms, of x] pos_mod_sign [OF assms, of x]
  by linarith+

lemma time_from_year_bounds:
  "4 * time_from_year (1970 + k) \<le> 4 * 31556952000 * k + 4 * 127224000"
  "4 * 31556952000 * k \<le> 4 * time_from_year (1970 + k) + 4 * 109296000"
proof -
  define a b c where "a = (k + 1) div 4" and "b = (k + 69) div 100" and "c = (k + 369) div 400"
  have bounds: "4 * a \<le> k + 1" "k - 2 \<le> 4 * a" "100 * b \<le> k + 69" "k - 30 \<le> 100 * b"
    "400 * c \<le> k + 369" "k - 30 \<le> 400 * c"
    using div_bounds [of 4 "k + 1"] div_bounds [of 100 "k + 69"] div_bounds [of 400 "k + 369"]
    by (simp_all add: a_def b_def c_def)
  have t: "time_from_year (1970 + k) =
      31536000000 * k + 86400000 * a - 86400000 * b + 86400000 * c"
    by (simp add: time_from_year_def day_from_year_def a_def b_def c_def algebra_simps)
  show "4 * time_from_year (1970 + k) \<le> 4 * 31556952000 * k + 4 * 127224000"
    unfolding t using bounds by simp
  show "4 * 31556952000 * k \<le> 4 * time_from_year (1970 + k) + 4 * 109296000"
    unfolding t using bounds by simp
qed

lemma getUTCFullYear_correct:
  "time_from_year (getUTCFullYear t) \<le> t" "t < time_from_year (getUTCFullYear t + 1)"
proof -
  define k where "k = t div 31556952000"
  have k: "31556952000 * k \<le> t" "t < 31556952000 * k + 31556952000"
    using div_bounds [of 31556952000 t] by (simp_all add: k_def)
  note b = time_from_year_bounds(1) [of "k - 1"] time_from_year_bounds(2) [of "k + 2"]
  have lo: "time_from_year (1970 + k - 1) \<le> t" using b(1) k by (simp add: algebra_simps)
  have hi: "t < time_from_year (1970 + k + 2)" using b(2) k by (simp add: algebra_simps)
  show "time_from_year (getUTCFullYear t) \<le> t" "t < time_from_year (getUTCFullYear t + 1)"
    using lo hi by (auto simp: getUTCFullYear_def Let_def k_def [symmetric])
qed

section \<open>Days of a year\<close>

definition MS_PER_DAY :: int where "MS_PER_DAY = 86400000"

definition is_leap_year :: "int \<Rightarrow> bool" where
  "is_leap_year y = (y mod 4 = 0 \<and> (y mod 100 \<noteq> 0 \<or> y mod 400 = 0))"

text \<open>The day of the year on which each month starts.\<close>

definition month_starts :: "int \<Rightarrow> int list" where
  "month_starts y =
     (let l = (if is_leap_year y then 1 else 0) in
      [0, 31, 59 + l, 90 + l, 120 + l, 151 + l, 181 + l, 212 + l, 243 + l, 273 + l, 304 + l, 334 + l])"

text \<open>Year, month and day of the month of a day number, and back.\<close>

definition civil_of_day :: "int \<Rightarrow> int \<times> int \<times> int" where
  "civil_of_day d =
     (let y = getUTCFullYear (MS_PER_DAY * d);
          doy = d - day_from_year y;
          m = length (filter (\<lambda>s. s \<le> doy) (month_starts y))
      in (y, int m, doy - month_starts y ! (m - 1) + 1))"

definition day_of_civil :: "int \<Rightarrow> int \<Rightarrow> int \<Rightarrow> int" where
  "day_of_civil y m d = day_from_year y + month_starts y ! nat (m - 1) + d - 1"

lemma length_month_starts [simp]: "length (month_starts y) = 12"
  by (simp add: month_starts_def Let_def)

lemma div_step:
  assumes "0 < (m :: int)"
  shows "(x + 1) div m = x div m + (if (x + 1) mod m = 0 then 1 else 0)"
proof -
  define q r where "q = (x + 1) div m" and "r = (x + 1) mod m"
  have x: "x + 1 = m * q + r" "0 \<le> r" "r < m"
    using mult_div_mod_eq [of m "x + 1"] pos_mod_bound [OF assms] pos_mod_sign [OF assms]
    by (simp_all add: q_def r_def)
  have "x div m = q - (if r = 0 then 1 else 0)"
  proof (cases "r = 0")
    case True
    with x have "x = m * (q - 1) + (m - 1)" by (simp add: algebra_simps)
    then show ?thesis using assms True int_div_pos_eq [of x m "q - 1" "m - 1"] by simp
  next
    case False
    with x show ?thesis using int_div_pos_eq [of x m q "r - 1"] by simp
  qed
  then show ?thesis by (simp add: q_def r_def)
qed

lemma mod_shift: "(y + k * m) mod m = (0 :: int) \<longleftrightarrow> y mod m = 0"
  by simp

lemma leap:
  "(C \<longrightarrow> B) \<Longrightarrow> (B \<longrightarrow> A) \<Longrightarrow> 365 + (if A then 1 else 0) - (if B then 1 else 0) + (if C then 1 else 0) =
    (if A \<and> (\<not> B \<or> C) then 366 else (365 :: int))"
  by (cases A; cases B; cases C; simp)

lemma year_length: "day_from_year (y + 1) = day_from_year y + (if is_leap_year y then 366 else 365)"
proof -
  have 4: "(y - 1968) div 4 = (y - 1969) div 4 + (if y mod 4 = 0 then 1 else 0)"
    using div_step [of 4 "y - 1969"] mod_shift [of y "-492" 4] by simp
  have 100: "(y - 1900) div 100 = (y - 1901) div 100 + (if y mod 100 = 0 then 1 else 0)"
    using div_step [of 100 "y - 1901"] mod_shift [of y "-19" 100] by simp
  have 400: "(y - 1600) div 400 = (y - 1601) div 400 + (if y mod 400 = 0 then 1 else 0)"
    using div_step [of 400 "y - 1601"] mod_shift [of y "-4" 400] by simp
  have d: "400 dvd y \<longrightarrow> 100 dvd y" "100 dvd y \<longrightarrow> 4 dvd y"
    using dvd_trans [of 100 400 y] dvd_trans [of 4 100 y] by auto
  have "day_from_year (y + 1) - day_from_year y =
      365 + ((y - 1968) div 4 - (y - 1969) div 4) - ((y - 1900) div 100 - (y - 1901) div 100)
        + ((y - 1600) div 400 - (y - 1601) div 400)"
    by (simp add: day_from_year_def)
  also have "\<dots> = 365 + (if 4 dvd y then 1 else 0) - (if 100 dvd y then 1 else 0) + (if 400 dvd y then 1 else 0)"
    unfolding 4 100 400 by (simp add: dvd_eq_mod_eq_0)
  also have "\<dots> = (if is_leap_year y then 366 else 365)"
    unfolding is_leap_year_def mod_eq_0_iff_dvd by (rule leap [OF d])
  finally show ?thesis by simp
qed

lemma day_in_year:
  fixes d :: int
  defines "y \<equiv> getUTCFullYear (MS_PER_DAY * d)"
  shows "0 \<le> d - day_from_year y" "d - day_from_year y < (if is_leap_year y then 366 else 365)"
  using getUTCFullYear_correct [of "MS_PER_DAY * d"] year_length [of y]
  by (auto simp: time_from_year_def MS_PER_DAY_def y_def)

lemma months_passed:
  assumes "0 \<le> doy" and "doy < (if is_leap_year y then 366 else 365)"
  shows "let m = length (filter (\<lambda>s. s \<le> doy) (month_starts y)) in
    1 \<le> m \<and> m \<le> 12 \<and> month_starts y ! (m - 1) \<le> doy \<and> doy - month_starts y ! (m - 1) \<le> 30"
  using assms by (auto simp: month_starts_def Let_def)

lemma civil_of_day_range:
  assumes "civil_of_day d = (y, m, dd)"
  shows "1 \<le> m" "m \<le> 12" "1 \<le> dd" "dd \<le> 31"
  using months_passed [OF day_in_year [of d]] assms by (auto simp: civil_of_day_def Let_def)

lemma day_of_civil_of_day: "civil_of_day d = (y, m, dd) \<Longrightarrow> day_of_civil y m dd = d"
  using months_passed [OF day_in_year [of d]]
  by (auto simp: civil_of_day_def day_of_civil_def Let_def nat_diff_distrib)

section \<open>Date keys\<close>

definition pad :: "nat \<Rightarrow> int \<Rightarrow> string" where
  "pad n i = (let s = show_int i in replicate (n - length s) CHR ''0'' @ s)"

lemma read_nat_zeros [simp]: "read_nat (replicate k CHR ''0'' @ s) = read_nat s"
  by (induction k) (simp_all add: read_nat_def)

lemma read_pad [simp]: "0 \<le> i \<Longrightarrow> read_nat (pad n i) = nat i"
  by (simp add: pad_def Let_def show_int_def)

lemma length_show_nat_less: "n < 10 ^ k \<Longrightarrow> 0 < k \<Longrightarrow> length (show_nat n) \<le> k"
proof (induction k arbitrary: n)
  case (Suc k)
  show ?case
  proof (cases "n < 10")
    case True
    then show ?thesis by (simp add: show_nat.simps [of n])
  next
    case False
    with Suc.prems have "0 < k" by (cases k) auto
    moreover have "n div 10 < 10 ^ k" using Suc.prems(1) by (simp add: less_mult_imp_div_less mult.commute)
    ultimately show ?thesis using Suc.IH [of "n div 10"] False by (simp add: show_nat.simps [of n])
  qed
qed simp

lemma length_pad: "0 \<le> i \<Longrightarrow> i < 10 ^ n \<Longrightarrow> 0 < n \<Longrightarrow> length (pad n i) = n"
  using length_show_nat_less [of "nat i" n] by (simp add: pad_def Let_def show_int_def nat_less_iff)

definition UTC8_OFFSET_MS :: int where "UTC8_OFFSET_MS = 8 * 60 * 60 * 1000"

definition utc8_day :: "int \<Rightarrow> int" where
  "utc8_day t = (t + UTC8_OFFSET_MS) div MS_PER_DAY"

definition formatCronDateKey :: "int \<Rightarrow> string" where
  "formatCronDateKey t = (let (y, m, d) = civil_of_day (utc8_day t) in pad 4 y @ pad 2 m @ pad 2 d)"

definition formatCronCalendarDate :: "int \<Rightarrow> string" where
  "formatCronCalendarDate t =
     (let dateKey = formatCronDateKey t in
      take 4 dateKey @ ''-'' @ take 2 (drop 4 dateKey) @ ''-'' @ take 2 (drop 6 dateKey))"

definition getCronMinute :: "int \<Rightarrow> int" where
  "getCronMinute t = (t + UTC8_OFFSET_MS) div 60000 mod 60"

text \<open>The \<^verbatim>\<open>toISOString\<close> of a date with a year of four digits.\<close>

definition toISOString :: "int \<Rightarrow> string" where
  "toISOString t =
     (let (y, m, d) = civil_of_day (t div MS_PER_DAY); ms = t mod MS_PER_DAY in
      pad 4 y @ ''-'' @ pad 2 m @ ''-'' @ pad 2 d @ ''T'' @ pad 2 (ms div 3600000) @ '':'' @
      pad 2 (ms div 60000 mod 60) @ '':'' @ pad 2 (ms div 1000 mod 60) @ ''.'' @ pad 3 (ms mod 1000) @ ''Z'')"

text \<open>Reading a date key back as the day it names; the key therefore determines the day.\<close>

definition day_of_key :: "string \<Rightarrow> int" where
  "day_of_key key =
     day_of_civil (int (read_nat (take 4 key))) (int (read_nat (take 2 (drop 4 key))))
       (int (read_nat (take 2 (drop 6 key))))"

definition four_digit_year :: "int \<Rightarrow> bool" where
  "four_digit_year t = (let y = fst (civil_of_day (utc8_day t)) in 0 \<le> y \<and> y \<le> 9999)"

lemma day_of_key_format:
  assumes "four_digit_year t"
  shows "day_of_key (formatCronDateKey t) = utc8_day t"
proof -
  obtain y m d where civil: "civil_of_day (utc8_day t) = (y, m, d)" by (metis prod_cases3)
  then have y: "0 \<le> y" "y \<le> 9999" using assms by (simp_all add: four_digit_year_def)
  note r = civil_of_day_range [OF civil]
  have len: "length (pad 4 y) = 4" "length (pad 2 m) = 2" "length (pad 2 d) = 2"
    using y r length_pad [of y 4] length_pad [of m 2] length_pad [of d 2] by simp_all
  have "day_of_key (formatCronDateKey t) = day_of_civil y m d"
    using y r len by (simp add: day_of_key_def formatCronDateKey_def civil)
  also have "\<dots> = utc8_day t" by (rule day_of_civil_of_day [OF civil])
  finally show ?thesis .
qed

text \<open>Times from 1970 on and up to the year 9890 have years of four digits.\<close>

lemma four_digit_years:
  assumes "0 \<le> t" and "t \<le> 250000000000000"
  shows "four_digit_year t"
proof -
  define T k where "T = MS_PER_DAY * utc8_day t" and "k = getUTCFullYear T - 1970"
  have T: "- 86400000 \<le> T" "T \<le> 250000100000000"
    using div_bounds [of MS_PER_DAY "t + UTC8_OFFSET_MS"] assms
    by (simp_all add: T_def utc8_day_def MS_PER_DAY_def UTC8_OFFSET_MS_def)
  have "time_from_year (1970 + k) \<le> T" "T < time_from_year (1970 + (k + 1))"
    using getUTCFullYear_correct [of T] by (simp_all add: k_def algebra_simps)
  then have "- 1970 \<le> k" "k \<le> 8029"
    using T time_from_year_bounds(2) [of k] time_from_year_bounds(1) [of "k + 1"] by simp_all
  then show ?thesis
    by (simp add: four_digit_year_def civil_of_day_def Let_def k_def T_def [symmetric])
qed

lemma formatCronDateKey_inject:
  "four_digit_year s \<Longrightarrow> four_digit_year t \<Longrightarrow> formatCronDateKey s = formatCronDateKey t \<longleftrightarrow> utc8_day s = utc8_day t"
  using day_of_key_format [of s] day_of_key_format [of t] by (metis formatCronDateKey_def)

end
