(* ===== verification/CoreSnapshot.thy ===== *)
theory CoreSnapshot
  imports Transformers JsDate
begin

text \<open>
  The acceptance of a core snapshot (\<^verbatim>\<open>src/domain/core-snapshot.ts\<close>,
  \<^verbatim>\<open>src/domain/fpl-source-season.ts\<close>): the counts and coverage of events, teams, players, phases
  and fixtures, the official selection rules and the season both sources must agree on; with
  the lifecycle of a season (\<^verbatim>\<open>src/domain/season-lifecycle.ts\<close>) and the current event of a snapshot
  (\<^verbatim>\<open>src/cache/core-snapshot-cache.ts\<close>).

  \<open>requirePlayerCoverage\<close> and \<open>requireFixtureCoverage\<close> count in insertion-ordered maps, as the
  code does. The reference definitions \<open>player_coverage\<close> and \<open>double_round_robin\<close> say what the
  counting establishes; both are shown equivalent to it, errors aside.
\<close>

section \<open>Seasons of the source\<close>

definition last_two :: "string \<Rightarrow> string" where
  "last_two s = drop (length s - 2) s"

definition seasonCodeFromStartYear :: "int \<Rightarrow> string" where
  "seasonCodeFromStartYear startYear = last_two (show_int startYear) @ last_two (show_int (startYear + 1))"

definition utcYear :: "(string \<Rightarrow> js_date) \<Rightarrow> string option \<Rightarrow> int option" where
  "utcYear parseDate v =
     (case v of
        None \<Rightarrow> None
      | Some s \<Rightarrow> if s = [] then None else map_option getUTCFullYear (parseDate s))"

definition deriveFplSeasonFromEvents :: "(string \<Rightarrow> js_date) \<Rightarrow> raw_event list \<Rightarrow> string option" where
  "deriveFplSeasonFromEvents parseDate events =
     (case List.find (\<lambda>e. re_id e = 1) events of
        None \<Rightarrow> None
      | Some gw1 \<Rightarrow> map_option seasonCodeFromStartYear (utcYear parseDate (re_deadline_time gw1)))"

definition deriveFplSeasonFromFixtures :: "(string \<Rightarrow> js_date) \<Rightarrow> raw_fixture list \<Rightarrow> string option" where
  "deriveFplSeasonFromFixtures parseDate fixtures =
     (let years = List.map_filter (\<lambda>f. utcYear parseDate (rf_kickoff_time f))
                    (filter (\<lambda>f. rf_event f = Some 1) fixtures) in
      if years = [] then None else Some (seasonCodeFromStartYear (Min (set years))))"

section \<open>Selection rules\<close>

record selection_position =
  sp_id :: int
  sp_name :: string
  sp_shortName :: string
  sp_squadSelect :: int
  sp_minPlay :: int
  sp_maxPlay :: int

record chip_window =
  cw_id :: int
  cw_name :: string
  cw_number :: int
  cw_startEvent :: int
  cw_stopEvent :: int
  cw_chipType :: string

record selection_rules =
  sr_squadSize :: int
  sr_startingSize :: int
  sr_budget :: int
  sr_maxPlayersPerTeam :: int
  sr_currencyMultiplier :: int
  sr_positions :: "selection_position list"
  sr_chips :: "chip_window list"

record raw_chip =
  rc_id :: int
  rc_name :: string
  rc_number :: int
  rc_start_event :: int
  rc_stop_event :: int
  rc_chip_type :: string

record bootstrap =
  bs_events :: "raw_event list"
  bs_teams :: "raw_team list"
  bs_elements :: "raw_element list"
  bs_phases :: "raw_phase list"
  bs_game_settings :: json
  bs_element_types :: "json list"
  bs_chips :: "raw_chip list"

definition isSafeInteger :: "int \<Rightarrow> bool" where
  "isSafeInteger n = (- 9007199254740991 \<le> n \<and> n \<le> 9007199254740991)"

fun asRecord :: "json \<Rightarrow> (string \<times> json) list option" where
  "asRecord (JObj es) = Some es"
| "asRecord _ = None"

text \<open>
  A finite fraction also gives \<open>None\<close>: every use of the result asks for a safe integer and treats
  a fraction like no number.
\<close>

fun asFiniteNumber :: "json \<Rightarrow> int option" where
  "asFiniteNumber (JInt n) = Some n"
| "asFiniteNumber (JDec s) = js_number s"
| "asFiniteNumber (JStr s) = (if js_trim s = [] then None else js_number s)"
| "asFiniteNumber _ = None"

definition asPositiveInteger :: "json \<Rightarrow> int option" where
  "asPositiveInteger v =
     (case asFiniteNumber v of
        None \<Rightarrow> None
      | Some n \<Rightarrow> if isSafeInteger n \<and> 0 < n then Some n else None)"

definition normalize_position :: "(string \<times> json) list \<Rightarrow> selection_position option" where
  "normalize_position p =
     (case (asPositiveInteger (z_field ''id'' p), asPositiveInteger (z_field ''squad_select'' p),
            asPositiveInteger (z_field ''squad_min_play'' p),
            asPositiveInteger (z_field ''squad_max_play'' p)) of
        (Some i, Some squadSelect, Some minPlay, Some maxPlay) \<Rightarrow>
          if i \<le> 0 \<or> minPlay > maxPlay then None
          else (let name = coalesce (z_string (z_field ''singular_name'' p)) (''Position '' @ show_int i);
                    shortName = coalesce (z_string (z_field ''singular_name_short'' p)) name in
                Some \<lparr>sp_id = i, sp_name = name, sp_shortName = shortName, sp_squadSelect = squadSelect,
                      sp_minPlay = minPlay, sp_maxPlay = maxPlay\<rparr>)
      | _ \<Rightarrow> None)"

definition normalize_chip :: "raw_chip \<Rightarrow> chip_window option" where
  "normalize_chip c =
     (case (asPositiveInteger (JInt (rc_id c)), asPositiveInteger (JInt (rc_number c))) of
        (Some i, Some number) \<Rightarrow>
          if rc_start_event c < 1 \<or> rc_stop_event c < rc_start_event c then None
          else Some \<lparr>cw_id = i, cw_name = rc_name c, cw_number = number,
                     cw_startEvent = rc_start_event c, cw_stopEvent = rc_stop_event c,
                     cw_chipType = rc_chip_type c\<rparr>
      | _ \<Rightarrow> None)"

definition normalizeSelectionRules :: "bootstrap \<Rightarrow> selection_rules option" where
  "normalizeSelectionRules b =
     (let settings = coalesce (asRecord (bs_game_settings b)) [];
          rawPositions = List.map_filter asRecord (bs_element_types b);
          positions = List.map_filter normalize_position rawPositions;
          chips = List.map_filter normalize_chip (bs_chips b)
      in case (asFiniteNumber (z_field ''squad_squadsize'' settings),
               asFiniteNumber (z_field ''squad_squadplay'' settings),
               asFiniteNumber (z_field ''squad_total_spend'' settings),
               asFiniteNumber (z_field ''squad_team_limit'' settings),
               asFiniteNumber (z_field ''ui_currency_multiplier'' settings)) of
           (Some squadSize, Some startingSize, Some budget, Some maxPlayersPerTeam, Some currencyMultiplier) \<Rightarrow>
             if length positions \<noteq> length rawPositions \<or> positions = []
                \<or> length (js_uniq (map sp_id positions)) \<noteq> length positions
                \<or> length chips \<noteq> length (bs_chips b)
                \<or> \<not> isSafeInteger squadSize \<or> \<not> isSafeInteger startingSize \<or> \<not> isSafeInteger budget
                \<or> \<not> isSafeInteger maxPlayersPerTeam \<or> \<not> isSafeInteger currencyMultiplier
                \<or> squadSize \<le> 0 \<or> startingSize \<le> 0 \<or> startingSize > squadSize \<or> budget \<le> 0
                \<or> maxPlayersPerTeam \<le> 0 \<or> maxPlayersPerTeam > squadSize \<or> currencyMultiplier \<le> 0
                \<or> sum_list (map sp_squadSelect positions) \<noteq> squadSize
                \<or> sum_list (map sp_minPlay positions) > startingSize
                \<or> sum_list (map sp_maxPlay positions) < startingSize
                \<or> length (js_uniq (map cw_id chips)) \<noteq> length chips
             then None
             else Some \<lparr>sr_squadSize = squadSize, sr_startingSize = startingSize, sr_budget = budget,
                        sr_maxPlayersPerTeam = maxPlayersPerTeam,
                        sr_currencyMultiplier = currencyMultiplier, sr_positions = positions,
                        sr_chips = chips\<rparr>
         | _ \<Rightarrow> None)"

section \<open>Coverage checks\<close>

datatype snapshot_error =
    Snapshot_incomplete string
  | Transform_failed transform_error

type_synonym 'a checked = "(snapshot_error, 'a) result"

definition requireExactCount :: "string \<Rightarrow> nat \<Rightarrow> nat \<Rightarrow> unit checked" where
  "requireExactCount label actual expected =
     res_guard (actual = expected) (Snapshot_incomplete (label @ '' count''))"

definition requireUniqueIds :: "string \<Rightarrow> int list \<Rightarrow> unit checked" where
  "requireUniqueIds label ids =
     res_guard (length (js_uniq ids) = length ids)
       (Snapshot_incomplete (label @ '' identifiers are not unique''))"

definition requireCompleteEventRange :: "event list \<Rightarrow> unit checked" where
  "requireCompleteEventRange events =
     res_guard (list_all (\<lambda>i. i \<in> set (map ev_id events)) [1..38])
       (Snapshot_incomplete ''event range is incomplete'')"

text \<open>One player: the positions met so far and the players counted per team.\<close>

definition count_player ::
  "int list \<Rightarrow> player \<Rightarrow> int list \<times> (int, nat) js_map \<Rightarrow> (int list \<times> (int, nat) js_map) checked" where
  "count_player teamIds p s =
     (if pl_teamId p \<notin> set teamIds then Inl (Snapshot_incomplete ''player references an unknown team'')
      else if pl_type p < 1 \<or> pl_type p > 4
        then Inl (Snapshot_incomplete ''player position is outside 1-4'')
      else Inr (js_uniq (fst s @ [pl_type p]),
                js_set (pl_teamId p) (coalesce (js_get (snd s) (pl_teamId p)) 0 + 1) (snd s)))"

definition requirePlayerCoverage :: "player list \<Rightarrow> int list \<Rightarrow> unit checked" where
  "requirePlayerCoverage players teamIds =
     res_bind (res_guard (players \<noteq> []) (Snapshot_incomplete ''players are empty'')) (\<lambda>_.
     res_bind (requireUniqueIds ''player'' (map pl_id players)) (\<lambda>_.
     res_bind (res_iter (count_player teamIds) players ([], js_map_new (map (\<lambda>t. (t, 0)) teamIds)))
       (\<lambda>(positions, playersByTeam).
     res_bind (res_guard (length positions = 4) (Snapshot_incomplete ''player positions are incomplete'')) (\<lambda>_.
     res_guard (list_all (\<lambda>(_, count). 11 \<le> count) playersByTeam)
       (Snapshot_incomplete ''player team roster is incomplete'')))))"

definition phase_range_ok :: "FplTypes.phase \<Rightarrow> bool" where
  "phase_range_ok p = (\<not> (ph_startEvent p < 1 \<or> ph_stopEvent p > 38 \<or> ph_startEvent p > ph_stopEvent p))"

definition requirePhaseCoverage :: "FplTypes.phase list \<Rightarrow> unit checked" where
  "requirePhaseCoverage phases =
     res_bind (res_guard (phases \<noteq> []) (Snapshot_incomplete ''phases are empty'')) (\<lambda>_.
     res_bind (requireUniqueIds ''phase'' (map ph_id phases)) (\<lambda>_.
     res_bind (res_guard (list_all phase_range_ok phases) (Snapshot_incomplete ''phase range is invalid'')) (\<lambda>_.
     res_guard (list_ex (\<lambda>p. ph_startEvent p = 1 \<and> ph_stopEvent p = 38) phases)
       (Snapshot_incomplete ''full-season phase is missing''))))"

text \<open>One fixture: the appearances per team, and per pair of teams the games each hosted.\<close>

type_synonym fixture_counts = "(int, nat) js_map \<times> (string, nat \<times> nat) js_map"

definition pair_key :: "int \<Rightarrow> int \<Rightarrow> string" where
  "pair_key lower upper = show_int lower @ '':'' @ show_int upper"

definition count_fixture :: "int list \<Rightarrow> fixture \<Rightarrow> fixture_counts \<Rightarrow> fixture_counts checked" where
  "count_fixture teamIds f s =
     (if fx_teamH f \<notin> set teamIds \<or> fx_teamA f \<notin> set teamIds
        then Inl (Snapshot_incomplete ''fixture references an unknown team'')
      else if fx_teamH f = fx_teamA f
        then Inl (Snapshot_incomplete ''fixture has the same home and away team'')
      else if \<not> z_nullable (z_between 1 38) (fx_event f)
        then Inl (Snapshot_incomplete ''fixture event is outside 1-38'')
      else (let appearances = js_set (fx_teamH f) (coalesce (js_get (fst s) (fx_teamH f)) 0 + 1) (fst s);
                appearances' = js_set (fx_teamA f) (coalesce (js_get appearances (fx_teamA f)) 0 + 1) appearances;
                lower = min (fx_teamH f) (fx_teamA f);
                upper = max (fx_teamH f) (fx_teamA f);
                pairing = coalesce (js_get (snd s) (pair_key lower upper)) (0, 0);
                pairing' = (if fx_teamH f = lower then (fst pairing + 1, snd pairing)
                            else (fst pairing, snd pairing + 1))
            in Inr (appearances', js_set (pair_key lower upper) pairing' (snd s))))"

definition requireFixtureCoverage :: "fixture list \<Rightarrow> int list \<Rightarrow> unit checked" where
  "requireFixtureCoverage fixtures teamIds =
     res_bind (requireExactCount ''fixtures'' (length fixtures) 380) (\<lambda>_.
     res_bind (requireUniqueIds ''fixture'' (map fx_id fixtures)) (\<lambda>_.
     res_bind (res_iter (count_fixture teamIds) fixtures (js_map_new (map (\<lambda>t. (t, 0)) teamIds), []))
       (\<lambda>(appearances, pairings).
     res_bind (res_guard (list_all (\<lambda>(_, count). count = 38) appearances)
       (Snapshot_incomplete ''team fixture coverage is incomplete'')) (\<lambda>_.
     res_bind (res_guard (length pairings = length teamIds * (length teamIds - 1) div 2)
       (Snapshot_incomplete ''fixture opponent pair coverage is incomplete'')) (\<lambda>_.
     res_guard (list_all (\<lambda>(_, pairing). fst pairing = 1 \<and> snd pairing = 1) pairings)
       (Snapshot_incomplete ''fixture home-and-away pairing is invalid''))))))"

section \<open>The snapshot\<close>

record core_snapshot =
  cs_season :: string
  cs_events :: "event list"
  cs_teams :: "team list"
  cs_players :: "player list"
  cs_phases :: "FplTypes.phase list"
  cs_fixtures :: "fixture list"
  cs_selectionRules :: "selection_rules option"

definition transformed :: "(transform_error, 'a) result \<Rightarrow> 'a checked" where
  "transformed r = (case r of Inl e \<Rightarrow> Inl (Transform_failed e) | Inr x \<Rightarrow> Inr x)"

lemma transformed_Inr_iff [simp]: "transformed r = Inr x \<longleftrightarrow> r = Inr x"
  by (cases r) (auto simp: transformed_def)

definition has_rule_payload :: "bootstrap \<Rightarrow> bool" where
  "has_rule_payload b =
     ((asRecord (bs_game_settings b) \<noteq> None \<and> the (asRecord (bs_game_settings b)) \<noteq> []) \<or>
      bs_element_types b \<noteq> [] \<or> bs_chips b \<noteq> [])"

definition agreed_season :: "string option \<Rightarrow> string option \<Rightarrow> string checked" where
  "agreed_season eventSeason fixtureSeason =
     (case (eventSeason, fixtureSeason) of
        (Some e, Some f) \<Rightarrow>
          if e = f then Inr e else Inl (Snapshot_incomplete ''event and fixture seasons disagree'')
      | _ \<Rightarrow> Inl (Snapshot_incomplete ''season cannot be derived from both sources''))"

lemma agreed_season_Inr_iff [simp]: "agreed_season x y = Inr e \<longleftrightarrow> x = Some e \<and> y = Some e"
  by (auto simp: agreed_season_def split: option.splits)

definition prepareCoreSnapshot ::
  "(string \<Rightarrow> js_date) \<Rightarrow> bootstrap \<Rightarrow> raw_fixture list \<Rightarrow> core_snapshot checked" where
  "prepareCoreSnapshot parseDate b rawFixtures =
     res_bind (requireExactCount ''events'' (length (bs_events b)) 38) (\<lambda>_.
     res_bind (requireExactCount ''teams'' (length (bs_teams b)) 20) (\<lambda>_.
     res_bind (requireExactCount ''fixtures'' (length rawFixtures) 380) (\<lambda>_.
     res_bind (transformed (transformEvents (bs_events b))) (\<lambda>events.
     res_bind (transformed (transformTeams (bs_teams b))) (\<lambda>teams.
     res_bind (transformed (transformPlayersStrict (bs_elements b))) (\<lambda>players.
     res_bind (transformed (transformPhases (bs_phases b))) (\<lambda>phases.
     res_bind (transformed (transformFixtures parseDate rawFixtures)) (\<lambda>fixtures.
     res_bind (requireExactCount ''transformed events'' (length events) (length (bs_events b))) (\<lambda>_.
     res_bind (requireExactCount ''transformed teams'' (length teams) (length (bs_teams b))) (\<lambda>_.
     res_bind (requireExactCount ''transformed players'' (length players) (length (bs_elements b))) (\<lambda>_.
     res_bind (requireExactCount ''transformed phases'' (length phases) (length (bs_phases b))) (\<lambda>_.
     res_bind (requireExactCount ''transformed fixtures'' (length fixtures) (length rawFixtures)) (\<lambda>_.
     res_bind (requireUniqueIds ''event'' (map ev_id events)) (\<lambda>_.
     res_bind (requireCompleteEventRange events) (\<lambda>_.
     res_bind (requireUniqueIds ''team'' (map tm_id teams)) (\<lambda>_.
     let teamIds = js_uniq (map tm_id teams) in
     res_bind (requirePlayerCoverage players teamIds) (\<lambda>_.
     res_bind (requirePhaseCoverage phases) (\<lambda>_.
     res_bind (requireFixtureCoverage fixtures teamIds) (\<lambda>_.
     res_bind (agreed_season (deriveFplSeasonFromEvents parseDate (bs_events b))
       (deriveFplSeasonFromFixtures parseDate rawFixtures)) (\<lambda>season.
     let selectionRules = normalizeSelectionRules b in
     res_bind (res_guard (\<not> (selectionRules = None \<and> has_rule_payload b))
       (Snapshot_incomplete ''official selection rules are incomplete'')) (\<lambda>_.
     Inr \<lparr>cs_season = season, cs_events = events, cs_teams = teams, cs_players = players,
          cs_phases = phases, cs_fixtures = fixtures, cs_selectionRules = selectionRules\<rparr>)))))))))))))))))))))"

section \<open>The current event and the lifecycle of a season\<close>

text \<open>
  \<open>selectCurrentEventIdByDeadline\<close>: an event without deadline lies at infinity, one with an
  unreadable deadline compares as \<^verbatim>\<open>NaN\<close> and is dropped by the filter.
\<close>

definition event_deadline :: "(string \<Rightarrow> js_date) \<Rightarrow> event \<Rightarrow> int option" where
  "event_deadline parseDate e =
     (case ev_deadlineTime e of None \<Rightarrow> None | Some s \<Rightarrow> if s = [] then None else parseDate s)"

definition selectCurrentEventIdByDeadline :: "(string \<Rightarrow> js_date) \<Rightarrow> event list \<Rightarrow> int \<Rightarrow> int option" where
  "selectCurrentEventIdByDeadline parseDate events now =
     (case js_sort (\<lambda>l r. the (event_deadline parseDate r) - the (event_deadline parseDate l))
             (filter (\<lambda>e. case event_deadline parseDate e of None \<Rightarrow> False | Some d \<Rightarrow> d \<le> now) events) of
        [] \<Rightarrow> None
      | e # _ \<Rightarrow> Some (ev_id e))"

datatype season_state = Reference_only | Completed | Preseason | Active_season | Closed

definition advanceSeasonLifecycleState :: "season_state \<Rightarrow> event list \<Rightarrow> season_state" where
  "advanceSeasonLifecycleState st events =
     (if st = Reference_only \<or> st = Closed then st
      else if (case List.find (\<lambda>e. ev_id e = 38) events of
                 None \<Rightarrow> False
               | Some gw38 \<Rightarrow> ev_finished gw38 \<and> ev_dataChecked gw38) then Completed
      else if st = Preseason \<and> list_ex (\<lambda>e. ev_isCurrent e \<or> ev_finished e) events then Active_season
      else if st = Completed then Completed
      else if st = Active_season then Active_season
      else Preseason)"

text \<open>The lifecycle only moves forward, and repeating a step with the same evidence changes nothing.\<close>

fun season_rank :: "season_state \<Rightarrow> nat" where
  "season_rank Reference_only = 0"
| "season_rank Preseason = 1"
| "season_rank Active_season = 2"
| "season_rank Completed = 3"
| "season_rank Closed = 4"

lemma lifecycle_state_forward: "season_rank st \<le> season_rank (advanceSeasonLifecycleState st events)"
  by (cases st) (simp_all add: advanceSeasonLifecycleState_def)

lemma lifecycle_state_idem:
  "advanceSeasonLifecycleState (advanceSeasonLifecycleState st events) events =
     advanceSeasonLifecycleState st events"
  by (cases st) (simp_all add: advanceSeasonLifecycleState_def)

text \<open>The selected event has the latest deadline that has passed.\<close>

lemma selectCurrentEventId_latest:
  assumes "selectCurrentEventIdByDeadline pd events now = Some i"
  obtains e d where "e \<in> set events" and "ev_id e = i" and "event_deadline pd e = Some d" and "d \<le> now"
    and "\<And>e' d'. e' \<in> set events \<Longrightarrow> event_deadline pd e' = Some d' \<Longrightarrow> d' \<le> now \<Longrightarrow> d' \<le> d"
proof -
  let ?due = "\<lambda>e. case event_deadline pd e of None \<Rightarrow> False | Some d \<Rightarrow> d \<le> now"
  let ?cmp = "\<lambda>l r. the (event_deadline pd r) - the (event_deadline pd l)"
  obtain e es where es: "js_sort ?cmp (filter ?due events) = e # es" and i: "ev_id e = i"
    using assms by (auto simp: selectCurrentEventIdByDeadline_def split: list.splits)
  have mem: "set (e # es) = {x \<in> set events. ?due x}"
    using set_js_sort [of ?cmp "filter ?due events"] by (simp only: es) auto
  then have e: "e \<in> set events" "?due e" by auto
  then obtain d where d: "event_deadline pd e = Some d" "d \<le> now" by (auto split: option.splits)
  have "d' \<le> d" if "e' \<in> set events" "event_deadline pd e' = Some d'" "d' \<le> now" for e' d'
  proof -
    have "e' \<in> set (e # es)" using that unfolding mem by simp
    moreover have "sorted_wrt (\<lambda>x y. ?cmp x y \<le> 0) (e # es)"
      using comparator.sorted_js_sort [OF comparator_key_desc [of "\<lambda>e. the (event_deadline pd e)"],
        of "filter ?due events"] by (simp only: es)
    ultimately show ?thesis using d(1) that(2) by auto
  qed
  with e(1) i d show ?thesis by (rule that)
qed

end
