(* ===== verification/SnapshotCoverage.thy ===== *)
theory SnapshotCoverage
  imports CoreSnapshot
begin

text \<open>
  What the checks of a core snapshot establish. \<open>player_coverage\<close> and \<open>fixture_coverage\<close> are the
  reference definitions without any counting maps; \<open>requirePlayerCoverage_iff\<close> and
  \<open>requireFixtureCoverage_iff\<close> show that the code accepts exactly them. With twenty teams the
  accepted fixtures are a double round robin: every team hosts every other team exactly once.
  The type property of the snapshot and a complete sample season end the theory.
\<close>

section \<open>Guarded loops and counting maps\<close>

lemma res_iter_guarded:
  assumes "\<And>x s. f x s = (if ok x then Inr (g x s) else Inl (err x))"
  shows "res_iter f xs s = Inr t \<longleftrightarrow> list_all ok xs \<and> t = fold g xs s"
  by (induction xs arbitrary: s) (auto simp: assms)

lemma distinct_keys_new: "distinct (map fst (js_map_new es))"
proof -
  have "distinct (map fst (foldl (\<lambda>m (k, v). js_set k v m) m es))" if "distinct (map fst m)" for m :: "('a, 'b) js_map"
    using that by (induction es arbitrary: m) (auto simp: distinct_update)
  then show ?thesis by (simp add: js_map_new_def)
qed

lemma keys_set: "fst ` set (js_set k v m) = insert k (fst ` set m)"
  by (simp add: dom_update)

lemma keys_new: "fst ` set (js_map_new es) = fst ` set es"
proof -
  have "fst ` set (foldl (\<lambda>m (k, v). js_set k v m) m es) = fst ` set m \<union> fst ` set es" for m :: "('a, 'b) js_map"
    by (induction es arbitrary: m) (simp_all add: case_prod_unfold keys_set)
  then show ?thesis by (simp add: js_map_new_def)
qed

lemma list_all_entries:
  assumes "distinct (map fst m)"
  shows "list_all (\<lambda>(k, v). P v) m \<longleftrightarrow> (\<forall>k \<in> fst ` set m. P (the (js_get m k)))"
  using assms by (force simp: list_all_iff)

text \<open>The count of \<open>k\<close> in a map of counts; absent keys count zero.\<close>

abbreviation tally :: "('k, nat) js_map \<Rightarrow> 'k \<Rightarrow> nat" where
  "tally m k \<equiv> coalesce (js_get m k) 0"

lemma tally_the: "k \<in> fst ` set m \<Longrightarrow> the (js_get m k) = tally m k"
  by (auto simp: weak_map_of_SomeI dest: weak_map_of_SomeI)

lemma tally_zeros: "tally (js_map_new (map (\<lambda>t. (t, 0)) ids)) k = 0"
  by (auto simp: js_get_map_new coalesce_def split: option.splits dest!: map_of_SomeD)

lemma keys_zeros: "fst ` set (js_map_new (map (\<lambda>t. (t, 0 :: nat)) ids)) = set ids"
  by (simp add: keys_new image_image)

section \<open>Players\<close>

definition player_coverage :: "player list \<Rightarrow> int list \<Rightarrow> bool" where
  "player_coverage players teamIds =
     (distinct (map pl_id players) \<and> set (map pl_type players) = {1..4} \<and>
      set (map pl_teamId players) \<subseteq> set teamIds \<and>
      (\<forall>t \<in> set teamIds. 11 \<le> length (filter (\<lambda>p. pl_teamId p = t) players)))"

definition tally_player :: "player \<Rightarrow> int list \<times> (int, nat) js_map \<Rightarrow> int list \<times> (int, nat) js_map" where
  "tally_player p s =
     (js_uniq (fst s @ [pl_type p]), js_set (pl_teamId p) (tally (snd s) (pl_teamId p) + 1) (snd s))"

definition player_ok :: "int list \<Rightarrow> player \<Rightarrow> bool" where
  "player_ok teamIds p = (pl_teamId p \<in> set teamIds \<and> 1 \<le> pl_type p \<and> pl_type p \<le> 4)"

lemma count_player_iter:
  "res_iter (count_player ids) ps s = Inr t \<longleftrightarrow> list_all (player_ok ids) ps \<and> t = fold tally_player ps s"
  by (rule res_iter_guarded [where err = "\<lambda>p. Snapshot_incomplete (if pl_teamId p \<notin> set ids
        then ''player references an unknown team'' else ''player position is outside 1-4'')"])
    (auto simp: count_player_def tally_player_def player_ok_def)

lemma tally_players:
  "tally (snd (fold tally_player ps s)) t = tally (snd s) t + length (filter (\<lambda>p. pl_teamId p = t) ps)"
  "set (fst (fold tally_player ps s)) = set (fst s) \<union> pl_type ` set ps"
  "fst ` set (snd (fold tally_player ps s)) = fst ` set (snd s) \<union> pl_teamId ` set ps"
  "distinct (map fst (snd s)) \<Longrightarrow> distinct (map fst (snd (fold tally_player ps s)))"
  "distinct (fst s) \<Longrightarrow> distinct (fst (fold tally_player ps s))"
  by (induction ps arbitrary: s) (auto simp: tally_player_def keys_set distinct_update)

lemma four_positions:
  assumes "set ks \<subseteq> {1..4 :: int}" and "distinct ks"
  shows "length ks = 4 \<longleftrightarrow> set ks = {1..4}"
proof
  assume "length ks = 4"
  then have "card (set ks) = card {1..4 :: int}" using distinct_card [OF assms(2)] by simp
  then show "set ks = {1..4}" using assms(1) by (intro card_subset_eq) simp_all
next
  assume "set ks = {1..4}"
  then show "length ks = 4" using distinct_card [OF assms(2)] by simp
qed

lemma requireUniqueIds_iff [simp]: "requireUniqueIds label ids = Inr u \<longleftrightarrow> distinct ids"
  unfolding requireUniqueIds_def res_guard_Inr_iff by (rule length_js_uniq_eq_iff)

lemma requirePlayerCoverage_iff:
  "requirePlayerCoverage ps ids = Inr () \<longleftrightarrow> player_coverage ps ids"
proof -
  let ?s = "([], js_map_new (map (\<lambda>t. (t, 0)) ids)) :: int list \<times> (int, nat) js_map"
  let ?t = "fold tally_player ps ?s"
  have ok: "list_all (player_ok ids) ps \<longleftrightarrow>
      set (map pl_teamId ps) \<subseteq> set ids \<and> set (map pl_type ps) \<subseteq> {1..4}"
    by (auto simp: list_all_iff player_ok_def)
  have pos: "length (fst ?t) = 4 \<longleftrightarrow> set (map pl_type ps) = {1..4}" if "set (map pl_type ps) \<subseteq> {1..4}"
    using four_positions [of "fst ?t"] that by (simp add: tally_players)
  have "distinct (map fst (snd ?t))" by (rule tally_players(4)) (simp add: distinct_keys_new)
  then have "list_all (\<lambda>(_, c). 11 \<le> c) (snd ?t) \<longleftrightarrow> (\<forall>t \<in> fst ` set (snd ?t). 11 \<le> tally (snd ?t) t)"
    by (simp add: list_all_entries tally_the)
  then have counts: "list_all (\<lambda>(_, c). 11 \<le> c) (snd ?t) \<longleftrightarrow>
      (\<forall>t \<in> set ids. 11 \<le> length (filter (\<lambda>p. pl_teamId p = t) ps))"
    if "set (map pl_teamId ps) \<subseteq> set ids"
    using that by (simp add: tally_players keys_zeros tally_zeros Un_absorb2)
  show ?thesis
    unfolding requirePlayerCoverage_def player_coverage_def
    using ok pos counts
    by (auto simp: res_bind_Inr_iff count_player_iter split: prod.splits)
qed

section \<open>Fixtures\<close>

definition games :: "int \<Rightarrow> int \<Rightarrow> fixture list \<Rightarrow> nat" where
  "games h a fs = length (filter (\<lambda>f. fx_teamH f = h \<and> fx_teamA f = a) fs)"

definition fixture_ok :: "int list \<Rightarrow> fixture \<Rightarrow> bool" where
  "fixture_ok teamIds f =
     (fx_teamH f \<in> set teamIds \<and> fx_teamA f \<in> set teamIds \<and> fx_teamH f \<noteq> fx_teamA f \<and>
      z_nullable (z_between 1 38) (fx_event f))"

definition double_round_robin :: "fixture list \<Rightarrow> int list \<Rightarrow> bool" where
  "double_round_robin fs teamIds =
     (\<forall>h \<in> set teamIds. \<forall>a \<in> set teamIds. games h a fs = (if h = a then 0 else 1))"

definition fixture_coverage :: "fixture list \<Rightarrow> int list \<Rightarrow> bool" where
  "fixture_coverage fs teamIds =
     (distinct (map fx_id fs) \<and> list_all (fixture_ok teamIds) fs \<and> double_round_robin fs teamIds)"

definition tally_fixture :: "fixture \<Rightarrow> fixture_counts \<Rightarrow> fixture_counts" where
  "tally_fixture f s =
     (let m = js_set (fx_teamH f) (tally (fst s) (fx_teamH f) + 1) (fst s);
          key = pair_key (min (fx_teamH f) (fx_teamA f)) (max (fx_teamH f) (fx_teamA f));
          p = coalesce (js_get (snd s) key) (0, 0)
      in (js_set (fx_teamA f) (tally m (fx_teamA f) + 1) m,
          js_set key (if fx_teamH f \<le> fx_teamA f then (fst p + 1, snd p) else (fst p, snd p + 1)) (snd s)))"

lemma count_fixture_iter:
  "res_iter (count_fixture ids) fs s = Inr t \<longleftrightarrow> list_all (fixture_ok ids) fs \<and> t = fold tally_fixture fs s"
  by (rule res_iter_guarded [where err = "\<lambda>f. Snapshot_incomplete
        (if fx_teamH f \<notin> set ids \<or> fx_teamA f \<notin> set ids then ''fixture references an unknown team''
         else if fx_teamH f = fx_teamA f then ''fixture has the same home and away team''
         else ''fixture event is outside 1-38'')"])
    (auto simp: count_fixture_def tally_fixture_def fixture_ok_def Let_def min_def)

lemma colon_show_int: "CHR '':'' \<notin> set (show_int i)"
  using show_nat_no_sep [of "CHR '':''"] by (simp add: show_int_def)

lemma pair_key_inject [simp]: "pair_key l u = pair_key l' u' \<longleftrightarrow> l = l' \<and> u = u'"
proof
  have split: "takeWhile (\<lambda>c. c \<noteq> CHR '':'') (pair_key l u) = show_int l"
    "dropWhile (\<lambda>c. c \<noteq> CHR '':'') (pair_key l u) = CHR '':'' # show_int u" for l u
    using colon_show_int [of l]
    by (auto simp: pair_key_def takeWhile_append dropWhile_append)
  assume "pair_key l u = pair_key l' u'"
  then have "show_int l = show_int l'" "CHR '':'' # show_int u = CHR '':'' # show_int u'"
    by (metis split(1), metis split(2))
  then show "l = l' \<and> u = u'" by simp
qed simp

lemma tally_appearances:
  "tally (fst (fold tally_fixture fs s)) t = tally (fst s) t +
     length (filter (\<lambda>f. fx_teamH f = t) fs) + length (filter (\<lambda>f. fx_teamA f = t) fs)"
  "fst ` set (fst (fold tally_fixture fs s)) =
     fst ` set (fst s) \<union> fx_teamH ` set fs \<union> fx_teamA ` set fs"
  "distinct (map fst (fst s)) \<Longrightarrow> distinct (map fst (fst (fold tally_fixture fs s)))"
  by (induction fs arbitrary: s) (auto simp: tally_fixture_def Let_def keys_set distinct_update)

definition fixture_pair :: "fixture \<Rightarrow> int \<times> int" where
  "fixture_pair f = (min (fx_teamH f) (fx_teamA f), max (fx_teamH f) (fx_teamA f))"

lemma tally_pairings:
  "fst ` set (snd (fold tally_fixture fs s)) =
     fst ` set (snd s) \<union> (\<lambda>f. pair_key (fst (fixture_pair f)) (snd (fixture_pair f))) ` set fs"
  "distinct (map fst (snd s)) \<Longrightarrow> distinct (map fst (snd (fold tally_fixture fs s)))"
  by (induction fs arbitrary: s)
    (auto simp: tally_fixture_def fixture_pair_def Let_def keys_set distinct_update)

lemma tally_pairing_values:
  assumes "l < u"
  shows "coalesce (js_get (snd (fold tally_fixture fs s)) (pair_key l u)) (0, 0) =
      (let p = coalesce (js_get (snd s) (pair_key l u)) (0, 0) in
       (fst p + games l u fs, snd p + games u l fs))"
  using assms
proof (induction fs arbitrary: s)
  case (Cons f fs)
  show ?case
    unfolding fold.simps comp_def Cons.IH [OF Cons.prems]
    using Cons.prems by (auto simp: tally_fixture_def games_def Let_def min_def max_def)
qed (simp add: games_def Let_def)

text \<open>Splitting a count by a key that ranges over a finite set.\<close>

lemma length_filter_partition:
  assumes "finite A" and "\<And>x. x \<in> set xs \<Longrightarrow> P x \<Longrightarrow> g x \<in> A"
  shows "length (filter P xs) = (\<Sum>a \<in> A. length (filter (\<lambda>x. P x \<and> g x = a) xs))"
  using assms(2)
proof (induction xs)
  case (Cons x xs)
  have "(\<Sum>a \<in> A. length (filter (\<lambda>y. P y \<and> g y = a) (x # xs))) =
      (\<Sum>a \<in> A. length (filter (\<lambda>y. P y \<and> g y = a) xs) + (if P x \<and> g x = a then 1 else 0))"
    by (rule sum.cong) auto
  also have "\<dots> = length (filter P xs) + (\<Sum>a \<in> A. if P x \<and> g x = a then 1 else 0)"
    using Cons by (simp add: sum.distrib)
  also have "(\<Sum>a \<in> A. if P x \<and> g x = a then 1 else 0) = (if P x then 1 else 0 :: nat)"
    using Cons.prems [of x] assms(1) by (auto simp: sum.delta)
  finally show ?case by simp
qed simp

definition team_pairs :: "int list \<Rightarrow> (int \<times> int) set" where
  "team_pairs ids = {(l, u). l \<in> set ids \<and> u \<in> set ids \<and> l < u}"

lemma card_team_pairs:
  assumes "distinct ids"
  shows "card (team_pairs ids) = length ids * (length ids - 1) div 2"
proof -
  have bij: "bij_betw (\<lambda>(l, u). {l, u}) (team_pairs ids) {B. B \<subseteq> set ids \<and> card B = 2}"
  proof (rule bij_betwI')
    fix B assume "B \<in> {B. B \<subseteq> set ids \<and> card B = 2}"
    then obtain x y where "B = {x, y}" "x \<noteq> y" "x \<in> set ids" "y \<in> set ids"
      by (auto simp: card_2_iff)
    then show "\<exists>p \<in> team_pairs ids. B = (\<lambda>(l, u). {l, u}) p"
      by (intro bexI [of _ "(min x y, max x y)"]) (auto simp: team_pairs_def min_def max_def)
  qed (auto simp: team_pairs_def doubleton_eq_iff)
  have "card (team_pairs ids) = length ids choose 2"
    using bij_betw_same_card [OF bij] n_subsets [of "set ids" 2] assms by (simp add: distinct_card)
  then show ?thesis by (simp add: choose_two)
qed

lemma fixture_pairs_subset:
  "list_all (fixture_ok ids) fs \<Longrightarrow> fixture_pair ` set fs \<subseteq> team_pairs ids"
  by (auto simp: list_all_iff fixture_ok_def fixture_pair_def team_pairs_def min_def max_def)

lemma finite_team_pairs: "finite (team_pairs ids)"
  by (rule finite_subset [of _ "set ids \<times> set ids"]) (auto simp: team_pairs_def)

text \<open>The pairings map: its keys are the pairs that met, its values the games of each pair.\<close>

lemma pairings_of_fixtures:
  fixes z :: "(int, nat) js_map"
  assumes ok: "list_all (fixture_ok ids) fs"
  defines "m \<equiv> snd (fold tally_fixture fs (z, []))"
  shows "length m = card (fixture_pair ` set fs)"
    and "list_all (\<lambda>(_, p). fst p = 1 \<and> snd p = 1) m \<longleftrightarrow>
      (\<forall>(l, u) \<in> fixture_pair ` set fs. games l u fs = 1 \<and> games u l fs = 1)"
proof -
  let ?key = "\<lambda>p. pair_key (fst p) (snd p)"
  have keys: "fst ` set m = ?key ` fixture_pair ` set fs"
    by (simp add: m_def tally_pairings image_image)
  have dist: "distinct (map fst m)" unfolding m_def by (rule tally_pairings) simp
  have "length m = card (fst ` set m)" using distinct_card [OF dist] by simp
  also have "\<dots> = card (fixture_pair ` set fs)"
    unfolding keys by (rule card_image) (auto simp: inj_on_def prod_eq_iff)
  finally show "length m = card (fixture_pair ` set fs)" .
  have val: "the (js_get m (?key p)) = (games (fst p) (snd p) fs, games (snd p) (fst p) fs)"
    if p: "p \<in> fixture_pair ` set fs" for p
  proof -
    have "fst p < snd p" using p fixture_pairs_subset [OF ok] by (auto simp: team_pairs_def)
    moreover have "?key p \<in> fst ` set m" using p keys by blast
    then obtain v where "js_get m (?key p) = Some v" by (auto dest: weak_map_of_SomeI)
    ultimately show ?thesis
      using tally_pairing_values [of "fst p" "snd p" fs "(z, [])"] by (simp add: m_def Let_def)
  qed
  have "list_all (\<lambda>(k, p). fst p = 1 \<and> snd p = 1) m \<longleftrightarrow>
      (\<forall>p \<in> fixture_pair ` set fs. fst (the (js_get m (?key p))) = 1 \<and> snd (the (js_get m (?key p))) = 1)"
    unfolding list_all_entries [OF dist, of "\<lambda>p. fst p = 1 \<and> snd p = 1"] keys by blast
  then show "list_all (\<lambda>(_, p). fst p = 1 \<and> snd p = 1) m \<longleftrightarrow>
      (\<forall>(l, u) \<in> fixture_pair ` set fs. games l u fs = 1 \<and> games u l fs = 1)"
    using val by (simp add: case_prod_unfold)
qed

lemma games_pos: "0 < games h a fs \<longleftrightarrow> (\<exists>f \<in> set fs. fx_teamH f = h \<and> fx_teamA f = a)"
  by (auto simp: games_def filter_empty_conv)

lemma pairings_round_robin:
  assumes dist: "distinct ids" and ok: "list_all (fixture_ok ids) fs"
  shows "card (fixture_pair ` set fs) = length ids * (length ids - 1) div 2 \<and>
      (\<forall>(l, u) \<in> fixture_pair ` set fs. games l u fs = 1 \<and> games u l fs = 1)
    \<longleftrightarrow> double_round_robin fs ids"
proof
  assume a: "card (fixture_pair ` set fs) = length ids * (length ids - 1) div 2 \<and>
      (\<forall>(l, u) \<in> fixture_pair ` set fs. games l u fs = 1 \<and> games u l fs = 1)"
  then have "fixture_pair ` set fs = team_pairs ids"
    using card_subset_eq [OF finite_team_pairs fixture_pairs_subset [OF ok]] card_team_pairs [OF dist]
    by simp
  then have one: "games l u fs = 1 \<and> games u l fs = 1" if "(l, u) \<in> team_pairs ids" for l u
    using a that by blast
  have "games h h fs = 0" for h
    using games_pos [of h h fs] ok by (auto simp: list_all_iff fixture_ok_def)
  moreover have "games h a fs = 1" if "h \<in> set ids" "a \<in> set ids" "h \<noteq> a" for h a
    using one [of h a] one [of a h] that by (auto simp: team_pairs_def neq_iff)
  ultimately show "double_round_robin fs ids" by (simp add: double_round_robin_def)
next
  assume drr: "double_round_robin fs ids"
  have one: "games l u fs = 1 \<and> games u l fs = 1" if "(l, u) \<in> team_pairs ids" for l u
    using drr that by (auto simp: double_round_robin_def team_pairs_def)
  have "team_pairs ids \<subseteq> fixture_pair ` set fs"
  proof
    fix p assume p: "p \<in> team_pairs ids"
    then have "0 < games (fst p) (snd p) fs" using one [of "fst p" "snd p"] by simp
    then obtain f where "f \<in> set fs" "fx_teamH f = fst p" "fx_teamA f = snd p"
      using games_pos by blast
    moreover have "fst p < snd p" using p by (auto simp: team_pairs_def)
    ultimately have "fixture_pair f = p" by (simp add: fixture_pair_def prod_eq_iff)
    with \<open>f \<in> set fs\<close> show "p \<in> fixture_pair ` set fs" by blast
  qed
  then have "fixture_pair ` set fs = team_pairs ids" using fixture_pairs_subset [OF ok] by blast
  then show "card (fixture_pair ` set fs) = length ids * (length ids - 1) div 2 \<and>
      (\<forall>(l, u) \<in> fixture_pair ` set fs. games l u fs = 1 \<and> games u l fs = 1)"
    using card_team_pairs [OF dist] one by auto
qed

text \<open>A double round robin has \<open>n (n - 1)\<close> games, and each team plays \<open>n - 1\<close> at home and away.\<close>

lemma sum_others:
  assumes "distinct ids" and "t \<in> set ids"
  shows "(\<Sum>a \<in> set ids. if t = a then 0 else 1 :: nat) = length ids - 1"
proof -
  have "(\<Sum>a \<in> set ids. if t = a then 0 else 1 :: nat) = (\<Sum>a \<in> set ids - {t}. 1)"
    by (rule sum.mono_neutral_cong_right) auto
  also have "\<dots> = length ids - 1" using assms by (simp add: distinct_card)
  finally show ?thesis .
qed

lemma round_robin_appearances:
  assumes dist: "distinct ids" and ok: "list_all (fixture_ok ids) fs"
    and drr: "double_round_robin fs ids" and t: "t \<in> set ids"
  shows "length (filter (\<lambda>f. fx_teamH f = t) fs) = length ids - 1"
    and "length (filter (\<lambda>f. fx_teamA f = t) fs) = length ids - 1"
proof -
  have mem: "fx_teamH f \<in> set ids" "fx_teamA f \<in> set ids" if "f \<in> set fs" for f
    using ok that by (auto simp: list_all_iff fixture_ok_def)
  have "length (filter (\<lambda>f. fx_teamH f = t) fs) = (\<Sum>a \<in> set ids. games t a fs)"
    unfolding games_def by (rule length_filter_partition) (auto simp: mem)
  also have "\<dots> = (\<Sum>a \<in> set ids. if t = a then 0 else 1)"
    using drr t by (intro sum.cong) (auto simp: double_round_robin_def)
  finally show "length (filter (\<lambda>f. fx_teamH f = t) fs) = length ids - 1"
    by (simp only: sum_others [OF dist t])
  have "length (filter (\<lambda>f. fx_teamA f = t) fs) =
      (\<Sum>h \<in> set ids. length (filter (\<lambda>f. fx_teamA f = t \<and> fx_teamH f = h) fs))"
    by (rule length_filter_partition) (auto simp: mem)
  also have "\<dots> = (\<Sum>h \<in> set ids. games h t fs)"
    unfolding games_def by (simp only: conj_commute)
  also have "\<dots> = (\<Sum>h \<in> set ids. if t = h then 0 else 1)"
    using drr t by (intro sum.cong) (auto simp: double_round_robin_def)
  finally show "length (filter (\<lambda>f. fx_teamA f = t) fs) = length ids - 1"
    by (simp only: sum_others [OF dist t])
qed

lemma round_robin_length:
  assumes "distinct ids" and "list_all (fixture_ok ids) fs" and "double_round_robin fs ids"
  shows "length fs = length ids * (length ids - 1)"
proof -
  have "length (filter (\<lambda>_. True) fs) =
      (\<Sum>h \<in> set ids. length (filter (\<lambda>f. True \<and> fx_teamH f = h) fs))"
    by (rule length_filter_partition) (use assms(2) in \<open>auto simp: list_all_iff fixture_ok_def\<close>)
  also have "\<dots> = (\<Sum>h \<in> set ids. length ids - 1)"
    by (rule sum.cong) (simp_all add: round_robin_appearances [OF assms])
  finally show ?thesis using assms(1) by (simp add: distinct_card)
qed

lemma requireFixtureCoverage_iff:
  assumes dist: "distinct ids" and n: "length ids = 20"
  shows "requireFixtureCoverage fs ids = Inr () \<longleftrightarrow> fixture_coverage fs ids"
proof (cases "list_all (fixture_ok ids) fs")
  case True
  let ?z = "js_map_new (map (\<lambda>t. (t, 0)) ids) :: (int, nat) js_map"
  let ?t = "fold tally_fixture fs (?z, [])"
  note pairs = pairings_of_fixtures [OF True, of ?z] pairings_round_robin [OF dist True]
  have "distinct (map fst (fst ?t))" by (rule tally_appearances) (simp add: distinct_keys_new)
  then have app: "list_all (\<lambda>(_, c). c = 38) (fst ?t) \<longleftrightarrow> (\<forall>t \<in> fst ` set (fst ?t). tally (fst ?t) t = 38)"
    by (simp add: list_all_entries tally_the)
  have keys: "fst ` set (fst ?t) = set ids"
    using True by (auto simp: tally_appearances keys_zeros list_all_iff fixture_ok_def)
  have played: "list_all (\<lambda>(_, c). c = 38) (fst ?t)" if "double_round_robin fs ids"
    unfolding app keys using round_robin_appearances [OF dist True that] n
    by (simp add: tally_appearances tally_zeros)
  have "length fs = 380" if "double_round_robin fs ids"
    using round_robin_length [OF dist True that] n by simp
  then show ?thesis
    using True played pairs
    unfolding requireFixtureCoverage_def fixture_coverage_def requireExactCount_def
    by (auto simp: res_bind_Inr_iff count_fixture_iter split: prod.splits)
next
  case False
  then show ?thesis
    unfolding requireFixtureCoverage_def fixture_coverage_def
    by (auto simp: res_bind_Inr_iff count_fixture_iter split: prod.splits)
qed

section \<open>The accepted snapshot\<close>

definition selection_rules_ok :: "selection_rules \<Rightarrow> bool" where
  "selection_rules_ok r =
     (distinct (map sp_id (sr_positions r)) \<and> distinct (map cw_id (sr_chips r)) \<and>
      list_all (\<lambda>p. 0 < sp_squadSelect p \<and> 0 < sp_minPlay p \<and> sp_minPlay p \<le> sp_maxPlay p) (sr_positions r) \<and>
      list_all (\<lambda>c. 1 \<le> cw_startEvent c \<and> cw_startEvent c \<le> cw_stopEvent c) (sr_chips r) \<and>
      sum_list (map sp_squadSelect (sr_positions r)) = sr_squadSize r \<and>
      sum_list (map sp_minPlay (sr_positions r)) \<le> sr_startingSize r \<and>
      sr_startingSize r \<le> sum_list (map sp_maxPlay (sr_positions r)) \<and>
      sr_startingSize r \<le> sr_squadSize r \<and>
      0 < sr_maxPlayersPerTeam r \<and> sr_maxPlayersPerTeam r \<le> sr_squadSize r \<and> 0 < sr_budget r)"

definition core_snapshot_ok :: "core_snapshot \<Rightarrow> bool" where
  "core_snapshot_ok s =
     (let teamIds = map tm_id (cs_teams s) in
      list_all EventSchema (cs_events s) \<and> list_all TeamSchema (cs_teams s) \<and>
      list_all PlayerSchema (cs_players s) \<and> list_all validatePhase (cs_phases s) \<and>
      list_all FixtureSchema (cs_fixtures s) \<and>
      distinct (map ev_id (cs_events s)) \<and> set (map ev_id (cs_events s)) = {1..38} \<and>
      length teamIds = 20 \<and> distinct teamIds \<and>
      player_coverage (cs_players s) teamIds \<and>
      distinct (map ph_id (cs_phases s)) \<and>
      list_ex (\<lambda>p. ph_startEvent p = 1 \<and> ph_stopEvent p = 38) (cs_phases s) \<and>
      fixture_coverage (cs_fixtures s) teamIds \<and>
      (case cs_selectionRules s of None \<Rightarrow> True | Some r \<Rightarrow> selection_rules_ok r))"

lemma list_all_map_filter:
  "(\<And>x y. f x = Some y \<Longrightarrow> P y) \<Longrightarrow> list_all P (List.map_filter f xs)"
  by (induction xs) (auto simp: map_filter_simps split: option.splits)

lemma asPositiveInteger_pos: "asPositiveInteger v = Some n \<Longrightarrow> 0 < n"
  by (auto simp: asPositiveInteger_def split: option.splits if_splits)

lemma normalize_position_ok:
  "normalize_position p = Some q \<Longrightarrow> 0 < sp_squadSelect q \<and> 0 < sp_minPlay q \<and> sp_minPlay q \<le> sp_maxPlay q"
  by (auto simp: normalize_position_def Let_def dest: asPositiveInteger_pos
      split: option.splits if_splits)

lemma normalize_chip_ok:
  "normalize_chip c = Some w \<Longrightarrow> 1 \<le> cw_startEvent w \<and> cw_startEvent w \<le> cw_stopEvent w"
  by (auto simp: normalize_chip_def split: option.splits if_splits)

lemma normalizeSelectionRules_ok:
  assumes "normalizeSelectionRules b = Some r"
  shows "selection_rules_ok r"
proof -
  have "list_all (\<lambda>p. 0 < sp_squadSelect p \<and> 0 < sp_minPlay p \<and> sp_minPlay p \<le> sp_maxPlay p)
      (List.map_filter normalize_position (List.map_filter asRecord (bs_element_types b)))"
    by (rule list_all_map_filter) (rule normalize_position_ok)
  moreover have "list_all (\<lambda>c. 1 \<le> cw_startEvent c \<and> cw_startEvent c \<le> cw_stopEvent c)
      (List.map_filter normalize_chip (bs_chips b))"
    by (rule list_all_map_filter) (rule normalize_chip_ok)
  ultimately show ?thesis
    using assms length_js_uniq_eq_iff [of "map sp_id (sr_positions r)"]
      length_js_uniq_eq_iff [of "map cw_id (sr_chips r)"]
    by (auto simp: normalizeSelectionRules_def selection_rules_ok_def Let_def
        split: option.splits if_splits)
qed

lemma transformEvents_full:
  assumes "transformEvents rs = Inr es" and "length es = length rs"
  shows "list_all EventSchema es \<and> map ev_id es = map re_id rs"
proof -
  have "es = oks (map transformEvent rs)"
    using assms(1) by (auto simp: transformEvents_def Let_def split: if_splits)
  then have "list_all2 (\<lambda>r e. transformEvent r = Inr e) rs es"
    using oks_full [of transformEvent rs] assms(2) by simp
  then show ?thesis
    by (induction rule: list_all2_induct) (auto dest: transformEvent_ok)
qed

lemma transformTeams_full:
  assumes "transformTeams rs = Inr ts" and "length ts = length rs"
  shows "ts = map domain_team rs \<and> (\<forall>t \<in> set ts. TeamSchema t)"
  using assms oks_full [of transformTeam rs]
  by (intro list_all2_map_id [of transformTeam])
    (auto simp: transformTeams_def Let_def transformTeam_ok split: if_splits)

lemma transformPhases_full:
  assumes "transformPhases rs = Inr ps" and "length ps = length rs"
  shows "ps = map domain_phase rs \<and> (\<forall>p \<in> set ps. validatePhase p)"
  using assms oks_full [of transformPhase rs]
  by (intro list_all2_map_id [of transformPhase])
    (auto simp: transformPhases_def Let_def transformPhase_ok split: if_splits)

lemma transformFixtures_full:
  assumes "transformFixtures pd rs = Inr fs" and "length fs = length rs"
  shows "fs = map (domain_fixture pd) rs \<and> (\<forall>f \<in> set fs. FixtureSchema f)"
  using assms oks_full [of "transformFixture pd" rs]
  by (intro list_all2_map_id [of "transformFixture pd"])
    (auto simp: transformFixtures_def Let_def transformFixture_ok split: if_splits)

lemma transformPlayersStrict_full:
  assumes "transformPlayersStrict rs = Inr ps"
  shows "ps = map domain_player rs \<and> (\<forall>p \<in> set ps. PlayerSchema p)"
  by (rule list_all2_map_id [OF transformPlayersStrict_ok [OF assms]]) (rule transformPlayer_ok)

lemma requireExactCount_iff [simp]: "requireExactCount l a e = Inr u \<longleftrightarrow> a = e"
  by (simp add: requireExactCount_def)

lemma requireCompleteEventRange_ok:
  assumes "requireCompleteEventRange es = Inr ()" and "distinct (map ev_id es)" and "length es = 38"
  shows "set (map ev_id es) = {1..38}"
proof -
  have "{1..38} \<subseteq> set (map ev_id es)"
    using assms(1) unfolding requireCompleteEventRange_def res_guard_Inr_iff list_all_iff
    by (simp only: set_upto [symmetric] subset_iff) blast
  moreover have "card (set (map ev_id es)) = card {1..38 :: int}"
    using distinct_card [OF assms(2)] assms(3) by simp
  ultimately show ?thesis by (metis card_subset_eq finite_set)
qed

lemma requirePhaseCoverage_ok:
  "requirePhaseCoverage ps = Inr () \<Longrightarrow>
     distinct (map ph_id ps) \<and> list_ex (\<lambda>p. ph_startEvent p = 1 \<and> ph_stopEvent p = 38) ps"
  by (simp add: requirePhaseCoverage_def res_bind_Inr_iff)

text \<open>Every check an accepted snapshot has passed.\<close>

lemma prepareCoreSnapshot_checks:
  assumes "prepareCoreSnapshot pd b raws = Inr s"
  shows "length (bs_events b) = 38" "length (bs_teams b) = 20"
    "transformEvents (bs_events b) = Inr (cs_events s)" "length (cs_events s) = length (bs_events b)"
    "transformTeams (bs_teams b) = Inr (cs_teams s)" "length (cs_teams s) = length (bs_teams b)"
    "transformPlayersStrict (bs_elements b) = Inr (cs_players s)"
    "transformPhases (bs_phases b) = Inr (cs_phases s)" "length (cs_phases s) = length (bs_phases b)"
    "transformFixtures pd raws = Inr (cs_fixtures s)" "length (cs_fixtures s) = length raws"
    "distinct (map ev_id (cs_events s))" "requireCompleteEventRange (cs_events s) = Inr ()"
    "distinct (map tm_id (cs_teams s))"
    "requirePlayerCoverage (cs_players s) (js_uniq (map tm_id (cs_teams s))) = Inr ()"
    "requirePhaseCoverage (cs_phases s) = Inr ()"
    "requireFixtureCoverage (cs_fixtures s) (js_uniq (map tm_id (cs_teams s))) = Inr ()"
    "deriveFplSeasonFromEvents pd (bs_events b) = Some (cs_season s)"
    "deriveFplSeasonFromFixtures pd raws = Some (cs_season s)"
    "cs_selectionRules s = normalizeSelectionRules b"
  using assms unfolding prepareCoreSnapshot_def Let_def
  by (auto simp: res_bind_Inr_iff)

text \<open>
  C33. A snapshot that \<open>prepareCoreSnapshot\<close> accepts has the shape every consumer relies on: each
  record satisfies its domain schema, the events are exactly 1 to 38, the twenty teams are
  distinct and have at least eleven players each with all four positions in use, a phase spans the
  season, and the fixtures are a double round robin - every team hosts every other team exactly
  once and never plays itself; the selection rules, when there are any, admit a squad and a
  line-up. Nothing of the source was dropped or reordered, and the season is the one both sources
  give.
\<close>

theorem snapshot_well_formed:
  assumes "prepareCoreSnapshot parseDate b raws = Inr s"
  shows "core_snapshot_ok s \<and>
    map ev_id (cs_events s) = map re_id (bs_events b) \<and>
    cs_teams s = map domain_team (bs_teams b) \<and>
    cs_players s = map domain_player (bs_elements b) \<and>
    cs_phases s = map domain_phase (bs_phases b) \<and>
    cs_fixtures s = map (domain_fixture parseDate) raws \<and>
    deriveFplSeasonFromEvents parseDate (bs_events b) = Some (cs_season s) \<and>
    deriveFplSeasonFromFixtures parseDate raws = Some (cs_season s)"
proof -
  note c = prepareCoreSnapshot_checks [OF assms]
  note e = transformEvents_full [OF c(3,4)] and t = transformTeams_full [OF c(5,6)]
    and p = transformPlayersStrict_full [OF c(7)] and ph = transformPhases_full [OF c(8,9)]
    and f = transformFixtures_full [OF c(10,11)]
  have ids: "js_uniq (map tm_id (cs_teams s)) = map tm_id (cs_teams s)" "length (map tm_id (cs_teams s)) = 20"
    using c(2,6,14) by simp_all
  have events: "set (map ev_id (cs_events s)) = {1..38}"
    by (rule requireCompleteEventRange_ok [OF c(13,12)]) (simp add: c(1,4))
  have players: "player_coverage (cs_players s) (map tm_id (cs_teams s))"
    using c(15) unfolding ids(1) by (simp only: requirePlayerCoverage_iff)
  have fixtures: "fixture_coverage (cs_fixtures s) (map tm_id (cs_teams s))"
    using c(17) unfolding ids(1) by (simp only: requireFixtureCoverage_iff [OF c(14) ids(2)])
  have rules: "case cs_selectionRules s of None \<Rightarrow> True | Some r \<Rightarrow> selection_rules_ok r"
    unfolding c(20) by (cases "normalizeSelectionRules b") (simp_all add: normalizeSelectionRules_ok)
  note schemas = e [THEN conjunct1] t [THEN conjunct2, folded list_all_iff]
    p [THEN conjunct2, folded list_all_iff] ph [THEN conjunct2, folded list_all_iff]
    f [THEN conjunct2, folded list_all_iff]
  note phases = requirePhaseCoverage_ok [OF c(16)]
  have "core_snapshot_ok s"
    unfolding core_snapshot_ok_def Let_def
    by (intro conjI schemas c(12,14) events ids(2) players fixtures rules
        phases [THEN conjunct1] phases [THEN conjunct2])
  with e t p ph f c(18,19) show ?thesis by blast
qed

section \<open>A specimen season\<close>

text \<open>
  Twenty clubs with eleven players each, the 380 games of a double round robin and the official
  rules. Its acceptance follows from the reference definitions, so nothing is counted twice.
\<close>

definition specimen_deadline :: string where "specimen_deadline = ''2025-08-15T17:30:00Z''"

definition specimen_parse :: "string \<Rightarrow> js_date" where
  "specimen_parse s = (if s = specimen_deadline then Some 1755279000000 else None)"

definition specimen_raw_event :: "int \<Rightarrow> raw_event" where
  "specimen_raw_event i =
     \<lparr>re_id = i, re_name = ''Gameweek'', re_deadline_time = Some specimen_deadline,
      re_average_entry_score = None, re_finished = False, re_data_checked = False,
      re_highest_scoring_entry = None, re_deadline_time_epoch = Some 1755279000,
      re_deadline_time_game_offset = Some 0, re_highest_score = None, re_is_previous = False,
      re_is_current = False, re_is_next = (i = 1), re_cup_leagues_created = False,
      re_h2h_ko_matches_created = False, re_chip_plays = [], re_most_selected = None,
      re_most_transferred_in = None, re_top_element = None, re_top_element_info = JNull,
      re_transfers_made = Some 0, re_most_captained = None, re_most_vice_captained = None\<rparr>"

definition specimen_raw_team :: "int \<Rightarrow> raw_team" where
  "specimen_raw_team i =
     \<lparr>rt_id = i, rt_name = ''Club'', rt_short_name = ''CLB'', rt_code = i,
      rt_draw = 0, rt_form = None, rt_loss = 0, rt_played = 0, rt_points = 0, rt_position = 0,
      rt_strength = Some 3, rt_team_division = None, rt_unavailable = False, rt_win = 0,
      rt_strength_overall_home = 1100, rt_strength_overall_away = 1100,
      rt_strength_attack_home = 1100, rt_strength_attack_away = 1100,
      rt_strength_defence_home = 1100, rt_strength_defence_away = 1100, rt_pulse_id = i\<rparr>"

definition specimen_raw_element :: "int \<Rightarrow> int \<Rightarrow> raw_element" where
  "specimen_raw_element t k =
     \<lparr>el_id = 20 * k + t, el_code = 20 * k + t, el_element_type = 1 + k mod 4, el_team = t,
      el_now_cost = 50, el_cost_change_start = 0, el_first_name = ''A'', el_second_name = ''B'',
      el_web_name = ''B'', el_chance_of_playing_this_round = None,
      el_chance_of_playing_next_round = None\<rparr>"

definition specimen_raw_fixture :: "int \<Rightarrow> int \<Rightarrow> raw_fixture" where
  "specimen_raw_fixture h a =
     \<lparr>rf_code = 20 * h + a, rf_event = Some 1, rf_finished = False, rf_finished_provisional = False,
      rf_id = 20 * h + a, rf_kickoff_time = Some specimen_deadline, rf_minutes = 0,
      rf_provisional_start_time = False, rf_started = Some False, rf_team_a = a,
      rf_team_a_score = None, rf_team_h = h, rf_team_h_score = None, rf_stats = [],
      rf_team_h_difficulty = Some 3, rf_team_a_difficulty = Some 3, rf_pulse_id = 0\<rparr>"

definition specimen_position :: "int \<Rightarrow> int \<Rightarrow> int \<Rightarrow> int \<Rightarrow> json" where
  "specimen_position i sel lo hi =
     JObj [(''id'', JInt i), (''squad_select'', JInt sel), (''squad_min_play'', JInt lo),
           (''squad_max_play'', JInt hi)]"

definition specimen_pairs :: "(int \<times> int) list" where
  "specimen_pairs = filter (\<lambda>(h, a). h \<noteq> a) (List.product [1..20] [1..20])"

definition specimen_fixtures :: "raw_fixture list" where
  "specimen_fixtures = map (\<lambda>(h, a). specimen_raw_fixture h a) specimen_pairs"

definition specimen_roster :: "(int \<times> int) list" where
  "specimen_roster = List.product [1..20] [0..10]"

definition specimen_settings :: json where
  "specimen_settings =
     JObj [(''squad_squadsize'', JInt 15), (''squad_squadplay'', JInt 11),
       (''squad_total_spend'', JInt 1000), (''squad_team_limit'', JInt 3),
       (''ui_currency_multiplier'', JStr ''10'')]"

definition specimen_types :: "json list" where
  "specimen_types =
     [specimen_position 1 2 1 1, specimen_position 2 5 3 5, specimen_position 3 5 2 5, specimen_position 4 3 1 3]"

definition specimen_bootstrap :: bootstrap where
  "specimen_bootstrap =
     \<lparr>bs_events = map specimen_raw_event [1..38], bs_teams = map specimen_raw_team [1..20],
      bs_elements = map (\<lambda>(t, k). specimen_raw_element t k) specimen_roster,
      bs_phases = [\<lparr>rp_id = 1, rp_name = ''Overall'', rp_start_event = 1, rp_stop_event = 38,
                    rp_highest_score = None\<rparr>],
      bs_game_settings = specimen_settings, bs_element_types = specimen_types, bs_chips = []\<rparr>"

lemma specimen_parse_deadline [simp]: "specimen_parse specimen_deadline = Some 1755279000000"
  by (simp add: specimen_parse_def)

lemma specimen_deadline_nonempty [simp]: "specimen_deadline \<noteq> []"
  by (simp add: specimen_deadline_def)

lemma specimen_texts [simp]: "z_text 50 ''Club''" "z_text 5 ''CLB''" "z_text 50 ''A''" "z_text 50 ''B''"
  "z_text 30 ''B''" "z_text 50 ''Overall''"
  by code_simp+

lemma specimen_team:
  "1 \<le> i \<Longrightarrow> transformTeam (specimen_raw_team i) = Inr (domain_team (specimen_raw_team i))"
  by (simp add: transformTeam_def RawFPLTeamSchema_def TeamSchema_def domain_team_def
      specimen_raw_team_def z_defs)

lemma specimen_teams: "transformTeams (map specimen_raw_team [1..20]) = Inr (map domain_team (map specimen_raw_team [1..20]))"
proof -
  have "oks (map transformTeam (map specimen_raw_team [1..20])) = map domain_team (map specimen_raw_team [1..20])"
    by (rule oks_map_Inr) (auto simp: specimen_team)
  moreover have "map domain_team (map specimen_raw_team [1..20]) \<noteq> []" by simp
  ultimately show ?thesis by (simp add: transformTeams_def Let_def del: map_map)
qed

definition specimen_event_of :: "raw_event \<Rightarrow> event" where
  "specimen_event_of r = (case transformEvent r of Inr e \<Rightarrow> e)"

lemma specimen_event:
  "1 \<le> i \<Longrightarrow> transformEvent (specimen_raw_event i) = Inr (specimen_event_of (specimen_raw_event i)) \<and>
     ev_id (specimen_event_of (specimen_raw_event i)) = i"
  by (simp add: specimen_event_of_def transformEvent_def specimen_raw_event_def z_optional_def z_positive_def)

lemma specimen_events: "transformEvents (map specimen_raw_event [1..38]) = Inr (map specimen_event_of (map specimen_raw_event [1..38]))"
proof -
  have "oks (map transformEvent (map specimen_raw_event [1..38])) = map specimen_event_of (map specimen_raw_event [1..38])"
    by (rule oks_map_Inr) (auto simp: specimen_event)
  then show ?thesis by (simp add: transformEvents_def Let_def del: map_map)
qed

lemma specimen_event_ids: "map ev_id (map specimen_event_of (map specimen_raw_event [1..38])) = [1..38]"
  unfolding map_map by (rule map_idI) (simp add: specimen_event)

lemma specimen_player:
  "(t, k) \<in> set specimen_roster \<Longrightarrow>
     transformPlayer (specimen_raw_element t k) = Inr (domain_player (specimen_raw_element t k))"
  by (auto simp: transformPlayer_def RawFPLElementSchema_def PlayerSchema_def domain_player_def
      specimen_raw_element_def specimen_roster_def z_defs)

definition specimen_players :: "player list" where
  "specimen_players = map (\<lambda>(t, k). domain_player (specimen_raw_element t k)) specimen_roster"

lemma strict_players:
  assumes "\<And>r. r \<in> set rs \<Longrightarrow> transformPlayer r = Inr (g r)"
  shows "transformPlayersStrict rs = Inr (map g rs)"
proof -
  have "res_map (\<lambda>(i, r). case transformPlayer r of Inl _ \<Rightarrow> Inl (Player_failed i) | Inr p \<Rightarrow> Inr p)
      (enumerate n rs) = Inr (map g rs)" for n
    using assms by (induction rs arbitrary: n) auto
  then show ?thesis by (simp add: transformPlayersStrict_def)
qed

lemma specimen_players_strict: "transformPlayersStrict (bs_elements specimen_bootstrap) = Inr specimen_players"
  unfolding specimen_players_def
  by (subst strict_players [where g = domain_player])
    (auto simp: specimen_bootstrap_def specimen_player case_prod_unfold comp_def)

lemma specimen_roster_distinct: "distinct specimen_roster"
  unfolding specimen_roster_def by (rule distinct_product) simp_all

lemma digits_base_20:
  "20 * h + a = 20 * h' + a' \<Longrightarrow> a \<in> {1..20} \<Longrightarrow> a' \<in> {1..20} \<Longrightarrow> h = h' \<and> a = (a' :: int)"
  unfolding atLeastAtMost_iff by presburger

lemma specimen_player_coverage: "player_coverage specimen_players [1..20]"
proof -
  have types: "pl_type ` set specimen_players = {1..4}"
  proof
    show "{1..4} \<subseteq> pl_type ` set specimen_players"
    proof
      fix y :: int assume "y \<in> {1..4}"
      then have "(1, y - 1) \<in> set specimen_roster \<and> 1 + (y - 1) mod 4 = y"
        by (auto simp: specimen_roster_def)
      then show "y \<in> pl_type ` set specimen_players"
        unfolding specimen_players_def
        by (intro image_eqI [of _ _ "domain_player (specimen_raw_element 1 (y - 1))"])
          (force simp: domain_player_def specimen_raw_element_def)+
    qed
  qed (auto simp: specimen_players_def domain_player_def specimen_raw_element_def)
  have "11 \<le> length (filter (\<lambda>p. pl_teamId p = t) specimen_players)" if t: "t \<in> {1..20}" for t
  proof -
    have "length (filter (\<lambda>p. pl_teamId p = t) specimen_players) =
        length (filter (\<lambda>x. fst x = t) specimen_roster)"
      by (simp add: specimen_players_def filter_map comp_def case_prod_unfold domain_player_def specimen_raw_element_def)
    also have "\<dots> = card ({x. fst x = t} \<inter> set specimen_roster)"
      by (rule distinct_length_filter [OF specimen_roster_distinct])
    also have "{x. fst x = t} \<inter> set specimen_roster = {t} \<times> {0..10}"
      using t by (auto simp: specimen_roster_def)
    finally show ?thesis by simp
  qed
  moreover have "distinct (map pl_id specimen_players)"
  proof -
    have "inj_on (\<lambda>x. 20 * snd x + fst x) (set specimen_roster)"
    proof (rule inj_onI)
      fix x y assume "x \<in> set specimen_roster" "y \<in> set specimen_roster"
        "20 * snd x + fst x = 20 * snd y + fst y"
      then show "x = y"
        using digits_base_20 [of "snd x" "fst x" "snd y" "fst y"]
        by (auto simp: specimen_roster_def)
    qed
    then show ?thesis
      by (simp add: specimen_players_def distinct_map specimen_roster_distinct comp_def case_prod_unfold
          domain_player_def specimen_raw_element_def)
  qed
  moreover have "pl_teamId ` set specimen_players \<subseteq> {1..20}"
    by (auto simp: specimen_players_def specimen_roster_def domain_player_def specimen_raw_element_def)
  ultimately show ?thesis using types by (simp add: player_coverage_def)
qed

lemma specimen_pairs_mem: "(h, a) \<in> set specimen_pairs \<longleftrightarrow> h \<in> {1..20} \<and> a \<in> {1..20} \<and> h \<noteq> a"
  by (auto simp: specimen_pairs_def)

lemma specimen_pairs_distinct: "distinct specimen_pairs"
  unfolding specimen_pairs_def by (intro distinct_filter distinct_product) simp_all

definition specimen_games :: "fixture list" where
  "specimen_games = map (\<lambda>(h, a). domain_fixture specimen_parse (specimen_raw_fixture h a)) specimen_pairs"

lemma specimen_fixture:
  "(h, a) \<in> set specimen_pairs \<Longrightarrow> transformFixture specimen_parse (specimen_raw_fixture h a) =
     Inr (domain_fixture specimen_parse (specimen_raw_fixture h a))"
proof -
  assume "(h, a) \<in> set specimen_pairs"
  then have "RawFPLFixtureSchema (specimen_raw_fixture h a)"
    by (auto simp: RawFPLFixtureSchema_def specimen_raw_fixture_def specimen_pairs_mem z_defs)
  then show ?thesis by (simp add: transformFixture_def fixture_schema_redundant)
qed

lemma specimen_fixtures_nonempty: "specimen_pairs \<noteq> []"
  using specimen_pairs_mem [of 1 2] by auto

lemma specimen_transformFixtures: "transformFixtures specimen_parse specimen_fixtures = Inr specimen_games"
proof -
  have "oks (map (transformFixture specimen_parse) specimen_fixtures) =
      map (domain_fixture specimen_parse) specimen_fixtures"
    by (rule oks_map_Inr) (auto simp: specimen_fixtures_def specimen_fixture)
  also have "\<dots> = specimen_games"
    by (simp add: specimen_fixtures_def specimen_games_def case_prod_unfold comp_def)
  finally show ?thesis
    using specimen_fixtures_nonempty by (simp add: transformFixtures_def specimen_games_def)
qed

lemma specimen_fixture_coverage: "fixture_coverage specimen_games [1..20]"
proof -
  have fields: "fx_teamH (domain_fixture specimen_parse (specimen_raw_fixture h a)) = h"
    "fx_teamA (domain_fixture specimen_parse (specimen_raw_fixture h a)) = a"
    "fx_id (domain_fixture specimen_parse (specimen_raw_fixture h a)) = 20 * h + a"
    "fx_event (domain_fixture specimen_parse (specimen_raw_fixture h a)) = Some 1" for h a
    by (simp_all add: domain_fixture_def specimen_raw_fixture_def)
  have "games h a specimen_games = (if h = a then 0 else 1)" if "h \<in> {1..20}" "a \<in> {1..20}" for h a
  proof -
    have "games h a specimen_games = length (filter (\<lambda>x. x = (h, a)) specimen_pairs)"
      by (simp add: games_def specimen_games_def filter_map comp_def case_prod_unfold fields prod_eq_iff)
    also have "\<dots> = card ({x. x = (h, a)} \<inter> set specimen_pairs)"
      by (rule distinct_length_filter [OF specimen_pairs_distinct])
    also have "{x. x = (h, a)} \<inter> set specimen_pairs = (if h = a then {} else {(h, a)})"
      using that specimen_pairs_mem by auto
    finally show ?thesis by simp
  qed
  moreover have "distinct (map fx_id specimen_games)"
  proof -
    have "inj_on (\<lambda>x. 20 * fst x + snd x) (set specimen_pairs)"
    proof (rule inj_onI)
      fix x y assume "x \<in> set specimen_pairs" "y \<in> set specimen_pairs"
        "20 * fst x + snd x = 20 * fst y + snd y"
      then show "x = y"
        using digits_base_20 [of "fst x" "snd x" "fst y" "snd y"]
          specimen_pairs_mem [of "fst x" "snd x"] specimen_pairs_mem [of "fst y" "snd y"]
        by (simp only: prod.collapse prod_eq_iff) blast
    qed
    then show ?thesis
      by (simp add: specimen_games_def distinct_map specimen_pairs_distinct comp_def case_prod_unfold fields)
  qed
  moreover have "list_all (fixture_ok [1..20]) specimen_games"
    unfolding list_all_iff specimen_games_def set_map fixture_ok_def set_upto
    using specimen_pairs_mem by (fastforce simp: fields z_defs)
  ultimately show ?thesis unfolding fixture_coverage_def double_round_robin_def set_upto by blast
qed

lemma normalizeSelectionRules_cong:
  "bs_game_settings b = bs_game_settings c \<Longrightarrow> bs_element_types b = bs_element_types c \<Longrightarrow>
     bs_chips b = bs_chips c \<Longrightarrow> normalizeSelectionRules b = normalizeSelectionRules c"
  by (simp only: normalizeSelectionRules_def)

lemma specimen_rules: "normalizeSelectionRules specimen_bootstrap \<noteq> None"
proof -
  let ?b = "\<lparr>bs_events = [], bs_teams = [], bs_elements = [], bs_phases = [],
       bs_game_settings = specimen_settings, bs_element_types = specimen_types, bs_chips = []\<rparr>"
  have "normalizeSelectionRules specimen_bootstrap = normalizeSelectionRules ?b"
    by (rule normalizeSelectionRules_cong) (simp_all add: specimen_bootstrap_def)
  also have "normalizeSelectionRules ?b \<noteq> None" by code_simp
  finally show ?thesis .
qed

lemma specimen_year: "getUTCFullYear 1755279000000 = 2025" by code_simp

lemma specimen_code: "seasonCodeFromStartYear 2025 = ''2526''" by code_simp

lemma specimen_event_season: "deriveFplSeasonFromEvents specimen_parse (bs_events specimen_bootstrap) = Some ''2526''"
proof -
  have "[1..38] = 1 # [2..38 :: int]" by (simp add: upto_rec1)
  then have "List.find (\<lambda>e. re_id e = 1) (bs_events specimen_bootstrap) = Some (specimen_raw_event 1)"
    by (simp add: specimen_bootstrap_def specimen_raw_event_def)
  then show ?thesis
    by (simp add: deriveFplSeasonFromEvents_def utcYear_def specimen_raw_event_def specimen_year specimen_code)
qed

lemma specimen_fixture_season: "deriveFplSeasonFromFixtures specimen_parse specimen_fixtures = Some ''2526''"
proof -
  have "List.map_filter (\<lambda>f. utcYear specimen_parse (rf_kickoff_time f))
      (filter (\<lambda>f. rf_event f = Some 1) (map (\<lambda>(h, a). specimen_raw_fixture h a) ps)) = map (\<lambda>_. 2025) ps" for ps
    by (induction ps)
      (auto simp: map_filter_simps utcYear_def specimen_raw_fixture_def specimen_year)
  note years = this [of specimen_pairs, folded specimen_fixtures_def]
  have "set (map (\<lambda>_. 2025 :: int) specimen_pairs) = {2025}"
    using specimen_fixtures_nonempty by (simp add: image_constant_conv)
  then show ?thesis
    using specimen_fixtures_nonempty by (simp add: deriveFplSeasonFromFixtures_def years specimen_code)
qed

lemma specimen_phases:
  "transformPhases (bs_phases specimen_bootstrap) = Inr (map domain_phase (bs_phases specimen_bootstrap))"
  by (simp add: transformPhases_def transformPhase_def validateRawFPLPhase_def validatePhase_def
      domain_phase_def specimen_bootstrap_def z_defs)

lemma specimen_accepted:
  "\<exists>s. prepareCoreSnapshot specimen_parse specimen_bootstrap specimen_fixtures = Inr s \<and> cs_season s = ''2526''"
proof -
  have sel: "bs_events specimen_bootstrap = map specimen_raw_event [1..38]"
    "bs_teams specimen_bootstrap = map specimen_raw_team [1..20]"
    by (simp_all add: specimen_bootstrap_def)
  have ids: "map tm_id (map domain_team (map specimen_raw_team [1..20])) = [1..20]"
    unfolding map_map by (rule map_idI) (simp add: domain_team_def specimen_raw_team_def)
  have players: "requirePlayerCoverage specimen_players [1..20] = Inr ()"
    by (simp only: requirePlayerCoverage_iff specimen_player_coverage)
  have fixtures: "requireFixtureCoverage specimen_games [1..20] = Inr ()"
    using specimen_fixture_coverage by (subst requireFixtureCoverage_iff) simp_all
  have phases: "requirePhaseCoverage (map domain_phase (bs_phases specimen_bootstrap)) = Inr ()"
    by (simp add: requirePhaseCoverage_def requireUniqueIds_def phase_range_ok_def domain_phase_def
        specimen_bootstrap_def res_guard_def)
  have n: "length specimen_games = 380" "length specimen_players = length (bs_elements specimen_bootstrap)"
    "length specimen_fixtures = 380"
    using round_robin_length [of "[1..20]" specimen_games] specimen_fixture_coverage
    by (simp_all add: fixture_coverage_def specimen_games_def specimen_fixtures_def specimen_players_def
        specimen_bootstrap_def)
  have uniq: "requireExactCount l k k = Inr ()" "requireUniqueIds l [1..j] = Inr ()" for l k j
    by simp_all
  have range: "requireCompleteEventRange (map specimen_event_of (map specimen_raw_event [1..38])) = Inr ()"
    unfolding requireCompleteEventRange_def specimen_event_ids by (simp add: list_all_iff)
  show ?thesis
    unfolding prepareCoreSnapshot_def sel specimen_events specimen_teams specimen_players_strict
      specimen_phases specimen_transformFixtures transformed_def sum.case res_bind_simps
      specimen_event_ids ids specimen_event_season [unfolded sel] specimen_fixture_season
      agreed_season_def option.case prod.case Let_def
    using specimen_rules
    by (simp add: n players fixtures phases range uniq res_guard_def
        del: requireExactCount_iff requireUniqueIds_iff map_map)
qed

text \<open>A complete season in which every fixture is in place is accepted, and well formed.\<close>

theorem snapshot_well_formed_witness:
  "\<exists>s. prepareCoreSnapshot specimen_parse specimen_bootstrap specimen_fixtures = Inr s \<and>
     cs_season s = ''2526'' \<and> core_snapshot_ok s"
  using specimen_accepted snapshot_well_formed by blast

end
