(* ===== verification/SchedulerObligations.thy ===== *)
theory SchedulerObligations
  imports SyncOperations FplTypes
begin

text \<open>
  The durable obligations of the scheduler (\<^verbatim>\<open>src/repositories/scheduler-obligations.ts\<close> over the
  table \<^verbatim>\<open>ops.scheduler_obligations\<close>): one row per job, scope and period, claimed under a lease and
  handed to a queue with a generation number that grows whenever the row is claimed again.

  The table is the list of its rows; each exported function is one function on it, at the
  database time \<open>now\<close> of its statements, with the fresh identifiers it draws. A claim skips the
  rows other transactions have locked. The two statements of \<open>failSchedulerObligationByBullJobId\<close>
  do not share a transaction, so they see two tables. The update stamp, which nothing reads, is
  left out.
\<close>

section \<open>Rows\<close>

datatype obligation_status = Ob_pending | Ob_enqueued | Ob_running | Ob_succeeded | Ob_failed | Ob_skipped | Ob_irrecoverable

datatype scheduler_source = Src_schedule | Src_catchup | Src_reconcile | Src_manual

type_synonym evidence = "(string \<times> json) list"

record obligation =
  so_obligationId :: string
  so_jobName :: string
  so_scopeKey :: string
  so_periodKey :: string
  so_cadence :: string
  so_timezone :: string
  so_status :: obligation_status
  so_source :: scheduler_source
  so_dueAt :: int
  so_generation :: int
  so_leaseOwner :: "string option"
  so_leaseExpiresAt :: "int option"
  so_bullJobId :: "string option"
  so_runId :: "string option"
  so_attempts :: int
  so_lastError :: "string option"
  so_evidence :: evidence
  so_completedAt :: "int option"

record obligation_plan =
  op_scopeKey :: string
  op_periodKey :: string
  op_dueAt :: js_date
  op_source :: scheduler_source
  op_eventId :: "int option"
  op_terminalStatus :: "obligation_status option"
  op_evidence :: "evidence option"

record job_identity =
  jd_name :: string
  jd_cadence :: string
  jd_timezone :: string

datatype scheduler_error =
    Claim_limit_out_of_range
  | Lease_not_positive
  | Additional_lease_not_safe
  | Obligation_constraint_violation
  | Invalid_due_time

definition in_flight :: "obligation_status \<Rightarrow> bool" where
  "in_flight st = (st \<in> {Ob_enqueued, Ob_running})"

definition terminal :: "obligation_status \<Rightarrow> bool" where
  "terminal st = (st \<in> {Ob_succeeded, Ob_skipped, Ob_irrecoverable})"

text \<open>The check constraints of the table, as far as the types leave something to check.\<close>

definition obligation_checks :: "obligation \<Rightarrow> bool" where
  "obligation_checks row =
     (so_generation row \<ge> 0 \<and> so_attempts row \<ge> 0 \<and>
      (so_leaseOwner row = None \<longleftrightarrow> so_leaseExpiresAt row = None) \<and>
      nonblank (so_jobName row) \<and> nonblank (so_scopeKey row) \<and> nonblank (so_periodKey row))"

definition has_identity :: "string \<Rightarrow> string \<Rightarrow> string \<Rightarrow> obligation \<Rightarrow> bool" where
  "has_identity job scope period row =
     (so_jobName row = job \<and> so_scopeKey row = scope \<and> so_periodKey row = period)"

section \<open>Leases\<close>

definition DEFAULT_SCHEDULER_LEASE_MS :: int where "DEFAULT_SCHEDULER_LEASE_MS = 15 * 60000"

text \<open>The environment variable; unset it is \<^verbatim>\<open>NaN\<close>.\<close>

definition resolveSchedulerLeaseMs :: "string option \<Rightarrow> int" where
  "resolveSchedulerLeaseMs env =
     (case env of
        None \<Rightarrow> DEFAULT_SCHEDULER_LEASE_MS
      | Some s \<Rightarrow>
          (case js_number s of
             None \<Rightarrow> DEFAULT_SCHEDULER_LEASE_MS
           | Some configured \<Rightarrow>
               if is_safe_integer configured \<and> configured \<ge> 60000 then configured
               else DEFAULT_SCHEDULER_LEASE_MS))"

section \<open>Operations\<close>

definition planned_evidence :: "obligation_plan \<Rightarrow> evidence" where
  "planned_evidence plan =
     (let e = coalesce (op_evidence plan) [] in
      case op_eventId plan of None \<Rightarrow> e | Some i \<Rightarrow> js_set ''targetEventId'' (JInt i) e)"

definition new_obligation :: "string \<Rightarrow> job_identity \<Rightarrow> obligation_plan \<Rightarrow> int \<Rightarrow> obligation" where
  "new_obligation fresh definition plan dueAt =
     \<lparr>so_obligationId = fresh, so_jobName = jd_name definition, so_scopeKey = op_scopeKey plan,
      so_periodKey = op_periodKey plan, so_cadence = jd_cadence definition,
      so_timezone = jd_timezone definition, so_status = Ob_pending, so_source = op_source plan,
      so_dueAt = dueAt, so_generation = 0, so_leaseOwner = None, so_leaseExpiresAt = None,
      so_bullJobId = None, so_runId = None, so_attempts = 0, so_lastError = None,
      so_evidence = planned_evidence plan, so_completedAt = None\<rparr>"

definition reserveSchedulerObligation ::
  "string \<Rightarrow> job_identity \<Rightarrow> obligation_plan \<Rightarrow> obligation list
   \<Rightarrow> (scheduler_error, obligation \<times> obligation list) result" where
  "reserveSchedulerObligation fresh definition plan rows =
     (case op_dueAt plan of
        None \<Rightarrow> Inl Invalid_due_time
      | Some dueAt \<Rightarrow>
          (let row = new_obligation fresh definition plan dueAt in
           if \<not> obligation_checks row then Inl Obligation_constraint_violation
           else (case List.find (has_identity (jd_name definition) (op_scopeKey plan) (op_periodKey plan)) rows of
                   None \<Rightarrow> Inr (row, rows @ [row])
                 | Some existing \<Rightarrow> Inr (existing, rows))))"

definition claimable_obligation :: "int \<Rightarrow> obligation \<Rightarrow> bool" where
  "claimable_obligation now row =
     (so_dueAt row \<le> now \<and>
      (so_status row \<in> {Ob_pending, Ob_failed} \<or>
       in_flight (so_status row) \<and>
         (case so_leaseExpiresAt row of None \<Rightarrow> True | Some t \<Rightarrow> t \<le> now)))"

definition due_order :: "obligation \<Rightarrow> obligation \<Rightarrow> int" where
  "due_order a b =
     (let byTime = so_dueAt a - so_dueAt b in
      if byTime \<noteq> 0 then byTime else code_unit_cmp (so_obligationId a) (so_obligationId b))"

definition claimed_obligation :: "string \<Rightarrow> int \<Rightarrow> int \<Rightarrow> obligation \<Rightarrow> obligation" where
  "claimed_obligation owner now leaseMs row =
     row\<lparr>so_status := Ob_enqueued,
       so_generation := (if so_status row = Ob_failed \<or> in_flight (so_status row)
                         then so_generation row + 1 else so_generation row),
       so_attempts := so_attempts row + 1, so_leaseOwner := Some owner,
       so_leaseExpiresAt := Some (now + leaseMs)\<rparr>"

definition claim_candidates :: "string set \<Rightarrow> int \<Rightarrow> int \<Rightarrow> obligation list \<Rightarrow> obligation list" where
  "claim_candidates locked now limit rows =
     take (nat limit) (js_sort due_order
       (filter (\<lambda>row. claimable_obligation now row \<and> so_obligationId row \<notin> locked) rows))"

definition by_id :: "string \<Rightarrow> obligation \<Rightarrow> bool" where
  "by_id i row = (so_obligationId row = i)"

fun claim_rows :: "string \<Rightarrow> int \<Rightarrow> int \<Rightarrow> obligation list \<Rightarrow> obligation list \<Rightarrow> obligation list \<times> obligation list" where
  "claim_rows owner now leaseMs [] rows = ([], rows)"
| "claim_rows owner now leaseMs (c # cs) rows =
     (let rows1 = update_where (by_id (so_obligationId c)) (claimed_obligation owner now leaseMs) rows;
          (claimed, rows2) = claim_rows owner now leaseMs cs rows1
      in (claimed_obligation owner now leaseMs c # claimed, rows2))"

definition claimSchedulerObligations ::
  "string \<Rightarrow> string set \<Rightarrow> int \<Rightarrow> int option \<Rightarrow> int option \<Rightarrow> string option \<Rightarrow> obligation list
   \<Rightarrow> (scheduler_error, obligation list \<times> obligation list) result" where
  "claimSchedulerObligations owner locked now limitOption leaseOption env rows =
     (let limit = coalesce limitOption 50;
          leaseMs = coalesce leaseOption (resolveSchedulerLeaseMs env) in
      if \<not> is_safe_integer limit \<or> limit < 1 \<or> limit > 200 then Inl Claim_limit_out_of_range
      else if \<not> is_safe_integer leaseMs \<or> leaseMs < 1 then Inl Lease_not_positive
      else Inr (claim_rows owner now leaseMs (claim_candidates locked now limit rows) rows))"

text \<open>An update that reports whether it hit exactly one row.\<close>

definition update_one :: "(obligation \<Rightarrow> bool) \<Rightarrow> (obligation \<Rightarrow> obligation) \<Rightarrow> obligation list \<Rightarrow> obligation list \<times> bool" where
  "update_one hit f rows = (update_where hit f rows, length (filter hit rows) = 1)"

definition given :: "'a option \<Rightarrow> 'a \<Rightarrow> bool" where
  "given x y = (case x of None \<Rightarrow> True | Some v \<Rightarrow> y = v)"

definition given_owner :: "string option \<Rightarrow> obligation \<Rightarrow> bool" where
  "given_owner owner row =
     (case owner of None \<Rightarrow> True | Some w \<Rightarrow> w = [] \<or> so_leaseOwner row = Some w)"

definition confirmSchedulerObligationEnqueued ::
  "string \<Rightarrow> string \<Rightarrow> string option \<Rightarrow> string option \<Rightarrow> obligation list \<Rightarrow> obligation list \<times> bool" where
  "confirmSchedulerObligationEnqueued obligationId owner bullJobId runId =
     update_one (\<lambda>row. by_id obligationId row \<and> so_leaseOwner row = Some owner \<and> so_status row = Ob_enqueued)
       (\<lambda>row. row\<lparr>so_status := Ob_running,
          so_bullJobId := (case bullJobId of None \<Rightarrow> so_bullJobId row | Some b \<Rightarrow> Some b),
          so_runId := (case runId of None \<Rightarrow> so_runId row | Some r \<Rightarrow> Some r)\<rparr>)"

definition renewSchedulerObligation ::
  "int \<Rightarrow> string option \<Rightarrow> string \<Rightarrow> int option \<Rightarrow> int option \<Rightarrow> obligation list
   \<Rightarrow> (scheduler_error, obligation list \<times> bool) result" where
  "renewSchedulerObligation now env obligationId generation additional rows =
     (let additionalLeaseMs = max 0 (coalesce additional 0);
          leaseMs = resolveSchedulerLeaseMs env + additionalLeaseMs in
      if \<not> is_safe_integer additionalLeaseMs then Inl Additional_lease_not_safe
      else if \<not> is_safe_integer leaseMs \<or> leaseMs < 1 then Inl Lease_not_positive
      else Inr (update_one
        (\<lambda>row. by_id obligationId row \<and> given generation (so_generation row) \<and> in_flight (so_status row))
        (\<lambda>row. row\<lparr>so_leaseExpiresAt := Some (now + leaseMs)\<rparr>) rows))"

definition close_row :: "int \<Rightarrow> obligation_status \<Rightarrow> evidence option \<Rightarrow> obligation \<Rightarrow> obligation" where
  "close_row now status e row =
     row\<lparr>so_status := status, so_evidence := coalesce e [], so_completedAt := Some now,
       so_leaseOwner := None, so_leaseExpiresAt := None\<rparr>"

definition completeSchedulerObligation ::
  "int \<Rightarrow> string \<Rightarrow> obligation_status \<Rightarrow> int option \<Rightarrow> evidence option \<Rightarrow> obligation list \<Rightarrow> obligation list \<times> bool" where
  "completeSchedulerObligation now obligationId status generation e =
     update_one (\<lambda>row. by_id obligationId row \<and> given generation (so_generation row) \<and> in_flight (so_status row))
       (close_row now status e)"

definition markSchedulerObligationIrrecoverable ::
  "int \<Rightarrow> string \<Rightarrow> obligation_status option \<Rightarrow> evidence option \<Rightarrow> obligation list \<Rightarrow> obligation list \<times> bool" where
  "markSchedulerObligationIrrecoverable now obligationId status e =
     update_one (\<lambda>row. by_id obligationId row \<and> so_status row \<in> {Ob_pending, Ob_failed})
       (close_row now (coalesce status Ob_irrecoverable) e)"

definition completeSchedulerObligationByBullJobId ::
  "int \<Rightarrow> string \<Rightarrow> evidence option \<Rightarrow> obligation list \<Rightarrow> obligation list \<times> bool" where
  "completeSchedulerObligationByBullJobId now bullJobId e =
     update_one (\<lambda>row. so_bullJobId row = Some bullJobId \<and> in_flight (so_status row)) (close_row now Ob_succeeded e)"

definition failed_row :: "int \<Rightarrow> string \<Rightarrow> int \<Rightarrow> obligation \<Rightarrow> obligation" where
  "failed_row now message retryDelayMs row =
     row\<lparr>so_status := Ob_failed, so_dueAt := now + retryDelayMs, so_lastError := Some (take 4000 message),
       so_leaseOwner := None, so_leaseExpiresAt := None\<rparr>"

definition failSchedulerObligation ::
  "int \<Rightarrow> string \<Rightarrow> string option \<Rightarrow> int option \<Rightarrow> string \<Rightarrow> int option \<Rightarrow> obligation list \<Rightarrow> obligation list \<times> bool" where
  "failSchedulerObligation now obligationId owner generation message retryDelay =
     update_one (\<lambda>row. by_id obligationId row \<and> given_owner owner row \<and>
         given generation (so_generation row) \<and> in_flight (so_status row))
       (failed_row now message (max 0 (coalesce retryDelay 60000)))"

definition failSchedulerObligationByBullJobId ::
  "int \<Rightarrow> string \<Rightarrow> string \<Rightarrow> obligation list \<Rightarrow> obligation list \<Rightarrow> obligation list \<times> bool" where
  "failSchedulerObligationByBullJobId now bullJobId message seen rows =
     (case List.find (\<lambda>row. so_bullJobId row = Some bullJobId \<and> in_flight (so_status row)) seen of
        None \<Rightarrow> (rows, False)
      | Some obligation \<Rightarrow> failSchedulerObligation now (so_obligationId obligation) None None message None rows)"

record obligation_summary =
  sm_total :: nat
  sm_overdue :: nat
  sm_failed :: nat
  sm_running :: nat
  sm_irrecoverable :: nat
  sm_succeeded :: nat

definition schedulerObligationSummary :: "int \<Rightarrow> obligation list \<Rightarrow> obligation_summary" where
  "schedulerObligationSummary now rows =
     (let n = (\<lambda>p. length (filter p rows)) in
      \<lparr>sm_total = length rows,
       sm_overdue = n (\<lambda>row. so_dueAt row \<le> now \<and> so_status row \<in> {Ob_pending, Ob_failed}),
       sm_failed = n (\<lambda>row. so_status row = Ob_failed),
       sm_running = n (\<lambda>row. in_flight (so_status row)),
       sm_irrecoverable = n (\<lambda>row. so_status row = Ob_irrecoverable),
       sm_succeeded = n (\<lambda>row. so_status row = Ob_succeeded)\<rparr>)"

end
