(* ===== verification/SchedulerRegistry.thy ===== *)
theory SchedulerRegistry
  imports SchedulerObligations LiveLifecycle JsDate
begin

text \<open>
  The catalog of scheduled jobs (\<^verbatim>\<open>src/scheduler/job-registry.ts\<close>) with the domain functions its
  entries use (\<^verbatim>\<open>src/domain/post-match-results.ts\<close>, \<^verbatim>\<open>src/domain/core-snapshot-refresh.ts\<close>).

  The answers of the database and of the cache during a pass are the record \<open>scheduler_reads\<close>, each
  of which may fail; SHA-256, the date parser and the collation of \<open>localeCompare\<close> are parameters.
  An \<^verbatim>\<open>enqueue\<close> is split into the request it makes and the answer of the queue.
\<close>

section \<open>The context of a pass\<close>

record scheduler_event =
  se_id :: int
  se_deadlineTime :: "js_date option"

record scheduler_context =
  sx_now :: int
  sx_season :: season_ref
  sx_currentEventId :: "int option"
  sx_currentEventDeadline :: "js_date option"
  sx_events :: "scheduler_event list"

record core_publication =
  cp_currentEventId :: "int option"
  cp_events :: "event list"
  cp_fixtures :: "fixture list"

datatype scheduler_failure =
    Read_failed string
  | Obligation_failed scheduler_error
  | Invalid_timestamp
  | No_event_checkpoint string
  | Queue_failed string

record scheduler_reads =
  rd_findById :: "int \<Rightarrow> (scheduler_failure, event option) result"
  rd_findByEvent :: "int \<Rightarrow> (scheduler_failure, fixture list) result"
  rd_coreSnapshot :: "(scheduler_failure, core_publication option) result"
  rd_activePublication :: "(scheduler_failure, string option) result"
  rd_publicationDelivery :: "string \<Rightarrow> (scheduler_failure, string option) result"
  rd_hasFinalMyFpl :: "int \<Rightarrow> (scheduler_failure, bool) result"
  rd_sha256 :: "string \<Rightarrow> string"
  rd_parseDate :: "string \<Rightarrow> js_date"
  rd_collate :: "string \<Rightarrow> string \<Rightarrow> int"

type_synonym resolver = "scheduler_reads \<Rightarrow> scheduler_context \<Rightarrow> (scheduler_failure, obligation_plan list) result"

text \<open>Which events a pass sees, and which one is current: the latest one whose deadline has passed.\<close>

definition resolveSchedulerContext :: "(string \<Rightarrow> js_date) \<Rightarrow> event list \<Rightarrow> season_ref \<Rightarrow> int \<Rightarrow> scheduler_context" where
  "resolveSchedulerContext parse_date rows season now =
     (let events = map (\<lambda>e. \<lparr>se_id = ev_id e, se_deadlineTime =
            (case ev_deadlineTime e of None \<Rightarrow> None | Some raw \<Rightarrow> if raw = [] then None else Some (parse_date raw))\<rparr>)
          (filter (\<lambda>e. ev_id e > 0) rows);
          deadline = (\<lambda>e. case se_deadlineTime e of Some (Some t) \<Rightarrow> t | _ \<Rightarrow> 0);
          past = js_sort (\<lambda>l r. deadline r - deadline l)
            (filter (\<lambda>e. case se_deadlineTime e of Some (Some t) \<Rightarrow> t \<le> now | _ \<Rightarrow> False) events)
      in \<lparr>sx_now = now, sx_season = season,
          sx_currentEventId = (case past of [] \<Rightarrow> None | e # _ \<Rightarrow> Some (se_id e)),
          sx_currentEventDeadline = (case past of [] \<Rightarrow> None | e # _ \<Rightarrow> se_deadlineTime e),
          sx_events = events\<rparr>)"

section \<open>Requests to the queues\<close>

record enqueue_request =
  er_function :: string
  er_trigger :: string
  er_eventId :: "int option"
  er_jobId :: string
  er_obligationId :: string
  er_generation :: int
  er_options :: evidence

definition scheduler_job_id :: "string \<Rightarrow> int \<Rightarrow> string" where
  "scheduler_job_id obligationId generation = ''scheduler-'' @ obligationId @ ''-g'' @ show_int generation"

definition request :: "string \<Rightarrow> string \<Rightarrow> int option \<Rightarrow> evidence \<Rightarrow> string \<Rightarrow> int \<Rightarrow> enqueue_request" where
  "request function trigger eventId options obligationId generation =
     \<lparr>er_function = function, er_trigger = trigger, er_eventId = eventId,
      er_jobId = scheduler_job_id obligationId generation, er_obligationId = obligationId,
      er_generation = generation, er_options = options\<rparr>"

type_synonym requester =
  "scheduler_context \<Rightarrow> obligation_plan \<Rightarrow> string \<Rightarrow> int \<Rightarrow> (scheduler_failure, enqueue_request option) result"

datatype catch_up_policy = Current_day_only | Latest_authoritative | Checkpoint | Event_checkpoint | No_catch_up

fun policy_text :: "catch_up_policy \<Rightarrow> string" where
  "policy_text Current_day_only = ''current-day-only''"
| "policy_text Latest_authoritative = ''latest-authoritative''"
| "policy_text Checkpoint = ''checkpoint''"
| "policy_text Event_checkpoint = ''event-checkpoint''"
| "policy_text No_catch_up = ''none''"

text \<open>
  An entry of the catalog. Two of the queues' functions may return no job identifier, and their
  callers fall back on the one they asked for.
\<close>

record job_definition = job_identity +
  jd_catchUpPolicy :: catch_up_policy
  jd_queueName :: string
  jd_resolve :: resolver
  jd_request :: requester
  jd_ownJobId :: bool

type_synonym queue_receipt = "string option \<times> string option"

definition jd_enqueue ::
  "job_definition \<Rightarrow> (enqueue_request \<Rightarrow> (scheduler_failure, queue_receipt) result) \<Rightarrow> scheduler_context
   \<Rightarrow> obligation_plan \<Rightarrow> string \<Rightarrow> int \<Rightarrow> (scheduler_failure, queue_receipt) result" where
  "jd_enqueue d submit context plan obligationId generation =
     res_bind (jd_request d context plan obligationId generation) (\<lambda>r.
       case r of
         None \<Rightarrow> Inr (None, None)
       | Some q \<Rightarrow> res_bind (submit q) (\<lambda>(job, run).
           Inr (if jd_ownJobId d then Some (coalesce job (er_jobId q)) else job, run)))"

definition plain_request :: "string \<Rightarrow> string \<Rightarrow> evidence \<Rightarrow> requester" where
  "plain_request function trigger options context plan obligationId generation =
     Inr (Some (request function trigger None options obligationId generation))"

text \<open>Requests for an event: the one of the plan, or else the current one.\<close>

definition event_request :: "string \<Rightarrow> string \<Rightarrow> string \<Rightarrow> (obligation_plan \<Rightarrow> evidence) \<Rightarrow> requester" where
  "event_request subject function trigger options context plan obligationId generation =
     (let eventId = (case op_eventId plan of None \<Rightarrow> sx_currentEventId context | e \<Rightarrow> e) in
      if \<not> truthy eventId then Inl (No_event_checkpoint subject)
      else Inr (Some (request function trigger eventId (options plan) obligationId generation)))"

definition own_event_request :: "string \<Rightarrow> string \<Rightarrow> string \<Rightarrow> evidence \<Rightarrow> requester" where
  "own_event_request subject function trigger options context plan obligationId generation =
     (if \<not> truthy (op_eventId plan) then Inl (No_event_checkpoint subject)
      else Inr (Some (request function trigger (op_eventId plan) options obligationId generation)))"

abbreviation keep_on_settle :: evidence where
  "keep_on_settle \<equiv> [(''removeOnSettle'', JBool False)]"

section \<open>Plans\<close>

definition utc8DueAt :: "int \<Rightarrow> int \<Rightarrow> int \<Rightarrow> int" where
  "utc8DueAt date hour minute =
     MS_PER_DAY * day_of_key (formatCronDateKey date) + (hour * 60 + minute) * 60000 - UTC8_OFFSET_MS"

definition plan_at :: "string \<Rightarrow> string \<Rightarrow> js_date \<Rightarrow> scheduler_source \<Rightarrow> obligation_plan" where
  "plan_at scope period dueAt src =
     \<lparr>op_scopeKey = scope, op_periodKey = period, op_dueAt = dueAt, op_source = src, op_eventId = None,
      op_terminalStatus = None, op_evidence = None\<rparr>"

definition event_scope :: "scheduler_context \<Rightarrow> int \<Rightarrow> string" where
  "event_scope context i = season_seasonCode (sx_season context) @ '':event:'' @ show_int i"

definition event_plan :: "scheduler_context \<Rightarrow> int \<Rightarrow> string \<Rightarrow> js_date \<Rightarrow> scheduler_source \<Rightarrow> evidence option \<Rightarrow> obligation_plan" where
  "event_plan context i period dueAt src e =
     (plan_at (event_scope context i) period dueAt src)\<lparr>op_eventId := Some i, op_evidence := e\<rparr>"

text \<open>\<^verbatim>\<open>dailyDefinition\<close>: once a day at a time in UTC+8; the market window also closes earlier days.\<close>

definition daily_resolve :: "int \<Rightarrow> int \<Rightarrow> catch_up_policy \<Rightarrow> resolver" where
  "daily_resolve hour minute policy answers context =
     (let dueAt = utc8DueAt (sx_now context) hour minute;
          scope = season_seasonCode (sx_season context);
          current = plan_at scope (formatCronDateKey (sx_now context)) (Some dueAt) Src_catchup
      in if policy \<noteq> Current_day_only
         then Inr (if sx_now context < dueAt then [] else [current])
         else (let terminalPlans = map (\<lambda>daysAgo.
                 let previousDueAt = dueAt - daysAgo * 24 * 60 * 60000 in
                 (plan_at scope (formatCronDateKey previousDueAt) (Some previousDueAt) Src_reconcile)
                   \<lparr>op_terminalStatus := Some Ob_irrecoverable,
                    op_evidence := Some [(''reason'', JStr ''market-window-expired''),
                      (''policy'', JStr (policy_text policy))]\<rparr>) [1..31]
               in Inr (terminalPlans @ (if sx_now context \<ge> dueAt then [current] else []))))"

definition dailyDefinition :: "string \<Rightarrow> int \<Rightarrow> int \<Rightarrow> catch_up_policy \<Rightarrow> string \<Rightarrow> requester \<Rightarrow> bool \<Rightarrow> job_definition" where
  "dailyDefinition name hour minute policy queueName enqueue own =
     \<lparr>jd_name = name, jd_cadence = ''daily'', jd_timezone = ''Asia/Shanghai'', jd_catchUpPolicy = policy,
      jd_queueName = queueName, jd_resolve = daily_resolve hour minute policy, jd_request = enqueue,
      jd_ownJobId = own\<rparr>"

definition contentDefinition :: job_definition where
  "contentDefinition =
     \<lparr>jd_name = ''content-acquisition'', jd_cadence = ''existing source_schedules checkpoint loop'',
      jd_timezone = ''UTC'', jd_catchUpPolicy = Checkpoint, jd_queueName = ''content-*'',
      jd_resolve = (\<lambda>_ _. Inr []), jd_request = (\<lambda>_ _ _ _. Inr None), jd_ownJobId = False\<rparr>"

text \<open>\<^verbatim>\<open>eventDefinition\<close>: half an hour after the deadline of every event. A \<^verbatim>\<open>NaN\<close> is not in the future.\<close>

definition after_deadline :: "scheduler_context \<Rightarrow> scheduler_event \<Rightarrow> obligation_plan list" where
  "after_deadline context e =
     (case se_deadlineTime e of
        None \<Rightarrow> []
      | Some deadline \<Rightarrow>
          (let dueAt = map_option (\<lambda>t. t + 30 * 60000) deadline in
           if (case dueAt of None \<Rightarrow> False | Some t \<Rightarrow> sx_now context < t) then []
           else [event_plan context (se_id e) (''event-'' @ show_int (se_id e)) dueAt Src_catchup None]))"

definition event_resolve :: "bool \<Rightarrow> resolver" where
  "event_resolve allDueEvents answers context =
     (let candidates = (if allDueEvents then sx_events context
            else (case (sx_currentEventId context, sx_currentEventDeadline context) of
                    (Some i, Some d) \<Rightarrow> if i \<noteq> 0 then [\<lparr>se_id = i, se_deadlineTime = Some d\<rparr>] else []
                  | _ \<Rightarrow> []))
      in Inr (concat (map (after_deadline context) candidates)))"

definition eventDefinition :: "string \<Rightarrow> string \<Rightarrow> catch_up_policy \<Rightarrow> string \<Rightarrow> requester \<Rightarrow> bool \<Rightarrow> job_definition" where
  "eventDefinition name cadence policy queueName enqueue own =
     \<lparr>jd_name = name, jd_cadence = cadence, jd_timezone = ''UTC'', jd_catchUpPolicy = policy,
      jd_queueName = queueName, jd_resolve = event_resolve True, jd_request = enqueue, jd_ownJobId = own\<rparr>"

text \<open>A date as text; an invalid one throws.\<close>

definition iso_text :: "js_date \<Rightarrow> (scheduler_failure, string) result" where
  "iso_text d = (case d of None \<Rightarrow> Inl Invalid_timestamp | Some t \<Rightarrow> Inr (toISOString t))"

definition my_fpl_snapshot_plan ::
  "scheduler_reads \<Rightarrow> scheduler_context \<Rightarrow> int \<Rightarrow> string \<Rightarrow> scheduler_event \<Rightarrow> (scheduler_failure, obligation_plan list) result" where
  "my_fpl_snapshot_plan answers context dueAt dateKey e =
     (if se_deadlineTime e = None \<or>
         (case se_deadlineTime e of Some (Some t) \<Rightarrow> t > sx_now context | _ \<Rightarrow> False) then Inr []
      else res_bind (rd_findById answers (se_id e)) (\<lambda>lifecycle.
        case lifecycle of
          None \<Rightarrow> Inr []
        | Some ev \<Rightarrow>
            if ev_finished ev \<and> ev_dataChecked ev then Inr []
            else res_bind (rd_hasFinalMyFpl answers (se_id e)) (\<lambda>final.
              Inr (if final then []
                   else [event_plan context (se_id e) (''daily-'' @ show_int (se_id e) @ ''-'' @ dateKey)
                     (Some dueAt) Src_catchup
                     (Some [(''snapshotKind'', JStr ''PROVISIONAL''), (''snapshotDate'', JStr dateKey)])]))))"

definition my_fpl_snapshot_resolve :: resolver where
  "my_fpl_snapshot_resolve answers context =
     (let dueAt = utc8DueAt (sx_now context) 10 45 in
      if sx_now context < dueAt then Inr []
      else res_bind (res_map (my_fpl_snapshot_plan answers context dueAt (formatCronDateKey (sx_now context)))
          (sx_events context)) (\<lambda>plans. Inr (concat plans)))"

definition myFplSnapshotDefinition :: job_definition where
  "myFplSnapshotDefinition =
     \<lparr>jd_name = ''my-fpl-snapshot'', jd_cadence = ''daily at 10:45 UTC+8 and finalization reconciliation'',
      jd_timezone = ''Asia/Shanghai'', jd_catchUpPolicy = Checkpoint, jd_queueName = ''maintenance'',
      jd_resolve = my_fpl_snapshot_resolve,
      jd_request = own_event_request ''My FPL snapshot'' ''enqueueMyFplSnapshot'' ''catchup'' [(''snapshotKind'', JStr ''PROVISIONAL'')],
      jd_ownJobId = False\<rparr>"

definition my_fpl_final_plan ::
  "scheduler_reads \<Rightarrow> scheduler_context \<Rightarrow> scheduler_event \<Rightarrow> (scheduler_failure, obligation_plan list) result" where
  "my_fpl_final_plan answers context e =
     res_bind (rd_findById answers (se_id e)) (\<lambda>lifecycle.
       case lifecycle of
         None \<Rightarrow> Inr []
       | Some ev \<Rightarrow>
           if \<not> ev_finished ev \<or> \<not> ev_dataChecked ev then Inr []
           else res_bind (rd_hasFinalMyFpl answers (se_id e)) (\<lambda>final.
             if final then Inr []
             else res_bind (case ev_dataCheckedAt ev of None \<Rightarrow> Inr ''unknown'' | Some d \<Rightarrow> iso_text d) (\<lambda>checkedAt.
               Inr [event_plan context (se_id e) (''final-'' @ show_int (se_id e) @ ''-'' @ checkedAt)
                 (Some (sx_now context)) Src_reconcile
                 (Some [(''snapshotKind'', JStr ''FINAL''), (''dataCheckedAt'', JStr checkedAt)])])))"

definition my_fpl_final_resolve :: resolver where
  "my_fpl_final_resolve answers context =
     res_bind (res_map (my_fpl_final_plan answers context) (sx_events context)) (\<lambda>plans. Inr (concat plans))"

definition myFplFinalizationDefinition :: job_definition where
  "myFplFinalizationDefinition =
     \<lparr>jd_name = ''my-fpl-finalization'', jd_cadence = ''30-second finished + data_checked reconciliation'',
      jd_timezone = ''UTC'', jd_catchUpPolicy = Latest_authoritative, jd_queueName = ''maintenance'',
      jd_resolve = my_fpl_final_resolve,
      jd_request = own_event_request ''My FPL finalization'' ''enqueueMyFplSnapshot'' ''reconcile'' [(''snapshotKind'', JStr ''FINAL'')],
      jd_ownJobId = False\<rparr>"

definition periodic_resolve :: "int \<Rightarrow> int \<Rightarrow> resolver" where
  "periodic_resolve periodMs minuteOfHour answers context =
     (let offsetMs = minuteOfHour * 60000;
          bucket = (sx_now context - offsetMs) div periodMs;
          dueAt = bucket * periodMs + offsetMs
      in Inr (if sx_now context < dueAt then []
              else [plan_at (season_seasonCode (sx_season context)) (''maintenance-'' @ show_int bucket) (Some dueAt) Src_catchup]))"

definition periodicMaintenanceDefinition :: "string \<Rightarrow> string \<Rightarrow> int \<Rightarrow> int \<Rightarrow> requester \<Rightarrow> job_definition" where
  "periodicMaintenanceDefinition name cadence periodMs minuteOfHour enqueue =
     \<lparr>jd_name = name, jd_cadence = cadence, jd_timezone = ''UTC'', jd_catchUpPolicy = Latest_authoritative,
      jd_queueName = ''maintenance'', jd_resolve = periodic_resolve periodMs minuteOfHour, jd_request = enqueue,
      jd_ownJobId = False\<rparr>"

definition myFplSnapshotOutboxDefinition :: job_definition where
  "myFplSnapshotOutboxDefinition =
     periodicMaintenanceDefinition ''my-fpl-snapshot-outbox'' ''every five minutes'' (5 * 60000) 0
       (plain_request ''enqueueMyFplSnapshotOutbox'' ''catchup'' [])"

section \<open>Plans around the matches of the current event\<close>

definition MATCH_DURATION_MS :: int where "MATCH_DURATION_MS = 2 * 60 * 60 * 1000"
definition RESULT_SLOT_MS :: int where "RESULT_SLOT_MS = 60 * 60 * 1000"
definition POST_MATCH_RESULTS_WINDOW_MS :: int where "POST_MATCH_RESULTS_WINDOW_MS = 24 * 60 * 60 * 1000"

definition getPostMatchResultsSlot :: "event \<Rightarrow> fixture list \<Rightarrow> int \<Rightarrow> string option" where
  "getPostMatchResultsSlot event fixtures date =
     (case kickoff_times fixtures of
        [] \<Rightarrow> None
      | t # ts \<Rightarrow>
          (let matchEndMs = foldl max t ts + MATCH_DURATION_MS;
               elapsedMs = date - matchEndMs
           in if elapsedMs \<le> 0 \<or> elapsedMs \<ge> POST_MATCH_RESULTS_WINDOW_MS then None
              else Some ((if ev_dataChecked event then ''final-'' else ''provisional-'') @
                show_int (elapsedMs div RESULT_SLOT_MS))))"

text \<open>Most entries look at the current event and its fixtures and plan nothing without them.\<close>

definition with_current_event ::
  "scheduler_reads \<Rightarrow> scheduler_context \<Rightarrow> (event \<Rightarrow> fixture list \<Rightarrow> (scheduler_failure, obligation_plan list) result)
   \<Rightarrow> (scheduler_failure, obligation_plan list) result" where
  "with_current_event answers context f =
     (if \<not> truthy (sx_currentEventId context) then Inr []
      else res_bind (rd_findById answers (the (sx_currentEventId context))) (\<lambda>found.
        case found of
          None \<Rightarrow> Inr []
        | Some event \<Rightarrow> res_bind (rd_findByEvent answers (ev_id event)) (f event)))"

definition utc8_hour :: "int \<Rightarrow> int" where
  "utc8_hour t = (t + UTC8_OFFSET_MS) div 3600000 mod 24"

definition post_match_resolve :: resolver where
  "post_match_resolve answers context =
     with_current_event answers context (\<lambda>event fixtures.
       case getPostMatchResultsSlot event fixtures (sx_now context) of
         None \<Rightarrow> Inr []
       | Some resultSlot \<Rightarrow>
           (let dateKey = formatCronDateKey (sx_now context);
                hour = utc8_hour (sx_now context);
                dueAt = utc8DueAt (sx_now context) hour 0
            in if hour \<notin> set [6, 8, 10] then Inr []
               else if sx_now context < dueAt then Inr []
               else Inr [event_plan context (ev_id event)
                 (''post-match-'' @ dateKey @ ''-'' @ show_int hour @ ''-'' @ resultSlot) (Some dueAt) Src_catchup
                 (Some [(''resultSlot'', JStr resultSlot)])]))"

definition postMatchMaintenanceDefinition :: job_definition where
  "postMatchMaintenanceDefinition =
     \<lparr>jd_name = ''post-match-consolidation'',
      jd_cadence = ''06:00, 08:00 and 10:00 UTC+8 in the post-match window'', jd_timezone = ''Asia/Shanghai'',
      jd_catchUpPolicy = Latest_authoritative, jd_queueName = ''maintenance'', jd_resolve = post_match_resolve,
      jd_request = plain_request ''enqueuePostMatchConsolidation'' ''catchup'' [], jd_ownJobId = False\<rparr>"

definition live_snapshot_resolve :: resolver where
  "live_snapshot_resolve answers context =
     (let now = sx_now context in
      case List.find (\<lambda>e. Some (se_id e) = sx_currentEventId context) (sx_events context) of
        None \<Rightarrow> Inr []
      | Some e \<Rightarrow>
          if se_deadlineTime e = None then Inr []
          else with_current_event answers context (\<lambda>event fixtures.
            if \<not> isMatchDayTime event fixtures now then Inr []
            else Inr [event_plan context (ev_id event)
              (''live-'' @ show_int (ev_id event) @ ''-'' @ show_int (now div 30000)) (Some now) Src_reconcile
              (Some [(''persistEventLives'', JBool (now mod (10 * 60000) < 30000)),
                (''persistBucket'', JInt (now div (10 * 60000)))])]))"

definition evidence_true :: "string \<Rightarrow> obligation_plan \<Rightarrow> bool" where
  "evidence_true key plan = (js_get (coalesce (op_evidence plan) []) key = Some (JBool True))"

definition liveSnapshotDefinition :: job_definition where
  "liveSnapshotDefinition =
     \<lparr>jd_name = ''live-snapshot'', jd_cadence = ''30-second lifecycle poll while match windows are open'',
      jd_timezone = ''UTC'', jd_catchUpPolicy = Latest_authoritative, jd_queueName = ''live-data'',
      jd_resolve = live_snapshot_resolve,
      jd_request = event_request ''Live snapshot'' ''enqueueLiveSnapshot'' ''reconcile'' (\<lambda>plan.
        [(''persistEventLives'', JBool (evidence_true ''persistEventLives'' plan)), (''reuseExisting'', JBool True)]),
      jd_ownJobId = False\<rparr>"

datatype refresh_reason = Missing_publication | Event_id | Event_lifecycle | Fixture_lifecycle | Kickoff_cutover

fun reason_text :: "refresh_reason \<Rightarrow> string" where
  "reason_text Missing_publication = ''missing-publication''"
| "reason_text Event_id = ''event-id''"
| "reason_text Event_lifecycle = ''event-lifecycle''"
| "reason_text Fixture_lifecycle = ''fixture-lifecycle''"
| "reason_text Kickoff_cutover = ''kickoff-cutover''"

definition KICKOFF_CUTOVER_REFRESH_WINDOW_MS :: int where "KICKOFF_CUTOVER_REFRESH_WINDOW_MS = 20 * 60000"

definition bool_text :: "bool \<Rightarrow> string" where
  "bool_text b = (if b then ''true'' else ''false'')"

text \<open>\<^verbatim>\<open>Array.join\<close> prints \<^verbatim>\<open>null\<close> as the empty text.\<close>

definition fixtureLifecycleKey :: "fixture \<Rightarrow> string" where
  "fixtureLifecycleKey f =
     join_with '':'' [show_int (fx_id f), (case fx_event f of None \<Rightarrow> [] | Some e \<Rightarrow> show_int e),
       (case fx_started f of None \<Rightarrow> [] | Some b \<Rightarrow> bool_text b), bool_text (fx_finished f),
       bool_text (fx_finishedProvisional f)]"

definition lifecycle_fixture_json :: "fixture \<Rightarrow> (scheduler_failure, json) result" where
  "lifecycle_fixture_json f =
     res_bind (case fx_kickoffTime f of None \<Rightarrow> Inr JNull | Some d \<Rightarrow> res_bind (iso_text d) (\<lambda>t. Inr (JStr t))) (\<lambda>kickoff.
       Inr (JObj [(''id'', JInt (fx_id f)),
         (''event'', (case fx_event f of None \<Rightarrow> JNull | Some e \<Rightarrow> JInt e)),
         (''kickoffTime'', kickoff),
         (''started'', (case fx_started f of None \<Rightarrow> JNull | Some b \<Rightarrow> JBool b)),
         (''finished'', JBool (fx_finished f)), (''finishedProvisional'', JBool (fx_finishedProvisional f))]))"

text \<open>The targets are sorted by fixture after they were built.\<close>

definition coreLifecycleReconcilePeriodKey ::
  "(string \<Rightarrow> string) \<Rightarrow> event \<Rightarrow> fixture list \<Rightarrow> refresh_reason \<Rightarrow> (scheduler_failure, string) result" where
  "coreLifecycleReconcilePeriodKey sha256 current fixtures reason =
     res_bind (res_map (\<lambda>f. res_bind (lifecycle_fixture_json f) (\<lambda>v. Inr (fx_id f, v))) fixtures) (\<lambda>targets.
       let target = coalesce (JSON_stringify (JObj [(''reason'', JStr (reason_text reason)),
             (''event'', JObj [(''id'', JInt (ev_id current)), (''isPrevious'', JBool (ev_isPrevious current)),
               (''isCurrent'', JBool (ev_isCurrent current)), (''isNext'', JBool (ev_isNext current)),
               (''finished'', JBool (ev_finished current)), (''dataChecked'', JBool (ev_dataChecked current))]),
             (''fixtures'', JArr (map snd (js_sort (\<lambda>l r. fst l - fst r) targets)))])) [];
           fingerprint = take 16 (sha256 target)
       in Inr (''core-lifecycle-'' @ show_int (ev_id current) @ ''-'' @ reason_text reason @ ''-'' @ fingerprint))"

definition same_lifecycle :: "event \<Rightarrow> event \<Rightarrow> bool" where
  "same_lifecycle p c =
     (ev_isPrevious p = ev_isPrevious c \<and> ev_isCurrent p = ev_isCurrent c \<and> ev_isNext p = ev_isNext c \<and>
      ev_finished p = ev_finished c \<and> ev_dataChecked p = ev_dataChecked c)"

definition coreSnapshotRefreshReason ::
  "(string \<Rightarrow> string \<Rightarrow> int) \<Rightarrow> event option \<Rightarrow> fixture list \<Rightarrow> core_publication option \<Rightarrow> int \<Rightarrow> refresh_reason option" where
  "coreSnapshotRefreshReason collate current currentFixtures publication nowMs =
     (case publication of
        None \<Rightarrow> Some Missing_publication
      | Some pub \<Rightarrow>
          if cp_currentEventId pub \<noteq> map_option ev_id current then Some Event_id
          else (case current of
            None \<Rightarrow> None
          | Some cur \<Rightarrow>
              (case List.find (\<lambda>e. ev_id e = ev_id cur) (cp_events pub) of
                 None \<Rightarrow> Some Event_lifecycle
               | Some publishedEvent \<Rightarrow>
                   if \<not> same_lifecycle publishedEvent cur then Some Event_lifecycle
                   else
                     (let publishedFixtures = filter (\<lambda>f. fx_event f = Some (ev_id cur)) (cp_fixtures pub);
                          stored = js_sort collate (map fixtureLifecycleKey currentFixtures);
                          published = js_sort collate (map fixtureLifecycleKey publishedFixtures);
                          progress = list_ex (\<lambda>f. is_true (fx_started f) \<or> fx_finished f \<or> fx_finishedProvisional f)
                            publishedFixtures
                      in if stored \<noteq> published then Some Fixture_lifecycle
                         else (case firstKickoff publishedFixtures of
                           None \<Rightarrow> None
                         | Some first \<Rightarrow>
                             if nowMs \<ge> first \<and> nowMs < first + KICKOFF_CUTOVER_REFRESH_WINDOW_MS \<and> \<not> progress
                             then Some Kickoff_cutover else None)))))"

text \<open>A failed look-up of the durable publication counts as none.\<close>

definition core_lifecycle_resolve :: resolver where
  "core_lifecycle_resolve answers context =
     with_current_event answers context (\<lambda>current fixtures.
       res_bind (rd_coreSnapshot answers) (\<lambda>publication.
       res_bind (rd_activePublication answers) (\<lambda>active.
       let durable = (case active of
             None \<Rightarrow> None
           | Some p \<Rightarrow> (case rd_publicationDelivery answers p of Inl _ \<Rightarrow> None | Inr d \<Rightarrow> d));
           reason = (if durable \<noteq> None
             then coreSnapshotRefreshReason (rd_collate answers) (Some current) fixtures publication (sx_now context)
             else Some Missing_publication)
       in case reason of
            None \<Rightarrow> Inr []
          | Some r \<Rightarrow>
              res_bind (coreLifecycleReconcilePeriodKey (rd_sha256 answers) current fixtures r) (\<lambda>period.
                Inr [(plan_at (season_seasonCode (sx_season context) @ '':core-lifecycle'') period
                    (Some (sx_now context)) Src_reconcile)
                  \<lparr>op_eventId := Some (ev_id current),
                   op_evidence := Some [(''reason'', JStr (reason_text r)), (''targetEventId'', JInt (ev_id current))]\<rparr>]))))"

definition coreLifecycleReconcileDefinition :: job_definition where
  "coreLifecycleReconcileDefinition =
     \<lparr>jd_name = ''core-current-reconcile'', jd_cadence = ''30-second lifecycle reconciliation'',
      jd_timezone = ''UTC'', jd_catchUpPolicy = Latest_authoritative, jd_queueName = ''data-sync'',
      jd_resolve = core_lifecycle_resolve,
      jd_request = plain_request ''enqueueCoreSnapshotJob'' ''reconcile'' keep_on_settle, jd_ownJobId = False\<rparr>"

definition live_finalization_resolve :: resolver where
  "live_finalization_resolve answers context =
     with_current_event answers context (\<lambda>event fixtures.
       case getPostMatchResultsSlot event fixtures (sx_now context) of
         None \<Rightarrow> Inr []
       | Some resultSlot \<Rightarrow>
           if take 6 resultSlot \<noteq> ''final-'' then Inr []
           else Inr [event_plan context (ev_id event) (''live-final-'' @ show_int (ev_id event) @ ''-'' @ resultSlot)
             (Some (sx_now context)) Src_reconcile
             (Some [(''resultSlot'', JStr resultSlot), (''finalizeEvent'', JBool True), (''persistEventLives'', JBool True)])])"

definition liveFinalizationDefinition :: job_definition where
  "liveFinalizationDefinition =
     \<lparr>jd_name = ''live-finalization'', jd_cadence = ''30-second post-match finalization reconciliation'',
      jd_timezone = ''UTC'', jd_catchUpPolicy = Latest_authoritative, jd_queueName = ''live-data'',
      jd_resolve = live_finalization_resolve,
      jd_request = event_request ''Live finalization'' ''enqueueLiveSnapshot'' ''reconcile'' (\<lambda>_.
        [(''persistEventLives'', JBool True), (''finalizeEvent'', JBool True), (''reuseExisting'', JBool True)]),
      jd_ownJobId = False\<rparr>"

fun lifecycle_text :: "lifecycle_state \<Rightarrow> string" where
  "lifecycle_text PRE_DEADLINE = ''PRE_DEADLINE''"
| "lifecycle_text PICKS_WAIT = ''PICKS_WAIT''"
| "lifecycle_text PICKS_PROBE = ''PICKS_PROBE''"
| "lifecycle_text PICKS_SYNC = ''PICKS_SYNC''"
| "lifecycle_text LIVE_ACTIVE = ''LIVE_ACTIVE''"
| "lifecycle_text BETWEEN_FIXTURES = ''BETWEEN_FIXTURES''"
| "lifecycle_text DAY_SETTLING = ''DAY_SETTLING''"
| "lifecycle_text GW_REVIEW = ''GW_REVIEW''"
| "lifecycle_text FINALIZED = ''FINALIZED''"

definition active_player_stats_resolve :: resolver where
  "active_player_stats_resolve answers context =
     with_current_event answers context (\<lambda>event fixtures.
       let now = sx_now context;
           decision = decideLiveLifecycle default_config (rd_parseDate answers) event fixtures now
             \<lparr>os_lastRevision = None, os_unchangedSince = None, os_matchDayTime = None,
              os_publicationActive = None, os_publicationStarted = None\<rparr>;
           liveWindow = (dn_state decision = LIVE_ACTIVE \<or> dn_state decision = DAY_SETTLING)
       in if \<not> liveWindow \<and> now div 60000 mod 60 mod 5 \<noteq> 0 then Inr []
          else Inr [event_plan context (ev_id event)
            (''player-stats-'' @ show_int (ev_id event) @ ''-'' @ show_int (now div 60000)) (Some now) Src_reconcile
            (Some [(''lifecycleState'', JStr (lifecycle_text (dn_state decision))), (''liveWindow'', JBool liveWindow)])])"

definition activePlayerStatsDefinition :: job_definition where
  "activePlayerStatsDefinition =
     \<lparr>jd_name = ''player-stats-active'', jd_cadence = ''one-minute live window / five-minute settling repair'',
      jd_timezone = ''UTC'', jd_catchUpPolicy = Latest_authoritative, jd_queueName = ''data-sync'',
      jd_resolve = active_player_stats_resolve,
      jd_request = event_request ''Active player stats'' ''enqueuePlayerStatsSyncJob'' ''reconcile'' (\<lambda>_. keep_on_settle), jd_ownJobId = False\<rparr>"

section \<open>The catalog\<close>

definition market_request :: requester where
  "market_request context plan obligationId generation =
     Inr (Some (request ''enqueuePlayerValuesSyncJob'' ''catchup'' None
       ((''changeDate'', JStr (op_periodKey plan)) # keep_on_settle) obligationId generation))"

definition entry_info_request :: requester where
  "entry_info_request context plan obligationId generation =
     Inr (Some (request ''enqueueEntryInfoSyncJob'' ''catchup'' (Some (coalesce (sx_currentEventId context) 0))
       keep_on_settle obligationId generation))"

definition tournament_info_request :: requester where
  "tournament_info_request context plan obligationId generation =
     Inr (Some (request ''enqueueTournamentInfo'' ''reconcile'' (Some 0) [] obligationId generation))"

definition registry_data :: "job_definition list" where
  "registry_data =
     [coreLifecycleReconcileDefinition,
      dailyDefinition ''core-snapshot'' 6 35 Latest_authoritative ''data-sync''
        (plain_request ''enqueueCoreSnapshotJob'' ''catchup'' keep_on_settle) False,
      dailyDefinition ''market-daily'' 9 25 Current_day_only ''data-sync'' market_request False,
      dailyDefinition ''player-stats'' 9 40 Latest_authoritative ''data-sync''
        (plain_request ''enqueuePlayerStatsSyncJob'' ''catchup'' keep_on_settle) False,
      dailyDefinition ''player-market-freshness-watchdog'' 9 36 Latest_authoritative ''maintenance''
        (plain_request ''enqueuePlayerMarketFreshness'' ''catchup'' []) False,
      dailyDefinition ''bug-report-cleanup'' 3 15 Latest_authoritative ''maintenance''
        (plain_request ''enqueueBugReportCleanup'' ''catchup'' []) False,
      dailyDefinition ''bug-report-screenshot-retention'' 3 20 Latest_authoritative ''maintenance''
        (plain_request ''enqueueBugReportScreenshotRetention'' ''catchup'' []) False]"

definition registry_upkeep :: "job_definition list" where
  "registry_upkeep =
     [periodicMaintenanceDefinition ''player-season-summary-repair'' ''hourly at minute 17'' (60 * 60000) 17
        (plain_request ''enqueuePlayerSeasonSummaryRepair'' ''catchup'' []),
      periodicMaintenanceDefinition ''tournament-trends-repair'' ''every five minutes'' (5 * 60000) 0
        (plain_request ''enqueueTournamentTrendsRepair'' ''catchup'' []),
      periodicMaintenanceDefinition ''launch-monitor'' ''every five minutes'' (5 * 60000) 0
        (plain_request ''enqueueLaunchMonitor'' ''catchup'' []),
      postMatchMaintenanceDefinition, myFplSnapshotDefinition, myFplFinalizationDefinition,
      myFplSnapshotOutboxDefinition]"

definition registry_entries :: "job_definition list" where
  "registry_entries =
     [dailyDefinition ''entry-info'' 10 30 Checkpoint ''entry-sync'' entry_info_request False,
      dailyDefinition ''tournament-roster'' 10 45 Checkpoint ''tournament-sync''
        (plain_request ''enqueueTournamentRosterSync'' ''reconcile'' []) True,
      dailyDefinition ''tournament-info'' 10 45 Checkpoint ''tournament-sync'' tournament_info_request True,
      eventDefinition ''entry-picks'' ''post-deadline window'' Checkpoint ''entry-sync''
        (event_request ''Entry picks'' ''enqueueEntryPicksSyncJob'' ''catchup'' (\<lambda>_. keep_on_settle)) False,
      eventDefinition ''entry-transfers'' ''post-deadline window'' Checkpoint ''entry-sync''
        (event_request ''Entry transfers'' ''enqueueEntryTransfersSyncJob'' ''catchup'' (\<lambda>_. keep_on_settle)) False,
      eventDefinition ''entry-results'' ''post-deadline event checkpoint'' Event_checkpoint ''entry-sync''
        (event_request ''Entry results'' ''enqueueEntryResultsSyncJob'' ''catchup'' (\<lambda>_. keep_on_settle)) False]"

definition registry_events :: "job_definition list" where
  "registry_events =
     [eventDefinition ''league-event-picks'' ''post-deadline event checkpoint'' Event_checkpoint ''league-sync''
        (event_request ''League picks'' ''enqueueLeagueEventPicks'' ''catchup'' (\<lambda>_. [])) False,
      eventDefinition ''league-event-results'' ''post-deadline event checkpoint'' Event_checkpoint ''league-sync''
        (event_request ''League results'' ''enqueueLeagueEventResults'' ''catchup'' (\<lambda>_. [])) False,
      eventDefinition ''tournament-event-results'' ''post-deadline event checkpoint'' Event_checkpoint ''tournament-sync''
        (event_request ''Tournament results'' ''enqueueTournamentEventResults'' ''reconcile'' (\<lambda>_. [])) False,
      eventDefinition ''tournament-event-picks'' ''post-deadline event checkpoint'' Event_checkpoint ''tournament-sync''
        (event_request ''Tournament picks'' ''enqueueTournamentEventPicks'' ''reconcile'' (\<lambda>_. [])) True,
      eventDefinition ''tournament-transfers-pre'' ''post-deadline event checkpoint'' Event_checkpoint ''tournament-sync''
        (event_request ''Tournament transfers'' ''enqueueTournamentTransfersPre'' ''reconcile'' (\<lambda>_. [])) True,
      liveSnapshotDefinition, liveFinalizationDefinition, activePlayerStatsDefinition, contentDefinition]"

definition schedulerRegistry :: "job_definition list" where
  "schedulerRegistry = registry_data @ registry_upkeep @ registry_entries @ registry_events"

lemmas catalog_simps = schedulerRegistry_def registry_data_def registry_upkeep_def registry_entries_def registry_events_def
  append.simps dailyDefinition_def eventDefinition_def periodicMaintenanceDefinition_def contentDefinition_def
  coreLifecycleReconcileDefinition_def postMatchMaintenanceDefinition_def myFplSnapshotDefinition_def
  myFplFinalizationDefinition_def myFplSnapshotOutboxDefinition_def liveSnapshotDefinition_def
  liveFinalizationDefinition_def activePlayerStatsDefinition_def job_definition.simps

end
