(* ===== verification/SchedulerRuns.thy ===== *)
theory SchedulerRuns
  imports SchedulerObligations
begin

text \<open>
  The obligations under every interleaving of the scheduler's passes and the workers: the calls of
  \<^verbatim>\<open>src/repositories/scheduler-obligations.ts\<close> as a step relation over the table, with the claims
  handed out so far (obligation, generation, owner) as a ghost history. Database times and locked
  rows are arbitrary at every call. The identifiers a reservation and a claim draw at random are
  new.
\<close>

section \<open>Claims as one update\<close>

lemma update_where_compose:
  assumes "\<And>row. p row \<Longrightarrow> \<not> q (f row)" and "\<And>row. q row \<Longrightarrow> \<not> p row"
    and "\<And>row. \<not> p row \<Longrightarrow> q row \<Longrightarrow> f row = g row"
  shows "update_where q f (update_where p f rows) = update_where (\<lambda>row. p row \<or> q row) f rows"
  using assms by (auto simp: update_where_def)

lemma claimed_obligation_simps [simp]:
  "so_obligationId (claimed_obligation owner now leaseMs row) = so_obligationId row"
  "so_jobName (claimed_obligation owner now leaseMs row) = so_jobName row"
  "so_scopeKey (claimed_obligation owner now leaseMs row) = so_scopeKey row"
  "so_periodKey (claimed_obligation owner now leaseMs row) = so_periodKey row"
  "so_status (claimed_obligation owner now leaseMs row) = Ob_enqueued"
  "so_attempts (claimed_obligation owner now leaseMs row) = so_attempts row + 1"
  "so_leaseOwner (claimed_obligation owner now leaseMs row) = Some owner"
  "so_leaseExpiresAt (claimed_obligation owner now leaseMs row) = Some (now + leaseMs)"
  "so_dueAt (claimed_obligation owner now leaseMs row) = so_dueAt row"
  "so_evidence (claimed_obligation owner now leaseMs row) = so_evidence row"
  by (simp_all add: claimed_obligation_def)

lemma claim_rows_update:
  assumes "distinct (map so_obligationId cs)"
  shows "claim_rows owner now leaseMs cs rows =
    (map (claimed_obligation owner now leaseMs) cs,
     update_where (\<lambda>row. so_obligationId row \<in> so_obligationId ` set cs) (claimed_obligation owner now leaseMs) rows)"
  using assms
proof (induction cs arbitrary: rows)
  case Nil
  then show ?case by (simp add: update_where_def)
next
  case (Cons c cs)
  have "update_where (\<lambda>row. so_obligationId row \<in> so_obligationId ` set cs) (claimed_obligation owner now leaseMs)
      (update_where (by_id (so_obligationId c)) (claimed_obligation owner now leaseMs) rows) =
    update_where (\<lambda>row. by_id (so_obligationId c) row \<or> so_obligationId row \<in> so_obligationId ` set cs)
      (claimed_obligation owner now leaseMs) rows"
    by (rule update_where_compose) (use Cons.prems in \<open>auto simp: by_id_def\<close>)
  moreover have "(\<lambda>row. by_id (so_obligationId c) row \<or> so_obligationId row \<in> so_obligationId ` set cs) =
      (\<lambda>row. so_obligationId row \<in> so_obligationId ` set (c # cs))"
    by (auto simp: by_id_def)
  ultimately show ?case using Cons by simp
qed

lemma candidate_iff:
  assumes "c \<in> set (claim_candidates locked now limit rows)"
  shows "c \<in> set rows" "claimable_obligation now c" "so_obligationId c \<notin> locked"
  using assms by (auto simp: claim_candidates_def dest!: in_set_takeD)

lemma candidates_distinct:
  assumes "distinct (map so_obligationId rows)"
  shows "distinct (map so_obligationId (claim_candidates locked now limit rows))"
proof -
  have "distinct (map so_obligationId (js_sort due_order xs))" if "distinct (map so_obligationId xs)" for xs
    using that mset_distinct_map [of "js_sort due_order xs" xs so_obligationId] by simp
  then show ?thesis using assms
    by (simp add: claim_candidates_def take_map [symmetric] distinct_map_filter)
qed

section \<open>Steps\<close>

type_synonym handout = "string \<times> int \<times> string"

record scheduler_state =
  sr_rows :: "obligation list"
  sr_handed :: "handout list"

definition handout_of :: "string \<Rightarrow> obligation \<Rightarrow> handout" where
  "handout_of owner row = (so_obligationId row, so_generation row, owner)"

inductive scheduler_step :: "scheduler_state \<Rightarrow> scheduler_state \<Rightarrow> bool" where
  reserve: "reserveSchedulerObligation fresh definition plan (sr_rows s) = Inr (row, rows') \<Longrightarrow>
    fresh \<notin> so_obligationId ` set (sr_rows s) \<Longrightarrow> scheduler_step s (s\<lparr>sr_rows := rows'\<rparr>)"
| claim: "claimSchedulerObligations owner locked now limit lease env (sr_rows s) = Inr (claimed, rows') \<Longrightarrow>
    owner \<notin> (snd \<circ> snd) ` set (sr_handed s) \<Longrightarrow>
    scheduler_step s (s\<lparr>sr_rows := rows', sr_handed := sr_handed s @ map (handout_of owner) claimed\<rparr>)"
| confirm: "scheduler_step s (s\<lparr>sr_rows := fst (confirmSchedulerObligationEnqueued i owner bull run (sr_rows s))\<rparr>)"
| renew: "renewSchedulerObligation now env i g additional (sr_rows s) = Inr (rows', ok) \<Longrightarrow>
    scheduler_step s (s\<lparr>sr_rows := rows'\<rparr>)"
| complete: "terminal status \<Longrightarrow>
    scheduler_step s (s\<lparr>sr_rows := fst (completeSchedulerObligation now i status g e (sr_rows s))\<rparr>)"
| mark: "status \<in> {None, Some Ob_skipped, Some Ob_irrecoverable} \<Longrightarrow>
    scheduler_step s (s\<lparr>sr_rows := fst (markSchedulerObligationIrrecoverable now i status e (sr_rows s))\<rparr>)"
| complete_job: "scheduler_step s (s\<lparr>sr_rows := fst (completeSchedulerObligationByBullJobId now bull1 e (sr_rows s))\<rparr>)"
| fail: "scheduler_step s (s\<lparr>sr_rows := fst (failSchedulerObligation now i w g message delay (sr_rows s))\<rparr>)"
| fail_job: "scheduler_step s (s\<lparr>sr_rows := fst (failSchedulerObligationByBullJobId now bull1 message seen (sr_rows s))\<rparr>)"

definition empty_scheduler :: scheduler_state where
  "empty_scheduler = \<lparr>sr_rows = [], sr_handed = []\<rparr>"

section \<open>What a call does to a row\<close>

definition identity_of :: "obligation \<Rightarrow> string \<times> string \<times> string" where
  "identity_of row = (so_jobName row, so_scopeKey row, so_periodKey row)"

text \<open>Every call but a claim and a reservation moves each row like this.\<close>

definition row_moves :: "obligation \<Rightarrow> obligation \<Rightarrow> bool" where
  "row_moves row row' \<longleftrightarrow> row' = row \<or>
     (so_obligationId row' = so_obligationId row \<and> identity_of row' = identity_of row \<and>
      so_generation row' = so_generation row \<and> so_attempts row' = so_attempts row \<and>
      \<not> terminal (so_status row) \<and> so_status row' \<noteq> Ob_pending \<and>
      (in_flight (so_status row') \<longrightarrow> in_flight (so_status row) \<and> so_leaseOwner row' = so_leaseOwner row \<and>
         (so_leaseExpiresAt row' = None \<longleftrightarrow> so_leaseExpiresAt row = None)) \<and>
      (\<not> in_flight (so_status row') \<longrightarrow> so_leaseOwner row' = None \<and> so_leaseExpiresAt row' = None) \<and>
      (so_status row' = Ob_failed \<longrightarrow> in_flight (so_status row)))"

definition leased_in_flight :: "obligation \<Rightarrow> bool" where
  "leased_in_flight row \<longleftrightarrow> (so_leaseOwner row \<noteq> None \<longleftrightarrow> in_flight (so_status row)) \<and>
     (so_leaseExpiresAt row \<noteq> None \<longleftrightarrow> in_flight (so_status row))"

definition rows_move :: "obligation list \<Rightarrow> obligation list \<Rightarrow> bool" where
  "rows_move rows rows' \<longleftrightarrow> (\<forall>row \<in> set rows. leased_in_flight row) \<longrightarrow>
     list_all2 row_moves rows rows'"

lemma update_one_moves:
  assumes "\<And>row. row \<in> set rows \<Longrightarrow> hit row \<Longrightarrow> leased_in_flight row \<Longrightarrow> row_moves row (f row)"
  shows "rows_move rows (fst (update_one hit f rows))"
  unfolding rows_move_def update_one_def fst_conv
  by (intro impI update_where_rel) (use assms in \<open>auto simp: row_moves_def\<close>)

lemma rows_move_refl: "rows_move rows rows"
  by (simp add: rows_move_def row_moves_def list_all2_same)

lemmas row_simps = leased_in_flight_def identity_of_def in_flight_def terminal_def by_id_def close_row_def failed_row_def

lemma close_moves:
  "\<not> terminal (so_status row) \<Longrightarrow> terminal status \<Longrightarrow> row_moves row (close_row now status e row)"
  by (auto simp: row_moves_def identity_of_def close_row_def in_flight_def terminal_def)

lemma in_flight_not_terminal: "in_flight st \<Longrightarrow> \<not> terminal st"
  by (auto simp: in_flight_def terminal_def)

lemma confirm_moves: "rows_move rows (fst (confirmSchedulerObligationEnqueued i owner bull run rows))"
  unfolding confirmSchedulerObligationEnqueued_def by (rule update_one_moves) (auto simp: row_moves_def row_simps)

lemma renew_moves: "renewSchedulerObligation now env i g additional rows = Inr (rows', ok) \<Longrightarrow> rows_move rows rows'"
  by (auto simp: renewSchedulerObligation_def Let_def row_moves_def row_simps split: if_splits
      dest!: arg_cong [where f = fst] intro!: update_one_moves)

lemma complete_moves: "terminal status \<Longrightarrow> rows_move rows (fst (completeSchedulerObligation now i status g e rows))"
  unfolding completeSchedulerObligation_def
  by (rule update_one_moves) (simp add: close_moves in_flight_not_terminal)

lemma mark_moves:
  "status \<in> {None, Some Ob_skipped, Some Ob_irrecoverable} \<Longrightarrow>
   rows_move rows (fst (markSchedulerObligationIrrecoverable now i status e rows))"
  unfolding markSchedulerObligationIrrecoverable_def
  by (rule update_one_moves, rule close_moves) (auto simp: terminal_def)

lemma complete_job_moves: "rows_move rows (fst (completeSchedulerObligationByBullJobId now bull e rows))"
  unfolding completeSchedulerObligationByBullJobId_def
  by (rule update_one_moves, rule close_moves) (auto simp: in_flight_def terminal_def)

lemma fail_moves: "rows_move rows (fst (failSchedulerObligation now i w g message delay rows))"
  unfolding failSchedulerObligation_def by (rule update_one_moves) (auto simp: row_moves_def row_simps)

lemma fail_job_moves: "rows_move rows (fst (failSchedulerObligationByBullJobId now bull message seen rows))"
  by (simp add: failSchedulerObligationByBullJobId_def fail_moves rows_move_refl split: option.split)

lemmas call_moves = confirm_moves renew_moves complete_moves mark_moves complete_job_moves fail_moves fail_job_moves

lemma scheduler_step_cases:
  assumes "scheduler_step s s'"
  obtains (reserve) fresh job plan row where
      "reserveSchedulerObligation fresh job plan (sr_rows s) = Inr (row, sr_rows s')"
      "fresh \<notin> so_obligationId ` set (sr_rows s)" "sr_handed s' = sr_handed s"
    | (claim) owner locked now limit lease env claimed where
      "claimSchedulerObligations owner locked now limit lease env (sr_rows s) = Inr (claimed, sr_rows s')"
      "owner \<notin> (snd \<circ> snd) ` set (sr_handed s)"
      "sr_handed s' = sr_handed s @ map (handout_of owner) claimed"
    | (move) "rows_move (sr_rows s) (sr_rows s')" "sr_handed s' = sr_handed s"
  using assms by (cases rule: scheduler_step.cases) (simp_all add: that call_moves)

section \<open>The invariant\<close>

definition handouts :: "handout list \<Rightarrow> string \<Rightarrow> (int \<times> string) list" where
  "handouts handed i = map snd (filter (\<lambda>h. fst h = i) handed)"

definition in_order :: "(int \<times> string) list \<Rightarrow> bool" where
  "in_order h \<longleftrightarrow> map fst h = map int [0..<length h] \<and> distinct (map snd h)"

lemma in_order_Nil [simp]: "in_order []"
  by (simp add: in_order_def)

lemma in_order_snoc: "in_order h \<Longrightarrow> owner \<notin> snd ` set h \<Longrightarrow> in_order (h @ [(int (length h), owner)])"
  by (simp add: in_order_def)

definition row_inv :: "handout list \<Rightarrow> obligation \<Rightarrow> bool" where
  "row_inv handed row \<longleftrightarrow>
     (let h = handouts handed (so_obligationId row) in
      leased_in_flight row \<and> in_order h \<and>
      so_attempts row = int (length h) \<and>
      so_generation row = (if h = [] then 0 else int (length h) - 1) \<and>
      (so_status row = Ob_pending \<longrightarrow> h = []) \<and>
      (h = [] \<longrightarrow> so_status row = Ob_pending \<or> terminal (so_status row)) \<and>
      (in_flight (so_status row) \<longrightarrow> so_leaseOwner row = Some (snd (last h))))"

definition scheduler_inv :: "scheduler_state \<Rightarrow> bool" where
  "scheduler_inv s \<longleftrightarrow>
     distinct (map so_obligationId (sr_rows s)) \<and> distinct (map identity_of (sr_rows s)) \<and>
     (\<forall>row \<in> set (sr_rows s). row_inv (sr_handed s) row) \<and>
     fst ` set (sr_handed s) \<subseteq> so_obligationId ` set (sr_rows s)"

lemma scheduler_inv_empty: "scheduler_inv empty_scheduler"
  by (simp add: scheduler_inv_def empty_scheduler_def)

lemma handouts_append: "handouts (a @ b) i = handouts a i @ handouts b i"
  by (simp add: handouts_def)

lemma handouts_none: "i \<notin> fst ` set handed \<Longrightarrow> handouts handed i = []"
  by (auto simp: handouts_def filter_empty_conv)

lemma handouts_claimed:
  assumes "distinct (map so_obligationId cs)"
  shows "handouts (map (handout_of owner) cs) i =
    map (\<lambda>c. (so_generation c, owner)) (filter (\<lambda>c. so_obligationId c = i) cs)"
  by (simp add: handouts_def filter_map comp_def handout_of_def)

lemma filter_by_key:
  "distinct (map k xs) \<Longrightarrow> x \<in> set xs \<Longrightarrow> filter (\<lambda>y. k y = k x) xs = [x]"
  by (induction xs) (auto simp: filter_empty_conv image_iff dest: arg_cong [where f = k])

lemma row_inv_move:
  assumes "row_moves row row'" "row_inv handed row"
  shows "row_inv handed row'"
proof (cases "row' = row")
  case False
  with assms(1) have m: "so_obligationId row' = so_obligationId row" "so_generation row' = so_generation row"
      "so_attempts row' = so_attempts row" "\<not> terminal (so_status row)" "so_status row' \<noteq> Ob_pending"
      "so_status row' = Ob_failed \<Longrightarrow> in_flight (so_status row)"
    and flying: "in_flight (so_status row') \<Longrightarrow> in_flight (so_status row) \<and> so_leaseOwner row' = so_leaseOwner row \<and>
      (so_leaseExpiresAt row' = None \<longleftrightarrow> so_leaseExpiresAt row = None)"
    and landed: "\<not> in_flight (so_status row') \<Longrightarrow> so_leaseOwner row' = None \<and> so_leaseExpiresAt row' = None"
    by (simp_all add: row_moves_def)
  have old: "leased_in_flight row" using assms(2) by (simp add: row_inv_def Let_def)
  have "leased_in_flight row'"
    by (cases "in_flight (so_status row')") (use flying landed old in \<open>simp_all add: leased_in_flight_def\<close>)
  moreover have "so_status row' = Ob_pending \<or> terminal (so_status row')" if "so_status row = Ob_pending"
    using that m(5,6) flying by (cases "so_status row'") (simp_all add: in_flight_def terminal_def)
  ultimately show ?thesis using assms(2) m flying by (simp add: row_inv_def Let_def)
qed (use assms in simp)

lemma row_moves_key: "row_moves row row' \<Longrightarrow> so_obligationId row' = so_obligationId row \<and> identity_of row' = identity_of row"
  by (auto simp: row_moves_def)

lemma rows_move_keys:
  assumes "list_all2 row_moves rows rows'"
  shows "map so_obligationId rows' = map so_obligationId rows" "map identity_of rows' = map identity_of rows"
  using assms row_moves_key by (induction rule: list_all2_induct) auto

lemma move_inv:
  assumes "scheduler_inv s" "list_all2 row_moves (sr_rows s) rows'"
  shows "scheduler_inv (s\<lparr>sr_rows := rows'\<rparr>)"
proof -
  have "so_obligationId ` set rows' = so_obligationId ` set (sr_rows s)"
    using rows_move_keys [OF assms(2)] by (metis list.set_map)
  moreover have "row_inv (sr_handed s) row'" if "row' \<in> set rows'" for row'
  proof -
    from that assms(2) obtain row where "row \<in> set (sr_rows s)" "row_moves row row'"
      by (metis in_set_conv_nth list_all2_conv_all_nth)
    then show ?thesis using assms(1) row_inv_move by (auto simp: scheduler_inv_def)
  qed
  ultimately show ?thesis using assms(1) rows_move_keys [OF assms(2)] by (simp add: scheduler_inv_def)
qed

lemma reserve_result:
  assumes "reserveSchedulerObligation fresh job plan rows = Inr (row, rows')"
  shows "rows' = rows \<and> row \<in> set rows \<and> has_identity (jd_name job) (op_scopeKey plan) (op_periodKey plan) row \<or>
    rows' = rows @ [row] \<and> (\<exists>dueAt. op_dueAt plan = Some dueAt \<and> row = new_obligation fresh job plan dueAt) \<and>
      (jd_name job, op_scopeKey plan, op_periodKey plan) \<notin> identity_of ` set rows"
  using assms
  by (auto simp: reserveSchedulerObligation_def Let_def find_None_iff find_Some_iff has_identity_def
      identity_of_def split: if_splits option.splits)

lemma new_obligation_simps [simp]:
  "so_obligationId (new_obligation fresh job plan dueAt) = fresh"
  "identity_of (new_obligation fresh job plan dueAt) = (jd_name job, op_scopeKey plan, op_periodKey plan)"
  "so_status (new_obligation fresh job plan dueAt) = Ob_pending"
  by (simp_all add: new_obligation_def identity_of_def)

lemma reserve_inv:
  assumes "scheduler_inv s" "reserveSchedulerObligation fresh job plan (sr_rows s) = Inr (row, rows')"
    and "fresh \<notin> so_obligationId ` set (sr_rows s)"
  shows "scheduler_inv (s\<lparr>sr_rows := rows'\<rparr>)"
  using reserve_result [OF assms(2)]
proof (elim disjE conjE exE)
  assume "rows' = sr_rows s"
  then show ?thesis using assms(1) by simp
next
  fix dueAt
  assume rows': "rows' = sr_rows s @ [row]" and row: "row = new_obligation fresh job plan dueAt"
    and new: "(jd_name job, op_scopeKey plan, op_periodKey plan) \<notin> identity_of ` set (sr_rows s)"
  have "handouts (sr_handed s) fresh = []"
    using assms(1,3) by (intro handouts_none) (auto simp: scheduler_inv_def)
  then have "row_inv (sr_handed s) row"
    by (simp add: row row_inv_def new_obligation_def leased_in_flight_def in_flight_def)
  then show ?thesis using assms(1,3) new by (auto simp: scheduler_inv_def rows' row)
qed

lemma claim_result:
  assumes "claimSchedulerObligations owner locked now limit lease env rows = Inr (claimed, rows')"
    and "distinct (map so_obligationId rows)"
  obtains cs leaseMs where "distinct (map so_obligationId cs)" "set cs \<subseteq> set rows"
    "\<And>c. c \<in> set cs \<Longrightarrow> claimable_obligation now c"
    "cs = claim_candidates locked now (coalesce limit 50) rows"
    "claimed = map (claimed_obligation owner now leaseMs) cs"
    "rows' = update_where (\<lambda>row. so_obligationId row \<in> so_obligationId ` set cs) (claimed_obligation owner now leaseMs) rows"
    "leaseMs = coalesce lease (resolveSchedulerLeaseMs env)" "0 < leaseMs"
proof -
  let ?cs = "claim_candidates locked now (coalesce limit 50) rows"
  let ?leaseMs = "coalesce lease (resolveSchedulerLeaseMs env)"
  note d = candidates_distinct [OF assms(2), of locked now "coalesce limit 50"]
  have "0 < ?leaseMs" "claim_rows owner now ?leaseMs ?cs rows = (claimed, rows')"
    using assms(1) by (simp_all add: claimSchedulerObligations_def Let_def split: if_splits)
  moreover have "set ?cs \<subseteq> set rows" "\<And>c. c \<in> set ?cs \<Longrightarrow> claimable_obligation now c"
    using candidate_iff by blast+
  ultimately show ?thesis
    using that [OF d] claim_rows_update [OF d, of owner now ?leaseMs rows] by simp
qed

lemma claim_inv:
  assumes inv: "scheduler_inv s"
    and claim: "claimSchedulerObligations owner locked now limit lease env (sr_rows s) = Inr (claimed, rows')"
    and owner: "owner \<notin> (snd \<circ> snd) ` set (sr_handed s)"
  shows "scheduler_inv (s\<lparr>sr_rows := rows', sr_handed := sr_handed s @ map (handout_of owner) claimed\<rparr>)"
proof -
  have ids: "distinct (map so_obligationId (sr_rows s))" using inv by (simp add: scheduler_inv_def)
  from claim_result [OF claim ids] obtain cs leaseMs where
    cs: "distinct (map so_obligationId cs)" "set cs \<subseteq> set (sr_rows s)"
      "\<And>c. c \<in> set cs \<Longrightarrow> claimable_obligation now c"
    and claimed: "claimed = map (claimed_obligation owner now leaseMs) cs"
    and rows': "rows' = update_where (\<lambda>row. so_obligationId row \<in> so_obligationId ` set cs)
      (claimed_obligation owner now leaseMs) (sr_rows s)" by metis
  let ?handed = "sr_handed s @ map (handout_of owner) claimed"
  have d: "distinct (map so_obligationId claimed)" using cs(1) by (simp add: claimed comp_def)
  have "row_inv ?handed row'" if "row' \<in> set rows'" for row'
  proof -
    from that obtain row where row: "row \<in> set (sr_rows s)"
      and row': "row' = (if so_obligationId row \<in> so_obligationId ` set cs
        then claimed_obligation owner now leaseMs row else row)"
      by (auto simp: rows' update_where_iff)
    have old: "row_inv (sr_handed s) row" using inv row by (simp add: scheduler_inv_def)
    show ?thesis
    proof (cases "so_obligationId row \<in> so_obligationId ` set cs")
      case False
      then have "handouts (map (handout_of owner) claimed) (so_obligationId row) = []"
        by (intro handouts_none) (auto simp: claimed handout_of_def)
      then show ?thesis using old False by (simp add: row' row_inv_def handouts_append)
    next
      case True
      then obtain c where "c \<in> set cs" "so_obligationId c = so_obligationId row" by auto
      then have c: "row \<in> set cs" using cs(2) row ids by (metis (no_types) distinct_map inj_onD subsetD)
      let ?h = "handouts (sr_handed s) (so_obligationId row)"
      have "filter (\<lambda>x. so_obligationId x = so_obligationId row) claimed = [claimed_obligation owner now leaseMs row]"
        using filter_by_key [OF cs(1) c] by (simp add: claimed filter_map comp_def)
      then have "handouts (map (handout_of owner) claimed) (so_obligationId row) =
          [(so_generation (claimed_obligation owner now leaseMs row), owner)]"
        by (simp add: handouts_claimed [OF d])
      moreover have "so_generation (claimed_obligation owner now leaseMs row) = int (length ?h)"
        using old cs(3) [OF c]
        by (auto simp: row_inv_def Let_def claimed_obligation_def claimable_obligation_def terminal_def in_flight_def split: if_splits)
      moreover have "owner \<notin> snd ` set ?h" using owner by (force simp: handouts_def)
      then have "in_order (?h @ [(int (length ?h), owner)])"
        using old by (intro in_order_snoc) (simp_all add: row_inv_def Let_def)
      ultimately show ?thesis using old True
        by (auto simp: row' row_inv_def Let_def handouts_append leased_in_flight_def in_flight_def)
    qed
  qed
  moreover have "map so_obligationId rows' = map so_obligationId (sr_rows s)" "map identity_of rows' = map identity_of (sr_rows s)"
    by (simp_all add: rows' identity_of_def)
  moreover from this have "so_obligationId ` set rows' = so_obligationId ` set (sr_rows s)" by (metis list.set_map)
  moreover have "fst ` set (map (handout_of owner) claimed) \<subseteq> so_obligationId ` set (sr_rows s)"
    using cs(2) by (auto simp: claimed handout_of_def)
  ultimately show ?thesis using inv by (simp add: scheduler_inv_def image_Un)
qed

lemma scheduler_inv_leased: "scheduler_inv s \<Longrightarrow> rows_move (sr_rows s) rows' \<Longrightarrow> list_all2 row_moves (sr_rows s) rows'"
  by (simp add: scheduler_inv_def rows_move_def row_inv_def Let_def)

lemma state_eq:
  fixes s :: scheduler_state
  shows "sr_handed s' = h \<Longrightarrow> s\<lparr>sr_rows := sr_rows s', sr_handed := h\<rparr> = s'"
  by (cases s; cases s') simp

lemma state_rows_eq:
  fixes s :: scheduler_state
  shows "sr_handed s' = sr_handed s \<Longrightarrow> s\<lparr>sr_rows := sr_rows s'\<rparr> = s'"
  by (cases s; cases s') simp

lemma scheduler_step_inv:
  assumes "scheduler_step s s'" "scheduler_inv s"
  shows "scheduler_inv s'"
  using assms(1)
proof (cases rule: scheduler_step_cases)
  case (reserve fresh job plan row)
  then show ?thesis using reserve_inv [OF assms(2) reserve(1,2)] state_rows_eq by metis
next
  case (claim owner locked now limit lease env claimed)
  then show ?thesis using claim_inv [OF assms(2) claim(1,2)] state_eq by metis
next
  case move
  then show ?thesis using move_inv [OF assms(2) scheduler_inv_leased [OF assms(2) move(1)]] state_rows_eq by metis
qed

interpretation obligations: step_invariant scheduler_step scheduler_inv
  by unfold_locales (rule scheduler_step_inv)

section \<open>Progress of a row\<close>

definition row_later :: "scheduler_state \<Rightarrow> scheduler_state \<Rightarrow> obligation \<Rightarrow> obligation \<Rightarrow> bool" where
  "row_later s s' row row' \<longleftrightarrow>
     so_obligationId row' = so_obligationId row \<and> identity_of row' = identity_of row \<and>
     so_generation row \<le> so_generation row' \<and> so_attempts row \<le> so_attempts row' \<and>
     (terminal (so_status row) \<longrightarrow> row' = row)"

definition scheduler_later :: "scheduler_state \<Rightarrow> scheduler_state \<Rightarrow> bool" where
  "scheduler_later s s' \<longleftrightarrow>
     (\<forall>row \<in> set (sr_rows s). \<exists>row' \<in> set (sr_rows s'). row_later s s' row row') \<and>
     set (sr_handed s) \<subseteq> set (sr_handed s')"

lemma scheduler_step_later:
  assumes "scheduler_step s s'" "scheduler_inv s"
  shows "scheduler_later s s'"
  using assms(1)
proof (cases rule: scheduler_step_cases)
  case (reserve fresh job plan row)
  then have "set (sr_rows s) \<subseteq> set (sr_rows s')"
    using reserve_result [OF reserve(1)] by auto
  then show ?thesis using reserve(3) by (auto simp: scheduler_later_def row_later_def)
next
  case (claim owner locked now limit lease env claimed)
  have ids: "distinct (map so_obligationId (sr_rows s))" using assms(2) by (simp add: scheduler_inv_def)
  from claim_result [OF claim(1) ids] obtain cs leaseMs where cs: "set cs \<subseteq> set (sr_rows s)"
      "\<And>c. c \<in> set cs \<Longrightarrow> claimable_obligation now c"
    and rows': "sr_rows s' = update_where (\<lambda>row. so_obligationId row \<in> so_obligationId ` set cs)
      (claimed_obligation owner now leaseMs) (sr_rows s)" by metis
  have "\<exists>row' \<in> set (sr_rows s'). row_later s s' row row'" if row: "row \<in> set (sr_rows s)" for row
  proof (cases "so_obligationId row \<in> so_obligationId ` set cs")
    case True
    then obtain c where "c \<in> set cs" "so_obligationId c = so_obligationId row" by auto
    then have "row \<in> set cs" using cs(1) row ids by (metis (no_types) distinct_map inj_onD subsetD)
    then have "\<not> terminal (so_status row)"
      using cs(2) [of row] by (auto simp: claimable_obligation_def terminal_def in_flight_def)
    then have "row_later s s' row (claimed_obligation owner now leaseMs row)"
      by (simp add: row_later_def identity_of_def) (simp add: claimed_obligation_def)
    moreover have "claimed_obligation owner now leaseMs row \<in> set (sr_rows s')"
      using True row by (auto simp: rows' update_where_iff)
    ultimately show ?thesis by blast
  next
    case False
    then have "row \<in> set (sr_rows s')" using row unfolding rows' update_where_iff by metis
    then show ?thesis by (auto simp: row_later_def)
  qed
  then show ?thesis by (auto simp: scheduler_later_def claim(3))
next
  case move
  then have moves: "list_all2 row_moves (sr_rows s) (sr_rows s')" using scheduler_inv_leased [OF assms(2)] by simp
  have "\<exists>row' \<in> set (sr_rows s'). row_later s s' row row'" if "row \<in> set (sr_rows s)" for row
  proof -
    from that moves obtain row' where "row' \<in> set (sr_rows s')" "row_moves row row'"
      by (metis in_set_conv_nth list_all2_conv_all_nth)
    then show ?thesis by (auto simp: row_moves_def row_later_def)
  qed
  then show ?thesis using move(2) by (auto simp: scheduler_later_def)
qed

lemma scheduler_later_refl: "scheduler_later s s"
  by (auto simp: scheduler_later_def row_later_def)

lemma scheduler_later_trans: "scheduler_later s t \<Longrightarrow> scheduler_later t u \<Longrightarrow> scheduler_later s u"
  unfolding scheduler_later_def row_later_def by (intro conjI ballI) (metis order_trans, blast)

lemma scheduler_runs_later: "scheduler_step\<^sup>*\<^sup>* s s' \<Longrightarrow> scheduler_inv s \<Longrightarrow> scheduler_later s s'"
  by (rule obligations.reach_relation [where rel = scheduler_later])
    (auto intro: scheduler_later_refl scheduler_later_trans scheduler_step_later)

text \<open>Facts about one row of a reachable state.\<close>

lemma row_facts_of:
  assumes "scheduler_inv s" "row \<in> set (sr_rows s)"
  shows "row_inv (sr_handed s) row"
  using assms by (simp add: scheduler_inv_def)

lemma handout_generation:
  assumes "scheduler_inv s" "row \<in> set (sr_rows s)" "(so_obligationId row, g, w) \<in> set (sr_handed s)"
  shows "0 \<le> g" "g \<le> so_generation row"
proof -
  let ?h = "handouts (sr_handed s) (so_obligationId row)"
  note inv = row_facts_of [OF assms(1,2)]
  have mem: "(g, w) \<in> set ?h" using assms(3) by (force simp: handouts_def)
  then have "g \<in> set (map fst ?h)" by force
  also have "map fst ?h = map int [0..<length ?h]" using inv by (simp add: row_inv_def Let_def in_order_def)
  finally have "0 \<le> g \<and> g < int (length ?h)" by auto
  moreover have "?h \<noteq> []" using mem by auto
  ultimately show "0 \<le> g" "g \<le> so_generation row" using inv by (simp_all add: row_inv_def Let_def)
qed

lemma last_generation:
  assumes "in_order h" "h \<noteq> []"
  shows "fst (last h) = int (length h) - 1"
proof -
  have "fst (last h) = last (map int [0..<length h])" using assms by (metis in_order_def last_map)
  then show ?thesis using assms(2) by (simp add: last_map of_nat_diff Suc_leI)
qed

text \<open>The owner of a superseded claim does not hold the row any more.\<close>

lemma handout_owner:
  assumes "scheduler_inv s" "row \<in> set (sr_rows s)" "(so_obligationId row, g, w) \<in> set (sr_handed s)"
    and "g < so_generation row"
  shows "so_leaseOwner row \<noteq> Some w"
proof
  assume w: "so_leaseOwner row = Some w"
  let ?h = "handouts (sr_handed s) (so_obligationId row)"
  note inv = row_facts_of [OF assms(1,2)]
  then have "in_flight (so_status row)" using w by (auto simp: row_inv_def Let_def leased_in_flight_def)
  then have lw: "snd (last ?h) = w" using inv w by (simp add: row_inv_def Let_def)
  have mem: "(g, w) \<in> set ?h" using assms(3) by (force simp: handouts_def)
  then have ne: "?h \<noteq> []" by auto
  have order: "map fst ?h = map int [0..<length ?h]" "distinct (map snd ?h)"
    using inv by (simp_all add: row_inv_def Let_def in_order_def)
  have "(g, w) = last ?h"
    using order(2) mem last_in_set [OF ne] lw by (metis (no_types, lifting) distinct_map inj_on_eq_iff snd_conv)
  moreover have "fst (last ?h) = int (length ?h) - 1"
    using last_generation [OF _ ne] inv by (simp add: row_inv_def Let_def)
  ultimately have "g = so_generation row" using inv ne by (simp add: row_inv_def Let_def) (metis fst_conv)
  then show False using assms(4) by simp
qed

lemma update_one_none: "(\<And>row. row \<in> set rows \<Longrightarrow> \<not> hit row) \<Longrightarrow> update_one hit f rows = (rows, False)"
proof -
  assume none: "\<And>row. row \<in> set rows \<Longrightarrow> \<not> hit row"
  then have "filter hit rows = []" "update_where hit f rows = rows"
    by (simp_all add: filter_empty_conv update_where_def map_idI)
  then show ?thesis by (simp add: update_one_def)
qed

section \<open>Reachable states\<close>

lemma scheduler_reach_inv: "scheduler_step\<^sup>*\<^sup>* empty_scheduler s \<Longrightarrow> scheduler_inv s"
  using obligations.reach_inv scheduler_inv_empty by blast

lemma obligation_unique:
  assumes "scheduler_inv s" "row \<in> set (sr_rows s)" "row' \<in> set (sr_rows s)"
    and "so_obligationId row = so_obligationId row' \<or> identity_of row = identity_of row'"
  shows "row = row'"
  using assms by (auto simp: scheduler_inv_def distinct_map inj_on_def)

text \<open>
  C34. However scheduler passes and workers interleave: each job, scope and period has at most one
  obligation; the claims of an obligation carry the generations 0, 1, 2, ... in order, each one
  handed out once, and the row counts them; it is held by the newest claim exactly while it is in
  flight; and a row that was closed (succeeded, skipped or irrecoverable) never changes again.
\<close>

theorem scheduler_obligations_invariant:
  assumes "scheduler_step\<^sup>*\<^sup>* empty_scheduler s" "row \<in> set (sr_rows s)"
  shows "(\<forall>row' \<in> set (sr_rows s). identity_of row' = identity_of row \<longrightarrow> row' = row) \<and>
    map fst (handouts (sr_handed s) (so_obligationId row)) = map int [0..<nat (so_attempts row)] \<and>
    (if in_flight (so_status row)
     then \<exists>owner. so_leaseOwner row = Some owner \<and> so_leaseExpiresAt row \<noteq> None \<and>
       last (handouts (sr_handed s) (so_obligationId row)) = (so_generation row, owner)
     else so_leaseOwner row = None \<and> so_leaseExpiresAt row = None) \<and>
    (\<forall>s'. scheduler_step\<^sup>*\<^sup>* s s' \<longrightarrow>
       (\<exists>row' \<in> set (sr_rows s'). so_obligationId row' = so_obligationId row \<and> identity_of row' = identity_of row \<and>
          so_generation row \<le> so_generation row' \<and> (terminal (so_status row) \<longrightarrow> row' = row)))"
proof -
  let ?h = "handouts (sr_handed s) (so_obligationId row)"
  have inv: "scheduler_inv s" by (rule scheduler_reach_inv [OF assms(1)])
  note row = row_facts_of [OF inv assms(2)]
  have len: "nat (so_attempts row) = length ?h" using row by (simp add: row_inv_def Let_def)
  have newest: "last ?h = (so_generation row, owner)" if "in_flight (so_status row)" "so_leaseOwner row = Some owner" for owner
  proof (rule prod_eqI)
    show "snd (last ?h) = snd (so_generation row, owner)" using row that by (simp add: row_inv_def Let_def)
    have ne: "?h \<noteq> []" using row that(1) in_flight_not_terminal by (auto simp: row_inv_def Let_def in_flight_def)
    show "fst (last ?h) = fst (so_generation row, owner)"
      using last_generation [of ?h] row ne by (simp add: row_inv_def Let_def)
  qed
  have lease: "if in_flight (so_status row)
      then \<exists>owner. so_leaseOwner row = Some owner \<and> so_leaseExpiresAt row \<noteq> None \<and> last ?h = (so_generation row, owner)
      else so_leaseOwner row = None \<and> so_leaseExpiresAt row = None"
    using row newest by (auto simp: row_inv_def Let_def leased_in_flight_def)
  have later: "\<forall>s'. scheduler_step\<^sup>*\<^sup>* s s' \<longrightarrow>
      (\<exists>row' \<in> set (sr_rows s'). so_obligationId row' = so_obligationId row \<and> identity_of row' = identity_of row \<and>
        so_generation row \<le> so_generation row' \<and> (terminal (so_status row) \<longrightarrow> row' = row))"
    using scheduler_runs_later [OF _ inv] assms(2) unfolding scheduler_later_def row_later_def by meson
  have unique: "\<forall>row' \<in> set (sr_rows s). identity_of row' = identity_of row \<longrightarrow> row' = row"
    using obligation_unique [OF inv _ assms(2)] by blast
  have order: "map fst ?h = map int [0..<length ?h]" using row by (simp add: row_inv_def Let_def in_order_def)
  show ?thesis unfolding len by (intro conjI unique order lease later)
qed

text \<open>
  C35. Fencing: once an obligation was handed out again with a newer generation, whoever still works
  for the older one can never again complete, fail or extend it, whether it names its generation or
  its owner, and cannot confirm its enqueue; every such call leaves the table as it is.
\<close>

theorem superseded_generation_is_fenced:
  assumes "scheduler_step\<^sup>*\<^sup>* empty_scheduler s" "scheduler_step\<^sup>*\<^sup>* s s'"
    and "(i, g, w) \<in> set (sr_handed s)" "(i, g', w') \<in> set (sr_handed s)" "g < g'" "w \<noteq> []"
  shows "completeSchedulerObligation now i status (Some g) e (sr_rows s') = (sr_rows s', False) \<and>
    failSchedulerObligation now i owner (Some g) message delay (sr_rows s') = (sr_rows s', False) \<and>
    failSchedulerObligation now i (Some w) generation message delay (sr_rows s') = (sr_rows s', False) \<and>
    confirmSchedulerObligationEnqueued i w bull run (sr_rows s') = (sr_rows s', False) \<and>
    (renewSchedulerObligation now env i (Some g) additional (sr_rows s') = Inr (sr_rows s', False) \<or>
     (\<exists>err. renewSchedulerObligation now env i (Some g) additional (sr_rows s') = Inl err))"
proof -
  have inv: "scheduler_inv s" by (rule scheduler_reach_inv [OF assms(1)])
  then have inv': "scheduler_inv s'" using obligations.reach_inv [OF assms(2)] by blast
  have handed: "(i, g, w) \<in> set (sr_handed s')" "(i, g', w') \<in> set (sr_handed s')"
    using scheduler_runs_later [OF assms(2) inv] assms(3,4) by (auto simp: scheduler_later_def)
  have gone: "so_generation row \<noteq> g \<and> so_leaseOwner row \<noteq> Some w"
    if "row \<in> set (sr_rows s')" "so_obligationId row = i" for row
    using handout_generation(2) [OF inv' that(1), of g' w'] handout_owner [OF inv' that(1), of g w]
      handed assms(5) that(2) by auto
  note fenced = update_one_none [of "sr_rows s'"] by_id_def given_def given_owner_def
  have "completeSchedulerObligation now i status (Some g) e (sr_rows s') = (sr_rows s', False)"
    unfolding completeSchedulerObligation_def by (rule update_one_none) (use gone in \<open>auto simp: fenced\<close>)
  moreover have "failSchedulerObligation now i owner (Some g) message delay (sr_rows s') = (sr_rows s', False)"
    unfolding failSchedulerObligation_def by (rule update_one_none) (use gone in \<open>auto simp: fenced\<close>)
  moreover have "failSchedulerObligation now i (Some w) generation message delay (sr_rows s') = (sr_rows s', False)"
    unfolding failSchedulerObligation_def
    by (rule update_one_none) (use gone assms(6) in \<open>auto simp: fenced\<close>)
  moreover have "confirmSchedulerObligationEnqueued i w bull run (sr_rows s') = (sr_rows s', False)"
    unfolding confirmSchedulerObligationEnqueued_def by (rule update_one_none) (use gone in \<open>auto simp: fenced\<close>)
  moreover have "update_one (\<lambda>row. by_id i row \<and> given (Some g) (so_generation row) \<and> in_flight (so_status row)) f (sr_rows s') =
      (sr_rows s', False)" for f
    by (rule update_one_none) (use gone in \<open>auto simp: fenced\<close>)
  then have "renewSchedulerObligation now env i (Some g) additional (sr_rows s') = Inr (sr_rows s', False) \<or>
     (\<exists>err. renewSchedulerObligation now env i (Some g) additional (sr_rows s') = Inl err)"
    by (simp add: renewSchedulerObligation_def Let_def)
  ultimately show ?thesis by blast
qed

end
