(* ===== verification/SchedulerPass.thy ===== *)
theory SchedulerPass
  imports SchedulerRegistry SchedulerRuns
begin

text \<open>
  One pass of the scheduler (\<^verbatim>\<open>src/scheduler/scheduler.service.ts\<close>): every entry of the catalog plans,
  the plans are reserved (and closed when their window has passed), and the due obligations are
  claimed and handed to the queues. A pass is a run of the calls of \<open>SchedulerRuns\<close>, so what holds
  for every interleaving of calls holds for passes; here is what one pass reaches when nothing else
  touches its obligations meanwhile. The claimed obligations are dispatched concurrently by the
  code; each dispatch only writes its own row, so they are taken one after the other.
\<close>

section \<open>The pass\<close>

record pass_env =
  pe_season :: season_ref
  pe_eventRows :: "event list"
  pe_now :: int
  pe_answers :: scheduler_reads
  pe_fresh :: "nat \<Rightarrow> string"
  pe_owner :: string
  pe_locked :: "string set"
  pe_leaseEnv :: "string option"
  pe_closeAt :: int
  pe_claimAt :: int
  pe_failAt :: int
  pe_submit :: "enqueue_request \<Rightarrow> (scheduler_failure, queue_receipt) result"

record pass_result =
  sp_definitions :: nat
  sp_reserved :: nat
  sp_claimed :: nat
  sp_enqueued :: nat
  sp_failed :: nat

fun failure_text :: "scheduler_failure \<Rightarrow> string" where
  "failure_text (Read_failed m) = m"
| "failure_text (Obligation_failed e) = ''Scheduler obligation could not be stored''"
| "failure_text Invalid_timestamp = ''Invalid time value''"
| "failure_text (No_event_checkpoint subject) = subject @ '' obligation has no event checkpoint''"
| "failure_text (Queue_failed m) = m"

definition pass_context :: "pass_env \<Rightarrow> scheduler_context" where
  "pass_context env =
     resolveSchedulerContext (rd_parseDate (pe_answers env)) (pe_eventRows env) (pe_season env) (pe_now env)"

text \<open>Reserving the plans of one entry; the second number counts the reservations so far.\<close>

fun reserve_plans ::
  "pass_env \<Rightarrow> job_definition \<Rightarrow> obligation_plan list \<Rightarrow> obligation list \<Rightarrow> nat
   \<Rightarrow> obligation list \<times> nat \<times> scheduler_failure option" where
  "reserve_plans env d [] rows n = (rows, n, None)"
| "reserve_plans env d (plan # plans) rows n =
     (case reserveSchedulerObligation (pe_fresh env n) (job_identity.truncate d) plan rows of
        Inl e \<Rightarrow> (rows, n, Some (Obligation_failed e))
      | Inr (obligation, rows1) \<Rightarrow>
          (let rows2 = (case op_terminalStatus plan of
                 None \<Rightarrow> rows1
               | Some status \<Rightarrow> fst (markSchedulerObligationIrrecoverable (pe_closeAt env)
                   (so_obligationId obligation) (Some status) (op_evidence plan) rows1))
           in reserve_plans env d plans rows2 (n + 1)))"

fun reserve_definitions ::
  "pass_env \<Rightarrow> job_definition list \<Rightarrow> obligation list \<Rightarrow> nat \<Rightarrow> obligation list \<times> nat \<times> scheduler_failure option" where
  "reserve_definitions env [] rows n = (rows, n, None)"
| "reserve_definitions env (d # ds) rows n =
     (case jd_resolve d (pe_answers env) (pass_context env) of
        Inl e \<Rightarrow> (rows, n, Some e)
      | Inr plans \<Rightarrow>
          (case reserve_plans env d plans rows n of
             (rows1, n1, Some e) \<Rightarrow> (rows1, n1, Some e)
           | (rows1, n1, None) \<Rightarrow> reserve_definitions env ds rows1 n1))"

definition definitionByName :: "string \<Rightarrow> job_definition option" where
  "definitionByName name = List.find (\<lambda>d. jd_name d = name) schedulerRegistry"

definition plan_of_obligation :: "obligation \<Rightarrow> obligation_plan" where
  "plan_of_obligation ob =
     \<lparr>op_scopeKey = so_scopeKey ob, op_periodKey = so_periodKey ob, op_dueAt = Some (so_dueAt ob),
      op_source = so_source ob,
      op_eventId = (case js_get (so_evidence ob) ''targetEventId'' of Some (JInt i) \<Rightarrow> Some i | _ \<Rightarrow> None),
      op_terminalStatus = None, op_evidence = Some (so_evidence ob)\<rparr>"

text \<open>What the queue answers for a claimed obligation, or why it was never asked.\<close>

definition submission :: "pass_env \<Rightarrow> obligation \<Rightarrow> (string, queue_receipt) result" where
  "submission env ob =
     (case definitionByName (so_jobName ob) of
        None \<Rightarrow> Inl (''Unknown scheduled job definition: '' @ so_jobName ob)
      | Some d \<Rightarrow>
          (case jd_enqueue d (pe_submit env) (pass_context env) (plan_of_obligation ob) (so_obligationId ob)
              (so_generation ob) of
             Inl e \<Rightarrow> Inl (failure_text e)
           | Inr receipt \<Rightarrow> Inr receipt))"

definition dispatch_obligation :: "pass_env \<Rightarrow> obligation \<Rightarrow> obligation list \<Rightarrow> obligation list \<times> bool" where
  "dispatch_obligation env ob rows =
     (let give_up = (\<lambda>message rows. (fst (failSchedulerObligation (pe_failAt env) (so_obligationId ob)
            (Some (pe_owner env)) None message None rows), False)) in
      case submission env ob of
        Inl message \<Rightarrow> give_up message rows
      | Inr (job, run) \<Rightarrow>
          (case confirmSchedulerObligationEnqueued (so_obligationId ob) (pe_owner env) job run rows of
             (rows1, True) \<Rightarrow> (rows1, True)
           | (rows1, False) \<Rightarrow> give_up ''Scheduler enqueue confirmation lost its obligation lease'' rows1))"

fun dispatch_claimed :: "pass_env \<Rightarrow> obligation list \<Rightarrow> obligation list \<Rightarrow> nat \<Rightarrow> nat \<Rightarrow> obligation list \<times> nat \<times> nat" where
  "dispatch_claimed env [] rows enqueued failed = (rows, enqueued, failed)"
| "dispatch_claimed env (ob # obs) rows enqueued failed =
     (case dispatch_obligation env ob rows of
        (rows1, True) \<Rightarrow> dispatch_claimed env obs rows1 (enqueued + 1) failed
      | (rows1, False) \<Rightarrow> dispatch_claimed env obs rows1 enqueued (failed + 1))"

definition runSchedulerPass ::
  "pass_env \<Rightarrow> obligation list \<Rightarrow> (scheduler_failure, pass_result) result \<times> obligation list" where
  "runSchedulerPass env rows =
     (case reserve_definitions env schedulerRegistry rows 0 of
        (rows1, n, Some e) \<Rightarrow> (Inl e, rows1)
      | (rows1, n, None) \<Rightarrow>
          (case claimSchedulerObligations (pe_owner env) (pe_locked env) (pe_claimAt env) None None (pe_leaseEnv env) rows1 of
             Inl e \<Rightarrow> (Inl (Obligation_failed e), rows1)
           | Inr (claimed, rows2) \<Rightarrow>
               (let (rows3, enqueued, failed) = dispatch_claimed env claimed rows2 0 0 in
                (Inr \<lparr>sp_definitions = length schedulerRegistry, sp_reserved = n, sp_claimed = length claimed,
                   sp_enqueued = enqueued, sp_failed = failed\<rparr>, rows3))))"

section \<open>A pass is a run of calls\<close>

text \<open>The identifiers a pass draws are new, and new among themselves.\<close>

definition pass_fresh :: "pass_env \<Rightarrow> scheduler_state \<Rightarrow> bool" where
  "pass_fresh env s \<longleftrightarrow> inj (pe_fresh env) \<and> range (pe_fresh env) \<inter> so_obligationId ` set (sr_rows s) = {} \<and>
     pe_owner env \<notin> (snd \<circ> snd) ` set (sr_handed s) \<and> pe_owner env \<noteq> []"

abbreviation with_rows :: "scheduler_state \<Rightarrow> obligation list \<Rightarrow> scheduler_state" where
  "with_rows s rows \<equiv> s\<lparr>sr_rows := rows\<rparr>"

definition unused_from :: "pass_env \<Rightarrow> nat \<Rightarrow> obligation list \<Rightarrow> bool" where
  "unused_from env n rows \<longleftrightarrow> (\<forall>k \<ge> n. pe_fresh env k \<notin> so_obligationId ` set rows)"

definition close_planned :: "pass_env \<Rightarrow> obligation_plan \<Rightarrow> obligation \<Rightarrow> obligation list \<Rightarrow> obligation list" where
  "close_planned env plan ob rows =
     (case op_terminalStatus plan of
        None \<Rightarrow> rows
      | Some status \<Rightarrow> fst (markSchedulerObligationIrrecoverable (pe_closeAt env) (so_obligationId ob) (Some status)
          (op_evidence plan) rows))"

lemma reserve_plans_Cons:
  assumes "reserveSchedulerObligation (pe_fresh env n) (job_identity.truncate d) plan rows = Inr (ob, rows1)"
  shows "reserve_plans env d (plan # plans) rows n = reserve_plans env d plans (close_planned env plan ob rows1) (n + 1)"
  by (simp add: assms close_planned_def)

lemma ids_close_planned: "so_obligationId ` set (close_planned env plan ob rows) = so_obligationId ` set rows"
  by (auto simp: close_planned_def markSchedulerObligationIrrecoverable_def update_one_def close_row_def
      update_where_ids split: option.split)

text \<open>
  The reservations of a pass only add rows and close rows that were waiting.
\<close>

definition settles :: "obligation list \<Rightarrow> obligation list \<Rightarrow> bool" where
  "settles rows rows' \<longleftrightarrow> (\<forall>row \<in> set rows. \<exists>row' \<in> set rows'. identity_of row' = identity_of row \<and>
     (row' = row \<or> so_status row \<in> {Ob_pending, Ob_failed} \<and> terminal (so_status row')))"

lemma settles_subset: "set rows \<subseteq> set rows' \<Longrightarrow> settles rows rows'"
  by (auto simp: settles_def)

lemma settles_trans:
  assumes "settles a b" "settles b c"
  shows "settles a c"
  unfolding settles_def
proof
  fix row assume "row \<in> set a"
  with assms(1) obtain row' where row': "row' \<in> set b" "identity_of row' = identity_of row"
    "row' = row \<or> so_status row \<in> {Ob_pending, Ob_failed} \<and> terminal (so_status row')" by (auto simp: settles_def)
  with assms(2) obtain row'' where "row'' \<in> set c" "identity_of row'' = identity_of row'"
    "row'' = row' \<or> so_status row' \<in> {Ob_pending, Ob_failed} \<and> terminal (so_status row'')" by (auto simp: settles_def)
  with row' show "\<exists>row' \<in> set c. identity_of row' = identity_of row \<and>
      (row' = row \<or> so_status row \<in> {Ob_pending, Ob_failed} \<and> terminal (so_status row'))"
    by (intro bexI [of _ row'']) (auto simp: terminal_def)
qed

lemma settles_mark:
  assumes "terminal status"
  shows "settles rows (fst (markSchedulerObligationIrrecoverable now i (Some status) e rows))"
  unfolding settles_def
proof
  fix row assume row: "row \<in> set rows"
  let ?row' = "if by_id i row \<and> so_status row \<in> {Ob_pending, Ob_failed} then close_row now status e row else row"
  have "?row' \<in> set (fst (markSchedulerObligationIrrecoverable now i (Some status) e rows))"
    using row by (auto simp: markSchedulerObligationIrrecoverable_def update_one_def update_where_iff)
  then show "\<exists>row' \<in> set (fst (markSchedulerObligationIrrecoverable now i (Some status) e rows)).
      identity_of row' = identity_of row \<and> (row' = row \<or> so_status row \<in> {Ob_pending, Ob_failed} \<and> terminal (so_status row'))"
    using assms by (intro bexI [of _ ?row']) (auto simp: identity_of_def close_row_def)
qed

definition plan_ok :: "obligation_plan \<Rightarrow> bool" where
  "plan_ok plan \<longleftrightarrow> op_terminalStatus plan \<in> {None, Some Ob_irrecoverable}"

definition planned :: "job_definition \<Rightarrow> obligation_plan \<Rightarrow> obligation list \<Rightarrow> bool" where
  "planned d plan rows \<longleftrightarrow> (\<exists>row \<in> set rows. identity_of row = (jd_name d, op_scopeKey plan, op_periodKey plan) \<and>
     (op_terminalStatus plan \<noteq> None \<longrightarrow> in_flight (so_status row) \<or> terminal (so_status row)))"

lemma planned_settles: "planned d plan rows \<Longrightarrow> settles rows rows' \<Longrightarrow> planned d plan rows'"
  unfolding planned_def settles_def by (metis (no_types, lifting))

lemma status_cases: "st \<in> {Ob_pending, Ob_failed} \<or> in_flight st \<or> terminal st"
  by (cases st) (simp_all add: in_flight_def terminal_def)

lemma reserve_one:
  assumes "reserveSchedulerObligation (pe_fresh env n) (job_identity.truncate d) plan (sr_rows s) = Inr (ob, rows1)"
    and "unused_from env n (sr_rows s)" "inj (pe_fresh env)" "plan_ok plan"
  defines "rows2 \<equiv> close_planned env plan ob rows1"
  shows "scheduler_step\<^sup>*\<^sup>* s (with_rows s rows2)" "unused_from env (n + 1) rows2" "settles (sr_rows s) rows2"
    "planned d plan rows2"
proof -
  have fresh: "pe_fresh env n \<notin> so_obligationId ` set (sr_rows s)" using assms(2) by (simp add: unused_from_def)
  note result = reserve_result [OF assms(1)]
  have d: "jd_name (job_identity.truncate d) = jd_name d" by (simp add: job_identity.truncate_def)
  have step1: "scheduler_step s (with_rows s rows1)" by (rule scheduler_step.reserve [OF assms(1) fresh])
  have step2: "scheduler_step\<^sup>*\<^sup>* (with_rows s rows1) (with_rows s rows2)"
  proof (cases "op_terminalStatus plan")
    case (Some status)
    then have "status = Ob_irrecoverable" using assms(4) by (simp add: plan_ok_def)
    then show ?thesis using Some scheduler_step.mark [of "Some status" "with_rows s rows1"]
      by (simp add: rows2_def close_planned_def r_into_rtranclp)
  qed (simp add: rows2_def close_planned_def)
  show "scheduler_step\<^sup>*\<^sup>* s (with_rows s rows2)" using step1 step2 by (rule converse_rtranclp_into_rtranclp)
  have "so_obligationId ` set rows1 \<subseteq> insert (pe_fresh env n) (so_obligationId ` set (sr_rows s))"
    using result by auto
  moreover have "pe_fresh env k \<noteq> pe_fresh env n" if "n + 1 \<le> k" for k using assms(3) that by (auto dest: injD)
  ultimately show "unused_from env (n + 1) rows2"
    using assms(2) unfolding rows2_def unused_from_def ids_close_planned
    by (metis add_leD1 insertE subsetD)
  have settle: "settles rows1 rows2"
    using assms(4) by (auto simp: rows2_def close_planned_def plan_ok_def terminal_def settles_subset
        split: option.split intro!: settles_mark)
  moreover have "settles (sr_rows s) rows1" using result by (auto intro!: settles_subset)
  ultimately show "settles (sr_rows s) rows2" by (blast intro: settles_trans)
  have ob: "ob \<in> set rows1" "identity_of ob = (jd_name d, op_scopeKey plan, op_periodKey plan)"
    using result by (auto simp: d identity_of_def has_identity_def new_obligation_def)
  show "planned d plan rows2"
  proof (cases "op_terminalStatus plan")
    case None
    then show ?thesis using ob by (auto simp: planned_def rows2_def close_planned_def)
  next
    case (Some status)
    let ?row = "if so_status ob \<in> {Ob_pending, Ob_failed} then close_row (pe_closeAt env) status (op_evidence plan) ob else ob"
    have "?row \<in> set rows2"
      using ob(1) Some by (auto simp: rows2_def close_planned_def markSchedulerObligationIrrecoverable_def
          update_one_def update_where_iff by_id_def)
    moreover have "identity_of ?row = identity_of ob" by (simp add: identity_of_def close_row_def)
    moreover have "in_flight (so_status ?row) \<or> terminal (so_status ?row)"
      using Some assms(4) by (cases "so_status ob") (simp_all add: plan_ok_def close_row_def terminal_def in_flight_def)
    ultimately show ?thesis using ob(2) unfolding planned_def by (intro bexI [of _ ?row]) simp_all
  qed
qed

lemma reserve_plans_run:
  assumes "reserve_plans env d plans (sr_rows s) n = (rows', n', failure)"
    and "unused_from env n (sr_rows s)" "inj (pe_fresh env)" "\<And>plan. plan \<in> set plans \<Longrightarrow> plan_ok plan"
  shows "scheduler_step\<^sup>*\<^sup>* s (with_rows s rows') \<and> unused_from env n' rows' \<and> settles (sr_rows s) rows' \<and>
    (failure = None \<longrightarrow> (\<forall>plan \<in> set plans. planned d plan rows'))"
  using assms
proof (induction plans arbitrary: s n)
  case Nil
  then show ?case by (auto intro: settles_subset)
next
  case (Cons plan plans)
  show ?case
  proof (cases "reserveSchedulerObligation (pe_fresh env n) (job_identity.truncate d) plan (sr_rows s)")
    case (Inl e)
    then show ?thesis using Cons.prems by (auto intro: settles_subset)
  next
    case (Inr p)
    then obtain ob rows1 where r: "reserveSchedulerObligation (pe_fresh env n) (job_identity.truncate d) plan (sr_rows s) = Inr (ob, rows1)"
      by (cases p) auto
    let ?rows2 = "close_planned env plan ob rows1"
    have "plan_ok plan" using Cons.prems(4) by simp
    note one = reserve_one [OF r Cons.prems(2,3) this]
    have rest: "reserve_plans env d plans (sr_rows (with_rows s ?rows2)) (n + 1) = (rows', n', failure)"
      using Cons.prems(1) unfolding reserve_plans_Cons [OF r] by simp
    have "scheduler_step\<^sup>*\<^sup>* (with_rows s ?rows2) (with_rows s rows') \<and> unused_from env n' rows' \<and> settles ?rows2 rows' \<and>
        (failure = None \<longrightarrow> (\<forall>plan \<in> set plans. planned d plan rows'))"
      using Cons.IH [OF rest _ Cons.prems(3)] one(2) Cons.prems(4) by simp
    then show ?thesis using one by (auto intro: settles_trans planned_settles rtranclp_trans)
  qed
qed

definition plans_ok :: "pass_env \<Rightarrow> job_definition list \<Rightarrow> bool" where
  "plans_ok env ds \<longleftrightarrow> (\<forall>d \<in> set ds. \<forall>plans. jd_resolve d (pe_answers env) (pass_context env) = Inr plans \<longrightarrow>
     (\<forall>plan \<in> set plans. plan_ok plan))"

lemma reserve_definitions_run:
  assumes "reserve_definitions env ds (sr_rows s) n = (rows', n', failure)"
    and "unused_from env n (sr_rows s)" "inj (pe_fresh env)"
    and "plans_ok env ds"
  shows "scheduler_step\<^sup>*\<^sup>* s (with_rows s rows') \<and> settles (sr_rows s) rows' \<and>
    (failure = None \<longrightarrow> (\<forall>d \<in> set ds. \<exists>plans. jd_resolve d (pe_answers env) (pass_context env) = Inr plans \<and>
       (\<forall>plan \<in> set plans. planned d plan rows')))"
  using assms
proof (induction ds arbitrary: s n)
  case Nil
  then show ?case by (auto intro: settles_subset)
next
  case (Cons d ds)
  show ?case
  proof (cases "jd_resolve d (pe_answers env) (pass_context env)")
    case (Inl e)
    then show ?thesis using Cons.prems by (auto intro: settles_subset)
  next
    case (Inr plans)
    obtain rows1 n1 failure1 where p: "reserve_plans env d plans (sr_rows s) n = (rows1, n1, failure1)"
      by (metis prod_cases3)
    have ok: "plan_ok plan" if "plan \<in> set plans" for plan using Cons.prems(4) Inr that by (simp add: plans_ok_def)
    note one = reserve_plans_run [OF p Cons.prems(2,3) ok]
    show ?thesis
    proof (cases failure1)
      case (Some e)
      then have "failure = Some e" "rows' = rows1" using Cons.prems(1) by (simp_all add: Inr p)
      then show ?thesis using one by simp
    next
      case None
      then have rest: "reserve_definitions env ds (sr_rows (with_rows s rows1)) n1 = (rows', n', failure)"
        using Cons.prems(1) by (simp add: Inr p)
      have ok_rest: "plans_ok env ds" using Cons.prems(4) by (simp add: plans_ok_def)
      have tail: "scheduler_step\<^sup>*\<^sup>* (with_rows s rows1) (with_rows s rows') \<and> settles rows1 rows' \<and>
          (failure = None \<longrightarrow> (\<forall>d \<in> set ds. \<exists>plans. jd_resolve d (pe_answers env) (pass_context env) = Inr plans \<and>
             (\<forall>plan \<in> set plans. planned d plan rows')))"
        using Cons.IH [OF rest _ Cons.prems(3) ok_rest] one by simp
      have head: "\<forall>plan \<in> set plans. planned d plan rows'" using one None tail planned_settles by blast
      show ?thesis using tail head one Inr by (auto intro: settles_trans rtranclp_trans)
    qed
  qed
qed

section \<open>Dispatching\<close>

definition dispatched :: "pass_env \<Rightarrow> obligation \<Rightarrow> obligation" where
  "dispatched env ob =
     (case submission env ob of
        Inl message \<Rightarrow> failed_row (pe_failAt env) message 60000 ob
      | Inr (job, run) \<Rightarrow> ob\<lparr>so_status := Ob_running,
          so_bullJobId := (case job of None \<Rightarrow> so_bullJobId ob | Some b \<Rightarrow> Some b),
          so_runId := (case run of None \<Rightarrow> so_runId ob | Some r \<Rightarrow> Some r)\<rparr>)"

definition held_by :: "string \<Rightarrow> obligation \<Rightarrow> bool" where
  "held_by owner ob \<longleftrightarrow> so_status ob = Ob_enqueued \<and> so_leaseOwner ob = Some owner"

definition replace_row :: "obligation \<Rightarrow> obligation list \<Rightarrow> obligation list" where
  "replace_row row' = update_where (by_id (so_obligationId row')) (\<lambda>_. row')"

lemma only_row:
  assumes "distinct (map so_obligationId rows)" "ob \<in> set rows" "hit ob"
    and "\<And>row. hit row \<Longrightarrow> so_obligationId row = so_obligationId ob"
    and "so_obligationId (f ob) = so_obligationId ob"
  shows "update_one hit f rows = (replace_row (f ob) rows, True)"
proof -
  have same: "row = ob" if "row \<in> set rows" "so_obligationId row = so_obligationId ob" for row
    using assms(1,2) that by (meson distinct_map inj_onD)
  have hit: "hit row \<longleftrightarrow> so_obligationId row = so_obligationId ob" if "row \<in> set rows" for row
    using same [OF that] assms(3,4) by blast
  then have "filter hit rows = filter (\<lambda>row. so_obligationId row = so_obligationId ob) rows"
    by (intro filter_cong) simp_all
  also have "\<dots> = [ob]" by (rule filter_by_key [OF assms(1,2)])
  finally have "filter hit rows = [ob]" .
  moreover have "update_where hit f rows = replace_row (f ob) rows"
    unfolding update_where_def replace_row_def by_id_def assms(5)
    by (rule map_cong [OF refl]) (use hit same in metis)
  ultimately show ?thesis by (simp add: update_one_def)
qed

lemma dispatched_id [simp]: "so_obligationId (dispatched env ob) = so_obligationId ob"
  by (simp add: dispatched_def failed_row_def split: sum.split prod.split)

lemma dispatch_obligation_result:
  assumes "distinct (map so_obligationId rows)" "ob \<in> set rows" "held_by (pe_owner env) ob"
  shows "dispatch_obligation env ob rows = (replace_row (dispatched env ob) rows, \<exists>receipt. submission env ob = Inr receipt)"
proof (cases "submission env ob")
  case (Inl message)
  have delay: "max 0 60000 = (60000 :: int)" by simp
  have "failSchedulerObligation (pe_failAt env) (so_obligationId ob) (Some (pe_owner env)) None message None rows =
      (replace_row (failed_row (pe_failAt env) message 60000 ob) rows, True)"
    unfolding failSchedulerObligation_def coalesce_simps delay
    by (rule only_row [OF assms(1,2)])
      (use assms(3) in \<open>simp_all add: held_by_def by_id_def given_owner_def given_def in_flight_def failed_row_def\<close>)
  then show ?thesis by (simp add: dispatch_obligation_def Let_def Inl dispatched_def)
next
  case (Inr receipt)
  obtain job run where receipt: "receipt = (job, run)" by (cases receipt)
  have "confirmSchedulerObligationEnqueued (so_obligationId ob) (pe_owner env) job run rows =
      (replace_row (dispatched env ob) rows, True)"
    unfolding confirmSchedulerObligationEnqueued_def
    by (subst only_row [OF assms(1,2)]) (use assms(3) in \<open>simp_all add: held_by_def by_id_def dispatched_def Inr receipt\<close>)
  then show ?thesis by (simp add: dispatch_obligation_def Let_def Inr receipt)
qed

lemma submission_step:
  "dispatch_obligation env ob (sr_rows s) = (rows', ok) \<Longrightarrow> scheduler_step\<^sup>*\<^sup>* s (with_rows s rows')"
proof -
  have confirm: "scheduler_step s (with_rows s (fst (confirmSchedulerObligationEnqueued i w job run (sr_rows s))))" for i w job run
    by (rule scheduler_step.confirm)
  have fail: "scheduler_step s (with_rows s (fst (failSchedulerObligation now i w g message delay (sr_rows s))))"
    for s now i w g message delay
    by (rule scheduler_step.fail)
  assume d: "dispatch_obligation env ob (sr_rows s) = (rows', ok)"
  show ?thesis
  proof (cases "submission env ob")
    case (Inl message)
    then show ?thesis using d fail by (auto simp: dispatch_obligation_def Let_def)
  next
    case (Inr receipt)
    obtain job run where receipt: "receipt = (job, run)" by (cases receipt)
    obtain rows1 done1 where c: "confirmSchedulerObligationEnqueued (so_obligationId ob) (pe_owner env) job run (sr_rows s) = (rows1, done1)"
      by (metis surj_pair)
    then have first: "scheduler_step s (with_rows s rows1)" using confirm by (metis fst_conv)
    show ?thesis
    proof (cases done1)
      case True
      then show ?thesis using d first by (auto simp: dispatch_obligation_def Let_def Inr receipt c)
    next
      case False
      then have "scheduler_step (with_rows s rows1) (with_rows s rows')"
        using d fail [of "with_rows s rows1"] by (auto simp: dispatch_obligation_def Let_def Inr receipt c)
      with first show ?thesis by (meson converse_rtranclp_into_rtranclp r_into_rtranclp)
    qed
  qed
qed

lemma in_replace_row: "row \<in> set rows \<Longrightarrow> so_obligationId row \<noteq> so_obligationId row' \<Longrightarrow> row \<in> set (replace_row row' rows)"
  by (force simp: replace_row_def update_where_iff by_id_def)

lemma replaced_in: "ob \<in> set rows \<Longrightarrow> so_obligationId row' = so_obligationId ob \<Longrightarrow> row' \<in> set (replace_row row' rows)"
  by (force simp: replace_row_def update_where_iff by_id_def)

lemma replace_row_ids: "map so_obligationId (replace_row row' rows) = map so_obligationId rows"
  by (simp add: replace_row_def update_where_def by_id_def)

definition accepted :: "pass_env \<Rightarrow> obligation \<Rightarrow> bool" where
  "accepted env ob \<longleftrightarrow> (\<exists>receipt. submission env ob = Inr receipt)"

lemma dispatch_claimed_result:
  assumes "dispatch_claimed env obs (sr_rows s) enqueued failed = (rows', enqueued', failed')"
    and "distinct (map so_obligationId (sr_rows s))" "distinct (map so_obligationId obs)"
    and "\<And>ob. ob \<in> set obs \<Longrightarrow> ob \<in> set (sr_rows s) \<and> held_by (pe_owner env) ob"
  shows "scheduler_step\<^sup>*\<^sup>* s (with_rows s rows') \<and> dispatched env ` set obs \<subseteq> set rows' \<and>
    (\<forall>row \<in> set (sr_rows s). so_obligationId row \<notin> so_obligationId ` set obs \<longrightarrow> row \<in> set rows') \<and>
    enqueued' = enqueued + length (filter (accepted env) obs) \<and>
    failed' = failed + length (filter (\<lambda>ob. \<not> accepted env ob) obs)"
  using assms
proof (induction obs arbitrary: s enqueued failed)
  case Nil
  then show ?case by auto
next
  case (Cons ob obs)
  let ?rows1 = "replace_row (dispatched env ob) (sr_rows s)"
  have ob: "ob \<in> set (sr_rows s)" "held_by (pe_owner env) ob" using Cons.prems(4) by auto
  have one: "dispatch_obligation env ob (sr_rows s) = (?rows1, accepted env ob)"
    unfolding accepted_def by (rule dispatch_obligation_result [OF Cons.prems(2) ob])
  have step: "scheduler_step\<^sup>*\<^sup>* s (with_rows s ?rows1)" by (rule submission_step [OF one])
  have rest: "dispatch_claimed env obs (sr_rows (with_rows s ?rows1)) (if accepted env ob then enqueued + 1 else enqueued)
      (if accepted env ob then failed else failed + 1) = (rows', enqueued', failed')"
    using Cons.prems(1) by (cases "accepted env ob") (simp_all add: one)
  have ids: "distinct (map so_obligationId (sr_rows (with_rows s ?rows1)))"
    using Cons.prems(2) by (simp add: replace_row_ids)
  have later: "ob' \<in> set (sr_rows (with_rows s ?rows1)) \<and> held_by (pe_owner env) ob'" if "ob' \<in> set obs" for ob'
  proof -
    have "so_obligationId ob' \<noteq> so_obligationId (dispatched env ob)" using Cons.prems(3) that by (force simp: image_iff)
    then show ?thesis using Cons.prems(4) [of ob'] that in_replace_row by simp
  qed
  have IH: "scheduler_step\<^sup>*\<^sup>* (with_rows s ?rows1) (with_rows s rows') \<and> dispatched env ` set obs \<subseteq> set rows' \<and>
      (\<forall>row \<in> set ?rows1. so_obligationId row \<notin> so_obligationId ` set obs \<longrightarrow> row \<in> set rows') \<and>
      enqueued' = (if accepted env ob then enqueued + 1 else enqueued) + length (filter (accepted env) obs) \<and>
      failed' = (if accepted env ob then failed else failed + 1) + length (filter (\<lambda>ob. \<not> accepted env ob) obs)"
    using Cons.IH [OF rest ids _ later] Cons.prems(3) by simp
  have "dispatched env ob \<in> set ?rows1" by (rule replaced_in [OF ob(1)]) simp
  then have mine: "dispatched env ob \<in> set rows'" using IH Cons.prems(3) by simp
  have others: "\<forall>row \<in> set (sr_rows s). so_obligationId row \<notin> so_obligationId ` set (ob # obs) \<longrightarrow> row \<in> set rows'"
    using IH in_replace_row [of _ "sr_rows s" "dispatched env ob"] by simp
  have "scheduler_step\<^sup>*\<^sup>* s (with_rows s rows')" using step IH by (blast intro: rtranclp_trans)
  with IH mine others show ?case by simp
qed

section \<open>The plans of the catalog\<close>

lemma resolved_plan_ok:
  "daily_resolve h m policy answers context = Inr plans \<Longrightarrow> plan \<in> set plans \<Longrightarrow> plan_ok plan"
  "event_resolve allDue answers context = Inr plans \<Longrightarrow> plan \<in> set plans \<Longrightarrow> plan_ok plan"
  "periodic_resolve p off answers context = Inr plans \<Longrightarrow> plan \<in> set plans \<Longrightarrow> plan_ok plan"
  by (auto simp: daily_resolve_def event_resolve_def periodic_resolve_def after_deadline_def Let_def plan_ok_def
      plan_at_def event_plan_def split: if_splits option.splits)

lemma with_current_event_ok:
  assumes "with_current_event answers context f = Inr plans" "plan \<in> set plans"
    and "\<And>event fixtures plans. f event fixtures = Inr plans \<Longrightarrow> plan \<in> set plans \<Longrightarrow> plan_ok plan"
  shows "plan_ok plan"
  using assms by (auto simp: with_current_event_def res_bind_Inr_iff split: if_splits option.splits)

lemma event_plan_ok: "plan_ok (event_plan context i period due src e)"
  by (simp add: plan_ok_def event_plan_def plan_at_def)

lemma current_event_plan_ok:
  "post_match_resolve answers context = Inr plans \<Longrightarrow> plan \<in> set plans \<Longrightarrow> plan_ok plan"
  "live_snapshot_resolve answers context = Inr plans \<Longrightarrow> plan \<in> set plans \<Longrightarrow> plan_ok plan"
  "live_finalization_resolve answers context = Inr plans \<Longrightarrow> plan \<in> set plans \<Longrightarrow> plan_ok plan"
  "active_player_stats_resolve answers context = Inr plans \<Longrightarrow> plan \<in> set plans \<Longrightarrow> plan_ok plan"
  unfolding post_match_resolve_def live_snapshot_resolve_def live_finalization_resolve_def active_player_stats_resolve_def
  by (auto simp: Let_def event_plan_ok split: if_splits option.splits elim!: with_current_event_ok)

lemma core_lifecycle_plan_ok: "core_lifecycle_resolve answers context = Inr plans \<Longrightarrow> plan \<in> set plans \<Longrightarrow> plan_ok plan"
  unfolding core_lifecycle_resolve_def
  by (erule with_current_event_ok, assumption)
    (auto simp: Let_def res_bind_Inr_iff plan_ok_def plan_at_def split: option.splits)

lemma res_map_concat:
  assumes "res_bind (res_map f xs) (\<lambda>yss. Inr (concat yss)) = Inr ys" "y \<in> set ys"
  obtains x zs where "x \<in> set xs" "f x = Inr zs" "y \<in> set zs"
proof -
  obtain yss where yss: "list_all2 (\<lambda>x ys. f x = Inr ys) xs yss" "ys = concat yss"
    using assms(1) by (auto simp: res_bind_Inr_iff res_map_Inr_iff)
  then obtain zs where zs: "zs \<in> set yss" "y \<in> set zs" using assms(2) by auto
  then obtain i where "i < length yss" "zs = yss ! i" by (metis in_set_conv_nth)
  with yss(1) have "xs ! i \<in> set xs" "f (xs ! i) = Inr zs" by (simp_all add: list_all2_conv_all_nth)
  with zs(2) show ?thesis using that by blast
qed

lemma res_bindE:
  assumes "res_bind m f = Inr y"
  obtains x where "m = Inr x" "f x = Inr y"
  using assms by (auto simp: res_bind_Inr_iff)

lemma my_fpl_plan_ok:
  "my_fpl_snapshot_plan answers context dueAt dateKey e = Inr plans \<Longrightarrow> plan \<in> set plans \<Longrightarrow> plan_ok plan"
  "my_fpl_final_plan answers context e = Inr plans \<Longrightarrow> plan \<in> set plans \<Longrightarrow> plan_ok plan"
  unfolding my_fpl_snapshot_plan_def my_fpl_final_plan_def
  by (auto simp: event_plan_ok split: if_splits option.splits elim!: res_bindE)

lemma my_fpl_resolve_ok:
  "my_fpl_snapshot_resolve answers context = Inr plans \<Longrightarrow> plan \<in> set plans \<Longrightarrow> plan_ok plan"
  "my_fpl_final_resolve answers context = Inr plans \<Longrightarrow> plan \<in> set plans \<Longrightarrow> plan_ok plan"
  by (auto simp: my_fpl_snapshot_resolve_def my_fpl_final_resolve_def Let_def split: if_splits
      elim!: res_map_concat intro: my_fpl_plan_ok)

lemma registry_plans_ok: "plans_ok env schedulerRegistry"
  unfolding plans_ok_def catalog_simps list.set ball_simps
  by (intro conjI allI impI ballI TrueI)
    (auto dest: resolved_plan_ok current_event_plan_ok core_lifecycle_plan_ok my_fpl_resolve_ok)

text \<open>The names of the entries differ, so the entry an obligation came from is the one that enqueues it.\<close>

lemma registry_names_distinct: "distinct (map jd_name schedulerRegistry)"
  by (simp add: catalog_simps)

section \<open>Which obligations a claim takes\<close>

lemma comparator_due: "comparator due_order"
proof -
  have eq: "due_order = (\<lambda>a b. if so_dueAt a - so_dueAt b \<noteq> 0 then so_dueAt a - so_dueAt b
      else code_unit_cmp (so_obligationId a) (so_obligationId b))"
    by (simp add: due_order_def Let_def fun_eq_iff)
  show ?thesis unfolding eq
    by (rule comparator_then [OF comparator_key comparator_on [OF code_units.comparator_axioms]])
qed

interpretation due: comparator due_order
  by (rule comparator_due)

lemma beyond_take: "x \<in> set xs \<Longrightarrow> x \<notin> set (take n xs) \<Longrightarrow> x \<in> set (drop n xs)"
  by (metis UnE append_take_drop_id set_append)

lemma claim_takes_the_oldest:
  assumes "row \<in> set rows" "claimable_obligation now row" "so_obligationId row \<notin> locked" "0 \<le> limit"
    and "row \<notin> set (claim_candidates locked now limit rows)"
  shows "length (claim_candidates locked now limit rows) = nat limit \<and>
    (\<forall>c \<in> set (claim_candidates locked now limit rows). so_dueAt c \<le> so_dueAt row)"
proof -
  let ?all = "js_sort due_order (filter (\<lambda>row. claimable_obligation now row \<and> so_obligationId row \<notin> locked) rows)"
  have mem: "row \<in> set ?all" using assms(1-3) by simp
  have cut: "row \<in> set (drop (nat limit) ?all)"
    using assms(5) unfolding claim_candidates_def by (rule beyond_take [OF mem])
  have len: "nat limit < length ?all"
  proof (rule ccontr)
    assume "\<not> nat limit < length ?all"
    then have "drop (nat limit) ?all = []" by (intro drop_all) simp
    with cut show False by simp
  qed
  have "sorted_wrt (\<lambda>x y. due_order x y \<le> 0) (take (nat limit) ?all @ drop (nat limit) ?all)"
    by (simp only: append_take_drop_id due.sorted_js_sort)
  then have "\<forall>c \<in> set (take (nat limit) ?all). due_order c row \<le> 0"
    using cut unfolding sorted_wrt_append by blast
  moreover have "so_dueAt c \<le> so_dueAt row" if "due_order c row \<le> 0" for c
    using that by (cases "so_dueAt c = so_dueAt row") (simp_all add: due_order_def Let_def)
  ultimately have "\<forall>c \<in> set (take (nat limit) ?all). so_dueAt c \<le> so_dueAt row" by blast
  moreover have "length (take (nat limit) ?all) = nat limit" using len unfolding length_take by linarith
  ultimately show ?thesis unfolding claim_candidates_def by (rule conjI [rotated])
qed

section \<open>One job per claim\<close>

lemma show_int_digits: "0 \<le> g \<Longrightarrow> list_all is_digit_char (show_int g)"
  by (simp add: show_int_def show_nat_all_digits)

lemma scheduler_job_id_inject:
  assumes "scheduler_job_id i g = scheduler_job_id i' g'" "0 \<le> g" "0 \<le> g'"
  shows "i = i' \<and> g = g'"
proof -
  have digits: "takeWhile is_digit_char (rev (show_int k) @ ''g-'' @ rest) = rev (show_int k)" if "0 \<le> k" for k rest
  proof -
    have "takeWhile is_digit_char (rev (show_int k) @ ''g-'' @ rest) =
        rev (show_int k) @ takeWhile is_digit_char (''g-'' @ rest)"
      using show_int_digits [OF that] by (intro takeWhile_append2) (simp add: list_all_iff)
    also have "takeWhile is_digit_char (''g-'' @ rest) = []" by (simp add: is_digit_char_def)
    finally show ?thesis by simp
  qed
  have "rev (show_int g) @ ''g-'' @ rev (''scheduler-'' @ i) = rev (show_int g') @ ''g-'' @ rev (''scheduler-'' @ i')"
    using arg_cong [OF assms(1), of rev] by (simp add: scheduler_job_id_def)
  then have "show_int g = show_int g'" using digits [OF assms(2)] digits [OF assms(3)] by (metis rev_rev_ident)
  then show ?thesis using assms(1) by (simp add: scheduler_job_id_def)
qed

lemma handed_generation:
  assumes "scheduler_inv s" "h \<in> set (sr_handed s)"
  shows "0 \<le> fst (snd h)"
proof -
  obtain i g w where h: "h = (i, g, w)" by (cases h)
  then obtain row where row: "row \<in> set (sr_rows s)" "so_obligationId row = i"
    using assms by (force simp: scheduler_inv_def)
  then show ?thesis using handout_generation(1) [OF assms(1) row(1), of g w] assms(2) h by simp
qed

lemma distinct_by_key:
  assumes "\<And>k. distinct (map g (filter (\<lambda>x. fst x = k) xs))"
  shows "distinct (map (\<lambda>x. (fst x, g x)) xs)"
  using assms
proof (induction xs)
  case (Cons x xs)
  have "distinct (map g (filter (\<lambda>x. fst x = k) xs))" for k
    using Cons.prems [of k] by (cases "fst x = k") simp_all
  moreover have "g x \<notin> g ` {y \<in> set xs. fst y = fst x}" using Cons.prems [of "fst x"] by simp
  ultimately show ?case using Cons.IH by (auto simp: image_iff)
qed simp

lemma handed_distinct:
  assumes "scheduler_inv s"
  shows "distinct (map (\<lambda>h. (fst h, fst (snd h))) (sr_handed s))"
proof (rule distinct_by_key)
  fix i
  show "distinct (map (\<lambda>h. fst (snd h)) (filter (\<lambda>h. fst h = i) (sr_handed s)))"
  proof (cases "i \<in> so_obligationId ` set (sr_rows s)")
    case True
    then obtain row where "row \<in> set (sr_rows s)" "so_obligationId row = i" by auto
    then have "map fst (handouts (sr_handed s) i) = map int [0..<length (handouts (sr_handed s) i)]"
      using row_facts_of [OF assms] by (auto simp: row_inv_def Let_def in_order_def)
    then have "distinct (map fst (handouts (sr_handed s) i))" by (simp add: distinct_map)
    then show ?thesis by (simp add: handouts_def comp_def)
  next
    case False
    then have "filter (\<lambda>h. fst h = i) (sr_handed s) = []"
      using assms by (auto simp: scheduler_inv_def filter_empty_conv)
    then show ?thesis by simp
  qed
qed

definition job_of_handout :: "handout \<Rightarrow> string" where
  "job_of_handout h = scheduler_job_id (fst h) (fst (snd h))"

lemma distinct_via:
  "distinct (map g xs) \<Longrightarrow> (\<And>x y. x \<in> set xs \<Longrightarrow> y \<in> set xs \<Longrightarrow> f x = f y \<Longrightarrow> g x = g y) \<Longrightarrow> distinct (map f xs)"
  unfolding distinct_map inj_on_def by blast

lemma handed_jobs_distinct:
  assumes "scheduler_inv s"
  shows "distinct (map job_of_handout (sr_handed s))"
proof (rule distinct_via [OF handed_distinct [OF assms]])
  fix h h' assume "h \<in> set (sr_handed s)" "h' \<in> set (sr_handed s)" "job_of_handout h = job_of_handout h'"
  then show "(fst h, fst (snd h)) = (fst h', fst (snd h'))"
    using scheduler_job_id_inject handed_generation [OF assms] unfolding job_of_handout_def by blast
qed

lemma state_eta: "(s :: scheduler_state)\<lparr>sr_rows := rows, sr_handed := handed\<rparr> = \<lparr>sr_rows = rows, sr_handed = handed\<rparr>"
  by (cases s) simp

section \<open>What a pass reaches\<close>

lemma run_pass_split:
  assumes "scheduler_inv s" "pass_fresh env s" "runSchedulerPass env (sr_rows s) = (Inr res, rows')"
  obtains reserved n claimed rows2 where
    "reserve_definitions env schedulerRegistry (sr_rows s) 0 = (reserved, n, None)"
    "claimSchedulerObligations (pe_owner env) (pe_locked env) (pe_claimAt env) None None (pe_leaseEnv env) reserved =
       Inr (claimed, rows2)"
    "dispatch_claimed env claimed rows2 0 0 = (rows', sp_enqueued res, sp_failed res)"
    "sp_claimed res = length claimed"
  using assms(3) by (auto simp: runSchedulerPass_def Let_def split: prod.splits option.splits sum.splits)


end
