(* ===== verification/SchedulerPlans.thy ===== *)
theory SchedulerPlans
  imports SchedulerPass
begin

text \<open>
  The daily plans of the catalog by the day they name, what makes a pass succeed, and concrete runs
  of the scheduler.
\<close>

section \<open>Daily plans\<close>

lemma utc8_day_of_due:
  assumes "0 \<le> h" "h < 24" "0 \<le> m" "m < 60"
  shows "utc8_day (MS_PER_DAY * d + (h * 60 + m) * 60000 - UTC8_OFFSET_MS) = d"
proof -
  have "(h * 60 + m) * 60000 < MS_PER_DAY" "0 \<le> (h * 60 + m) * 60000"
    using assms by (simp_all add: MS_PER_DAY_def)
  then show ?thesis
    using int_div_pos_eq [of "MS_PER_DAY * d + (h * 60 + m) * 60000" MS_PER_DAY d "(h * 60 + m) * 60000"]
    by (simp add: utc8_day_def)
qed

lemma utc8DueAt_day:
  "four_digit_year now \<Longrightarrow> utc8DueAt now h m = MS_PER_DAY * utc8_day now + (h * 60 + m) * 60000 - UTC8_OFFSET_MS"
  by (simp add: utc8DueAt_def day_of_key_format)

lemma due_days_ago: "utc8_day (t - k * 24 * 60 * 60000) = utc8_day t - k"
proof -
  have "t - k * 24 * 60 * 60000 + UTC8_OFFSET_MS = (t + UTC8_OFFSET_MS) + (- k) * MS_PER_DAY"
    by (simp add: MS_PER_DAY_def)
  then show ?thesis by (simp add: utc8_day_def MS_PER_DAY_def)
qed

lemma key_of_same_day: "utc8_day s = utc8_day t \<Longrightarrow> formatCronDateKey s = formatCronDateKey t"
  by (simp add: formatCronDateKey_def)

definition open_plans :: "obligation_plan list \<Rightarrow> obligation_plan list" where
  "open_plans = filter (\<lambda>p. op_terminalStatus p = None)"

definition closing_plans :: "obligation_plan list \<Rightarrow> obligation_plan list" where
  "closing_plans = filter (\<lambda>p. op_terminalStatus p \<noteq> None)"

text \<open>
  C37. The daily entries of the catalog: at any time the only obligation a daily entry opens is the one
  of the current day in UTC+8, from its time of day on; the market window besides closes exactly the
  31 days before, never the current one; every plan is due by now, on the day its period key names,
  and keys of different days differ.
\<close>

theorem daily_plans_of_the_day:
  assumes plans: "daily_resolve h m policy answers context = Inr plans"
    and time: "0 \<le> h" "h < 24" "0 \<le> m" "m < 60"
    and now: "32 * 86400000 \<le> sx_now context" "sx_now context \<le> 250000000000000"
  shows "map op_periodKey (open_plans plans) =
      (if utc8DueAt (sx_now context) h m \<le> sx_now context then [formatCronDateKey (sx_now context)] else []) \<and>
    map (day_of_key \<circ> op_periodKey) (closing_plans plans) =
      (if policy = Current_day_only then map (\<lambda>k. utc8_day (sx_now context) - k) [1..31] else []) \<and>
    (\<forall>plan \<in> set plans. \<exists>due. op_dueAt plan = Some due \<and> due \<le> sx_now context \<and>
       op_periodKey plan = formatCronDateKey due \<and> day_of_key (op_periodKey plan) = utc8_day due)"
proof -
  let ?now = "sx_now context" and ?due = "utc8DueAt (sx_now context) h m"
  let ?ago = "\<lambda>k. ?due - k * 24 * 60 * 60000"
  have year: "four_digit_year ?now" using now by (intro four_digit_years) simp_all
  have due: "?due = MS_PER_DAY * utc8_day ?now + (h * 60 + m) * 60000 - UTC8_OFFSET_MS"
    by (rule utc8DueAt_day [OF year])
  have day: "utc8_day ?due = utc8_day ?now" unfolding due by (rule utc8_day_of_due [OF time])
  have near: "?now - 86400000 < ?due" "?due < ?now + 86400000"
    using div_bounds [of MS_PER_DAY "?now + UTC8_OFFSET_MS"] time
    unfolding due by (simp_all add: utc8_day_def MS_PER_DAY_def UTC8_OFFSET_MS_def)
  have year_due: "four_digit_year ?due"
    using year day by (simp add: four_digit_year_def)
  have ago: "day_of_key (formatCronDateKey (?ago k)) = utc8_day ?now - k \<and> ?ago k \<le> ?now \<and>
      utc8_day (?ago k) = utc8_day ?now - k" if "1 \<le> k" "k \<le> 31" for k
  proof -
    have "four_digit_year (?ago k)" using that near now by (intro four_digit_years) linarith+
    then show ?thesis using day_of_key_format due_days_ago [of ?due k] day that near by simp
  qed
  let ?scope = "season_seasonCode (sx_season context)"
  let ?current = "plan_at ?scope (formatCronDateKey ?now) (Some ?due) Src_catchup"
  let ?closed = "\<lambda>k. (plan_at ?scope (formatCronDateKey (?ago k)) (Some (?ago k)) Src_reconcile)
     \<lparr>op_terminalStatus := Some Ob_irrecoverable, op_evidence := Some [(''reason'', JStr ''market-window-expired''),
        (''policy'', JStr (policy_text policy))]\<rparr>"
  define old where "old = (if policy = Current_day_only then map ?closed [1..31] else [])"
  define new where "new = (if ?due \<le> ?now then [?current] else [])"
  have split: "plans = old @ new"
    using plans by (auto simp: daily_resolve_def Let_def old_def new_def split: if_splits)
  have "open_plans old = []" "closing_plans old = old" "open_plans new = new" "closing_plans new = []"
    by (auto simp: open_plans_def closing_plans_def old_def new_def plan_at_def filter_empty_conv filter_id_conv)
  then have parts: "open_plans plans = new" "closing_plans plans = old"
    by (simp_all add: split open_plans_def closing_plans_def)
  have "map (day_of_key \<circ> op_periodKey) old = (if policy = Current_day_only then map (\<lambda>k. utc8_day ?now - k) [1..31] else [])"
    using ago by (auto simp: old_def plan_at_def)
  moreover have "\<exists>due. op_dueAt plan = Some due \<and> due \<le> ?now \<and> op_periodKey plan = formatCronDateKey due \<and>
      day_of_key (op_periodKey plan) = utc8_day due" if "plan \<in> set plans" for plan
  proof (cases "plan \<in> set old")
    case True
    then obtain k where "1 \<le> k" "k \<le> 31" "plan = ?closed k" by (auto simp: old_def split: if_splits)
    then show ?thesis using ago [of k] by (simp add: plan_at_def)
  next
    case False
    then have "plan = ?current" "?due \<le> ?now" using that by (auto simp: split new_def split: if_splits)
    then show ?thesis using day_of_key_format [OF year] day key_of_same_day [OF day] by (simp add: plan_at_def)
  qed
  moreover have "map op_periodKey new = (if ?due \<le> ?now then [formatCronDateKey ?now] else [])"
    by (simp add: new_def plan_at_def)
  ultimately show ?thesis unfolding parts by blast
qed

section \<open>Obligations of a closed window that are still in flight\<close>

lemma market_definition:
  "definitionByName ''market-daily'' = Some (dailyDefinition ''market-daily'' 9 25 Current_day_only ''data-sync'' market_request False)"
  by (simp add: definitionByName_def catalog_simps)

text \<open>
  C38. Closing the market windows of earlier days leaves an obligation that is still in flight as it
  is. When its lease has run out it is due like any other: it is taken unless a full batch of older
  ones is, and it is handed to the queue again under a new generation with the date of its old
  window.
\<close>

theorem abandoned_market_window_is_replayed:
  assumes reach: "scheduler_step\<^sup>*\<^sup>* empty_scheduler s" and row: "row \<in> set (sr_rows s)"
    and market: "so_jobName row = ''market-daily''" and flying: "in_flight (so_status row)"
    and expired: "so_leaseExpiresAt row = Some t" "t \<le> now" "so_dueAt row \<le> now"
  shows "markSchedulerObligationIrrecoverable closeAt (so_obligationId row) status e (sr_rows s) = (sr_rows s, False) \<and>
    (row \<in> set (claim_candidates {} now 50 (sr_rows s)) \<or>
     length (claim_candidates {} now 50 (sr_rows s)) = 50 \<and>
     (\<forall>c \<in> set (claim_candidates {} now 50 (sr_rows s)). so_dueAt c \<le> so_dueAt row)) \<and>
    submission env (claimed_obligation owner now leaseMs row) =
      (case pe_submit env (request ''enqueuePlayerValuesSyncJob'' ''catchup'' None
          [(''changeDate'', JStr (so_periodKey row)), (''removeOnSettle'', JBool False)]
          (so_obligationId row) (so_generation row + 1)) of
         Inl failure \<Rightarrow> Inl (failure_text failure)
       | Inr receipt \<Rightarrow> Inr receipt)"
proof -
  have inv: "scheduler_inv s" by (rule scheduler_reach_inv [OF reach])
  have "\<not> (by_id (so_obligationId row) r \<and> so_status r \<in> {Ob_pending, Ob_failed})" if "r \<in> set (sr_rows s)" for r
    using obligation_unique [OF inv that row] flying by (auto simp: by_id_def in_flight_def)
  then have "markSchedulerObligationIrrecoverable closeAt (so_obligationId row) status e (sr_rows s) = (sr_rows s, False)"
    unfolding markSchedulerObligationIrrecoverable_def by (rule update_one_none)
  moreover have "claimable_obligation now row" using flying expired by (simp add: claimable_obligation_def)
  note claim_takes_the_oldest [OF row this, of "{}" 50]
  moreover have "submission env (claimed_obligation owner now leaseMs row) =
      (case pe_submit env (request ''enqueuePlayerValuesSyncJob'' ''catchup'' None
          [(''changeDate'', JStr (so_periodKey row)), (''removeOnSettle'', JBool False)]
          (so_obligationId row) (so_generation row + 1)) of
         Inl failure \<Rightarrow> Inl (failure_text failure)
       | Inr receipt \<Rightarrow> Inr receipt)"
    using flying
    by (auto simp: submission_def market market_definition jd_enqueue_def dailyDefinition_def market_request_def
        plan_of_obligation_def claimed_obligation_def split: sum.split)
  ultimately show ?thesis by fastforce
qed

section \<open>What makes a pass succeed\<close>

definition storable :: "job_definition \<Rightarrow> obligation_plan \<Rightarrow> bool" where
  "storable d plan \<longleftrightarrow> op_dueAt plan \<noteq> None \<and> nonblank (jd_name d) \<and> nonblank (op_scopeKey plan) \<and> nonblank (op_periodKey plan)"

lemma reserve_storable:
  assumes "storable d plan"
  obtains ob rows' where "reserveSchedulerObligation fresh (job_identity.truncate d) plan rows = Inr (ob, rows')"
  using assms
  by (cases "List.find (has_identity (jd_name d) (op_scopeKey plan) (op_periodKey plan)) rows")
    (auto simp: storable_def reserveSchedulerObligation_def Let_def obligation_checks_def new_obligation_def
      job_identity.truncate_def)

lemma reserve_plans_storable:
  assumes "\<forall>plan \<in> set plans. storable d plan"
  obtains rows' n' where "reserve_plans env d plans rows n = (rows', n', None)"
  using assms
proof (induction plans arbitrary: rows n thesis)
  case (Cons plan plans)
  have "storable d plan" using Cons.prems(2) by simp
  then obtain ob rows1 where "reserveSchedulerObligation (pe_fresh env n) (job_identity.truncate d) plan rows = Inr (ob, rows1)"
    by (rule reserve_storable)
  note step = reserve_plans_Cons [OF this]
  obtain rows' n' where "reserve_plans env d plans (close_planned env plan ob rows1) (n + 1) = (rows', n', None)"
    using Cons.IH Cons.prems(2) by (metis list.set_intros(2))
  then show ?case using Cons.prems(1) step by metis
qed simp

lemma reserve_definitions_storable:
  assumes "\<forall>d \<in> set ds. \<exists>plans. jd_resolve d (pe_answers env) (pass_context env) = Inr plans \<and>
    (\<forall>plan \<in> set plans. storable d plan)"
  obtains rows' n' where "reserve_definitions env ds rows n = (rows', n', None)"
  using assms
proof (induction ds arbitrary: rows n thesis)
  case (Cons d ds)
  then obtain plans where plans: "jd_resolve d (pe_answers env) (pass_context env) = Inr plans"
    "\<forall>plan \<in> set plans. storable d plan" by auto
  obtain rows1 n1 where one: "reserve_plans env d plans rows n = (rows1, n1, None)"
    using reserve_plans_storable [OF plans(2)] by metis
  obtain rows' n' where "reserve_definitions env ds rows1 n1 = (rows', n', None)"
    using Cons.IH Cons.prems(2) by (metis list.set_intros(2))
  then show ?case using Cons.prems(1) one plans(1) by simp
qed simp

lemma lease_ms_ok: "is_safe_integer (resolveSchedulerLeaseMs env) \<and> 1 \<le> resolveSchedulerLeaseMs env"
  by (auto simp: resolveSchedulerLeaseMs_def DEFAULT_SCHEDULER_LEASE_MS_def is_safe_integer_def split: option.split)

lemma pass_succeeds:
  assumes "\<forall>d \<in> set schedulerRegistry. \<exists>plans. jd_resolve d (pe_answers env) (pass_context env) = Inr plans \<and>
    (\<forall>plan \<in> set plans. storable d plan)"
  obtains res rows' where "runSchedulerPass env rows = (Inr res, rows')"
proof -
  obtain reserved n where r: "reserve_definitions env schedulerRegistry rows 0 = (reserved, n, None)"
    using reserve_definitions_storable [OF assms] by metis
  have "\<exists>claimed rows2. claimSchedulerObligations (pe_owner env) (pe_locked env) (pe_claimAt env) None None (pe_leaseEnv env) reserved
      = Inr (claimed, rows2)"
    using lease_ms_ok [of "pe_leaseEnv env"]
    by (simp add: claimSchedulerObligations_def Let_def is_safe_integer_def [of 50])
  then obtain claimed rows2 where c: "claimSchedulerObligations (pe_owner env) (pe_locked env) (pe_claimAt env) None None
      (pe_leaseEnv env) reserved = Inr (claimed, rows2)" by blast
  obtain rows3 e f where "dispatch_claimed env claimed rows2 0 0 = (rows3, e, f)" by (metis prod_cases3)
  then show ?thesis using that by (simp add: runSchedulerPass_def r c)
qed

section \<open>Concrete runs\<close>

text \<open>A market window claimed, abandoned and claimed again by a second pass.\<close>

definition market_job :: job_identity where
  "market_job = \<lparr>jd_name = ''market-daily'', jd_cadence = ''daily'', jd_timezone = ''Asia/Shanghai''\<rparr>"

definition market_plan :: obligation_plan where
  "market_plan = plan_at ''2526'' ''20260118'' (Some 1000) Src_catchup"

abbreviation market_row :: obligation where
  "market_row \<equiv> new_obligation ''o1'' market_job market_plan 1000"

abbreviation market_row1 :: obligation where
  "market_row1 \<equiv> claimed_obligation ''w1'' 2000 60000 market_row"

abbreviation market_row2 :: obligation where
  "market_row2 \<equiv> claimed_obligation ''w2'' 70000 60000 market_row1"

lemma market_generations: "so_generation market_row1 = 0" "so_generation market_row2 = 1"
  by (simp_all add: claimed_obligation_def new_obligation_def in_flight_def)

definition twice_claimed :: scheduler_state where
  "twice_claimed = \<lparr>sr_rows = [market_row2], sr_handed = [(''o1'', 0, ''w1''), (''o1'', 1, ''w2'')]\<rparr>"

definition once_claimed :: scheduler_state where
  "once_claimed = \<lparr>sr_rows = [market_row1], sr_handed = [(''o1'', 0, ''w1'')]\<rparr>"

lemma once_claimed_reachable: "scheduler_step\<^sup>*\<^sup>* empty_scheduler once_claimed"
proof -
  have "reserveSchedulerObligation ''o1'' market_job market_plan (sr_rows empty_scheduler) = Inr (market_row, [market_row])"
    by (simp add: reserveSchedulerObligation_def Let_def market_plan_def plan_at_def empty_scheduler_def
        obligation_checks_def nonblank_def market_job_def new_obligation_def)
  then have "scheduler_step empty_scheduler \<lparr>sr_rows = [market_row], sr_handed = []\<rparr>"
    using scheduler_step.reserve [of "''o1''" market_job market_plan empty_scheduler] by (simp add: empty_scheduler_def)
  moreover have "claimSchedulerObligations ''w1'' {} 2000 None (Some 60000) None [market_row] = Inr ([market_row1], [market_row1])"
    by (simp add: claimSchedulerObligations_def Let_def is_safe_integer_def claim_candidates_def claimable_obligation_def
        js_sort_def new_obligation_def update_where_def by_id_def)
  then have "scheduler_step \<lparr>sr_rows = [market_row], sr_handed = []\<rparr> once_claimed"
    using scheduler_step.claim [of "''w1''" "{}" 2000 None "Some 60000" None "\<lparr>sr_rows = [market_row], sr_handed = []\<rparr>"]
    by (simp add: once_claimed_def handout_of_def market_generations)
  ultimately show ?thesis by (meson converse_rtranclp_into_rtranclp rtranclp.rtrancl_refl)
qed

lemma twice_claimed_reachable: "scheduler_step\<^sup>*\<^sup>* empty_scheduler twice_claimed"
proof -
  have "claimSchedulerObligations ''w2'' {} 70000 None (Some 60000) None [market_row1] = Inr ([market_row2], [market_row2])"
    by (simp add: claimSchedulerObligations_def Let_def is_safe_integer_def claim_candidates_def claimable_obligation_def
        js_sort_def new_obligation_def update_where_def by_id_def in_flight_def)
  then have "scheduler_step once_claimed twice_claimed"
    using scheduler_step.claim [of "''w2''" "{}" 70000 None "Some 60000" None once_claimed]
    by (simp add: once_claimed_def twice_claimed_def handout_of_def market_generations)
  with once_claimed_reachable show ?thesis by simp
qed

theorem scheduler_obligations_invariant_witness:
  "map fst (handouts (sr_handed twice_claimed) ''o1'') = [0, 1] \<and> identity_of market_row2 = (''market-daily'', ''2526'', ''20260118'')"
  using scheduler_obligations_invariant [OF twice_claimed_reachable, of market_row2]
  by (simp add: twice_claimed_def new_obligation_def upt_rec market_job_def market_plan_def plan_at_def identity_of_def)

theorem superseded_generation_is_fenced_witness:
  "completeSchedulerObligation 80000 ''o1'' Ob_succeeded (Some 0) None [market_row2] = ([market_row2], False) \<and>
   so_status market_row2 = Ob_enqueued"
  using superseded_generation_is_fenced [OF twice_claimed_reachable rtranclp.rtrancl_refl,
      of "''o1''" 0 "''w1''" 1 "''w2''" 80000 Ob_succeeded None]
  by (simp add: twice_claimed_def)

theorem abandoned_market_window_is_replayed_witness:
  "markSchedulerObligationIrrecoverable 70000 ''o1'' (Some Ob_irrecoverable) None [market_row1] = ([market_row1], False) \<and>
   so_periodKey market_row1 = ''20260118''"
  using abandoned_market_window_is_replayed [OF once_claimed_reachable, of market_row1 62000 70000 70000
      "Some Ob_irrecoverable" None undefined undefined undefined]
  by (simp add: once_claimed_def in_flight_def new_obligation_def market_job_def market_plan_def plan_at_def)

text \<open>A quiet night: no event has started, and one queue is down.\<close>

definition quiet_answers :: scheduler_reads where
  "quiet_answers = \<lparr>rd_findById = (\<lambda>_. Inr None), rd_findByEvent = (\<lambda>_. Inr []), rd_coreSnapshot = Inr None,
     rd_activePublication = Inr None, rd_publicationDelivery = (\<lambda>_. Inr None), rd_hasFinalMyFpl = (\<lambda>_. Inr False),
     rd_sha256 = (\<lambda>s. s), rd_parseDate = (\<lambda>_. None), rd_collate = (\<lambda>_ _. 0)\<rparr>"

definition night_pass :: pass_env where
  "night_pass = \<lparr>pe_season = \<lparr>season_seasonId = 1, season_seasonCode = ''2526''\<rparr>, pe_eventRows = [],
     pe_now = 1768676400000, pe_answers = quiet_answers, pe_fresh = (\<lambda>k. CHR ''o'' # show_nat k), pe_owner = ''w1'',
     pe_locked = {}, pe_leaseEnv = None, pe_closeAt = 1768676400000, pe_claimAt = 1768676400000,
     pe_failAt = 1768676400000,
     pe_submit = (\<lambda>q. if er_function q = ''enqueueLaunchMonitor'' then Inl (Queue_failed ''down'')
                      else Inr (Some (er_jobId q), None))\<rparr>"

lemma night_context:
  "pass_context night_pass = \<lparr>sx_now = 1768676400000, sx_season = \<lparr>season_seasonId = 1, season_seasonCode = ''2526''\<rparr>,
     sx_currentEventId = None, sx_currentEventDeadline = None, sx_events = []\<rparr>"
  by (simp add: pass_context_def resolveSchedulerContext_def night_pass_def)

lemma nonblank_append: "nonblank (s @ t) \<longleftrightarrow> nonblank s \<or> nonblank t"
  by (simp add: nonblank_def)

lemma nonblank_Cons: "nonblank (c # t) \<longleftrightarrow> c \<noteq> CHR '' '' \<or> nonblank t"
  by (simp add: nonblank_def)

lemma nonblank_show: "nonblank (show_int i)"
proof -
  have "show_nat n \<noteq> []" for n by (simp add: show_nat.simps [of n])
  moreover have "\<not> is_digit_char (CHR '' '')" by (simp add: is_digit_char_def)
  ultimately have "nonblank (show_nat n)" for n
    using show_nat_all_digits [of n] unfolding nonblank_def list_all_iff list_ex_iff by (metis hd_in_set)
  then show ?thesis by (simp add: show_int_def nonblank_append nonblank_Cons)
qed

lemma nonblank_date_key: "nonblank (formatCronDateKey t)"
  by (simp add: formatCronDateKey_def pad_def Let_def nonblank_append nonblank_show split: prod.split)

lemma no_event_resolves:
  assumes "sx_currentEventId context = None" "sx_events context = []"
  shows "with_current_event answers context f = Inr []" "event_resolve True answers context = Inr []"
    "post_match_resolve answers context = Inr []" "live_snapshot_resolve answers context = Inr []"
    "core_lifecycle_resolve answers context = Inr []" "live_finalization_resolve answers context = Inr []"
    "active_player_stats_resolve answers context = Inr []" "my_fpl_snapshot_resolve answers context = Inr []"
    "my_fpl_final_resolve answers context = Inr []"
  using assms by (simp_all add: with_current_event_def event_resolve_def post_match_resolve_def live_snapshot_resolve_def
      core_lifecycle_resolve_def live_finalization_resolve_def active_player_stats_resolve_def
      my_fpl_snapshot_resolve_def my_fpl_final_resolve_def Let_def)

lemma daily_storable:
  assumes "nonblank (season_seasonCode (sx_season context))" "nonblank (jd_name d)"
  shows "\<exists>plans. daily_resolve h m policy answers context = Inr plans \<and> (\<forall>plan \<in> set plans. storable d plan)"
    "\<exists>plans. periodic_resolve p off answers context = Inr plans \<and> (\<forall>plan \<in> set plans. storable d plan)"
  using assms by (auto simp: daily_resolve_def periodic_resolve_def Let_def storable_def plan_at_def nonblank_date_key
      nonblank_append nonblank_Cons nonblank_show)

lemma night_storable:
  "\<forall>d \<in> set schedulerRegistry. \<exists>plans. jd_resolve d (pe_answers night_pass) (pass_context night_pass) = Inr plans \<and>
    (\<forall>plan \<in> set plans. storable d plan)"
  unfolding catalog_simps list.set ball_simps
  by (intro conjI TrueI) (simp_all add: no_event_resolves daily_storable night_context nonblank_Cons)

lemma night_fresh: "pass_fresh night_pass empty_scheduler"
  by (simp add: pass_fresh_def night_pass_def empty_scheduler_def inj_def)


theorem daily_plans_of_the_day_witness:
  "\<exists>plans. daily_resolve 9 25 Current_day_only quiet_answers (pass_context night_pass) = Inr plans \<and>
     length (closing_plans plans) = 31"
proof -
  obtain plans where plans: "daily_resolve 9 25 Current_day_only quiet_answers (pass_context night_pass) = Inr plans"
    by (simp add: daily_resolve_def Let_def)
  have "map (day_of_key \<circ> op_periodKey) (closing_plans plans) =
      map (\<lambda>k. utc8_day (sx_now (pass_context night_pass)) - k) [1..31]"
    using daily_plans_of_the_day [OF plans] by (simp add: night_context)
  then have "length (closing_plans plans) = length [1..(31::int)]" by (metis length_map)
  then show ?thesis using plans by simp
qed

end
