(* ===== verification/AcquisitionBudget.thy ===== *)
theory AcquisitionBudget
  imports Complex_Main SyncOperations FplTypes
begin

text \<open>
  The budgets of content acquisition (\<^verbatim>\<open>src/content/acquisition/x-budget.ts\<close>,
  \<^verbatim>\<open>src/content/acquisition/media-budget.ts\<close>) over the tables of ledgers and reservations. A
  ledger holds the units of one scope in one hour of the clock; a reservation belongs to a ledger
  and a run, and counts against the rolling limit of its scope until it is released.

  Every function runs in a transaction of its caller: the reservations and the moves of single units
  hold one advisory lock, the others lock the rows they change and change the ledgers by relative
  amounts. So each is one function on the two tables, at the time \<open>dbNow\<close> its caller passes; an error
  leaves the tables as
  they were. The constraints of the tables are checked where rows are written. Units are numerics
  with six decimals, modelled as rationals. Update stamps, which nothing reads, are left out.
\<close>

section \<open>Tables\<close>

datatype budget_scope_kind = Scope_global | Scope_lane | Scope_host | Scope_provider

datatype unit_kind = Unit_call | Unit_request | Unit_byte | Unit_credit | Unit_audio_second

datatype reservation_status = Res_reserved | Res_committed | Res_released

record ledger =
  lg_ledgerId :: string
  lg_scopeKind :: budget_scope_kind
  lg_scopeKey :: string
  lg_unitKind :: unit_kind
  lg_windowStart :: int
  lg_windowEnd :: int
  lg_maxUnits :: rat
  lg_reservedUnits :: rat
  lg_committedUnits :: rat

record reservation =
  rs_reservationId :: string
  rs_ledgerId :: string
  rs_runId :: string
  rs_units :: rat
  rs_status :: reservation_status
  rs_createdAt :: int

record budget_db =
  bd_ledgers :: "ledger list"
  bd_reservations :: "reservation list"

datatype budget_error =
    Not_a_positive_integer string
  | Reservation_units_invalid
  | Reservation_disappeared string
  | Reservation_invalid
  | Actual_units_invalid
  | Several_reservations
  | Budget_constraint_violation

definition ledger_checks :: "ledger \<Rightarrow> bool" where
  "ledger_checks l =
     (lg_windowEnd l > lg_windowStart l \<and> lg_maxUnits l \<ge> 0 \<and> lg_reservedUnits l \<ge> 0 \<and> lg_committedUnits l \<ge> 0 \<and>
      lg_reservedUnits l + lg_committedUnits l \<le> lg_maxUnits l)"

definition reservation_checks :: "reservation \<Rightarrow> bool" where
  "reservation_checks r = (rs_units r > 0)"

text \<open>A safe positive integer among the numerics.\<close>

definition positive_integral :: "rat \<Rightarrow> bool" where
  "positive_integral u = (snd (quotient_of u) = 1 \<and> is_safe_integer (fst (quotient_of u)) \<and> u \<ge> 1)"

section \<open>Policies and scopes\<close>

datatype x_lane = Lane_official | Lane_club | Lane_reporter | Lane_creator | Lane_longform | Lane_semantic

datatype budget_lane = Acquire x_lane | Identity

datatype acquisition_phase = Phase_normal | Phase_approaching | Phase_final90

record budget_policy =
  bp_globalLimit :: int
  bp_final90Limit :: int
  bp_identityLimit :: int
  bp_laneCaps :: "acquisition_phase \<Rightarrow> x_lane \<Rightarrow> int"
  bp_laneWindowMinutes :: "acquisition_phase \<Rightarrow> int"

definition positiveInteger :: "string \<Rightarrow> int \<Rightarrow> (budget_error, int) result" where
  "positiveInteger name v = (if \<not> is_safe_integer v \<or> v < 1 then Inl (Not_a_positive_integer name) else Inr v)"

definition compileXBudgetPolicy ::
  "(acquisition_phase \<Rightarrow> x_lane \<Rightarrow> int) \<Rightarrow> (acquisition_phase \<Rightarrow> int) \<Rightarrow> int \<Rightarrow> int \<Rightarrow> int option
   \<Rightarrow> (budget_error, budget_policy) result" where
  "compileXBudgetPolicy laneCaps windows globalLimit final90Limit identityLimit =
     res_bind (positiveInteger ''CONTENT_X_DAILY_CALL_LIMIT'' globalLimit) (\<lambda>g.
     res_bind (positiveInteger ''CONTENT_X_FINAL90_CALL_LIMIT'' final90Limit) (\<lambda>f.
     res_bind (positiveInteger ''X identity rolling limit'' (coalesce identityLimit 100)) (\<lambda>i.
     Inr \<lparr>bp_globalLimit = g, bp_final90Limit = f, bp_identityLimit = i, bp_laneCaps = laneCaps,
       bp_laneWindowMinutes = windows\<rparr>)))"

record budget_scope =
  bs_scopeKind :: budget_scope_kind
  bs_scopeKey :: string
  bs_windowMinutes :: int
  bs_limit :: int

fun lane_text :: "x_lane \<Rightarrow> string" where
  "lane_text Lane_official = ''OFFICIAL''"
| "lane_text Lane_club = ''CLUB''"
| "lane_text Lane_reporter = ''REPORTER''"
| "lane_text Lane_creator = ''CREATOR''"
| "lane_text Lane_longform = ''LONGFORM''"
| "lane_text Lane_semantic = ''SEMANTIC''"

fun phase_text :: "acquisition_phase \<Rightarrow> string" where
  "phase_text Phase_normal = ''NORMAL''"
| "phase_text Phase_approaching = ''APPROACHING''"
| "phase_text Phase_final90 = ''FINAL90''"

fun kind_text :: "budget_scope_kind \<Rightarrow> string" where
  "kind_text Scope_global = ''GLOBAL''"
| "kind_text Scope_lane = ''LANE''"
| "kind_text Scope_host = ''HOST''"
| "kind_text Scope_provider = ''PROVIDER''"

definition lane_scope :: "acquisition_phase \<Rightarrow> budget_lane \<Rightarrow> budget_policy \<Rightarrow> budget_scope" where
  "lane_scope phase lane policy =
     (case lane of
        Identity \<Rightarrow> \<lparr>bs_scopeKind = Scope_lane, bs_scopeKey = ''IDENTITY'', bs_windowMinutes = 24 * 60,
          bs_limit = bp_identityLimit policy\<rparr>
      | Acquire l \<Rightarrow> \<lparr>bs_scopeKind = Scope_lane, bs_scopeKey = phase_text phase @ '':'' @ lane_text l,
          bs_windowMinutes = bp_laneWindowMinutes policy phase, bs_limit = bp_laneCaps policy phase l\<rparr>)"

definition budgetScopes :: "acquisition_phase \<Rightarrow> budget_lane \<Rightarrow> budget_policy \<Rightarrow> budget_scope list" where
  "budgetScopes phase lane policy =
     [\<lparr>bs_scopeKind = Scope_global, bs_scopeKey = ''GROK_BUILD_X'', bs_windowMinutes = 24 * 60,
        bs_limit = bp_globalLimit policy\<rparr>,
      lane_scope phase lane policy] @
     (if phase = Phase_final90
      then [\<lparr>bs_scopeKind = Scope_provider, bs_scopeKey = ''GROK_BUILD_X_FINAL90'', bs_windowMinutes = 90,
        bs_limit = bp_final90Limit policy\<rparr>]
      else [])"

text \<open>The hour of the clock a time is in.\<close>

definition hourBucket :: "int \<Rightarrow> int \<times> int" where
  "hourBucket dbNow = (let windowStart = dbNow - dbNow mod 3600000 in (windowStart, windowStart + 60 * 60000))"

section \<open>Usage\<close>

definition counts :: "reservation_status \<Rightarrow> bool" where
  "counts st = (st \<in> {Res_reserved, Res_committed})"

definition in_budget :: "budget_scope_kind \<Rightarrow> string \<Rightarrow> unit_kind \<Rightarrow> budget_db \<Rightarrow> reservation \<Rightarrow> bool" where
  "in_budget kind key unit db r =
     list_ex (\<lambda>l. lg_ledgerId l = rs_ledgerId r \<and> lg_scopeKind l = kind \<and> lg_scopeKey l = key \<and> lg_unitKind l = unit)
       (bd_ledgers db)"

definition sum_units :: "reservation list \<Rightarrow> rat" where
  "sum_units rs = sum_list (map rs_units rs)"

definition rolling_usage :: "budget_scope_kind \<Rightarrow> string \<Rightarrow> unit_kind \<Rightarrow> int \<Rightarrow> budget_db \<Rightarrow> rat" where
  "rolling_usage kind key unit since db =
     sum_units (filter (\<lambda>r. in_budget kind key unit db r \<and> counts (rs_status r) \<and> rs_createdAt r > since)
       (bd_reservations db))"

section \<open>Reserving\<close>

text \<open>
  The ledger of a scope and an hour: created, or kept with a maximum that is not below what it
  holds already and not below the limit.
\<close>

definition same_window :: "budget_scope_kind \<Rightarrow> string \<Rightarrow> unit_kind \<Rightarrow> int \<times> int \<Rightarrow> ledger \<Rightarrow> bool" where
  "same_window kind key unit bucket l =
     (lg_scopeKind l = kind \<and> lg_scopeKey l = key \<and> lg_unitKind l = unit \<and>
      (lg_windowStart l, lg_windowEnd l) = bucket)"

definition upsert_ledger ::
  "string \<Rightarrow> budget_scope_kind \<Rightarrow> string \<Rightarrow> unit_kind \<Rightarrow> int \<times> int \<Rightarrow> int \<Rightarrow> ledger list
   \<Rightarrow> (budget_error, string \<times> ledger list) result" where
  "upsert_ledger fresh kind key unit bucket limit ledgers =
     (case List.find (same_window kind key unit bucket) ledgers of
        None \<Rightarrow>
          (let l = \<lparr>lg_ledgerId = fresh, lg_scopeKind = kind, lg_scopeKey = key, lg_unitKind = unit,
                lg_windowStart = fst bucket, lg_windowEnd = snd bucket, lg_maxUnits = of_int limit,
                lg_reservedUnits = 0, lg_committedUnits = 0\<rparr>
           in if ledger_checks l then Inr (fresh, ledgers @ [l]) else Inl Budget_constraint_violation)
      | Some l \<Rightarrow> Inr (lg_ledgerId l, update_where (same_window kind key unit bucket)
          (\<lambda>l. l\<lparr>lg_maxUnits := max (lg_maxUnits l) (max (lg_reservedUnits l + lg_committedUnits l) (of_int limit))\<rparr>) ledgers))"

text \<open>Changing the ledger of an identifier, under the table's constraint.\<close>

definition adjust_ledger :: "string \<Rightarrow> (ledger \<Rightarrow> ledger) \<Rightarrow> ledger list \<Rightarrow> (budget_error, ledger list) result" where
  "adjust_ledger i f ledgers =
     (let ledgers' = update_where (\<lambda>l. lg_ledgerId l = i) f ledgers in
      if list_all ledger_checks ledgers' then Inr ledgers' else Inl Budget_constraint_violation)"

definition add_reserved :: "rat \<Rightarrow> ledger \<Rightarrow> ledger" where
  "add_reserved u l = l\<lparr>lg_reservedUnits := lg_reservedUnits l + u\<rparr>"

definition new_reservation :: "string \<Rightarrow> string \<Rightarrow> string \<Rightarrow> rat \<Rightarrow> int \<Rightarrow> reservation" where
  "new_reservation fresh ledgerId runId units dbNow =
     \<lparr>rs_reservationId = fresh, rs_ledgerId = ledgerId, rs_runId = runId, rs_units = units,
      rs_status = Res_reserved, rs_createdAt = dbNow\<rparr>"

definition reserved_of_run :: "string \<Rightarrow> string \<Rightarrow> reservation \<Rightarrow> bool" where
  "reserved_of_run runId ledgerId r =
     (rs_runId r = runId \<and> rs_ledgerId r = ledgerId \<and> rs_status r = Res_reserved)"

text \<open>
  One scope of a reservation: the identifier of the row that holds the units, and whether it is new.
\<close>

definition reserve_scope ::
  "string \<Rightarrow> string \<Rightarrow> string \<Rightarrow> bool \<Rightarrow> int \<Rightarrow> int \<Rightarrow> budget_scope \<Rightarrow> budget_db
   \<Rightarrow> (budget_error, (string \<times> bool) \<times> budget_db) result" where
  "reserve_scope freshLedger freshReservation runId separate units dbNow scope db =
     res_bind (upsert_ledger freshLedger (bs_scopeKind scope) (bs_scopeKey scope) Unit_call (hourBucket dbNow)
         (bs_limit scope) (bd_ledgers db)) (\<lambda>(ledgerId, ledgers1).
     res_bind (adjust_ledger ledgerId (add_reserved (of_int units)) ledgers1) (\<lambda>ledgers2.
     case (if separate then None else List.find (reserved_of_run runId ledgerId) (bd_reservations db)) of
       Some r \<Rightarrow> Inr ((rs_reservationId r, False),
         \<lparr>bd_ledgers = ledgers2, bd_reservations = update_where (\<lambda>x. rs_reservationId x = rs_reservationId r)
            (\<lambda>x. x\<lparr>rs_units := rs_units x + of_int units\<rparr>) (bd_reservations db)\<rparr>)
     | None \<Rightarrow> Inr ((freshReservation, True),
         \<lparr>bd_ledgers = ledgers2, bd_reservations = bd_reservations db @
            [new_reservation freshReservation ledgerId runId (of_int units) dbNow]\<rparr>)))"

fun reserve_scopes ::
  "(nat \<Rightarrow> string) \<Rightarrow> nat \<Rightarrow> string \<Rightarrow> bool \<Rightarrow> int \<Rightarrow> int \<Rightarrow> budget_scope list \<Rightarrow> budget_db
   \<Rightarrow> (budget_error, (string \<times> bool) list \<times> budget_db) result" where
  "reserve_scopes fresh n runId separate units dbNow [] db = Inr ([], db)"
| "reserve_scopes fresh n runId separate units dbNow (scope # scopes) db =
     res_bind (reserve_scope (fresh n) (fresh (n + 1)) runId separate units dbNow scope db) (\<lambda>(held, db1).
     res_bind (reserve_scopes fresh (n + 2) runId separate units dbNow scopes db1) (\<lambda>(helds, db2).
       Inr (held # helds, db2)))"

record x_reservation_result =
  xr_reserved :: bool
  xr_deferredScope :: "string option"
  xr_remaining :: rat
  xr_reservationIds :: "string list"
  xr_createdIds :: "string list"
  xr_incrementedIds :: "string list"

definition scope_usage :: "int \<Rightarrow> budget_db \<Rightarrow> budget_scope \<Rightarrow> rat" where
  "scope_usage dbNow db scope =
     rolling_usage (bs_scopeKind scope) (bs_scopeKey scope) Unit_call (dbNow - bs_windowMinutes scope * 60000) db"

definition reserveXRunBudgets ::
  "(nat \<Rightarrow> string) \<Rightarrow> string \<Rightarrow> acquisition_phase \<Rightarrow> budget_lane \<Rightarrow> int \<Rightarrow> budget_policy \<Rightarrow> int option \<Rightarrow> bool
   \<Rightarrow> budget_db \<Rightarrow> (budget_error, x_reservation_result \<times> budget_db) result" where
  "reserveXRunBudgets fresh runId phase lane dbNow policy units separate db =
     (let requested = coalesce units 1;
          scopes = budgetScopes phase lane policy;
          over = (\<lambda>s. scope_usage dbNow db s + of_int requested > of_int (bs_limit s))
      in if \<not> is_safe_integer requested \<or> requested < 1 then Inl Reservation_units_invalid
         else (case List.find over scopes of
                 Some s \<Rightarrow> Inr (\<lparr>xr_reserved = False, xr_deferredScope = Some (kind_text (bs_scopeKind s) @ '':'' @ bs_scopeKey s),
                     xr_remaining = max 0 (of_int (bs_limit s) - scope_usage dbNow db s),
                     xr_reservationIds = [], xr_createdIds = [], xr_incrementedIds = []\<rparr>, db)
               | None \<Rightarrow>
                   res_bind (reserve_scopes fresh 0 runId separate requested dbNow scopes db) (\<lambda>(helds, db1).
                     Inr (\<lparr>xr_reserved = True, xr_deferredScope = None,
                       xr_remaining = Min (set (map (\<lambda>s. max 0 (of_int (bs_limit s) - scope_usage dbNow db s - of_int requested)) scopes)),
                       xr_reservationIds = map fst helds, xr_createdIds = map fst (filter snd helds),
                       xr_incrementedIds = map fst (filter (\<lambda>h. \<not> snd h) helds)\<rparr>, db1))))"

section \<open>Releasing and committing\<close>

text \<open>The rows of a run that are still reserved.\<close>

definition reserved_rows :: "string \<Rightarrow> budget_db \<Rightarrow> reservation list" where
  "reserved_rows runId db = filter (\<lambda>r. rs_runId r = runId \<and> rs_status r = Res_reserved) (bd_reservations db)"

definition set_reservation :: "string \<Rightarrow> (reservation \<Rightarrow> reservation) \<Rightarrow> budget_db \<Rightarrow> budget_db" where
  "set_reservation i f db =
     db\<lparr>bd_reservations := update_where (\<lambda>x. rs_reservationId x = i) f (bd_reservations db)\<rparr>"

definition with_ledger :: "string \<Rightarrow> (ledger \<Rightarrow> ledger) \<Rightarrow> budget_db \<Rightarrow> (budget_error, budget_db) result" where
  "with_ledger i f db = res_bind (adjust_ledger i f (bd_ledgers db)) (\<lambda>ls. Inr (db\<lparr>bd_ledgers := ls\<rparr>))"

text \<open>
  One unit of a reservation ends in \<open>target\<close>: the whole row when it was its only unit, and otherwise
  the row keeps the others. The ledger moves the unit along.
\<close>

definition move_units :: "rat \<Rightarrow> reservation_status \<Rightarrow> ledger \<Rightarrow> ledger" where
  "move_units u target l =
     l\<lparr>lg_reservedUnits := lg_reservedUnits l - u,
       lg_committedUnits := (if target = Res_committed then lg_committedUnits l + u else lg_committedUnits l)\<rparr>"

definition move_one_unit :: "reservation_status \<Rightarrow> reservation \<Rightarrow> budget_db \<Rightarrow> (budget_error, budget_db) result" where
  "move_one_unit target r db =
     (if \<not> positive_integral (rs_units r) then Inl Reservation_invalid
      else with_ledger (rs_ledgerId r) (move_units 1 target)
        (set_reservation (rs_reservationId r)
          (\<lambda>x. if rs_units r = 1 then x\<lparr>rs_status := target\<rparr> else x\<lparr>rs_units := rs_units r - 1\<rparr>) db))"

definition move_one_of_each ::
  "string \<Rightarrow> reservation_status \<Rightarrow> string \<Rightarrow> string list \<Rightarrow> budget_db \<Rightarrow> (budget_error, bool \<times> budget_db) result" where
  "move_one_of_each what target runId ids db =
     (let reservationIds = js_uniq ids;
          rows = filter (\<lambda>r. rs_reservationId r \<in> set reservationIds) (reserved_rows runId db)
      in if reservationIds = [] then Inr (False, db)
         else if length rows \<noteq> length reservationIds then Inl (Reservation_disappeared what)
         else res_bind (res_iter (move_one_unit target) rows db) (\<lambda>db1. Inr (True, db1)))"

definition releaseOneXRunBudgetUnit :: "string \<Rightarrow> string list \<Rightarrow> budget_db \<Rightarrow> (budget_error, bool \<times> budget_db) result" where
  "releaseOneXRunBudgetUnit = move_one_of_each ''release'' Res_released"

definition commitOneXRunBudgetUnit :: "string \<Rightarrow> string list \<Rightarrow> budget_db \<Rightarrow> (budget_error, bool \<times> budget_db) result" where
  "commitOneXRunBudgetUnit = move_one_of_each ''commit'' Res_committed"

text \<open>A whole reservation ends in \<open>target\<close>.\<close>

definition move_reservation :: "(rat \<Rightarrow> bool) \<Rightarrow> reservation_status \<Rightarrow> reservation \<Rightarrow> budget_db \<Rightarrow> (budget_error, budget_db) result" where
  "move_reservation ok target r db =
     (if \<not> ok (rs_units r) then Inl Reservation_invalid
      else with_ledger (rs_ledgerId r) (move_units (rs_units r) target)
        (set_reservation (rs_reservationId r) (\<lambda>x. x\<lparr>rs_status := target\<rparr>) db))"

definition releaseXRunBudgetsExcept :: "string \<Rightarrow> string list \<Rightarrow> budget_db \<Rightarrow> (budget_error, nat \<times> budget_db) result" where
  "releaseXRunBudgetsExcept runId keepIds db =
     (let rows = filter (\<lambda>r. rs_reservationId r \<notin> set keepIds) (reserved_rows runId db) in
      res_bind (res_iter (move_reservation positive_integral Res_released) rows db) (\<lambda>db1. Inr (length rows, db1)))"

definition commitProbeAndReleaseXRunBudgets ::
  "string \<Rightarrow> string list \<Rightarrow> string list \<Rightarrow> budget_db \<Rightarrow> (budget_error, bool \<times> budget_db) result" where
  "commitProbeAndReleaseXRunBudgets runId probeIds incrementedIds db =
     (if probeIds = [] then Inr (False, db)
      else res_bind (releaseXRunBudgetsExcept runId (probeIds @ incrementedIds) db) (\<lambda>(n, db1).
        res_bind (releaseOneXRunBudgetUnit runId incrementedIds db1) (\<lambda>(released, db2).
        res_bind (commitOneXRunBudgetUnit runId probeIds db2) (\<lambda>(committed, db3). Inr (True, db3)))))"

text \<open>The statement's own condition repeats that the row is still reserved, which its lock ensures.\<close>

definition transitionRunBudgets :: "reservation_status \<Rightarrow> string \<Rightarrow> budget_db \<Rightarrow> (budget_error, nat \<times> budget_db) result" where
  "transitionRunBudgets target runId db =
     (let rows = reserved_rows runId db in
      res_bind (res_iter (move_reservation (\<lambda>u. u > 0) target) rows db) (\<lambda>db1. Inr (length rows, db1)))"

definition commitXRunBudgets :: "string \<Rightarrow> budget_db \<Rightarrow> (budget_error, nat \<times> budget_db) result" where
  "commitXRunBudgets = transitionRunBudgets Res_committed"

definition releaseXRunBudgets :: "string \<Rightarrow> budget_db \<Rightarrow> (budget_error, nat \<times> budget_db) result" where
  "releaseXRunBudgets = transitionRunBudgets Res_released"

section \<open>Reconciling with the provider\<close>

definition reconcile_ledger :: "reservation_status \<Rightarrow> rat \<Rightarrow> ledger \<Rightarrow> ledger" where
  "reconcile_ledger status delta l =
     l\<lparr>lg_reservedUnits := (if status = Res_reserved then lg_reservedUnits l + delta else lg_reservedUnits l),
       lg_committedUnits := (if status = Res_committed then lg_committedUnits l + delta else lg_committedUnits l),
       lg_maxUnits := max (lg_maxUnits l) (lg_reservedUnits l + lg_committedUnits l + delta)\<rparr>"

definition reconcileReservedProviderBudget ::
  "string \<Rightarrow> string \<Rightarrow> unit_kind \<Rightarrow> rat \<Rightarrow> budget_db \<Rightarrow> (budget_error, bool \<times> budget_db) result" where
  "reconcileReservedProviderBudget runId scopeKey unitKind actualUnits db =
     (if actualUnits < 0 then Inl Actual_units_invalid
      else (case filter (\<lambda>r. rs_runId r = runId \<and> counts (rs_status r) \<and>
                in_budget Scope_provider scopeKey unitKind db r) (bd_reservations db) of
        [] \<Rightarrow> Inr (False, db)
      | [row] \<Rightarrow>
          if rs_units row \<le> 0 then Inl Reservation_invalid
          else if actualUnits = 0 then Inl Budget_constraint_violation
          else res_bind (with_ledger (rs_ledgerId row) (reconcile_ledger (rs_status row) (actualUnits - rs_units row))
              (set_reservation (rs_reservationId row) (\<lambda>x. x\<lparr>rs_units := actualUnits\<rparr>) db))
            (\<lambda>db1. Inr (True, db1))
      | _ \<Rightarrow> Inl Several_reservations))"

definition xRunBudgetStatuses :: "string \<Rightarrow> budget_db \<Rightarrow> reservation_status list" where
  "xRunBudgetStatuses runId db = map rs_status (filter (\<lambda>r. rs_runId r = runId) (bd_reservations db))"

section \<open>Media providers\<close>

text \<open>
  Both media budgets reserve once per run against a rolling day. The existing row is whichever
  of the run's rows the query returns first.
\<close>

definition reserve_provider ::
  "(nat \<Rightarrow> string) \<Rightarrow> string \<Rightarrow> unit_kind \<Rightarrow> string \<Rightarrow> int \<Rightarrow> int \<Rightarrow> int \<Rightarrow> budget_db
   \<Rightarrow> (budget_error, (bool \<times> rat) \<times> budget_db) result" where
  "reserve_provider fresh key unit runId units limit dbNow db =
     (let mine = filter (\<lambda>r. rs_runId r = runId \<and> in_budget Scope_provider key unit db r) (bd_reservations db);
          used = rolling_usage Scope_provider key unit (dbNow - 24 * 60 * 60000) db;
          remaining = max 0 (of_int limit - used)
      in if mine \<noteq> [] \<and> counts (rs_status (hd mine)) then Inr ((True, 0), db)
         else if used + of_int units > of_int limit then Inr ((False, remaining), db)
         else res_bind (upsert_ledger (fresh 0) Scope_provider key unit (hourBucket dbNow) limit (bd_ledgers db))
           (\<lambda>(ledgerId, ledgers1).
           res_bind (adjust_ledger ledgerId (add_reserved (of_int units)) ledgers1) (\<lambda>ledgers2.
             Inr ((True, max 0 (remaining - of_int units)),
               \<lparr>bd_ledgers = ledgers2, bd_reservations = bd_reservations db @
                  [new_reservation (fresh 1) ledgerId runId (of_int units) dbNow]\<rparr>))))"

definition reserveHermesAudioBudget ::
  "(nat \<Rightarrow> string) \<Rightarrow> string \<Rightarrow> rat \<Rightarrow> int \<Rightarrow> int \<Rightarrow> budget_db \<Rightarrow> (budget_error, (bool \<times> rat) \<times> budget_db) result" where
  "reserveHermesAudioBudget fresh runId audioSeconds dailyAudioMinutes dbNow db =
     (if audioSeconds \<le> 0 then Inl (Not_a_positive_integer ''audioSeconds'')
      else if \<not> is_safe_integer dailyAudioMinutes \<or> dailyAudioMinutes < 1 then Inl (Not_a_positive_integer ''dailyAudioMinutes'')
      else reserve_provider fresh ''HERMES_TRANSCRIPT'' Unit_audio_second runId (ceiling audioSeconds)
        (dailyAudioMinutes * 60) dbNow db)"

definition reserveSupadataCreditBudget ::
  "(nat \<Rightarrow> string) \<Rightarrow> string \<Rightarrow> int \<Rightarrow> int \<Rightarrow> int \<Rightarrow> budget_db \<Rightarrow> (budget_error, (bool \<times> rat) \<times> budget_db) result" where
  "reserveSupadataCreditBudget fresh runId expectedCredits dailyCreditLimit dbNow db =
     (if \<not> is_safe_integer expectedCredits \<or> expectedCredits < 1 then Inl (Not_a_positive_integer ''expectedCredits'')
      else if \<not> is_safe_integer dailyCreditLimit \<or> dailyCreditLimit < 1 then Inl (Not_a_positive_integer ''dailyCreditLimit'')
      else reserve_provider fresh ''SUPADATA_TRANSCRIPT'' Unit_credit runId expectedCredits dailyCreditLimit dbNow db)"

end
