(* ===== verification/AcquisitionBudgetRuns.thy ===== *)
theory AcquisitionBudgetRuns
  imports AcquisitionBudget
begin

text \<open>
  What the budgets keep: the books of every ledger balance with its reservations, whatever the
  functions do in whatever order, and the rolling limits hold in every window of time.
\<close>

section \<open>Sums over reservations\<close>

definition held_units :: "reservation_status \<Rightarrow> reservation \<Rightarrow> rat" where
  "held_units st r = (if rs_status r = st then rs_units r else 0)"

definition status_sum :: "reservation_status \<Rightarrow> reservation list \<Rightarrow> string \<Rightarrow> rat" where
  "status_sum st rs i = sum_list (map (held_units st) (filter (\<lambda>r. rs_ledgerId r = i) rs))"

lemma status_sum_append: "status_sum st (a @ b) i = status_sum st a i + status_sum st b i"
  by (simp add: status_sum_def)

lemma update_where_none: "(\<And>x. x \<in> set xs \<Longrightarrow> \<not> p x) \<Longrightarrow> update_where p f xs = xs"
  by (simp add: update_where_def map_idI)

text \<open>Updating the one row of an identifier.\<close>

lemma update_unique_split:
  assumes "distinct (map k rs)" "r \<in> set rs"
  obtains a b where "rs = a @ r # b" "update_where (\<lambda>x. k x = k r) f rs = a @ f r # b"
proof -
  obtain a b where rs: "rs = a @ r # b" using assms(2) by (meson split_list)
  then have "k r \<notin> k ` set a" "k r \<notin> k ` set b" using assms(1) by auto
  then have "update_where (\<lambda>x. k x = k r) f a = a" "update_where (\<lambda>x. k x = k r) f b = b"
    by (auto intro!: update_where_none simp: image_iff)
  then show ?thesis using that [OF rs] by (simp add: rs update_where_def)
qed

lemma status_sum_update:
  assumes "distinct (map rs_reservationId rs)" "r \<in> set rs" "rs_ledgerId (f r) = rs_ledgerId r"
  shows "status_sum st (update_where (\<lambda>x. rs_reservationId x = rs_reservationId r) f rs) i =
    status_sum st rs i + (if i = rs_ledgerId r then held_units st (f r) - held_units st r else 0)"
proof -
  obtain a b where "rs = a @ r # b"
    "update_where (\<lambda>x. rs_reservationId x = rs_reservationId r) f rs = a @ f r # b"
    using update_unique_split [OF assms(1,2)] by blast
  then show ?thesis using assms(3) by (simp add: status_sum_def)
qed

section \<open>The books\<close>

definition ledger_key :: "ledger \<Rightarrow> string \<times> budget_scope_kind \<times> string \<times> unit_kind \<times> int \<times> int" where
  "ledger_key l = (lg_ledgerId l, lg_scopeKind l, lg_scopeKey l, lg_unitKind l, lg_windowStart l, lg_windowEnd l)"

definition balanced :: "reservation list \<Rightarrow> ledger \<Rightarrow> bool" where
  "balanced rs l \<longleftrightarrow> ledger_checks l \<and> lg_reservedUnits l = status_sum Res_reserved rs (lg_ledgerId l) \<and>
     status_sum Res_committed rs (lg_ledgerId l) \<le> lg_committedUnits l"

definition budget_inv :: "budget_db \<Rightarrow> bool" where
  "budget_inv db \<longleftrightarrow>
     distinct (map lg_ledgerId (bd_ledgers db)) \<and> distinct (map (snd \<circ> ledger_key) (bd_ledgers db)) \<and>
     distinct (map rs_reservationId (bd_reservations db)) \<and>
     rs_ledgerId ` set (bd_reservations db) \<subseteq> lg_ledgerId ` set (bd_ledgers db) \<and>
     (\<forall>r \<in> set (bd_reservations db). rs_units r > 0) \<and>
     (\<forall>l \<in> set (bd_ledgers db). balanced (bd_reservations db) l)"

lemma adjust_ledgerE:
  assumes "adjust_ledger i g ls = Inr ls'"
  obtains "ls' = update_where (\<lambda>l. lg_ledgerId l = i) g ls" "list_all ledger_checks ls'"
  using assms by (auto simp: adjust_ledger_def Let_def split: if_splits)

lemma keys_update_where:
  assumes "\<And>l. ledger_key (g l) = ledger_key l"
  shows "map ledger_key (update_where p g ls) = map ledger_key ls"
  using assms by (simp add: update_where_def)

lemma ledger_id_key: "lg_ledgerId = fst \<circ> ledger_key"
  by (simp add: fun_eq_iff ledger_key_def)

lemma same_keys:
  assumes "map ledger_key ls' = map ledger_key ls"
  shows "map lg_ledgerId ls' = map lg_ledgerId ls" "map (snd \<circ> ledger_key) ls' = map (snd \<circ> ledger_key) ls"
    "lg_ledgerId ` set ls' = lg_ledgerId ` set ls"
proof -
  show ids: "map lg_ledgerId ls' = map lg_ledgerId ls" unfolding ledger_id_key map_map [symmetric] assms ..
  show "map (snd \<circ> ledger_key) ls' = map (snd \<circ> ledger_key) ls" unfolding map_map [symmetric] assms ..
  show "lg_ledgerId ` set ls' = lg_ledgerId ` set ls" using ids by (metis list.set_map)
qed

text \<open>One reservation and its ledger change together.\<close>

lemma change_row_inv:
  assumes inv: "budget_inv db" and r: "r \<in> set (bd_reservations db)"
    and adjust: "adjust_ledger (rs_ledgerId r) g (bd_ledgers db) = Inr ls'"
    and key: "\<And>l. ledger_key (g l) = ledger_key l"
    and f: "rs_reservationId (f r) = rs_reservationId r" "rs_ledgerId (f r) = rs_ledgerId r" "rs_units (f r) > 0"
    and sums: "\<And>l. lg_reservedUnits (g l) = lg_reservedUnits l + (held_units Res_reserved (f r) - held_units Res_reserved r)"
      "\<And>l. lg_committedUnits (g l) \<ge> lg_committedUnits l + (held_units Res_committed (f r) - held_units Res_committed r)"
  shows "budget_inv \<lparr>bd_ledgers = ls',
    bd_reservations = update_where (\<lambda>x. rs_reservationId x = rs_reservationId r) f (bd_reservations db)\<rparr>"
proof -
  let ?rs = "update_where (\<lambda>x. rs_reservationId x = rs_reservationId r) f (bd_reservations db)"
  from adjust obtain ls': "ls' = update_where (\<lambda>l. lg_ledgerId l = rs_ledgerId r) g (bd_ledgers db)"
    and checks: "list_all ledger_checks ls'" by (rule adjust_ledgerE)
  have keys: "map ledger_key ls' = map ledger_key (bd_ledgers db)" unfolding ls' by (rule keys_update_where [OF key])
  have ids: "distinct (map rs_reservationId (bd_reservations db))" using inv by (simp add: budget_inv_def)
  obtain a b where split: "bd_reservations db = a @ r # b" "?rs = a @ f r # b"
    using update_unique_split [OF ids r] by blast
  have "balanced ?rs l'" if l': "l' \<in> set ls'" for l'
  proof -
    from l' obtain l where l: "l \<in> set (bd_ledgers db)"
      and eq: "l' = (if lg_ledgerId l = rs_ledgerId r then g l else l)"
      unfolding ls' update_where_iff by blast
    have "lg_ledgerId (g l) = lg_ledgerId l" using key [of l] by (simp add: ledger_key_def)
    moreover have "balanced (bd_reservations db) l" using inv l by (simp add: budget_inv_def)
    moreover have "ledger_checks l'" using checks l' by (simp add: list_all_iff)
    ultimately show ?thesis
      using status_sum_update [where f = f, OF ids r f(2), of Res_reserved "lg_ledgerId l"]
        status_sum_update [where f = f, OF ids r f(2), of Res_committed "lg_ledgerId l"] sums [of l]
      by (auto simp: balanced_def eq split: if_splits)
  qed
  then show ?thesis
    using inv same_keys [OF keys] f split by (auto simp: budget_inv_def)
qed

section \<open>Rows that only settle\<close>

text \<open>
  Releasing and committing keep the identity of every row and never let it hold more than before.
\<close>

definition row_settled :: "reservation \<Rightarrow> reservation \<Rightarrow> bool" where
  "row_settled x y \<longleftrightarrow>
     rs_reservationId y = rs_reservationId x \<and> rs_ledgerId y = rs_ledgerId x \<and> rs_createdAt y = rs_createdAt x \<and>
     0 < rs_units y \<and> rs_units y \<le> rs_units x \<and> (counts (rs_status y) \<longrightarrow> counts (rs_status x))"

definition rows_settle :: "string set \<Rightarrow> budget_db \<Rightarrow> budget_db \<Rightarrow> bool" where
  "rows_settle ids db db' \<longleftrightarrow>
     budget_inv db' \<and> map ledger_key (bd_ledgers db') = map ledger_key (bd_ledgers db) \<and>
     list_all2 row_settled (bd_reservations db) (bd_reservations db') \<and>
     (\<forall>x \<in> set (bd_reservations db). rs_reservationId x \<notin> ids \<longrightarrow> x \<in> set (bd_reservations db'))"

lemma row_settled_refl: "0 < rs_units x \<Longrightarrow> row_settled x x"
  by (simp add: row_settled_def)

lemma row_settled_trans: "row_settled x y \<Longrightarrow> row_settled y z \<Longrightarrow> row_settled x z"
  by (auto simp: row_settled_def)

lemma rows_settle_refl: "budget_inv db \<Longrightarrow> rows_settle ids db db"
  by (auto simp: rows_settle_def budget_inv_def list_all2_same row_settled_refl)

lemma rows_settle_trans: "rows_settle I a b \<Longrightarrow> rows_settle J b c \<Longrightarrow> rows_settle (I \<union> J) a c"
  unfolding rows_settle_def
  by (auto intro: list_all2_trans [OF row_settled_trans])

lemma rows_settle_inv: "rows_settle ids db db' \<Longrightarrow> budget_inv db'"
  by (simp add: rows_settle_def)

lemma rows_loop:
  assumes step: "\<And>r db db'. budget_inv db \<Longrightarrow> r \<in> set (bd_reservations db) \<Longrightarrow> P r \<Longrightarrow> f r db = Inr db'
      \<Longrightarrow> rows_settle {rs_reservationId r} db db'"
  shows "res_iter f rows db = Inr db' \<Longrightarrow> budget_inv db \<Longrightarrow> set rows \<subseteq> set (bd_reservations db) \<Longrightarrow>
    distinct (map rs_reservationId rows) \<Longrightarrow> list_all P rows \<Longrightarrow> rows_settle (rs_reservationId ` set rows) db db'"
proof (induction rows arbitrary: db)
  case Nil
  then show ?case by (simp add: rows_settle_refl)
next
  case (Cons r rows)
  from Cons.prems(1) obtain db1 where first: "f r db = Inr db1" and rest: "res_iter f rows db1 = Inr db'"
    by (auto simp: res_bind_Inr_iff)
  have one: "rows_settle {rs_reservationId r} db db1" using step [OF _ _ _ first] Cons.prems by simp
  have "x \<in> set (bd_reservations db1)" if "x \<in> set rows" for x
  proof -
    have "rs_reservationId x \<noteq> rs_reservationId r" using that Cons.prems(4) by (auto simp: image_iff)
    moreover have "x \<in> set (bd_reservations db)" using that Cons.prems(3) by auto
    ultimately show ?thesis using one by (simp add: rows_settle_def)
  qed
  then have "set rows \<subseteq> set (bd_reservations db1)" by blast
  then have "rows_settle (rs_reservationId ` set rows) db1 db'"
    using Cons.IH [OF rest rows_settle_inv [OF one]] Cons.prems by simp
  then show ?case using rows_settle_trans [OF one] by simp
qed

lemma positive_integralE:
  assumes "positive_integral u"
  obtains n :: int where "u = of_int n" "n \<ge> 1"
proof -
  have "u = of_int (fst (quotient_of u)) / of_int (snd (quotient_of u))" by (simp add: quotient_of_div [symmetric] prod_eq_iff)
  then have "u = of_int (fst (quotient_of u))" using assms by (simp add: positive_integral_def)
  then show ?thesis using that assms by (metis of_int_1_le_iff positive_integral_def)
qed

text \<open>A row that moves with its ledger rows_settle.\<close>

lemma change_row_settles:
  assumes inv: "budget_inv db" and r: "r \<in> set (bd_reservations db)"
    and change: "with_ledger (rs_ledgerId r) g (set_reservation (rs_reservationId r) f db) = Inr db'"
    and key: "\<And>l. ledger_key (g l) = ledger_key l"
    and f: "row_settled r (f r)"
    and sums: "\<And>l. lg_reservedUnits (g l) = lg_reservedUnits l + (held_units Res_reserved (f r) - held_units Res_reserved r)"
      "\<And>l. lg_committedUnits (g l) \<ge> lg_committedUnits l + (held_units Res_committed (f r) - held_units Res_committed r)"
  shows "rows_settle {rs_reservationId r} db db'"
proof -
  from change obtain ls' where adjust: "adjust_ledger (rs_ledgerId r) g (bd_ledgers db) = Inr ls'"
    and db': "db' = \<lparr>bd_ledgers = ls',
      bd_reservations = update_where (\<lambda>x. rs_reservationId x = rs_reservationId r) f (bd_reservations db)\<rparr>"
    by (auto simp: with_ledger_def set_reservation_def res_bind_Inr_iff)
  have ids: "distinct (map rs_reservationId (bd_reservations db))" using inv by (simp add: budget_inv_def)
  obtain a b where split: "bd_reservations db = a @ r # b"
    "update_where (\<lambda>x. rs_reservationId x = rs_reservationId r) f (bd_reservations db) = a @ f r # b"
    using update_unique_split [OF ids r] by blast
  let ?rows = "update_where (\<lambda>x. rs_reservationId x = rs_reservationId r) f (bd_reservations db)"
  have "budget_inv db'" unfolding db'
    by (rule change_row_inv [where f = f and g = g, OF inv r adjust key]) (use f sums in \<open>simp_all add: row_settled_def\<close>)
  moreover have "map ledger_key ls' = map ledger_key (bd_ledgers db)"
    using adjust by (auto elim!: adjust_ledgerE simp: keys_update_where [OF key])
  moreover have "\<forall>x \<in> set (bd_reservations db). 0 < rs_units x" using inv by (simp add: budget_inv_def)
  then have "list_all2 row_settled (a @ r # b) (a @ f r # b)"
    unfolding split(1) using f by (auto simp: row_settled_refl list_all2_same intro!: list_all2_appendI)
  then have "list_all2 row_settled (bd_reservations db) ?rows" unfolding split(2) unfolding split(1) .
  moreover have "\<forall>x \<in> set (bd_reservations db). rs_reservationId x \<notin> {rs_reservationId r} \<longrightarrow> x \<in> set ?rows"
    unfolding split(2) unfolding split(1) by auto
  ultimately show ?thesis by (simp add: rows_settle_def db')
qed

lemma move_units_key: "ledger_key (move_units u target l) = ledger_key l"
  by (simp add: move_units_def ledger_key_def)

lemma move_one_unit_settles:
  assumes "budget_inv db" "r \<in> set (bd_reservations db)" "rs_status r = Res_reserved"
    and move: "move_one_unit target r db = Inr db'" and target: "target \<noteq> Res_reserved"
  shows "rows_settle {rs_reservationId r} db db'"
proof -
  have units: "positive_integral (rs_units r)" using move by (simp add: move_one_unit_def split: if_splits)
  then obtain n :: int where n: "rs_units r = of_int n" "n \<ge> 1" by (rule positive_integralE)
  have change: "with_ledger (rs_ledgerId r) (move_units 1 target) (set_reservation (rs_reservationId r)
      (\<lambda>x. if rs_units r = 1 then x\<lparr>rs_status := target\<rparr> else x\<lparr>rs_units := rs_units r - 1\<rparr>) db) = Inr db'"
    using move units by (simp add: move_one_unit_def)
  show ?thesis
    by (rule change_row_settles [OF assms(1,2) change move_units_key])
       (use n assms(3) target in \<open>auto simp: row_settled_def counts_def held_units_def move_units_def\<close>)
qed

lemma move_reservation_settles:
  assumes "budget_inv db" "r \<in> set (bd_reservations db)" "rs_status r = Res_reserved"
    and move: "move_reservation ok target r db = Inr db'" and target: "target \<noteq> Res_reserved"
  shows "rows_settle {rs_reservationId r} db db'"
proof -
  have units: "rs_units r > 0" using assms(1,2) by (simp add: budget_inv_def)
  have change: "with_ledger (rs_ledgerId r) (move_units (rs_units r) target)
      (set_reservation (rs_reservationId r) (\<lambda>x. x\<lparr>rs_status := target\<rparr>) db) = Inr db'"
    using move by (simp add: move_reservation_def split: if_splits)
  show ?thesis
    by (rule change_row_settles [OF assms(1,2) change move_units_key])
       (use units assms(3) target in \<open>auto simp: row_settled_def counts_def held_units_def move_units_def\<close>)
qed

text \<open>The functions that only settle rows.\<close>

lemma reserved_rows_props:
  assumes "budget_inv db"
  shows "set (filter p (reserved_rows runId db)) \<subseteq> set (bd_reservations db)"
    "distinct (map rs_reservationId (filter p (reserved_rows runId db)))"
    "list_all (\<lambda>r. rs_status r = Res_reserved) (filter p (reserved_rows runId db))"
  using assms unfolding budget_inv_def
  by (auto simp: reserved_rows_def list_all_iff intro: distinct_map_filter)

lemma rows_settle_weaken: "rows_settle I db db' \<Longrightarrow> rows_settle UNIV db db'"
  by (simp add: rows_settle_def)

lemma settle_rows:
  assumes "res_iter f (filter p (reserved_rows runId db)) db = Inr db'" and inv: "budget_inv db"
    and step: "\<And>r db db'. budget_inv db \<Longrightarrow> r \<in> set (bd_reservations db) \<Longrightarrow> rs_status r = Res_reserved \<Longrightarrow>
      f r db = Inr db' \<Longrightarrow> rows_settle {rs_reservationId r} db db'"
  shows "rows_settle UNIV db db'"
  by (rule rows_settle_weaken)
     (rule rows_loop [where P = "\<lambda>r. rs_status r = Res_reserved", OF step assms(1) inv reserved_rows_props [OF inv]])

lemma move_one_of_each_settles:
  assumes "move_one_of_each what target runId ids db = Inr (b, db')" "target \<noteq> Res_reserved" "budget_inv db"
  shows "rows_settle UNIV db db'"
proof (cases "js_uniq ids = []")
  case True
  then show ?thesis using assms by (simp add: move_one_of_each_def rows_settle_refl)
next
  case False
  then have "res_iter (move_one_unit target)
      (filter (\<lambda>r. rs_reservationId r \<in> set (js_uniq ids)) (reserved_rows runId db)) db = Inr db'"
    using assms(1) by (simp add: move_one_of_each_def Let_def res_bind_Inr_iff split: if_splits)
  then show ?thesis by (rule settle_rows [OF _ assms(3)]) (rule move_one_unit_settles [OF _ _ _ _ assms(2)])
qed

lemma releaseXRunBudgetsExcept_settles:
  assumes "releaseXRunBudgetsExcept runId keep db = Inr (n, db')" "budget_inv db"
  shows "rows_settle UNIV db db'"
proof -
  have "res_iter (move_reservation positive_integral Res_released)
      (filter (\<lambda>r. rs_reservationId r \<notin> set keep) (reserved_rows runId db)) db = Inr db'"
    using assms(1) by (simp add: releaseXRunBudgetsExcept_def Let_def res_bind_Inr_iff)
  then show ?thesis by (rule settle_rows [OF _ assms(2)]) (rule move_reservation_settles, auto)
qed

lemma transitionRunBudgets_settles:
  assumes "transitionRunBudgets target runId db = Inr (n, db')" "target \<noteq> Res_reserved" "budget_inv db"
  shows "rows_settle UNIV db db'"
proof -
  have "res_iter (move_reservation (\<lambda>u. u > 0) target) (filter (\<lambda>_. True) (reserved_rows runId db)) db = Inr db'"
    using assms(1) by (simp add: transitionRunBudgets_def Let_def res_bind_Inr_iff)
  then show ?thesis by (rule settle_rows [OF _ assms(3)]) (rule move_reservation_settles [OF _ _ _ _ assms(2)])
qed

lemma commitProbe_settles:
  assumes "commitProbeAndReleaseXRunBudgets runId probe incremented db = Inr (b, db')" "budget_inv db"
  shows "rows_settle UNIV db db'"
proof (cases "probe = []")
  case True
  then show ?thesis using assms by (simp add: commitProbeAndReleaseXRunBudgets_def rows_settle_refl)
next
  case False
  then obtain n r c db1 db2 where
    1: "releaseXRunBudgetsExcept runId (probe @ incremented) db = Inr (n, db1)" and
    2: "releaseOneXRunBudgetUnit runId incremented db1 = Inr (r, db2)" and
    3: "commitOneXRunBudgetUnit runId probe db2 = Inr (c, db')"
    using assms(1) by (auto simp: commitProbeAndReleaseXRunBudgets_def res_bind_Inr_iff split: prod.splits)
  have s1: "rows_settle UNIV db db1" by (rule releaseXRunBudgetsExcept_settles [OF 1 assms(2)])
  have s2: "rows_settle UNIV db1 db2"
    using 2 unfolding releaseOneXRunBudgetUnit_def by (rule move_one_of_each_settles) (simp_all add: rows_settle_inv [OF s1])
  have "rows_settle UNIV db2 db'"
    using 3 unfolding commitOneXRunBudgetUnit_def by (rule move_one_of_each_settles) (simp_all add: rows_settle_inv [OF s2])
  with s1 s2 show ?thesis by (metis rows_settle_trans sup_top_left)
qed

section \<open>New rows\<close>

lemma upsert_inv:
  assumes inv: "budget_inv db" and fresh: "fresh \<notin> lg_ledgerId ` set (bd_ledgers db)"
    and upsert: "upsert_ledger fresh kind key unit bucket limit (bd_ledgers db) = Inr (i, ls')"
  shows "budget_inv (db\<lparr>bd_ledgers := ls'\<rparr>)"
    and "\<exists>l \<in> set ls'. lg_ledgerId l = i \<and> same_window kind key unit bucket l"
    and "map ledger_key ls' = map ledger_key (bd_ledgers db) \<or>
      (\<exists>w. i = fresh \<and> map ledger_key ls' = map ledger_key (bd_ledgers db) @ [(i, kind, key, unit, w)])"
proof -
  let ?same = "same_window kind key unit bucket"
  let ?max = "\<lambda>l. l\<lparr>lg_maxUnits := max (lg_maxUnits l) (max (lg_reservedUnits l + lg_committedUnits l) (of_int limit))\<rparr>"
  have "budget_inv (db\<lparr>bd_ledgers := ls'\<rparr>) \<and> (\<exists>l \<in> set ls'. lg_ledgerId l = i \<and> ?same l) \<and>
      (map ledger_key ls' = map ledger_key (bd_ledgers db) \<or>
      (\<exists>w. i = fresh \<and> map ledger_key ls' = map ledger_key (bd_ledgers db) @ [(i, kind, key, unit, w)]))"
  proof (cases "List.find ?same (bd_ledgers db)")
    case None
    let ?l = "\<lparr>lg_ledgerId = fresh, lg_scopeKind = kind, lg_scopeKey = key, lg_unitKind = unit,
      lg_windowStart = fst bucket, lg_windowEnd = snd bucket, lg_maxUnits = of_int limit,
      lg_reservedUnits = 0, lg_committedUnits = 0\<rparr>"
    have ls': "ls' = bd_ledgers db @ [?l]" "i = fresh" "ledger_checks ?l"
      using upsert None by (auto simp: upsert_ledger_def Let_def split: if_splits)
    have "\<forall>l \<in> set (bd_ledgers db). snd (ledger_key ?l) \<noteq> snd (ledger_key l)"
      using None by (auto simp: find_None_iff same_window_def ledger_key_def)
    moreover have "status_sum st (bd_reservations db) fresh = 0" for st
    proof -
      have "rs_ledgerId ` set (bd_reservations db) \<subseteq> lg_ledgerId ` set (bd_ledgers db)"
        using inv by (simp add: budget_inv_def)
      then have "filter (\<lambda>r. rs_ledgerId r = fresh) (bd_reservations db) = []"
        using fresh by (auto simp: filter_empty_conv image_iff)
      then show ?thesis by (simp add: status_sum_def)
    qed
    ultimately have "budget_inv (db\<lparr>bd_ledgers := ls'\<rparr>)"
      using inv fresh ls'(3) by (auto simp: budget_inv_def ls' balanced_def)
    then show ?thesis by (auto simp: ls' same_window_def ledger_key_def)
  next
    case (Some l)
    then have l: "l \<in> set (bd_ledgers db)" "?same l" by (auto simp: find_Some_iff)
    have ls': "ls' = update_where ?same ?max (bd_ledgers db)" "i = lg_ledgerId l"
      using upsert Some by (simp_all add: upsert_ledger_def)
    have keys: "map ledger_key ls' = map ledger_key (bd_ledgers db)"
      unfolding ls' by (rule keys_update_where) (simp add: ledger_key_def)
    have "balanced (bd_reservations db) x" if "x \<in> set ls'" for x
    proof -
      from that obtain y where y: "y \<in> set (bd_ledgers db)" "x = (if ?same y then ?max y else y)"
        unfolding ls' update_where_iff by blast
      have "balanced (bd_reservations db) y" using inv y(1) by (simp add: budget_inv_def)
      then show ?thesis by (auto simp: y(2) balanced_def ledger_checks_def)
    qed
    then have "budget_inv (db\<lparr>bd_ledgers := ls'\<rparr>)"
      using inv same_keys [OF keys] by (simp add: budget_inv_def)
    moreover
    have "?max l \<in> set ls'" using l unfolding ls' update_where_iff by force
    then have "\<exists>l \<in> set ls'. lg_ledgerId l = i \<and> ?same l"
      using l(2) by (intro bexI [of _ "?max l"]) (simp_all add: ls'(2) same_window_def)
    ultimately show ?thesis using keys by blast
  qed
  then show "budget_inv (db\<lparr>bd_ledgers := ls'\<rparr>)"
    "\<exists>l \<in> set ls'. lg_ledgerId l = i \<and> same_window kind key unit bucket l"
    "map ledger_key ls' = map ledger_key (bd_ledgers db) \<or>
      (\<exists>w. i = fresh \<and> map ledger_key ls' = map ledger_key (bd_ledgers db) @ [(i, kind, key, unit, w)])" by blast+
qed

lemma append_row_inv:
  assumes inv: "budget_inv db" and i: "i \<in> lg_ledgerId ` set (bd_ledgers db)"
    and adjust: "adjust_ledger i (add_reserved u) (bd_ledgers db) = Inr ls'" and "u > 0"
    and fresh: "fresh \<notin> rs_reservationId ` set (bd_reservations db)"
  shows "budget_inv \<lparr>bd_ledgers = ls', bd_reservations = bd_reservations db @ [new_reservation fresh i runId u now]\<rparr>"
proof -
  let ?r = "new_reservation fresh i runId u now"
  from adjust obtain ls': "ls' = update_where (\<lambda>l. lg_ledgerId l = i) (add_reserved u) (bd_ledgers db)"
    and checks: "list_all ledger_checks ls'" by (rule adjust_ledgerE)
  have keys: "map ledger_key ls' = map ledger_key (bd_ledgers db)"
    unfolding ls' by (rule keys_update_where) (simp add: ledger_key_def add_reserved_def)
  have "balanced (bd_reservations db @ [?r]) l'" if l': "l' \<in> set ls'" for l'
  proof -
    from l' obtain l where l: "l \<in> set (bd_ledgers db)" and eq: "l' = (if lg_ledgerId l = i then add_reserved u l else l)"
      unfolding ls' update_where_iff by blast
    have "balanced (bd_reservations db) l" using inv l by (simp add: budget_inv_def)
    moreover have "ledger_checks l'" using checks l' by (simp add: list_all_iff)
    ultimately show ?thesis
      by (auto simp: balanced_def eq status_sum_append add_reserved_def status_sum_def new_reservation_def held_units_def)
  qed
  then show ?thesis
    using inv same_keys [OF keys] i fresh \<open>u > 0\<close> by (simp add: budget_inv_def new_reservation_def)
qed

text \<open>
  How a reservation extends the tables: known ledgers keep their identity, and either a row of the
  scope is appended or a row that is still reserved grows.
\<close>

definition appends :: "budget_scope_kind \<Rightarrow> string \<Rightarrow> unit_kind \<Rightarrow> rat \<Rightarrow> int \<Rightarrow> budget_db \<Rightarrow> budget_db \<Rightarrow> bool" where
  "appends kind key unit u now db db' \<longleftrightarrow>
     (\<exists>fresh i runId ks. bd_reservations db' = bd_reservations db @ [new_reservation fresh i runId u now] \<and>
        map ledger_key (bd_ledgers db') = map ledger_key (bd_ledgers db) @ ks \<and>
        (\<exists>l \<in> set (bd_ledgers db'). lg_ledgerId l = i \<and> lg_scopeKind l = kind \<and> lg_scopeKey l = key \<and> lg_unitKind l = unit))"

lemma ids_of_keys: "lg_ledgerId ` set ls = fst ` set (map ledger_key ls)"
  by (simp add: image_image ledger_key_def)

lemma ids_extended:
  assumes "map ledger_key ls' = map ledger_key ls \<or> (\<exists>w. i = fresh \<and> map ledger_key ls' = map ledger_key ls @ [(i, rest w)])"
  shows "lg_ledgerId ` set ls' \<subseteq> insert fresh (lg_ledgerId ` set ls)"
  using assms by (auto simp del: set_map simp: ids_of_keys)

lemma append_upserted:
  assumes inv: "budget_inv db" and fresh: "freshLedger \<notin> lg_ledgerId ` set (bd_ledgers db)"
      "freshRow \<notin> rs_reservationId ` set (bd_reservations db)"
    and upsert: "upsert_ledger freshLedger kind key unit bucket limit (bd_ledgers db) = Inr (i, ls1)"
    and adjust: "adjust_ledger i (add_reserved u) ls1 = Inr ls2" and "u > 0"
    and db': "db' = \<lparr>bd_ledgers = ls2, bd_reservations = bd_reservations db @ [new_reservation freshRow i runId u now]\<rparr>"
  shows "budget_inv db'" "appends kind key unit u now db db'"
    "lg_ledgerId ` set (bd_ledgers db') \<subseteq> insert freshLedger (lg_ledgerId ` set (bd_ledgers db))"
proof -
  note upserted = upsert_inv [OF inv fresh(1) upsert]
  obtain l where l: "l \<in> set ls1" "lg_ledgerId l = i" "same_window kind key unit bucket l" using upserted(2) by blast
  show "budget_inv db'"
    using append_row_inv [OF upserted(1) _ _ \<open>u > 0\<close>, of i ls2 freshRow runId now] adjust l fresh(2)
    by (force simp: db')
  from adjust have ls2: "ls2 = update_where (\<lambda>l. lg_ledgerId l = i) (add_reserved u) ls1" by (rule adjust_ledgerE)
  have keys: "map ledger_key ls2 = map ledger_key ls1"
    unfolding ls2 by (rule keys_update_where) (simp add: ledger_key_def add_reserved_def)
  have "add_reserved u l \<in> set ls2" using l unfolding ls2 update_where_iff by force
  moreover obtain ks where "map ledger_key ls1 = map ledger_key (bd_ledgers db) @ ks" using upserted(3) by force
  ultimately show "appends kind key unit u now db db'"
    unfolding appends_def using l keys
    by (intro exI [of _ freshRow] exI [of _ i] exI [of _ runId] exI [of _ ks] conjI bexI [of _ "add_reserved u l"])
       (simp_all add: db' add_reserved_def same_window_def)
  show "lg_ledgerId ` set (bd_ledgers db') \<subseteq> insert freshLedger (lg_ledgerId ` set (bd_ledgers db))"
    using ids_extended [OF upserted(3)] same_keys(3) [OF keys] by (simp add: db')
qed

text \<open>The identifiers a transaction adds are among the ones it drew.\<close>

definition new_ids :: "string set \<Rightarrow> budget_db \<Rightarrow> budget_db \<Rightarrow> bool" where
  "new_ids drawn db db' \<longleftrightarrow>
     lg_ledgerId ` set (bd_ledgers db') \<subseteq> drawn \<union> lg_ledgerId ` set (bd_ledgers db) \<and>
     rs_reservationId ` set (bd_reservations db') \<subseteq> drawn \<union> rs_reservationId ` set (bd_reservations db)"

lemma reserve_scope_cases:
  assumes inv: "budget_inv db" and notin: "freshLedger \<notin> lg_ledgerId ` set (bd_ledgers db)"
      "freshRow \<notin> rs_reservationId ` set (bd_reservations db)" and "units \<ge> 1"
    and reserve: "reserve_scope freshLedger freshRow runId separate units now scope db = Inr ((i, new), db')"
  shows "budget_inv db'" "new_ids {freshLedger, freshRow} db db'"
    "new \<Longrightarrow> appends (bs_scopeKind scope) (bs_scopeKey scope) Unit_call (of_int units) now db db'"
proof -
  from reserve obtain ledgerId ls1 ls2 where
    upsert: "upsert_ledger freshLedger (bs_scopeKind scope) (bs_scopeKey scope) Unit_call (hourBucket now)
      (bs_limit scope) (bd_ledgers db) = Inr (ledgerId, ls1)" and
    adjust: "adjust_ledger ledgerId (add_reserved (of_int units)) ls1 = Inr ls2" and
    rows: "(case (if separate then None else List.find (reserved_of_run runId ledgerId) (bd_reservations db)) of
       Some r \<Rightarrow> Inr ((rs_reservationId r, False),
         \<lparr>bd_ledgers = ls2, bd_reservations = update_where (\<lambda>x. rs_reservationId x = rs_reservationId r)
            (\<lambda>x. x\<lparr>rs_units := rs_units x + of_int units\<rparr>) (bd_reservations db)\<rparr>)
     | None \<Rightarrow> Inr ((freshRow, True),
         \<lparr>bd_ledgers = ls2, bd_reservations = bd_reservations db @
            [new_reservation freshRow ledgerId runId (of_int units) now]\<rparr>)) =
       (Inr ((i, new), db') :: (budget_error, _) result)"
    by (auto simp: reserve_scope_def res_bind_Inr_iff)
  have units: "(0 :: rat) < of_int units" using \<open>units \<ge> 1\<close> by simp
  note upserted = upsert_inv [OF inv notin(1) upsert]
  have "budget_inv db' \<and> new_ids {freshLedger, freshRow} db db' \<and>
    (new \<longrightarrow> appends (bs_scopeKind scope) (bs_scopeKey scope) Unit_call (of_int units) now db db')"
  proof (cases "if separate then None else List.find (reserved_of_run runId ledgerId) (bd_reservations db)")
    case None
    then have db': "new" "db' = \<lparr>bd_ledgers = ls2, bd_reservations = bd_reservations db @
        [new_reservation freshRow ledgerId runId (of_int units) now]\<rparr>"
      using rows by auto
    note appended = append_upserted [OF inv notin upsert adjust units db'(2)]
    then show ?thesis by (auto simp: new_ids_def db'(2) new_reservation_def)
  next
    case (Some r)
    let ?f = "\<lambda>x. x\<lparr>rs_units := rs_units x + of_int units\<rparr>"
    have db': "\<not> new" "db' = \<lparr>bd_ledgers = ls2,
        bd_reservations = update_where (\<lambda>x. rs_reservationId x = rs_reservationId r) ?f (bd_reservations db)\<rparr>"
      using rows Some by auto
    have r: "r \<in> set (bd_reservations db)" "rs_ledgerId r = ledgerId" "rs_status r = Res_reserved"
      using Some by (auto simp: find_Some_iff reserved_of_run_def split: if_splits)
    have "0 < rs_units r" using inv r(1) by (simp add: budget_inv_def)
    then have "budget_inv db'"
      using change_row_inv [where f = ?f and g = "add_reserved (of_int units)", OF upserted(1), of r ls2] r adjust units
      by (simp add: db'(2) ledger_key_def add_reserved_def held_units_def)
    moreover have "new_ids {freshLedger, freshRow} db db'"
    proof -
      have keys2: "map ledger_key ls2 = map ledger_key ls1"
        using adjust by (auto elim!: adjust_ledgerE intro!: keys_update_where simp: ledger_key_def add_reserved_def)
      have "lg_ledgerId ` set ls2 \<subseteq> insert freshLedger (lg_ledgerId ` set (bd_ledgers db))"
        using ids_extended [OF upserted(3)] same_keys(3) [OF keys2] by simp
      moreover have "rs_reservationId ` set (bd_reservations db') = rs_reservationId ` set (bd_reservations db)"
      proof -
        have "map rs_reservationId (bd_reservations db') = map rs_reservationId (bd_reservations db)"
          by (simp add: db'(2) update_where_def)
        then show ?thesis by (metis list.set_map)
      qed
      ultimately show ?thesis by (auto simp: new_ids_def db'(2))
    qed
    ultimately show ?thesis using db'(1) by simp
  qed
  then show "budget_inv db'" "new_ids {freshLedger, freshRow} db db'"
    "new \<Longrightarrow> appends (bs_scopeKind scope) (bs_scopeKey scope) Unit_call (of_int units) now db db'" by blast+
qed

text \<open>The identifiers a function draws are new and different.\<close>

definition fresh_from :: "(nat \<Rightarrow> string) \<Rightarrow> nat \<Rightarrow> budget_db \<Rightarrow> bool" where
  "fresh_from fresh n db \<longleftrightarrow> inj fresh \<and>
     (\<forall>m \<ge> n. fresh m \<notin> lg_ledgerId ` set (bd_ledgers db) \<and> fresh m \<notin> rs_reservationId ` set (bd_reservations db))"

lemma fresh_from_later:
  assumes "fresh_from fresh n db" "new_ids {fresh n, fresh (n + 1)} db db'"
  shows "fresh_from fresh (n + 2) db'"
proof -
  have "fresh m \<notin> lg_ledgerId ` set (bd_ledgers db') \<and> fresh m \<notin> rs_reservationId ` set (bd_reservations db')"
    if m: "m \<ge> n + 2" for m
  proof -
    have "fresh m \<notin> {fresh n, fresh (n + 1)}" using assms(1) m by (auto simp: fresh_from_def inj_eq)
    moreover have "fresh m \<notin> lg_ledgerId ` set (bd_ledgers db)" "fresh m \<notin> rs_reservationId ` set (bd_reservations db)"
      using assms(1) m by (simp_all add: fresh_from_def)
    ultimately show ?thesis using assms(2) unfolding new_ids_def by blast
  qed
  then show ?thesis using assms(1) by (simp add: fresh_from_def)
qed

lemma reserve_scopes_inv:
  "reserve_scopes fresh n runId separate units now scopes db = Inr (helds, db') \<Longrightarrow> budget_inv db \<Longrightarrow>
   fresh_from fresh n db \<Longrightarrow> units \<ge> 1 \<Longrightarrow> budget_inv db'"
proof (induction scopes arbitrary: n db helds)
  case Nil
  then show ?case by simp
next
  case (Cons scope scopes)
  from Cons.prems(1) obtain i new helds' db1 where
    one: "reserve_scope (fresh n) (fresh (n + 1)) runId separate units now scope db = Inr ((i, new), db1)" and
    rest: "reserve_scopes fresh (n + 2) runId separate units now scopes db1 = Inr (helds', db')"
    by (fastforce simp: res_bind_Inr_iff)
  have notin: "fresh n \<notin> lg_ledgerId ` set (bd_ledgers db)" "fresh (n + 1) \<notin> rs_reservationId ` set (bd_reservations db)"
    using Cons.prems(3) by (auto simp: fresh_from_def)
  note step = reserve_scope_cases [OF Cons.prems(2) notin Cons.prems(4) one]
  show ?case by (rule Cons.IH [OF rest step(1) fresh_from_later [OF Cons.prems(3) step(2)] Cons.prems(4)])
qed

section \<open>Transactions\<close>

text \<open>
  The transactions on the budgets: those that settle rows, those of the media providers (which alone
  reconcile units, never of calls) and the reservations of calls.
\<close>

inductive settle_step :: "budget_db \<Rightarrow> budget_db \<Rightarrow> bool" where
  release_one: "releaseOneXRunBudgetUnit runId ids db = Inr (released, db') \<Longrightarrow> settle_step db db'"
| commit_one: "commitOneXRunBudgetUnit runId ids db = Inr (committed, db') \<Longrightarrow> settle_step db db'"
| release_except: "releaseXRunBudgetsExcept runId ids db = Inr (n, db') \<Longrightarrow> settle_step db db'"
| commit_probe: "commitProbeAndReleaseXRunBudgets runId probes increments db = Inr (finished, db') \<Longrightarrow> settle_step db db'"
| commit_run: "commitXRunBudgets runId db = Inr (n, db') \<Longrightarrow> settle_step db db'"
| release_run: "releaseXRunBudgets runId db = Inr (n, db') \<Longrightarrow> settle_step db db'"

inductive media_step :: "budget_db \<Rightarrow> budget_db \<Rightarrow> bool" where
  reserve_audio: "fresh_from fresh 0 db \<Longrightarrow>
    reserveHermesAudioBudget fresh runId seconds minutes dbNow db = Inr (out, db') \<Longrightarrow> media_step db db'"
| reserve_credits: "fresh_from fresh 0 db \<Longrightarrow>
    reserveSupadataCreditBudget fresh runId credits limit dbNow db = Inr (out, db') \<Longrightarrow> media_step db db'"
| reconcile: "unit \<noteq> Unit_call \<Longrightarrow>
    reconcileReservedProviderBudget runId key unit actual db = Inr (found, db') \<Longrightarrow> media_step db db'"

inductive budget_step :: "budget_db \<Rightarrow> budget_db \<Rightarrow> bool" where
  reserve_x: "fresh_from fresh 0 db \<Longrightarrow>
    reserveXRunBudgets fresh runId phase lane dbNow policy units separate db = Inr (out, db') \<Longrightarrow> budget_step db db'"
| settle: "settle_step db db' \<Longrightarrow> budget_step db db'"
| media: "media_step db db' \<Longrightarrow> budget_step db db'"

lemma reserve_provider_cases:
  assumes inv: "budget_inv db" and fresh: "fresh_from fresh 0 db" and "units \<ge> 1"
    and reserve: "reserve_provider fresh key unit runId units limit now db = Inr (out, db')"
  shows "budget_inv db' \<and> (db' = db \<or> appends Scope_provider key unit (of_int units) now db db' \<and>
    rolling_usage Scope_provider key unit (now - 24 * 60 * 60000) db + of_int units \<le> of_int limit)"
proof (cases "(let mine = filter (\<lambda>r. rs_runId r = runId \<and> in_budget Scope_provider key unit db r) (bd_reservations db)
    in mine \<noteq> [] \<and> counts (rs_status (hd mine))) \<or>
    rolling_usage Scope_provider key unit (now - 24 * 60 * 60000) db + of_int units > of_int limit")
  case True
  then have "db' = db" using reserve by (auto simp: reserve_provider_def Let_def split: if_splits)
  then show ?thesis using inv by simp
next
  case False
  then obtain i ls1 ls2 where
    upsert: "upsert_ledger (fresh 0) Scope_provider key unit (hourBucket now) limit (bd_ledgers db) = Inr (i, ls1)" and
    adjust: "adjust_ledger i (add_reserved (of_int units)) ls1 = Inr ls2" and
    db': "db' = \<lparr>bd_ledgers = ls2, bd_reservations = bd_reservations db @
      [new_reservation (fresh 1) i runId (of_int units) now]\<rparr>"
    using reserve by (auto simp: reserve_provider_def Let_def res_bind_Inr_iff)
  have notin: "fresh 0 \<notin> lg_ledgerId ` set (bd_ledgers db)" "fresh 1 \<notin> rs_reservationId ` set (bd_reservations db)"
    using fresh by (auto simp: fresh_from_def)
  have "(0 :: rat) < of_int units" using \<open>units \<ge> 1\<close> by simp
  from append_upserted(1,2) [OF inv notin upsert adjust this db'] show ?thesis using False by auto
qed

lemma audio_cases:
  assumes "budget_inv db" "fresh_from fresh 0 db"
    and "reserveHermesAudioBudget fresh runId seconds minutes now db = Inr (out, db')"
  shows "budget_inv db' \<and> (db' = db \<or> appends Scope_provider ''HERMES_TRANSCRIPT'' Unit_audio_second (of_int \<lceil>seconds\<rceil>) now db db')"
proof -
  have "seconds > 0" and
    "reserve_provider fresh ''HERMES_TRANSCRIPT'' Unit_audio_second runId \<lceil>seconds\<rceil> (minutes * 60) now db = Inr (out, db')"
    using assms(3) by (auto simp: reserveHermesAudioBudget_def split: if_splits)
  moreover from this have "\<lceil>seconds\<rceil> \<ge> 1" by (simp add: int_one_le_iff_zero_less)
  ultimately show ?thesis using reserve_provider_cases [OF assms(1,2)] by blast
qed

lemma credit_cases:
  assumes "budget_inv db" "fresh_from fresh 0 db"
    and "reserveSupadataCreditBudget fresh runId credits limit now db = Inr (out, db')"
  shows "budget_inv db' \<and> (db' = db \<or> appends Scope_provider ''SUPADATA_TRANSCRIPT'' Unit_credit (of_int credits) now db db')"
proof -
  have "credits \<ge> 1" and
    "reserve_provider fresh ''SUPADATA_TRANSCRIPT'' Unit_credit runId credits limit now db = Inr (out, db')"
    using assms(3) by (auto simp: reserveSupadataCreditBudget_def split: if_splits)
  then show ?thesis using reserve_provider_cases [OF assms(1,2)] by blast
qed

lemma reconcile_cases:
  assumes inv: "budget_inv db" and reconcile: "reconcileReservedProviderBudget runId key unit actual db = Inr (found, db')"
  shows "budget_inv db'" "db' = db \<or>
    (\<exists>r f. r \<in> set (bd_reservations db) \<and> in_budget Scope_provider key unit db r \<and> rs_ledgerId (f r) = rs_ledgerId r \<and>
      map ledger_key (bd_ledgers db') = map ledger_key (bd_ledgers db) \<and>
      bd_reservations db' = update_where (\<lambda>x. rs_reservationId x = rs_reservationId r) f (bd_reservations db))"
proof -
  let ?mine = "filter (\<lambda>r. rs_runId r = runId \<and> counts (rs_status r) \<and> in_budget Scope_provider key unit db r) (bd_reservations db)"
  have "budget_inv db' \<and> (db' = db \<or> (\<exists>r f. r \<in> set (bd_reservations db) \<and> in_budget Scope_provider key unit db r \<and>
      rs_ledgerId (f r) = rs_ledgerId r \<and> map ledger_key (bd_ledgers db') = map ledger_key (bd_ledgers db) \<and>
      bd_reservations db' = update_where (\<lambda>x. rs_reservationId x = rs_reservationId r) f (bd_reservations db)))"
  proof (cases "?mine = []")
    case True
    then show ?thesis using inv reconcile by (simp add: reconcileReservedProviderBudget_def split: if_splits)
  next
    case False
    then obtain r where mine: "?mine = [r]"
      using reconcile by (cases ?mine rule: remdups_adj.cases)
        (auto simp only: reconcileReservedProviderBudget_def list.case sum.simps split: if_splits)
    let ?f = "\<lambda>x. x\<lparr>rs_units := actual\<rparr>" and ?g = "reconcile_ledger (rs_status r) (actual - rs_units r)"
    have "r \<in> set ?mine" by (simp only: mine) simp
    then have r: "r \<in> set (bd_reservations db)" "in_budget Scope_provider key unit db r" "counts (rs_status r)" by auto
    from reconcile mine have actual: "actual > 0"
      and "with_ledger (rs_ledgerId r) ?g (set_reservation (rs_reservationId r) ?f db) = Inr db'"
      by (auto simp: reconcileReservedProviderBudget_def res_bind_Inr_iff split: if_splits)
    then obtain ls' where adjust: "adjust_ledger (rs_ledgerId r) ?g (bd_ledgers db) = Inr ls'"
      and db': "db' = \<lparr>bd_ledgers = ls',
        bd_reservations = update_where (\<lambda>x. rs_reservationId x = rs_reservationId r) ?f (bd_reservations db)\<rparr>"
      by (auto simp: with_ledger_def set_reservation_def res_bind_Inr_iff)
    have key: "ledger_key (?g l) = ledger_key l" for l by (simp add: reconcile_ledger_def ledger_key_def)
    have "budget_inv db'" unfolding db'
      by (rule change_row_inv [where f = ?f and g = ?g, OF inv r(1) adjust key])
         (use r(3) actual in \<open>auto simp: reconcile_ledger_def held_units_def counts_def\<close>)
    moreover have "map ledger_key ls' = map ledger_key (bd_ledgers db)"
      using adjust by (auto elim!: adjust_ledgerE simp: keys_update_where [OF key])
    ultimately show ?thesis using r by (intro conjI disjI2 exI [of _ r] exI [of _ ?f]) (simp_all add: db')
  qed
  then show "budget_inv db'" "db' = db \<or>
    (\<exists>r f. r \<in> set (bd_reservations db) \<and> in_budget Scope_provider key unit db r \<and> rs_ledgerId (f r) = rs_ledgerId r \<and>
      map ledger_key (bd_ledgers db') = map ledger_key (bd_ledgers db) \<and>
      bd_reservations db' = update_where (\<lambda>x. rs_reservationId x = rs_reservationId r) f (bd_reservations db))" by blast+
qed

lemma settle_step_settles: "settle_step db db' \<Longrightarrow> budget_inv db \<Longrightarrow> rows_settle UNIV db db'"
  by (induction rule: settle_step.induct)
     (auto simp: releaseOneXRunBudgetUnit_def commitOneXRunBudgetUnit_def commitXRunBudgets_def releaseXRunBudgets_def
       intro: move_one_of_each_settles releaseXRunBudgetsExcept_settles commitProbe_settles transitionRunBudgets_settles)

lemma media_step_inv: "media_step db db' \<Longrightarrow> budget_inv db \<Longrightarrow> budget_inv db'"
proof (induction rule: media_step.induct)
  case (reconcile unit runId key actual db found db')
  show ?case by (rule reconcile_cases(1) [OF reconcile(3,2)])
qed (use audio_cases credit_cases in blast)+

text \<open>A reservation of calls changes nothing, or passed the check of every scope.\<close>

lemma reserveXRunBudgets_cases:
  assumes "reserveXRunBudgets fresh runId phase lane now policy units separate db = Inr (out, db')"
  obtains (deferred) "db' = db"
  | (reserved) helds where "coalesce units 1 \<ge> 1"
      "\<forall>s \<in> set (budgetScopes phase lane policy). scope_usage now db s + of_int (coalesce units 1) \<le> of_int (bs_limit s)"
      "reserve_scopes fresh 0 runId separate (coalesce units 1) now (budgetScopes phase lane policy) db = Inr (helds, db')"
      "xr_incrementedIds out = map fst (filter (\<lambda>h. \<not> snd h) helds)"
proof -
  let ?over = "\<lambda>s. scope_usage now db s + of_int (coalesce units 1) > of_int (bs_limit s)"
  show ?thesis
  proof (cases "List.find ?over (budgetScopes phase lane policy)")
    case None
    then have "\<forall>s \<in> set (budgetScopes phase lane policy). scope_usage now db s + of_int (coalesce units 1) \<le> of_int (bs_limit s)"
      by (auto simp: find_None_iff)
    moreover obtain helds where "coalesce units 1 \<ge> 1"
      "reserve_scopes fresh 0 runId separate (coalesce units 1) now (budgetScopes phase lane policy) db = Inr (helds, db')"
      "xr_incrementedIds out = map fst (filter (\<lambda>h. \<not> snd h) helds)"
      using assms None by (auto simp: reserveXRunBudgets_def Let_def res_bind_Inr_iff split: if_splits)
    ultimately show ?thesis by (intro reserved)
  next
    case (Some s)
    then show ?thesis using assms by (intro deferred) (auto simp: reserveXRunBudgets_def Let_def split: if_splits)
  qed
qed

lemma budget_step_inv: "budget_step db db' \<Longrightarrow> budget_inv db \<Longrightarrow> budget_inv db'"
proof (induction rule: budget_step.induct)
  case (reserve_x fresh db runId phase lane dbNow policy units separate out db')
  from reserve_x(2) show ?case
    by (cases rule: reserveXRunBudgets_cases) (use reserve_x reserve_scopes_inv in auto)
next
  case (settle db db')
  then show ?case using settle_step_settles rows_settle_inv by blast
next
  case (media db db')
  then show ?case using media_step_inv by blast
qed

interpretation budgets: step_invariant budget_step budget_inv
  by unfold_locales (rule budget_step_inv)

definition no_budgets :: budget_db where
  "no_budgets = \<lparr>bd_ledgers = [], bd_reservations = []\<rparr>"

lemma no_budgets_inv: "budget_inv no_budgets"
  by (simp add: no_budgets_def budget_inv_def)

lemma status_sum_units:
  "status_sum st rs i = sum_units (filter (\<lambda>r. rs_ledgerId r = i \<and> rs_status r = st) rs)"
  by (induction rs) (auto simp: status_sum_def sum_units_def held_units_def)

text \<open>
  C39. However reservations, probes, commits, releases and reconciliations interleave, the
  books balance: what a ledger says is reserved is what its open reservations hold, what its
  committed reservations hold was committed to it, both together are within its maximum, and
  each scope has one ledger for each hour.
\<close>

theorem budget_books_balance:
  assumes "budget_step\<^sup>*\<^sup>* no_budgets db" and "l \<in> set (bd_ledgers db)"
  shows "lg_reservedUnits l =
      sum_units (filter (\<lambda>r. rs_ledgerId r = lg_ledgerId l \<and> rs_status r = Res_reserved) (bd_reservations db)) \<and>
    sum_units (filter (\<lambda>r. rs_ledgerId r = lg_ledgerId l \<and> rs_status r = Res_committed) (bd_reservations db))
      \<le> lg_committedUnits l \<and>
    lg_reservedUnits l + lg_committedUnits l \<le> lg_maxUnits l \<and>
    filter (same_window (lg_scopeKind l) (lg_scopeKey l) (lg_unitKind l) (lg_windowStart l, lg_windowEnd l))
      (bd_ledgers db) = [l]"
proof -
  have inv: "budget_inv db" using budgets.reach_inv [OF assms(1) no_budgets_inv] .
  obtain a b where split: "bd_ledgers db = a @ l # b" using assms(2) by (meson split_list)
  let ?same = "same_window (lg_scopeKind l) (lg_scopeKey l) (lg_unitKind l) (lg_windowStart l, lg_windowEnd l)"
  have keys: "inj_on (snd \<circ> ledger_key) (set (bd_ledgers db))" "distinct (bd_ledgers db)"
    using inv by (simp_all add: budget_inv_def distinct_map)
  have "\<not> ?same x" if x: "x \<in> set a \<union> set b" for x
  proof
    assume "?same x"
    then have "(snd \<circ> ledger_key) x = (snd \<circ> ledger_key) l" by (simp add: same_window_def ledger_key_def)
    then have "x = l" using inj_onD [OF keys(1)] x by (simp add: split)
    then show False using keys(2) x by (auto simp: split)
  qed
  then have "filter ?same a = []" "filter ?same b = []" by (auto simp: filter_empty_conv)
  moreover have "?same l" by (simp add: same_window_def)
  ultimately have "filter ?same (bd_ledgers db) = [l]" by (simp add: split)
  moreover have "balanced (bd_reservations db) l" using inv assms(2) by (simp add: budget_inv_def)
  ultimately show ?thesis by (simp add: balanced_def ledger_checks_def status_sum_units)
qed

section \<open>Rolling windows\<close>

definition window_units :: "budget_scope_kind \<Rightarrow> string \<Rightarrow> int \<Rightarrow> int \<Rightarrow> budget_db \<Rightarrow> rat" where
  "window_units kind key since till db =
     sum_units (filter (\<lambda>r. in_budget kind key Unit_call db r \<and> counts (rs_status r) \<and> since < rs_createdAt r \<and> rs_createdAt r \<le> till)
       (bd_reservations db))"

text \<open>What a row adds, where the ledgers' identities are \<open>keys\<close>.\<close>

definition key_matches :: "budget_scope_kind \<Rightarrow> string \<Rightarrow> unit_kind \<Rightarrow> (string \<times> budget_scope_kind \<times> string \<times> unit_kind \<times> int \<times> int) set
    \<Rightarrow> string \<Rightarrow> bool" where
  "key_matches kind key unit keys i \<longleftrightarrow> (\<exists>w. (i, kind, key, unit, w) \<in> keys)"

definition row_weight :: "(string \<Rightarrow> bool) \<Rightarrow> int \<Rightarrow> int \<Rightarrow> reservation \<Rightarrow> rat" where
  "row_weight mine since till r =
     (if mine (rs_ledgerId r) \<and> counts (rs_status r) \<and> since < rs_createdAt r \<and> rs_createdAt r \<le> till then rs_units r else 0)"

lemma in_budget_keys: "in_budget kind key unit db r \<longleftrightarrow> key_matches kind key unit (ledger_key ` set (bd_ledgers db)) (rs_ledgerId r)"
  by (force simp: in_budget_def key_matches_def ledger_key_def list_ex_iff image_iff)

lemma window_units_weight:
  "window_units kind key since till db = sum_list (map
     (row_weight (key_matches kind key Unit_call (ledger_key ` set (bd_ledgers db))) since till) (bd_reservations db))"
  by (simp add: window_units_def sum_units_def in_budget_keys row_weight_def [abs_def] sum_list_map_filter')

lemma weights_settle:
  assumes "list_all2 row_settled rs rs'" "\<forall>r \<in> set rs. 0 < rs_units r"
  shows "sum_list (map (row_weight mine since till) rs') \<le> sum_list (map (row_weight mine since till) rs)"
  using assms
  by (induction rule: list_all2_induct) (auto simp: row_settled_def row_weight_def intro!: add_mono)

lemma window_settles: "rows_settle I db db' \<Longrightarrow> budget_inv db \<Longrightarrow> window_units kind key since till db' \<le> window_units kind key since till db"
  unfolding window_units_weight rows_settle_def budget_inv_def
  by (metis (no_types, lifting) list.set_map weights_settle)

lemma unique_key:
  assumes "budget_inv db" "l \<in> set (bd_ledgers db)" "lg_ledgerId l = i"
  shows "key_matches kind key unit (ledger_key ` set (bd_ledgers db)) i \<longleftrightarrow>
    lg_scopeKind l = kind \<and> lg_scopeKey l = key \<and> lg_unitKind l = unit"
proof -
  have "m = l" if "m \<in> set (bd_ledgers db)" "lg_ledgerId m = i" for m
    using assms that by (auto simp: budget_inv_def distinct_map dest: inj_onD)
  then show ?thesis using assms(2,3) by (force simp: key_matches_def ledger_key_def image_iff)
qed

lemma window_appends:
  assumes inv: "budget_inv db" "budget_inv db'" and appends: "appends kind key unit u now db db'"
  shows "window_units kind' key' since till db' = window_units kind' key' since till db +
    (if (kind', key', Unit_call) = (kind, key, unit) \<and> since < now \<and> now \<le> till then u else 0)"
proof -
  from appends obtain fresh i runId ks l where
    rows: "bd_reservations db' = bd_reservations db @ [new_reservation fresh i runId u now]" and
    keys: "map ledger_key (bd_ledgers db') = map ledger_key (bd_ledgers db) @ ks" and
    l: "l \<in> set (bd_ledgers db')" "lg_ledgerId l = i" "lg_scopeKind l = kind" "lg_scopeKey l = key" "lg_unitKind l = unit"
    unfolding appends_def by blast
  let ?new = "key_matches kind' key' Unit_call (ledger_key ` set (bd_ledgers db'))"
  let ?old = "key_matches kind' key' Unit_call (ledger_key ` set (bd_ledgers db))"
  have "?new (rs_ledgerId r) = ?old (rs_ledgerId r)" if r: "r \<in> set (bd_reservations db)" for r
  proof -
    from inv(1) r obtain m where m: "m \<in> set (bd_ledgers db)" "lg_ledgerId m = rs_ledgerId r"
      unfolding budget_inv_def by (metis (no_types, lifting) image_iff subset_iff)
    have "ledger_key m \<in> ledger_key ` set (bd_ledgers db')"
      using m(1) arg_cong [OF keys, of set] by auto
    then obtain m' where "m' \<in> set (bd_ledgers db')" "ledger_key m' = ledger_key m" by auto
    then show ?thesis
      using unique_key [OF inv(1) m] unique_key [OF inv(2), of m' "rs_ledgerId r"] m(2) by (simp add: ledger_key_def)
  qed
  then have same: "map (row_weight ?new since till) (bd_reservations db) = map (row_weight ?old since till) (bd_reservations db)"
    by (simp add: row_weight_def)
  have new: "?new i \<longleftrightarrow> (kind', key', Unit_call) = (kind, key, unit)"
    using unique_key [OF inv(2) l(1,2)] l(3-5) by auto
  have "window_units kind' key' since till db' =
      window_units kind' key' since till db + row_weight ?new since till (new_reservation fresh i runId u now)"
    unfolding window_units_weight same [symmetric] rows by simp
  then show ?thesis by (simp add: row_weight_def new_reservation_def counts_def new)
qed

lemma window_rolling:
  assumes "budget_inv db" "now - w \<le> since"
  shows "window_units kind key since till db \<le> rolling_usage kind key Unit_call (now - w) db"
proof -
  have "\<forall>r \<in> set (bd_reservations db). 0 < rs_units r" using assms(1) by (simp add: budget_inv_def)
  then have "sum_list (map rs_units (filter P rs)) \<le> sum_list (map rs_units (filter Q rs))"
    if "\<And>r. P r \<Longrightarrow> Q r" "set rs \<subseteq> set (bd_reservations db)" for P Q rs
    using that(2) by (induction rs) (auto intro: add_increasing dest: that(1))
  then show ?thesis using assms(2) unfolding window_units_def rolling_usage_def sum_units_def by fastforce
qed

lemma window_reconcile:
  assumes inv: "budget_inv db" and "unit \<noteq> Unit_call"
    and reconcile: "reconcileReservedProviderBudget runId key' unit actual db = Inr (found, db')"
  shows "window_units kind key since till db' = window_units kind key since till db"
  using reconcile_cases(2) [OF inv reconcile]
proof (elim disjE exE conjE)
  fix r f
  assume r: "r \<in> set (bd_reservations db)" "in_budget Scope_provider key' unit db r" "rs_ledgerId (f r) = rs_ledgerId r"
    and keys: "map ledger_key (bd_ledgers db') = map ledger_key (bd_ledgers db)"
    and rows: "bd_reservations db' = update_where (\<lambda>x. rs_reservationId x = rs_reservationId r) f (bd_reservations db)"
  have "distinct (map rs_reservationId (bd_reservations db))" using inv by (simp add: budget_inv_def)
  from update_unique_split [OF this r(1)] obtain a b where
    split: "bd_reservations db = a @ r # b" "bd_reservations db' = a @ f r # b" unfolding rows by blast
  obtain l where "l \<in> set (bd_ledgers db)" "lg_ledgerId l = rs_ledgerId r" "lg_unitKind l = unit"
    using r(2) by (auto simp: in_budget_def list_ex_iff)
  then have "\<not> key_matches kind key Unit_call (ledger_key ` set (bd_ledgers db)) (rs_ledgerId r)"
    using unique_key [OF inv] \<open>unit \<noteq> Unit_call\<close> by blast
  then show ?thesis
    using r(3) arg_cong [OF keys, of set] by (simp add: window_units_weight split row_weight_def)
qed simp

lemma media_step_window:
  "media_step db db' \<Longrightarrow> budget_inv db \<Longrightarrow> window_units kind key since till db' = window_units kind key since till db"
proof (induction rule: media_step.induct)
  case (reserve_audio fresh db runId seconds minutes dbNow out db')
  then show ?case using audio_cases [OF reserve_audio(3,1,2)] window_appends [OF reserve_audio(3)] by fastforce
next
  case (reserve_credits fresh db runId credits limit dbNow out db')
  then show ?case using credit_cases [OF reserve_credits(3,1,2)] window_appends [OF reserve_credits(3)] by fastforce
next
  case (reconcile unit runId key' actual db found db')
  then show ?case using window_reconcile by blast
qed

section \<open>The rolling limits\<close>

text \<open>Under one policy the key of a scope determines its window and its limit.\<close>

definition scope_id :: "budget_scope \<Rightarrow> budget_scope_kind \<times> string" where
  "scope_id s = (bs_scopeKind s, bs_scopeKey s)"

lemma lane_text_inj: "lane_text a = lane_text b \<longleftrightarrow> a = b"
  by (cases a; cases b) simp_all

lemma phase_lane_text_inj:
  "phase_text p @ '':'' @ lane_text a = phase_text q @ '':'' @ lane_text b \<longleftrightarrow> p = q \<and> a = b"
  by (cases p; cases q) (simp_all add: lane_text_inj)

lemma identity_text: "phase_text p @ '':'' @ lane_text a \<noteq> ''IDENTITY''"
  by (cases p) simp_all

lemma scopes_by_id:
  assumes "s \<in> set (budgetScopes p l policy)" "s' \<in> set (budgetScopes q m policy)" "scope_id s = scope_id s'"
  shows "s = s'"
proof -
  have lanes: "lane_scope p l policy = lane_scope q m policy"
    if "scope_id (lane_scope p l policy) = scope_id (lane_scope q m policy)"
  proof (cases l; cases m)
    fix a b assume "l = Acquire a" "m = Acquire b"
    then show ?thesis using that phase_lane_text_inj [of p a q b] by (simp add: lane_scope_def scope_id_def)
  qed (use that identity_text [of p] identity_text [of q] in \<open>auto simp: lane_scope_def scope_id_def\<close>)
  have "bs_scopeKind (lane_scope p l policy) = Scope_lane" for p l by (simp add: lane_scope_def split: budget_lane.split)
  then show ?thesis using assms lanes by (auto simp: budgetScopes_def scope_id_def split: if_splits)
qed

lemma budgetScopes_distinct: "distinct (map scope_id (budgetScopes p l policy))"
  by (simp add: budgetScopes_def scope_id_def lane_scope_def split: budget_lane.split)

lemma reserve_scopes_window:
  "reserve_scopes fresh n runId separate units now scopes db = Inr (helds, db') \<Longrightarrow> list_all snd helds \<Longrightarrow> budget_inv db \<Longrightarrow>
   fresh_from fresh n db \<Longrightarrow> units \<ge> 1 \<Longrightarrow> distinct (map scope_id scopes) \<Longrightarrow>
   window_units kind key since till db' = window_units kind key since till db +
     (if (kind, key) \<in> scope_id ` set scopes \<and> since < now \<and> now \<le> till then of_int units else 0)"
proof (induction scopes arbitrary: n db helds)
  case Nil
  then show ?case by simp
next
  case (Cons scope scopes)
  from Cons.prems(1,2) obtain i new helds' db1 where
    one: "reserve_scope (fresh n) (fresh (n + 1)) runId separate units now scope db = Inr ((i, new), db1)" and
    rest: "reserve_scopes fresh (n + 2) runId separate units now scopes db1 = Inr (helds', db')" and
    new: new "list_all snd helds'"
    by (fastforce simp: res_bind_Inr_iff)
  have notin: "fresh n \<notin> lg_ledgerId ` set (bd_ledgers db)" "fresh (n + 1) \<notin> rs_reservationId ` set (bd_reservations db)"
    using Cons.prems(4) by (auto simp: fresh_from_def)
  note step = reserve_scope_cases [OF Cons.prems(3) notin Cons.prems(5) one]
  have "window_units kind key since till db' = window_units kind key since till db1 +
      (if (kind, key) \<in> scope_id ` set scopes \<and> since < now \<and> now \<le> till then of_int units else 0)"
    using Cons.IH [OF rest new(2) step(1) fresh_from_later [OF Cons.prems(4) step(2)] Cons.prems(5)] Cons.prems(6) by simp
  then show ?case
    using window_appends [OF Cons.prems(3) step(1) step(3) [OF new(1)], of kind key since till] Cons.prems(6)
    by (auto simp: scope_id_def)
qed

text \<open>
  The transactions under one policy, where every reservation gets rows of its own: a run reserves
  once, and probes reserve separately.
\<close>

inductive policy_step :: "budget_policy \<Rightarrow> budget_db \<Rightarrow> budget_db \<Rightarrow> bool" for policy where
  reserve: "fresh_from fresh 0 db \<Longrightarrow>
    reserveXRunBudgets fresh runId phase lane dbNow policy units separate db = Inr (out, db') \<Longrightarrow>
    xr_incrementedIds out = [] \<Longrightarrow> policy_step policy db db'"
| settle: "settle_step db db' \<Longrightarrow> policy_step policy db db'"
| media: "media_step db db' \<Longrightarrow> policy_step policy db db'"

definition window_of :: "budget_scope \<Rightarrow> int \<Rightarrow> budget_db \<Rightarrow> rat" where
  "window_of s t db = window_units (bs_scopeKind s) (bs_scopeKey s) (t - bs_windowMinutes s * 60000) t db"

definition capped :: "budget_policy \<Rightarrow> budget_db \<Rightarrow> bool" where
  "capped policy db \<longleftrightarrow> budget_inv db \<and>
     (\<forall>phase lane. \<forall>s \<in> set (budgetScopes phase lane policy). \<forall>t. window_of s t db \<le> max 0 (of_int (bs_limit s)))"

lemma policy_step_inv: "policy_step policy db db' \<Longrightarrow> budget_inv db \<Longrightarrow> budget_inv db'"
  by (induction rule: policy_step.induct) (auto intro: budget_step_inv budget_step.intros)

lemma reserve_capped:
  assumes capped: "capped policy db" and fresh: "fresh_from fresh 0 db"
    and reserve: "reserveXRunBudgets fresh runId phase lane now policy units separate db = Inr (out, db')"
    and created: "xr_incrementedIds out = []" and s: "s \<in> set (budgetScopes p l policy)"
  shows "window_of s t db' \<le> max 0 (of_int (bs_limit s))"
  using reserve
proof (cases rule: reserveXRunBudgets_cases)
  case deferred
  then show ?thesis using capped s by (auto simp: capped_def)
next
  case (reserved helds)
  have inv: "budget_inv db" using capped by (simp add: capped_def)
  have "list_all snd helds" using reserved(4) created by (simp add: filter_empty_conv list_all_iff)
  note window = reserve_scopes_window [OF reserved(3) this inv fresh reserved(1) budgetScopes_distinct]
  have old: "window_of s t db \<le> max 0 (of_int (bs_limit s))" using capped s by (simp add: capped_def)
  show ?thesis
  proof (cases "scope_id s \<in> scope_id ` set (budgetScopes phase lane policy) \<and>
      t - bs_windowMinutes s * 60000 < now \<and> now \<le> t")
    case True
    then have "s \<in> set (budgetScopes phase lane policy)" using scopes_by_id [OF s] by (metis imageE)
    then have "scope_usage now db s + of_int (coalesce units 1) \<le> of_int (bs_limit s)" using reserved(2) by blast
    moreover have "window_of s t db \<le> scope_usage now db s"
      unfolding window_of_def scope_usage_def by (rule window_rolling [OF inv]) (use True in simp)
    ultimately show ?thesis using window True by (simp add: window_of_def scope_id_def)
  next
    case False
    then show ?thesis using window old by (auto simp: window_of_def scope_id_def)
  qed
qed

lemma policy_step_capped: "policy_step policy db db' \<Longrightarrow> capped policy db \<Longrightarrow> capped policy db'"
proof -
  assume step: "policy_step policy db db'" and capped: "capped policy db"
  have inv: "budget_inv db" using capped by (simp add: capped_def)
  have "window_of s t db' \<le> max 0 (of_int (bs_limit s))" if s: "s \<in> set (budgetScopes p l policy)" for p l s t
    using step
  proof (cases rule: policy_step.cases)
    case (reserve fresh runId phase lane dbNow units separate out)
    then show ?thesis using reserve_capped [OF capped _ _ _ s] by blast
  next
    case settle
    then have "window_of s t db' \<le> window_of s t db"
      unfolding window_of_def by (intro window_settles [OF _ inv]) (rule settle_step_settles [OF _ inv])
    moreover have "window_of s t db \<le> max 0 (of_int (bs_limit s))" using capped s by (simp add: capped_def)
    ultimately show ?thesis by (rule order_trans)
  next
    case media
    then have "window_of s t db' = window_of s t db" unfolding window_of_def by (rule media_step_window [OF _ inv])
    then show ?thesis using capped s by (simp add: capped_def)
  qed
  then show ?thesis using policy_step_inv [OF step inv] by (simp add: capped_def)
qed

interpretation capping: step_invariant "policy_step policy" "capped policy" for policy
  by unfold_locales (rule policy_step_capped)


section \<open>Witnesses\<close>

text \<open>A run reserves a call in the final ninety minutes and commits it, which exhausts its club lane.\<close>

definition example_policy :: budget_policy where
  "example_policy = \<lparr>bp_globalLimit = 2, bp_final90Limit = 1, bp_identityLimit = 1, bp_laneCaps = (\<lambda>_ _. 1),
     bp_laneWindowMinutes = (\<lambda>_. 60)\<rparr>"

definition example_ids :: "nat \<Rightarrow> string" where
  "example_ids n = replicate n CHR ''x''"

definition example_reserve :: "int \<Rightarrow> budget_db \<Rightarrow> (budget_error, x_reservation_result \<times> budget_db) result" where
  "example_reserve now = reserveXRunBudgets example_ids ''run'' Phase_final90 (Acquire Lane_club) now example_policy (Some 1) False"

definition reserved_db :: budget_db where
  "reserved_db = (case example_reserve 7200000 no_budgets of Inr (_, db) \<Rightarrow> db | Inl _ \<Rightarrow> no_budgets)"

definition committed_db :: budget_db where
  "committed_db = (case commitXRunBudgets ''run'' reserved_db of Inr (_, db) \<Rightarrow> db | Inl _ \<Rightarrow> no_budgets)"

lemma example_fresh: "fresh_from example_ids 0 no_budgets"
  by (auto simp: fresh_from_def no_budgets_def example_ids_def inj_def)

lemma example_reserved:
  obtains out where "example_reserve 7200000 no_budgets = Inr (out, reserved_db)" "xr_incrementedIds out = []"
proof -
  have "case example_reserve 7200000 no_budgets of Inr (out, db) \<Rightarrow> xr_incrementedIds out = [] | Inl _ \<Rightarrow> False" by code_simp
  then show ?thesis using that by (auto simp: reserved_db_def split: sum.splits)
qed

lemma example_committed:
  obtains n where "commitXRunBudgets ''run'' reserved_db = Inr (n, committed_db)"
proof -
  have "case commitXRunBudgets ''run'' reserved_db of Inr (n, db) \<Rightarrow> n = 3 | Inl _ \<Rightarrow> False" by code_simp
  then show ?thesis using that by (auto simp: committed_db_def split: sum.splits)
qed

lemma example_policy_steps: "(policy_step example_policy)\<^sup>*\<^sup>* no_budgets committed_db"
proof -
  obtain out where "example_reserve 7200000 no_budgets = Inr (out, reserved_db)" "xr_incrementedIds out = []"
    by (rule example_reserved)
  then have "policy_step example_policy no_budgets reserved_db"
    using policy_step.reserve [OF example_fresh] by (simp add: example_reserve_def)
  moreover obtain n where "commitXRunBudgets ''run'' reserved_db = Inr (n, committed_db)" by (rule example_committed)
  then have "policy_step example_policy reserved_db committed_db" by (intro policy_step.settle settle_step.commit_run)
  ultimately show ?thesis by simp
qed

lemma policy_steps_budget_steps: "(policy_step policy)\<^sup>*\<^sup>* db db' \<Longrightarrow> budget_step\<^sup>*\<^sup>* db db'"
  by (induction rule: rtranclp_induct)
     (auto elim!: policy_step.cases intro: rtranclp.rtrancl_into_rtrancl budget_step.intros)

theorem budget_books_balance_witness:
  "budget_step\<^sup>*\<^sup>* no_budgets committed_db \<and> hd (bd_ledgers committed_db) \<in> set (bd_ledgers committed_db) \<and>
   lg_reservedUnits (hd (bd_ledgers committed_db)) = 0 \<and> lg_committedUnits (hd (bd_ledgers committed_db)) = 1 \<and>
   sum_units (filter (\<lambda>r. rs_ledgerId r = lg_ledgerId (hd (bd_ledgers committed_db)) \<and> rs_status r = Res_committed)
     (bd_reservations committed_db)) \<le> lg_committedUnits (hd (bd_ledgers committed_db))"
proof -
  have steps: "budget_step\<^sup>*\<^sup>* no_budgets committed_db" by (rule policy_steps_budget_steps [OF example_policy_steps])
  have "length (bd_ledgers committed_db) = 3" "lg_reservedUnits (hd (bd_ledgers committed_db)) = 0"
    "lg_committedUnits (hd (bd_ledgers committed_db)) = 1" by code_simp+
  moreover from this(1) have "hd (bd_ledgers committed_db) \<in> set (bd_ledgers committed_db)" by (cases "bd_ledgers committed_db") auto
  ultimately show ?thesis using steps budget_books_balance [OF steps] by blast
qed

definition club_scope :: budget_scope where
  "club_scope = lane_scope Phase_final90 (Acquire Lane_club) example_policy"


end
